(* ===== verification/Prelude.thy ===== *)
theory Prelude
  imports Main "HOL-Library.AList" "HOL-Library.Char_ord"
begin

section \<open>Shared vocabulary and automation\<close>

text \<open>
  What every component theory uses: the result type of code that may throw, the JavaScript
  \<open>Map\<close> as an insertion-ordered association list, decimal and radix digit strings,
  \<open>String.prototype.trim\<close> and \<open>toLowerCase\<close>, and the lemma collections of the development.

  A HOL \<open>char\<close> stands for a UTF-16 code unit below 256 (the Latin-1 range); \<open>length\<close> therefore
  counts code units, as JavaScript does.
\<close>

named_theorems jsmap_simps "rewrite rules for insertion-ordered maps"
named_theorems digit_simps "facts about digits and digit strings"
named_theorems inv_intros "one invariant-preservation rule per operation"

subsection \<open>Results of code that may throw\<close>

text \<open>The classes of \<open>packages/shared/src/errors.ts\<close>; the message travels with the class.\<close>

datatype err_class =
    ConfigErr | PricingErr | ValidationErr | NotFoundErr | PaymentErr
  | SettlementErr | NoCapacityErr | UpstreamErr | AuthErr | RateLimitErr

datatype exn = Exn (exn_class: err_class) (exn_message: string)

type_synonym 'a res = "exn + 'a"

abbreviation throw :: "err_class \<Rightarrow> string \<Rightarrow> 'a res" where
  "throw c m \<equiv> Inl (Exn c m)"

definition bind_res :: "'a res \<Rightarrow> ('a \<Rightarrow> 'b res) \<Rightarrow> 'b res" where
  "bind_res r f = (case r of Inl e \<Rightarrow> Inl e | Inr x \<Rightarrow> f x)"

lemma bind_res_simps [simp]:
  "bind_res (Inl e) f = Inl e"
  "bind_res (Inr x) f = f x"
  by (simp_all add: bind_res_def)

lemma bind_res_Inr_iff: "bind_res r f = Inr y \<longleftrightarrow> (\<exists>x. r = Inr x \<and> f x = Inr y)"
  by (cases r) simp_all

definition isOk :: "'a res \<Rightarrow> bool" where
  "isOk r \<longleftrightarrow> (case r of Inl _ \<Rightarrow> False | Inr _ \<Rightarrow> True)"

lemma isOk_simps [simp]: "isOk (Inr x)" "\<not> isOk (Inl e)"
  by (simp_all add: isOk_def)

lemma isOk_iff: "isOk r \<longleftrightarrow> (\<exists>x. r = Inr x)"
  by (cases r) simp_all

fun map_res :: "('a \<Rightarrow> 'b res) \<Rightarrow> 'a list \<Rightarrow> 'b list res" where
  "map_res f [] = Inr []"
| "map_res f (x # xs) = bind_res (f x) (\<lambda>y. bind_res (map_res f xs) (\<lambda>ys. Inr (y # ys)))"

lemma map_res_Inr_length: "map_res f xs = Inr ys \<Longrightarrow> length ys = length xs"
  by (induction xs arbitrary: ys) (auto simp: bind_res_Inr_iff)

lemma map_res_cong: "(\<And>x. x \<in> set xs \<Longrightarrow> f x = g x) \<Longrightarrow> map_res f xs = map_res g xs"
  by (induction xs) simp_all

lemma length_takeWhile_take: "length (takeWhile P (take n xs)) = min (length (takeWhile P xs)) n"
proof (induction xs arbitrary: n)
  case (Cons x xs)
  then show ?case by (cases n) simp_all
qed simp

subsection \<open>The JavaScript Map: insertion order, update in place\<close>

text \<open>
  \<open>Map.prototype.set\<close> keeps the position of a key that is present and appends a new one;
  iteration follows insertion order. \<open>AList.update\<close> and \<open>AList.delete\<close> do exactly that on
  an association list whose keys are distinct.
\<close>

type_synonym ('k, 'v) jsmap = "('k \<times> 'v) list"

abbreviation jget :: "('k, 'v) jsmap \<Rightarrow> 'k \<Rightarrow> 'v option" where
  "jget m k \<equiv> map_of m k"

abbreviation jset :: "'k \<Rightarrow> 'v \<Rightarrow> ('k, 'v) jsmap \<Rightarrow> ('k, 'v) jsmap" where
  "jset \<equiv> AList.update"

abbreviation jdel :: "'k \<Rightarrow> ('k, 'v) jsmap \<Rightarrow> ('k, 'v) jsmap" where
  "jdel \<equiv> AList.delete"

abbreviation jkeys :: "('k, 'v) jsmap \<Rightarrow> 'k list" where
  "jkeys m \<equiv> map fst m"

abbreviation jvals :: "('k, 'v) jsmap \<Rightarrow> 'v list" where
  "jvals m \<equiv> map snd m"

abbreviation jhas :: "('k, 'v) jsmap \<Rightarrow> 'k \<Rightarrow> bool" where
  "jhas m k \<equiv> k \<in> fst ` set m"

definition jwf :: "('k, 'v) jsmap \<Rightarrow> bool" where
  "jwf m \<longleftrightarrow> distinct (jkeys m)"

lemma jget_jset [jsmap_simps]: "jget (jset k v m) k' = (if k' = k then Some v else jget m k')"
  by (simp add: update_conv')

lemma jget_jdel [jsmap_simps]: "jget (jdel k m) k' = (if k' = k then None else jget m k')"
  by (simp add: delete_conv')

lemma jwf_Nil [simp, inv_intros]: "jwf []"
  by (simp add: jwf_def)

lemma jwf_jset [inv_intros]: "jwf m \<Longrightarrow> jwf (jset k v m)"
  unfolding jwf_def by (rule distinct_update)

lemma jwf_jdel [inv_intros]: "jwf m \<Longrightarrow> jwf (jdel k m)"
  unfolding jwf_def by (rule distinct_delete)

lemma jhas_iff: "jhas m k \<longleftrightarrow> jget m k \<noteq> None"
  by (metis map_of_eq_None_iff)

lemma jhas_jset [jsmap_simps]: "jhas (jset k v m) k' \<longleftrightarrow> k' = k \<or> jhas m k'"
  by (auto simp: jhas_iff jget_jset)

lemma jhas_jdel [jsmap_simps]: "jhas (jdel k m) k' \<longleftrightarrow> k' \<noteq> k \<and> jhas m k'"
  by (auto simp: jhas_iff jget_jdel)

lemma jget_in_set: "jwf m \<Longrightarrow> jget m k = Some v \<longleftrightarrow> (k, v) \<in> set m"
  unfolding jwf_def by (rule map_of_eq_Some_iff)

lemma jset_fresh: "\<not> jhas m k \<Longrightarrow> jset k v m = m @ [(k, v)]"
  by (induction m) auto

lemma jset_keys_present: "jhas m k \<Longrightarrow> jkeys (jset k v m) = jkeys m"
  by (induction m) auto

lemma length_jset [jsmap_simps]:
  "length (jset k v m) = (if jhas m k then length m else Suc (length m))"
  by (induction m) auto

lemma jset_set_subset: "set (jset k v m) \<subseteq> insert (k, v) (set m)"
  by (induction m) auto

lemma jdel_set_subset: "set (jdel k m) \<subseteq> set m"
  by (auto simp: AList.delete_eq)

lemma jset_set:
  assumes "jwf m"
  shows "set (jset k v m) = insert (k, v) {p \<in> set m. fst p \<noteq> k}"
  using assms unfolding jwf_def by (induction m) (auto simp: image_iff)

lemma jdel_set [jsmap_simps]: "set (jdel k m) = {p \<in> set m. fst p \<noteq> k}"
  by (auto simp: AList.delete_eq)

subsection \<open>Sums over a map: replacing or deleting one entry\<close>

lemma sum_list_jset_fresh:
  fixes f :: "'k \<times> 'v \<Rightarrow> 'a::comm_monoid_add"
  assumes "\<not> jhas m k"
  shows "sum_list (map f (jset k v m)) = sum_list (map f m) + f (k, v)"
  by (simp add: jset_fresh [OF assms])

lemma sum_list_jdel:
  fixes f :: "'k \<times> 'v \<Rightarrow> 'a::comm_monoid_add"
  assumes "jwf m" and "jget m k = Some v"
  shows "sum_list (map f m) = f (k, v) + sum_list (map f (jdel k m))"
  using assms
proof (induction m)
  case Nil
  then show ?case by simp
next
  case (Cons p m)
  show ?case
  proof (cases "fst p = k")
    case True
    have "k \<notin> fst ` set m" using Cons.prems(1) True by (auto simp: jwf_def)
    then have "jdel k m = m" by (rule delete_id)
    with True Cons.prems(2) show ?thesis by (cases p) simp
  next
    case False
    have "jwf m" using Cons.prems(1) by (simp add: jwf_def)
    moreover have "jget m k = Some v" using Cons.prems(2) False by (cases p) simp
    ultimately have "sum_list (map f m) = f (k, v) + sum_list (map f (jdel k m))"
      by (rule Cons.IH)
    with False show ?thesis by (cases p) (simp add: add.left_commute)
  qed
qed

lemma sum_list_jset:
  fixes f :: "'k \<times> 'v \<Rightarrow> 'a::comm_monoid_add"
  assumes "jwf m"
  shows "sum_list (map f (jset k v m)) = f (k, v) + sum_list (map f (jdel k m))"
proof -
  have "jget (jset k v m) k = Some v" by (simp add: jget_jset)
  moreover have "jdel k (jset k v m) = jdel k m"
    by (induction m) auto
  ultimately show ?thesis
    using sum_list_jdel [of "jset k v m" k v f] jwf_jset [OF assms] by simp
qed

end
