(* ===== verification/Strings.thy ===== *)
theory Strings
  imports Prelude
begin

section \<open>JavaScript strings: whitespace, case, digits, padding\<close>

text \<open>
  The string operations of the standard library that the source calls: \<open>trim\<close>,
  \<open>toLowerCase\<close>, \<open>startsWith\<close>, \<open>split\<close>, \<open>padStart\<close>, \<open>padEnd\<close>, \<open>slice(0, n)\<close>,
  \<open>toString(radix)\<close> and the reading of a digit string by \<open>BigInt\<close>. Code units below 256 only.
\<close>

subsection \<open>Characters\<close>

definition code :: "char \<Rightarrow> nat" where
  "code c = of_char c"

definition is_digit :: "char \<Rightarrow> bool" where
  "is_digit c \<longleftrightarrow> 48 \<le> code c \<and> code c \<le> 57"

definition is_ws :: "char \<Rightarrow> bool" where
  "is_ws c \<longleftrightarrow> code c \<in> {9, 10, 11, 12, 13, 32, 160}"

definition is_upper :: "char \<Rightarrow> bool" where
  "is_upper c \<longleftrightarrow> (65 \<le> code c \<and> code c \<le> 90) \<or> (192 \<le> code c \<and> code c \<le> 222 \<and> code c \<noteq> 215)"

definition lower_char :: "char \<Rightarrow> char" where
  "lower_char c = (if is_upper c then char_of (code c + 32) else c)"

definition to_lower :: "string \<Rightarrow> string" where
  "to_lower s = map lower_char s"

lemma code_less [digit_simps]: "code c < 256"
  by (simp add: code_def)

lemma code_char_of: "n < 256 \<Longrightarrow> code (char_of n) = n"
  by (simp add: code_def)

lemma is_upper_lower_char: "\<not> is_upper (lower_char c)"
  by (auto simp: lower_char_def is_upper_def code_char_of)

lemma lower_char_idem: "lower_char (lower_char c) = lower_char c"
  using is_upper_lower_char [of c] by (subst lower_char_def) simp

lemma to_lower_idem: "to_lower (to_lower s) = to_lower s"
  by (simp add: to_lower_def lower_char_idem)

lemma is_ws_lower_char: "is_ws (lower_char c) = is_ws c"
proof (cases "is_upper c")
  case True
  then have "code (lower_char c) = code c + 32" and "65 \<le> code c"
    by (auto simp: lower_char_def is_upper_def code_char_of)
  with True show ?thesis by (auto simp: is_ws_def is_upper_def)
next
  case False
  then show ?thesis by (simp add: lower_char_def)
qed

subsection \<open>trim, startsWith, slice, split\<close>

definition trim :: "string \<Rightarrow> string" where
  "trim s = rev (dropWhile is_ws (rev (dropWhile is_ws s)))"

definition starts_with :: "string \<Rightarrow> string \<Rightarrow> bool" where
  "starts_with p s \<longleftrightarrow> take (length p) s = p"

definition slice_to :: "nat \<Rightarrow> string \<Rightarrow> string" where
  "slice_to n s = take n s"

fun split_on :: "char \<Rightarrow> string \<Rightarrow> string list" where
  "split_on c [] = [[]]"
| "split_on c (x # xs) =
     (if x = c then [] # split_on c xs
      else (case split_on c xs of [] \<Rightarrow> [[x]] | w # ws \<Rightarrow> (x # w) # ws))"

fun join_with :: "string \<Rightarrow> string list \<Rightarrow> string" where
  "join_with sep [] = []"
| "join_with sep [w] = w"
| "join_with sep (w # ws) = w @ sep @ join_with sep ws"

lemma split_on_nonempty [simp]: "split_on c s \<noteq> []"
  by (induction s) (auto split: list.splits)

lemma join_split_on: "join_with [c] (split_on c s) = s"
proof (induction s)
  case Nil
  then show ?case by simp
next
  case (Cons x xs)
  obtain w ws where w: "split_on c xs = w # ws"
    by (cases "split_on c xs") auto
  with Cons show ?case by (cases ws) auto
qed

lemma trim_no_outer_ws:
  assumes "s = [] \<or> (\<not> is_ws (hd s) \<and> \<not> is_ws (last s))"
  shows "trim s = s"
proof (cases "s = []")
  case True
  then show ?thesis by (simp add: trim_def)
next
  case False
  with assms have "\<not> is_ws (hd s)" "\<not> is_ws (hd (rev s))" by (auto simp: hd_rev)
  with False have "dropWhile is_ws s = s" "dropWhile is_ws (rev s) = rev s"
    by (metis dropWhile_eq_self_iff)+
  then show ?thesis by (simp add: trim_def)
qed

lemma trim_outer: "trim s = [] \<or> (\<not> is_ws (hd (trim s)) \<and> \<not> is_ws (last (trim s)))"
proof (cases "trim s = []")
  case True
  then show ?thesis by simp
next
  case False
  define t where "t = dropWhile is_ws s"
  have ne: "dropWhile is_ws (rev t) \<noteq> []"
    using False by (simp add: trim_def t_def)
  have last: "\<not> is_ws (last (trim s))"
    using hd_dropWhile [OF ne] by (simp add: trim_def t_def last_rev)
  have "t \<noteq> []" using ne by auto
  then have hd_t: "\<not> is_ws (hd t)" using hd_dropWhile [of is_ws s] by (simp add: t_def)
  have "t = trim s @ rev (takeWhile is_ws (rev t))"
    by (metis rev_append rev_rev_ident takeWhile_dropWhile_id t_def trim_def)
  then have "hd t = hd (trim s)" using False by (metis hd_append2)
  with hd_t last show ?thesis by simp
qed

lemma trim_idem [simp]: "trim (trim s) = trim s"
  by (rule trim_no_outer_ws) (rule trim_outer)

lemma dropWhile_lower: "dropWhile is_ws (map lower_char s) = map lower_char (dropWhile is_ws s)"
  by (induction s) (simp_all add: is_ws_lower_char)

lemma trim_to_lower: "trim (to_lower s) = to_lower (trim s)"
  by (simp add: trim_def to_lower_def dropWhile_lower rev_map)

lemma set_trim: "set (trim s) \<subseteq> set s"
  unfolding trim_def by (metis set_dropWhileD set_rev subsetI)

subsection \<open>Digits and radix strings\<close>

definition radix_char :: "nat \<Rightarrow> char" where
  "radix_char d = char_of (if d < 10 then 48 + d else 87 + d)"

definition digit_val :: "char \<Rightarrow> nat" where
  "digit_val c = (if is_digit c then code c - 48 else code c - 87)"

function radix_str :: "nat \<Rightarrow> nat \<Rightarrow> string" where
  "radix_str b n = (if b < 2 \<or> n < b then [radix_char n]
                    else radix_str b (n div b) @ [radix_char (n mod b)])"
  by pat_completeness auto
termination
  by (relation "measure snd") (auto intro!: div_less_dividend)

declare radix_str.simps [simp del]

definition radix_val :: "nat \<Rightarrow> string \<Rightarrow> nat" where
  "radix_val b s = foldl (\<lambda>a c. b * a + digit_val c) 0 s"

abbreviation nat_str :: "nat \<Rightarrow> string" where
  "nat_str n \<equiv> radix_str 10 n"

abbreviation dec_val :: "string \<Rightarrow> nat" where
  "dec_val s \<equiv> radix_val 10 s"

definition int_str :: "int \<Rightarrow> string" where
  "int_str i = (if i < 0 then CHR ''-'' # nat_str (nat (- i)) else nat_str (nat i))"

lemma code_radix_char [digit_simps]:
  "d < 36 \<Longrightarrow> code (radix_char d) = (if d < 10 then 48 + d else 87 + d)"
  by (auto simp: radix_char_def code_char_of)

lemma digit_val_radix_char [digit_simps]: "d < 36 \<Longrightarrow> digit_val (radix_char d) = d"
  by (auto simp: digit_val_def is_digit_def code_radix_char)

lemma is_digit_radix_char [digit_simps]: "d < 10 \<Longrightarrow> is_digit (radix_char d)"
  by (simp add: is_digit_def code_radix_char)

lemma radix_val_snoc [digit_simps]: "radix_val b (s @ [c]) = b * radix_val b s + digit_val c"
  by (simp add: radix_val_def)

lemma radix_val_Nil [simp]: "radix_val b [] = 0"
  by (simp add: radix_val_def)

lemma radix_val_radix_str [digit_simps]:
  assumes "2 \<le> b" and "b \<le> 36"
  shows "radix_val b (radix_str b n) = n"
  using assms
proof (induction b n rule: radix_str.induct)
  case (1 b n)
  show ?case
  proof (cases "n < b")
    case True
    with "1.prems" show ?thesis
      by (simp add: radix_str.simps [of b n] radix_val_def digit_val_radix_char)
  next
    case False
    have m: "n mod b < 36" using "1.prems" by (meson mod_less_divisor less_le_trans zero_less_numeral)
    from False "1.IH" "1.prems" m show ?thesis
      by (simp add: radix_str.simps [of b n] radix_val_snoc digit_val_radix_char)
  qed
qed

lemma radix_str_inj:
  "2 \<le> b \<Longrightarrow> b \<le> 36 \<Longrightarrow> radix_str b m = radix_str b n \<longleftrightarrow> m = n"
  by (metis radix_val_radix_str)

lemma radix_str_nonempty [simp]: "radix_str b n \<noteq> []"
  by (subst radix_str.simps) simp

lemma radix_str_codes:
  assumes "2 \<le> b" and "b \<le> 36"
  shows "\<forall>c \<in> set (radix_str b n). \<exists>d < b. c = radix_char d"
  using assms
proof (induction b n rule: radix_str.induct)
  case (1 b n)
  show ?case
  proof (cases "n < b")
    case True
    then show ?thesis by (auto simp: radix_str.simps [of b n])
  next
    case False
    have "n mod b < b" using "1.prems" by simp
    then have "\<exists>d < b. radix_char (n mod b) = radix_char d" by blast
    with False "1.IH" "1.prems" show ?thesis
      by (auto simp: radix_str.simps [of b n])
  qed
qed

lemma nat_str_digits [digit_simps]: "list_all is_digit (nat_str n)"
  using radix_str_codes [of 10 n] by (auto simp: list_all_iff is_digit_radix_char)

lemma dec_val_nat_str [simp]: "dec_val (nat_str n) = n"
  by (simp add: radix_val_radix_str)

lemma nat_str_inj [simp]: "nat_str m = nat_str n \<longleftrightarrow> m = n"
  by (rule radix_str_inj) simp_all

lemma is_digit_not_ws [digit_simps]: "is_digit c \<Longrightarrow> \<not> is_ws c"
  by (auto simp: is_digit_def is_ws_def)

lemma trim_nat_str [simp]: "trim (nat_str n) = nat_str n"
proof (rule trim_no_outer_ws)
  have "hd (nat_str n) \<in> set (nat_str n)" "last (nat_str n) \<in> set (nat_str n)" by simp_all
  then have "is_digit (hd (nat_str n))" "is_digit (last (nat_str n))"
    using nat_str_digits [of n] by (auto simp: list_all_iff)
  then show "nat_str n = [] \<or> (\<not> is_ws (hd (nat_str n)) \<and> \<not> is_ws (last (nat_str n)))"
    by (simp add: is_digit_not_ws)
qed

subsection \<open>Padding\<close>

definition pad_end :: "nat \<Rightarrow> char \<Rightarrow> string \<Rightarrow> string" where
  "pad_end n c s = s @ replicate (n - length s) c"

definition pad_start :: "nat \<Rightarrow> char \<Rightarrow> string \<Rightarrow> string" where
  "pad_start n c s = replicate (n - length s) c @ s"

lemma length_pad_end [simp]: "length (pad_end n c s) = max n (length s)"
  by (simp add: pad_end_def)

lemma length_pad_start [simp]: "length (pad_start n c s) = max n (length s)"
  by (simp add: pad_start_def)

lemma radix_val_append:
  "radix_val b (s @ t) = radix_val b s * b ^ length t + radix_val b t"
proof (induction t rule: rev_induct)
  case Nil
  then show ?case by simp
next
  case (snoc c t)
  have "radix_val b ((s @ t) @ [c]) = b * radix_val b (s @ t) + digit_val c"
    by (rule radix_val_snoc)
  with snoc show ?case by (simp add: radix_val_snoc algebra_simps)
qed

lemma digit_val_0 [simp]: "digit_val CHR ''0'' = 0"
  by (simp add: digit_val_def is_digit_def code_def)

lemma radix_val_zeros [simp]: "radix_val b (replicate n CHR ''0'') = 0"
  by (induction n) (simp_all add: replicate_append_same [symmetric] radix_val_snoc
    del: replicate_Suc add: replicate_Suc [THEN trans, OF replicate_append_same [symmetric]])

lemma dec_val_pad_end: "dec_val (pad_end n CHR ''0'' s) = dec_val s * 10 ^ (n - length s)"
  by (simp add: pad_end_def radix_val_append)

lemma dec_val_pad_start: "dec_val (pad_start n CHR ''0'' s) = dec_val s"
  by (simp add: pad_start_def radix_val_append)

lemma digit_val_less_10 [digit_simps]: "is_digit c \<Longrightarrow> digit_val c < 10"
  by (auto simp: digit_val_def is_digit_def)

lemma dec_val_less: "list_all is_digit s \<Longrightarrow> dec_val s < 10 ^ length s"
proof (induction s rule: rev_induct)
  case Nil
  then show ?case by simp
next
  case (snoc c s)
  then have "dec_val s + 1 \<le> 10 ^ length s" and "digit_val c < 10"
    by (simp_all add: digit_val_less_10 Suc_leI)
  then have "10 * dec_val s + digit_val c < 10 * 10 ^ length s" by linarith
  then show ?case by (simp add: radix_val_snoc)
qed

lemma length_nat_str_le: "n < 10 ^ k \<Longrightarrow> 0 < k \<Longrightarrow> length (nat_str n) \<le> k"
proof (induction k arbitrary: n)
  case 0
  then show ?case by simp
next
  case (Suc k)
  show ?case
  proof (cases "n < 10")
    case True
    then show ?thesis by (simp add: radix_str.simps [of 10 n])
  next
    case False
    with Suc.prems have "n div 10 < 10 ^ k" "0 < k"
      by (auto simp: less_mult_imp_div_less mult.commute intro: Suc.prems(2) gr0I)
    then have "length (nat_str (n div 10)) \<le> k" by (rule Suc.IH)
    with False show ?thesis by (simp add: radix_str.simps [of 10 n])
  qed
qed

end
