(* ===== verification/JsNumber.thy ===== *)
theory JsNumber
  imports Prelude "HOL-Library.Log_Nat"
begin

section \<open>JavaScript numbers: IEEE-754 binary64 with NaN and infinities\<close>

text \<open>
  The scoring, percentile and backoff code computes with \<open>number\<close>. A value is a rational, an
  infinity or \<open>NaN\<close>; every arithmetic operation is the exact rational operation followed by
  rounding to binary64 (round half to even, gradual underflow, overflow to an infinity). The
  sign of zero is not kept. The interface the clients use is the locale \<open>rounding\<close>: a rounding
  function is monotone and fixes 0, 1 and the other small integers. It is interpreted here on
  the concrete binary64 rounding \<open>fl64\<close>.
\<close>

subsection \<open>Rounding to binary64\<close>

definition ilog2_adjust :: "rat \<Rightarrow> int \<Rightarrow> int" where
  "ilog2_adjust x k = (if 2 powi k \<le> x then k else k - 1)"

definition ilog2 :: "rat \<Rightarrow> int" where
  "ilog2 x = (case quotient_of x of (p, q) \<Rightarrow> ilog2_adjust x (bitlen p - bitlen q))"

definition rne_adjust :: "int \<Rightarrow> rat \<Rightarrow> int" where
  "rne_adjust f r =
     (if r < 1/2 then f else if 1/2 < r then f + 1 else if even f then f else f + 1)"

definition rne :: "rat \<Rightarrow> int" where
  "rne x = rne_adjust \<lfloor>x\<rfloor> (x - of_int \<lfloor>x\<rfloor>)"

definition binade :: "rat \<Rightarrow> int" where
  "binade x = max (ilog2 x) (- 1022)"

definition round_to_unit :: "rat \<Rightarrow> rat \<Rightarrow> rat" where
  "round_to_unit x u = of_int (rne (x / u)) * u"

definition fl64 :: "rat \<Rightarrow> rat" where
  "fl64 x = (if x = 0 then 0 else round_to_unit x (2 powi (binade \<bar>x\<bar> - 52)))"

subsection \<open>The integer logarithm\<close>

lemma bitlen_powi:
  assumes "0 < p"
  shows "(2::rat) powi (bitlen p - 1) \<le> of_int p" and "(of_int p :: rat) < 2 powi bitlen p"
proof -
  have b: "2 ^ nat (bitlen p - 1) \<le> p \<and> p < 2 ^ nat (bitlen p)"
    using assms by (rule bitlen_bounds)
  have pos: "0 < bitlen p"
  proof (rule ccontr)
    assume "\<not> 0 < bitlen p"
    with b have "p < 1" by simp
    with assms show False by simp
  qed
  have "(of_int (2 ^ nat (bitlen p - 1)) :: rat) \<le> of_int p" using b by (simp only: of_int_le_iff)
  with pos show "(2::rat) powi (bitlen p - 1) \<le> of_int p" by (simp add: power_int_def)
  have "(of_int p :: rat) < of_int (2 ^ nat (bitlen p))" using b by (simp only: of_int_less_iff)
  with pos show "(of_int p :: rat) < 2 powi bitlen p" by (simp add: power_int_def)
qed

lemma ilog2_bounds:
  assumes "0 < x"
  shows "2 powi ilog2 x \<le> x" and "x < 2 powi (ilog2 x + 1)"
proof -
  obtain p q where pq: "quotient_of x = (p, q)" by (cases "quotient_of x")
  have q: "0 < q" using pq by (rule quotient_of_denom_pos)
  have x: "x = of_int p / of_int q" using pq by (rule quotient_of_div)
  with assms q have p: "0 < p" by (simp add: zero_less_divide_iff)
  let ?k = "bitlen p - bitlen q"
  have "x < 2 powi bitlen p / of_int q"
    using bitlen_powi(2) [OF p] q unfolding x by (simp add: divide_strict_right_mono)
  also have "\<dots> \<le> 2 powi bitlen p / 2 powi (bitlen q - 1)"
    using bitlen_powi(1) [OF q] by (intro divide_left_mono) (simp_all add: q)
  also have "\<dots> = 2 powi (?k + 1)"
    by (simp add: power_int_diff [symmetric] algebra_simps)
  finally have up: "x < 2 powi (?k + 1)" .
  have "2 powi (?k - 1) = (2::rat) powi (bitlen p - 1) / 2 powi bitlen q"
    by (simp add: power_int_diff [symmetric] algebra_simps)
  also have "\<dots> \<le> of_int p / 2 powi bitlen q"
    using bitlen_powi(1) [OF p] by (simp add: divide_right_mono)
  also have "\<dots> \<le> x"
    unfolding x using bitlen_powi(2) [OF q] p q by (intro divide_left_mono) simp_all
  finally have lo: "2 powi (?k - 1) \<le> x" .
  show "2 powi ilog2 x \<le> x" "x < 2 powi (ilog2 x + 1)"
    using up lo by (auto simp: ilog2_def ilog2_adjust_def pq not_le)
qed

lemma powi2_le: "m \<le> n \<Longrightarrow> (2::rat) powi m \<le> 2 powi n"
  by (rule power_int_increasing) simp_all

lemma powi2_less_D: "(2::rat) powi m < 2 powi n \<Longrightarrow> m < n"
  using powi2_le [of n m] by (meson linorder_not_less)

lemma ilog2_mono:
  assumes "0 < x" and "x \<le> y"
  shows "ilog2 x \<le> ilog2 y"
proof -
  have "2 powi ilog2 x < (2::rat) powi (ilog2 y + 1)"
    using ilog2_bounds(1) [of x] ilog2_bounds(2) [of y] assms by (meson le_less_trans less_le_trans)
  then show ?thesis using powi2_less_D by fastforce
qed

lemma binade_mono: "0 < x \<Longrightarrow> x \<le> y \<Longrightarrow> binade x \<le> binade y"
  using ilog2_mono [of x y] by (simp add: binade_def)

lemma ilog2_eqI:
  assumes "2 powi k \<le> x" and "x < 2 powi (k + 1)"
  shows "ilog2 x = k"
proof -
  have pos: "0 < x" using assms(1) by (meson less_le_trans zero_less_numeral zero_less_power_int)
  have "(2::rat) powi k < 2 powi (ilog2 x + 1)" "(2::rat) powi ilog2 x < 2 powi (k + 1)"
    using ilog2_bounds [OF pos] assms by linarith+
  then show ?thesis using powi2_less_D [of k "ilog2 x + 1"] powi2_less_D [of "ilog2 x" "k + 1"] by linarith
qed

subsection \<open>Round half to even\<close>

lemma rne_of_int [simp]: "rne (of_int n) = n"
  by (simp add: rne_def rne_adjust_def)

lemma rne_cases: "rne x = \<lfloor>x\<rfloor> \<or> rne x = \<lfloor>x\<rfloor> + 1"
  by (auto simp: rne_def rne_adjust_def)

lemma rne_mono:
  assumes "x \<le> y"
  shows "rne x \<le> rne y"
proof (cases "\<lfloor>x\<rfloor> = \<lfloor>y\<rfloor>")
  case True
  with assms show ?thesis by (auto simp: rne_def rne_adjust_def)
next
  case False
  with assms have "\<lfloor>x\<rfloor> + 1 \<le> \<lfloor>y\<rfloor>" using floor_mono by fastforce
  then show ?thesis using rne_cases [of x] rne_cases [of y] by linarith
qed

lemma rne_minus: "rne (- x) = - rne x"
proof (cases "x = of_int \<lfloor>x\<rfloor>")
  case True
  then show ?thesis by (metis of_int_minus rne_of_int)
next
  case False
  define f where "f = \<lfloor>x\<rfloor>"
  define r where "r = x - of_int f"
  have "of_int f < x" using False unfolding f_def by (metis le_less of_int_floor_le)
  then have r: "0 < r" "r < 1" using floor_correct [of x] by (auto simp: r_def f_def)
  have x: "x = of_int f + r" by (simp add: r_def)
  have g: "\<lfloor>- x\<rfloor> = - f - 1" using r by (intro floor_unique) (simp_all add: x)
  have "- x - of_int \<lfloor>- x\<rfloor> = 1 - r" unfolding g by (simp add: x)
  then have "rne (- x) = (if 1 - r < 1/2 then - f - 1 else if 1/2 < 1 - r then - f
      else if even (- f - 1) then - f - 1 else - f)"
    by (simp add: rne_def rne_adjust_def g)
  moreover have "rne x = (if r < 1/2 then f else if 1/2 < r then f + 1 else if even f then f else f + 1)"
    unfolding rne_def rne_adjust_def f_def [symmetric] r_def [symmetric] by (rule refl)
  ultimately show ?thesis by auto
qed

subsection \<open>Properties of the rounding\<close>

lemma powi2_pos [simp]: "0 < (2::rat) powi k"
  by simp

lemma fl64_0 [simp]: "fl64 0 = 0"
  by (simp add: fl64_def)

lemma fl64_minus: "fl64 (- x) = - fl64 x"
  by (simp add: fl64_def round_to_unit_def rne_minus)

lemma fl64_nonneg:
  assumes "0 \<le> x"
  shows "0 \<le> fl64 x"
proof -
  have "0 \<le> rne (x / 2 powi (binade \<bar>x\<bar> - 52))"
    using rne_mono [of "of_int 0" "x / 2 powi (binade \<bar>x\<bar> - 52)"] assms
    unfolding rne_of_int by simp
  then show ?thesis by (simp add: fl64_def round_to_unit_def)
qed

text \<open>Rounding never crosses the power of two that bounds a binade from above or from below.\<close>

lemma fl64_le_powi:
  assumes "0 < x" and "x < 2 powi (binade x + 1)"
  shows "fl64 x \<le> 2 powi (binade x + 1)"
proof -
  let ?u = "(2::rat) powi (binade x - 52)"
  have e: "(2::rat) powi (binade x + 1) = of_int (2 ^ 53) * ?u"
    by (simp add: power_int_add power_int_diff)
  then have "x / ?u \<le> of_int (2 ^ 53)" using assms(2) by (simp add: pos_divide_le_eq)
  then have "rne (x / ?u) \<le> rne (of_int (2 ^ 53))" by (rule rne_mono)
  then have "rne (x / ?u) \<le> 2 ^ 53" by (simp only: rne_of_int)
  then have "of_int (rne (x / ?u)) * ?u \<le> of_int (2 ^ 53) * ?u"
    by (intro mult_right_mono) (simp_all only: of_int_le_iff powi2_pos less_imp_le)
  then show ?thesis using assms(1) e by (simp add: fl64_def round_to_unit_def)
qed

lemma powi_le_fl64:
  assumes "2 powi binade x \<le> x"
  shows "2 powi binade x \<le> fl64 x"
proof -
  let ?u = "(2::rat) powi (binade x - 52)"
  have pos: "0 < x" using assms by (meson less_le_trans powi2_pos)
  have e: "(2::rat) powi binade x = of_int (2 ^ 52) * ?u"
    by (simp add: power_int_diff)
  then have "of_int (2 ^ 52) \<le> x / ?u" using assms by (simp add: pos_le_divide_eq)
  then have "rne (of_int (2 ^ 52)) \<le> rne (x / ?u)" by (rule rne_mono)
  then have "2 ^ 52 \<le> rne (x / ?u)" by (simp only: rne_of_int)
  then have "of_int (2 ^ 52) * ?u \<le> of_int (rne (x / ?u)) * ?u"
    by (intro mult_right_mono) (simp_all only: of_int_le_iff powi2_pos less_imp_le)
  then show ?thesis using pos e by (simp add: fl64_def round_to_unit_def)
qed

lemma fl64_mono_pos:
  assumes "0 < x" and "x \<le> y"
  shows "fl64 x \<le> fl64 y"
proof (cases "binade x = binade y")
  case True
  let ?u = "(2::rat) powi (binade y - 52)"
  have "rne (x / ?u) \<le> rne (y / ?u)"
    using assms(2) by (intro rne_mono divide_right_mono) simp_all
  then have "of_int (rne (x / ?u)) * ?u \<le> of_int (rne (y / ?u)) * ?u"
    by (intro mult_right_mono) simp_all
  with True assms show ?thesis by (simp add: fl64_def round_to_unit_def)
next
  case False
  with binade_mono [OF assms] have lt: "binade x + 1 \<le> binade y" by linarith
  have "x < 2 powi (binade x + 1)"
    using ilog2_bounds(2) [OF assms(1)] powi2_le [of "ilog2 x + 1" "binade x + 1"]
    by (simp add: binade_def)
  then have "fl64 x \<le> 2 powi (binade x + 1)" using assms(1) by (intro fl64_le_powi)
  also have "\<dots> \<le> 2 powi binade y" using lt by (rule powi2_le)
  also have "\<dots> \<le> fl64 y"
  proof (rule powi_le_fl64)
    have "binade y = ilog2 y" using lt by (simp add: binade_def max_def split: if_splits)
    then show "2 powi binade y \<le> y" using ilog2_bounds(1) [of y] assms by simp
  qed
  finally show ?thesis .
qed

lemma fl64_mono:
  assumes "x \<le> y"
  shows "fl64 x \<le> fl64 y"
proof -
  consider "0 < x" | "x \<le> 0" "0 \<le> y" | "y < 0" by linarith
  then show ?thesis
  proof cases
    case 1
    then show ?thesis using assms by (rule fl64_mono_pos)
  next
    case 2
    have "fl64 x \<le> 0" using fl64_nonneg [of "- x"] 2 by (simp add: fl64_minus)
    with fl64_nonneg [of y] 2 show ?thesis by linarith
  next
    case 3
    then have "fl64 (- y) \<le> fl64 (- x)" using assms by (intro fl64_mono_pos) simp_all
    then show ?thesis by (simp add: fl64_minus)
  qed
qed

subsection \<open>Representable values are fixed points\<close>

lemma powi_int_factor: "0 \<le> k \<Longrightarrow> \<exists>n::int. (2::rat) powi k = of_int n"
  by (rule exI [of _ "2 ^ nat k"]) (simp add: power_int_def)

lemma fl64_dyadic_pos:
  assumes "0 < m" and "m < 2 ^ 53" and "- 1074 \<le> e"
  shows "fl64 (of_int m * 2 powi e) = of_int m * 2 powi e"
proof -
  let ?x = "of_int m * (2::rat) powi e"
  have pos: "0 < ?x" using assms(1) by simp
  have "(of_int m :: rat) < of_int (2 ^ 53)" using assms(2) by (simp only: of_int_less_iff)
  also have "(of_int (2 ^ 53) :: rat) = 2 powi 53" by simp
  finally have "?x < 2 powi (53 + e)" by (simp add: power_int_add)
  then have "ilog2 ?x < 53 + e"
    using ilog2_bounds(1) [OF pos] by (intro powi2_less_D) (rule order.strict_trans1)
  then have le: "0 \<le> e - (binade ?x - 52)" using assms(3) by (simp add: binade_def)
  then obtain n where n: "(2::rat) powi (e - (binade ?x - 52)) = of_int n"
    using powi_int_factor by blast
  have "?x / 2 powi (binade ?x - 52) = of_int (m * n)"
    by (simp add: n [symmetric] power_int_diff)
  then have "rne (?x / 2 powi (binade ?x - 52)) = m * n" by (simp only: rne_of_int)
  then have "round_to_unit ?x (2 powi (binade ?x - 52)) = of_int (m * n) * 2 powi (binade ?x - 52)"
    by (simp add: round_to_unit_def)
  also have "\<dots> = ?x" by (simp add: n [symmetric] power_int_diff)
  finally show ?thesis using pos by (simp add: fl64_def)
qed

lemma fl64_dyadic:
  assumes "\<bar>m\<bar> \<le> 2 ^ 53" and "- 1074 \<le> e"
  shows "fl64 (of_int m * 2 powi e) = of_int m * 2 powi e"
proof -
  have pos: "fl64 (of_int k * 2 powi e) = of_int k * 2 powi e" if "0 < k" "k \<le> 2 ^ 53" for k
  proof (cases "k = 2 ^ 53")
    case True
    have "(of_int k :: rat) * 2 powi e = of_int (2 ^ 52) * 2 powi (e + 1)"
      by (simp add: True power_int_add)
    with fl64_dyadic_pos [of "2 ^ 52" "e + 1"] assms(2) show ?thesis by simp
  next
    case False
    with that assms(2) show ?thesis by (intro fl64_dyadic_pos) simp_all
  qed
  consider "0 < m" | "m = 0" | "0 < - m" by linarith
  then show ?thesis
  proof cases
    case 3
    then have "fl64 (of_int (- m) * 2 powi e) = of_int (- m) * 2 powi e" using assms(1) by (intro pos) simp_all
    then show ?thesis by (simp add: fl64_minus)
  qed (use pos assms(1) in simp_all)
qed

lemma fl64_idem [simp]: "fl64 (fl64 x) = fl64 x"
proof -
  have pos: "fl64 (fl64 y) = fl64 y" if y: "0 < y" for y
  proof -
    let ?u = "(2::rat) powi (binade y - 52)"
    have "y < 2 powi (binade y + 1)"
      using ilog2_bounds(2) [OF y] powi2_le [of "ilog2 y + 1" "binade y + 1"] by (simp add: binade_def)
    also have "(2::rat) powi (binade y + 1) = of_int (2 ^ 53) * ?u"
      by (simp add: power_int_add power_int_diff)
    finally have "y / ?u \<le> of_int (2 ^ 53)" by (simp add: pos_divide_le_eq)
    then have "rne (y / ?u) \<le> rne (of_int (2 ^ 53))" by (rule rne_mono)
    moreover have "rne (of_int 0) \<le> rne (y / ?u)" using y by (intro rne_mono) simp
    ultimately have "\<bar>rne (y / ?u)\<bar> \<le> 2 ^ 53" by (simp only: rne_of_int)
    moreover have "- 1074 \<le> binade y - 52" by (simp add: binade_def)
    ultimately show ?thesis using fl64_dyadic y by (simp add: fl64_def round_to_unit_def)
  qed
  consider "0 < x" | "x = 0" | "0 < - x" by linarith
  then show ?thesis
  proof cases
    case 3
    from pos [OF this] show ?thesis by (simp add: fl64_minus)
  qed (use pos in simp_all)
qed

lemma fl64_of_int:
  assumes "\<bar>n\<bar> < 2 ^ 53"
  shows "fl64 (of_int n) = of_int n"
  using fl64_dyadic [of n 0] assms by simp

lemma fl64_1 [simp]: "fl64 1 = 1"
  using fl64_of_int [of 1] by simp

subsection \<open>The interface the numeric code relies on\<close>

locale rounding =
  fixes rnd :: "rat \<Rightarrow> rat"
  assumes rnd_mono: "x \<le> y \<Longrightarrow> rnd x \<le> rnd y"
    and rnd_int: "\<bar>n\<bar> < 2 ^ 53 \<Longrightarrow> rnd (of_int n) = of_int n"
    and rnd_minus: "rnd (- x) = - rnd x"
    and rnd_idem: "rnd (rnd x) = rnd x"
begin

lemma rnd_0: "rnd 0 = 0"
  using rnd_int [of 0] by simp

lemma rnd_1: "rnd 1 = 1"
  using rnd_int [of 1] by simp

lemma rnd_nonneg: "0 \<le> x \<Longrightarrow> 0 \<le> rnd x"
  using rnd_mono [of 0 x] by (simp add: rnd_0)

lemma rnd_ge_fixed: "rnd a = a \<Longrightarrow> a \<le> x \<Longrightarrow> a \<le> rnd x"
  using rnd_mono [of a x] by simp

lemma rnd_add_ge:
  assumes "0 \<le> b"
  shows "rnd a \<le> rnd (rnd a + b)"
  using assms by (intro rnd_ge_fixed rnd_idem) simp

lemma rnd_le_int: "x \<le> of_int n \<Longrightarrow> \<bar>n\<bar> < 2 ^ 53 \<Longrightarrow> rnd x \<le> of_int n"
  using rnd_mono [of x "of_int n"] by (simp add: rnd_int)

lemma rnd_ge_int: "of_int n \<le> x \<Longrightarrow> \<bar>n\<bar> < 2 ^ 53 \<Longrightarrow> of_int n \<le> rnd x"
  using rnd_mono [of "of_int n" x] by (simp add: rnd_int)

lemma rnd_le_1: "x \<le> 1 \<Longrightarrow> rnd x \<le> 1"
  using rnd_le_int [of x 1] by simp

lemma rnd_unit: "0 \<le> x \<Longrightarrow> x \<le> 1 \<Longrightarrow> 0 \<le> rnd x \<and> rnd x \<le> 1"
  by (simp add: rnd_nonneg rnd_le_1)

text \<open>A rounded difference has the sign of the exact one, and a rounded sum, product or
  quotient of ordered operands is ordered.\<close>

lemma rnd_diff_nonneg: "y \<le> x \<Longrightarrow> 0 \<le> rnd (x - y)"
  by (simp add: rnd_nonneg)

lemma rnd_add_mono: "a \<le> b \<Longrightarrow> c \<le> d \<Longrightarrow> rnd (a + c) \<le> rnd (b + d)"
  by (intro rnd_mono add_mono)

lemma rnd_diff_mono: "a \<le> b \<Longrightarrow> d \<le> c \<Longrightarrow> rnd (a - c) \<le> rnd (b - d)"
  by (intro rnd_mono diff_mono)

lemma rnd_mult_mono: "a \<le> b \<Longrightarrow> 0 \<le> w \<Longrightarrow> rnd (w * a) \<le> rnd (w * b)"
  by (intro rnd_mono mult_left_mono)

lemma rnd_divide_mono: "a \<le> b \<Longrightarrow> 0 < w \<Longrightarrow> rnd (a / w) \<le> rnd (b / w)"
  by (intro rnd_mono divide_right_mono) simp_all

end

interpretation b64: rounding fl64
  by unfold_locales (simp_all add: fl64_mono fl64_of_int fl64_minus)

subsection \<open>The number type and its operations\<close>

datatype jsnum = Fin rat | PosInf | NegInf | NaN

definition isFinite :: "jsnum \<Rightarrow> bool" where
  "isFinite v \<longleftrightarrow> (case v of Fin _ \<Rightarrow> True | _ \<Rightarrow> False)"

text \<open>Overflow: a rounded magnitude of at least \<open>2 ^ 1024\<close> (\<open>overflow_iff\<close>) becomes an infinity.\<close>

definition js_clip :: "rat \<Rightarrow> jsnum" where
  "js_clip r = (if r \<noteq> 0 \<and> 1024 \<le> ilog2 \<bar>r\<bar> then (if 0 < r then PosInf else NegInf) else Fin r)"

definition js_of_rat :: "rat \<Rightarrow> jsnum" where
  "js_of_rat q = js_clip (fl64 q)"

definition js_int :: "int \<Rightarrow> jsnum" where
  "js_int n = js_of_rat (of_int n)"

fun js_neg :: "jsnum \<Rightarrow> jsnum" where
  "js_neg (Fin a) = Fin (- a)"
| "js_neg PosInf = NegInf"
| "js_neg NegInf = PosInf"
| "js_neg NaN = NaN"

fun js_add :: "jsnum \<Rightarrow> jsnum \<Rightarrow> jsnum" where
  "js_add NaN _ = NaN"
| "js_add _ NaN = NaN"
| "js_add (Fin a) (Fin b) = js_of_rat (a + b)"
| "js_add (Fin _) v = v"
| "js_add v (Fin _) = v"
| "js_add PosInf PosInf = PosInf"
| "js_add NegInf NegInf = NegInf"
| "js_add _ _ = NaN"

definition js_sub :: "jsnum \<Rightarrow> jsnum \<Rightarrow> jsnum" where
  "js_sub a b = js_add a (js_neg b)"

definition inf_of_sign :: "rat \<Rightarrow> jsnum" where
  "inf_of_sign s = (if 0 < s then PosInf else if s < 0 then NegInf else NaN)"

definition js_sgn :: "jsnum \<Rightarrow> rat" where
  "js_sgn v = (case v of Fin a \<Rightarrow> sgn a | PosInf \<Rightarrow> 1 | NegInf \<Rightarrow> - 1 | NaN \<Rightarrow> 0)"

fun js_mul :: "jsnum \<Rightarrow> jsnum \<Rightarrow> jsnum" where
  "js_mul NaN _ = NaN"
| "js_mul _ NaN = NaN"
| "js_mul (Fin a) (Fin b) = js_of_rat (a * b)"
| "js_mul a b = inf_of_sign (js_sgn a * js_sgn b)"

fun js_div :: "jsnum \<Rightarrow> jsnum \<Rightarrow> jsnum" where
  "js_div NaN _ = NaN"
| "js_div _ NaN = NaN"
| "js_div (Fin a) (Fin b) = (if b = 0 then inf_of_sign a else js_of_rat (a / b))"
| "js_div (Fin _) _ = Fin 0"
| "js_div v (Fin b) = (if b = 0 then v else inf_of_sign (js_sgn v * sgn b))"
| "js_div _ _ = NaN"

text \<open>Comparisons are false when an operand is \<open>NaN\<close>.\<close>

fun js_less :: "jsnum \<Rightarrow> jsnum \<Rightarrow> bool" where
  "js_less (Fin a) (Fin b) = (a < b)"
| "js_less (Fin _) PosInf = True"
| "js_less NegInf (Fin _) = True"
| "js_less NegInf PosInf = True"
| "js_less _ _ = False"

definition js_le :: "jsnum \<Rightarrow> jsnum \<Rightarrow> bool" where
  "js_le a b \<longleftrightarrow> js_less a b \<or> (a = b \<and> a \<noteq> NaN)"

definition js_max :: "jsnum \<Rightarrow> jsnum \<Rightarrow> jsnum" where
  "js_max a b = (if a = NaN \<or> b = NaN then NaN else if js_less a b then b else a)"

definition js_min :: "jsnum \<Rightarrow> jsnum \<Rightarrow> jsnum" where
  "js_min a b = (if a = NaN \<or> b = NaN then NaN else if js_less b a then b else a)"

fun map_fin :: "(rat \<Rightarrow> int) \<Rightarrow> jsnum \<Rightarrow> jsnum" where
  "map_fin f (Fin a) = Fin (of_int (f a))"
| "map_fin f v = v"

text \<open>\<open>Math.round\<close> rounds a tie upwards; \<open>Math.trunc\<close> towards zero.\<close>

definition js_floor :: "jsnum \<Rightarrow> jsnum" where "js_floor = map_fin floor"
definition js_ceil :: "jsnum \<Rightarrow> jsnum" where "js_ceil = map_fin ceiling"
definition js_round :: "jsnum \<Rightarrow> jsnum" where "js_round = map_fin (\<lambda>a. \<lfloor>a + 1/2\<rfloor>)"
definition js_trunc :: "jsnum \<Rightarrow> jsnum" where
  "js_trunc = map_fin (\<lambda>a. if 0 \<le> a then \<lfloor>a\<rfloor> else \<lceil>a\<rceil>)"

lemma isFinite_simps [simp]:
  "isFinite (Fin a)" "\<not> isFinite PosInf" "\<not> isFinite NegInf" "\<not> isFinite NaN"
  by (simp_all add: isFinite_def)

lemma isFinite_iff: "isFinite v \<longleftrightarrow> (\<exists>a. v = Fin a)"
  by (cases v) simp_all

lemma js_max_Fin [simp]: "js_max (Fin a) (Fin b) = Fin (max a b)"
  by (auto simp: js_max_def)

lemma js_min_Fin [simp]: "js_min (Fin a) (Fin b) = Fin (min a b)"
  by (auto simp: js_min_def)

lemma js_less_irrefl [simp]: "\<not> js_less a a"
  by (cases a) simp_all

lemma js_less_trans: "js_less a b \<Longrightarrow> js_less b c \<Longrightarrow> js_less a c"
  by (cases a; cases b; cases c) simp_all

lemma overflow_iff: "0 < r \<Longrightarrow> 1024 \<le> ilog2 r \<longleftrightarrow> 2 powi 1024 \<le> r"
  using ilog2_bounds [of r] powi2_le [of 1024 "ilog2 r"] powi2_less_D [of 1024 "ilog2 r + 1"]
  by linarith

lemma js_clip_small: "\<bar>r\<bar> < 2 powi 53 \<Longrightarrow> js_clip r = Fin r"
proof -
  assume r: "\<bar>r\<bar> < 2 powi 53"
  have "ilog2 \<bar>r\<bar> < 53" if "r \<noteq> 0"
  proof (rule powi2_less_D)
    have "2 powi ilog2 \<bar>r\<bar> \<le> \<bar>r\<bar>" using that by (intro ilog2_bounds) simp
    with r show "(2::rat) powi ilog2 \<bar>r\<bar> < 2 powi 53" by (rule order.strict_trans1 [rotated])
  qed
  then show ?thesis by (auto simp: js_clip_def)
qed

lemma js_of_rat_small: "\<bar>q\<bar> \<le> of_int n \<Longrightarrow> n < 2 ^ 53 \<Longrightarrow> js_of_rat q = Fin (fl64 q)"
proof -
  assume q: "\<bar>q\<bar> \<le> of_int n" and n: "n < 2 ^ 53"
  have "0 \<le> (of_int n :: rat)" using q by (meson abs_ge_zero order_trans)
  then have "0 \<le> n" by simp
  have up: "fl64 q \<le> of_int n" using q n \<open>0 \<le> n\<close> by (intro b64.rnd_le_int) simp_all
  have "of_int (- n) \<le> fl64 q" using q n \<open>0 \<le> n\<close> by (intro b64.rnd_ge_int) simp_all
  then have lo: "- of_int n \<le> fl64 q" by simp
  have "(of_int n :: rat) < of_int (2 ^ 53)" using n by (simp only: of_int_less_iff)
  also have "(of_int (2 ^ 53) :: rat) = 2 powi 53" by simp
  finally have "(of_int n :: rat) < 2 powi 53" .
  with up lo have "\<bar>fl64 q\<bar> < 2 powi 53" by (simp only: abs_less_iff) linarith
  then show ?thesis by (simp only: js_of_rat_def js_clip_small)
qed

lemma js_int_small: "\<bar>n\<bar> < 2 ^ 53 \<Longrightarrow> js_int n = Fin (of_int n)"
  using js_of_rat_small [of "of_int n" "\<bar>n\<bar>"] by (simp add: js_int_def fl64_of_int)

lemma js_of_rat_int: "\<bar>n\<bar> < 2 ^ 53 \<Longrightarrow> js_of_rat (of_int n) = Fin (of_int n)"
  using js_int_small [of n] by (simp add: js_int_def)

lemma js_of_rat_unit: "0 \<le> q \<Longrightarrow> q \<le> 1 \<Longrightarrow> js_of_rat q = Fin (fl64 q)"
  using js_of_rat_small [of q 1] by simp

end
