(* ===== verification/Errors.thy ===== *)
theory Errors
  imports Strings JsNumber
begin

section \<open>Error taxonomy and the sanitiser (packages/shared/src/errors.ts)\<close>

text \<open>
  \<open>jsval\<close> is an arbitrary JavaScript value as far as the source inspects one: the detail bag of
  an error and the payload of a signature are both of this type. \<open>JObj\<close> holds the own
  enumerable entries in \<open>Object.entries\<close> order, \<open>JErr\<close> an \<open>Error\<close> instance by its class name,
  \<open>JFun\<close> a function or symbol.
\<close>

datatype jsval =
    JUndef | JNull | JBool bool | JNum jsnum | JBig int | JStr string
  | JArr "jsval list" | JErr string | JObj "(string \<times> jsval) list" | JFun

subsection \<open>Codes and statuses\<close>

fun err_code :: "err_class \<Rightarrow> string" where
  "err_code ConfigErr = ''config_error''"
| "err_code PricingErr = ''pricing_error''"
| "err_code ValidationErr = ''validation_error''"
| "err_code NotFoundErr = ''not_found''"
| "err_code PaymentErr = ''payment_error''"
| "err_code SettlementErr = ''settlement_error''"
| "err_code NoCapacityErr = ''no_capacity''"
| "err_code UpstreamErr = ''upstream_error''"
| "err_code AuthErr = ''auth_error''"
| "err_code RateLimitErr = ''rate_limited''"

fun err_status :: "err_class \<Rightarrow> nat" where
  "err_status ConfigErr = 500"
| "err_status PricingErr = 500"
| "err_status ValidationErr = 400"
| "err_status NotFoundErr = 404"
| "err_status PaymentErr = 402"
| "err_status SettlementErr = 502"
| "err_status NoCapacityErr = 503"
| "err_status UpstreamErr = 502"
| "err_status AuthErr = 401"
| "err_status RateLimitErr = 429"

text \<open>Codes are the stable contract with clients: no two classes share one.\<close>

lemma err_code_inj: "err_code a = err_code b \<Longrightarrow> a = b"
  by (cases a; cases b) simp_all

lemma err_status_range: "400 \<le> err_status c \<and> err_status c < 600"
  by (cases c) simp_all

subsection \<open>The sanitiser\<close>

fun contains :: "string \<Rightarrow> string \<Rightarrow> bool" where
  "contains p [] = (p = [])"
| "contains p (c # cs) = (starts_with p (c # cs) \<or> contains p cs)"

definition secret_words :: "string list" where
  "secret_words = [''key'', ''secret'', ''token'', ''password'', ''passphrase'', ''mnemonic'',
     ''auth'', ''credential'']"

definition secret_key :: "string \<Rightarrow> bool" where
  "secret_key k \<longleftrightarrow> list_ex (\<lambda>w. contains w (to_lower k)) secret_words"

definition max_detail_string :: nat where "max_detail_string = 512"
definition max_detail_items :: nat where "max_detail_items = 32"

text \<open>The horizontal ellipsis U+2026 lies outside the modelled range; its CP1252 code stands for it.\<close>

definition ellipsis :: string where "ellipsis = [char_of (0x85::nat)]"

definition nonfinite_str :: "jsnum \<Rightarrow> string" where
  "nonfinite_str v = (case v of PosInf \<Rightarrow> ''Infinity'' | NegInf \<Rightarrow> ''-Infinity'' | _ \<Rightarrow> ''NaN'')"

text \<open>
  \<open>out[k] = v\<close> on the plain object \<open>out\<close> defines an own property, except for \<open>__proto__\<close>, where
  the inherited setter runs and no property appears. The \<open>count\<close> of the source counts every entry
  visited, so the loop is a pass over the first 32 entries.
\<close>

definition keep_entry :: "string \<times> jsval \<Rightarrow> bool" where
  "keep_entry kv \<longleftrightarrow> snd kv \<noteq> JUndef \<and> fst kv \<noteq> ''__proto__''"

function sanitizeDetailValue :: "jsval \<Rightarrow> nat \<Rightarrow> jsval" where
  "sanitizeDetailValue v d =
     (if 4 < d then JStr ''[truncated]''
      else (case v of
          JNull \<Rightarrow> JNull
        | JStr s \<Rightarrow> JStr (if max_detail_string < length s
                          then take max_detail_string s @ ellipsis else s)
        | JNum n \<Rightarrow> (if isFinite n then JNum n else JStr (nonfinite_str n))
        | JBool b \<Rightarrow> JBool b
        | JBig i \<Rightarrow> JStr (int_str i)
        | JUndef \<Rightarrow> JUndef
        | JArr vs \<Rightarrow> JArr (map (\<lambda>w. sanitizeDetailValue w (Suc d)) (take max_detail_items vs))
        | JErr n \<Rightarrow> JStr (''['' @ n @ '']'')
        | JObj kvs \<Rightarrow> JObj (filter keep_entry
             (map (\<lambda>(k, w). (k, if secret_key k then JStr ''[redacted]''
                                else sanitizeDetailValue w (Suc d)))
                  (take max_detail_items kvs)))
        | JFun \<Rightarrow> JUndef))"
  by pat_completeness auto
termination
  by (relation "measure (\<lambda>(v, d). 5 - d)") auto

declare sanitizeDetailValue.simps [simp del]

subsection \<open>MeshError and the client-facing response\<close>

record mesh_error =
  me_class :: err_class
  me_message :: string
  me_details :: "(string \<times> jsval) list option"

definition upstream_error :: "string \<Rightarrow> (string \<times> jsval) list \<Rightarrow> mesh_error" where
  "upstream_error msg details = \<lparr>me_class = UpstreamErr, me_message = msg, me_details = Some details\<rparr>"

record error_body =
  eb_code :: string
  eb_message :: string
  eb_details :: "(string \<times> jsval) list option"

datatype thrown = Mesh mesh_error | Foreign string

definition toJSON :: "mesh_error \<Rightarrow> error_body" where
  "toJSON e =
     \<lparr>eb_code = err_code (me_class e), eb_message = me_message e,
      eb_details = (case me_details e of
          None \<Rightarrow> None
        | Some kvs \<Rightarrow> (case sanitizeDetailValue (JObj kvs) 0 of
              JObj out \<Rightarrow> if out = [] then None else Some out
            | _ \<Rightarrow> None))\<rparr>"

definition toErrorResponse :: "thrown \<Rightarrow> nat \<times> error_body" where
  "toErrorResponse t = (case t of
      Mesh e \<Rightarrow> (err_status (me_class e), toJSON e)
    | Foreign _ \<Rightarrow> (500, \<lparr>eb_code = ''internal_error'', eb_message = ''Internal server error'',
                        eb_details = None\<rparr>))"

subsection \<open>What leaves the sanitiser\<close>

text \<open>
  \<open>client_safe n v\<close>: the value is plain JSON data nested at most \<open>n\<close> deep, holds at most 32 items
  per collection, and every property whose name looks like a secret reads \<open>[redacted]\<close>.
\<close>

fun client_safe :: "nat \<Rightarrow> jsval \<Rightarrow> bool" where
  "client_safe n (JNum v) = isFinite v"
| "client_safe n (JBig _) = False"
| "client_safe n (JErr _) = False"
| "client_safe n JFun = False"
| "client_safe 0 (JArr vs) = False"
| "client_safe 0 (JObj kvs) = False"
| "client_safe (Suc n) (JArr vs) = (length vs \<le> 32 \<and> list_all (client_safe n) vs)"
| "client_safe (Suc n) (JObj kvs) =
     (length kvs \<le> 32 \<and> list_all (\<lambda>kv. client_safe n (snd kv) \<and> fst kv \<noteq> ''__proto__''
        \<and> (secret_key (fst kv) \<longrightarrow> snd kv = JStr ''[redacted]'')) kvs)"
| "client_safe _ _ = True"

lemma client_safe_JStr [simp]: "client_safe n (JStr s)"
  by (cases n) simp_all

lemma client_safe_sanitize: "client_safe (5 - d) (sanitizeDetailValue v d)"
proof (induction v d rule: sanitizeDetailValue.induct)
  case (1 v d)
  show ?case
  proof (cases "4 < d")
    case True
    then show ?thesis by (simp add: sanitizeDetailValue.simps)
  next
    case False
    then have d: "5 - d = Suc (5 - Suc d)" by simp
    show ?thesis
    proof (cases v)
      case (JArr vs)
      have "\<forall>w \<in> set (take max_detail_items vs). client_safe (5 - Suc d) (sanitizeDetailValue w (Suc d))"
        using "1.IH"(1) False JArr by blast
      then show ?thesis using False JArr
        by (simp add: sanitizeDetailValue.simps [of "JArr vs" d] d list_all_iff max_detail_items_def)
    next
      case (JObj kvs)
      have "\<forall>(k, w) \<in> set (take max_detail_items kvs). \<not> secret_key k \<longrightarrow>
              client_safe (5 - Suc d) (sanitizeDetailValue w (Suc d))"
        using "1.IH"(2) False JObj by blast
      moreover have "length (filter P (take max_detail_items kvs)) \<le> 32" for P
        using length_filter_le [of P "take max_detail_items kvs"]
        by (simp add: max_detail_items_def)
      ultimately show ?thesis using False JObj
        by (auto simp: sanitizeDetailValue.simps [of "JObj kvs" d] d list_all_iff keep_entry_def filter_map)
    qed (use False in \<open>simp_all add: sanitizeDetailValue.simps d\<close>)
  qed
qed

lemma sanitize_JObj: "\<exists>out. sanitizeDetailValue (JObj kvs) 0 = JObj out"
  by (simp add: sanitizeDetailValue.simps)

end
