(* ===== verification/Types.thy ===== *)
theory Types
  imports Errors
begin

section \<open>The wire contract (packages/shared/src/types.ts)\<close>

text \<open>
  The records shared by the gateway, the registry and the daemon. Field names carry the initial
  of their interface because record selectors share one name space: \<open>c_\<close> capability, \<open>r_\<close>
  registration, \<open>h_\<close> health, \<open>n_\<close> node record, \<open>hb_\<close> heartbeat, \<open>s_\<close> settlement record. Counters
  and timestamps are integers; latencies, ratios and scores are JavaScript numbers.
\<close>

record node_capability =
  c_model :: string
  c_contextWindow :: int
  c_pricePer1kTokensUsdc :: string
  c_quantization :: "string option"

record node_registration =
  r_nodeId :: string
  r_operatorAddress :: string
  r_endpoint :: string
  r_capabilities :: "node_capability list"
  r_network :: string
  r_version :: string
  r_timestamp :: int
  r_nonce :: string

record signed_registration =
  sr_registration :: node_registration
  sr_signature :: string
  sr_publicKey :: string

record node_heartbeat =
  hb_nodeId :: string
  hb_healthy :: bool
  hb_inFlight :: int
  hb_maxConcurrency :: int
  hb_version :: string
  hb_timestamp :: int
  hb_nonce :: string

record signed_heartbeat =
  sh_heartbeat :: node_heartbeat
  sh_signature :: string
  sh_publicKey :: string

record node_health =
  h_nodeId :: string
  h_healthy :: bool
  h_latencyMsP50 :: jsnum
  h_latencyMsP95 :: jsnum
  h_inFlight :: int
  h_maxConcurrency :: int
  h_uptimeRatio :: jsnum
  h_qualityScore :: jsnum
  h_consecutiveFailures :: int
  h_lastSeenAt :: jsnum

record node_record =
  n_registration :: node_registration
  n_health :: node_health
  n_usdcOptedIn :: bool
  n_totalRequests :: int
  n_totalPaidAtomic :: string
  n_registeredAt :: int

abbreviation n_nodeId :: "node_record \<Rightarrow> string" where
  "n_nodeId r \<equiv> r_nodeId (n_registration r)"

datatype settlement_status = Pending | Accrued | Settled | Failed

record settlement_record =
  s_requestId :: string
  s_nodeId :: string
  s_payerAddress :: string
  s_operatorAddress :: string
  s_inboundAtomic :: string
  s_payoutAtomic :: string
  s_marginAtomic :: string
  s_inboundTxId :: string
  s_payoutTxId :: "string option"
  s_batchId :: "string option"
  s_status :: settlement_status
  s_error :: "string option"
  s_createdAt :: int
  s_settledAt :: "int option"

end
