(* ===== verification/Money.thy ===== *)
theory Money
  imports Strings Complex_Main
begin

section \<open>Integer USDC money (packages/shared/src/money.ts)\<close>

text \<open>
  Amounts are JavaScript bigints, so \<open>int\<close>. The decimal parser is the regular expression
  \<open>DECIMAL_RE\<close> followed by integer arithmetic; the printer is fixed width after the point.
  \<open>typeof\<close> guards are discharged by the types.
\<close>

definition USDC_DECIMALS :: nat where "USDC_DECIMALS = 6"

definition SCALE :: int where "SCALE = 10 ^ USDC_DECIMALS"

text \<open>\<open>/^\$?(\d+)(?:\.(\d*))?$/\<close>: the two capture groups, the second empty when absent.\<close>

definition decimal_match :: "string \<Rightarrow> (string \<times> string) option" where
  "decimal_match s =
     (let body = (case s of c # cs \<Rightarrow> if c = CHR ''$'' then cs else s | [] \<Rightarrow> []);
          whole = takeWhile is_digit body;
          rest = dropWhile is_digit body
      in if whole = [] then None
         else (case rest of
             [] \<Rightarrow> Some (whole, [])
           | c # fraction \<Rightarrow>
               if c = CHR ''.'' \<and> list_all is_digit fraction then Some (whole, fraction) else None))"

definition usdcToAtomic :: "string \<Rightarrow> int res" where
  "usdcToAtomic usdc =
     (let trimmed = trim usdc in
      if trimmed = [] then throw ConfigErr ''USDC amount must not be empty''
      else if starts_with ''-'' trimmed \<or> starts_with ''$-'' trimmed
        then throw ConfigErr (''USDC amount must not be negative: '' @ trimmed)
      else (case decimal_match trimmed of
          None \<Rightarrow> throw ConfigErr (''malformed USDC amount: '' @ trimmed)
        | Some (whole, fraction) \<Rightarrow>
            if USDC_DECIMALS < length fraction
            then throw ConfigErr (''USDC amount has '' @ nat_str (length fraction) @
                   '' decimal places, maximum is '' @ nat_str USDC_DECIMALS @ '': '' @ trimmed)
            else (let padded = pad_end USDC_DECIMALS CHR ''0'' fraction
                  in Inr (int (dec_val whole) * SCALE + int (dec_val padded)))))"

definition atomicToUsdc :: "int \<Rightarrow> string" where
  "atomicToUsdc a =
     (let negative = a < 0;
          magnitude = (if negative then - a else a);
          whole = magnitude div SCALE;
          fraction = magnitude mod SCALE;
          fractionStr = pad_start USDC_DECIMALS CHR ''0'' (nat_str (nat fraction))
      in (if negative then ''-'' else []) @ nat_str (nat whole) @ ''.'' @ fractionStr)"

definition atomicToWire :: "int \<Rightarrow> string res" where
  "atomicToWire a =
     (if a < 0 then throw PricingErr ''cannot serialize a negative atomic amount to the wire''
      else Inr (nat_str (nat a)))"

definition formatUsd :: "int \<Rightarrow> string" where
  "formatUsd a =
     (let rendered = atomicToUsdc a
      in if starts_with ''-'' rendered then ''-$'' @ drop 1 rendered else ''$'' @ rendered)"

definition wire_digits :: "string \<Rightarrow> bool" where
  "wire_digits s \<longleftrightarrow> s \<noteq> [] \<and> list_all is_digit s"

definition wireToAtomic :: "string \<Rightarrow> int res" where
  "wireToAtomic wire =
     (if \<not> wire_digits (trim wire) then throw ConfigErr (''malformed atomic amount: '' @ wire)
      else Inr (int (dec_val (trim wire))))"

subsection \<open>The parser against an exact decimal semantics\<close>

text \<open>What a decimal literal \<open>w.f\<close> denotes, as a rational and independently of the parser.\<close>

definition decimal_value :: "string \<Rightarrow> string \<Rightarrow> rat" where
  "decimal_value w f = of_nat (dec_val w) + of_nat (dec_val f) / 10 ^ length f"

lemma decimal_match_Some:
  assumes "decimal_match s = Some (w, f)"
  shows "w \<noteq> [] \<and> list_all is_digit w \<and> list_all is_digit f \<and>
    (s = w @ f \<and> f = [] \<or> s = ''$'' @ w \<and> f = [] \<or> s = w @ ''.'' @ f \<or> s = ''$'' @ w @ ''.'' @ f)"
proof -
  define body where "body = (case s of c # cs \<Rightarrow> if c = CHR ''$'' then cs else s | [] \<Rightarrow> [])"
  have s: "s = body \<or> s = ''$'' @ body" by (auto simp: body_def split: list.splits)
  have w: "w = takeWhile is_digit body" "w \<noteq> []"
    using assms by (auto simp: decimal_match_def body_def [symmetric] Let_def split: if_splits list.splits)
  have r: "dropWhile is_digit body = [] \<and> f = [] \<or>
      dropWhile is_digit body = CHR ''.'' # f \<and> list_all is_digit f"
    using assms by (auto simp: decimal_match_def body_def [symmetric] Let_def split: if_splits list.splits)
  have "list_all is_digit w" using w(1) by (simp add: list_all_iff) (meson set_takeWhileD)
  moreover have "body = w @ dropWhile is_digit body" unfolding w(1) by simp
  then have "body = w \<and> f = [] \<or> body = w @ ''.'' @ f \<and> list_all is_digit f"
    using r by (metis append_Cons append_Nil append_Nil2)
  ultimately show ?thesis using s w(2) by auto
qed

lemma decimal_match_plain:
  assumes "w \<noteq> []" and "list_all is_digit w" and "list_all is_digit f"
  shows "decimal_match (w @ ''.'' @ f) = Some (w, f)"
proof -
  have "hd w \<in> set w" using assms(1) by simp
  then have "is_digit (hd w)" using assms(2) by (simp add: list_all_iff)
  then have "hd w \<noteq> CHR ''$''" by (auto simp: is_digit_def code_def)
  then have body: "(case w @ ''.'' @ f of c # cs \<Rightarrow> if c = CHR ''$'' then cs else w @ ''.'' @ f | [] \<Rightarrow> [])
      = w @ ''.'' @ f"
    using assms(1) by (cases w) auto
  have dot: "\<not> is_digit CHR ''.''" by (simp add: is_digit_def code_def)
  have "takeWhile is_digit (w @ ''.'' @ f) = w" "dropWhile is_digit (w @ ''.'' @ f) = ''.'' @ f"
    using assms(2) dot by (simp_all add: list_all_iff takeWhile_append2 dropWhile_append2)
  then show ?thesis using assms unfolding decimal_match_def body by simp
qed

lemma scale_padded:
  assumes "length f \<le> USDC_DECIMALS"
  shows "of_int (int (dec_val w) * SCALE + int (dec_val (pad_end USDC_DECIMALS CHR ''0'' f)))
    = 10 ^ USDC_DECIMALS * decimal_value w f"
proof -
  have "(10::rat) ^ USDC_DECIMALS = 10 ^ length f * 10 ^ (USDC_DECIMALS - length f)"
    using assms by (simp add: power_add [symmetric])
  then show ?thesis
    by (simp add: decimal_value_def SCALE_def dec_val_pad_end algebra_simps)
qed

lemma usdcToAtomic_Inr:
  assumes "usdcToAtomic s = Inr a"
  obtains w f where "decimal_match (trim s) = Some (w, f)" "length f \<le> USDC_DECIMALS"
    "of_int a = 10 ^ USDC_DECIMALS * decimal_value w f" "0 \<le> a"
proof -
  from assms obtain w f where m: "decimal_match (trim s) = Some (w, f)" "length f \<le> USDC_DECIMALS"
      "a = int (dec_val w) * SCALE + int (dec_val (pad_end USDC_DECIMALS CHR ''0'' f))"
    by (auto simp: usdcToAtomic_def Let_def not_less split: if_splits option.splits)
  moreover have "0 \<le> a" using m(3) by (simp add: SCALE_def)
  ultimately show thesis using that scale_padded [OF m(2), of w] by simp
qed

subsection \<open>Round trips\<close>

lemma SCALE_pos [simp]: "0 < SCALE"
  by (simp add: SCALE_def)

lemma nat_str_hd_digit: "is_digit (hd (nat_str n))"
proof -
  have "hd (nat_str n) \<in> set (nat_str n)" by simp
  then show ?thesis using nat_str_digits [of n] unfolding list_all_iff by blast
qed

lemma usdc_string_shape:
  assumes "0 \<le> a"
  shows "atomicToUsdc a = nat_str (nat (a div SCALE)) @ ''.'' @
    pad_start USDC_DECIMALS CHR ''0'' (nat_str (nat (a mod SCALE)))"
  using assms by (simp add: atomicToUsdc_def Let_def)

lemma fraction_length:
  assumes "0 \<le> a"
  shows "length (pad_start USDC_DECIMALS CHR ''0'' (nat_str (nat (a mod SCALE)))) = USDC_DECIMALS"
proof -
  have "nat (a mod SCALE) < 10 ^ USDC_DECIMALS"
    using pos_mod_bound [of SCALE a] by (simp add: SCALE_def nat_less_iff)
  then show ?thesis by (simp add: length_nat_str_le USDC_DECIMALS_def max_absorb1)
qed

lemma fraction_nonempty:
  assumes "0 \<le> a"
  shows "pad_start USDC_DECIMALS CHR ''0'' (nat_str (nat (a mod SCALE))) \<noteq> []"
  using fraction_length [OF assms] unfolding USDC_DECIMALS_def by (metis list.size(3) numeral_neq_zero)

lemma zero_is_digit [simp]: "is_digit CHR ''0''"
  by (simp add: is_digit_def code_def)

lemma pad_start_digits: "list_all is_digit s \<Longrightarrow> list_all is_digit (pad_start n CHR ''0'' s)"
  by (auto simp: pad_start_def list_all_iff)

lemma usdcToAtomic_plain:
  assumes "w \<noteq> []" "list_all is_digit w" "list_all is_digit f" "f \<noteq> []" "length f \<le> USDC_DECIMALS"
  shows "usdcToAtomic (w @ ''.'' @ f) = Inr (int (dec_val w) * SCALE
    + int (dec_val (pad_end USDC_DECIMALS CHR ''0'' f)))"
proof -
  have dig: "is_digit (hd w)" "is_digit (last f)"
    using assms by (auto simp: list_all_iff)
  have hl: "hd (w @ ''.'' @ f) = hd w" "last (w @ ''.'' @ f) = last f"
    using assms by simp_all
  have t: "trim (w @ ''.'' @ f) = w @ ''.'' @ f"
    using dig hl by (intro trim_no_outer_ws) (simp add: is_digit_not_ws del: append.simps)
  have "hd w \<noteq> CHR ''-''" "hd w \<noteq> CHR ''$''"
    using dig(1) by (auto simp: is_digit_def code_def)
  then have "\<not> starts_with ''-'' (w @ ''.'' @ f)" "\<not> starts_with ''$-'' (w @ ''.'' @ f)"
    using assms(1) by (cases w; simp add: starts_with_def)+
  with assms t show ?thesis
    by (simp add: usdcToAtomic_def Let_def decimal_match_plain [OF assms(1-3), simplified])
qed

lemma usdc_roundtrip_nonneg:
  assumes "0 \<le> a"
  shows "usdcToAtomic (atomicToUsdc a) = Inr a"
proof -
  let ?f = "pad_start USDC_DECIMALS CHR ''0'' (nat_str (nat (a mod SCALE)))"
  have len: "length ?f = USDC_DECIMALS" by (rule fraction_length [OF assms])
  have ne: "?f \<noteq> []" by (rule fraction_nonempty [OF assms])
  have "usdcToAtomic (atomicToUsdc a) = Inr (int (dec_val (nat_str (nat (a div SCALE)))) * SCALE
      + int (dec_val (pad_end USDC_DECIMALS CHR ''0'' ?f)))"
    unfolding usdc_string_shape [OF assms]
    by (rule usdcToAtomic_plain) (simp_all add: nat_str_digits pad_start_digits ne len del: length_pad_start)
  also have "dec_val (pad_end USDC_DECIMALS CHR ''0'' ?f) = nat (a mod SCALE)"
    unfolding dec_val_pad_end len by (simp add: dec_val_pad_start)
  finally show ?thesis using assms
    by (simp add: pos_imp_zdiv_nonneg_iff)
qed

lemma usdc_negative_rejected:
  assumes "a < 0"
  shows "\<exists>m. usdcToAtomic (atomicToUsdc a) = throw ConfigErr m"
proof -
  obtain r where r: "atomicToUsdc a = CHR ''-'' # r" "r \<noteq> []" "is_digit (last r)"
  proof -
    let ?f = "pad_start USDC_DECIMALS CHR ''0'' (nat_str (nat ((- a) mod SCALE)))"
    have "atomicToUsdc a = CHR ''-'' # (nat_str (nat ((- a) div SCALE)) @ ''.'' @ ?f)"
      using assms by (simp add: atomicToUsdc_def Let_def)
    moreover have "?f \<noteq> []" using fraction_nonempty [of "- a"] assms by simp
    moreover have "is_digit (last ?f)"
      using calculation(2) pad_start_digits [OF nat_str_digits] by (metis last_in_set list_all_iff)
    ultimately show thesis using that by simp
  qed
  then have "trim (atomicToUsdc a) = CHR ''-'' # r"
  proof -
    have "\<not> is_ws CHR ''-''" by (simp add: is_ws_def code_def)
    then show ?thesis unfolding r(1) using r by (intro trim_no_outer_ws) (simp add: is_digit_not_ws)
  qed
  then show ?thesis by (simp add: usdcToAtomic_def Let_def starts_with_def)
qed

lemma wire_roundtrip: "0 \<le> a \<Longrightarrow> bind_res (atomicToWire a) wireToAtomic = Inr a"
  by (simp add: atomicToWire_def wireToAtomic_def wire_digits_def nat_str_digits)

lemma atomicToWire_Inr: "atomicToWire a = Inr s \<longleftrightarrow> 0 \<le> a \<and> s = nat_str (nat a)"
  by (auto simp: atomicToWire_def)

end
