(* ===== verification/Pricing.thy ===== *)
theory Pricing
  imports Errors Money
begin

section \<open>Prices and the settlement split (packages/shared/src/pricing.ts)\<close>

text \<open>
  The per-model price table, the tiers a deployment quotes, and the integer split of an inbound
  charge into an operator payout and a gateway margin. \<open>JSON.parse\<close> is an argument of the table
  parser (\<open>None\<close> when it throws); a table is an insertion-ordered map. \<open>marginBps\<close> is a
  JavaScript number, so the guard on it also covers \<open>NaN\<close>, infinities and fractions.
\<close>

record price_split =
  inbound :: int
  payout :: int
  margin :: int

definition BPS_DENOMINATOR :: int where "BPS_DENOMINATOR = 10000"
definition DEFAULT_INBOUND_USDC :: string where "DEFAULT_INBOUND_USDC = ''0.0020''"
definition DEFAULT_NODE_PAYOUT_USDC :: string where "DEFAULT_NODE_PAYOUT_USDC = ''0.0017''"
definition DEFAULT_MARGIN_USDC :: string where "DEFAULT_MARGIN_USDC = ''0.0003''"
definition DEFAULT_MARGIN_BPS :: jsnum where "DEFAULT_MARGIN_BPS = Fin 1500"
definition MAX_PRICE_TIERS :: nat where "MAX_PRICE_TIERS = 16"

subsection \<open>The price table\<close>

type_synonym model_prices = "(string, string) jsmap"

definition normalizeModelId :: "string \<Rightarrow> string" where
  "normalizeModelId model = to_lower (trim model)"

text \<open>A JavaScript \<open>Set\<close> built from a list keeps first occurrences.\<close>

definition dedup :: "'a list \<Rightarrow> 'a list" where
  "dedup xs = rev (remdups (rev xs))"

fun price_entries :: "(string \<times> jsval) list \<Rightarrow> model_prices \<Rightarrow> model_prices res" where
  "price_entries [] table = Inr table"
| "price_entries ((model, price) # rest) table =
     (let key = normalizeModelId model in
      if key = [] then throw ConfigErr ''MESH_MODEL_PRICES contains an empty model id''
      else (case price of
          JStr p \<Rightarrow> bind_res (usdcToAtomic p) (\<lambda>_. price_entries rest (jset key (trim p) table))
        | _ \<Rightarrow> throw ConfigErr
            (''MESH_MODEL_PRICES price for '' @ [CHR 0x22] @ model @ [CHR 0x22] @ '' must be a string'')))"

definition parseModelPrices :: "(string \<Rightarrow> jsval option) \<Rightarrow> string option \<Rightarrow> model_prices res" where
  "parseModelPrices json_parse raw = (case raw of
      None \<Rightarrow> Inr []
    | Some s \<Rightarrow>
        if trim s = [] then Inr []
        else (case json_parse s of
            None \<Rightarrow> throw ConfigErr ''MESH_MODEL_PRICES must be a JSON object''
          | Some (JObj kvs) \<Rightarrow>
              bind_res (price_entries kvs []) (\<lambda>table.
                let distinct_size = length (dedup (jvals table)) in
                if MAX_PRICE_TIERS < distinct_size
                then throw ConfigErr (''MESH_MODEL_PRICES declares '' @ nat_str distinct_size @
                  '' distinct prices, maximum is '' @ nat_str MAX_PRICE_TIERS)
                else Inr table)
          | Some _ \<Rightarrow> throw ConfigErr ''MESH_MODEL_PRICES must be a JSON object of model -> price''))"

definition resolveModelPrice :: "model_prices \<Rightarrow> string \<Rightarrow> string option \<Rightarrow> string" where
  "resolveModelPrice prices fallback model = (case model of
      None \<Rightarrow> fallback
    | Some m \<Rightarrow> (case jget prices (normalizeModelId m) of Some p \<Rightarrow> p | None \<Rightarrow> fallback))"

definition priceTiers :: "model_prices \<Rightarrow> string \<Rightarrow> string list" where
  "priceTiers prices fallback = dedup (fallback # jvals prices)"

subsection \<open>The split\<close>

definition is_integer :: "jsnum \<Rightarrow> bool" where
  "is_integer v = (case v of Fin q \<Rightarrow> q = of_int \<lfloor>q\<rfloor> | _ \<Rightarrow> False)"

definition big_of_num :: "jsnum \<Rightarrow> int" where
  "big_of_num v = (case v of Fin q \<Rightarrow> \<lfloor>q\<rfloor> | _ \<Rightarrow> 0)"

text \<open>BigInt division truncates towards zero.\<close>

definition big_div :: "int \<Rightarrow> int \<Rightarrow> int" where
  "big_div a b = sgn a * sgn b * (\<bar>a\<bar> div \<bar>b\<bar>)"

definition computeSplit :: "int \<Rightarrow> jsnum \<Rightarrow> price_split res" where
  "computeSplit inb marginBps =
     (if inb < 0 then throw PricingErr ''inbound amount must be non-negative''
      else if \<not> is_integer marginBps \<or> js_less marginBps (Fin 0) \<or> js_less (Fin 10000) marginBps
        then throw PricingErr ''marginBps must be an integer in [0, 10000]''
      else (let m = big_div (inb * big_of_num marginBps) BPS_DENOMINATOR; p = inb - m in
        if m < 0 \<or> p < 0 then throw PricingErr ''price split produced a negative leg''
        else if p + m \<noteq> inb
          then throw PricingErr ''price split violates inbound === payout + margin''
        else Inr \<lparr>inbound = inb, payout = p, margin = m\<rparr>))"

definition assertSplitInvariant :: "price_split \<Rightarrow> unit res" where
  "assertSplitInvariant s =
     (if inbound s < 0 \<or> payout s < 0 \<or> margin s < 0
      then throw PricingErr ''price split legs must all be non-negative''
      else if inbound s - payout s \<noteq> margin s
        then throw PricingErr ''price split violates inbound - payout === margin''
      else Inr ())"

subsection \<open>The split is exact and rounds for the operator\<close>

definition valid_bps :: "jsnum \<Rightarrow> bool" where
  "valid_bps v \<longleftrightarrow> is_integer v \<and> \<not> js_less v (Fin 0) \<and> \<not> js_less (Fin 10000) v"

lemma valid_bpsE:
  assumes "valid_bps v"
  obtains n where "v = Fin (of_int n)" "0 \<le> n" "n \<le> 10000"
proof -
  from assms obtain q where v: "v = Fin q" "q = of_int \<lfloor>q\<rfloor>"
    by (cases v) (auto simp: valid_bps_def is_integer_def)
  with assms have "0 \<le> q" "q \<le> 10000" by (auto simp: valid_bps_def not_less)
  then have "0 \<le> \<lfloor>q\<rfloor>" "\<lfloor>q\<rfloor> \<le> 10000" by (simp_all add: le_floor_iff floor_le_iff)
  with v that show thesis by metis
qed

lemma big_div_nonneg: "0 \<le> a \<Longrightarrow> 0 < b \<Longrightarrow> big_div a b = a div b"
  by (cases "a = 0") (simp_all add: big_div_def)

lemma margin_bounds:
  fixes a n :: int
  assumes "0 \<le> a" "0 \<le> n" "n \<le> 10000"
  shows "0 \<le> a * n div 10000" "a * n div 10000 \<le> a"
proof -
  show "0 \<le> a * n div 10000" using assms by (simp add: pos_imp_zdiv_nonneg_iff)
  have "a * n \<le> a * 10000" using assms by (intro mult_left_mono)
  then have "a * n div 10000 \<le> a * 10000 div 10000" by (rule zdiv_mono1) simp
  then show "a * n div 10000 \<le> a" by simp
qed

lemma valid_bps_int [simp]: "valid_bps (Fin (of_int n)) \<longleftrightarrow> 0 \<le> n \<and> n \<le> 10000"
proof -
  have "\<not> js_less (Fin 10000) (Fin (of_int n)) \<longleftrightarrow> n \<le> 10000"
    using of_int_le_iff [of n 10000, where 'a = rat] by (auto simp: not_less)
  then show ?thesis by (auto simp: valid_bps_def is_integer_def)
qed

lemma computeSplit_valid:
  assumes "0 \<le> a" and "0 \<le> n" and "n \<le> 10000"
  shows "computeSplit a (Fin (of_int n)) =
    Inr \<lparr>inbound = a, payout = a - a * n div 10000, margin = a * n div 10000\<rparr>"
proof -
  have "big_div (a * big_of_num (Fin (of_int n))) BPS_DENOMINATOR = a * n div 10000"
    using assms by (simp add: big_of_num_def big_div_nonneg BPS_DENOMINATOR_def)
  then show ?thesis using assms margin_bounds [OF assms] valid_bps_int [of n]
    by (simp add: computeSplit_def valid_bps_def Let_def)
qed

lemma computeSplit_total: "0 \<le> a \<Longrightarrow> valid_bps v \<Longrightarrow> \<exists>s. computeSplit a v = Inr s"
  by (elim valid_bpsE) (metis computeSplit_valid)

lemma computeSplit_Inr_iff: "(\<exists>s. computeSplit a v = Inr s) \<longleftrightarrow> 0 \<le> a \<and> valid_bps v"
proof
  assume "\<exists>s. computeSplit a v = Inr s"
  then show "0 \<le> a \<and> valid_bps v"
    by (auto simp: computeSplit_def valid_bps_def split: if_splits)
qed (auto intro: computeSplit_total)

lemma computeSplit_Inr:
  assumes "computeSplit a v = Inr s"
  obtains n where "v = Fin (of_int n)" "0 \<le> n" "n \<le> 10000" "0 \<le> a"
    "s = \<lparr>inbound = a, payout = a - a * n div 10000, margin = a * n div 10000\<rparr>"
proof -
  have ok: "0 \<le> a" "valid_bps v" using assms computeSplit_Inr_iff by blast+
  from ok(2) obtain n where n: "v = Fin (of_int n)" "0 \<le> n" "n \<le> 10000" by (rule valid_bpsE)
  with ok computeSplit_valid [of a n] assms that show thesis by simp
qed

lemma assertSplitInvariant_computeSplit:
  "computeSplit a v = Inr s \<Longrightarrow> assertSplitInvariant s = Inr ()"
  by (elim computeSplit_Inr) (use margin_bounds [of a] in \<open>auto simp: assertSplitInvariant_def not_less\<close>)

subsection \<open>The price table is usable\<close>

lemma set_dedup [simp]: "set (dedup xs) = set xs"
  by (simp add: dedup_def)

lemma distinct_dedup [simp]: "distinct (dedup xs)"
  by (simp add: dedup_def)

lemma length_dedup: "length (dedup xs) = card (set xs)"
  by (metis distinct_card distinct_dedup set_dedup)

lemma hd_dedup: "hd (dedup (x # xs)) = x"
  by (induction xs rule: rev_induct) (auto simp: dedup_def)

lemma usdcToAtomic_trim [simp]: "usdcToAtomic (trim s) = usdcToAtomic s"
  by (simp add: usdcToAtomic_def)

lemma normalizeModelId_idem [simp]: "normalizeModelId (normalizeModelId m) = normalizeModelId m"
  by (simp add: normalizeModelId_def trim_to_lower to_lower_idem)

definition good_table :: "model_prices \<Rightarrow> bool" where
  "good_table t \<longleftrightarrow> jwf t \<and>
     (\<forall>(k, p) \<in> set t. k \<noteq> [] \<and> normalizeModelId k = k \<and> isOk (usdcToAtomic p))"

lemma good_table_jset:
  assumes "good_table t" "k \<noteq> []" "normalizeModelId k = k" "isOk (usdcToAtomic p)"
  shows "good_table (jset k p t)"
  using assms jset_set_subset [of k p t] by (auto simp: good_table_def intro: jwf_jset)

lemma price_entries_good:
  "price_entries kvs t = Inr t' \<Longrightarrow> good_table t \<Longrightarrow> good_table t'"
proof (induction kvs t rule: price_entries.induct)
  case (1 table)
  then show ?case by simp
next
  case (2 model price rest table)
  from "2.prems"(1) obtain p a where p: "normalizeModelId model \<noteq> []" "price = JStr p"
      "usdcToAtomic p = Inr a"
      "price_entries rest (jset (normalizeModelId model) (trim p) table) = Inr t'"
    by (auto simp: Let_def bind_res_Inr_iff split: if_splits jsval.splits)
  have "good_table (jset (normalizeModelId model) (trim p) table)"
    using "2.prems"(2) p by (intro good_table_jset) simp_all
  with "2.IH" [OF refl p(1,2)] p(4) show ?case by simp
qed

lemma parseModelPrices_good:
  assumes "parseModelPrices json_parse raw = Inr t"
  shows "good_table t \<and> card (set (jvals t)) \<le> MAX_PRICE_TIERS"
proof -
  have e: "good_table []" by (simp add: good_table_def)
  show ?thesis using assms
    by (auto simp: parseModelPrices_def bind_res_Inr_iff Let_def length_dedup not_less e
        MAX_PRICE_TIERS_def split: option.splits if_splits jsval.splits
        dest!: price_entries_good [OF _ e])
qed

lemma resolveModelPrice_in_tiers: "resolveModelPrice prices fb m \<in> set (priceTiers prices fb)"
  by (auto simp: resolveModelPrice_def priceTiers_def split: option.splits dest: map_of_SomeD
      intro: rev_image_eqI)

end
