(* ===== verification/SettlementState.thy ===== *)
theory SettlementState
  imports Types Pricing
begin

section \<open>State of the settlement service (packages/settlement/src)\<close>

text \<open>
  The ports and the private state of \<open>DoubleSettlementService\<close>, and the operations on the ledger,
  the durable-write chains and the payout tasks that every public method is built from.

  An asynchronous method is cut at its \<open>await\<close>s: a payout is a task with a phase, a durable
  write is an entry of its chain, and the environment's replies are events (theory Settlement).
  Each synchronous turn reads the clock once. Mutable arrays that are shared between an accrual
  and a pending durable write live in \<open>v_heap\<close>. \<open>v_started\<close> lists the
  payout jobs spawned (a task id is a position in it). Three history variables are never read:
  \<open>v_due\<close> (records accepted for payout), \<open>v_calls\<close> (the task and argument of every \<open>payer.pay\<close>)
  and \<open>v_paid\<close> (the tasks that ended with their payout on chain).
\<close>

subsection \<open>BigInt of a string\<close>

text \<open>
  \<open>BigInt(s)\<close>: surrounding whitespace is dropped, the empty string is zero, a decimal literal may
  carry a sign, a literal with the prefix \<open>0x\<close>, \<open>0o\<close> or \<open>0b\<close> (in either case) may not; \<open>None\<close> stands
  for the thrown \<open>SyntaxError\<close>.
\<close>

definition radix_big :: "nat \<Rightarrow> string \<Rightarrow> int option" where
  "radix_big b ds =
     (let lowered = to_lower ds
      in if ds \<noteq> [] \<and> list_all (\<lambda>c. (is_digit c \<or> 97 \<le> code c \<and> code c \<le> 122) \<and> digit_val c < b) lowered
         then Some (int (radix_val b lowered)) else None)"

definition signed_big :: "string \<Rightarrow> int option" where
  "signed_big s = (case s of
      [] \<Rightarrow> Some 0
    | c # cs \<Rightarrow>
        if c = CHR ''-'' then (if wire_digits cs then Some (- int (dec_val cs)) else None)
        else if c = CHR ''+'' then (if wire_digits cs then Some (int (dec_val cs)) else None)
        else if wire_digits (c # cs) then Some (int (dec_val (c # cs))) else None)"

definition BigInt_of :: "string \<Rightarrow> int option" where
  "BigInt_of s =
     (let t = trim s; prefix = to_lower (take 2 t)
      in if prefix = ''0x'' then radix_big 16 (drop 2 t)
         else if prefix = ''0o'' then radix_big 8 (drop 2 t)
         else if prefix = ''0b'' then radix_big 2 (drop 2 t)
         else signed_big t)"

lemma no_radix_prefix:
  assumes "list_all is_digit t" "\<not> is_digit c"
  shows "to_lower (take 2 t) \<noteq> [CHR ''0'', c]"
proof -
  have d: "list_all is_digit (take 2 t)" using assms(1) by (metis list_all_append append_take_drop_id)
  then have "to_lower (take 2 t) = take 2 t"
    unfolding to_lower_def by (intro map_idI) (auto simp: lower_char_def is_upper_def is_digit_def list_all_iff)
  with d assms(2) show ?thesis by auto
qed

lemma BigInt_of_nat_str [simp]: "BigInt_of (nat_str n) = Some (int n)"
proof -
  obtain c cs where c: "nat_str n = c # cs" by (cases "nat_str n") auto
  have "is_digit c" using nat_str_hd_digit [of n] by (simp add: c)
  then have "c \<noteq> CHR ''-''" "c \<noteq> CHR ''+''" by (auto simp: is_digit_def code_def)
  moreover have "wire_digits (c # cs)" using nat_str_digits [of n] by (simp add: wire_digits_def c)
  moreover have "dec_val (c # cs) = n" using dec_val_nat_str [of n] by (simp add: c)
  moreover have "trim (c # cs) = c # cs" using trim_nat_str [of n] by (simp add: c)
  moreover have "to_lower (take 2 (c # cs)) \<noteq> ''0x'' \<and> to_lower (take 2 (c # cs)) \<noteq> ''0o'' \<and> to_lower (take 2 (c # cs)) \<noteq> ''0b''"
    using nat_str_digits [of n] unfolding c by (intro conjI no_radix_prefix) (simp_all add: is_digit_def code_def)
  ultimately show ?thesis by (simp add: BigInt_of_def signed_big_def c Let_def)
qed

subsection \<open>Configuration and ports\<close>

record settlement_config =
  sc_network :: string
  sc_marginBps :: jsnum
  sc_payoutBatchMinUsdc :: string
  sc_payoutBatchMaxRequests :: nat
  sc_payoutBatchMaxDelayMs :: int

record retry_policy =
  rp_attempts :: nat
  rp_baseDelayMs :: jsnum
  rp_maxDelayMs :: jsnum
  rp_jitterRatio :: jsnum

definition DEFAULT_RETRY_POLICY :: retry_policy where
  "DEFAULT_RETRY_POLICY =
     \<lparr>rp_attempts = 4, rp_baseDelayMs = Fin 3000, rp_maxDelayMs = Fin 15000, rp_jitterRatio = Fin (1/4)\<rparr>"

record payout_request =
  pr_receiver :: string
  pr_amountAtomic :: int
  pr_assetId :: string
  pr_requestId :: string

record inbound_settlement =
  in_requestId :: string
  in_payerAddress :: string
  in_inboundTxId :: string
  in_inboundAtomic :: int

datatype liability_state = Accruing | Paying | Stuck

record pending_payout =
  pp_operatorAddress :: string
  pp_owedAtomic :: string
  pp_requests :: nat
  pp_oldestAt :: int
  pp_state :: liability_state
  pp_deadlineAt :: "int option"
  pp_batchId :: "string option"
  pp_attempts :: "nat option"
  pp_lastError :: "string option"
  pp_lastAttemptAt :: "int option"

text \<open>One persisted accrual; a row the loader cannot use is \<open>None\<close>.\<close>

record persisted_accrual =
  pa_operatorAddress :: string
  pa_records :: "settlement_record option list"
  pa_firstAt :: int
  pa_batchId :: "string option"

subsection \<open>Private state\<close>

record routing_note =
  rn_nodeId :: string
  rn_operatorAddress :: string
  rn_at :: int

record batch_liability =
  bl_batchId :: string
  bl_operatorAddress :: string
  bl_owedAtomic :: int
  bl_requests :: nat
  bl_oldestAt :: int
  bl_attempts :: nat
  bl_lastError :: "string option"
  bl_lastAttemptAt :: "int option"

record accrual =
  ac_operatorAddress :: string
  ac_records :: nat
  ac_totalAtomic :: int
  ac_firstAt :: int
  ac_timer :: "int option"

record payout_job =
  pj_payoutId :: string
  pj_receiver :: string
  pj_amountAtomic :: int
  pj_records :: "settlement_record list"
  pj_batchId :: "string option"
  pj_checkLandedFirst :: bool

datatype phase = PCheckFirst | PPaying nat | PCheckAfter nat | PSleeping nat | PLastLook

record task =
  tk_phase :: phase
  tk_lastError :: string

datatype write_op =
    PutOpen string nat int | RemoveOpen string | PutBatch persisted_accrual | RemoveBatch string
  | PutLedger string settlement_record

record env =
  e_config :: settlement_config
  e_retry :: retry_policy
  e_maxLedgerEntries :: nat
  e_assetId :: string
  e_batchMinAtomic :: int
  e_accrualStore :: bool
  e_ledgerStore :: bool

record svc =
  v_routing :: "(string, routing_note) jsmap"
  v_ledger :: "(string, settlement_record) jsmap"
  v_claimed :: "string list"
  v_accruals :: "(string, accrual) jsmap"
  v_heap :: "settlement_record list list"
  v_batchLiabilities :: "(string, batch_liability) jsmap"
  v_batchSeq :: nat
  v_tasks :: "(nat, task) jsmap"
  v_writeChains :: "(string, write_op list list) jsmap"
  v_due :: "settlement_record list"
  v_started :: "payout_job list"
  v_calls :: "(nat \<times> payout_request) list"
  v_paid :: "nat list"

definition DEFAULT_MAX_LEDGER_ENTRIES :: nat where "DEFAULT_MAX_LEDGER_ENTRIES = 1000"
definition ROUTING_NOTE_TTL_MS :: int where "ROUTING_NOTE_TTL_MS = 10 * 60000"

text \<open>
  The constructor: the asset id and the batch minimum are resolved once and may throw.
  \<open>asset_of\<close> is \<open>usdcAssetId\<close>, which reads the table of the \<open>@x402/avm\<close> package.
\<close>

definition make_service ::
  "(string \<Rightarrow> string res) \<Rightarrow> settlement_config \<Rightarrow> retry_policy option \<Rightarrow> nat option \<Rightarrow> bool \<Rightarrow> bool \<Rightarrow> env res" where
  "make_service asset_of cfg retry maxLedger accrualStore ledgerStore =
     bind_res (asset_of (sc_network cfg)) (\<lambda>asset.
     bind_res (usdcToAtomic (sc_payoutBatchMinUsdc cfg)) (\<lambda>batchMin.
       Inr \<lparr>e_config = cfg,
            e_retry = (case retry of None \<Rightarrow> DEFAULT_RETRY_POLICY | Some r \<Rightarrow> r),
            e_maxLedgerEntries = (case maxLedger of None \<Rightarrow> DEFAULT_MAX_LEDGER_ENTRIES | Some m \<Rightarrow> m),
            e_assetId = asset, e_batchMinAtomic = batchMin,
            e_accrualStore = accrualStore, e_ledgerStore = ledgerStore\<rparr>))"

definition init_svc :: svc where
  "init_svc = \<lparr>v_routing = [], v_ledger = [], v_claimed = [], v_accruals = [], v_heap = [],
     v_batchLiabilities = [], v_batchSeq = 0, v_tasks = [], v_writeChains = [], v_due = [],
     v_started = [], v_calls = [], v_paid = []\<rparr>"

text \<open>A JavaScript \<open>Set\<close>.\<close>

definition sadd :: "'a \<Rightarrow> 'a list \<Rightarrow> 'a list" where
  "sadd x xs = (if x \<in> set xs then xs else xs @ [x])"

lemma set_sadd [simp]: "set (sadd x xs) = insert x (set xs)"
  by (auto simp: sadd_def)

definition payout_of :: "settlement_record \<Rightarrow> int" where
  "payout_of r = (case BigInt_of (s_payoutAtomic r) of Some n \<Rightarrow> n | None \<Rightarrow> 0)"

definition cell_of :: "'a list list \<Rightarrow> nat \<Rightarrow> 'a list" where
  "cell_of h a = (if a < length h then h ! a else [])"

abbreviation heap_get :: "svc \<Rightarrow> nat \<Rightarrow> settlement_record list" where
  "heap_get v a \<equiv> cell_of (v_heap v) a"

abbreviation accrual_records :: "svc \<Rightarrow> accrual \<Rightarrow> settlement_record list" where
  "accrual_records v a \<equiv> heap_get v (ac_records a)"

subsection \<open>Durable writes\<close>

definition enqueueWrite :: "string \<Rightarrow> write_op list \<Rightarrow> svc \<Rightarrow> svc" where
  "enqueueWrite key work v =
     (let chain = (case jget (v_writeChains v) key of None \<Rightarrow> [] | Some c \<Rightarrow> c)
      in v\<lparr>v_writeChains := jset key (chain @ [work]) (v_writeChains v)\<rparr>)"

definition releaseBatch :: "env \<Rightarrow> string option \<Rightarrow> string \<Rightarrow> svc \<Rightarrow> svc" where
  "releaseBatch e batchId operatorAddress v = (case batchId of
      None \<Rightarrow> v
    | Some b \<Rightarrow> if \<not> e_accrualStore e then v else enqueueWrite operatorAddress [RemoveBatch b] v)"

definition toPersisted :: "svc \<Rightarrow> accrual \<Rightarrow> string option \<Rightarrow> persisted_accrual" where
  "toPersisted v a batchId =
     \<lparr>pa_operatorAddress = ac_operatorAddress a, pa_records = map Some (accrual_records v a),
      pa_firstAt = ac_firstAt a, pa_batchId = batchId\<rparr>"

subsection \<open>The audit ledger\<close>

definition persistLedger :: "env \<Rightarrow> settlement_record \<Rightarrow> svc \<Rightarrow> svc" where
  "persistLedger e r v =
     (if \<not> e_ledgerStore e then v
      else enqueueWrite (''ledger:'' @ s_requestId r) [PutLedger (s_requestId r) r] v)"

definition update :: "env \<Rightarrow> string \<Rightarrow> settlement_record \<Rightarrow> svc \<Rightarrow> svc" where
  "update e requestId r v =
     (if \<not> jhas (v_ledger v) requestId then v
      else persistLedger e r (v\<lparr>v_ledger := jset requestId r (v_ledger v)\<rparr>))"

definition evict_oldest :: "nat \<Rightarrow> ('k, 'v) jsmap \<Rightarrow> ('k, 'v) jsmap" where
  "evict_oldest cap m = drop (length m - cap) m"

definition remember :: "env \<Rightarrow> settlement_record \<Rightarrow> svc \<Rightarrow> svc" where
  "remember e r v =
     (let v' = persistLedger e r (v\<lparr>v_ledger := jset (s_requestId r) r (v_ledger v)\<rparr>)
      in v'\<lparr>v_ledger := evict_oldest (e_maxLedgerEntries e) (v_ledger v')\<rparr>)"

fun update_all :: "env \<Rightarrow> (settlement_record \<Rightarrow> settlement_record) \<Rightarrow> settlement_record list \<Rightarrow> svc \<Rightarrow> svc" where
  "update_all e f [] v = v"
| "update_all e f (r # rs) v = update_all e f rs (update e (s_requestId r) (f r) v)"

definition pruneRouting :: "int \<Rightarrow> svc \<Rightarrow> svc" where
  "pruneRouting tm v =
     v\<lparr>v_routing := dropWhile (\<lambda>(_, n). ROUTING_NOTE_TTL_MS \<le> tm - rn_at n) (v_routing v)\<rparr>"

subsection \<open>Terminal states of a payout\<close>

definition finalizeSettled ::
  "env \<Rightarrow> int \<Rightarrow> settlement_record list \<Rightarrow> string option \<Rightarrow> string option \<Rightarrow> svc \<Rightarrow> svc" where
  "finalizeSettled e tm records txId batchId v =
     (let v1 = (case batchId of None \<Rightarrow> v
            | Some b \<Rightarrow> v\<lparr>v_batchLiabilities := jdel b (v_batchLiabilities v)\<rparr>);
          operator = (case records of [] \<Rightarrow> [] | r # _ \<Rightarrow> s_operatorAddress r);
          v2 = releaseBatch e batchId operator v1
      in update_all e (\<lambda>r. r\<lparr>s_payoutTxId := txId, s_batchId := batchId, s_status := Settled,
           s_settledAt := Some tm\<rparr>) records v2)"

definition finalizeFailed ::
  "env \<Rightarrow> int \<Rightarrow> settlement_record list \<Rightarrow> string \<Rightarrow> string option \<Rightarrow> svc \<Rightarrow> svc" where
  "finalizeFailed e tm records reason batchId v =
     (let v1 = (case batchId of None \<Rightarrow> v
            | Some b \<Rightarrow> (case jget (v_batchLiabilities v) b of None \<Rightarrow> v
                | Some l \<Rightarrow> v\<lparr>v_batchLiabilities := jset b (l\<lparr>bl_attempts := bl_attempts l + 1,
                      bl_lastError := Some (take 256 reason), bl_lastAttemptAt := Some tm\<rparr>)
                    (v_batchLiabilities v)\<rparr>))
      in update_all e (\<lambda>r. r\<lparr>s_batchId := batchId, s_status := Failed,
           s_error := Some (take 1024 reason), s_settledAt := Some tm\<rparr>) records v1)"

subsection \<open>What the ledger and the write chains leave alone\<close>

lemma enqueueWrite_frame [simp]:
  "v_routing (enqueueWrite k w v) = v_routing v" "v_ledger (enqueueWrite k w v) = v_ledger v"
  "v_claimed (enqueueWrite k w v) = v_claimed v" "v_accruals (enqueueWrite k w v) = v_accruals v"
  "v_heap (enqueueWrite k w v) = v_heap v" "v_batchSeq (enqueueWrite k w v) = v_batchSeq v"
  "v_batchLiabilities (enqueueWrite k w v) = v_batchLiabilities v"
  "v_tasks (enqueueWrite k w v) = v_tasks v" "v_due (enqueueWrite k w v) = v_due v" "v_paid (enqueueWrite k w v) = v_paid v"
  "v_started (enqueueWrite k w v) = v_started v" "v_calls (enqueueWrite k w v) = v_calls v"
  by (simp_all add: enqueueWrite_def Let_def)

lemma releaseBatch_frame [simp]:
  "v_routing (releaseBatch e b k v) = v_routing v" "v_ledger (releaseBatch e b k v) = v_ledger v"
  "v_claimed (releaseBatch e b k v) = v_claimed v" "v_accruals (releaseBatch e b k v) = v_accruals v"
  "v_heap (releaseBatch e b k v) = v_heap v" "v_batchSeq (releaseBatch e b k v) = v_batchSeq v"
  "v_batchLiabilities (releaseBatch e b k v) = v_batchLiabilities v"
  "v_tasks (releaseBatch e b k v) = v_tasks v" "v_due (releaseBatch e b k v) = v_due v" "v_paid (releaseBatch e b k v) = v_paid v"
  "v_started (releaseBatch e b k v) = v_started v" "v_calls (releaseBatch e b k v) = v_calls v"
  by (simp_all add: releaseBatch_def split: option.split)

lemma persistLedger_frame [simp]:
  "v_routing (persistLedger e r v) = v_routing v" "v_ledger (persistLedger e r v) = v_ledger v"
  "v_claimed (persistLedger e r v) = v_claimed v" "v_accruals (persistLedger e r v) = v_accruals v"
  "v_heap (persistLedger e r v) = v_heap v" "v_batchSeq (persistLedger e r v) = v_batchSeq v"
  "v_batchLiabilities (persistLedger e r v) = v_batchLiabilities v"
  "v_tasks (persistLedger e r v) = v_tasks v" "v_due (persistLedger e r v) = v_due v" "v_paid (persistLedger e r v) = v_paid v"
  "v_started (persistLedger e r v) = v_started v" "v_calls (persistLedger e r v) = v_calls v"
  by (simp_all add: persistLedger_def)

lemma update_frame [simp]:
  "v_routing (update e k r v) = v_routing v"
  "v_claimed (update e k r v) = v_claimed v" "v_accruals (update e k r v) = v_accruals v"
  "v_heap (update e k r v) = v_heap v" "v_batchSeq (update e k r v) = v_batchSeq v"
  "v_batchLiabilities (update e k r v) = v_batchLiabilities v"
  "v_tasks (update e k r v) = v_tasks v" "v_due (update e k r v) = v_due v" "v_paid (update e k r v) = v_paid v"
  "v_started (update e k r v) = v_started v" "v_calls (update e k r v) = v_calls v"
  by (simp_all add: update_def)

lemma update_ledger [simp]:
  "v_ledger (update e k r v) = (if jhas (v_ledger v) k then jset k r (v_ledger v) else v_ledger v)"
  by (simp add: update_def)

lemma remember_frame [simp]:
  "v_routing (remember e r v) = v_routing v"
  "v_claimed (remember e r v) = v_claimed v" "v_accruals (remember e r v) = v_accruals v"
  "v_heap (remember e r v) = v_heap v" "v_batchSeq (remember e r v) = v_batchSeq v"
  "v_batchLiabilities (remember e r v) = v_batchLiabilities v"
  "v_tasks (remember e r v) = v_tasks v" "v_due (remember e r v) = v_due v" "v_paid (remember e r v) = v_paid v"
  "v_started (remember e r v) = v_started v" "v_calls (remember e r v) = v_calls v"
  by (simp_all add: remember_def Let_def)

lemma update_all_frame [simp]:
  "v_routing (update_all e f rs v) = v_routing v"
  "v_claimed (update_all e f rs v) = v_claimed v" "v_accruals (update_all e f rs v) = v_accruals v"
  "v_heap (update_all e f rs v) = v_heap v" "v_batchSeq (update_all e f rs v) = v_batchSeq v"
  "v_batchLiabilities (update_all e f rs v) = v_batchLiabilities v"
  "v_tasks (update_all e f rs v) = v_tasks v" "v_due (update_all e f rs v) = v_due v" "v_paid (update_all e f rs v) = v_paid v"
  "v_started (update_all e f rs v) = v_started v" "v_calls (update_all e f rs v) = v_calls v"
  by (induction rs arbitrary: v) simp_all

lemma finalizeSettled_frame [simp]:
  "v_claimed (finalizeSettled e t rs x b v) = v_claimed v"
  "v_accruals (finalizeSettled e t rs x b v) = v_accruals v"
  "v_heap (finalizeSettled e t rs x b v) = v_heap v"
  "v_batchSeq (finalizeSettled e t rs x b v) = v_batchSeq v"
  "v_tasks (finalizeSettled e t rs x b v) = v_tasks v"
  "v_due (finalizeSettled e t rs x b v) = v_due v" "v_paid (finalizeSettled e t rs x b v) = v_paid v"
  "v_started (finalizeSettled e t rs x b v) = v_started v"
  "v_calls (finalizeSettled e t rs x b v) = v_calls v"
  by (simp_all add: finalizeSettled_def Let_def split: option.split)

lemma finalizeFailed_frame [simp]:
  "v_claimed (finalizeFailed e t rs x b v) = v_claimed v"
  "v_accruals (finalizeFailed e t rs x b v) = v_accruals v"
  "v_heap (finalizeFailed e t rs x b v) = v_heap v"
  "v_batchSeq (finalizeFailed e t rs x b v) = v_batchSeq v"
  "v_tasks (finalizeFailed e t rs x b v) = v_tasks v"
  "v_due (finalizeFailed e t rs x b v) = v_due v" "v_paid (finalizeFailed e t rs x b v) = v_paid v"
  "v_started (finalizeFailed e t rs x b v) = v_started v"
  "v_calls (finalizeFailed e t rs x b v) = v_calls v"
  by (simp_all add: finalizeFailed_def Let_def split: option.split)

lemma finalize_liabilities:
  "v_batchLiabilities (finalizeSettled e t rs x b v) =
     (case b of None \<Rightarrow> v_batchLiabilities v | Some k \<Rightarrow> jdel k (v_batchLiabilities v))"
  "v_batchLiabilities (finalizeFailed e t rs y b v) =
     (case b of None \<Rightarrow> v_batchLiabilities v | Some k \<Rightarrow>
       (case jget (v_batchLiabilities v) k of None \<Rightarrow> v_batchLiabilities v
        | Some l \<Rightarrow> jset k (l\<lparr>bl_attempts := bl_attempts l + 1, bl_lastError := Some (take 256 y),
              bl_lastAttemptAt := Some t\<rparr>) (v_batchLiabilities v)))"
  by (simp_all add: finalizeSettled_def finalizeFailed_def Let_def split: option.split)

subsection \<open>Payout tasks\<close>

text \<open>The synchronous prefix of \<open>runPayout\<close> up to its first \<open>await\<close>.\<close>

definition pay_request :: "env \<Rightarrow> payout_job \<Rightarrow> payout_request" where
  "pay_request e j =
     \<lparr>pr_receiver = pj_receiver j, pr_amountAtomic = pj_amountAtomic j, pr_assetId = e_assetId e,
      pr_requestId = pj_payoutId j\<rparr>"

definition set_task :: "nat \<Rightarrow> phase \<Rightarrow> string \<Rightarrow> svc \<Rightarrow> svc" where
  "set_task tid ph lastError v =
     v\<lparr>v_tasks := jset tid \<lparr>tk_phase = ph, tk_lastError = lastError\<rparr> (v_tasks v)\<rparr>"

definition start_attempt :: "env \<Rightarrow> nat \<Rightarrow> nat \<Rightarrow> string \<Rightarrow> svc \<Rightarrow> svc" where
  "start_attempt e tid attempt lastError v =
     (if attempt \<le> rp_attempts (e_retry e)
      then set_task tid (PPaying attempt) lastError
             (v\<lparr>v_calls := v_calls v @ [(tid, pay_request e (v_started v ! tid))]\<rparr>)
      else set_task tid PLastLook lastError v)"

definition spawn_payout :: "env \<Rightarrow> payout_job \<Rightarrow> svc \<Rightarrow> svc" where
  "spawn_payout e j v =
     (let tid = length (v_started v);
          v1 = v\<lparr>v_started := v_started v @ [j]\<rparr>
      in if pj_checkLandedFirst j then set_task tid PCheckFirst ''unknown error'' v1
         else start_attempt e tid 1 ''unknown error'' v1)"

definition end_task :: "nat \<Rightarrow> svc \<Rightarrow> svc" where
  "end_task tid v = v\<lparr>v_tasks := jdel tid (v_tasks v)\<rparr>"

lemma set_task_frame [simp]:
  "v_ledger (set_task tid ph le v) = v_ledger v" "v_routing (set_task tid ph le v) = v_routing v"
  "v_claimed (set_task tid ph le v) = v_claimed v" "v_accruals (set_task tid ph le v) = v_accruals v"
  "v_heap (set_task tid ph le v) = v_heap v" "v_batchSeq (set_task tid ph le v) = v_batchSeq v"
  "v_batchLiabilities (set_task tid ph le v) = v_batchLiabilities v"
  "v_due (set_task tid ph le v) = v_due v" "v_paid (set_task tid ph le v) = v_paid v" "v_started (set_task tid ph le v) = v_started v"
  "v_calls (set_task tid ph le v) = v_calls v" "v_writeChains (set_task tid ph le v) = v_writeChains v"
  by (simp_all add: set_task_def)

lemma start_attempt_frame [simp]:
  "v_ledger (start_attempt e tid n le v) = v_ledger v"
  "v_routing (start_attempt e tid n le v) = v_routing v"
  "v_claimed (start_attempt e tid n le v) = v_claimed v"
  "v_accruals (start_attempt e tid n le v) = v_accruals v"
  "v_heap (start_attempt e tid n le v) = v_heap v"
  "v_batchSeq (start_attempt e tid n le v) = v_batchSeq v"
  "v_batchLiabilities (start_attempt e tid n le v) = v_batchLiabilities v"
  "v_due (start_attempt e tid n le v) = v_due v" "v_paid (start_attempt e tid n le v) = v_paid v" "v_started (start_attempt e tid n le v) = v_started v"
  "v_writeChains (start_attempt e tid n le v) = v_writeChains v"
  by (simp_all add: start_attempt_def)

lemma spawn_payout_frame [simp]:
  "v_ledger (spawn_payout e j v) = v_ledger v" "v_routing (spawn_payout e j v) = v_routing v"
  "v_claimed (spawn_payout e j v) = v_claimed v" "v_accruals (spawn_payout e j v) = v_accruals v"
  "v_heap (spawn_payout e j v) = v_heap v" "v_batchSeq (spawn_payout e j v) = v_batchSeq v"
  "v_batchLiabilities (spawn_payout e j v) = v_batchLiabilities v"
  "v_due (spawn_payout e j v) = v_due v" "v_paid (spawn_payout e j v) = v_paid v" "v_started (spawn_payout e j v) = v_started v @ [j]"
  "v_writeChains (spawn_payout e j v) = v_writeChains v"
  by (simp_all add: spawn_payout_def Let_def)

lemma end_task_frame [simp]:
  "v_ledger (end_task tid v) = v_ledger v" "v_routing (end_task tid v) = v_routing v"
  "v_claimed (end_task tid v) = v_claimed v" "v_accruals (end_task tid v) = v_accruals v"
  "v_heap (end_task tid v) = v_heap v" "v_batchSeq (end_task tid v) = v_batchSeq v"
  "v_batchLiabilities (end_task tid v) = v_batchLiabilities v" "v_due (end_task tid v) = v_due v" "v_paid (end_task tid v) = v_paid v"
  "v_started (end_task tid v) = v_started v" "v_calls (end_task tid v) = v_calls v"
  "v_writeChains (end_task tid v) = v_writeChains v"
  "v_tasks (end_task tid v) = jdel tid (v_tasks v)"
  by (simp_all add: end_task_def)

definition settle_task :: "nat \<Rightarrow> svc \<Rightarrow> svc" where
  "settle_task tid v = (end_task tid v)\<lparr>v_paid := v_paid v @ [tid]\<rparr>"

lemma settle_task_frame [simp]:
  "v_ledger (settle_task tid v) = v_ledger v" "v_routing (settle_task tid v) = v_routing v"
  "v_claimed (settle_task tid v) = v_claimed v" "v_accruals (settle_task tid v) = v_accruals v"
  "v_heap (settle_task tid v) = v_heap v" "v_batchSeq (settle_task tid v) = v_batchSeq v"
  "v_batchLiabilities (settle_task tid v) = v_batchLiabilities v" "v_due (settle_task tid v) = v_due v"
  "v_started (settle_task tid v) = v_started v" "v_calls (settle_task tid v) = v_calls v"
  "v_writeChains (settle_task tid v) = v_writeChains v"
  "v_tasks (settle_task tid v) = jdel tid (v_tasks v)" "v_paid (settle_task tid v) = v_paid v @ [tid]"
  by (simp_all add: settle_task_def)

datatype reply = PaidOk string | PayThrew string | LandedAt string | NotLanded | Slept

text \<open>One resumption of \<open>runPayout\<close>; \<open>None\<close> when the reply does not fit what the task awaits.\<close>

fun task_reply :: "env \<Rightarrow> int \<Rightarrow> nat \<Rightarrow> phase \<Rightarrow> string \<Rightarrow> reply \<Rightarrow> svc \<Rightarrow> svc option" where
  "task_reply e tm tid PCheckFirst le (LandedAt tx) v =
     (let j = v_started v ! tid
      in Some (finalizeSettled e tm (pj_records j) (Some tx) (pj_batchId j) (settle_task tid v)))"
| "task_reply e tm tid PCheckFirst le NotLanded v = Some (start_attempt e tid 1 le v)"
| "task_reply e tm tid (PPaying n) le (PaidOk tx) v =
     (let j = v_started v ! tid
      in Some (finalizeSettled e tm (pj_records j) (Some tx) (pj_batchId j) (settle_task tid v)))"
| "task_reply e tm tid (PPaying n) le (PayThrew why) v = Some (set_task tid (PCheckAfter n) why v)"
| "task_reply e tm tid (PCheckAfter n) le (LandedAt tx) v =
     (let j = v_started v ! tid
      in Some (finalizeSettled e tm (pj_records j) (Some tx) (pj_batchId j) (settle_task tid v)))"
| "task_reply e tm tid (PCheckAfter n) le NotLanded v =
     Some (if n < rp_attempts (e_retry e) then set_task tid (PSleeping n) le v
           else set_task tid PLastLook le v)"
| "task_reply e tm tid (PSleeping n) le Slept v = Some (start_attempt e tid (n + 1) le v)"
| "task_reply e tm tid PLastLook le (LandedAt tx) v =
     (let j = v_started v ! tid
      in Some (finalizeSettled e tm (pj_records j) (Some tx) (pj_batchId j) (settle_task tid v)))"
| "task_reply e tm tid PLastLook le NotLanded v =
     (let j = v_started v ! tid
      in Some (finalizeFailed e tm (pj_records j) le (pj_batchId j) (end_task tid v)))"
| "task_reply e tm tid ph le rep v = None"

definition job_reply :: "env \<Rightarrow> int \<Rightarrow> nat \<Rightarrow> reply \<Rightarrow> svc \<Rightarrow> svc option" where
  "job_reply e tm tid rep v = (case jget (v_tasks v) tid of
      None \<Rightarrow> None
    | Some t \<Rightarrow> task_reply e tm tid (tk_phase t) (tk_lastError t) rep v)"

text \<open>\<open>backoffMs\<close>, in binary64; \<open>2 ** (attempt - 1)\<close> is exact.\<close>

definition backoffMs :: "retry_policy \<Rightarrow> jsnum \<Rightarrow> nat \<Rightarrow> jsnum" where
  "backoffMs rp rnd attempt =
     (let exponential = js_mul (rp_baseDelayMs rp) (js_of_rat (2 ^ (attempt - 1)));
          clamped = js_min (rp_maxDelayMs rp) exponential;
          jitter = js_mul (js_mul clamped (rp_jitterRatio rp)) rnd
      in js_round (js_add clamped jitter))"

definition parseInboundAmount :: "string \<Rightarrow> int res" where
  "parseInboundAmount wire =
     (if \<not> wire_digits wire then throw SettlementErr ''facilitator reported a non-integer settled amount''
      else Inr (int (dec_val wire)))"

end
