(* ===== verification/Settlement.thy ===== *)
theory Settlement
  imports SettlementState
begin

section \<open>The double-settlement service (packages/settlement/src/service.ts)\<close>

text \<open>
  The public methods of \<open>DoubleSettlementService\<close>. Each definition is one synchronous turn; \<open>tm\<close>
  is what the clock reads in it. Log lines and spans are not modelled.
\<close>

subsection \<open>Routing notes and the ledger entry\<close>

definition recordRouting :: "int \<Rightarrow> string \<Rightarrow> string \<Rightarrow> string \<Rightarrow> svc \<Rightarrow> svc" where
  "recordRouting tm requestId nodeId operatorAddress v =
     (let v' = pruneRouting tm v
      in v'\<lparr>v_routing := jset requestId
           \<lparr>rn_nodeId = nodeId, rn_operatorAddress = operatorAddress, rn_at = tm\<rparr> (v_routing v')\<rparr>)"

definition openRecord ::
  "env \<Rightarrow> int \<Rightarrow> inbound_settlement \<Rightarrow> routing_note \<Rightarrow> settlement_record res" where
  "openRecord e tm inb note =
     bind_res (computeSplit (in_inboundAtomic inb) (sc_marginBps (e_config e))) (\<lambda>split.
     bind_res (assertSplitInvariant split) (\<lambda>_.
     bind_res (atomicToWire (inbound split)) (\<lambda>inboundW.
     bind_res (atomicToWire (payout split)) (\<lambda>payoutW.
     bind_res (atomicToWire (margin split)) (\<lambda>marginW.
       Inr \<lparr>s_requestId = in_requestId inb, s_nodeId = rn_nodeId note,
            s_payerAddress = in_payerAddress inb, s_operatorAddress = rn_operatorAddress note,
            s_inboundAtomic = inboundW, s_payoutAtomic = payoutW, s_marginAtomic = marginW,
            s_inboundTxId = in_inboundTxId inb, s_payoutTxId = None, s_batchId = None,
            s_status = Pending, s_error = None, s_createdAt = tm, s_settledAt = None\<rparr>)))))"

subsection \<open>Accruing and flushing\<close>

text \<open>\<open>now().toString(36)\<close> and the two shapes of a batch id.\<close>

definition base36 :: "int \<Rightarrow> string" where
  "base36 i = (if i < 0 then CHR ''-'' # radix_str 36 (nat (- i)) else radix_str 36 (nat i))"

definition batch_id :: "int \<Rightarrow> string \<Rightarrow> nat \<Rightarrow> string" where
  "batch_id tm mark seqno = base36 tm @ ''-'' @ mark @ radix_str 36 seqno"

definition sum_payouts :: "settlement_record list \<Rightarrow> int" where
  "sum_payouts rs = sum_list (map payout_of rs)"

definition new_liability :: "string \<Rightarrow> string \<Rightarrow> int \<Rightarrow> nat \<Rightarrow> int \<Rightarrow> batch_liability" where
  "new_liability batchId operatorAddress owed requests oldestAt =
     \<lparr>bl_batchId = batchId, bl_operatorAddress = operatorAddress, bl_owedAtomic = owed,
      bl_requests = requests, bl_oldestAt = oldestAt, bl_attempts = 0, bl_lastError = None,
      bl_lastAttemptAt = None\<rparr>"

text \<open>
  \<open>flushAccrual\<close>. The re-derived sum is what is paid; a disagreement with the running total is
  only logged. \<open>payout_of\<close> reads \<open>BigInt(r.payoutAtomic)\<close>, which cannot throw here: the records
  of an accrual come from \<open>openRecord\<close> (\<open>sound_record\<close> below).
\<close>

definition flushAccrual :: "env \<Rightarrow> int \<Rightarrow> string \<Rightarrow> svc \<Rightarrow> svc" where
  "flushAccrual e tm operatorAddress v = (case jget (v_accruals v) operatorAddress of
      None \<Rightarrow> v
    | Some a \<Rightarrow>
        let records = accrual_records v a;
            summed = sum_payouts records;
            seqno = v_batchSeq v + 1;
            batchId = batch_id tm [] seqno;
            v1 = v\<lparr>v_accruals := jdel operatorAddress (v_accruals v), v_batchSeq := seqno,
                   v_batchLiabilities := jset batchId
                     (new_liability batchId operatorAddress summed (length records) (ac_firstAt a))
                     (v_batchLiabilities v)\<rparr>;
            v2 = (if e_accrualStore e
                  then enqueueWrite operatorAddress
                         [PutBatch (toPersisted v a (Some batchId)), RemoveOpen operatorAddress] v1
                  else v1)
        in if records = [] then v
           else spawn_payout e \<lparr>pj_payoutId = ''batch/'' @ batchId, pj_receiver = operatorAddress,
                  pj_amountAtomic = summed, pj_records = records, pj_batchId = Some batchId,
                  pj_checkLandedFirst = False\<rparr> v2)"

text \<open>
  \<open>accrue\<close>: find or create the operator's accrual, push the record onto its array, then flush at
  the value threshold or at the request cap, else write the open accrual and arm the timer. The
  write closes over the array itself, so it is enqueued with the array's address.
\<close>

definition find_accrual :: "int \<Rightarrow> string \<Rightarrow> svc \<Rightarrow> accrual \<times> svc" where
  "find_accrual tm operatorAddress v = (case jget (v_accruals v) operatorAddress of
      Some a \<Rightarrow> (a, v)
    | None \<Rightarrow> (\<lparr>ac_operatorAddress = operatorAddress, ac_records = length (v_heap v),
                ac_totalAtomic = 0, ac_firstAt = tm, ac_timer = None\<rparr>,
              v\<lparr>v_heap := v_heap v @ [[]]\<rparr>))"

definition push_record :: "settlement_record \<Rightarrow> int \<Rightarrow> accrual \<times> svc \<Rightarrow> accrual \<times> svc" where
  "push_record r owed = (\<lambda>(a, v).
     let a' = a\<lparr>ac_totalAtomic := ac_totalAtomic a + owed\<rparr>
     in (a', v\<lparr>v_heap := (v_heap v)[ac_records a := heap_get v (ac_records a) @ [r]],
               v_accruals := jset (ac_operatorAddress a) a' (v_accruals v)\<rparr>))"

definition write_open :: "env \<Rightarrow> accrual \<Rightarrow> svc \<Rightarrow> svc" where
  "write_open e a v =
     (if e_accrualStore e
      then enqueueWrite (ac_operatorAddress a)
             [PutOpen (ac_operatorAddress a) (ac_records a) (ac_firstAt a)] v
      else v)"

definition arm_timer :: "env \<Rightarrow> int \<Rightarrow> accrual \<Rightarrow> svc \<Rightarrow> svc" where
  "arm_timer e tm a v = (case ac_timer a of
      Some _ \<Rightarrow> v
    | None \<Rightarrow> v\<lparr>v_accruals := jset (ac_operatorAddress a)
          (a\<lparr>ac_timer := Some (tm + sc_payoutBatchMaxDelayMs (e_config e))\<rparr>) (v_accruals v)\<rparr>)"

definition accrue :: "env \<Rightarrow> int \<Rightarrow> settlement_record \<Rightarrow> int \<Rightarrow> svc \<Rightarrow> svc" where
  "accrue e tm r owed v =
     (case push_record r owed (find_accrual tm (s_operatorAddress r)
             (update e (s_requestId r) (r\<lparr>s_status := Accrued\<rparr>) v)) of
      (a, v1) \<Rightarrow>
        if e_batchMinAtomic e \<le> ac_totalAtomic a then flushAccrual e tm (s_operatorAddress r) v1
        else if sc_payoutBatchMaxRequests (e_config e) \<le> length (accrual_records v1 a)
          then flushAccrual e tm (s_operatorAddress r) v1
        else arm_timer e tm a (write_open e a v1))"

subsection \<open>Accepting an inbound payment\<close>

text \<open>
  \<open>settleInbound\<close> returns nothing and cannot throw: an unknown request and a duplicate end at
  once, a split that fails validation ends after the id was claimed.
\<close>

definition pay_or_accrue :: "env \<Rightarrow> int \<Rightarrow> settlement_record \<Rightarrow> svc \<Rightarrow> svc" where
  "pay_or_accrue e tm r v =
     (if payout_of r = 0 then finalizeSettled e tm [r] None None v
      else if 0 < e_batchMinAtomic e then accrue e tm r (payout_of r) (v\<lparr>v_due := v_due v @ [r]\<rparr>)
      else spawn_payout e \<lparr>pj_payoutId = s_requestId r, pj_receiver = s_operatorAddress r,
             pj_amountAtomic = payout_of r, pj_records = [r], pj_batchId = None,
             pj_checkLandedFirst = False\<rparr> (v\<lparr>v_due := v_due v @ [r]\<rparr>))"

definition settleInbound :: "env \<Rightarrow> int \<Rightarrow> inbound_settlement \<Rightarrow> svc \<Rightarrow> svc" where
  "settleInbound e tm inb v = (case jget (v_routing v) (in_requestId inb) of
      None \<Rightarrow> v
    | Some note \<Rightarrow>
        let v1 = v\<lparr>v_routing := jdel (in_requestId inb) (v_routing v)\<rparr>;
            v2 = v1\<lparr>v_claimed := sadd (in_requestId inb) (v_claimed v1)\<rparr>
        in if in_requestId inb \<in> set (v_claimed v) then v1
           else (case openRecord e tm inb note of
                Inl _ \<Rightarrow> v2
              | Inr r \<Rightarrow> pay_or_accrue e tm r (remember e r v2)))"

subsection \<open>Flushing everything, and the read-only views\<close>

text \<open>One round of the loop of \<open>flushPayouts\<close>; the keys are copied before it.\<close>

fun flush_keys :: "env \<Rightarrow> int \<Rightarrow> string list \<Rightarrow> svc \<Rightarrow> svc" where
  "flush_keys e tm [] v = v"
| "flush_keys e tm (k # ks) v = flush_keys e tm ks (flushAccrual e tm k v)"

definition flush_round :: "env \<Rightarrow> int \<Rightarrow> svc \<Rightarrow> svc" where
  "flush_round e tm v = flush_keys e tm (jkeys (v_accruals v)) v"

definition accruing_view :: "env \<Rightarrow> svc \<Rightarrow> accrual \<Rightarrow> pending_payout" where
  "accruing_view e v a =
     \<lparr>pp_operatorAddress = ac_operatorAddress a, pp_owedAtomic = int_str (ac_totalAtomic a),
      pp_requests = length (accrual_records v a), pp_oldestAt = ac_firstAt a, pp_state = Accruing,
      pp_deadlineAt = Some (ac_firstAt a + sc_payoutBatchMaxDelayMs (e_config e)),
      pp_batchId = None, pp_attempts = None, pp_lastError = None, pp_lastAttemptAt = None\<rparr>"

definition batched_view :: "batch_liability \<Rightarrow> pending_payout" where
  "batched_view b =
     \<lparr>pp_operatorAddress = bl_operatorAddress b, pp_owedAtomic = int_str (bl_owedAtomic b),
      pp_requests = bl_requests b, pp_oldestAt = bl_oldestAt b,
      pp_state = (if bl_lastError b = None then Paying else Stuck), pp_deadlineAt = None,
      pp_batchId = Some (bl_batchId b), pp_attempts = Some (bl_attempts b),
      pp_lastError = bl_lastError b, pp_lastAttemptAt = bl_lastAttemptAt b\<rparr>"

definition getPendingPayouts :: "env \<Rightarrow> svc \<Rightarrow> pending_payout list" where
  "getPendingPayouts e v =
     sort_key pp_oldestAt (map (accruing_view e v) (jvals (v_accruals v))
       @ map batched_view (jvals (v_batchLiabilities v)))"

definition getSettlementLedger :: "svc \<Rightarrow> settlement_record list" where
  "getSettlementLedger v = rev (jvals (v_ledger v))"

definition getRecord :: "svc \<Rightarrow> string \<Rightarrow> settlement_record option" where
  "getRecord v requestId = jget (v_ledger v) requestId"

subsection \<open>Recovery at boot\<close>

text \<open>
  \<open>hydrateLedger\<close>: \<open>None\<close> is a load that threw, a row without a string request id is \<open>None\<close>.
\<close>

fun hydrate_rows :: "settlement_record option list \<Rightarrow> svc \<Rightarrow> svc" where
  "hydrate_rows [] v = v"
| "hydrate_rows (None # rs) v = hydrate_rows rs v"
| "hydrate_rows (Some r # rs) v =
     hydrate_rows rs (v\<lparr>v_ledger := jset (s_requestId r) r (v_ledger v),
                        v_claimed := sadd (s_requestId r) (v_claimed v)\<rparr>)"

definition hydrateLedger :: "env \<Rightarrow> settlement_record option list option \<Rightarrow> svc \<Rightarrow> svc" where
  "hydrateLedger e recent v =
     (if \<not> e_ledgerStore e then v
      else case recent of None \<Rightarrow> v | Some rows \<Rightarrow> hydrate_rows (rev rows) v)"

definition dropRecovered :: "env \<Rightarrow> persisted_accrual \<Rightarrow> svc \<Rightarrow> svc" where
  "dropRecovered e stored v =
     (if \<not> e_accrualStore e then v
      else enqueueWrite (pa_operatorAddress stored)
             [case pa_batchId stored of Some b \<Rightarrow> RemoveBatch b
              | None \<Rightarrow> RemoveOpen (pa_operatorAddress stored)] v)"

definition forget_liability :: "persisted_accrual \<Rightarrow> svc \<Rightarrow> svc" where
  "forget_liability stored v = (case pa_batchId stored of None \<Rightarrow> v
     | Some b \<Rightarrow> v\<lparr>v_batchLiabilities := jdel b (v_batchLiabilities v)\<rparr>)"

fun sum_BigInt :: "settlement_record list \<Rightarrow> int option" where
  "sum_BigInt [] = Some 0"
| "sum_BigInt (r # rs) = (case BigInt_of (s_payoutAtomic r) of None \<Rightarrow> None
     | Some n \<Rightarrow> (case sum_BigInt rs of None \<Rightarrow> None | Some m \<Rightarrow> Some (n + m)))"

fun reseed :: "env \<Rightarrow> settlement_record list \<Rightarrow> svc \<Rightarrow> svc" where
  "reseed e [] v = v"
| "reseed e (r # rs) v =
     (let v1 = v\<lparr>v_claimed := sadd (s_requestId r) (v_claimed v)\<rparr>
      in reseed e rs (if jhas (v_ledger v1) (s_requestId r) then v1 else remember e r v1))"

definition usable_records :: "persisted_accrual \<Rightarrow> settlement_record list" where
  "usable_records stored = List.map_filter id (pa_records stored)"

definition resume_payout ::
  "env \<Rightarrow> int \<Rightarrow> persisted_accrual \<Rightarrow> settlement_record list \<Rightarrow> int \<Rightarrow> svc \<Rightarrow> svc" where
  "resume_payout e tm stored payable summed v =
     (let resumed = (case pa_batchId stored of Some b \<Rightarrow> b \<noteq> [] | None \<Rightarrow> False);
          seqno = (if resumed then v_batchSeq v else v_batchSeq v + 1);
          batchId = (if resumed then the (pa_batchId stored) else batch_id tm ''r'' seqno);
          operator = pa_operatorAddress stored;
          v1 = v\<lparr>v_batchSeq := seqno, v_batchLiabilities := jset batchId
                  (new_liability batchId operator summed (length payable) (pa_firstAt stored))
                  (v_batchLiabilities v), v_due := v_due v @ payable\<rparr>;
          v2 = enqueueWrite operator
                 (PutBatch (stored\<lparr>pa_records := map Some payable, pa_batchId := Some batchId\<rparr>)
                  # (if resumed then [] else [RemoveOpen operator])) v1
      in spawn_payout e \<lparr>pj_payoutId = ''batch/'' @ batchId, pj_receiver = operator,
           pj_amountAtomic = summed, pj_records = payable, pj_batchId = Some batchId,
           pj_checkLandedFirst = resumed\<rparr> v2)"

text \<open>
  One turn of the recovery loop; \<open>handled\<close> holds the request ids already taken. \<open>None\<close> is the
  \<open>SyntaxError\<close> of \<open>BigInt\<close> on a stored amount that is a string but not a number.
\<close>

definition recover_one ::
  "env \<Rightarrow> int \<Rightarrow> persisted_accrual \<Rightarrow> string list \<times> svc \<Rightarrow> (string list \<times> svc) option" where
  "recover_one e tm stored = (\<lambda>(handled, v).
     let payable = filter (\<lambda>r. s_requestId r \<notin> set handled) (usable_records stored);
         handled' = handled @ map s_requestId payable;
         v1 = reseed e payable v
     in if payable = [] then Some (handled, dropRecovered e stored (forget_liability stored v))
        else (case sum_BigInt payable of
            None \<Rightarrow> None
          | Some summed \<Rightarrow> Some (handled',
              if summed = 0 then dropRecovered e stored (forget_liability stored v1)
              else resume_payout e tm stored payable summed v1)))"

fun recover_rows ::
  "env \<Rightarrow> int \<Rightarrow> persisted_accrual list \<Rightarrow> string list \<times> svc \<Rightarrow> (string list \<times> svc) option" where
  "recover_rows e tm [] hv = Some hv"
| "recover_rows e tm (st # sts) hv = (case recover_one e tm st hv of
      None \<Rightarrow> None | Some hv' \<Rightarrow> recover_rows e tm sts hv')"

text \<open>\<open>loaded\<close> is what \<open>loadAll\<close> returned (open accruals, batches), \<open>None\<close> when it threw.\<close>

definition recoverAccruals ::
  "env \<Rightarrow> int \<Rightarrow> settlement_record option list option
     \<Rightarrow> (persisted_accrual list \<times> persisted_accrual list) option \<Rightarrow> svc \<Rightarrow> svc option" where
  "recoverAccruals e tm recent loaded v =
     (let v1 = hydrateLedger e recent v
      in if \<not> e_accrualStore e then Some v1
         else case loaded of
             None \<Rightarrow> Some v1
           | Some (opens, batches) \<Rightarrow> map_option snd (recover_rows e tm (batches @ opens) ([], v1)))"

subsection \<open>The service as a transition system\<close>

text \<open>
  A process boots with \<open>recoverAccruals\<close> on the empty state, before the listener accepts traffic
  (gateway server.ts). From then on every synchronous turn is one step: a routing note, an inbound
  settlement, a deadline timer that fires, a round of the shutdown flush, a reply to a payout task,
  or the completion of the first durable write of a chain.
\<close>

definition boot ::
  "env \<Rightarrow> int \<Rightarrow> settlement_record option list option
     \<Rightarrow> (persisted_accrual list \<times> persisted_accrual list) option \<Rightarrow> svc option" where
  "boot e tm recent loaded = recoverAccruals e tm recent loaded init_svc"

definition write_done :: "string \<Rightarrow> svc \<Rightarrow> svc option" where
  "write_done key v = (case jget (v_writeChains v) key of
      None \<Rightarrow> None
    | Some [] \<Rightarrow> None
    | Some [w] \<Rightarrow> Some (v\<lparr>v_writeChains := jdel key (v_writeChains v)\<rparr>)
    | Some (w # ws) \<Rightarrow> Some (v\<lparr>v_writeChains := jset key ws (v_writeChains v)\<rparr>))"

inductive svc_step :: "env \<Rightarrow> svc \<Rightarrow> svc \<Rightarrow> bool" for e :: env where
  step_route: "svc_step e v (recordRouting tm rid nid op v)"
| step_settle: "svc_step e v (settleInbound e tm inb v)"
| step_deadline: "jget (v_accruals v) op = Some a \<Longrightarrow> ac_timer a = Some due \<Longrightarrow> due \<le> tm
    \<Longrightarrow> svc_step e v (flushAccrual e tm op v)"
| step_flush: "svc_step e v (flush_round e tm v)"
| step_reply: "job_reply e tm tid rep v = Some v' \<Longrightarrow> svc_step e v v'"
| step_write: "write_done key v = Some v' \<Longrightarrow> svc_step e v v'"

inductive_cases svc_stepE: "svc_step e v v'"

inductive reach :: "env \<Rightarrow> svc \<Rightarrow> svc \<Rightarrow> bool" for e :: env and v0 :: svc where
  reach_refl: "reach e v0 v0"
| reach_step: "reach e v0 v \<Longrightarrow> svc_step e v v' \<Longrightarrow> reach e v0 v'"

end
