(* ===== verification/SettlementBooks.thy ===== *)
theory SettlementBooks
  imports Settlement "HOL-Library.Multiset"
begin

section \<open>The books of the settlement service balance\<close>

text \<open>
  The accounting invariant of every reachable state: each record accepted for payout is held by
  exactly one accrual or one payout job, no request id is accepted twice, every accrual is below
  its thresholds with its deadline armed, and every job pays the sum of its records to the
  operator of all of them.
\<close>

subsection \<open>Rows and jobs\<close>

definition payable_to :: "string \<Rightarrow> settlement_record \<Rightarrow> bool" where
  "payable_to op r \<longleftrightarrow> s_operatorAddress r = op \<and> 0 < payout_of r"

definition accrual_ok :: "env \<Rightarrow> settlement_record list list \<Rightarrow> string \<Rightarrow> accrual \<Rightarrow> bool" where
  "accrual_ok e heap op a \<longleftrightarrow>
     ac_operatorAddress a = op \<and> ac_records a < length heap \<and> cell_of heap (ac_records a) \<noteq> []
     \<and> ac_totalAtomic a = sum_payouts (cell_of heap (ac_records a))
     \<and> list_all (payable_to op) (cell_of heap (ac_records a))
     \<and> ac_totalAtomic a < e_batchMinAtomic e
     \<and> length (cell_of heap (ac_records a)) < sc_payoutBatchMaxRequests (e_config e)
     \<and> ac_timer a = Some (ac_firstAt a + sc_payoutBatchMaxDelayMs (e_config e))"

definition job_ok :: "payout_job \<Rightarrow> bool" where
  "job_ok j \<longleftrightarrow> pj_records j \<noteq> [] \<and> pj_amountAtomic j = sum_payouts (pj_records j)
     \<and> list_all (payable_to (pj_receiver j)) (pj_records j)"

definition held :: "settlement_record list list \<Rightarrow> (string, accrual) jsmap \<Rightarrow> settlement_record list" where
  "held heap acc = concat (map (\<lambda>p. cell_of heap (ac_records (snd p))) acc)"

definition refs :: "(string, accrual) jsmap \<Rightarrow> nat list" where
  "refs acc = map (\<lambda>p. ac_records (snd p)) acc"

definition accruals_ok :: "env \<Rightarrow> settlement_record list list \<Rightarrow> (string, accrual) jsmap \<Rightarrow> bool" where
  "accruals_ok e heap acc \<longleftrightarrow>
     jwf acc \<and> distinct (refs acc) \<and> (\<forall>p \<in> set acc. accrual_ok e heap (fst p) (snd p))"

definition ids_ok :: "settlement_record list \<Rightarrow> string list \<Rightarrow> bool" where
  "ids_ok due claimed \<longleftrightarrow>
     distinct (map s_requestId due) \<and> s_requestId ` set due \<subseteq> set claimed"

definition books :: "env \<Rightarrow> svc \<Rightarrow> bool" where
  "books e v \<longleftrightarrow> accruals_ok e (v_heap v) (v_accruals v)
     \<and> ids_ok (v_due v) (v_claimed v)
     \<and> list_all job_ok (v_started v)
     \<and> mset (v_due v) = mset (held (v_heap v) (v_accruals v)) + mset (concat (map pj_records (v_started v)))"

lemma books_frame:
  assumes "books e v" "v_heap v' = v_heap v" "v_accruals v' = v_accruals v" "v_due v' = v_due v"
    "v_started v' = v_started v" "set (v_claimed v) \<subseteq> set (v_claimed v')"
  shows "books e v'"
  using assms by (auto simp: books_def ids_ok_def)

lemma sum_payouts_simps [simp]:
  "sum_payouts [] = 0" "sum_payouts (r # rs) = payout_of r + sum_payouts rs"
  "sum_payouts (rs @ rs') = sum_payouts rs + sum_payouts rs'"
  by (simp_all add: sum_payouts_def)

lemma sum_payouts_pos: "rs \<noteq> [] \<Longrightarrow> list_all (payable_to op) rs \<Longrightarrow> 0 < sum_payouts rs"
proof (induction rs)
  case (Cons r rs)
  then show ?case by (cases "rs = []") (auto simp: payable_to_def intro: add_pos_pos)
qed simp

lemma job_ok_pos: "job_ok j \<Longrightarrow> 0 < pj_amountAtomic j"
  by (auto simp: job_ok_def intro: sum_payouts_pos)

subsection \<open>Taking one accrual out of the map\<close>

lemma mset_held: "mset (held heap acc) = sum_list (map (\<lambda>p. mset (cell_of heap (ac_records (snd p)))) acc)"
  by (simp add: held_def mset_concat o_def)

lemma held_jdel:
  assumes "jwf acc" "jget acc op = Some a"
  shows "mset (held heap acc) = mset (cell_of heap (ac_records a)) + mset (held heap (jdel op acc))"
  using sum_list_jdel [OF assms, of "\<lambda>p. mset (cell_of heap (ac_records (snd p)))"]
  by (simp add: mset_held)

lemma held_jset:
  assumes "jwf acc"
  shows "mset (held heap (jset op a acc)) =
    mset (cell_of heap (ac_records a)) + mset (held heap (jdel op acc))"
  using sum_list_jset [OF assms, of "\<lambda>p. mset (cell_of heap (ac_records (snd p)))" op a]
  by (simp add: mset_held)

lemma held_cong:
  "(\<And>p. p \<in> set acc \<Longrightarrow> cell_of heap' (ac_records (snd p)) = cell_of heap (ac_records (snd p)))
   \<Longrightarrow> held heap' acc = held heap acc"
  by (simp add: held_def cong: map_cong)

lemma jdel_absent: "jget acc op = None \<Longrightarrow> jdel op acc = acc"
  by (metis delete_id map_of_eq_None_iff)

lemma distinct_map_jdel: "distinct (map f m) \<Longrightarrow> distinct (map f (jdel k m))"
  by (induction m) (auto simp: AList.delete_eq)

lemma accruals_ok_jdel: "accruals_ok e heap acc \<Longrightarrow> accruals_ok e heap (jdel op acc)"
  using jdel_set_subset [of op acc]
  by (auto simp: accruals_ok_def refs_def intro: jwf_jdel distinct_map_jdel)

lemma refs_jset:
  assumes "jwf acc" "distinct (refs (jdel op acc))" "ac_records a \<notin> set (refs (jdel op acc))"
  shows "distinct (refs (jset op a acc))"
  using assms
proof (induction acc)
  case Nil
  then show ?case by (simp add: refs_def)
next
  case (Cons p acc)
  show ?case
  proof (cases "fst p = op")
    case True
    with Cons.prems(1) have "jdel op acc = acc" by (auto simp: jwf_def intro: delete_id)
    with Cons.prems True show ?thesis by (cases p) (simp add: refs_def)
  next
    case False
    have sub: "set (refs (jset op a acc)) \<subseteq> insert (ac_records a) (set (refs (jdel op acc)))"
      using jset_set [of acc op a] Cons.prems(1) by (auto simp: refs_def jwf_def jdel_set)
    have wf: "jwf acc" using Cons.prems(1) by (simp add: jwf_def)
    have d: "distinct (refs (jdel op acc))" "ac_records a \<notin> set (refs (jdel op acc))"
        "ac_records (snd p) \<notin> set (refs (jdel op acc))" "ac_records (snd p) \<noteq> ac_records a"
      using Cons.prems(2,3) False by (cases p, auto simp: refs_def)+
    have "distinct (refs (jset op a acc))" by (rule Cons.IH [OF wf d(1,2)])
    moreover have "ac_records (snd p) \<notin> set (refs (jset op a acc))" using sub d(3,4) by blast
    ultimately show ?thesis using False by (cases p) (simp add: refs_def)
  qed
qed

lemma accruals_ok_jset:
  assumes "jwf acc" "accruals_ok e heap (jdel op acc)" "accrual_ok e heap op a"
    "ac_records a \<notin> set (refs (jdel op acc))"
  shows "accruals_ok e heap (jset op a acc)"
proof -
  have "set (jset op a acc) = insert (op, a) (set (jdel op acc))"
    using jset_set [OF assms(1)] by (simp add: jdel_set)
  with assms refs_jset [OF assms(1)] show ?thesis
    by (auto simp: accruals_ok_def intro: jwf_jset)
qed

lemma accruals_ok_heap:
  assumes "accruals_ok e heap acc" "length heap \<le> length heap'"
    "\<And>p. p \<in> set acc \<Longrightarrow> cell_of heap' (ac_records (snd p)) = cell_of heap (ac_records (snd p))"
  shows "accruals_ok e heap' acc"
  using assms unfolding accruals_ok_def accrual_ok_def by fastforce

lemma accrual_ok_jget: "accruals_ok e heap acc \<Longrightarrow> jget acc op = Some a \<Longrightarrow> accrual_ok e heap op a"
  by (fastforce simp: accruals_ok_def dest: map_of_SomeD)

subsection \<open>Flushing keeps the books\<close>

lemma flushAccrual_None: "jget (v_accruals v) op = None \<Longrightarrow> flushAccrual e tm op v = v"
  by (simp add: flushAccrual_def)

definition batch_job :: "int \<Rightarrow> string \<Rightarrow> nat \<Rightarrow> settlement_record list \<Rightarrow> payout_job" where
  "batch_job tm op seqno rs =
     \<lparr>pj_payoutId = ''batch/'' @ batch_id tm [] seqno, pj_receiver = op,
      pj_amountAtomic = sum_payouts rs, pj_records = rs, pj_batchId = Some (batch_id tm [] seqno),
      pj_checkLandedFirst = False\<rparr>"

lemma batch_job_ok: "rs \<noteq> [] \<Longrightarrow> list_all (payable_to op) rs \<Longrightarrow> job_ok (batch_job tm op n rs)"
  by (simp add: job_ok_def batch_job_def)

lemma flushAccrual_fields:
  assumes "jget (v_accruals v) op = Some a" "accrual_records v a \<noteq> []"
  shows "v_accruals (flushAccrual e tm op v) = jdel op (v_accruals v)"
    "v_started (flushAccrual e tm op v) = v_started v @ [batch_job tm op (v_batchSeq v + 1) (accrual_records v a)]"
    "v_batchSeq (flushAccrual e tm op v) = v_batchSeq v + 1"
    "v_heap (flushAccrual e tm op v) = v_heap v" "v_due (flushAccrual e tm op v) = v_due v" "v_paid (flushAccrual e tm op v) = v_paid v"
    "v_claimed (flushAccrual e tm op v) = v_claimed v" "v_ledger (flushAccrual e tm op v) = v_ledger v"
    "v_batchLiabilities (flushAccrual e tm op v) = jset (batch_id tm [] (v_batchSeq v + 1))
       (new_liability (batch_id tm [] (v_batchSeq v + 1)) op (sum_payouts (accrual_records v a))
          (length (accrual_records v a)) (ac_firstAt a)) (v_batchLiabilities v)"
  using assms by (simp_all add: flushAccrual_def Let_def batch_job_def)

lemma books_flushAccrual:
  assumes "books e v"
  shows "books e (flushAccrual e tm op v)"
proof (cases "jget (v_accruals v) op")
  case None
  then show ?thesis using assms by (simp add: flushAccrual_None)
next
  case (Some a)
  have ok: "accrual_ok e (v_heap v) op a" and wf: "jwf (v_accruals v)"
    using assms Some accrual_ok_jget by (auto simp: books_def accruals_ok_def)
  then have ne: "accrual_records v a \<noteq> []" and pay: "list_all (payable_to op) (accrual_records v a)"
    by (auto simp: accrual_ok_def)
  show ?thesis
    using assms batch_job_ok [OF ne pay] held_jdel [OF wf Some, of "v_heap v"]
    by (simp add: books_def flushAccrual_fields [OF Some ne] accruals_ok_jdel batch_job_def)
qed

lemma books_flush_keys: "books e v \<Longrightarrow> books e (flush_keys e tm ks v)"
  by (induction ks arbitrary: v) (simp_all add: books_flushAccrual)

subsection \<open>Accruing keeps the books\<close>

text \<open>
  \<open>after_push\<close>: what the state looks like between the push of a record and the decision to flush.
  The pushed accrual may be over its thresholds, every other accrual is as it was.
\<close>

definition after_push :: "env \<Rightarrow> settlement_record \<Rightarrow> accrual \<Rightarrow> svc \<Rightarrow> bool" where
  "after_push e r a v \<longleftrightarrow>
     ac_operatorAddress a = s_operatorAddress r \<and> jwf (v_accruals v)
     \<and> jget (v_accruals v) (s_operatorAddress r) = Some a
     \<and> accruals_ok e (v_heap v) (jdel (s_operatorAddress r) (v_accruals v))
     \<and> ac_records a \<notin> set (refs (jdel (s_operatorAddress r) (v_accruals v)))
     \<and> ac_records a < length (v_heap v) \<and> accrual_records v a \<noteq> []
     \<and> ac_totalAtomic a = sum_payouts (accrual_records v a)
     \<and> list_all (payable_to (s_operatorAddress r)) (accrual_records v a)"

lemma jdel_jset [jsmap_simps]: "jdel k (jset k v m) = jdel k m"
  by (induction m) auto

lemma jset_jset [jsmap_simps]: "jset k v (jset k w m) = jset k v m"
  by (induction m) auto

lemma jset_same: "jget m k = Some v \<Longrightarrow> jset k v m = m"
  by (induction m) (auto split: if_splits)

lemma cell_of_update [simp]:
  "cell_of (h[i := c]) j = (if j = i \<and> i < length h then c else cell_of h j)"
  by (auto simp: cell_of_def)

lemma cell_of_append [simp]: "cell_of (h @ [c]) j = (if j = length h then c else cell_of h j)"
  by (auto simp: cell_of_def nth_append)

lemma accrual_others:
  assumes "accruals_ok e heap acc" "jget acc op = Some a"
  shows "ac_records a \<notin> set (refs (jdel op acc))"
proof
  assume "ac_records a \<in> set (refs (jdel op acc))"
  then obtain p where p: "p \<in> set acc" "fst p \<noteq> op" "ac_records (snd p) = ac_records a"
    by (auto simp: refs_def jdel_set)
  moreover have "(op, a) \<in> set acc" using assms(2) by (rule map_of_SomeD)
  moreover have "inj_on (\<lambda>p. ac_records (snd p)) (set acc)"
    using assms(1) by (simp add: accruals_ok_def refs_def distinct_map)
  ultimately have "p = (op, a)" by (auto simp: inj_on_def)
  with p(2) show False by simp
qed

abbreviation grown :: "settlement_record \<Rightarrow> svc \<Rightarrow> svc \<Rightarrow> bool" where
  "grown r v v' \<equiv> mset (held (v_heap v') (v_accruals v')) = add_mset r (mset (held (v_heap v) (v_accruals v)))"

lemma push_existing:
  assumes ok: "accruals_ok e (v_heap v) (v_accruals v)"
    and get: "jget (v_accruals v) (s_operatorAddress r) = Some b"
    and pay: "payable_to (s_operatorAddress r) r"
    and p: "push_record r (payout_of r) (b, v) = (a, v1)"
  shows "after_push e r a v1" and "grown r v v1"
proof -
  define op where "op = s_operatorAddress r"
  have b: "accrual_ok e (v_heap v) op b" using accrual_ok_jget [OF ok] get by (simp add: op_def)
  have wf: "jwf (v_accruals v)" using ok by (simp add: accruals_ok_def)
  have other: "ac_records b \<notin> set (refs (jdel op (v_accruals v)))"
    using accrual_others [OF ok] get by (simp add: op_def)
  have cells: "\<And>q. q \<in> set (jdel op (v_accruals v)) \<Longrightarrow>
      cell_of ((v_heap v)[ac_records b := heap_get v (ac_records b) @ [r]]) (ac_records (snd q))
      = cell_of (v_heap v) (ac_records (snd q))"
    using other by (force simp: refs_def)
  show "after_push e r a v1"
    using p b pay wf other accruals_ok_heap [OF accruals_ok_jdel [OF ok, of op] _ cells]
    by (auto simp: push_record_def Let_def after_push_def accrual_ok_def jsmap_simps op_def
        intro: jwf_jset)
  show "grown r v v1"
    using p b wf held_jdel [OF wf, of op b] get
    by (auto simp: push_record_def Let_def held_jset accrual_ok_def op_def
        held_cong [OF cells [unfolded op_def]])
qed

lemma push_new:
  assumes ok: "accruals_ok e (v_heap v) (v_accruals v)"
    and get: "jget (v_accruals v) (s_operatorAddress r) = None"
    and pay: "payable_to (s_operatorAddress r) r"
    and p: "push_record r (payout_of r) (find_accrual tm (s_operatorAddress r) v) = (a, v1)"
  shows "after_push e r a v1" and "grown r v v1"
proof -
  have wf: "jwf (v_accruals v)" using ok by (simp add: accruals_ok_def)
  have less: "\<And>q. q \<in> set (v_accruals v) \<Longrightarrow> ac_records (snd q) < length (v_heap v)"
    using ok by (auto simp: accruals_ok_def accrual_ok_def)
  have fresh: "length (v_heap v) \<notin> set (refs (v_accruals v))" using less by (force simp: refs_def)
  have cells: "\<And>q. q \<in> set (v_accruals v) \<Longrightarrow>
      cell_of (v_heap v @ [[r]]) (ac_records (snd q)) = cell_of (v_heap v) (ac_records (snd q))"
    using less by fastforce
  show "after_push e r a v1"
    using p get pay wf fresh accruals_ok_heap [OF ok _ cells]
    by (auto simp: find_accrual_def push_record_def Let_def after_push_def jsmap_simps
        jdel_absent [OF get] intro: jwf_jset)
  show "grown r v v1"
    using p get wf
    by (auto simp: find_accrual_def push_record_def Let_def held_jset jdel_absent [OF get]
        held_cong [OF cells])
qed

lemma push_record_frame:
  assumes "push_record r owed (find_accrual tm op v) = (a, v1)"
  shows "v_due v1 = v_due v" "v_paid v1 = v_paid v" "v_started v1 = v_started v" "v_claimed v1 = v_claimed v"
    "v_batchSeq v1 = v_batchSeq v" "v_batchLiabilities v1 = v_batchLiabilities v"
    "v_ledger v1 = v_ledger v" "v_tasks v1 = v_tasks v" "v_calls v1 = v_calls v"
    "v_writeChains v1 = v_writeChains v" "v_routing v1 = v_routing v"
  using assms by (auto simp: push_record_def find_accrual_def Let_def split: option.splits)

lemma push_timer:
  assumes "accruals_ok e (v_heap v) (v_accruals v)"
    "push_record r owed (find_accrual tm op v) = (a, v1)"
  shows "(ac_timer a = None \<and> ac_firstAt a = tm)
    \<or> ac_timer a = Some (ac_firstAt a + sc_payoutBatchMaxDelayMs (e_config e))"
  using assms accrual_ok_jget [OF assms(1)]
  by (auto simp: push_record_def find_accrual_def Let_def accrual_ok_def split: option.splits)

text \<open>The books with one accepted record not yet entered.\<close>

definition books_but :: "env \<Rightarrow> settlement_record \<Rightarrow> svc \<Rightarrow> bool" where
  "books_but e r v \<longleftrightarrow> accruals_ok e (v_heap v) (v_accruals v)
     \<and> ids_ok (v_due v) (v_claimed v) \<and> list_all job_ok (v_started v)
     \<and> mset (v_due v) = add_mset r (mset (held (v_heap v) (v_accruals v))
          + mset (concat (map pj_records (v_started v))))"

lemma books_after_flush:
  assumes "after_push e r a v1" "ids_ok (v_due v1) (v_claimed v1)" "list_all job_ok (v_started v1)"
    "mset (v_due v1) = mset (held (v_heap v1) (v_accruals v1)) + mset (concat (map pj_records (v_started v1)))"
  shows "books e (flushAccrual e tm (s_operatorAddress r) v1)"
proof -
  let ?op = "s_operatorAddress r"
  have get: "jget (v_accruals v1) ?op = Some a" and ne: "accrual_records v1 a \<noteq> []"
    and wf: "jwf (v_accruals v1)" and pay: "list_all (payable_to ?op) (accrual_records v1 a)"
    and rest: "accruals_ok e (v_heap v1) (jdel ?op (v_accruals v1))"
    using assms(1) by (auto simp: after_push_def)
  show ?thesis
    using assms(2-) batch_job_ok [OF ne pay] held_jdel [OF wf get, of "v_heap v1"] rest
    by (simp add: books_def flushAccrual_fields [OF get ne] batch_job_def)
qed

lemma write_open_frame [simp]:
  "v_routing (write_open e a v) = v_routing v" "v_ledger (write_open e a v) = v_ledger v"
  "v_claimed (write_open e a v) = v_claimed v" "v_accruals (write_open e a v) = v_accruals v"
  "v_heap (write_open e a v) = v_heap v" "v_batchSeq (write_open e a v) = v_batchSeq v"
  "v_batchLiabilities (write_open e a v) = v_batchLiabilities v"
  "v_tasks (write_open e a v) = v_tasks v" "v_due (write_open e a v) = v_due v" "v_paid (write_open e a v) = v_paid v"
  "v_started (write_open e a v) = v_started v" "v_calls (write_open e a v) = v_calls v"
  by (simp_all add: write_open_def)

lemma arm_timer_frame [simp]:
  "v_routing (arm_timer e tm a v) = v_routing v" "v_ledger (arm_timer e tm a v) = v_ledger v"
  "v_claimed (arm_timer e tm a v) = v_claimed v" "v_heap (arm_timer e tm a v) = v_heap v"
  "v_batchSeq (arm_timer e tm a v) = v_batchSeq v"
  "v_batchLiabilities (arm_timer e tm a v) = v_batchLiabilities v"
  "v_tasks (arm_timer e tm a v) = v_tasks v" "v_due (arm_timer e tm a v) = v_due v" "v_paid (arm_timer e tm a v) = v_paid v"
  "v_started (arm_timer e tm a v) = v_started v" "v_calls (arm_timer e tm a v) = v_calls v"
  "v_writeChains (arm_timer e tm a v) = v_writeChains v"
  by (simp_all add: arm_timer_def split: option.split)

lemma books_after_keep:
  assumes push: "after_push e r a v1" and "ids_ok (v_due v1) (v_claimed v1)"
    "list_all job_ok (v_started v1)"
    "mset (v_due v1) = mset (held (v_heap v1) (v_accruals v1)) + mset (concat (map pj_records (v_started v1)))"
    and below: "\<not> e_batchMinAtomic e \<le> ac_totalAtomic a"
      "\<not> sc_payoutBatchMaxRequests (e_config e) \<le> length (accrual_records v1 a)"
    and timer: "(ac_timer a = None \<and> ac_firstAt a = tm)
      \<or> ac_timer a = Some (ac_firstAt a + sc_payoutBatchMaxDelayMs (e_config e))"
  shows "books e (arm_timer e tm a (write_open e a v1))"
proof -
  let ?op = "s_operatorAddress r"
  define a' where "a' = (if ac_timer a = None
    then a\<lparr>ac_timer := Some (tm + sc_payoutBatchMaxDelayMs (e_config e))\<rparr> else a)"
  have get: "jget (v_accruals v1) ?op = Some a" and wf: "jwf (v_accruals v1)"
    and rest: "accruals_ok e (v_heap v1) (jdel ?op (v_accruals v1))"
    and op: "ac_operatorAddress a = ?op"
    and other: "ac_records a \<notin> set (refs (jdel ?op (v_accruals v1)))"
    using push by (auto simp: after_push_def)
  have "jset ?op a (v_accruals v1) = v_accruals v1" using get by (rule jset_same)
  then have acc: "v_accruals (arm_timer e tm a (write_open e a v1)) = jset ?op a' (v_accruals v1)"
    by (auto simp: arm_timer_def a'_def op split: option.splits)
  have "accrual_ok e (v_heap v1) ?op a'"
    using push below timer by (auto simp: after_push_def accrual_ok_def a'_def)
  moreover have "ac_records a' = ac_records a" by (simp add: a'_def)
  ultimately have ok: "accruals_ok e (v_heap v1) (jset ?op a' (v_accruals v1))"
    using accruals_ok_jset [OF wf rest] other by simp
  show ?thesis
    using assms(2-4) ok held_jset [OF wf, of "v_heap v1" ?op a'] held_jdel [OF wf get, of "v_heap v1"]
    by (simp add: books_def acc \<open>ac_records a' = ac_records a\<close>)
qed

lemma books_accrue:
  assumes b: "books_but e r v" and pay: "payable_to (s_operatorAddress r) r"
  shows "books e (accrue e tm r (payout_of r) v)"
proof -
  define v0 where "v0 = update e (s_requestId r) (r\<lparr>s_status := Accrued\<rparr>) v"
  obtain a v1 where p: "push_record r (payout_of r) (find_accrual tm (s_operatorAddress r) v0) = (a, v1)"
    by fastforce
  have ok: "accruals_ok e (v_heap v0) (v_accruals v0)" using b by (simp add: books_but_def v0_def)
  have push: "after_push e r a v1 \<and> grown r v0 v1"
  proof (cases "jget (v_accruals v0) (s_operatorAddress r)")
    case None
    show ?thesis using push_new [OF ok None pay p] by blast
  next
    case (Some c)
    then have "push_record r (payout_of r) (c, v0) = (a, v1)" using p by (simp add: find_accrual_def)
    then show ?thesis using push_existing [OF ok Some pay] by blast
  qed
  have fr: "ids_ok (v_due v1) (v_claimed v1)" "list_all job_ok (v_started v1)"
    "mset (v_due v1) = mset (held (v_heap v1) (v_accruals v1)) + mset (concat (map pj_records (v_started v1)))"
    using b push push_record_frame [OF p] by (simp_all add: books_but_def v0_def)
  note ap = push [THEN conjunct1]
  show ?thesis
    using books_after_flush [OF ap fr] books_after_keep [OF ap fr _ _ push_timer [OF ok p]] p
    by (simp add: accrue_def v0_def [symmetric])
qed

subsection \<open>The ledger entry of an inbound payment\<close>

lemma openRecord_Inr:
  assumes "openRecord e tm inb nt = Inr r"
  obtains n where "sc_marginBps (e_config e) = Fin (of_int n)" "0 \<le> n" "n \<le> 10000"
    "0 \<le> in_inboundAtomic inb"
    "s_inboundAtomic r = nat_str (nat (in_inboundAtomic inb))"
    "s_marginAtomic r = nat_str (nat (in_inboundAtomic inb * n div 10000))"
    "s_payoutAtomic r = nat_str (nat (in_inboundAtomic inb - in_inboundAtomic inb * n div 10000))"
    "payout_of r = in_inboundAtomic inb - in_inboundAtomic inb * n div 10000"
    "s_requestId r = in_requestId inb" "s_operatorAddress r = rn_operatorAddress nt"
    "s_status r = Pending"
proof -
  let ?a = "in_inboundAtomic inb"
  from assms obtain s w1 w2 w3 where s: "computeSplit ?a (sc_marginBps (e_config e)) = Inr s"
      "atomicToWire (inbound s) = Inr w1" "atomicToWire (payout s) = Inr w2"
      "atomicToWire (margin s) = Inr w3"
    and r: "s_inboundAtomic r = w1" "s_payoutAtomic r = w2" "s_marginAtomic r = w3"
      "s_requestId r = in_requestId inb" "s_operatorAddress r = rn_operatorAddress nt"
      "s_status r = Pending"
    by (auto simp: openRecord_def bind_res_Inr_iff)
  from s(1) obtain n where n: "sc_marginBps (e_config e) = Fin (of_int n)" "0 \<le> n" "n \<le> 10000"
      "0 \<le> ?a" "s = \<lparr>inbound = ?a, payout = ?a - ?a * n div 10000, margin = ?a * n div 10000\<rparr>"
    by (rule computeSplit_Inr)
  note mb = margin_bounds [OF n(4,2,3)]
  have w: "w1 = nat_str (nat ?a)" "w2 = nat_str (nat (?a - ?a * n div 10000))"
      "w3 = nat_str (nat (?a * n div 10000))"
    using s(2-4) n(5) by (auto simp: atomicToWire_Inr)
  have "payout_of r = ?a - ?a * n div 10000"
    using mb by (simp add: payout_of_def r w)
  with n r w show thesis by (intro that) simp_all
qed

lemma openRecord_payable:
  assumes "openRecord e tm inb nt = Inr r" "payout_of r \<noteq> 0"
  shows "payable_to (s_operatorAddress r) r"
proof -
  obtain n where n: "0 \<le> n" "n \<le> 10000" "0 \<le> in_inboundAtomic inb"
      "payout_of r = in_inboundAtomic inb - in_inboundAtomic inb * n div 10000"
    using assms(1) by (rule openRecord_Inr)
  with margin_bounds [OF n(3,1,2)] assms(2) show ?thesis by (simp add: payable_to_def)
qed

lemma openRecord_id: "openRecord e tm inb nt = Inr r \<Longrightarrow> s_requestId r = in_requestId inb"
  by (elim openRecord_Inr)

subsection \<open>Every step keeps the books\<close>

lemma books_pay_or_accrue:
  assumes b: "books e v" and fresh: "s_requestId r \<notin> s_requestId ` set (v_due v)"
    and claimed: "s_requestId r \<in> set (v_claimed v)"
    and pay: "payout_of r \<noteq> 0 \<Longrightarrow> payable_to (s_operatorAddress r) r"
  shows "books e (pay_or_accrue e tm r v)"
proof -
  let ?v = "v\<lparr>v_due := v_due v @ [r]\<rparr>"
  have but: "books_but e r ?v"
    using b fresh claimed by (auto simp: books_def books_but_def ids_ok_def)
  have zero: "books e (finalizeSettled e tm [r] None None v)"
    using b by (rule books_frame) simp_all
  show ?thesis
    using zero books_accrue [OF but] pay but
    by (auto simp: pay_or_accrue_def books_def books_but_def job_ok_def)
qed

lemma books_settleInbound:
  assumes b: "books e v"
  shows "books e (settleInbound e tm inb v)"
proof -
  let ?id = "in_requestId inb"
  define v1 where "v1 = v\<lparr>v_routing := jdel ?id (v_routing v)\<rparr>"
  define v2 where "v2 = v1\<lparr>v_claimed := sadd ?id (v_claimed v1)\<rparr>"
  have b1: "books e v1" using b by (rule books_frame) (simp_all add: v1_def)
  have b2: "books e v2" using b1 by (rule books_frame) (auto simp: v2_def)
  have "books e (pay_or_accrue e tm r (remember e r v2))"
    if r: "openRecord e tm inb nt = Inr r" and new: "?id \<notin> set (v_claimed v)" for nt r
  proof (rule books_pay_or_accrue)
    show "books e (remember e r v2)" using b2 by (rule books_frame) simp_all
    show "s_requestId r \<notin> s_requestId ` set (v_due (remember e r v2))"
      using b new openRecord_id [OF r] by (auto simp: v1_def v2_def books_def ids_ok_def)
    show "s_requestId r \<in> set (v_claimed (remember e r v2))"
      using openRecord_id [OF r] by (simp add: v2_def)
  qed (rule openRecord_payable [OF r])
  with b b1 b2 show ?thesis
    by (auto simp: settleInbound_def Let_def v1_def [symmetric] v2_def [symmetric]
        split: option.splits sum.splits)
qed

lemma task_reply_books:
  "task_reply e tm tid ph le rep v = Some v' \<Longrightarrow> books e v \<Longrightarrow> books e v'"
  by (induction e tm tid ph le rep v rule: task_reply.induct)
    (auto simp: Let_def split: if_splits elim!: books_frame)

lemma write_done_frame:
  assumes "write_done k v = Some v'"
  shows "\<exists>c. v' = v\<lparr>v_writeChains := c\<rparr>"
  using assms by (auto simp: write_done_def split: option.splits list.splits)

lemma books_step:
  assumes "svc_step e v v'" "books e v"
  shows "books e v'"
  using assms
proof cases
  case (step_route tm rid nid op)
  have "books e (recordRouting tm rid nid op v)"
    using assms(2) by (rule books_frame) (simp_all add: recordRouting_def pruneRouting_def Let_def)
  with step_route show ?thesis by simp
next
  case (step_settle tm inb)
  with assms(2) books_settleInbound show ?thesis by simp
next
  case (step_deadline op a due tm)
  with assms(2) books_flushAccrual show ?thesis by simp
next
  case (step_flush tm)
  with assms(2) books_flush_keys show ?thesis by (simp add: flush_round_def)
next
  case (step_reply tm tid rep)
  with assms(2) task_reply_books show ?thesis by (auto simp: job_reply_def split: option.splits)
next
  case (step_write key)
  from write_done_frame [OF this(1)] obtain c where "v' = v\<lparr>v_writeChains := c\<rparr>" by blast
  with assms(2) show ?thesis by (auto elim: books_frame)
qed

lemma books_reach: "reach e v0 v \<Longrightarrow> books e v0 \<Longrightarrow> books e v"
  by (induction rule: reach.induct) (auto intro: books_step)

lemma books_init [simp]: "books e init_svc"
  by (simp add: books_def init_svc_def accruals_ok_def refs_def held_def ids_ok_def)

subsection \<open>Recovery opens balanced books\<close>

text \<open>
  What a stored row looks like when a previous process wrote it: every usable record is owed to the
  operator of the row, and no request id is twice in one row. Rows may overlap each other.
\<close>

definition good_row :: "persisted_accrual \<Rightarrow> bool" where
  "good_row st \<longleftrightarrow> list_all (payable_to (pa_operatorAddress st)) (usable_records st)
     \<and> distinct (map s_requestId (usable_records st))"

lemma sum_BigInt_payable: "list_all (payable_to op) rs \<Longrightarrow> sum_BigInt rs = Some (sum_payouts rs)"
  by (induction rs) (auto simp: payable_to_def payout_of_def split: option.splits)

lemma reseed_frame [simp]:
  "v_accruals (reseed e rs v) = v_accruals v" "v_heap (reseed e rs v) = v_heap v"
  "v_due (reseed e rs v) = v_due v" "v_paid (reseed e rs v) = v_paid v" "v_started (reseed e rs v) = v_started v"
  "v_tasks (reseed e rs v) = v_tasks v" "v_calls (reseed e rs v) = v_calls v"
  "v_batchSeq (reseed e rs v) = v_batchSeq v"
  "v_batchLiabilities (reseed e rs v) = v_batchLiabilities v"
  by (induction rs arbitrary: v) (simp_all add: Let_def)

lemma reseed_claimed [simp]:
  "set (v_claimed (reseed e rs v)) = set (v_claimed v) \<union> s_requestId ` set rs"
  by (induction rs arbitrary: v) (auto simp: Let_def)

lemma dropRecovered_frame [simp]:
  "v_accruals (dropRecovered e st v) = v_accruals v" "v_heap (dropRecovered e st v) = v_heap v"
  "v_due (dropRecovered e st v) = v_due v" "v_paid (dropRecovered e st v) = v_paid v" "v_started (dropRecovered e st v) = v_started v"
  "v_tasks (dropRecovered e st v) = v_tasks v" "v_calls (dropRecovered e st v) = v_calls v"
  "v_claimed (dropRecovered e st v) = v_claimed v" "v_ledger (dropRecovered e st v) = v_ledger v"
  "v_batchLiabilities (dropRecovered e st v) = v_batchLiabilities v"
  by (simp_all add: dropRecovered_def)

lemma forget_liability_frame [simp]:
  "v_accruals (forget_liability st v) = v_accruals v" "v_heap (forget_liability st v) = v_heap v"
  "v_due (forget_liability st v) = v_due v" "v_paid (forget_liability st v) = v_paid v" "v_started (forget_liability st v) = v_started v"
  "v_tasks (forget_liability st v) = v_tasks v" "v_calls (forget_liability st v) = v_calls v"
  "v_claimed (forget_liability st v) = v_claimed v" "v_ledger (forget_liability st v) = v_ledger v"
  by (simp_all add: forget_liability_def split: option.split)

lemma resume_payout_fields:
  "v_accruals (resume_payout e tm st rs n v) = v_accruals v"
  "v_heap (resume_payout e tm st rs n v) = v_heap v"
  "v_due (resume_payout e tm st rs n v) = v_due v @ rs"
  "v_claimed (resume_payout e tm st rs n v) = v_claimed v"
  "v_ledger (resume_payout e tm st rs n v) = v_ledger v"
  "\<exists>j. v_started (resume_payout e tm st rs n v) = v_started v @ [j] \<and> pj_records j = rs
     \<and> pj_amountAtomic j = n \<and> pj_receiver j = pa_operatorAddress st"
  by (simp_all add: resume_payout_def Let_def)

definition recovering :: "env \<Rightarrow> string list \<Rightarrow> svc \<Rightarrow> bool" where
  "recovering e handled v \<longleftrightarrow> books e v \<and> v_accruals v = [] \<and> s_requestId ` set (v_due v) \<subseteq> set handled"

lemma recover_one_books:
  assumes rec: "recovering e handled v" and good: "good_row st"
  obtains handled' v' where "recover_one e tm st (handled, v) = Some (handled', v')"
    "recovering e handled' v'"
proof -
  define rs where "rs = filter (\<lambda>r. s_requestId r \<notin> set handled) (usable_records st)"
  have pay: "list_all (payable_to (pa_operatorAddress st)) rs"
    and dist: "distinct (map s_requestId rs)" and fresh: "\<forall>r \<in> set rs. s_requestId r \<notin> set handled"
    using good by (auto simp: good_row_def rs_def list_all_iff distinct_map_filter)
  define v1 where "v1 = reseed e rs v"
  have bv: "books e v" using rec by (simp add: recovering_def)
  have v1: "books e v1" unfolding v1_def by (rule books_frame [OF bv]) simp_all
  show thesis
  proof (cases "rs = []")
    case True
    have "books e (dropRecovered e st (forget_liability st v))"
      by (rule books_frame [OF bv]) simp_all
    then have "recovering e handled (dropRecovered e st (forget_liability st v))"
      using rec by (simp add: recovering_def)
    with True show thesis
      by (intro that [of handled "dropRecovered e st (forget_liability st v)"])
        (simp_all add: recover_one_def rs_def [symmetric])
  next
    case False
    have pos: "sum_payouts rs \<noteq> 0" using sum_payouts_pos [OF False pay] by simp
    define v2 where "v2 = resume_payout e tm st rs (sum_payouts rs) v1"
    have r: "recover_one e tm st (handled, v) = Some (handled @ map s_requestId rs, v2)"
      using False pos sum_BigInt_payable [OF pay]
      by (simp add: recover_one_def rs_def [symmetric] v1_def v2_def Let_def)
    obtain j where j: "v_started v2 = v_started v1 @ [j]" "pj_records j = rs"
        "pj_amountAtomic j = sum_payouts rs" "pj_receiver j = pa_operatorAddress st"
      using resume_payout_fields(6) [of e tm st rs "sum_payouts rs" v1] by (auto simp: v2_def)
    have due: "v_due v2 = v_due v @ rs"
      and cl: "set (v_claimed v2) = set (v_claimed v) \<union> s_requestId ` set rs"
      by (simp_all add: v2_def v1_def resume_payout_fields)
    have "ids_ok (v_due v) (v_claimed v)" and sub: "s_requestId ` set (v_due v) \<subseteq> set handled"
      using rec by (simp_all add: recovering_def books_def)
    then have ids: "ids_ok (v_due v2) (v_claimed v2)"
      using dist fresh unfolding ids_ok_def due cl by auto
    have fr: "v_heap v2 = v_heap v1" "v_accruals v2 = v_accruals v1" "v_due v2 = v_due v1 @ rs"
      by (simp_all add: v2_def resume_payout_fields)
    have "job_ok j" using j(2-4) False pay by (simp add: job_ok_def)
    with v1 ids have "books e v2"
      unfolding books_def fr j(1) by (simp add: j(2))
    moreover have "v_accruals v2 = []" using rec fr(2) by (simp add: recovering_def v1_def)
    ultimately have "recovering e (handled @ map s_requestId rs) v2"
      using sub by (auto simp: recovering_def due)
    with r that show thesis by blast
  qed
qed

lemma recover_rows_books:
  assumes "recovering e handled v" and "\<forall>st \<in> set rows. good_row st"
  shows "\<exists>handled' v'. recover_rows e tm rows (handled, v) = Some (handled', v') \<and> recovering e handled' v'"
  using assms
proof (induction rows arbitrary: handled v)
  case (Cons st rows)
  obtain h1 v1 where "recover_one e tm st (handled, v) = Some (h1, v1)" "recovering e h1 v1"
    using Cons.prems recover_one_books by (metis list.set_intros(1))
  with Cons show ?case by simp
qed simp

lemma hydrate_rows_frame [simp]:
  "v_accruals (hydrate_rows rs v) = v_accruals v" "v_heap (hydrate_rows rs v) = v_heap v"
  "v_due (hydrate_rows rs v) = v_due v" "v_paid (hydrate_rows rs v) = v_paid v" "v_started (hydrate_rows rs v) = v_started v"
  "v_tasks (hydrate_rows rs v) = v_tasks v" "v_calls (hydrate_rows rs v) = v_calls v"
  "set (v_claimed v) \<subseteq> set (v_claimed (hydrate_rows rs v))"
  by (induction rs v rule: hydrate_rows.induct) auto

lemma hydrateLedger_frame [simp]:
  "v_accruals (hydrateLedger e rs v) = v_accruals v" "v_heap (hydrateLedger e rs v) = v_heap v"
  "v_due (hydrateLedger e rs v) = v_due v" "v_paid (hydrateLedger e rs v) = v_paid v" "v_started (hydrateLedger e rs v) = v_started v"
  "v_tasks (hydrateLedger e rs v) = v_tasks v" "v_calls (hydrateLedger e rs v) = v_calls v"
  "set (v_claimed v) \<subseteq> set (v_claimed (hydrateLedger e rs v))"
  by (auto simp: hydrateLedger_def split: option.splits dest: hydrate_rows_frame(8) [THEN subsetD])

lemma boot_books:
  assumes "\<And>opens batches st. loaded = Some (opens, batches) \<Longrightarrow> st \<in> set opens \<union> set batches \<Longrightarrow> good_row st"
  shows "\<exists>v. boot e tm recent loaded = Some v \<and> books e v"
proof -
  let ?v = "hydrateLedger e recent init_svc"
  have b: "books e ?v" by (rule books_frame [OF books_init]) simp_all
  have "recovering e [] ?v" using b by (simp add: recovering_def init_svc_def)
  then have "\<exists>h v. recover_rows e tm (batches @ opens) ([], ?v) = Some (h, v) \<and> recovering e h v"
    if "loaded = Some (opens, batches)" for opens batches
    using assms [OF that] by (intro recover_rows_books) auto
  with b show ?thesis
    by (fastforce simp: boot_def recoverAccruals_def Let_def recovering_def split: option.split)
qed

end
