(* ===== verification/SettlementWork.thy ===== *)
theory SettlementWork
  imports SettlementBooks
begin

section \<open>Payout tasks: bounded attempts, termination, outcome\<close>

text \<open>
  The invariant of the payout tasks of every reachable state (every \<open>payer.pay\<close> carries its job
  unchanged, the number of submissions is determined by the phase and never exceeds the retry
  policy), the measure by which a task that is answered at every \<open>await\<close> ends, and what its last
  turn writes to the ledger.
\<close>

abbreviation max_attempts :: "env \<Rightarrow> nat" where
  "max_attempts e \<equiv> rp_attempts (e_retry e)"

definition calls_of :: "nat \<Rightarrow> (nat \<times> payout_request) list \<Rightarrow> (nat \<times> payout_request) list" where
  "calls_of tid cs = filter (\<lambda>c. fst c = tid) cs"

fun phase_ok :: "env \<Rightarrow> phase \<Rightarrow> bool" where
  "phase_ok e PCheckFirst = True"
| "phase_ok e (PPaying n) = (1 \<le> n \<and> n \<le> max_attempts e)"
| "phase_ok e (PCheckAfter n) = (1 \<le> n \<and> n \<le> max_attempts e)"
| "phase_ok e (PSleeping n) = (1 \<le> n \<and> n < max_attempts e)"
| "phase_ok e PLastLook = True"

fun phase_calls :: "env \<Rightarrow> phase \<Rightarrow> nat" where
  "phase_calls e PCheckFirst = 0"
| "phase_calls e (PPaying n) = n"
| "phase_calls e (PCheckAfter n) = n"
| "phase_calls e (PSleeping n) = n"
| "phase_calls e PLastLook = max_attempts e"

definition task_ok :: "env \<Rightarrow> svc \<Rightarrow> nat \<Rightarrow> task \<Rightarrow> bool" where
  "task_ok e v tid t \<longleftrightarrow> tid < length (v_started v) \<and> phase_ok e (tk_phase t)
     \<and> length (calls_of tid (v_calls v)) = phase_calls e (tk_phase t)"

definition call_ok :: "env \<Rightarrow> payout_job list \<Rightarrow> nat \<times> payout_request \<Rightarrow> bool" where
  "call_ok e started c \<longleftrightarrow> fst c < length started \<and> snd c = pay_request e (started ! fst c)"

definition work :: "env \<Rightarrow> svc \<Rightarrow> bool" where
  "work e v \<longleftrightarrow> (\<forall>tid t. jget (v_tasks v) tid = Some t \<longrightarrow> task_ok e v tid t)
     \<and> (\<forall>c \<in> set (v_calls v). call_ok e (v_started v) c)
     \<and> (\<forall>tid. length (calls_of tid (v_calls v)) \<le> max_attempts e)"

lemma work_frame:
  assumes "work e v" "v_tasks v' = v_tasks v" "v_calls v' = v_calls v" "v_started v' = v_started v"
  shows "work e v'"
  using assms by (simp add: work_def task_ok_def)

lemma phase_calls_le: "phase_ok e ph \<Longrightarrow> phase_calls e ph \<le> max_attempts e"
  by (cases "(e, ph)" rule: phase_ok.cases) auto

lemma calls_of_snoc [simp]:
  "calls_of tid (cs @ [(k, q)]) = calls_of tid cs @ (if k = tid then [(k, q)] else [])"
  by (simp add: calls_of_def)

lemma work_set_task:
  assumes "work e v" "tid < length (v_started v)" "phase_ok e ph"
    "length (calls_of tid (v_calls v)) = phase_calls e ph"
  shows "work e (set_task tid ph le v)"
  using assms by (auto simp: work_def task_ok_def set_task_def jget_jset)

lemma work_start_attempt:
  assumes w: "work e v" and t: "tid < length (v_started v)" and n: "1 \<le> n" "n \<le> max_attempts e + 1"
    and c: "length (calls_of tid (v_calls v)) = n - 1"
  shows "work e (start_attempt e tid n le v)"
proof (cases "n \<le> max_attempts e")
  case True
  then show ?thesis
    using assms by (auto simp: start_attempt_def set_task_def work_def task_ok_def jget_jset call_ok_def)
next
  case False
  then show ?thesis using assms by (simp add: start_attempt_def work_set_task)
qed

lemma calls_beyond: "work e v \<Longrightarrow> length (v_started v) \<le> tid \<Longrightarrow> calls_of tid (v_calls v) = []"
  by (force simp: work_def call_ok_def calls_of_def filter_empty_conv)

lemma work_append_job:
  assumes "work e v"
  shows "work e (v\<lparr>v_started := v_started v @ [j]\<rparr>)"
  using assms by (auto simp: work_def task_ok_def call_ok_def nth_append intro!: less_SucI)

lemma work_spawn:
  assumes "work e v"
  shows "work e (spawn_payout e j v)"
  using work_append_job [OF assms, of j] calls_beyond [OF assms, of "length (v_started v)"]
  by (auto simp: spawn_payout_def Let_def intro!: work_set_task work_start_attempt)

lemma work_end_task: "work e v \<Longrightarrow> work e (end_task tid v)"
  by (auto simp: work_def task_ok_def jget_jdel)

lemma work_settle_task: "work e v \<Longrightarrow> work e (settle_task tid v)"
  by (auto simp: work_def task_ok_def jget_jdel)

lemma work_finalizeSettled: "work e v \<Longrightarrow> work e (finalizeSettled e tm rs tx b v)"
  by (erule work_frame) simp_all

lemma work_finalizeFailed: "work e v \<Longrightarrow> work e (finalizeFailed e tm rs why b v)"
  by (erule work_frame) simp_all

lemma work_task_reply:
  assumes "task_reply e tm tid ph le rep v = Some v'" "work e v" "task_ok e v tid \<lparr>tk_phase = ph, tk_lastError = x\<rparr>"
  shows "work e v'"
  using assms
  by (cases "(e, tm, tid, ph, le, rep, v)" rule: task_reply.cases)
    (auto simp: task_ok_def Let_def split: if_splits
      intro!: work_set_task work_start_attempt work_finalizeSettled work_finalizeFailed work_end_task work_settle_task)

lemma work_job_reply:
  assumes "job_reply e tm tid rep v = Some v'" "work e v"
  shows "work e v'"
proof -
  from assms(1) obtain t where t: "jget (v_tasks v) tid = Some t"
    and r: "task_reply e tm tid (tk_phase t) (tk_lastError t) rep v = Some v'"
    by (auto simp: job_reply_def split: option.splits)
  from t assms(2) have "task_ok e v tid \<lparr>tk_phase = tk_phase t, tk_lastError = tk_lastError t\<rparr>"
    by (auto simp: work_def task_ok_def)
  with r assms(2) show ?thesis by (rule work_task_reply)
qed

lemma work_flushAccrual: "work e v \<Longrightarrow> work e (flushAccrual e tm op v)"
  by (auto simp: flushAccrual_def Let_def split: option.splits intro!: work_spawn elim!: work_frame)

lemma work_flush_keys: "work e v \<Longrightarrow> work e (flush_keys e tm ks v)"
  by (induction ks arbitrary: v) (simp_all add: work_flushAccrual)

lemma work_accrue:
  assumes "work e v"
  shows "work e (accrue e tm r owed v)"
proof -
  obtain a v1 where p: "push_record r owed (find_accrual tm (s_operatorAddress r)
      (update e (s_requestId r) (r\<lparr>s_status := Accrued\<rparr>) v)) = (a, v1)" by fastforce
  have "work e v1" using assms by (rule work_frame) (simp_all add: push_record_frame [OF p])
  then have "work e (flushAccrual e tm (s_operatorAddress r) v1)"
    and "work e (arm_timer e tm a (write_open e a v1))"
    by (auto intro: work_flushAccrual elim: work_frame)
  then show ?thesis by (simp add: accrue_def p)
qed

lemma work_pay_or_accrue: "work e v \<Longrightarrow> work e (pay_or_accrue e tm r v)"
  by (auto simp: pay_or_accrue_def intro!: work_finalizeSettled work_accrue work_spawn elim!: work_frame)

lemma work_settleInbound: "work e v \<Longrightarrow> work e (settleInbound e tm inb v)"
  by (auto simp: settleInbound_def Let_def split: option.splits sum.splits
      intro!: work_pay_or_accrue elim!: work_frame)

lemma work_step: "svc_step e v v' \<Longrightarrow> work e v \<Longrightarrow> work e v'"
proof (induction rule: svc_step.induct)
  case (step_route v tm rid nid op)
  then show ?case by (rule work_frame) (simp_all add: recordRouting_def pruneRouting_def Let_def)
next
  case (step_write key v v')
  from write_done_frame [OF this(1)] obtain c where "v' = v\<lparr>v_writeChains := c\<rparr>" by blast
  with step_write(2) show ?case by (auto elim: work_frame)
qed (auto simp: flush_round_def intro: work_settleInbound work_flushAccrual work_flush_keys work_job_reply)

lemma work_reach: "reach e v0 v \<Longrightarrow> work e v0 \<Longrightarrow> work e v"
  by (induction rule: reach.induct) (auto intro: work_step)

lemma work_init [simp]: "work e init_svc"
  by (simp add: work_def init_svc_def calls_of_def)

lemma work_resume: "work e v \<Longrightarrow> work e (resume_payout e tm st rs n v)"
  by (auto simp: resume_payout_def Let_def intro!: work_spawn elim!: work_frame)

lemma work_recover_one:
  "recover_one e tm st (h, v) = Some (h', v') \<Longrightarrow> work e v \<Longrightarrow> work e v'"
  by (auto simp: recover_one_def Let_def split: if_splits option.splits
      intro!: work_resume elim!: work_frame)

lemma work_recover_rows:
  "recover_rows e tm sts (h, v) = Some (h', v') \<Longrightarrow> work e v \<Longrightarrow> work e v'"
  by (induction sts arbitrary: h v) (auto split: option.splits dest: work_recover_one)

lemma work_boot: "boot e tm recent loaded = Some v \<Longrightarrow> work e v"
proof -
  have "work e (hydrateLedger e recent init_svc)" by (rule work_frame [OF work_init]) simp_all
  then show "boot e tm recent loaded = Some v \<Longrightarrow> work e v"
    by (auto simp: boot_def recoverAccruals_def Let_def split: if_splits option.splits
        dest: work_recover_rows)
qed

subsection \<open>A task that is answered ends\<close>

fun phase_fuel :: "env \<Rightarrow> phase \<Rightarrow> nat" where
  "phase_fuel e PCheckFirst = 3 * max_attempts e + 2"
| "phase_fuel e (PPaying n) = 3 * (max_attempts e - n) + 3"
| "phase_fuel e (PCheckAfter n) = 3 * (max_attempts e - n) + 2"
| "phase_fuel e (PSleeping n) = 3 * (max_attempts e - n) + 1"
| "phase_fuel e PLastLook = 1"

fun fits :: "phase \<Rightarrow> reply \<Rightarrow> bool" where
  "fits (PPaying n) (PaidOk tx) = True"
| "fits (PPaying n) (PayThrew why) = True"
| "fits (PSleeping n) Slept = True"
| "fits PCheckFirst (LandedAt tx) = True"
| "fits PCheckFirst NotLanded = True"
| "fits (PCheckAfter n) (LandedAt tx) = True"
| "fits (PCheckAfter n) NotLanded = True"
| "fits PLastLook (LandedAt tx) = True"
| "fits PLastLook NotLanded = True"
| "fits ph rep = False"

lemma fits_progress: "fits ph rep \<Longrightarrow> \<exists>v'. task_reply e tm tid ph le rep v = Some v'"
  by (cases "(ph, rep)" rule: fits.cases) (simp_all add: Let_def)

definition running :: "svc \<Rightarrow> nat \<Rightarrow> bool" where
  "running v tid \<longleftrightarrow> jget (v_tasks v) tid \<noteq> None"

definition fuel_of :: "env \<Rightarrow> svc \<Rightarrow> nat \<Rightarrow> nat" where
  "fuel_of e v tid = (case jget (v_tasks v) tid of None \<Rightarrow> 0 | Some t \<Rightarrow> phase_fuel e (tk_phase t))"

lemma task_reply_fuel:
  assumes "task_reply e tm tid ph le rep v = Some v'" "phase_ok e ph"
  shows "fuel_of e v' tid < phase_fuel e ph"
  using assms
  by (cases "(e, tm, tid, ph, le, rep, v)" rule: task_reply.cases)
    (auto simp: Let_def fuel_of_def set_task_def start_attempt_def jget_jset jget_jdel split: if_splits)

lemma phase_fuel_le: "phase_ok e ph \<Longrightarrow> phase_fuel e ph \<le> 3 * max_attempts e + 2"
  by (cases "(e, ph)" rule: phase_ok.cases) auto

text \<open>The environment answers a task at each \<open>await\<close>, until it ends or \<open>k\<close> answers are used up.\<close>

fun drive :: "env \<Rightarrow> (nat \<Rightarrow> phase \<Rightarrow> int \<times> reply) \<Rightarrow> nat \<Rightarrow> nat \<Rightarrow> svc \<Rightarrow> svc" where
  "drive e answer tid 0 v = v"
| "drive e answer tid (Suc k) v = (case jget (v_tasks v) tid of
      None \<Rightarrow> v
    | Some t \<Rightarrow> (case job_reply e (fst (answer k (tk_phase t))) tid (snd (answer k (tk_phase t))) v of
          None \<Rightarrow> v
        | Some v' \<Rightarrow> drive e answer tid k v'))"

lemma drive_ends:
  assumes "work e v" "fuel_of e v tid \<le> k" "\<And>i ph. fits ph (snd (answer i ph))"
  shows "\<not> running (drive e answer tid k v) tid"
  using assms
proof (induction k arbitrary: v)
  case 0
  then show ?case
    by (cases "(e, tk_phase (the (jget (v_tasks v) tid)))" rule: phase_ok.cases)
      (auto simp: running_def fuel_of_def split: option.splits)
next
  case (Suc k)
  show ?case
  proof (cases "jget (v_tasks v) tid")
    case None
    then show ?thesis by (simp add: running_def)
  next
    case (Some t)
    obtain v' where v': "job_reply e (fst (answer k (tk_phase t))) tid (snd (answer k (tk_phase t))) v = Some v'"
      using fits_progress [OF Suc.prems(3)] Some by (force simp: job_reply_def)
    have "phase_ok e (tk_phase t)" using Suc.prems(1) Some by (simp add: work_def task_ok_def)
    moreover have "task_reply e (fst (answer k (tk_phase t))) tid (tk_phase t) (tk_lastError t)
        (snd (answer k (tk_phase t))) v = Some v'"
      using v' Some by (simp add: job_reply_def)
    ultimately have "fuel_of e v' tid < fuel_of e v tid"
      using task_reply_fuel Some by (simp add: fuel_of_def)
    then have "\<not> running (drive e answer tid k v') tid"
      using Suc work_job_reply [OF v'] by simp
    with Some v' show ?thesis by simp
  qed
qed

lemma fuel_of_le:
  assumes "work e v"
  shows "fuel_of e v tid \<le> 3 * max_attempts e + 2"
proof (cases "jget (v_tasks v) tid")
  case (Some t)
  then have "phase_ok e (tk_phase t)" using assms by (simp add: work_def task_ok_def)
  from phase_fuel_le [OF this] Some show ?thesis by (simp add: fuel_of_def)
qed (simp add: fuel_of_def)

subsection \<open>What the last turn writes\<close>

lemma update_all_ledger:
  assumes "distinct (map s_requestId rs)"
  shows "jget (v_ledger (update_all e f rs v)) k = (case find (\<lambda>r. s_requestId r = k) rs of
      None \<Rightarrow> jget (v_ledger v) k
    | Some r \<Rightarrow> if jhas (v_ledger v) k then Some (f r) else None)"
  using assms
proof (induction rs arbitrary: v)
  case (Cons r rs)
  have "find (\<lambda>r. s_requestId r = k) rs = None" if "s_requestId r = k"
    using Cons.prems that [symmetric] by (auto simp: find_None_iff image_iff)
  with Cons show ?case by (auto simp: jsmap_simps jhas_iff split: option.splits)
qed simp

lemma find_distinct:
  "distinct (map s_requestId rs) \<Longrightarrow> r \<in> set rs \<Longrightarrow> find (\<lambda>x. s_requestId x = s_requestId r) rs = Some r"
  by (induction rs) (auto simp: image_iff)

lemma finalizeSettled_ledger:
  assumes "distinct (map s_requestId rs)" "r \<in> set rs"
  shows "jget (v_ledger (finalizeSettled e tm rs tx b v)) (s_requestId r) =
    (if jhas (v_ledger v) (s_requestId r) then Some (r\<lparr>s_payoutTxId := tx, s_batchId := b,
       s_status := Settled, s_settledAt := Some tm\<rparr>) else None)"
  using assms
  by (simp add: finalizeSettled_def Let_def update_all_ledger find_distinct split: option.split)

lemma finalizeFailed_ledger:
  assumes "distinct (map s_requestId rs)" "r \<in> set rs"
  shows "jget (v_ledger (finalizeFailed e tm rs why b v)) (s_requestId r) =
    (if jhas (v_ledger v) (s_requestId r) then Some (r\<lparr>s_batchId := b, s_status := Failed,
       s_error := Some (take 1024 why), s_settledAt := Some tm\<rparr>) else None)"
  using assms
  by (simp add: finalizeFailed_def Let_def update_all_ledger find_distinct split: option.split)

text \<open>The last turn of a task: the evidence it had, and what it wrote.\<close>

definition ends_with :: "env \<Rightarrow> int \<Rightarrow> nat \<Rightarrow> reply \<Rightarrow> svc \<Rightarrow> svc \<Rightarrow> bool" where
  "ends_with e tm tid rep v v' \<longleftrightarrow> (let j = v_started v ! tid in
     (\<exists>tx. (rep = PaidOk tx \<or> rep = LandedAt tx)
        \<and> v' = finalizeSettled e tm (pj_records j) (Some tx) (pj_batchId j) (settle_task tid v))
   \<or> (rep = NotLanded \<and> length (calls_of tid (v_calls v)) = max_attempts e
        \<and> v' = finalizeFailed e tm (pj_records j) (tk_lastError (the (jget (v_tasks v) tid))) (pj_batchId j)
             (end_task tid v)))"

lemma job_reply_ends:
  assumes "job_reply e tm tid rep v = Some v'" "work e v" "\<not> running v' tid"
  shows "ends_with e tm tid rep v v'"
proof -
  from assms(1) obtain t where t: "jget (v_tasks v) tid = Some t"
    and r: "task_reply e tm tid (tk_phase t) (tk_lastError t) rep v = Some v'"
    by (auto simp: job_reply_def split: option.splits)
  have ok: "length (calls_of tid (v_calls v)) = phase_calls e (tk_phase t)"
    using assms(2) t by (simp add: work_def task_ok_def)
  show ?thesis using r assms(3) ok t
    by (cases "(e, tm, tid, tk_phase t, tk_lastError t, rep, v)" rule: task_reply.cases)
      (auto simp: Let_def ends_with_def running_def start_attempt_def set_task_def jget_jset split: if_splits)
qed

lemma concat_distinct:
  "distinct (map f (concat xss)) \<Longrightarrow> xs \<in> set xss \<Longrightarrow> distinct (map f xs)"
  by (induction xss) auto

lemma books_job_distinct:
  assumes "books e v" "tid < length (v_started v)"
  shows "distinct (map s_requestId (pj_records (v_started v ! tid)))"
proof -
  let ?all = "held (v_heap v) (v_accruals v) @ concat (map pj_records (v_started v))"
  have "mset (v_due v) = mset ?all" "distinct (map s_requestId (v_due v))"
    using assms(1) by (simp_all add: books_def ids_ok_def)
  then have "distinct (map s_requestId ?all)"
    by (metis mset_map mset_eq_imp_distinct_iff)
  then have "distinct (map s_requestId (concat (map pj_records (v_started v))))" by simp
  then show ?thesis by (rule concat_distinct) (use assms(2) in auto)
qed

end
