(* ===== verification/SettlementOwed.thy ===== *)
theory SettlementOwed
  imports SettlementWork
begin

section \<open>What is owed is reported\<close>

text \<open>
  The states of a running process (\<open>live\<close>), the bound on the in-memory ledger, the uniqueness of
  batch ids, and the exactness of the batch liabilities: a batch is listed exactly while it has not
  been paid, with its amount and operator, and it is listed as failed exactly when its task is over.
\<close>

subsection \<open>A running process\<close>

text \<open>
  What the two stores hand over at boot. \<open>loadAll\<close> returns batch rows with a non-empty id, each
  under its own key, and open rows that were written with \<open>batchId: null\<close>; \<open>loadRecent\<close> returns at
  most the number of rows it was asked for.
\<close>

definition rows_ok :: "persisted_accrual list \<times> persisted_accrual list \<Rightarrow> bool" where
  "rows_ok l \<longleftrightarrow> list_all good_row (fst l @ snd l)
     \<and> list_all (\<lambda>st. pa_batchId st = None) (fst l)
     \<and> list_all (\<lambda>st. pa_batchId st \<noteq> None \<and> pa_batchId st \<noteq> Some []) (snd l)
     \<and> distinct (map pa_batchId (snd l))"

definition stored_ok :: "env \<Rightarrow> settlement_record option list option
    \<Rightarrow> (persisted_accrual list \<times> persisted_accrual list) option \<Rightarrow> bool" where
  "stored_ok e recent loaded \<longleftrightarrow>
     (case recent of None \<Rightarrow> True | Some rs \<Rightarrow> length rs \<le> e_maxLedgerEntries e)
     \<and> (case loaded of None \<Rightarrow> True | Some l \<Rightarrow> rows_ok l)"

definition live :: "env \<Rightarrow> svc \<Rightarrow> bool" where
  "live e v \<longleftrightarrow> (\<exists>tm recent loaded v0. stored_ok e recent loaded
     \<and> boot e tm recent loaded = Some v0 \<and> reach e v0 v)"

lemma stored_ok_good:
  "stored_ok e recent loaded \<Longrightarrow> loaded = Some (opens, batches) \<Longrightarrow> st \<in> set opens \<union> set batches \<Longrightarrow> good_row st"
  by (auto simp: stored_ok_def rows_ok_def list_all_iff)

lemma boot_total: "stored_ok e recent loaded \<Longrightarrow> \<exists>v. boot e tm recent loaded = Some v \<and> books e v"
  by (rule boot_books) (metis stored_ok_good)

lemma live_books: "live e v \<Longrightarrow> books e v"
  unfolding live_def using boot_total books_reach by (metis option.inject)

lemma live_work: "live e v \<Longrightarrow> work e v"
  unfolding live_def using work_boot work_reach by metis

lemma boot_nothing: "boot e tm None None = Some init_svc"
  by (simp add: boot_def recoverAccruals_def hydrateLedger_def)

lemma live_init [intro, simp]: "live e init_svc"
  unfolding live_def using boot_nothing [of e 0] reach_refl
  by (metis (mono_tags, lifting) option.simps(4) stored_ok_def)

lemma live_step: "live e v \<Longrightarrow> svc_step e v v' \<Longrightarrow> live e v'"
  unfolding live_def using reach_step by metis

lemma live_reach_init: "reach e init_svc v \<Longrightarrow> live e v"
  by (induction rule: reach.induct) (auto intro: live_step)

subsection \<open>The ledger stays within its cap\<close>

definition cap_ok :: "env \<Rightarrow> (string, settlement_record) jsmap \<Rightarrow> bool" where
  "cap_ok e m \<longleftrightarrow> jwf m \<and> length m \<le> e_maxLedgerEntries e"

abbreviation ledger_ok :: "env \<Rightarrow> svc \<Rightarrow> bool" where
  "ledger_ok e v \<equiv> cap_ok e (v_ledger v)"

lemma ledger_update: "ledger_ok e v \<Longrightarrow> ledger_ok e (update e k r v)"
  by (auto simp: cap_ok_def length_jset intro: jwf_jset)

lemma ledger_update_all: "ledger_ok e v \<Longrightarrow> ledger_ok e (update_all e f rs v)"
  by (induction rs arbitrary: v) (simp_all add: ledger_update del: update_ledger)

lemma jwf_drop: "jwf m \<Longrightarrow> jwf (drop n m)"
  by (simp add: jwf_def drop_map [symmetric])

lemma ledger_remember: "ledger_ok e v \<Longrightarrow> ledger_ok e (remember e r v)"
  by (auto simp: cap_ok_def remember_def Let_def evict_oldest_def intro!: jwf_drop jwf_jset)

lemma ledger_finalizeSettled: "ledger_ok e v \<Longrightarrow> ledger_ok e (finalizeSettled e tm rs tx b v)"
  by (auto simp: finalizeSettled_def Let_def intro!: ledger_update_all split: option.split)

lemma ledger_finalizeFailed: "ledger_ok e v \<Longrightarrow> ledger_ok e (finalizeFailed e tm rs why b v)"
  by (auto simp: finalizeFailed_def Let_def intro!: ledger_update_all split: option.split)

lemma flushAccrual_ledger [simp]: "v_ledger (flushAccrual e tm op v) = v_ledger v"
  by (auto simp: flushAccrual_def Let_def split: option.split)

lemma ledger_accrue:
  assumes "ledger_ok e v"
  shows "ledger_ok e (accrue e tm r owed v)"
proof -
  obtain a v1 where p: "push_record r owed (find_accrual tm (s_operatorAddress r)
      (update e (s_requestId r) (r\<lparr>s_status := Accrued\<rparr>) v)) = (a, v1)" by fastforce
  have "v_ledger (accrue e tm r owed v) = v_ledger (update e (s_requestId r) (r\<lparr>s_status := Accrued\<rparr>) v)"
    by (simp add: accrue_def p push_record_frame [OF p])
  then show ?thesis by (metis assms ledger_update)
qed

lemma ledger_pay_or_accrue: "ledger_ok e v \<Longrightarrow> ledger_ok e (pay_or_accrue e tm r v)"
  by (auto simp: pay_or_accrue_def intro!: ledger_finalizeSettled ledger_accrue)

lemma ledger_settleInbound: "ledger_ok e v \<Longrightarrow> ledger_ok e (settleInbound e tm inb v)"
  by (auto simp: settleInbound_def Let_def split: option.splits sum.splits
      intro!: ledger_pay_or_accrue ledger_remember)

lemma ledger_task_reply: "task_reply e tm tid ph le rep v = Some v' \<Longrightarrow> ledger_ok e v \<Longrightarrow> ledger_ok e v'"
  by (induction e tm tid ph le rep v rule: task_reply.induct)
    (auto simp: Let_def split: if_splits intro!: ledger_finalizeSettled ledger_finalizeFailed)

lemma flush_keys_ledger [simp]: "v_ledger (flush_keys e tm ks v) = v_ledger v"
  by (induction ks arbitrary: v) simp_all

lemma ledger_step: "svc_step e v v' \<Longrightarrow> ledger_ok e v \<Longrightarrow> ledger_ok e v'"
proof (induction rule: svc_step.induct)
  case (step_route v tm rid nid op)
  then show ?case by (simp add: recordRouting_def pruneRouting_def Let_def)
next
  case (step_write key v v')
  from write_done_frame [OF this(1)] obtain c where "v' = v\<lparr>v_writeChains := c\<rparr>" by blast
  with step_write(2) show ?case by simp
qed (auto simp: flush_round_def job_reply_def intro: ledger_settleInbound ledger_task_reply
      split: option.splits)

lemma ledger_reseed: "ledger_ok e v \<Longrightarrow> ledger_ok e (reseed e rs v)"
  by (induction rs arbitrary: v) (simp_all add: Let_def ledger_remember)

lemma ledger_recover_one:
  "recover_one e tm st (h, v) = Some (h', v') \<Longrightarrow> ledger_ok e v \<Longrightarrow> ledger_ok e v'"
  by (auto simp: recover_one_def Let_def resume_payout_fields ledger_reseed
      split: if_splits option.splits)

lemma ledger_recover_rows:
  "recover_rows e tm sts (h, v) = Some (h', v') \<Longrightarrow> ledger_ok e v \<Longrightarrow> ledger_ok e v'"
  by (induction sts arbitrary: h v) (auto split: option.splits dest: ledger_recover_one)

lemma hydrate_rows_ledger:
  "jwf (v_ledger v) \<Longrightarrow> jwf (v_ledger (hydrate_rows rs v))
     \<and> length (v_ledger (hydrate_rows rs v)) \<le> length (v_ledger v) + length rs"
proof (induction rs v rule: hydrate_rows.induct)
  case (3 r rs v)
  from "3.IH" "3.prems" show ?case by (auto simp: length_jset jwf_jset split: if_splits)
qed fastforce+

lemma ledger_boot:
  assumes "stored_ok e recent loaded" "boot e tm recent loaded = Some v"
  shows "ledger_ok e v"
proof -
  have "ledger_ok e (hydrateLedger e recent init_svc)"
    using assms(1) hydrate_rows_ledger [of init_svc "rev (the recent)"]
    by (auto simp: hydrateLedger_def cap_ok_def stored_ok_def init_svc_def split: option.splits)
  then show ?thesis using assms(2)
    by (auto simp: boot_def recoverAccruals_def Let_def split: if_splits option.splits
        dest: ledger_recover_rows)
qed

lemma ledger_reach: "reach e v0 v \<Longrightarrow> ledger_ok e v0 \<Longrightarrow> ledger_ok e v"
  by (induction rule: reach.induct) (auto intro: ledger_step)

lemma live_ledger: "live e v \<Longrightarrow> ledger_ok e v"
  unfolding live_def using ledger_boot ledger_reach by metis

subsection \<open>Batch liabilities are exact\<close>

definition owes :: "svc \<Rightarrow> nat \<Rightarrow> string \<Rightarrow> bool" where
  "owes v tid b \<longleftrightarrow> tid < length (v_started v) \<and> tid \<notin> set (v_paid v)
     \<and> pj_batchId (v_started v ! tid) = Some b"

definition describes :: "string \<Rightarrow> payout_job \<Rightarrow> batch_liability \<Rightarrow> bool" where
  "describes b j l \<longleftrightarrow> bl_batchId l = b \<and> bl_operatorAddress l = pj_receiver j
     \<and> bl_owedAtomic l = pj_amountAtomic j \<and> bl_requests l = length (pj_records j)"

definition distinct_batches :: "payout_job list \<Rightarrow> bool" where
  "distinct_batches js \<longleftrightarrow> (\<forall>i < length js. \<forall>k < length js.
     pj_batchId (js ! i) \<noteq> None \<and> pj_batchId (js ! i) = pj_batchId (js ! k) \<longrightarrow> i = k)"

definition liab_exact :: "svc \<Rightarrow> bool" where
  "liab_exact v \<longleftrightarrow> jwf (v_batchLiabilities v)
     \<and> (\<forall>b. jget (v_batchLiabilities v) b \<noteq> None \<longrightarrow> (\<exists>tid. owes v tid b))
     \<and> (\<forall>tid b. owes v tid b \<longrightarrow> (\<exists>l. jget (v_batchLiabilities v) b = Some l
          \<and> describes b (v_started v ! tid) l \<and> (bl_lastError l = None \<longleftrightarrow> running v tid)))
     \<and> (\<forall>tid. running v tid \<longrightarrow> tid < length (v_started v) \<and> tid \<notin> set (v_paid v))
     \<and> set (v_paid v) \<subseteq> {..<length (v_started v)}"

lemma liab_exactE:
  assumes "liab_exact v" "owes v tid b"
  obtains l where "jget (v_batchLiabilities v) b = Some l" "describes b (v_started v ! tid) l"
    "bl_lastError l = None \<longleftrightarrow> running v tid"
  using assms unfolding liab_exact_def by meson

lemma liab_owed:
  "liab_exact v \<Longrightarrow> jget (v_batchLiabilities v) b \<noteq> None \<Longrightarrow> \<exists>tid. owes v tid b"
  unfolding liab_exact_def by meson

lemma liab_frame:
  assumes "liab_exact v" "v_batchLiabilities v' = v_batchLiabilities v" "v_started v' = v_started v"
    "v_paid v' = v_paid v" "v_tasks v' = v_tasks v"
  shows "liab_exact v'"
  using assms by (simp add: liab_exact_def owes_def running_def)

lemma liab_running:
  assumes "liab_exact v" "v_batchLiabilities v' = v_batchLiabilities v" "v_started v' = v_started v"
    "v_paid v' = v_paid v" "\<And>k. running v' k \<longleftrightarrow> running v k"
  shows "liab_exact v'"
  using assms by (simp add: liab_exact_def owes_def)

lemma distinct_batches_prefix: "distinct_batches (js @ ks) \<Longrightarrow> distinct_batches js"
  unfolding distinct_batches_def by (metis length_append nth_append trans_less_add1)

lemma running_set_task [simp]: "running (set_task tid ph le v) k \<longleftrightarrow> k = tid \<or> running v k"
  by (auto simp: running_def set_task_def jget_jset)

lemma running_start_attempt [simp]: "running (start_attempt e tid n le v) k \<longleftrightarrow> k = tid \<or> running v k"
  by (auto simp: running_def start_attempt_def set_task_def jget_jset)

lemma running_spawn [simp]:
  "running (spawn_payout e j v) k \<longleftrightarrow> k = length (v_started v) \<or> running v k"
  by (auto simp: spawn_payout_def Let_def) (auto simp: running_def)

lemma paid_start_attempt [simp]:
  "v_paid (set_task tid ph le v) = v_paid v" "v_paid (start_attempt e tid n le v) = v_paid v"
  "v_paid (spawn_payout e j v) = v_paid v"
  by (simp_all add: set_task_def start_attempt_def spawn_payout_def Let_def)

lemma liab_spawn_single:
  assumes "liab_exact v" "pj_batchId j = None"
  shows "liab_exact (spawn_payout e j v)"
proof -
  have "owes (spawn_payout e j v) k b \<longleftrightarrow> owes v k b" for k b
    using assms(2) by (auto simp: owes_def nth_append)
  moreover have "owes v k b \<Longrightarrow> v_started (spawn_payout e j v) ! k = v_started v ! k" for k b
    by (simp add: owes_def nth_append)
  moreover have "owes v k b \<Longrightarrow> k \<noteq> length (v_started v)" for k b by (auto simp: owes_def)
  ultimately show ?thesis using assms(1)
    unfolding liab_exact_def by (simp (no_asm_simp)) (auto simp: less_Suc_eq_le intro: less_imp_le)
qed

lemma liab_spawn_batch:
  assumes ex: "liab_exact v" and b: "pj_batchId j = Some b"
    and dist: "distinct_batches (v_started v @ [j])"
    and v': "v_batchLiabilities v' = jset b l (v_batchLiabilities v)" "v_started v' = v_started v"
      "v_paid v' = v_paid v" "v_tasks v' = v_tasks v"
    and l: "describes b j l" "bl_lastError l = None"
  shows "liab_exact (spawn_payout e j v')"
proof -
  let ?w = "spawn_payout e j v'" and ?n = "length (v_started v)"
  have run: "running v' k \<longleftrightarrow> running v k" for k using v' by (simp add: running_def)
  have st: "v_started ?w = v_started v @ [j]" and paid: "v_paid ?w = v_paid v"
    and li: "v_batchLiabilities ?w = jset b l (v_batchLiabilities v)" using v' by simp_all
  have n: "?n \<notin> set (v_paid v)" using ex by (auto simp: liab_exact_def)
  have other: "pj_batchId (v_started v ! k) \<noteq> Some b" if "k < ?n" for k
    using dist b that unfolding distinct_batches_def
    by (metis length_append_singleton less_Suc_eq nth_append nth_append_length order_less_irrefl option.distinct(1))
  have ow: "owes ?w k c \<longleftrightarrow> (k = ?n \<and> c = b) \<or> owes v k c" for k c
    using n b by (auto simp: owes_def v' nth_append less_Suc_eq)
  have old: "c \<noteq> b \<and> k < ?n" if "owes v k c" for k c using that other by (auto simp: owes_def)
  have "jwf (v_batchLiabilities ?w)" unfolding li using ex by (simp add: liab_exact_def jwf_jset)
  moreover have "\<exists>k. owes ?w k c" if "jget (v_batchLiabilities ?w) c \<noteq> None" for c
    using that liab_owed [OF ex, of c] by (auto simp: v' jget_jset ow split: if_splits)
  moreover have "\<exists>m. jget (v_batchLiabilities ?w) c = Some m \<and> describes c (v_started ?w ! k) m
      \<and> (bl_lastError m = None \<longleftrightarrow> running ?w k)" if "owes ?w k c" for k c
  proof (cases "k = ?n \<and> c = b")
    case True
    then show ?thesis using l by (simp add: v' jget_jset run)
  next
    case False
    then have o: "owes v k c" using that ow by blast
    obtain m where "jget (v_batchLiabilities v) c = Some m"
      "describes c (v_started v ! k) m" "bl_lastError m = None \<longleftrightarrow> running v k"
      by (rule liab_exactE [OF ex o(1)])
    with old [OF o] show ?thesis by (simp add: v' jget_jset run nth_append)
  qed
  moreover have "running ?w k \<longrightarrow> k < length (v_started ?w) \<and> k \<notin> set (v_paid ?w)" for k
    using ex n by (auto simp: run v' liab_exact_def less_Suc_eq)
  moreover have "set (v_paid ?w) \<subseteq> {..<length (v_started ?w)}"
    using ex by (auto simp: v' liab_exact_def)
  ultimately show ?thesis unfolding liab_exact_def by blast
qed

lemma distinct_batchesD:
  assumes "distinct_batches js" "i < length js" "k < length js" "pj_batchId (js ! i) = Some b"
    "pj_batchId (js ! k) = Some b"
  shows "i = k"
  using assms unfolding distinct_batches_def by (metis option.distinct(1))

lemma liab_settle:
  assumes ex: "liab_exact v" and dist: "distinct_batches (v_started v)" and r: "running v tid"
  shows "liab_exact (finalizeSettled e tm rs tx (pj_batchId (v_started v ! tid)) (settle_task tid v))"
    (is "liab_exact ?w")
proof -
  let ?b = "pj_batchId (v_started v ! tid)"
  have t: "tid < length (v_started v)" "tid \<notin> set (v_paid v)" using ex r by (auto simp: liab_exact_def)
  have st: "v_started ?w = v_started v" and paid: "v_paid ?w = v_paid v @ [tid]"
    and li: "v_batchLiabilities ?w =
      (case ?b of None \<Rightarrow> v_batchLiabilities v | Some k \<Rightarrow> jdel k (v_batchLiabilities v))"
    by (simp_all add: finalize_liabilities split: option.split)
  have run: "running ?w k \<longleftrightarrow> running v k \<and> k \<noteq> tid" for k
    by (simp add: running_def jget_jdel)
  have ow: "owes ?w k c \<longleftrightarrow> owes v k c \<and> k \<noteq> tid" for k c by (auto simp: owes_def st paid)
  have get: "jget (v_batchLiabilities ?w) c = (if ?b = Some c then None else jget (v_batchLiabilities v) c)" for c
    by (simp add: li jget_jdel split: option.split)
  have ne: "?b \<noteq> Some c" if "owes v k c" "k \<noteq> tid" for k c
    using that t distinct_batchesD [OF dist] by (auto simp: owes_def)
  have "jwf (v_batchLiabilities ?w)"
    using ex by (auto simp: liab_exact_def li intro: jwf_jdel split: option.split)
  moreover have "\<exists>k. owes ?w k c" if "jget (v_batchLiabilities ?w) c \<noteq> None" for c
  proof -
    from that have "jget (v_batchLiabilities v) c \<noteq> None" "?b \<noteq> Some c" by (auto simp: get split: if_splits)
    with ex obtain k where "owes v k c" using liab_owed by blast
    with \<open>?b \<noteq> Some c\<close> show ?thesis by (auto simp: ow owes_def)
  qed
  moreover have "\<exists>m. jget (v_batchLiabilities ?w) c = Some m \<and> describes c (v_started ?w ! k) m
      \<and> (bl_lastError m = None \<longleftrightarrow> running ?w k)" if "owes ?w k c" for k c
  proof -
    have o: "owes v k c" "k \<noteq> tid" using that by (simp_all add: ow)
    obtain m where "jget (v_batchLiabilities v) c = Some m"
      "describes c (v_started v ! k) m" "bl_lastError m = None \<longleftrightarrow> running v k"
      by (rule liab_exactE [OF ex o(1)])
    with ne [OF o] o show ?thesis by (simp add: get st run)
  qed
  moreover have "running ?w k \<longrightarrow> k < length (v_started ?w) \<and> k \<notin> set (v_paid ?w)" for k
    using ex by (simp add: run st paid liab_exact_def)
  moreover have "set (v_paid ?w) \<subseteq> {..<length (v_started ?w)}"
    using ex t by (auto simp: st paid liab_exact_def)
  ultimately show ?thesis unfolding liab_exact_def by blast
qed

lemma liab_fail:
  assumes ex: "liab_exact v" and dist: "distinct_batches (v_started v)" and r: "running v tid"
  shows "liab_exact (finalizeFailed e tm rs why (pj_batchId (v_started v ! tid)) (end_task tid v))"
    (is "liab_exact ?w")
proof -
  let ?b = "pj_batchId (v_started v ! tid)"
  have t: "tid < length (v_started v)" "tid \<notin> set (v_paid v)" using ex r by (auto simp: liab_exact_def)
  have st: "v_started ?w = v_started v" and paid: "v_paid ?w = v_paid v" by simp_all
  have run: "running ?w k \<longleftrightarrow> running v k \<and> k \<noteq> tid" for k
    by (simp add: running_def jget_jdel)
  have ow: "owes ?w k c \<longleftrightarrow> owes v k c" for k c by (auto simp: owes_def st paid)
  have mine: "\<exists>l. jget (v_batchLiabilities v) b = Some l" if "?b = Some b" for b
    using t that by (auto simp: owes_def intro: liab_exactE [OF ex])
  have get: "jget (v_batchLiabilities ?w) c =
      (if ?b = Some c then map_option (\<lambda>l. l\<lparr>bl_attempts := bl_attempts l + 1,
          bl_lastError := Some (take 256 why), bl_lastAttemptAt := Some tm\<rparr>) (jget (v_batchLiabilities v) c)
       else jget (v_batchLiabilities v) c)" for c
    using mine by (auto simp: finalize_liabilities jget_jset split: option.split)
  have "jwf (v_batchLiabilities ?w)"
    using ex by (auto simp: liab_exact_def finalize_liabilities intro!: jwf_jset split: option.split)
  moreover have "\<exists>k. owes ?w k c" if "jget (v_batchLiabilities ?w) c \<noteq> None" for c
  proof -
    from that have "jget (v_batchLiabilities v) c \<noteq> None" by (auto simp: get split: if_splits)
    with ex show ?thesis unfolding ow by (rule liab_owed)
  qed
  moreover have "\<exists>m. jget (v_batchLiabilities ?w) c = Some m \<and> describes c (v_started ?w ! k) m
      \<and> (bl_lastError m = None \<longleftrightarrow> running ?w k)" if "owes ?w k c" for k c
  proof -
    have o: "owes v k c" using that by (simp add: ow)
    obtain m where m: "jget (v_batchLiabilities v) c = Some m"
      "describes c (v_started v ! k) m" "bl_lastError m = None \<longleftrightarrow> running v k"
      by (rule liab_exactE [OF ex o])
    have "?b = Some c \<longleftrightarrow> k = tid"
      using o t distinct_batchesD [OF dist] by (auto simp: owes_def)
    with m show ?thesis by (auto simp: get st run describes_def)
  qed
  moreover have "running ?w k \<longrightarrow> k < length (v_started ?w) \<and> k \<notin> set (v_paid ?w)" for k
    using ex by (simp add: run st paid liab_exact_def)
  moreover have "set (v_paid ?w) \<subseteq> {..<length (v_started ?w)}"
    using ex by (auto simp: st paid liab_exact_def)
  ultimately show ?thesis unfolding liab_exact_def by blast
qed

subsection \<open>Every step keeps the liabilities exact\<close>

text \<open>\<open>extends v v'\<close>: jobs are only ever appended.\<close>

definition extends :: "svc \<Rightarrow> svc \<Rightarrow> bool" where
  "extends v v' \<longleftrightarrow> (\<exists>js. v_started v' = v_started v @ js)"

lemma extends_eq [intro]: "v_started v' = v_started v \<Longrightarrow> extends v v'"
  by (simp add: extends_def)

lemma extends_trans: "extends u v \<Longrightarrow> extends v w \<Longrightarrow> extends u w"
  by (auto simp: extends_def)

lemma extends_distinct: "extends v v' \<Longrightarrow> distinct_batches (v_started v') \<Longrightarrow> distinct_batches (v_started v)"
  by (auto simp: extends_def dest: distinct_batches_prefix)

lemma flushAccrual_paid [simp]: "v_paid (flushAccrual e tm op v) = v_paid v"
  by (auto simp: flushAccrual_def Let_def split: option.split)

lemma extends_flushAccrual: "extends v (flushAccrual e tm op v)"
  by (auto simp: flushAccrual_def Let_def extends_def split: option.split)

lemma extends_flush_keys: "extends v (flush_keys e tm ks v)"
  by (induction ks arbitrary: v) (auto intro: extends_trans extends_flushAccrual)

lemma liab_flushAccrual:
  assumes "liab_exact v" "distinct_batches (v_started (flushAccrual e tm op v))"
  shows "liab_exact (flushAccrual e tm op v)"
proof (cases "jget (v_accruals v) op")
  case None
  with assms(1) show ?thesis by (simp add: flushAccrual_def)
next
  case (Some a)
  show ?thesis
  proof (cases "accrual_records v a = []")
    case True
    with Some assms(1) show ?thesis by (simp add: flushAccrual_def Let_def)
  next
    case False
    let ?j = "batch_job tm op (v_batchSeq v + 1) (accrual_records v a)"
    obtain v2 where v2: "flushAccrual e tm op v = spawn_payout e ?j v2"
      "v_batchLiabilities v2 = jset (batch_id tm [] (v_batchSeq v + 1))
         (new_liability (batch_id tm [] (v_batchSeq v + 1)) op (sum_payouts (accrual_records v a))
            (length (accrual_records v a)) (ac_firstAt a)) (v_batchLiabilities v)"
      "v_started v2 = v_started v" "v_paid v2 = v_paid v" "v_tasks v2 = v_tasks v"
      using Some False by (simp add: flushAccrual_def Let_def batch_job_def)
    from assms(2) v2(1,3) have d: "distinct_batches (v_started v @ [?j])" by simp
    show ?thesis unfolding v2(1)
      by (rule liab_spawn_batch [OF assms(1) _ d v2(2-)])
        (simp_all add: batch_job_def describes_def new_liability_def)
  qed
qed

lemma liab_flush_keys:
  "liab_exact v \<Longrightarrow> distinct_batches (v_started (flush_keys e tm ks v)) \<Longrightarrow> liab_exact (flush_keys e tm ks v)"
proof (induction ks arbitrary: v)
  case (Cons k ks)
  have "distinct_batches (v_started (flushAccrual e tm k v))"
    using Cons.prems(2) extends_distinct [OF extends_flush_keys] by simp
  with Cons show ?case using liab_flushAccrual by simp
qed simp

lemma accrue_cases:
  obtains v1 a where "v_batchLiabilities v1 = v_batchLiabilities v" "v_started v1 = v_started v"
    "v_paid v1 = v_paid v" "v_tasks v1 = v_tasks v" "v_batchSeq v1 = v_batchSeq v"
    "accrue e tm r owed v = flushAccrual e tm (s_operatorAddress r) v1
     \<or> accrue e tm r owed v = arm_timer e tm a (write_open e a v1)"
proof -
  obtain a v1 where p: "push_record r owed (find_accrual tm (s_operatorAddress r)
      (update e (s_requestId r) (r\<lparr>s_status := Accrued\<rparr>) v)) = (a, v1)" by fastforce
  show thesis by (rule that [of v1 a]) (simp_all add: push_record_frame [OF p] accrue_def p)
qed

lemma extends_accrue: "extends v (accrue e tm r owed v)"
proof -
  obtain v1 a where v1: "v_started v1 = v_started v" and
    "accrue e tm r owed v = flushAccrual e tm (s_operatorAddress r) v1
     \<or> accrue e tm r owed v = arm_timer e tm a (write_open e a v1)"
    by (rule accrue_cases)
  moreover have "extends v v1" using v1 by blast
  ultimately show ?thesis
    using extends_trans [OF _ extends_flushAccrual] by (auto simp: extends_def)
qed

lemma liab_accrue:
  assumes "liab_exact v" "distinct_batches (v_started (accrue e tm r owed v))"
  shows "liab_exact (accrue e tm r owed v)"
proof -
  obtain v1 a where v1: "v_batchLiabilities v1 = v_batchLiabilities v" "v_started v1 = v_started v"
      "v_paid v1 = v_paid v" "v_tasks v1 = v_tasks v" and
    c: "accrue e tm r owed v = flushAccrual e tm (s_operatorAddress r) v1
     \<or> accrue e tm r owed v = arm_timer e tm a (write_open e a v1)"
    by (rule accrue_cases)
  have ex: "liab_exact v1" using assms(1) v1 by (rule liab_frame)
  from c show ?thesis
  proof
    assume "accrue e tm r owed v = flushAccrual e tm (s_operatorAddress r) v1"
    with assms(2) liab_flushAccrual [OF ex] show ?thesis by simp
  next
    assume "accrue e tm r owed v = arm_timer e tm a (write_open e a v1)"
    then show ?thesis using liab_frame [OF ex] by simp
  qed
qed

lemma extends_pay_or_accrue: "extends v (pay_or_accrue e tm r v)"
proof -
  have "extends v (v\<lparr>v_due := v_due v @ [r]\<rparr>)" by auto
  from extends_trans [OF this extends_accrue] show ?thesis
    by (auto simp: pay_or_accrue_def extends_def)
qed

lemma liab_pay_or_accrue:
  assumes "liab_exact v" "distinct_batches (v_started (pay_or_accrue e tm r v))"
  shows "liab_exact (pay_or_accrue e tm r v)"
proof -
  have v: "liab_exact (v\<lparr>v_due := v_due v @ [r]\<rparr>)" using assms(1) by (rule liab_frame) simp_all
  have "liab_exact (finalizeSettled e tm [r] None None v)"
    using assms(1) by (rule liab_frame) (simp_all add: finalize_liabilities)
  with liab_accrue [OF v] liab_spawn_single [OF v] assms(2) show ?thesis
    by (simp add: pay_or_accrue_def split: if_splits)
qed

lemma settleInbound_cases:
  obtains v1 r where "v_batchLiabilities v1 = v_batchLiabilities v" "v_started v1 = v_started v"
    "v_paid v1 = v_paid v" "v_tasks v1 = v_tasks v" "v_batchSeq v1 = v_batchSeq v"
    "settleInbound e tm inb v = v1 \<or> settleInbound e tm inb v = pay_or_accrue e tm r v1"
proof -
  let ?id = "in_requestId inb"
  let ?v1 = "v\<lparr>v_routing := jdel ?id (v_routing v)\<rparr>"
  let ?v2 = "v\<lparr>v_routing := jdel ?id (v_routing v), v_claimed := sadd ?id (v_claimed v)\<rparr>"
  have "settleInbound e tm inb v = v \<or> settleInbound e tm inb v = ?v1
      \<or> settleInbound e tm inb v = ?v2
      \<or> (\<exists>r. settleInbound e tm inb v = pay_or_accrue e tm r (remember e r ?v2))"
    by (auto simp: settleInbound_def Let_def split: option.split sum.split)
  then consider "settleInbound e tm inb v = v" | "settleInbound e tm inb v = ?v1"
    | "settleInbound e tm inb v = ?v2"
    | r where "settleInbound e tm inb v = pay_or_accrue e tm r (remember e r ?v2)"
    by blast
  then show thesis
  proof cases
    case 1 show thesis by (rule that [of v]) (simp_all add: 1)
  next
    case 2 show thesis by (rule that [of ?v1]) (simp_all add: 2)
  next
    case 3 show thesis by (rule that [of ?v2]) (simp_all add: 3)
  next
    case (4 r) show thesis by (rule that [of "remember e r ?v2" r]) (simp_all add: 4)
  qed
qed

lemma extends_settleInbound: "extends v (settleInbound e tm inb v)"
proof -
  obtain v1 r where v1: "v_started v1 = v_started v" and
    "settleInbound e tm inb v = v1 \<or> settleInbound e tm inb v = pay_or_accrue e tm r v1"
    by (rule settleInbound_cases)
  moreover have "extends v v1" using v1 by blast
  ultimately show ?thesis using extends_trans [OF _ extends_pay_or_accrue] by metis
qed

lemma liab_settleInbound:
  assumes "liab_exact v" "distinct_batches (v_started (settleInbound e tm inb v))"
  shows "liab_exact (settleInbound e tm inb v)"
proof -
  obtain v1 r where v1: "v_batchLiabilities v1 = v_batchLiabilities v" "v_started v1 = v_started v"
      "v_paid v1 = v_paid v" "v_tasks v1 = v_tasks v" and
    c: "settleInbound e tm inb v = v1 \<or> settleInbound e tm inb v = pay_or_accrue e tm r v1"
    by (rule settleInbound_cases)
  have "liab_exact v1" using assms(1) v1 by (rule liab_frame)
  then show ?thesis using c assms(2) liab_pay_or_accrue by metis
qed

lemma task_reply_extends: "task_reply e tm tid ph le rep v = Some v' \<Longrightarrow> extends v v'"
  by (induction e tm tid ph le rep v rule: task_reply.induct)
    (auto simp: Let_def extends_def split: if_splits)

lemma liab_task_reply:
  assumes "task_reply e tm tid ph le rep v = Some v'" "liab_exact v" "running v tid"
    "distinct_batches (v_started v)"
  shows "liab_exact v'"
proof -
  have same: "liab_exact w" if "v_batchLiabilities w = v_batchLiabilities v"
    "v_started w = v_started v" "v_paid w = v_paid v" "\<And>k. running w k \<longleftrightarrow> running v k" for w
    using assms(2) that by (rule liab_running)
  show ?thesis using assms(1)
    by (cases "(e, tm, tid, ph, le, rep, v)" rule: task_reply.cases)
      (auto simp: Let_def assms(3) split: if_splits
        intro!: same liab_settle [OF assms(2,4,3)] liab_fail [OF assms(2,4,3)])
qed

lemma extends_step: "svc_step e v v' \<Longrightarrow> extends v v'"
proof (induction rule: svc_step.induct)
  case (step_route v tm rid nid op)
  then show ?case by (auto simp: recordRouting_def pruneRouting_def Let_def)
next
  case (step_write key v v')
  from write_done_frame [OF this] obtain c where "v' = v\<lparr>v_writeChains := c\<rparr>" by blast
  then show ?case by auto
qed (auto simp: flush_round_def job_reply_def intro: extends_settleInbound extends_flushAccrual
      extends_flush_keys task_reply_extends split: option.splits)

lemma liab_step:
  "svc_step e v v' \<Longrightarrow> distinct_batches (v_started v') \<Longrightarrow> liab_exact v \<Longrightarrow> liab_exact v'"
proof (induction rule: svc_step.induct)
  case (step_route v tm rid nid op)
  from this(2) show ?case
    by (rule liab_frame) (simp_all add: recordRouting_def pruneRouting_def Let_def)
next
  case (step_reply tm tid rep v v')
  then obtain t where t: "jget (v_tasks v) tid = Some t"
    and r: "task_reply e tm tid (tk_phase t) (tk_lastError t) rep v = Some v'"
    by (auto simp: job_reply_def split: option.splits)
  have "distinct_batches (v_started v)"
    using step_reply(2) extends_distinct [OF task_reply_extends [OF r]] by blast
  then show ?case using liab_task_reply [OF r step_reply(3)] t by (simp add: running_def)
next
  case (step_write key v v')
  from write_done_frame [OF this(1)] obtain c where "v' = v\<lparr>v_writeChains := c\<rparr>" by blast
  with step_write(3) show ?case by (auto elim: liab_frame)
qed (auto simp: flush_round_def intro: liab_settleInbound liab_flushAccrual liab_flush_keys)

lemma liab_reach:
  "reach e v0 v \<Longrightarrow> liab_exact v0 \<Longrightarrow> distinct_batches (v_started v) \<Longrightarrow> liab_exact v"
  by (induction rule: reach.induct) (auto intro: liab_step dest: extends_distinct [OF extends_step])

subsection \<open>Liabilities after recovery\<close>

definition row_fresh :: "persisted_accrual \<Rightarrow> svc \<Rightarrow> bool" where
  "row_fresh st v \<longleftrightarrow> pa_batchId st \<noteq> Some []
     \<and> (pa_batchId st \<noteq> None \<longrightarrow> (\<forall>j \<in> set (v_started v). pj_batchId j \<noteq> pa_batchId st))"

lemma forget_fresh:
  assumes "liab_exact v" "row_fresh st v"
  shows "liab_exact (forget_liability st v)"
proof (cases "pa_batchId st")
  case None
  with assms(1) show ?thesis by (simp add: forget_liability_def)
next
  case (Some b)
  have "\<not> owes v tid b" for tid
    using assms(2) Some nth_mem by (force simp: owes_def row_fresh_def)
  then have "\<not> jhas (v_batchLiabilities v) b" using liab_owed [OF assms(1), of b] unfolding jhas_iff by blast
  then have "forget_liability st v = v" using Some by (simp add: forget_liability_def delete_id)
  with assms(1) show ?thesis by simp
qed

lemma reseed_paid [simp]: "v_paid (reseed e rs v) = v_paid v"
  by (induction rs arbitrary: v) (simp_all add: Let_def)

lemma liab_resume:
  assumes "liab_exact v" "row_fresh st v" "distinct_batches (v_started (resume_payout e tm st rs n v))"
  shows "liab_exact (resume_payout e tm st rs n v)"
proof -
  define r where "r = (case pa_batchId st of Some b \<Rightarrow> b \<noteq> [] | None \<Rightarrow> False)"
  define sq where "sq = (if r then v_batchSeq v else v_batchSeq v + 1)"
  define b where "b = (if r then the (pa_batchId st) else batch_id tm ''r'' sq)"
  define j where "j = \<lparr>pj_payoutId = ''batch/'' @ b, pj_receiver = pa_operatorAddress st,
    pj_amountAtomic = n, pj_records = rs, pj_batchId = Some b, pj_checkLandedFirst = r\<rparr>"
  define v2 where "v2 = enqueueWrite (pa_operatorAddress st)
    (PutBatch (st\<lparr>pa_records := map Some rs, pa_batchId := Some b\<rparr>)
      # (if r then [] else [RemoveOpen (pa_operatorAddress st)]))
    (v\<lparr>v_batchSeq := sq, v_batchLiabilities := jset b
       (new_liability b (pa_operatorAddress st) n (length rs) (pa_firstAt st)) (v_batchLiabilities v),
       v_due := v_due v @ rs\<rparr>)"
  have eq: "resume_payout e tm st rs n v = spawn_payout e j v2"
    by (simp only: resume_payout_def Let_def r_def b_def sq_def j_def v2_def)
  have v2: "v_batchLiabilities v2 = jset b
       (new_liability b (pa_operatorAddress st) n (length rs) (pa_firstAt st)) (v_batchLiabilities v)"
     "v_started v2 = v_started v" "v_paid v2 = v_paid v" "v_tasks v2 = v_tasks v"
    by (simp_all add: v2_def)
  from assms(3) have d: "distinct_batches (v_started v @ [j])" by (simp add: eq v2)
  show ?thesis unfolding eq
    by (rule liab_spawn_batch [OF assms(1) _ d v2])
      (simp_all add: describes_def new_liability_def j_def)
qed

lemma resume_started:
  "\<exists>j. v_started (resume_payout e tm st rs n v) = v_started v @ [j]
     \<and> (pa_batchId st \<noteq> None \<and> pa_batchId st \<noteq> Some [] \<longrightarrow> pj_batchId j = pa_batchId st)"
  by (auto simp: resume_payout_def Let_def)

lemma dropRecovered_liab: "liab_exact v \<Longrightarrow> liab_exact (dropRecovered e st v)"
  by (erule liab_frame) simp_all

lemma recover_one_cases:
  assumes "recover_one e tm st (h, v) = Some (h', v')"
  obtains "v' = dropRecovered e st (forget_liability st v)"
  | rs where "v' = dropRecovered e st (forget_liability st (reseed e rs v))"
  | rs n where "v' = resume_payout e tm st rs n (reseed e rs v)"
  using assms by (auto simp: recover_one_def Let_def split: if_splits option.splits)

lemma recover_one_started:
  assumes "recover_one e tm st (h, v) = Some (h', v')"
  shows "v_started v' = v_started v \<or> (\<exists>j. v_started v' = v_started v @ [j]
     \<and> (pa_batchId st \<noteq> None \<and> pa_batchId st \<noteq> Some [] \<longrightarrow> pj_batchId j = pa_batchId st))"
  using assms
proof (cases rule: recover_one_cases)
  case (3 rs n)
  with resume_started [of e tm st rs n "reseed e rs v"] show ?thesis by simp
qed simp_all

lemma liab_recover_one:
  assumes "recover_one e tm st (h, v) = Some (h', v')" "liab_exact v" "row_fresh st v"
    "distinct_batches (v_started v')"
  shows "liab_exact v'"
proof -
  have re: "liab_exact (reseed e rs v)" "row_fresh st (reseed e rs v)" for rs
    using assms(2,3) by (auto simp: row_fresh_def elim!: liab_frame)
  from assms(1) show ?thesis
  proof (cases rule: recover_one_cases)
    case 1
    with forget_fresh [OF assms(2,3)] show ?thesis by (simp add: dropRecovered_liab)
  next
    case (2 rs)
    with forget_fresh [OF re] show ?thesis by (simp add: dropRecovered_liab)
  next
    case (3 rs n)
    with liab_resume [OF re] assms(4) show ?thesis by simp
  qed
qed

lemma recover_rows_extends:
  "recover_rows e tm sts (h, v) = Some (h', v') \<Longrightarrow> extends v v'"
proof (induction sts arbitrary: h v)
  case (Cons st sts)
  then obtain h1 v1 where 1: "recover_one e tm st (h, v) = Some (h1, v1)"
    "recover_rows e tm sts (h1, v1) = Some (h', v')" by (auto split: option.splits)
  have "extends v v1" using recover_one_started [OF 1(1)] by (auto simp: extends_def)
  with Cons.IH [OF 1(2)] show ?case using extends_trans by blast
qed auto

lemma liab_recover_rows:
  assumes "recover_rows e tm sts (h, v) = Some (h', v')" "liab_exact v"
    "distinct_batches (v_started v')" "\<forall>st \<in> set sts. row_fresh st v"
    "distinct (filter (\<lambda>b. b \<noteq> None) (map pa_batchId sts))"
    "sorted_wrt (\<lambda>a b. a = None \<longrightarrow> b = None) (map pa_batchId sts)"
  shows "liab_exact v'"
  using assms
proof (induction sts arbitrary: h v)
  case (Cons st sts)
  then obtain h1 v1 where 1: "recover_one e tm st (h, v) = Some (h1, v1)"
    "recover_rows e tm sts (h1, v1) = Some (h', v')" by (auto split: option.splits)
  have d1: "distinct_batches (v_started v1)"
    using extends_distinct [OF recover_rows_extends [OF 1(2)] Cons.prems(3)] .
  have "liab_exact v1" using 1(1) Cons.prems(2,4) d1 liab_recover_one by auto
  moreover have "row_fresh st' v1" if "st' \<in> set sts" for st'
    using recover_one_started [OF 1(1)] Cons.prems(4,5,6) that
    by (cases "pa_batchId st"; cases "pa_batchId st'") (force simp: row_fresh_def)+
  ultimately show ?case using Cons.IH [OF 1(2)] Cons.prems by (auto split: if_splits)
qed simp

lemma liab_init: "liab_exact init_svc"
  by (simp add: liab_exact_def init_svc_def owes_def running_def)

lemma hydrate_rows_liab [simp]:
  "v_batchLiabilities (hydrate_rows rs v) = v_batchLiabilities v" "v_paid (hydrate_rows rs v) = v_paid v"
  by (induction rs v rule: hydrate_rows.induct) auto

lemma none_sorted:
  "(\<forall>x \<in> set xs. x \<noteq> None) \<or> (\<forall>x \<in> set xs. x = None) \<Longrightarrow> sorted_wrt (\<lambda>a b. a = None \<longrightarrow> b = None) xs"
  by (induction xs) auto

lemma liab_boot:
  assumes "stored_ok e recent loaded" "boot e tm recent loaded = Some v" "distinct_batches (v_started v)"
  shows "liab_exact v"
proof -
  let ?v = "hydrateLedger e recent init_svc"
  have ex: "liab_exact ?v"
    by (rule liab_frame [OF liab_init]) (auto simp: hydrateLedger_def split: option.split)
  show ?thesis
  proof (cases "e_accrualStore e \<and> loaded \<noteq> None")
    case False
    then show ?thesis using assms(2) ex
      by (auto simp: boot_def recoverAccruals_def Let_def split: if_splits option.splits)
  next
    case True
    then obtain opens batches where l: "loaded = Some (opens, batches)" by auto
    then obtain h where r: "recover_rows e tm (batches @ opens) ([], ?v) = Some (h, v)"
      using assms(2) True by (auto simp: boot_def recoverAccruals_def Let_def)
    have ok: "rows_ok (opens, batches)" using assms(1) l by (simp add: stored_ok_def)
    have "map pa_batchId opens = replicate (length opens) None"
      using ok by (intro replicate_eqI) (auto simp: rows_ok_def list_all_iff)
    moreover have "filter (\<lambda>b. b \<noteq> None) (map pa_batchId batches) = map pa_batchId batches"
      using ok by (auto simp: rows_ok_def list_all_iff intro!: filter_True)
    ultimately have d: "distinct (filter (\<lambda>b. b \<noteq> None) (map pa_batchId (batches @ opens)))"
      using ok by (simp add: rows_ok_def)
    have "sorted_wrt (\<lambda>a b. a = None \<longrightarrow> b = None) (map pa_batchId batches)"
      "sorted_wrt (\<lambda>a b. a = None \<longrightarrow> b = None) (map pa_batchId opens)"
      using ok by (auto simp: rows_ok_def list_all_iff intro!: none_sorted)
    then have "sorted_wrt (\<lambda>a b. a = None \<longrightarrow> b = None) (map pa_batchId (batches @ opens))"
      using ok by (auto simp: rows_ok_def list_all_iff sorted_wrt_append)
    moreover have "\<forall>st \<in> set (batches @ opens). row_fresh st ?v"
      using ok by (auto simp: rows_ok_def list_all_iff row_fresh_def init_svc_def)
    ultimately show ?thesis using liab_recover_rows [OF r ex assms(3) _ d] by simp
  qed
qed

lemma live_liab: "live e v \<Longrightarrow> distinct_batches (v_started v) \<Longrightarrow> liab_exact v"
proof -
  assume v: "live e v" and d: "distinct_batches (v_started v)"
  from v obtain tm recent loaded v0 where b: "stored_ok e recent loaded"
    "boot e tm recent loaded = Some v0" "reach e v0 v" by (auto simp: live_def)
  have "extends v0 v" using b(3) by (induction rule: reach.induct) (auto intro: extends_trans extends_step)
  from liab_boot [OF b(1,2) extends_distinct [OF this d]] show ?thesis
    by (rule liab_reach [OF b(3) _ d])
qed

subsection \<open>Batch ids of one process are distinct\<close>

lemma radix36_no_dash: "CHR ''-'' \<notin> set (radix_str 36 n)"
proof
  assume "CHR ''-'' \<in> set (radix_str 36 n)"
  then obtain d where d: "d < 36" "CHR ''-'' = radix_char d" using radix_str_codes [of 36 n] by auto
  have "code (CHR ''-'') = 45" by (simp add: code_def)
  with code_radix_char [OF d(1)] d(2) show False by (simp split: if_splits)
qed

lemma batch_id_inj:
  assumes "batch_id t [] m = batch_id t' [] n"
  shows "m = n"
proof -
  have *: "takeWhile (\<lambda>c. c \<noteq> CHR ''-'') (rev (batch_id t [] k)) = rev (radix_str 36 k)" for t k
    using radix36_no_dash [of k] by (subst batch_id_def) (auto simp: takeWhile_append2 takeWhile_tail)
  from assms * have "radix_str 36 m = radix_str 36 n" by (metis rev_is_rev_conv)
  then show ?thesis by (simp add: radix_str_inj)
qed

definition numbered :: "payout_job list \<Rightarrow> nat \<Rightarrow> bool" where
  "numbered js n \<longleftrightarrow> distinct_batches js
     \<and> (\<forall>j \<in> set js. \<forall>b. pj_batchId j = Some b \<longrightarrow> (\<exists>tm s. b = batch_id tm [] s \<and> s \<le> n))"

lemma numbered_single: "numbered js n \<Longrightarrow> pj_batchId j = None \<Longrightarrow> numbered (js @ [j]) n"
  by (auto simp: numbered_def distinct_batches_def nth_append less_Suc_eq)

lemma distinct_batches_snoc:
  assumes "distinct_batches js" "\<And>j'. j' \<in> set js \<Longrightarrow> pj_batchId j' \<noteq> pj_batchId j"
  shows "distinct_batches (js @ [j])"
  unfolding distinct_batches_def
proof (intro allI impI, elim conjE)
  fix i k
  assume *: "i < length (js @ [j])" "k < length (js @ [j])" "pj_batchId ((js @ [j]) ! i) \<noteq> None"
    "pj_batchId ((js @ [j]) ! i) = pj_batchId ((js @ [j]) ! k)"
  have n: "pj_batchId (js ! m) \<noteq> pj_batchId j" if "m < length js" for m using assms(2) that by simp
  show "i = k"
  proof (cases "i < length js \<and> k < length js")
    case True
    with * assms(1) show ?thesis unfolding distinct_batches_def by (metis nth_append)
  next
    case False
    with * n [of i] n [of k] show ?thesis by (auto simp: nth_append less_Suc_eq)
  qed
qed

lemma numbered_batch:
  assumes "numbered js n"
  shows "numbered (js @ [batch_job tm op (Suc n) rs]) (Suc n)"
proof -
  have new: "pj_batchId j \<noteq> Some (batch_id tm [] (Suc n))" if "j \<in> set js" for j
    using assms that batch_id_inj unfolding numbered_def by (metis Suc_n_not_le_n)
  have "distinct_batches (js @ [batch_job tm op (Suc n) rs])"
    using assms new by (intro distinct_batches_snoc) (auto simp: numbered_def batch_job_def)
  then show ?thesis using assms by (fastforce simp: numbered_def batch_job_def intro: le_SucI)
qed

abbreviation svc_numbered :: "svc \<Rightarrow> bool" where
  "svc_numbered v \<equiv> numbered (v_started v) (v_batchSeq v)"

lemma numbered_flushAccrual: "svc_numbered v \<Longrightarrow> svc_numbered (flushAccrual e tm op v)"
proof (cases "jget (v_accruals v) op")
  case (Some a)
  assume "svc_numbered v"
  then show ?thesis
    by (cases "accrual_records v a = []")
      (simp_all add: flushAccrual_fields [OF Some] numbered_batch, simp add: flushAccrual_def Some Let_def)
qed (simp add: flushAccrual_None)

lemma numbered_flush_keys: "svc_numbered v \<Longrightarrow> svc_numbered (flush_keys e tm ks v)"
  by (induction ks arbitrary: v) (simp_all add: numbered_flushAccrual)

lemma numbered_pay_or_accrue:
  assumes "svc_numbered v"
  shows "svc_numbered (pay_or_accrue e tm r v)"
proof -
  let ?v = "v\<lparr>v_due := v_due v @ [r]\<rparr>"
  obtain v1 a where v1: "v_started v1 = v_started ?v" "v_batchSeq v1 = v_batchSeq ?v" and
    "accrue e tm r (payout_of r) ?v = flushAccrual e tm (s_operatorAddress r) v1
     \<or> accrue e tm r (payout_of r) ?v = arm_timer e tm a (write_open e a v1)"
    by (rule accrue_cases)
  then have "svc_numbered (accrue e tm r (payout_of r) ?v)"
    using assms numbered_flushAccrual [of v1] by auto
  with assms show ?thesis by (simp add: pay_or_accrue_def numbered_single)
qed

lemma numbered_step: "svc_step e v v' \<Longrightarrow> svc_numbered v \<Longrightarrow> svc_numbered v'"
proof (induction rule: svc_step.induct)
  case (step_route v tm rid nid op)
  then show ?case by (simp add: recordRouting_def pruneRouting_def Let_def)
next
  case (step_settle v tm inb)
  obtain v1 r where v1: "v_started v1 = v_started v" "v_batchSeq v1 = v_batchSeq v" and
    "settleInbound e tm inb v = v1 \<or> settleInbound e tm inb v = pay_or_accrue e tm r v1"
    by (rule settleInbound_cases)
  then show ?case using step_settle numbered_pay_or_accrue by metis
next
  case (step_reply tm tid rep v v')
  then obtain t where "jget (v_tasks v) tid = Some t"
    "task_reply e tm tid (tk_phase t) (tk_lastError t) rep v = Some v'"
    by (auto simp: job_reply_def split: option.splits)
  then have "v_started v' = v_started v \<and> v_batchSeq v' = v_batchSeq v"
    by (cases "(e, tm, tid, tk_phase t, tk_lastError t, rep, v)" rule: task_reply.cases)
      (auto simp: Let_def split: if_splits)
  with step_reply show ?case by simp
next
  case (step_write key v v')
  from write_done_frame [OF this(1)] obtain c where "v' = v\<lparr>v_writeChains := c\<rparr>" by blast
  with step_write(2) show ?case by simp
qed (simp_all add: flush_round_def numbered_flushAccrual numbered_flush_keys)

lemma numbered_reach: "reach e v0 v \<Longrightarrow> svc_numbered v0 \<Longrightarrow> svc_numbered v"
  by (induction rule: reach.induct) (auto intro: numbered_step)

lemma numbered_init: "svc_numbered init_svc"
  by (simp add: numbered_def init_svc_def distinct_batches_def)

end
