(* ===== verification/SettlementProps.thy ===== *)
theory SettlementProps
  imports SettlementOwed
begin

section \<open>Properties of the settlement service\<close>

text \<open>
  The claims about packages/settlement/src/service.ts, each with a witness on a concrete process:
  one request of 2000 atomic units at a margin of 1500 bps is accrued, then flushed by its deadline.
\<close>

subsection \<open>A concrete process\<close>

definition ex_env :: env where
  "ex_env = \<lparr>e_config = \<lparr>sc_network = ''algorand:x'', sc_marginBps = Fin 1500,
       sc_payoutBatchMinUsdc = ''0.005'', sc_payoutBatchMaxRequests = 3, sc_payoutBatchMaxDelayMs = 60000\<rparr>,
     e_retry = \<lparr>rp_attempts = 2, rp_baseDelayMs = Fin 3000, rp_maxDelayMs = Fin 15000, rp_jitterRatio = Fin (1/4)\<rparr>,
     e_maxLedgerEntries = 2, e_assetId = ''31566704'', e_batchMinAtomic = 5000,
     e_accrualStore = True, e_ledgerStore = True\<rparr>"

definition ex_inbound :: "string \<Rightarrow> inbound_settlement" where
  "ex_inbound rid = \<lparr>in_requestId = rid, in_payerAddress = ''P'', in_inboundTxId = ''T'', in_inboundAtomic = 2000\<rparr>"

definition ex_record :: settlement_record where
  "ex_record = \<lparr>s_requestId = ''q1'', s_nodeId = ''n1'', s_payerAddress = ''P'', s_operatorAddress = ''opA'',
     s_inboundAtomic = ''2000'', s_payoutAtomic = ''1700'', s_marginAtomic = ''300'', s_inboundTxId = ''T'',
     s_payoutTxId = None, s_batchId = None, s_status = Pending, s_error = None, s_createdAt = 20,
     s_settledAt = None\<rparr>"

definition ex_job :: payout_job where
  "ex_job = \<lparr>pj_payoutId = ''batch/1ab8-1'', pj_receiver = ''opA'', pj_amountAtomic = 1700,
     pj_records = [ex_record], pj_batchId = Some ''1ab8-1'', pj_checkLandedFirst = False\<rparr>"

definition ex_routed :: svc where
  "ex_routed = recordRouting 10 ''q1'' ''n1'' ''opA'' init_svc"

definition ex_accrued :: svc where
  "ex_accrued = settleInbound ex_env 20 (ex_inbound ''q1'') ex_routed"

definition ex_flushed :: svc where
  "ex_flushed = flushAccrual ex_env 60020 ''opA'' ex_accrued"

lemma ex_env_simps [simp]:
  "sc_marginBps (e_config ex_env) = Fin 1500" "sc_payoutBatchMaxRequests (e_config ex_env) = 3"
  "sc_payoutBatchMaxDelayMs (e_config ex_env) = 60000" "rp_attempts (e_retry ex_env) = 2"
  "e_maxLedgerEntries ex_env = 2" "e_batchMinAtomic ex_env = 5000" "e_accrualStore ex_env"
  "e_ledgerStore ex_env" "e_assetId ex_env = ''31566704''"
  by (simp_all add: ex_env_def)

lemma ex_inbound_simps [simp]: "in_requestId (ex_inbound rid) = rid"
  by (simp add: ex_inbound_def)

lemma ex_record_simps [simp]:
  "s_requestId ex_record = ''q1''" "s_operatorAddress ex_record = ''opA''"
  "s_payoutAtomic ex_record = ''1700''"
  by (simp_all add: ex_record_def)

lemma ex_job_simps [simp]:
  "pj_receiver ex_job = ''opA''" "pj_amountAtomic ex_job = 1700" "pj_records ex_job = [ex_record]"
  "pj_batchId ex_job = Some ''1ab8-1''" "pj_payoutId ex_job = ''batch/1ab8-1''"
  by (simp_all add: ex_job_def)

lemma ex_digits:
  "nat_str 2000 = ''2000''" "nat_str 1700 = ''1700''" "nat_str 300 = ''300''"
  "base36 60020 = ''1ab8''" "radix_str 36 (Suc 0) = ''1''"
  by (simp_all add: base36_def radix_str.simps radix_char_def char_of_def bit_0)

lemma payout_1700 [simp]: "payout_of ex_record = 1700"
  using BigInt_of_nat_str [of 1700] by (simp add: payout_of_def ex_digits)

lemma ex_open: "openRecord ex_env 20 (ex_inbound ''q1'')
    \<lparr>rn_nodeId = ''n1'', rn_operatorAddress = ''opA'', rn_at = 10\<rparr> = Inr ex_record"
  using computeSplit_valid [of 2000 1500]
  by (simp add: openRecord_def ex_inbound_def assertSplitInvariant_def atomicToWire_def ex_digits ex_record_def)

lemmas ex_eval = settleInbound_def recordRouting_def pruneRouting_def init_svc_def Let_def ex_open
  pay_or_accrue_def accrue_def push_record_def find_accrual_def update_def persistLedger_def
  enqueueWrite_def remember_def evict_oldest_def cell_of_def arm_timer_def write_open_def sadd_def
  flushAccrual_def spawn_payout_def start_attempt_def set_task_def sum_payouts_def batch_id_def
  ex_digits pay_request_def toPersisted_def

lemma ex_routed_eq: "ex_routed = init_svc\<lparr>v_routing :=
    [(''q1'', \<lparr>rn_nodeId = ''n1'', rn_operatorAddress = ''opA'', rn_at = 10\<rparr>)]\<rparr>"
  by (simp add: ex_routed_def ex_eval)

lemma ex_accrued_eq:
  "v_accruals ex_accrued = [(''opA'', \<lparr>ac_operatorAddress = ''opA'', ac_records = 0,
     ac_totalAtomic = 1700, ac_firstAt = 20, ac_timer = Some 60020\<rparr>)]"
  "v_heap ex_accrued = [[ex_record]]" "v_started ex_accrued = []" "v_batchSeq ex_accrued = 0"
  "v_claimed ex_accrued = [''q1'']" "v_ledger ex_accrued = [(''q1'', ex_record\<lparr>s_status := Accrued\<rparr>)]"
  "v_batchLiabilities ex_accrued = []" "v_tasks ex_accrued = []" "v_due ex_accrued = [ex_record]"
  "v_calls ex_accrued = []" "v_paid ex_accrued = []" "v_routing ex_accrued = []"
  by (simp_all add: ex_accrued_def ex_routed_eq ex_eval)

lemma ex_flushed_eq:
  "v_accruals ex_flushed = []" "v_started ex_flushed = [ex_job]"
  "v_tasks ex_flushed = [(0, \<lparr>tk_phase = PPaying 1, tk_lastError = ''unknown error''\<rparr>)]"
  "v_batchLiabilities ex_flushed = [(''1ab8-1'', new_liability ''1ab8-1'' ''opA'' 1700 1 20)]"
  "v_ledger ex_flushed = [(''q1'', ex_record\<lparr>s_status := Accrued\<rparr>)]" "v_paid ex_flushed = []"
  "v_calls ex_flushed = [(0, pay_request ex_env ex_job)]" "v_due ex_flushed = [ex_record]"
  "v_claimed ex_flushed = [''q1'']"
  by (simp_all add: ex_flushed_def ex_accrued_eq ex_eval ex_job_def)

lemma ex_routed_reach: "reach ex_env init_svc ex_routed"
  unfolding ex_routed_def by (intro reach_step [OF _ step_route] reach_refl)

lemma ex_accrued_reach: "reach ex_env init_svc ex_accrued"
  unfolding ex_accrued_def by (intro reach_step [OF ex_routed_reach step_settle])

lemma ex_flushed_reach: "reach ex_env init_svc ex_flushed"
  unfolding ex_flushed_def
  by (rule reach_step [OF ex_accrued_reach], rule step_deadline [where due = 60020])
    (simp add: ex_accrued_eq, simp, simp)

lemma ex_live: "live ex_env ex_accrued" "live ex_env ex_flushed"
  using ex_accrued_reach ex_flushed_reach by (simp_all add: live_reach_init)

subsection \<open>Accounting\<close>

text \<open>C1: No request is paid for twice. In every reachable state of the service, the records accepted
  for payout are exactly the records held by the open accruals together with the records of the
  payout jobs started so far, and no request id occurs twice among them: every paid request sits in
  one accrual or in one payout transaction, never in two, and none is lost.\<close>

theorem each_request_paid_once:
  assumes "live e v"
  shows "mset (v_due v) = mset (held (v_heap v) (v_accruals v) @ concat (map pj_records (v_started v)))
    \<and> distinct (map s_requestId (held (v_heap v) (v_accruals v) @ concat (map pj_records (v_started v))))"
proof -
  have "books e v" by (rule live_books [OF assms])
  then have eq: "mset (v_due v) = mset (held (v_heap v) (v_accruals v) @ concat (map pj_records (v_started v)))"
    and d: "distinct (map s_requestId (v_due v))" by (simp_all add: books_def ids_ok_def)
  then show ?thesis by (metis mset_map mset_eq_imp_distinct_iff)
qed

theorem each_request_paid_once_witness:
  "mset (v_due ex_flushed) = mset (held (v_heap ex_flushed) (v_accruals ex_flushed)
      @ concat (map pj_records (v_started ex_flushed))) \<and> v_due ex_flushed = [ex_record]"
  using each_request_paid_once [OF ex_live(2)] by (simp add: ex_flushed_eq)

text \<open>C2: Every payout pays what its requests add up to. Each payout job that was ever started has at
  least one record, its amount is the sum of the payout legs of its records, that sum is positive,
  and every one of its records is owed to the operator it pays.\<close>

theorem payout_amount_is_sum:
  assumes "live e v" "j \<in> set (v_started v)"
  shows "pj_records j \<noteq> [] \<and> pj_amountAtomic j = sum_payouts (pj_records j) \<and> 0 < pj_amountAtomic j
    \<and> (\<forall>r \<in> set (pj_records j). s_operatorAddress r = pj_receiver j \<and> 0 < payout_of r)"
proof -
  have "job_ok j" using live_books [OF assms(1)] assms(2) by (simp add: books_def list_all_iff)
  then show ?thesis using job_ok_pos by (auto simp: job_ok_def list_all_iff payable_to_def)
qed

theorem payout_amount_is_sum_witness: "0 < pj_amountAtomic ex_job \<and> ex_job \<in> set (v_started ex_flushed)"
  using payout_amount_is_sum [OF ex_live(2), of ex_job] by (simp add: ex_flushed_eq)

text \<open>The transfers asked of the payer are exactly the jobs, and a payout is submitted at most as
  often as the retry policy allows. Every call of \<open>payer.pay\<close> carries the receiver, amount, asset and
  idempotency id of the job it belongs to, and no job has more than \<open>attempts\<close> calls.\<close>

theorem payer_calls_bounded:
  assumes "live e v"
  shows "(\<forall>(tid, q) \<in> set (v_calls v). tid < length (v_started v) \<and> q = pay_request e (v_started v ! tid))
    \<and> (\<forall>tid. length (calls_of tid (v_calls v)) \<le> max_attempts e)"
  using live_work [OF assms] by (auto simp: work_def call_ok_def)

theorem payer_calls_bounded_witness:
  "length (calls_of 0 (v_calls ex_flushed)) \<le> 2 \<and> v_calls ex_flushed \<noteq> []"
  using payer_calls_bounded [OF ex_live(2)] by (simp add: ex_flushed_eq)

text \<open>C8: An accrual never outlives its limits. In every reachable state each open accrual has at least
  one record, its running total is the sum of its records, it is below the value threshold and below
  the request cap, and its timer is armed for its first request plus the maximum delay.\<close>

theorem accrual_within_limits:
  assumes "live e v" "(op, a) \<in> set (v_accruals v)"
  shows "ac_operatorAddress a = op \<and> accrual_records v a \<noteq> []
    \<and> ac_totalAtomic a = sum_payouts (accrual_records v a)
    \<and> ac_totalAtomic a < e_batchMinAtomic e
    \<and> length (accrual_records v a) < sc_payoutBatchMaxRequests (e_config e)
    \<and> ac_timer a = Some (ac_firstAt a + sc_payoutBatchMaxDelayMs (e_config e))"
proof -
  have "accruals_ok e (v_heap v) (v_accruals v)" using live_books [OF assms(1)] by (simp add: books_def)
  with assms(2) have "accrual_ok e (v_heap v) op a" unfolding accruals_ok_def by fastforce
  then show ?thesis by (simp add: accrual_ok_def)
qed

theorem accrual_within_limits_witness:
  "\<exists>a. (''opA'', a) \<in> set (v_accruals ex_accrued) \<and> ac_totalAtomic a < 5000 \<and> ac_timer a = Some (ac_firstAt a + 60000)"
  using accrual_within_limits [OF ex_live(1), of "''opA''"] by (simp add: ex_accrued_eq)

lemma flushAccrual_due [simp]:
  "v_due (flushAccrual e tm op v) = v_due v" "v_claimed (flushAccrual e tm op v) = v_claimed v"
  by (auto simp: flushAccrual_def Let_def split: option.split)

lemma flush_keys_due [simp]:
  "v_due (flush_keys e tm ks v) = v_due v" "v_claimed (flush_keys e tm ks v) = v_claimed v"
  by (induction ks arbitrary: v) simp_all

lemma accrue_due [simp]:
  "v_due (accrue e tm r owed v) = v_due v" "v_claimed (accrue e tm r owed v) = v_claimed v"
proof -
  obtain a v1 where p: "push_record r owed (find_accrual tm (s_operatorAddress r)
      (update e (s_requestId r) (r\<lparr>s_status := Accrued\<rparr>) v)) = (a, v1)" by fastforce
  show "v_due (accrue e tm r owed v) = v_due v" "v_claimed (accrue e tm r owed v) = v_claimed v"
    by (simp_all add: accrue_def p push_record_frame [OF p])
qed

lemma pay_or_accrue_due:
  "v_claimed (pay_or_accrue e tm r v) = v_claimed v"
  "v_due (pay_or_accrue e tm r v) = (if payout_of r = 0 then v_due v else v_due v @ [r])"
  by (simp_all add: pay_or_accrue_def)

abbreviation due_for :: "string \<Rightarrow> svc \<Rightarrow> settlement_record list" where
  "due_for rid v \<equiv> filter (\<lambda>r. s_requestId r = rid) (v_due v)"

lemma claimed_step:
  assumes "svc_step e v v'" "rid \<in> set (v_claimed v)"
  shows "rid \<in> set (v_claimed v') \<and> due_for rid v' = due_for rid v"
  using assms
proof (induction rule: svc_step.induct)
  case (step_route v tm rid' nid op)
  then show ?case by (simp add: recordRouting_def pruneRouting_def Let_def)
next
  case (step_settle v tm inb)
  then show ?case
    by (auto simp: settleInbound_def Let_def pay_or_accrue_due split: option.splits sum.splits
        dest: openRecord_id)
next
  case (step_reply tm tid rep v v')
  then obtain t where "jget (v_tasks v) tid = Some t"
    "task_reply e tm tid (tk_phase t) (tk_lastError t) rep v = Some v'"
    by (auto simp: job_reply_def split: option.splits)
  then have "v_due v' = v_due v \<and> v_claimed v' = v_claimed v"
    by (cases "(e, tm, tid, tk_phase t, tk_lastError t, rep, v)" rule: task_reply.cases)
      (auto simp: Let_def split: if_splits)
  with step_reply show ?case by simp
next
  case (step_write key v v')
  from write_done_frame [OF this(1)] obtain c where "v' = v\<lparr>v_writeChains := c\<rparr>" by blast
  with step_write(2) show ?case by simp
qed (simp_all add: flush_round_def)

text \<open>C5: A duplicate settlement callback is inert, forever. Once a request id has been claimed, by a
  settlement or by recovery, it stays claimed, and whatever the service does afterwards no further
  record is accepted for that id.\<close>

theorem claimed_never_accepted_again:
  assumes "reach e v v'" "rid \<in> set (v_claimed v)"
  shows "rid \<in> set (v_claimed v') \<and> due_for rid v' = due_for rid v"
  using assms by (induction rule: reach.induct) (use claimed_step in metis)+

theorem claimed_never_accepted_again_witness:
  "due_for ''q1'' (settleInbound ex_env 70 (ex_inbound ''q1'') (recordRouting 65 ''q1'' ''n2'' ''opB'' ex_accrued)) = [ex_record]"
proof -
  have "reach ex_env ex_accrued (settleInbound ex_env 70 (ex_inbound ''q1'') (recordRouting 65 ''q1'' ''n2'' ''opB'' ex_accrued))"
    by (intro reach_step [OF _ step_settle] reach_step [OF _ step_route] reach_refl)
  from claimed_never_accepted_again [OF this, of "''q1''"] show ?thesis by (simp add: ex_accrued_eq)
qed

subsection \<open>Payout tasks\<close>

text \<open>C6: Every payout task ends. If each await of a running payout is eventually answered with a
  reply that fits it (the transfer confirmed or threw, the chain lookup found it or not, the sleep
  returned), whatever the answers are, the task is over after at most \<open>3 * attempts + 2\<close> of them.\<close>

theorem payout_task_terminates:
  assumes "live e v" "\<And>i ph. fits ph (snd (answer i ph))"
  shows "\<not> running (drive e answer tid (3 * max_attempts e + 2) v) tid"
  using drive_ends [OF live_work [OF assms(1)] fuel_of_le [OF live_work [OF assms(1)]] assms(2)] .

definition ex_answer :: "nat \<Rightarrow> phase \<Rightarrow> int \<times> reply" where
  "ex_answer i ph = (99, case ph of PPaying n \<Rightarrow> PayThrew ''timeout'' | PSleeping n \<Rightarrow> Slept | _ \<Rightarrow> NotLanded)"

theorem payout_task_terminates_witness:
  "running ex_flushed 0 \<and> \<not> running (drive ex_env ex_answer 0 8 ex_flushed) 0"
proof -
  have "fits ph (snd (ex_answer i ph))" for i ph by (cases ph) (simp_all add: ex_answer_def)
  from payout_task_terminates [OF ex_live(2) this, where tid = 0] show ?thesis
    by (simp add: running_def ex_flushed_eq)
qed

text \<open>
  The error a task keeps is the message of the last transfer that threw: no step other than such a
  reply to the task itself changes it.
\<close>

lemma tasks_flushAccrual:
  assumes "jget (v_tasks v) tid = Some t" "tid < length (v_started v)"
  shows "jget (v_tasks (flushAccrual e tm op v)) tid = Some t \<and> tid < length (v_started (flushAccrual e tm op v))"
  using assms
  by (auto simp: flushAccrual_def Let_def spawn_payout_def start_attempt_def set_task_def jget_jset split: option.split)

lemma tasks_flush_keys:
  "jget (v_tasks v) tid = Some t \<Longrightarrow> tid < length (v_started v)
   \<Longrightarrow> jget (v_tasks (flush_keys e tm ks v)) tid = Some t"
  by (induction ks arbitrary: v) (simp_all add: tasks_flushAccrual)

lemma tasks_pay_or_accrue:
  assumes "jget (v_tasks v) tid = Some t" "tid < length (v_started v)"
  shows "jget (v_tasks (pay_or_accrue e tm r v)) tid = Some t"
proof (cases "payout_of r = 0 \<or> \<not> 0 < e_batchMinAtomic e")
  case True
  then show ?thesis using assms
    by (auto simp: pay_or_accrue_def spawn_payout_def start_attempt_def set_task_def jget_jset Let_def)
next
  case False
  let ?v0 = "v\<lparr>v_due := v_due v @ [r]\<rparr>"
  have p: "pay_or_accrue e tm r v = accrue e tm r (payout_of r) ?v0"
    using False by (simp add: pay_or_accrue_def)
  obtain v1 a where v1: "v_started v1 = v_started ?v0" "v_tasks v1 = v_tasks ?v0"
    and "accrue e tm r (payout_of r) ?v0 = flushAccrual e tm (s_operatorAddress r) v1
     \<or> accrue e tm r (payout_of r) ?v0 = arm_timer e tm a (write_open e a v1)"
    by (rule accrue_cases)
  with assms show ?thesis unfolding p using tasks_flushAccrual [of v1 tid t] by auto
qed

lemma error_task_reply:
  assumes "task_reply e tm k (tk_phase u) (tk_lastError u) rep v = Some v'" "jget (v_tasks v) k = Some u"
    and "jget (v_tasks v) tid = Some t" "jget (v_tasks v') tid = Some t'" "tk_lastError t' \<noteq> tk_lastError t"
  shows "k = tid \<and> rep = PayThrew (tk_lastError t')"
  using assms
  by (cases "(e, tm, k, tk_phase u, tk_lastError u, rep, v)" rule: task_reply.cases)
    (auto simp: Let_def start_attempt_def set_task_def settle_task_def end_task_def jget_jset jget_jdel
      finalizeSettled_frame finalizeFailed_frame split: if_splits)

lemma last_error_step:
  assumes "svc_step e v v'" "work e v" "jget (v_tasks v) tid = Some t" "jget (v_tasks v') tid = Some t'"
    and "tk_lastError t' \<noteq> tk_lastError t"
  shows "\<exists>tm. job_reply e tm tid (PayThrew (tk_lastError t')) v = Some v'"
proof -
  have n: "tid < length (v_started v)" using assms(2,3) by (auto simp: work_def task_ok_def)
  from assms(1) show ?thesis
  proof cases
    case (step_settle tm inb)
    obtain v1 r where v1: "v_started v1 = v_started v" "v_tasks v1 = v_tasks v"
        "v' = v1 \<or> v' = pay_or_accrue e tm r v1"
      using settleInbound_cases [of v e tm inb] step_settle by metis
    then have "jget (v_tasks v') tid = Some t" using assms(3) n tasks_pay_or_accrue [of v1 tid t] by auto
    then show ?thesis using assms(4,5) by simp
  next
    case (step_reply tm k rep)
    then obtain u where u: "jget (v_tasks v) k = Some u"
      "task_reply e tm k (tk_phase u) (tk_lastError u) rep v = Some v'"
      by (auto simp: job_reply_def split: option.splits)
    from error_task_reply [OF u(2,1) assms(3-5)] step_reply show ?thesis by auto
  next
    case (step_write key)
    from write_done_frame [OF step_write] obtain c where "v' = v\<lparr>v_writeChains := c\<rparr>" by blast
    then show ?thesis using assms(3-5) by simp
  qed (use assms(3-5) n tasks_flushAccrual [OF assms(3) n] tasks_flush_keys [OF assms(3) n] in
      \<open>auto simp: recordRouting_def pruneRouting_def Let_def flush_round_def\<close>)
qed



subsection \<open>What is owed\<close>

definition unpaid_batches :: "svc \<Rightarrow> nat list" where
  "unpaid_batches v = filter (\<lambda>tid. tid \<notin> set (v_paid v) \<and> pj_batchId (v_started v ! tid) \<noteq> None)
     [0..<length (v_started v)]"

definition batch_report :: "svc \<Rightarrow> nat \<Rightarrow> string option \<times> string \<times> string \<times> nat \<times> liability_state" where
  "batch_report v tid = (let j = v_started v ! tid in
     (pj_batchId j, pj_receiver j, int_str (pj_amountAtomic j), length (pj_records j),
      if running v tid then Paying else Stuck))"

definition report_of :: "pending_payout \<Rightarrow> string option \<times> string \<times> string \<times> nat \<times> liability_state" where
  "report_of p = (pp_batchId p, pp_operatorAddress p, pp_owedAtomic p, pp_requests p, pp_state p)"

lemma in_unpaid: "tid \<in> set (unpaid_batches v) \<longleftrightarrow> (\<exists>b. owes v tid b)"
  by (auto simp: unpaid_batches_def owes_def)

lemma report_batched:
  assumes "liab_exact v" "owes v tid b" "jget (v_batchLiabilities v) b = Some l"
  shows "report_of (batched_view l) = batch_report v tid"
proof -
  have "describes b (v_started v ! tid) l" "bl_lastError l = None \<longleftrightarrow> running v tid"
    using assms(3) by (auto intro: liab_exactE [OF assms(1,2)])
  with assms(2) show ?thesis
    by (simp add: report_of_def batched_view_def batch_report_def describes_def owes_def Let_def)
qed

lemma liability_values:
  assumes ex: "liab_exact v"
  shows "(\<lambda>l. report_of (batched_view l)) ` set (jvals (v_batchLiabilities v)) = batch_report v ` set (unpaid_batches v)"
proof (intro set_eqI iffI)
  fix x assume "x \<in> (\<lambda>l. report_of (batched_view l)) ` set (jvals (v_batchLiabilities v))"
  then obtain b l where l: "(b, l) \<in> set (v_batchLiabilities v)" "x = report_of (batched_view l)" by auto
  have g: "jget (v_batchLiabilities v) b = Some l" using ex l(1) by (simp add: liab_exact_def jget_in_set)
  then obtain tid where "owes v tid b" using liab_owed [OF ex, of b] by auto
  with report_batched [OF ex this g] l(2) show "x \<in> batch_report v ` set (unpaid_batches v)"
    using in_unpaid by auto
next
  fix x assume "x \<in> batch_report v ` set (unpaid_batches v)"
  then obtain tid b where t: "owes v tid b" "x = batch_report v tid" using in_unpaid by auto
  obtain l where g: "jget (v_batchLiabilities v) b = Some l" by (rule liab_exactE [OF ex t(1)])
  then have "l \<in> set (jvals (v_batchLiabilities v))" by (auto dest: map_of_SomeD intro: rev_image_eqI)
  with report_batched [OF ex t(1) g] t(2)
  show "x \<in> (\<lambda>l. report_of (batched_view l)) ` set (jvals (v_batchLiabilities v))" by force
qed

lemma liability_keys:
  assumes ex: "liab_exact v" and d: "distinct_batches (v_started v)"
  shows "mset (map (\<lambda>tid. the (pj_batchId (v_started v ! tid))) (unpaid_batches v)) = mset (jkeys (v_batchLiabilities v))"
proof -
  let ?key = "\<lambda>tid. the (pj_batchId (v_started v ! tid))"
  have "inj_on ?key (set (unpaid_batches v))"
    using distinct_batchesD [OF d] by (auto simp: inj_on_def in_unpaid owes_def)
  then have "distinct (map ?key (unpaid_batches v))" by (simp add: distinct_map unpaid_batches_def)
  moreover have "distinct (jkeys (v_batchLiabilities v))" using ex by (simp add: liab_exact_def jwf_def)
  moreover have "?key ` set (unpaid_batches v) = set (jkeys (v_batchLiabilities v))"
  proof (intro set_eqI iffI)
    fix b assume "b \<in> ?key ` set (unpaid_batches v)"
    then obtain tid where "owes v tid b" by (auto simp: in_unpaid owes_def)
    then obtain l where "jget (v_batchLiabilities v) b = Some l" by (rule liab_exactE [OF ex])
    then show "b \<in> set (jkeys (v_batchLiabilities v))" by (force dest: map_of_SomeD)
  next
    fix b assume "b \<in> set (jkeys (v_batchLiabilities v))"
    then have "jget (v_batchLiabilities v) b \<noteq> None" by (simp add: map_of_eq_None_iff)
    then obtain tid where "owes v tid b" using liab_owed [OF ex] by blast
    then show "b \<in> ?key ` set (unpaid_batches v)" using in_unpaid by (force simp: owes_def)
  qed
  ultimately show ?thesis using set_eq_iff_mset_eq_distinct [of "map ?key (unpaid_batches v)"] by (metis list.set_map)
qed

lemma liability_count:
  assumes "liab_exact v" "distinct_batches (v_started v)"
  shows "length (v_batchLiabilities v) = length (unpaid_batches v)"
  using mset_eq_length [OF liability_keys [OF assms]] by simp

text \<open>C4: The pending-payouts view tells operators exactly what they are owed. As long as batch ids
  are unique, it lists one entry per open accrual, with the sum of its records, and one entry per
  batch that has not been paid, with the amount, operator and number of requests of that batch; a
  batch is shown as stuck exactly when its payout task is over without a payment. Nothing else is
  listed, and the entries are ordered by age.\<close>

theorem pending_payouts_exact:
  assumes "live e v" "distinct_batches (v_started v)"
  shows "report_of ` {p \<in> set (getPendingPayouts e v). pp_state p \<noteq> Accruing} = batch_report v ` set (unpaid_batches v)
    \<and> report_of ` {p \<in> set (getPendingPayouts e v). pp_state p = Accruing}
        = (\<lambda>(op, a). (None, op, int_str (sum_payouts (accrual_records v a)), length (accrual_records v a), Accruing))
            ` set (v_accruals v)
    \<and> length (getPendingPayouts e v) = length (v_accruals v) + length (unpaid_batches v)
    \<and> sorted (map pp_oldestAt (getPendingPayouts e v))"
proof (intro conjI)
  have ex: "liab_exact v" by (rule live_liab [OF assms])
  have set: "set (getPendingPayouts e v) = accruing_view e v ` set (jvals (v_accruals v))
      \<union> batched_view ` set (jvals (v_batchLiabilities v))"
    by (simp add: getPendingPayouts_def image_image)
  have "{p \<in> set (getPendingPayouts e v). pp_state p \<noteq> Accruing} = batched_view ` set (jvals (v_batchLiabilities v))"
    unfolding set by (auto simp: accruing_view_def batched_view_def split: if_splits)
  then show "report_of ` {p \<in> set (getPendingPayouts e v). pp_state p \<noteq> Accruing} = batch_report v ` set (unpaid_batches v)"
    by (simp only: image_image liability_values [OF ex])
  have "{p \<in> set (getPendingPayouts e v). pp_state p = Accruing} = accruing_view e v ` set (jvals (v_accruals v))"
    unfolding set by (auto simp: accruing_view_def batched_view_def split: if_splits)
  moreover have ok: "accruals_ok e (v_heap v) (v_accruals v)"
    using live_books [OF assms(1)] by (simp add: books_def)
  have "report_of (accruing_view e v (snd p)) = (None, fst p, int_str (sum_payouts (accrual_records v (snd p))),
      length (accrual_records v (snd p)), Accruing)" if "p \<in> set (v_accruals v)" for p
    using ok that by (auto simp: accruals_ok_def accrual_ok_def report_of_def accruing_view_def)
  ultimately show "report_of ` {p \<in> set (getPendingPayouts e v). pp_state p = Accruing}
        = (\<lambda>(op, a). (None, op, int_str (sum_payouts (accrual_records v a)), length (accrual_records v a), Accruing))
            ` set (v_accruals v)"
    by (simp add: image_image case_prod_beta cong: image_cong)
  show "length (getPendingPayouts e v) = length (v_accruals v) + length (unpaid_batches v)"
    using liability_count [OF ex assms(2)] by (simp add: getPendingPayouts_def)
  show "sorted (map pp_oldestAt (getPendingPayouts e v))" by (simp add: getPendingPayouts_def)
qed

theorem pending_payouts_exact_witness:
  "length (getPendingPayouts ex_env ex_flushed) = 1 \<and> unpaid_batches ex_flushed = [0]"
  using pending_payouts_exact [OF ex_live(2)]
  by (simp add: ex_flushed_eq unpaid_batches_def distinct_batches_def)

text \<open>Batch ids do not collide within a process. In every state a process reaches from an empty
  start, two payout jobs that carry a batch id carry different ones, whatever the clock does.\<close>

theorem batch_ids_distinct:
  assumes "reach e init_svc v"
  shows "distinct_batches (v_started v)"
  using numbered_reach [OF assms numbered_init] by (simp add: numbered_def)

theorem batch_ids_distinct_witness: "distinct_batches (v_started ex_flushed) \<and> v_started ex_flushed = [ex_job]"
  using batch_ids_distinct [OF ex_flushed_reach] by (simp add: ex_flushed_eq)

text \<open>The audit ledger is bounded and has one row per request. In every reachable state the
  in-memory ledger holds at most the configured number of entries, under distinct request ids.\<close>

theorem ledger_bounded:
  assumes "live e v"
  shows "length (getSettlementLedger v) \<le> e_maxLedgerEntries e \<and> distinct (jkeys (v_ledger v))"
  using live_ledger [OF assms] by (simp add: cap_ok_def jwf_def getSettlementLedger_def)

theorem ledger_bounded_witness: "length (getSettlementLedger ex_flushed) \<le> 2"
  using ledger_bounded [OF ex_live(2)] by simp

text \<open>The three amounts of a ledger entry add up. When an inbound payment is accepted, the entry
  records the request and its operator, starts as pending, and its wire amounts parse back to
  integers with inbound = payout + margin, the margin being the configured share rounded down.\<close>

theorem ledger_entry_adds_up:
  assumes "openRecord e tm inb nt = Inr r"
  shows "\<exists>bps p m. sc_marginBps (e_config e) = Fin (of_int bps) \<and> 0 \<le> bps \<and> bps \<le> 10000
    \<and> wireToAtomic (s_payoutAtomic r) = Inr p \<and> wireToAtomic (s_marginAtomic r) = Inr m
    \<and> wireToAtomic (s_inboundAtomic r) = Inr (p + m) \<and> p + m = in_inboundAtomic inb
    \<and> m = in_inboundAtomic inb * bps div 10000 \<and> 0 \<le> p \<and> 0 \<le> m
    \<and> s_requestId r = in_requestId inb \<and> s_operatorAddress r = rn_operatorAddress nt \<and> s_status r = Pending"
proof -
  let ?a = "in_inboundAtomic inb"
  from assms obtain n where n: "sc_marginBps (e_config e) = Fin (of_int n)" "0 \<le> n" "n \<le> 10000"
    "0 \<le> ?a" "s_inboundAtomic r = nat_str (nat ?a)" "s_marginAtomic r = nat_str (nat (?a * n div 10000))"
    "s_payoutAtomic r = nat_str (nat (?a - ?a * n div 10000))"
    "s_requestId r = in_requestId inb" "s_operatorAddress r = rn_operatorAddress nt" "s_status r = Pending"
    by (rule openRecord_Inr)
  have wire: "wireToAtomic (nat_str (nat i)) = Inr i" if "0 \<le> i" for i
    using wire_roundtrip [OF that] that by (simp add: atomicToWire_def)
  show ?thesis using n margin_bounds [OF n(4,2,3)]
    by (intro exI [of _ n] exI [of _ "?a - ?a * n div 10000"] exI [of _ "?a * n div 10000"]) (simp add: wire)
qed

theorem ledger_entry_adds_up_witness:
  "\<exists>p m. wireToAtomic (s_payoutAtomic ex_record) = Inr p \<and> wireToAtomic (s_marginAtomic ex_record) = Inr m \<and> p + m = 2000"
proof -
  have "in_inboundAtomic (ex_inbound ''q1'') = 2000" by (simp add: ex_inbound_def)
  with ledger_entry_adds_up [OF ex_open] show ?thesis by auto
qed

end
