(* ===== verification/SettlementRecovery.thy ===== *)
theory SettlementRecovery
  imports SettlementProps
begin

section \<open>Crash recovery and retry timing of the settlement service\<close>

text \<open>
  What \<open>recoverAccruals\<close> does with the stored rows, and the bounds of the retry backoff.
\<close>

subsection \<open>Every stored request is taken up once\<close>

abbreviation row_ids :: "persisted_accrual \<Rightarrow> string set" where
  "row_ids st \<equiv> s_requestId ` set (usable_records st)"

abbreviation due_ids :: "svc \<Rightarrow> string set" where
  "due_ids v \<equiv> s_requestId ` set (v_due v)"

lemma recover_one_ids:
  assumes "recover_one e tm st (h, v) = Some (h', v')" "good_row st"
  shows "set h' = set h \<union> row_ids st" "due_ids v' = due_ids v \<union> (row_ids st - set h)"
proof -
  let ?rs = "filter (\<lambda>r. s_requestId r \<notin> set h) (usable_records st)"
  have pay: "list_all (payable_to (pa_operatorAddress st)) ?rs"
    using assms(2) by (auto simp: good_row_def list_all_iff)
  have pos: "sum_payouts ?rs \<noteq> 0" if "?rs \<noteq> []" using sum_payouts_pos [OF that pay] by simp
  have ids: "s_requestId ` set ?rs = row_ids st - set h" by auto
  have "set h' = set h \<union> s_requestId ` set ?rs \<and> due_ids v' = due_ids v \<union> s_requestId ` set ?rs"
    using assms(1) pos sum_BigInt_payable [OF pay]
    by (cases "?rs = []") (auto simp: recover_one_def Let_def resume_payout_fields(3) simp del: filter_empty_conv)
  then show "set h' = set h \<union> row_ids st" "due_ids v' = due_ids v \<union> (row_ids st - set h)"
    unfolding ids by auto
qed

lemma recover_rows_ids:
  "recover_rows e tm sts (h, v) = Some (h', v') \<Longrightarrow> \<forall>st \<in> set sts. good_row st \<Longrightarrow> due_ids v = set h
   \<Longrightarrow> due_ids v' = set h \<union> (\<Union>st \<in> set sts. row_ids st)"
proof (induction sts arbitrary: h v)
  case (Cons st sts)
  then obtain h1 v1 where 1: "recover_one e tm st (h, v) = Some (h1, v1)"
    "recover_rows e tm sts (h1, v1) = Some (h', v')" by (auto split: option.splits)
  have good: "good_row st" using Cons.prems(2) by simp
  have "due_ids v1 = set h1" using recover_one_ids [OF 1(1) good] Cons.prems(3) by auto
  from Cons.IH [OF 1(2) _ this] Cons.prems(2) recover_one_ids(1) [OF 1(1) good] show ?case by auto
qed simp

subsection \<open>Resumed batches look before they pay\<close>

definition looks_first :: "svc \<Rightarrow> bool" where
  "looks_first v \<longleftrightarrow> (\<forall>tid < length (v_started v). pj_checkLandedFirst (v_started v ! tid)
     \<longrightarrow> map_option tk_phase (jget (v_tasks v) tid) = Some PCheckFirst)"

lemma looks_first_frame:
  "looks_first v \<Longrightarrow> v_started v' = v_started v \<Longrightarrow> v_tasks v' = v_tasks v \<Longrightarrow> looks_first v'"
  by (simp add: looks_first_def)

lemma looks_first_spawn: "looks_first v \<Longrightarrow> looks_first (spawn_payout e j v)"
  by (auto simp: looks_first_def spawn_payout_def start_attempt_def set_task_def Let_def nth_append
      jget_jset less_Suc_eq)

lemma looks_first_resume: "looks_first v \<Longrightarrow> looks_first (resume_payout e tm st rs n v)"
  by (auto simp: resume_payout_def Let_def intro!: looks_first_spawn elim!: looks_first_frame)

lemma looks_first_recover_one:
  assumes "recover_one e tm st (h, v) = Some (h', v')" "looks_first v"
  shows "looks_first v'"
  using assms(1)
proof (cases rule: recover_one_cases)
  case (3 rs n)
  have "looks_first (reseed e rs v)" using assms(2) by (rule looks_first_frame) simp_all
  with 3 show ?thesis by (simp add: looks_first_resume)
qed (use assms(2) in \<open>auto elim: looks_first_frame\<close>)

lemma looks_first_recover_rows:
  "recover_rows e tm sts (h, v) = Some (h', v') \<Longrightarrow> looks_first v \<Longrightarrow> looks_first v'"
  by (induction sts arbitrary: h v) (auto split: option.splits dest: looks_first_recover_one)

lemma looks_first_no_calls:
  assumes "looks_first v" "work e v" "tid < length (v_started v)" "pj_checkLandedFirst (v_started v ! tid)"
  shows "calls_of tid (v_calls v) = []"
proof -
  obtain t where "jget (v_tasks v) tid = Some t" "tk_phase t = PCheckFirst"
    using assms(1,3,4) by (auto simp: looks_first_def)
  with assms(2) have "length (calls_of tid (v_calls v)) = 0" by (force simp: work_def task_ok_def)
  then show ?thesis by simp
qed

subsection \<open>Which payouts a restart starts\<close>

text \<open>
  What the stored rows ask for: each row's usable requests that no earlier row has, in the order of
  the rows, a row without any skipped.
\<close>

fun taken_up :: "string set \<Rightarrow> persisted_accrual list \<Rightarrow> (persisted_accrual \<times> settlement_record list) list" where
  "taken_up seen [] = []"
| "taken_up seen (st # sts) =
     (let rs = filter (\<lambda>r. s_requestId r \<notin> seen) (usable_records st)
      in (if rs = [] then [] else [(st, rs)]) @ taken_up (seen \<union> s_requestId ` set rs) sts)"

text \<open>
  The job of a row: its operator, those requests and their sum; a row stored as a batch keeps its id,
  hence the payout id the transfer's lease is derived from, and asks the chain first.
\<close>

definition job_of_row :: "persisted_accrual \<times> settlement_record list \<Rightarrow> payout_job \<Rightarrow> bool" where
  "job_of_row = (\<lambda>(st, rs) j. pj_receiver j = pa_operatorAddress st \<and> pj_records j = rs
     \<and> pj_amountAtomic j = sum_payouts rs
     \<and> (\<forall>b. pa_batchId st = Some b \<and> b \<noteq> [] \<longrightarrow>
          pj_batchId j = Some b \<and> pj_payoutId j = ''batch/'' @ b \<and> pj_checkLandedFirst j))"

lemma resume_payout_job:
  "\<exists>j. v_started (resume_payout e tm st rs n v) = v_started v @ [j]
     \<and> (n = sum_payouts rs \<longrightarrow> job_of_row (st, rs) j)"
  by (auto simp: resume_payout_def Let_def spawn_payout_def start_attempt_def set_task_def job_of_row_def)

lemma recover_one_jobs:
  assumes "recover_one e tm st (h, v) = Some (h', v')" "good_row st"
  shows "\<exists>js. v_started v' = v_started v @ js \<and> taken_up (set h) (st # sts) = taken_up (set h) [st] @ taken_up (set h') sts
    \<and> list_all2 job_of_row (taken_up (set h) [st]) js"
proof -
  let ?rs = "filter (\<lambda>r. s_requestId r \<notin> set h) (usable_records st)"
  have pay: "list_all (payable_to (pa_operatorAddress st)) ?rs"
    using assms(2) by (auto simp: good_row_def list_all_iff)
  have sum: "sum_BigInt ?rs = Some (sum_payouts ?rs)" using pay by (rule sum_BigInt_payable)
  show ?thesis
  proof (cases "?rs = []")
    case True
    then show ?thesis using assms(1) by (auto simp: recover_one_def Let_def simp del: filter_empty_conv)
  next
    case False
    then have "sum_payouts ?rs \<noteq> 0" using sum_payouts_pos [OF _ pay] by simp
    with False sum assms(1) have r: "h' = h @ map s_requestId ?rs" "v' = resume_payout e tm st ?rs (sum_payouts ?rs) (reseed e ?rs v)"
      by (auto simp: recover_one_def Let_def simp del: filter_empty_conv)
    obtain j where "v_started v' = v_started v @ [j]" "job_of_row (st, ?rs) j"
      using resume_payout_job [of e tm st ?rs "sum_payouts ?rs" "reseed e ?rs v"] unfolding r(2) by auto
    with False r(1) show ?thesis by (intro exI [of _ "[j]"]) (simp add: Let_def del: filter_empty_conv)
  qed
qed

lemma recover_rows_jobs:
  "recover_rows e tm sts (h, v) = Some (h', v') \<Longrightarrow> \<forall>st \<in> set sts. good_row st
   \<Longrightarrow> \<exists>js. v_started v' = v_started v @ js \<and> list_all2 job_of_row (taken_up (set h) sts) js"
proof (induction sts arbitrary: h v)
  case (Cons st sts)
  then obtain h1 v1 where 1: "recover_one e tm st (h, v) = Some (h1, v1)"
    "recover_rows e tm sts (h1, v1) = Some (h', v')" by (auto split: option.splits)
  obtain js where js: "v_started v1 = v_started v @ js" "list_all2 job_of_row (taken_up (set h) [st]) js"
      "taken_up (set h) (st # sts) = taken_up (set h) [st] @ taken_up (set h1) sts"
    using recover_one_jobs [OF 1(1)] Cons.prems(2) by (metis list.set_intros(1))
  obtain ks where "v_started v' = v_started v1 @ ks" "list_all2 job_of_row (taken_up (set h1) sts) ks"
    using Cons.IH [OF 1(2)] Cons.prems(2) by auto
  with js show ?case by (intro exI [of _ "js @ ks"]) (simp add: list_all2_appendI del: taken_up.simps)
qed simp

text \<open>C3: Crash recovery pays every stored liability exactly once. Booting from well-formed stored rows
  succeeds, and starts one payout for each row that holds a request no earlier row has (batches
  before open accruals), in that order: to the row's operator, for exactly those requests and their
  sum. So the requests taken up are the usable requests of all rows, even where rows overlap, and no
  request id is in two payouts. The payout of a row stored as a batch runs under the stored id, is in
  the phase that asks the chain whether the payout already landed, and has submitted no transfer.\<close>

theorem recovery_pays_each_once:
  assumes "stored_ok e recent (Some (opens, batches))" "e_accrualStore e"
  shows "\<exists>v. boot e tm recent (Some (opens, batches)) = Some v
    \<and> list_all2 job_of_row (taken_up {} (batches @ opens)) (v_started v)
    \<and> due_ids v = (\<Union>st \<in> set opens \<union> set batches. row_ids st)
    \<and> mset (v_due v) = mset (concat (map pj_records (v_started v)))
    \<and> distinct (map s_requestId (concat (map pj_records (v_started v))))
    \<and> (\<forall>tid < length (v_started v). \<forall>b. b \<noteq> [] \<and> pa_batchId (fst (taken_up {} (batches @ opens) ! tid)) = Some b
        \<longrightarrow> pj_batchId (v_started v ! tid) = Some b
          \<and> map_option tk_phase (jget (v_tasks v) tid) = Some PCheckFirst \<and> calls_of tid (v_calls v) = [])"
proof -
  let ?v0 = "hydrateLedger e recent init_svc"
  have good: "\<forall>st \<in> set (batches @ opens). good_row st" using stored_ok_good [OF assms(1) refl] by auto
  have "books e ?v0" by (rule books_frame [OF books_init]) simp_all
  then have rec: "recovering e [] ?v0" by (simp add: recovering_def init_svc_def)
  obtain h v where r: "recover_rows e tm (batches @ opens) ([], ?v0) = Some (h, v)" "recovering e h v"
    using recover_rows_books [OF rec good] by blast
  have boot: "boot e tm recent (Some (opens, batches)) = Some v"
    using assms(2) r(1) by (simp add: boot_def recoverAccruals_def)
  have b: "books e v" "v_accruals v = []" using r(2) by (simp_all add: recovering_def)
  have m: "mset (v_due v) = mset (concat (map pj_records (v_started v)))"
    using b by (simp add: books_def held_def)
  have "distinct (map s_requestId (v_due v))" using b(1) by (simp add: books_def ids_ok_def)
  with m have d: "distinct (map s_requestId (concat (map pj_records (v_started v))))"
    by (metis mset_map mset_eq_imp_distinct_iff)
  have "due_ids ?v0 = set []" by (simp add: init_svc_def)
  from recover_rows_ids [OF r(1) good this]
  have ids: "due_ids v = (\<Union>st \<in> set opens \<union> set batches. row_ids st)" by auto
  have "looks_first ?v0" by (simp add: looks_first_def init_svc_def)
  then have look: "looks_first v" by (rule looks_first_recover_rows [OF r(1)])
  have jobs: "list_all2 job_of_row (taken_up {} (batches @ opens)) (v_started v)"
    using recover_rows_jobs [OF r(1) good] by (auto simp: init_svc_def)
  have "pj_batchId (v_started v ! tid) = Some b \<and> pj_checkLandedFirst (v_started v ! tid)"
    if "tid < length (v_started v)" "b \<noteq> []" "pa_batchId (fst (taken_up {} (batches @ opens) ! tid)) = Some b" for tid b
    using list_all2_nthD2 [OF jobs that(1)] that(2,3) by (auto simp: job_of_row_def)
  with looks_first_no_calls [OF look work_boot [OF boot]] look boot ids m d jobs show ?thesis
    unfolding looks_first_def by metis
qed

definition ex_row :: "string option \<Rightarrow> settlement_record list \<Rightarrow> persisted_accrual" where
  "ex_row b rs = \<lparr>pa_operatorAddress = ''opA'', pa_records = map Some rs, pa_firstAt = 20, pa_batchId = b\<rparr>"

lemma ex_row_usable [simp]: "usable_records (ex_row b rs) = rs"
  by (simp add: usable_records_def ex_row_def map_filter_def)

lemma ex_row_good: "stored_ok ex_env None (Some ([ex_row None [ex_record]], [ex_row (Some ''old-1'') [ex_record]]))"
  by (simp add: stored_ok_def rows_ok_def good_row_def payable_to_def) (simp add: ex_row_def)

theorem recovery_pays_each_once_witness:
  "\<exists>v. boot ex_env 5 None (Some ([ex_row None [ex_record]], [ex_row (Some ''old-1'') [ex_record]])) = Some v
     \<and> due_ids v = {''q1''} \<and> distinct (map s_requestId (concat (map pj_records (v_started v))))"
  using recovery_pays_each_once [OF ex_row_good, of 5] by auto

text \<open>C40: A stored amount that is not a number stops the boot. \<open>recoverAccruals\<close> is documented never
  to throw, and it skips rows whose \<open>payoutAtomic\<close> is not a string; but if the first row it handles
  holds a usable record whose string is not an integer literal, \<open>BigInt\<close> throws and the whole
  recovery, and with it the boot of the gateway, fails.\<close>

theorem recovery_malformed_amount_throws:
  assumes "e_accrualStore e" "batches @ opens = st # rest"
    and "r \<in> set (usable_records st)" "BigInt_of (s_payoutAtomic r) = None"
  shows "boot e tm recent (Some (opens, batches)) = None"
proof -
  have "sum_BigInt rs = None" if "r \<in> set rs" for rs
    using that assms(4) by (induction rs) (auto split: option.split)
  then have "recover_one e tm st ([], v) = None" for v
    using assms(3) by (auto simp: recover_one_def Let_def)
  then show ?thesis using assms(1,2) by (simp add: boot_def recoverAccruals_def Let_def)
qed

theorem recovery_malformed_amount_throws_witness:
  "boot ex_env 5 None (Some ([], [ex_row (Some ''old-1'') [ex_record\<lparr>s_payoutAtomic := ''1.5''\<rparr>]])) = None"
  by (rule recovery_malformed_amount_throws [where st = "ex_row (Some ''old-1'') [ex_record\<lparr>s_payoutAtomic := ''1.5''\<rparr>]"
        and rest = "[]"]) (simp, simp, simp, code_simp)

subsection \<open>The backoff stays in its window\<close>

lemma jitter_window:
  assumes c: "0 \<le> c" "c < 2 ^ 51" and d: "0 \<le> d" "d < 2 ^ 51"
    and q: "0 \<le> q" "of_int c * q \<le> of_int d" and u: "0 \<le> u" "u \<le> 1"
  shows "\<exists>k. js_round (js_add (Fin (of_int c)) (js_mul (js_mul (Fin (of_int c)) (Fin q)) (Fin u))) = Fin (of_int k)
    \<and> c \<le> k \<and> k \<le> c + d"
proof -
  define x where "x = fl64 (of_int c * q)"
  define y where "y = fl64 (x * u)"
  define z where "z = fl64 (of_int c + y)"
  have x: "0 \<le> x" "x \<le> of_int d"
    using c d q by (auto simp: x_def intro!: b64.rnd_nonneg b64.rnd_le_int)
  have "x * u \<le> x" using x u by (simp add: mult_left_le)
  then have xu: "0 \<le> x * u" "x * u \<le> of_int d" using x u by simp_all
  have y: "0 \<le> y" "y \<le> of_int d"
    using d xu by (auto simp: y_def intro!: b64.rnd_nonneg b64.rnd_le_int)
  have z: "of_int c \<le> z" "z \<le> of_int (c + d)"
    using c d y b64.rnd_le_int [of "of_int c + y" "c + d"]
    by (auto simp: z_def intro!: b64.rnd_ge_int)
  have "js_mul (Fin (of_int c)) (Fin q) = Fin x"
    unfolding js_mul.simps x_def using c d q by (intro js_of_rat_small [of _ d]) (auto simp: abs_of_nonneg)
  moreover have "js_mul (Fin x) (Fin u) = Fin y"
    unfolding js_mul.simps y_def using d xu by (intro js_of_rat_small [of _ d]) auto
  moreover have "js_add (Fin (of_int c)) (Fin y) = Fin z"
    unfolding js_add.simps z_def using c d y by (intro js_of_rat_small [of _ "c + d"]) auto
  moreover have "c \<le> \<lfloor>z + 1/2\<rfloor>" "\<lfloor>z + 1/2\<rfloor> \<le> c + d"
    using z by (simp_all add: le_floor_iff floor_le_iff)
  ultimately show ?thesis by (auto simp: js_round_def)
qed

text \<open>The wait before a retry grows exponentially, is capped, and the jitter only lengthens it. For
  a policy with whole-millisecond base and maximum delays and a jitter source in [0, 1], the wait
  after attempt n is a whole number of milliseconds between min(max, base * 2 ** (n - 1)) and that
  plus any bound d on its jitter fraction.\<close>

theorem backoff_window:
  assumes "rp_baseDelayMs rp = Fin (of_int b)" "rp_maxDelayMs rp = Fin (of_int m)" "rp_jitterRatio rp = Fin q"
    and "0 \<le> b" "0 \<le> m" "b * 2 ^ (n - 1) < 2 ^ 51" "m < 2 ^ 51" "2 ^ (n - 1) < (2 ^ 51 :: int)"
    and "0 \<le> q" "of_int (min m (b * 2 ^ (n - 1))) * q \<le> of_int d" "0 \<le> d" "d < 2 ^ 51"
    and "0 \<le> u" "u \<le> 1"
  shows "\<exists>k. backoffMs rp (Fin u) n = Fin (of_int k)
    \<and> min m (b * 2 ^ (n - 1)) \<le> k \<and> k \<le> min m (b * 2 ^ (n - 1)) + d"
proof -
  let ?c = "min m (b * 2 ^ (n - 1))"
  have p: "js_of_rat (2 ^ (n - 1)) = Fin (of_int (2 ^ (n - 1)))"
    using js_of_rat_int [of "2 ^ (n - 1)"] assms(8) by simp
  have "js_of_rat (of_int (b * 2 ^ (n - 1))) = Fin (of_int (b * 2 ^ (n - 1)))"
    using assms(4,6) by (intro js_of_rat_int) (simp add: abs_of_nonneg)
  then have e: "js_mul (Fin (of_int b)) (js_of_rat (2 ^ (n - 1))) = Fin (of_int (b * 2 ^ (n - 1)))"
    unfolding p js_mul.simps of_int_mult .
  have c: "js_min (Fin (of_int m)) (Fin (of_int (b * 2 ^ (n - 1)))) = Fin (of_int ?c)"
    by (simp add: of_int_min)
  have "0 \<le> ?c" "?c < 2 ^ 51" using assms(4-7) by auto
  from jitter_window [OF this assms(11,12,9,10,13,14)] show ?thesis
    unfolding backoffMs_def Let_def assms(1-3) e c .
qed

theorem backoff_window_witness:
  "\<exists>k. backoffMs DEFAULT_RETRY_POLICY (Fin (1/3)) 4 = Fin (of_int k) \<and> 15000 \<le> k \<and> k \<le> 15000 + (3750 :: int)"
  using backoff_window [of DEFAULT_RETRY_POLICY 3000 15000 "1/4" 4 3750 "1/3"]
  by (simp add: DEFAULT_RETRY_POLICY_def)

end
