(* ===== verification/Health.thy ===== *)
theory Health
  imports Types Money
begin

section \<open>Health derivation (packages/registry/src/store/memory.ts, the pure part)\<close>

text \<open>
  Every health signal the router consumes is derived from a bounded window of request outcomes.
  Outcomes enter a window only through \<open>normalizeOutcome\<close>, so window latencies are finite and
  non-negative (\<open>norm_outcome\<close>), whatever the caller measured.
\<close>

record request_outcome =
  o_success :: bool
  o_latencyMs :: jsnum
  o_at :: jsnum

definition HEALTH_WINDOW_SIZE :: nat where "HEALTH_WINDOW_SIZE = 100"
definition UNHEALTHY_CONSECUTIVE_FAILURES :: int where "UNHEALTHY_CONSECUTIVE_FAILURES = 3"

definition clamp01 :: "jsnum \<Rightarrow> jsnum" where
  "clamp01 v = (if \<not> isFinite v then Fin 0 else if js_less v (Fin 0) then Fin 0
                else if js_less (Fin 1) v then Fin 1 else v)"

text \<open>Array indexing with a number: \<open>sorted[index] ?? 0\<close>.\<close>

definition nth_or_zero :: "jsnum list \<Rightarrow> jsnum \<Rightarrow> jsnum" where
  "nth_or_zero xs i = (case i of
      Fin q \<Rightarrow> if 0 \<le> q \<and> q = of_int \<lfloor>q\<rfloor> \<and> nat \<lfloor>q\<rfloor> < length xs then xs ! nat \<lfloor>q\<rfloor> else Fin 0
    | _ \<Rightarrow> Fin 0)"

definition clamp_percent :: "jsnum \<Rightarrow> jsnum" where
  "clamp_percent p = (if isFinite p then js_min (Fin 100) (js_max (Fin 0) p) else Fin 0)"

definition percentile_index :: "int \<Rightarrow> jsnum \<Rightarrow> jsnum" where
  "percentile_index n p = js_min (js_int (n - 1)) (js_max (Fin 0)
     (js_sub (js_ceil (js_mul (js_div (clamp_percent p) (Fin 100)) (js_int n))) (Fin 1)))"

definition percentile :: "jsnum list \<Rightarrow> jsnum \<Rightarrow> jsnum" where
  "percentile xs p = (if xs = [] then Fin 0 else nth_or_zero xs (percentile_index (int (length xs)) p))"

definition normalizeOutcome :: "request_outcome \<Rightarrow> request_outcome" where
  "normalizeOutcome ou =
     \<lparr>o_success = o_success ou,
      o_latencyMs = (if isFinite (o_latencyMs ou) \<and> js_le (Fin 0) (o_latencyMs ou)
                     then o_latencyMs ou else Fin 0),
      o_at = (if isFinite (o_at ou) \<and> js_less (Fin 0) (o_at ou) then js_trunc (o_at ou) else Fin 0)\<rparr>"

text \<open>\<open>sort((a, b) => a - b)\<close> on finite numbers: a stable ascending sort by value.\<close>

definition num_key :: "jsnum \<Rightarrow> rat" where
  "num_key v = (case v of Fin q \<Rightarrow> q | _ \<Rightarrow> 0)"

definition sort_nums :: "jsnum list \<Rightarrow> jsnum list" where
  "sort_nums xs = sort_key num_key xs"

definition successes :: "request_outcome list \<Rightarrow> nat" where
  "successes w = length (filter o_success w)"

fun last_seen :: "jsnum \<Rightarrow> request_outcome list \<Rightarrow> jsnum" where
  "last_seen t [] = t"
| "last_seen t (ou # w) =
     (if \<not> o_success ou then last_seen t w
      else last_seen (if js_less t (o_at ou) then o_at ou else t) w)"

text \<open>The window is oldest-first; the loop walks backwards until a success.\<close>

definition failure_streak :: "request_outcome list \<Rightarrow> nat" where
  "failure_streak w = length (takeWhile (\<lambda>ou. \<not> o_success ou) (rev w))"

definition deriveHealth :: "node_health \<Rightarrow> request_outcome list \<Rightarrow> node_health" where
  "deriveHealth base w =
     (if w = [] then base
      else (let latencies = sort_nums (map o_latencyMs w);
                cf = int (failure_streak w);
                uptime = clamp01 (js_div (js_int (int (successes w))) (js_int (int (length w))));
                failurePenalty = js_max (Fin 0)
                  (js_sub (Fin 1) (js_div (js_int cf) (js_int UNHEALTHY_CONSECUTIVE_FAILURES)))
            in \<lparr>h_nodeId = h_nodeId base,
                h_healthy = (cf < UNHEALTHY_CONSECUTIVE_FAILURES),
                h_latencyMsP50 = percentile latencies (Fin 50),
                h_latencyMsP95 = percentile latencies (Fin 95),
                h_inFlight = h_inFlight base,
                h_maxConcurrency = h_maxConcurrency base,
                h_uptimeRatio = uptime,
                h_qualityScore = clamp01 (js_mul uptime failurePenalty),
                h_consecutiveFailures = cf,
                h_lastSeenAt = last_seen (h_lastSeenAt base) w\<rparr>))"

subsection \<open>Clamping\<close>

definition unit_num :: "jsnum \<Rightarrow> bool" where
  "unit_num v \<longleftrightarrow> (case v of Fin q \<Rightarrow> 0 \<le> q \<and> q \<le> 1 | _ \<Rightarrow> False)"

lemma unit_num_iff: "unit_num v \<longleftrightarrow> (\<exists>q. v = Fin q \<and> 0 \<le> q \<and> q \<le> 1)"
  by (cases v) (simp_all add: unit_num_def)

lemma clamp01_unit [simp]: "unit_num (clamp01 v)"
  by (cases v) (auto simp: clamp01_def unit_num_def)

lemma clamp01_id: "unit_num v \<Longrightarrow> clamp01 v = v"
  by (auto simp: unit_num_iff clamp01_def)

lemma clamp01_Fin: "clamp01 (Fin q) = Fin (max 0 (min 1 q))"
  by (auto simp: clamp01_def)

subsection \<open>Percentiles\<close>

definition rank_index :: "int \<Rightarrow> rat \<Rightarrow> int" where
  "rank_index n q = max 0 (min (n - 1) (\<lceil>fl64 (fl64 (q / 100) * of_int n)\<rceil> - 1))"

lemma percentile_index_eq:
  assumes "0 \<le> q" "q \<le> 100" "1 \<le> n" "n < 2 ^ 53 - 1"
  shows "percentile_index n (Fin q) = Fin (of_int (rank_index n q))"
proof -
  have c: "clamp_percent (Fin q) = Fin q"
    using assms by (auto simp: clamp_percent_def js_max_def js_min_def)
  define f where "f = fl64 (q / 100)"
  have f: "0 \<le> f" "f \<le> 1" using b64.rnd_unit [of "q / 100"] assms by (simp_all add: f_def)
  have d: "js_div (Fin q) (Fin 100) = Fin f"
    using assms js_of_rat_unit [of "q / 100"] by (simp add: f_def)
  have ni: "js_int n = Fin (of_int n)" "js_int (n - 1) = Fin (of_int (n - 1))"
    using assms by (simp_all add: js_int_small)
  have fn: "0 \<le> f * of_int n" "f * of_int n \<le> of_int n"
    using f assms by (simp_all add: mult_left_le_one_le)
  define g where "g = fl64 (f * of_int n)"
  have g: "0 \<le> g" "g \<le> of_int n"
    using fn assms by (auto simp: g_def intro: b64.rnd_nonneg b64.rnd_le_int)
  have m: "js_mul (Fin f) (Fin (of_int n)) = Fin g"
    using fn assms js_of_rat_small [of "f * of_int n" n] by (simp add: g_def)
  have k: "0 \<le> \<lceil>g\<rceil>" "\<lceil>g\<rceil> \<le> n" using g by (simp_all add: ceiling_le_iff le_ceiling_iff)
  have s: "js_sub (Fin (of_int \<lceil>g\<rceil>)) (Fin 1) = Fin (of_int (\<lceil>g\<rceil> - 1))"
  proof -
    have "\<bar>\<lceil>g\<rceil> - 1\<bar> < 2 ^ 53" using k assms(4) by linarith
    from js_int_small [OF this] show ?thesis by (simp add: js_sub_def js_int_def)
  qed
  have "percentile_index n (Fin q) = Fin (min (of_int (n - 1)) (max 0 (of_int (\<lceil>g\<rceil> - 1))))"
    unfolding percentile_index_def c d ni m js_ceil_def map_fin.simps s js_max_Fin js_min_Fin ..
  also have "min (of_int (n - 1)) (max 0 (of_int (\<lceil>g\<rceil> - 1))) = (of_int (min (n - 1) (max 0 (\<lceil>g\<rceil> - 1))) :: rat)"
    by (simp only: of_int_min of_int_max of_int_0)
  also have "min (n - 1) (max 0 (\<lceil>g\<rceil> - 1)) = rank_index n q"
    using assms(3) by (simp add: rank_index_def f_def [symmetric] g_def [symmetric])
  finally show ?thesis .
qed

lemma rank_index_range: "1 \<le> n \<Longrightarrow> 0 \<le> rank_index n q \<and> rank_index n q < n"
  by (auto simp: rank_index_def)

lemma rank_index_mono:
  assumes "p \<le> q" "0 \<le> n"
  shows "rank_index n p \<le> rank_index n q"
proof -
  have "fl64 (p / 100) \<le> fl64 (q / 100)" using assms by (intro fl64_mono) simp
  then have "fl64 (p / 100) * of_int n \<le> fl64 (q / 100) * of_int n"
    using assms(2) by (intro mult_right_mono) simp_all
  then have "\<lceil>fl64 (fl64 (p / 100) * of_int n)\<rceil> \<le> \<lceil>fl64 (fl64 (q / 100) * of_int n)\<rceil>"
    by (intro ceiling_mono fl64_mono)
  then show ?thesis by (auto simp: rank_index_def)
qed

lemma percentile_nth:
  assumes "xs \<noteq> []" "length xs < 2 ^ 53 - 1" "0 \<le> q" "q \<le> 100"
  shows "percentile xs (Fin q) = xs ! nat (rank_index (int (length xs)) q)"
    and "nat (rank_index (int (length xs)) q) < length xs"
proof -
  have n: "1 \<le> int (length xs)" "int (length xs) < 2 ^ 53 - 1"
    using assms(1,2) by (simp_all add: Suc_le_eq)
  note r = rank_index_range [OF n(1), of q]
  from r show lt: "nat (rank_index (int (length xs)) q) < length xs" by linarith
  show "percentile xs (Fin q) = xs ! nat (rank_index (int (length xs)) q)"
    using r lt assms(1) by (simp add: percentile_def percentile_index_eq [OF assms(3,4) n] nth_or_zero_def)
qed

subsection \<open>Sorted latencies\<close>

lemma set_sort_nums [simp]: "set (sort_nums xs) = set xs"
  by (simp add: sort_nums_def)

lemma length_sort_nums [simp]: "length (sort_nums xs) = length xs"
  by (simp add: sort_nums_def)

lemma sort_nums_mono: "i \<le> j \<Longrightarrow> j < length xs \<Longrightarrow> num_key (sort_nums xs ! i) \<le> num_key (sort_nums xs ! j)"
  using sorted_nth_mono [of "map num_key (sort_nums xs)" i j] by (simp add: sort_nums_def)

lemma sort_nums_Nil_iff [simp]: "sort_nums xs = [] \<longleftrightarrow> xs = []"
  by (metis length_0_conv length_sort_nums)

lemma percentile_observed:
  assumes "xs \<noteq> []" "length xs < 2 ^ 53 - 1" "0 \<le> q" "q \<le> 100"
  shows "percentile (sort_nums xs) (Fin q) \<in> set xs"
  using percentile_nth [of "sort_nums xs" q] assms by (metis length_sort_nums nth_mem set_sort_nums sort_nums_Nil_iff)

lemma percentile_mono:
  assumes "xs \<noteq> []" "length xs < 2 ^ 53 - 1" "0 \<le> p" "p \<le> q" "q \<le> 100"
  shows "num_key (percentile (sort_nums xs) (Fin p)) \<le> num_key (percentile (sort_nums xs) (Fin q))"
proof -
  let ?n = "int (length xs)"
  have "nat (rank_index ?n p) \<le> nat (rank_index ?n q)"
    using assms(4) by (intro nat_mono rank_index_mono) simp_all
  moreover have "nat (rank_index ?n q) < length xs"
    using percentile_nth(2) [of xs q] assms by simp
  ultimately show ?thesis
    using percentile_nth(1) [of "sort_nums xs" p] percentile_nth(1) [of "sort_nums xs" q] assms
    by (simp add: sort_nums_mono)
qed

subsection \<open>Outcomes\<close>

definition norm_outcome :: "request_outcome \<Rightarrow> bool" where
  "norm_outcome ou \<longleftrightarrow> (\<exists>q a. o_latencyMs ou = Fin q \<and> 0 \<le> q \<and> o_at ou = Fin (of_int a) \<and> 0 \<le> a)"

lemma norm_outcome_normalize [simp]: "norm_outcome (normalizeOutcome ou)"
proof -
  have "\<exists>q. o_latencyMs (normalizeOutcome ou) = Fin q \<and> 0 \<le> q"
    by (cases "o_latencyMs ou") (auto simp: normalizeOutcome_def js_le_def)
  moreover have "\<exists>a. o_at (normalizeOutcome ou) = Fin (of_int a) \<and> 0 \<le> a"
  proof (cases "o_at ou")
    case (Fin q)
    show ?thesis
    proof (cases "0 < q")
      case True
      then show ?thesis using Fin by (auto simp: normalizeOutcome_def js_trunc_def)
    next
      case False
      then show ?thesis using Fin by (intro exI [of _ 0]) (simp add: normalizeOutcome_def)
    qed
  qed (auto simp: normalizeOutcome_def intro!: exI [of _ 0])
  ultimately show ?thesis by (auto simp: norm_outcome_def)
qed

lemma normalizeOutcome_id: "norm_outcome ou \<Longrightarrow> normalizeOutcome ou = ou"
  by (cases ou) (auto simp: norm_outcome_def normalizeOutcome_def js_le_def js_trunc_def)

lemma normalizeOutcome_success [simp]: "o_success (normalizeOutcome ou) = o_success ou"
  by (simp add: normalizeOutcome_def)

lemma failure_streak_snoc [simp]:
  "failure_streak (w @ [ou]) = (if o_success ou then 0 else Suc (failure_streak w))"
  by (simp add: failure_streak_def)

lemma failure_streak_Nil [simp]: "failure_streak [] = 0"
  by (simp add: failure_streak_def)

lemma failure_streak_le: "failure_streak w \<le> length w"
  unfolding failure_streak_def using length_takeWhile_le [of _ "rev w"] by simp

text \<open>Dropping old outcomes can only shorten a streak that spans the whole window.\<close>

lemma failure_streak_drop: "failure_streak (drop k w) = min (failure_streak w) (length w - k)"
proof -
  have "rev (drop k w) = take (length w - k) (rev w)" by (simp add: rev_drop)
  then show ?thesis
    by (simp add: failure_streak_def length_takeWhile_take)
qed

lemma successes_le: "successes w \<le> length w"
  by (simp add: successes_def)

subsection \<open>What a derivation guarantees\<close>

definition small_window :: "request_outcome list \<Rightarrow> bool" where
  "small_window w \<longleftrightarrow> length w < 2 ^ 53 - 1"

lemma small_windowI: "length w \<le> HEALTH_WINDOW_SIZE \<Longrightarrow> small_window w"
  by (simp add: small_window_def HEALTH_WINDOW_SIZE_def)

text \<open>\<open>1 - cf / 3\<close>, floored at zero: the linear decay towards the failure threshold.\<close>

definition penalty :: "nat \<Rightarrow> rat" where
  "penalty cf = max 0 (fl64 (1 - fl64 (of_nat cf / 3)))"

lemma penalty_unit: "0 \<le> penalty cf \<and> penalty cf \<le> 1"
proof -
  have "0 \<le> fl64 (of_nat cf / 3)" by (intro b64.rnd_nonneg) simp
  then have "fl64 (1 - fl64 (of_nat cf / 3)) \<le> 1" by (intro b64.rnd_le_1) simp
  then show ?thesis by (simp add: penalty_def)
qed

lemma penalty_tripped: "3 \<le> cf \<Longrightarrow> penalty cf = 0"
proof -
  assume "3 \<le> cf"
  then have "1 \<le> (of_nat cf :: rat) / 3" by simp
  then have "of_int 1 \<le> fl64 (of_nat cf / 3)" by (intro b64.rnd_ge_int) simp_all
  then have "fl64 (1 - fl64 (of_nat cf / 3)) \<le> of_int 0" by (intro b64.rnd_le_int) simp_all
  then show ?thesis by (simp add: penalty_def)
qed

lemma penalty_antimono: "a \<le> b \<Longrightarrow> penalty b \<le> penalty a"
  unfolding penalty_def
  by (intro max.mono order_refl fl64_mono diff_left_mono divide_right_mono) simp_all

lemma penalty_num:
  assumes "cf < 2 ^ 53"
  shows "js_max (Fin 0) (js_sub (Fin 1) (js_div (js_int (int cf)) (js_int UNHEALTHY_CONSECUTIVE_FAILURES)))
    = Fin (penalty cf)"
proof -
  have i: "js_int (int cf) = Fin (of_nat cf)" "js_int UNHEALTHY_CONSECUTIVE_FAILURES = Fin 3"
    using assms by (simp_all add: js_int_small UNHEALTHY_CONSECUTIVE_FAILURES_def)
  have cf: "(of_nat cf :: rat) \<le> of_int (int cf)" by simp
  have "(of_nat cf :: rat) / 3 \<le> of_int (int cf)" by simp
  then have d: "js_of_rat (of_nat cf / 3) = Fin (fl64 (of_nat cf / 3))"
    using assms by (intro js_of_rat_small [of _ "int cf"]) simp_all
  have f: "0 \<le> fl64 (of_nat cf / 3)" "fl64 (of_nat cf / 3) \<le> of_int (int cf)"
    using assms b64.rnd_nonneg [of "of_nat cf / 3"] b64.rnd_le_int [of "of_nat cf / 3" "int cf"]
    by simp_all
  have "js_of_rat (1 - fl64 (of_nat cf / 3)) = Fin (fl64 (1 - fl64 (of_nat cf / 3)))"
  proof (rule js_of_rat_small [of _ "int (max 1 cf)"])
    show "\<bar>1 - fl64 (of_nat cf / 3)\<bar> \<le> of_int (int (max 1 cf))" using f by (auto simp: max_def)
    show "int (max 1 cf) < 2 ^ 53" using assms by (simp add: max_def)
  qed
  then show ?thesis by (simp add: i d js_sub_def penalty_def)
qed

definition uptime :: "request_outcome list \<Rightarrow> rat" where
  "uptime w = fl64 (of_nat (successes w) / of_nat (length w))"

lemma uptime_unit: "0 \<le> uptime w \<and> uptime w \<le> 1"
  unfolding uptime_def using successes_le [of w]
  by (intro b64.rnd_unit) (simp_all add: divide_le_eq_1)

lemma uptime_num:
  assumes "w \<noteq> []" "small_window w"
  shows "clamp01 (js_div (js_int (int (successes w))) (js_int (int (length w)))) = Fin (uptime w)"
proof -
  have "js_int (int (successes w)) = Fin (of_nat (successes w))" "js_int (int (length w)) = Fin (of_nat (length w))"
    using assms(2) successes_le [of w] by (simp_all add: js_int_small small_window_def)
  moreover have "js_of_rat (of_nat (successes w) / of_nat (length w)) = Fin (uptime w)"
    unfolding uptime_def using successes_le [of w] by (intro js_of_rat_unit) (simp_all add: divide_le_eq_1)
  moreover have "unit_num (Fin (uptime w))" using uptime_unit by (simp add: unit_num_def)
  ultimately show ?thesis using assms(1) by (simp add: clamp01_id)
qed

text \<open>The derived record in closed form.\<close>

lemma deriveHealth_eq:
  assumes "w \<noteq> []" "small_window w"
  shows "deriveHealth base w =
     \<lparr>h_nodeId = h_nodeId base, h_healthy = (failure_streak w < 3),
      h_latencyMsP50 = percentile (sort_nums (map o_latencyMs w)) (Fin 50),
      h_latencyMsP95 = percentile (sort_nums (map o_latencyMs w)) (Fin 95),
      h_inFlight = h_inFlight base, h_maxConcurrency = h_maxConcurrency base,
      h_uptimeRatio = Fin (uptime w),
      h_qualityScore = Fin (fl64 (uptime w * penalty (failure_streak w))),
      h_consecutiveFailures = int (failure_streak w),
      h_lastSeenAt = last_seen (h_lastSeenAt base) w\<rparr>"
proof -
  have cf: "failure_streak w < 2 ^ 53"
    using failure_streak_le [of w] assms(2) by (simp add: small_window_def)
  have q: "0 \<le> uptime w * penalty (failure_streak w)" "uptime w * penalty (failure_streak w) \<le> 1"
    using uptime_unit [of w] penalty_unit [of "failure_streak w"] by (simp_all add: mult_le_one)
  then have "unit_num (Fin (fl64 (uptime w * penalty (failure_streak w))))"
    using b64.rnd_unit by (simp add: unit_num_def)
  with q show ?thesis
    using assms(1)
    by (simp add: deriveHealth_def Let_def uptime_num [OF assms] penalty_num [OF cf] js_of_rat_unit clamp01_id)
       (simp add: UNHEALTHY_CONSECUTIVE_FAILURES_def)
qed

lemma deriveHealth_frame [simp]:
  "h_nodeId (deriveHealth base w) = h_nodeId base"
  "h_inFlight (deriveHealth base w) = h_inFlight base"
  "h_maxConcurrency (deriveHealth base w) = h_maxConcurrency base"
  by (simp_all add: deriveHealth_def Let_def)

lemma quality_le_uptime: "fl64 (uptime w * penalty cf) \<le> 1"
  using uptime_unit [of w] penalty_unit [of cf] by (intro b64.rnd_le_1) (simp add: mult_le_one)

end
