(* ===== verification/NodeStore.thy ===== *)
theory NodeStore
  imports Health
begin

section \<open>The node store (packages/registry/src/store/types.ts and memory.ts)\<close>

text \<open>
  The storage contract of the registry as a locale, and the in-memory store that implements it.
  A store maps node ids to records and keeps one rolling outcome window per node; the contract
  separates what an operator may write (its registration) from what the store owns (health,
  in-flight count, lifetime counters).
\<close>

subsection \<open>The contract\<close>

definition set_in_flight :: "int \<Rightarrow> node_record \<Rightarrow> node_record" where
  "set_in_flight k r = r\<lparr>n_health := (n_health r)\<lparr>h_inFlight := k\<rparr>\<rparr>"

abbreviation in_flight :: "node_record \<Rightarrow> int" where
  "in_flight r \<equiv> h_inFlight (n_health r)"

locale node_store =
  fixes upsert :: "node_record \<Rightarrow> 's \<Rightarrow> 's"
    and get :: "'s \<Rightarrow> string \<Rightarrow> node_record option"
    and list_nodes :: "'s \<Rightarrow> node_record list"
    and remove :: "string \<Rightarrow> 's \<Rightarrow> 's"
    and record_outcome :: "string \<Rightarrow> request_outcome \<Rightarrow> 's \<Rightarrow> 's"
    and begin_request :: "string \<Rightarrow> 's \<Rightarrow> 's"
    and end_request :: "string \<Rightarrow> 's \<Rightarrow> 's"
    and invar :: "'s \<Rightarrow> bool"
  assumes list_iff_get: "invar s \<Longrightarrow> r \<in> set (list_nodes s) \<longleftrightarrow> get s (n_nodeId r) = Some r"
    and list_distinct: "invar s \<Longrightarrow> distinct (map n_nodeId (list_nodes s))"
    and get_key: "invar s \<Longrightarrow> get s k = Some r \<Longrightarrow> n_nodeId r = k"
    and get_in_flight: "invar s \<Longrightarrow> get s k = Some r \<Longrightarrow> 0 \<le> in_flight r"
    and get_upsert_new: "invar s \<Longrightarrow> get s (n_nodeId r) = None \<Longrightarrow>
      get (upsert r s) (n_nodeId r) = Some r"
    and get_upsert_old: "invar s \<Longrightarrow> get s (n_nodeId r) = Some e \<Longrightarrow>
      \<exists>r'. get (upsert r s) (n_nodeId r) = Some r' \<and> n_registration r' = n_registration r \<and>
        in_flight r' = in_flight e \<and> n_registeredAt r' = n_registeredAt e \<and>
        n_totalRequests e \<le> n_totalRequests r'"
    and get_upsert_other: "invar s \<Longrightarrow> k \<noteq> n_nodeId r \<Longrightarrow> get (upsert r s) k = get s k"
    and get_remove: "invar s \<Longrightarrow> get (remove k s) k' = (if k' = k then None else get s k')"
    and outcome_unknown: "invar s \<Longrightarrow> get s k = None \<Longrightarrow> get (record_outcome k ou s) = get s"
    and get_outcome: "invar s \<Longrightarrow> get s k = Some e \<Longrightarrow>
      \<exists>r'. get (record_outcome k ou s) k = Some r' \<and> n_registration r' = n_registration e \<and>
        in_flight r' = in_flight e \<and> n_totalRequests r' = n_totalRequests e + 1"
    and get_outcome_other: "invar s \<Longrightarrow> k' \<noteq> k \<Longrightarrow> get (record_outcome k ou s) k' = get s k'"
    and get_begin: "invar s \<Longrightarrow> get (begin_request k s) k' =
      (if k' = k then map_option (\<lambda>r. set_in_flight (in_flight r + 1) r) (get s k') else get s k')"
    and get_end: "invar s \<Longrightarrow> get (end_request k s) k' =
      (if k' = k then map_option (\<lambda>r. set_in_flight (max 0 (in_flight r - 1)) r) (get s k')
       else get s k')"
    and invar_upsert: "invar s \<Longrightarrow> 0 \<le> in_flight r \<Longrightarrow> invar (upsert r s)"
    and invar_remove: "invar s \<Longrightarrow> invar (remove k s)"
    and invar_outcome: "invar s \<Longrightarrow> invar (record_outcome k ou s)"
    and invar_begin: "invar s \<Longrightarrow> invar (begin_request k s)"
    and invar_end: "invar s \<Longrightarrow> invar (end_request k s)"
begin

text \<open>The \<open>beginRequest\<close> / \<open>endRequest\<close> bracket leaves every record as it was.\<close>

lemma bracket_balanced:
  assumes "invar s"
  shows "get (end_request k (begin_request k s)) = get s"
proof
  fix k'
  show "get (end_request k (begin_request k s)) k' = get s k'"
    using get_in_flight [OF assms, of k] get_end [OF invar_begin [OF assms]] get_begin [OF assms]
    by (cases "get s k") (auto simp: set_in_flight_def)
qed

text \<open>An outcome reported inside the bracket does not disturb the balance.\<close>

lemma bracket_in_flight:
  assumes "invar s"
  shows "map_option in_flight (get (end_request k (record_outcome k ou (begin_request k s))) k') =
    map_option in_flight (get s k')"
proof -
  note iv = invar_begin [OF assms, of k] invar_outcome [OF invar_begin [OF assms], of k ou k]
  show ?thesis
  proof (cases "k' = k")
    case False
    with iv show ?thesis by (simp add: get_end get_outcome_other get_begin assms)
  next
    case True
    show ?thesis
    proof (cases "get s k")
      case None
      then have "get (begin_request k s) k = None" using get_begin [OF assms] by simp
      with iv None True show ?thesis by (simp add: get_end outcome_unknown)
    next
      case (Some e)
      then have b: "get (begin_request k s) k = Some (set_in_flight (in_flight e + 1) e)"
        using get_begin [OF assms] by simp
      have "0 \<le> in_flight e" using assms Some by (rule get_in_flight)
      with True Some iv get_outcome [OF iv(1) b, of ou] show ?thesis
        by (auto simp: get_end set_in_flight_def)
    qed
  qed
qed

lemma bracket_with_outcome:
  assumes "invar s" and "get s k = Some e"
  shows "\<exists>r'. get (end_request k (record_outcome k ou (begin_request k s))) k = Some r' \<and>
    in_flight r' = in_flight e \<and> n_totalRequests r' = n_totalRequests e + 1"
proof -
  have b: "get (begin_request k s) k = Some (set_in_flight (in_flight e + 1) e)"
    using get_begin [OF assms(1)] assms(2) by simp
  obtain r where r: "get (record_outcome k ou (begin_request k s)) k = Some r"
      "in_flight r = in_flight e + 1" "n_totalRequests r = n_totalRequests e + 1"
    using get_outcome [OF invar_begin [OF assms(1)] b] by (auto simp: set_in_flight_def)
  have "0 \<le> in_flight e" using assms by (rule get_in_flight)
  with r get_end [OF invar_outcome [OF invar_begin [OF assms(1)]]] show ?thesis
    by (auto simp: set_in_flight_def)
qed

lemma unpaired_end_saturates:
  assumes "invar s" and "get s k = Some e" and "in_flight e = 0"
  shows "get (end_request k s) k = Some e"
  using get_end [OF assms(1)] assms(2,3) by (simp add: set_in_flight_def)

lemma listed_is_registered: "invar s \<Longrightarrow> r \<in> set (list_nodes s) \<Longrightarrow> get s (n_nodeId r) = Some r"
  by (simp add: list_iff_get)

end

subsection \<open>Merging a registration over a stored record\<close>

definition cloneRecord :: "node_record \<Rightarrow> node_record" where
  "cloneRecord r =
     \<lparr>n_registration = n_registration r, n_health = n_health r, n_usdcOptedIn = n_usdcOptedIn r,
      n_totalRequests = n_totalRequests r, n_totalPaidAtomic = n_totalPaidAtomic r,
      n_registeredAt = n_registeredAt r\<rparr>"

definition tryAtomic :: "string \<Rightarrow> int option" where
  "tryAtomic s = (if wire_digits s then Some (int (dec_val s)) else None)"

definition maxAtomic :: "string \<Rightarrow> string \<Rightarrow> string" where
  "maxAtomic a b = (case tryAtomic a of
      None \<Rightarrow> (case tryAtomic b of None \<Rightarrow> ''0'' | Some _ \<Rightarrow> b)
    | Some av \<Rightarrow> (case tryAtomic b of None \<Rightarrow> a | Some bv \<Rightarrow> if bv \<le> av then a else b))"

definition mergeRecord :: "node_record option \<Rightarrow> node_record \<Rightarrow> request_outcome list \<Rightarrow> node_record" where
  "mergeRecord existing incoming w = (case existing of
      None \<Rightarrow> cloneRecord incoming
    | Some e \<Rightarrow>
        (let health = (n_health incoming)\<lparr>h_inFlight := h_inFlight (n_health e),
               h_lastSeenAt := js_max (h_lastSeenAt (n_health e)) (h_lastSeenAt (n_health incoming))\<rparr>;
             health' = (if w = [] then health
               else (let derived = deriveHealth health w
                     in derived\<lparr>h_healthy := h_healthy (n_health incoming) \<and> h_healthy derived\<rparr>))
         in (cloneRecord incoming)\<lparr>n_health := health',
               n_totalRequests := max (n_totalRequests e) (n_totalRequests incoming),
               n_totalPaidAtomic := maxAtomic (n_totalPaidAtomic e) (n_totalPaidAtomic incoming),
               n_registeredAt := n_registeredAt e\<rparr>))"

subsection \<open>The in-memory store\<close>

record mem_store =
  m_records :: "(string, node_record) jsmap"
  m_windows :: "(string, request_outcome list) jsmap"

definition mem_empty :: mem_store where
  "mem_empty = \<lparr>m_records = [], m_windows = []\<rparr>"

definition window_of :: "mem_store \<Rightarrow> string \<Rightarrow> request_outcome list" where
  "window_of s k = (case jget (m_windows s) k of None \<Rightarrow> [] | Some w \<Rightarrow> w)"

definition mem_upsert :: "node_record \<Rightarrow> mem_store \<Rightarrow> mem_store" where
  "mem_upsert r s =
     (let k = n_nodeId r; w = window_of s k
      in s\<lparr>m_records := jset k (mergeRecord (jget (m_records s) k) r w) (m_records s),
           m_windows := (if jhas (m_windows s) k then m_windows s else jset k w (m_windows s))\<rparr>)"

definition mem_get :: "mem_store \<Rightarrow> string \<Rightarrow> node_record option" where
  "mem_get s k = map_option cloneRecord (jget (m_records s) k)"

definition mem_list :: "mem_store \<Rightarrow> node_record list" where
  "mem_list s = map cloneRecord (jvals (m_records s))"

definition mem_remove :: "string \<Rightarrow> mem_store \<Rightarrow> mem_store" where
  "mem_remove k s = s\<lparr>m_records := jdel k (m_records s), m_windows := jdel k (m_windows s)\<rparr>"

definition push_window :: "request_outcome list \<Rightarrow> request_outcome \<Rightarrow> request_outcome list" where
  "push_window w ou =
     (let w' = w @ [normalizeOutcome ou]
      in if HEALTH_WINDOW_SIZE < length w' then drop (length w' - HEALTH_WINDOW_SIZE) w' else w')"

definition mem_recordOutcome :: "string \<Rightarrow> request_outcome \<Rightarrow> mem_store \<Rightarrow> mem_store" where
  "mem_recordOutcome k ou s = (case jget (m_records s) k of
      None \<Rightarrow> s
    | Some r \<Rightarrow>
        (let w = push_window (window_of s k) ou
         in s\<lparr>m_windows := jset k w (m_windows s),
              m_records := jset k (r\<lparr>n_totalRequests := n_totalRequests r + 1,
                                     n_health := deriveHealth (n_health r) w\<rparr>) (m_records s)\<rparr>))"

definition mem_beginRequest :: "string \<Rightarrow> mem_store \<Rightarrow> mem_store" where
  "mem_beginRequest k s = (case jget (m_records s) k of
      None \<Rightarrow> s
    | Some r \<Rightarrow> s\<lparr>m_records := jset k (set_in_flight (in_flight r + 1) r) (m_records s)\<rparr>)"

definition mem_endRequest :: "string \<Rightarrow> mem_store \<Rightarrow> mem_store" where
  "mem_endRequest k s = (case jget (m_records s) k of
      None \<Rightarrow> s
    | Some r \<Rightarrow> s\<lparr>m_records := jset k (set_in_flight (max 0 (in_flight r - 1)) r) (m_records s)\<rparr>)"

definition mem_close :: "mem_store \<Rightarrow> mem_store" where
  "mem_close s = s\<lparr>m_records := [], m_windows := []\<rparr>"

subsection \<open>The store invariant\<close>

text \<open>
  Record and window exist together; the window is bounded and normalised; the derived health
  fields are those of the window, and a record whose window ends in three failures is not healthy.
\<close>

definition derived_ok :: "node_health \<Rightarrow> request_outcome list \<Rightarrow> bool" where
  "derived_ok h w \<longleftrightarrow> (w \<noteq> [] \<longrightarrow>
     h_consecutiveFailures h = int (failure_streak w) \<and>
     h_uptimeRatio h = Fin (uptime w) \<and>
     h_qualityScore h = Fin (fl64 (uptime w * penalty (failure_streak w))) \<and>
     h_latencyMsP50 h = percentile (sort_nums (map o_latencyMs w)) (Fin 50) \<and>
     h_latencyMsP95 h = percentile (sort_nums (map o_latencyMs w)) (Fin 95) \<and>
     (h_healthy h \<longrightarrow> failure_streak w < 3))"

definition window_ok :: "request_outcome list \<Rightarrow> bool" where
  "window_ok w \<longleftrightarrow> length w \<le> HEALTH_WINDOW_SIZE \<and> list_all norm_outcome w"

fun cell_ok :: "string \<Rightarrow> node_record option \<Rightarrow> request_outcome list option \<Rightarrow> bool" where
  "cell_ok k None None = True"
| "cell_ok k (Some r) (Some w) =
     (n_nodeId r = k \<and> 0 \<le> in_flight r \<and> window_ok w \<and> derived_ok (n_health r) w)"
| "cell_ok k _ _ = False"

definition mem_inv :: "mem_store \<Rightarrow> bool" where
  "mem_inv s \<longleftrightarrow> jwf (m_records s) \<and> jwf (m_windows s) \<and>
     (\<forall>k. cell_ok k (jget (m_records s) k) (jget (m_windows s) k))"

lemma mem_inv_cell: "mem_inv s \<Longrightarrow> cell_ok k (jget (m_records s) k) (jget (m_windows s) k)"
  by (simp add: mem_inv_def)

lemma cell_ok_SomeE:
  assumes "cell_ok k (Some r) ow"
  obtains w where "ow = Some w" "n_nodeId r = k" "0 \<le> in_flight r" "window_ok w"
    "derived_ok (n_health r) w"
  using assms by (cases ow) auto

lemma cell_ok_None [simp]: "cell_ok k None ow \<longleftrightarrow> ow = None"
  by (cases ow) auto

lemma window_ok_Nil [simp]: "window_ok []"
  by (simp add: window_ok_def)

lemma window_ok_push: "window_ok w \<Longrightarrow> window_ok (push_window w ou)"
  by (auto simp: window_ok_def push_window_def Let_def list_all_iff dest: in_set_dropD)

lemma push_window_nonempty [simp]: "push_window w ou \<noteq> []"
  by (simp add: push_window_def Let_def HEALTH_WINDOW_SIZE_def)

lemma failure_streak_push:
  "failure_streak (push_window w ou) =
     (if o_success ou then 0 else min (Suc (failure_streak w)) HEALTH_WINDOW_SIZE)"
  using failure_streak_le [of w]
  by (auto simp: push_window_def Let_def failure_streak_drop HEALTH_WINDOW_SIZE_def
      simp del: drop_append)

lemma derived_ok_derive: "window_ok w \<Longrightarrow> derived_ok (deriveHealth h w) w"
  by (auto simp: derived_ok_def deriveHealth_eq small_windowI window_ok_def)

lemma derived_ok_unhealthy: "derived_ok h w \<Longrightarrow> derived_ok (h\<lparr>h_healthy := b \<and> h_healthy h\<rparr>) w"
  by (auto simp: derived_ok_def)

lemma derived_ok_Nil [simp]: "derived_ok h []"
  by (simp add: derived_ok_def)

lemma derived_ok_in_flight [simp]: "derived_ok (h\<lparr>h_inFlight := k\<rparr>) w = derived_ok h w"
  by (simp add: derived_ok_def)

lemma cloneRecord_id [simp]: "cloneRecord r = r"
  by (simp add: cloneRecord_def)

lemma map_cloneRecord_id [simp]: "map_option cloneRecord o' = o'" "map cloneRecord rs = rs"
  by (cases o', simp_all) (induction rs, simp_all)

lemma merge_fields:
  assumes "mergeRecord (Some e) r w = r'"
  shows "n_registration r' = n_registration r" "in_flight r' = in_flight e"
    "n_registeredAt r' = n_registeredAt e" "n_totalRequests r' = max (n_totalRequests e) (n_totalRequests r)"
    "n_totalPaidAtomic r' = maxAtomic (n_totalPaidAtomic e) (n_totalPaidAtomic r)"
  using assms by (auto simp: mergeRecord_def Let_def)

lemma merge_derived: "window_ok w \<Longrightarrow> derived_ok (n_health (mergeRecord (Some e) r w)) w"
  by (auto simp: mergeRecord_def Let_def intro: derived_ok_unhealthy derived_ok_derive)

lemma cell_ok_merge:
  assumes "cell_ok (n_nodeId r) oe ow" and "0 \<le> in_flight r"
  shows "cell_ok (n_nodeId r) (Some (mergeRecord oe r (case ow of None \<Rightarrow> [] | Some w \<Rightarrow> w)))
    (Some (case ow of None \<Rightarrow> [] | Some w \<Rightarrow> w))"
proof (cases oe)
  case None
  with assms show ?thesis by (simp add: mergeRecord_def)
next
  case (Some e)
  with assms obtain w where "ow = Some w" "0 \<le> in_flight e" "window_ok w" by (auto elim: cell_ok_SomeE)
  with Some merge_fields [OF refl, of e r w] show ?thesis by (simp add: merge_derived)
qed

lemma mem_inv_empty [simp]: "mem_inv mem_empty"
  by (simp add: mem_inv_def mem_empty_def)

lemma mem_inv_upsert [inv_intros]:
  assumes "mem_inv s" "0 \<le> in_flight r"
  shows "mem_inv (mem_upsert r s)"
proof -
  have "cell_ok k (jget (m_records (mem_upsert r s)) k) (jget (m_windows (mem_upsert r s)) k)" for k
    using mem_inv_cell [OF assms(1), of k] cell_ok_merge [OF mem_inv_cell [OF assms(1)] assms(2)]
    by (auto simp: mem_upsert_def Let_def jsmap_simps window_of_def jhas_iff split: option.splits)
  with assms show ?thesis
    by (auto simp: mem_inv_def mem_upsert_def Let_def intro: jwf_jset)
qed

lemma mem_inv_remove [inv_intros]: "mem_inv s \<Longrightarrow> mem_inv (mem_remove k s)"
  by (auto simp: mem_inv_def mem_remove_def jsmap_simps intro: jwf_jdel)

lemma mem_inv_recordOutcome [inv_intros]:
  assumes "mem_inv s"
  shows "mem_inv (mem_recordOutcome k ou s)"
proof (cases "jget (m_records s) k")
  case None
  with assms show ?thesis by (simp add: mem_recordOutcome_def)
next
  case (Some r)
  from mem_inv_cell [OF assms, of k] Some obtain w where w: "jget (m_windows s) k = Some w"
      "n_nodeId r = k" "0 \<le> in_flight r" "window_ok w"
    by (auto elim: cell_ok_SomeE)
  with assms Some show ?thesis
    by (auto simp: mem_inv_def mem_recordOutcome_def Let_def jsmap_simps window_of_def
        intro: jwf_jset window_ok_push derived_ok_derive)
qed

lemma mem_inv_set_in_flight:
  assumes "mem_inv s" "jget (m_records s) k = Some r" "0 \<le> n"
  shows "mem_inv (s\<lparr>m_records := jset k (set_in_flight n r) (m_records s)\<rparr>)"
  using assms mem_inv_cell [OF assms(1), of k]
  by (auto simp: mem_inv_def jsmap_simps set_in_flight_def intro: jwf_jset elim!: cell_ok_SomeE)

lemma mem_inv_beginRequest [inv_intros]: "mem_inv s \<Longrightarrow> mem_inv (mem_beginRequest k s)"
  using mem_inv_cell [of s k]
  by (auto simp: mem_beginRequest_def split: option.splits elim!: cell_ok_SomeE
      intro!: mem_inv_set_in_flight)

lemma mem_inv_endRequest [inv_intros]: "mem_inv s \<Longrightarrow> mem_inv (mem_endRequest k s)"
  by (auto simp: mem_endRequest_def split: option.splits intro!: mem_inv_set_in_flight)

lemma mem_inv_close [inv_intros]: "mem_inv (mem_close s)"
  by (simp add: mem_inv_def mem_close_def)

subsection \<open>The in-memory store meets the contract\<close>

lemma mem_list_iff: "mem_inv s \<Longrightarrow> r \<in> set (mem_list s) \<longleftrightarrow> mem_get s (n_nodeId r) = Some r"
proof -
  assume inv: "mem_inv s"
  have wf: "jwf (m_records s)" using inv by (simp add: mem_inv_def)
  have key: "n_nodeId r = k" if "jget (m_records s) k = Some r" for k
    using mem_inv_cell [OF inv, of k] that by (auto elim: cell_ok_SomeE)
  show ?thesis
  proof
    assume "r \<in> set (mem_list s)"
    then obtain k where "(k, r) \<in> set (m_records s)" by (auto simp: mem_list_def)
    then have "jget (m_records s) k = Some r" using wf by (simp add: jget_in_set)
    with key show "mem_get s (n_nodeId r) = Some r" by (auto simp: mem_get_def)
  next
    assume "mem_get s (n_nodeId r) = Some r"
    then have "(n_nodeId r, r) \<in> set (m_records s)" by (auto simp: mem_get_def dest: map_of_SomeD)
    then show "r \<in> set (mem_list s)" by (force simp: mem_list_def)
  qed
qed

lemma mem_list_distinct: "mem_inv s \<Longrightarrow> distinct (map n_nodeId (mem_list s))"
proof -
  assume inv: "mem_inv s"
  have wf: "jwf (m_records s)" using inv by (simp add: mem_inv_def)
  have "n_nodeId (snd p) = fst p" if "p \<in> set (m_records s)" for p
    using mem_inv_cell [OF inv, of "fst p"] that wf
    by (cases p) (auto simp: jget_in_set [symmetric] elim: cell_ok_SomeE)
  then have "map n_nodeId (mem_list s) = jkeys (m_records s)"
    by (simp add: mem_list_def)
  with wf show ?thesis by (simp add: jwf_def)
qed

lemma mem_get_upsert: "mem_get (mem_upsert r s) k =
    (if k = n_nodeId r then Some (mergeRecord (mem_get s k) r (window_of s k)) else mem_get s k)"
  by (simp add: mem_get_def mem_upsert_def Let_def jsmap_simps)

lemma mem_get_remove: "mem_get (mem_remove k s) k' = (if k' = k then None else mem_get s k')"
  by (simp add: mem_get_def mem_remove_def jsmap_simps)

lemma mem_get_recordOutcome: "mem_get (mem_recordOutcome k ou s) k' =
    (if k' = k then map_option (\<lambda>r. r\<lparr>n_totalRequests := n_totalRequests r + 1,
        n_health := deriveHealth (n_health r) (push_window (window_of s k) ou)\<rparr>) (mem_get s k)
     else mem_get s k')"
  by (cases "jget (m_records s) k")
    (simp_all add: mem_get_def mem_recordOutcome_def Let_def jsmap_simps)

lemma mem_get_begin: "mem_get (mem_beginRequest k s) k' =
    (if k' = k then map_option (\<lambda>r. set_in_flight (in_flight r + 1) r) (mem_get s k') else mem_get s k')"
  by (cases "jget (m_records s) k") (simp_all add: mem_get_def mem_beginRequest_def jsmap_simps)

lemma mem_get_end: "mem_get (mem_endRequest k s) k' =
    (if k' = k then map_option (\<lambda>r. set_in_flight (max 0 (in_flight r - 1)) r) (mem_get s k')
     else mem_get s k')"
  by (cases "jget (m_records s) k") (simp_all add: mem_get_def mem_endRequest_def jsmap_simps)

lemmas mem_gets = mem_get_upsert mem_get_remove mem_get_recordOutcome mem_get_begin mem_get_end

lemma mem_get_cell: "mem_inv s \<Longrightarrow> mem_get s k = Some r \<Longrightarrow> n_nodeId r = k \<and> 0 \<le> in_flight r"
  using mem_inv_cell [of s k] by (auto simp: mem_get_def elim: cell_ok_SomeE)

interpretation mem: node_store mem_upsert mem_get mem_list mem_remove mem_recordOutcome
  mem_beginRequest mem_endRequest mem_inv
proof unfold_locales
  fix s r e
  assume "mem_inv s" "mem_get s (n_nodeId r) = Some e"
  then show "\<exists>r'. mem_get (mem_upsert r s) (n_nodeId r) = Some r' \<and> n_registration r' = n_registration r \<and>
        in_flight r' = in_flight e \<and> n_registeredAt r' = n_registeredAt e \<and>
        n_totalRequests e \<le> n_totalRequests r'"
    using merge_fields [OF refl, of e r "window_of s (n_nodeId r)"] by (simp add: mem_gets)
next
  fix s :: mem_store and k ou
  assume "mem_get s k = None"
  then show "mem_get (mem_recordOutcome k ou s) = mem_get s" by (auto simp: mem_gets)
qed (auto simp: mem_list_iff mem_list_distinct mem_gets mem_get_cell mergeRecord_def intro: inv_intros)

end
