(* ===== verification/Score.thy ===== *)
theory Score
  imports NodeStore Pricing
begin

section \<open>Composite routing score (packages/registry/src/selector/score.ts)\<close>

text \<open>
  Latency, price and quality are normalised against the candidate set and combined with
  normalised weights. All arithmetic is binary64 (theory JsNumber) except the price offset,
  which stays integral until the last division.
\<close>

record score_weights =
  w_latency :: jsnum
  w_price :: jsnum
  w_quality :: jsnum

definition DEFAULT_WEIGHTS :: score_weights where
  "DEFAULT_WEIGHTS =
     \<lparr>w_latency = js_of_rat (4/10), w_price = js_of_rat (3/10), w_quality = js_of_rat (3/10)\<rparr>"

record score_context =
  sc_model :: string
  sc_minLatencyMs :: jsnum
  sc_maxLatencyMs :: jsnum
  sc_minPriceAtomic :: int
  sc_maxPriceAtomic :: int
  sc_weights :: "score_weights option"

definition RATIO_SCALE :: int where "RATIO_SCALE = 1000000"

definition bad_weight :: "jsnum \<Rightarrow> bool" where
  "bad_weight v \<longleftrightarrow> \<not> isFinite v \<or> js_less v (Fin 0)"

definition weight_error :: "string \<Rightarrow> 'a res" where
  "weight_error name = throw ConfigErr
     (''scoring weight '' @ [CHR 0x22] @ name @ [CHR 0x22] @ '' must be a non-negative finite number'')"

definition weight_total :: "score_weights \<Rightarrow> jsnum" where
  "weight_total w = js_add (js_add (w_latency w) (w_price w)) (w_quality w)"

definition normalizeWeights :: "score_weights \<Rightarrow> score_weights res" where
  "normalizeWeights w =
     (if bad_weight (w_latency w) then weight_error ''latency''
      else if bad_weight (w_price w) then weight_error ''price''
      else if bad_weight (w_quality w) then weight_error ''quality''
      else if js_le (weight_total w) (Fin 0)
        then throw ConfigErr ''scoring weights must not all be zero''
      else Inr \<lparr>w_latency = js_div (w_latency w) (weight_total w),
                w_price = js_div (w_price w) (weight_total w),
                w_quality = js_div (w_quality w) (weight_total w)\<rparr>)"

definition normalize_span :: "jsnum \<Rightarrow> jsnum \<Rightarrow> jsnum" where
  "normalize_span offset width = (if js_le width (Fin 0) then Fin 0 else clamp01 (js_div offset width))"

definition normalizeNumber :: "jsnum \<Rightarrow> jsnum \<Rightarrow> jsnum \<Rightarrow> jsnum" where
  "normalizeNumber value lo hi =
     (if \<not> isFinite value \<or> \<not> isFinite lo \<or> \<not> isFinite hi then Fin 0
      else normalize_span (js_sub value lo) (js_sub hi lo))"

definition normalizeAtomic :: "int \<Rightarrow> int \<Rightarrow> int \<Rightarrow> jsnum" where
  "normalizeAtomic value lo hi =
     (let width = hi - lo; offset = value - lo in
      if width \<le> 0 then Fin 0 else if offset \<le> 0 then Fin 0 else if width \<le> offset then Fin 1
      else js_div (js_int (big_div (offset * RATIO_SCALE) width)) (js_int RATIO_SCALE))"

definition nodePriceAtomic :: "node_record \<Rightarrow> string \<Rightarrow> int option" where
  "nodePriceAtomic node model =
     (case List.find (\<lambda>c. normalizeModelId (c_model c) = normalizeModelId model)
             (r_capabilities (n_registration node)) of
        None \<Rightarrow> None
      | Some c \<Rightarrow> (case usdcToAtomic (c_pricePer1kTokensUsdc c) of Inl _ \<Rightarrow> None | Inr p \<Rightarrow> Some p))"

definition latency_term :: "node_record \<Rightarrow> score_context \<Rightarrow> jsnum" where
  "latency_term n ctx = js_sub (Fin 1)
     (normalizeNumber (h_latencyMsP95 (n_health n)) (sc_minLatencyMs ctx) (sc_maxLatencyMs ctx))"

definition price_term :: "node_record \<Rightarrow> score_context \<Rightarrow> jsnum" where
  "price_term n ctx = (case nodePriceAtomic n (sc_model ctx) of
      None \<Rightarrow> Fin 0
    | Some p \<Rightarrow> js_sub (Fin 1) (normalizeAtomic p (sc_minPriceAtomic ctx) (sc_maxPriceAtomic ctx)))"

definition quality_term :: "node_record \<Rightarrow> jsnum" where
  "quality_term n = clamp01 (h_qualityScore (n_health n))"

definition combine :: "score_weights \<Rightarrow> jsnum \<Rightarrow> jsnum \<Rightarrow> jsnum \<Rightarrow> jsnum" where
  "combine w lt pt qt = clamp01 (js_add (js_add (js_mul (w_latency w) lt) (js_mul (w_price w) pt))
     (js_mul (w_quality w) qt))"

definition scoreNode :: "node_record \<Rightarrow> score_context \<Rightarrow> jsnum res" where
  "scoreNode n ctx =
     bind_res (normalizeWeights (case sc_weights ctx of None \<Rightarrow> DEFAULT_WEIGHTS | Some w \<Rightarrow> w))
       (\<lambda>w. Inr (combine w (latency_term n ctx) (price_term n ctx) (quality_term n)))"

subsection \<open>Normalised weights\<close>

text \<open>A finite value is a double when rounding leaves it alone.\<close>

definition is_double :: "jsnum \<Rightarrow> bool" where
  "is_double v \<longleftrightarrow> (case v of Fin q \<Rightarrow> fl64 q = q | _ \<Rightarrow> True)"

definition good_weights :: "score_weights \<Rightarrow> bool" where
  "good_weights w \<longleftrightarrow> list_all (\<lambda>v. \<not> bad_weight v \<and> is_double v) [w_latency w, w_price w, w_quality w]
     \<and> \<not> js_le (weight_total w) (Fin 0)"

lemma js_of_rat_cases: "js_of_rat q = Fin (fl64 q) \<or> js_of_rat q = PosInf \<or> js_of_rat q = NegInf"
  by (simp add: js_of_rat_def js_clip_def)

lemma js_of_rat_pos: "0 \<le> q \<Longrightarrow> js_of_rat q = Fin (fl64 q) \<or> js_of_rat q = PosInf"
  using fl64_nonneg [of q] by (auto simp: js_of_rat_def js_clip_def)

lemma js_of_rat_FinD:
  assumes "js_of_rat y = Fin z" "0 \<le> x" "x \<le> y"
  shows "js_of_rat x = Fin (fl64 x)"
proof (cases "fl64 x = 0")
  case True
  then show ?thesis by (simp add: js_of_rat_def js_clip_def)
next
  case False
  with assms(2) have x: "0 < fl64 x" using fl64_nonneg [of x] by simp
  have le: "fl64 x \<le> fl64 y" using assms(3) by (rule fl64_mono)
  with x assms(1) have "ilog2 (fl64 y) < 1024"
    by (auto simp: js_of_rat_def js_clip_def split: if_splits)
  with ilog2_mono [OF x le] x show ?thesis by (simp add: js_of_rat_def js_clip_def)
qed

lemma good_weightE:
  assumes "\<not> bad_weight v" "is_double v"
  obtains q where "v = Fin q" "0 \<le> q" "fl64 q = q"
  using assms by (cases v) (auto simp: bad_weight_def is_double_def not_less)

lemma div_total_unit:
  assumes "0 \<le> q" "js_less (Fin 0) t" "\<And>T. t = Fin T \<Longrightarrow> q \<le> T"
  shows "\<exists>x. js_div (Fin q) t = Fin x \<and> 0 \<le> x \<and> x \<le> 1"
proof (cases t)
  case (Fin T)
  with assms have "0 < T" "0 \<le> q / T" "q / T \<le> 1" by (simp_all add: divide_le_eq_1)
  then show ?thesis using Fin b64.rnd_unit [of "q / T"] by (simp add: js_of_rat_unit)
qed (use assms in auto)

lemma weight_total_cases:
  assumes "w_latency w = Fin l" "w_price w = Fin p" "w_quality w = Fin q" "0 \<le> l" "0 \<le> p" "0 \<le> q"
  shows "weight_total w = Fin (fl64 (fl64 (l + p) + q)) \<or> weight_total w = PosInf"
proof -
  have "0 \<le> fl64 (l + p) + q" using assms by (simp add: b64.rnd_nonneg)
  then show ?thesis
    using js_of_rat_pos [of "l + p"] js_of_rat_pos [of "fl64 (l + p) + q"] assms
    by (auto simp: weight_total_def)
qed

definition unit_weights :: "score_weights \<Rightarrow> bool" where
  "unit_weights w \<longleftrightarrow> unit_num (w_latency w) \<and> unit_num (w_price w) \<and> unit_num (w_quality w)"

lemma normalizeWeights_unit:
  assumes "good_weights w"
  shows "\<exists>w'. normalizeWeights w = Inr w' \<and> unit_weights w'"
proof -
  from assms obtain l p q where l: "w_latency w = Fin l" "0 \<le> l" "fl64 l = l"
      and p: "w_price w = Fin p" "0 \<le> p" "fl64 p = p" and q: "w_quality w = Fin q" "0 \<le> q" "fl64 q = q"
    by (auto simp: good_weights_def elim!: good_weightE)
  let ?t = "weight_total w"
  have t: "?t = Fin (fl64 (fl64 (l + p) + q)) \<or> ?t = PosInf"
    by (rule weight_total_cases [OF l(1) p(1) q(1) l(2) p(2) q(2)])
  have ok: "\<not> js_le ?t (Fin 0)" using assms by (simp add: good_weights_def)
  with t have pos: "js_less (Fin 0) ?t" by (auto simp: js_le_def)
  have s: "fl64 (l + p) \<le> fl64 (fl64 (l + p) + q)" using q by (intro b64.rnd_add_ge)
  have "l \<le> fl64 (l + p)" "p \<le> fl64 (l + p)" using l p by (auto intro: b64.rnd_ge_fixed)
  moreover have "q \<le> fl64 (fl64 (l + p) + q)"
    using q l p by (intro b64.rnd_ge_fixed) (simp_all add: b64.rnd_nonneg)
  ultimately have le: "l \<le> T" "p \<le> T" "q \<le> T" if "?t = Fin T" for T using s that t by auto
  have "unit_num (js_div (Fin l) ?t)" "unit_num (js_div (Fin p) ?t)" "unit_num (js_div (Fin q) ?t)"
    using div_total_unit [OF l(2) pos le(1)] div_total_unit [OF p(2) pos le(2)]
      div_total_unit [OF q(2) pos le(3)] by (auto simp: unit_num_iff)
  with ok l p q show ?thesis
    by (simp add: normalizeWeights_def unit_weights_def bad_weight_def not_less)
qed

lemma normalizeWeights_error_iff:
  "(\<exists>e. normalizeWeights w = Inl e) \<longleftrightarrow>
     bad_weight (w_latency w) \<or> bad_weight (w_price w) \<or> bad_weight (w_quality w) \<or>
     js_le (weight_total w) (Fin 0)"
  by (auto simp: normalizeWeights_def weight_error_def)

subsection \<open>The terms and their order\<close>

text \<open>
  \<open>num_le\<close>: both values are unit numbers and the first is at most the second. It is the order
  in which every stage of the score is monotone.
\<close>

definition num_le :: "jsnum \<Rightarrow> jsnum \<Rightarrow> bool" where
  "num_le a b \<longleftrightarrow> unit_num a \<and> unit_num b \<and> js_le a b"

lemma num_le_Fin: "num_le a b \<longleftrightarrow> (\<exists>x y. a = Fin x \<and> b = Fin y \<and> 0 \<le> x \<and> x \<le> y \<and> y \<le> 1)"
  by (auto simp: num_le_def unit_num_iff js_le_def)

lemma num_le_refl: "unit_num a \<Longrightarrow> num_le a a"
  by (auto simp: num_le_Fin unit_num_iff)

lemma clamp01_mono: "a \<le> b \<Longrightarrow> num_le (clamp01 (Fin a)) (clamp01 (Fin b))"
  by (auto simp: num_le_Fin clamp01_Fin)

lemma complement_antimono: "num_le a b \<Longrightarrow> num_le (js_sub (Fin 1) b) (js_sub (Fin 1) a)"
proof -
  assume "num_le a b"
  then obtain x y where ab: "a = Fin x" "b = Fin y" "0 \<le> x" "x \<le> y" "y \<le> 1"
    by (auto simp: num_le_Fin)
  then have "js_of_rat (1 - x) = Fin (fl64 (1 - x))" "js_of_rat (1 - y) = Fin (fl64 (1 - y))"
    by (simp_all add: js_of_rat_unit)
  with ab show ?thesis
    by (simp add: num_le_Fin js_sub_def b64.rnd_nonneg b64.rnd_le_1 b64.rnd_diff_mono)
qed

lemma normalizeNumber_mono:
  assumes "lo \<le> a" "a \<le> b" "b \<le> hi"
  shows "num_le (normalizeNumber (Fin a) (Fin lo) (Fin hi)) (normalizeNumber (Fin b) (Fin lo) (Fin hi))"
proof (cases "js_of_rat (hi - lo)")
  case (Fin S)
  show ?thesis
  proof (cases "S \<le> 0")
    case True
    then show ?thesis
      by (auto simp: normalizeNumber_def normalize_span_def js_sub_def Fin js_le_def num_le_Fin)
  next
    case False
    have S: "S = fl64 (hi - lo)" using Fin js_of_rat_cases [of "hi - lo"] by simp
    have off: "js_of_rat (x - lo) = Fin (fl64 (x - lo))" "fl64 (x - lo) \<le> S" "0 \<le> fl64 (x - lo)"
      if "lo \<le> x" "x \<le> hi" for x
      using that js_of_rat_FinD [OF Fin, of "x - lo"] fl64_mono [of "x - lo" "hi - lo"]
      by (simp_all add: S b64.rnd_nonneg)
    have val: "normalizeNumber (Fin x) (Fin lo) (Fin hi) = Fin (fl64 (fl64 (x - lo) / S))"
      "0 \<le> fl64 (fl64 (x - lo) / S)" "fl64 (fl64 (x - lo) / S) \<le> 1" if "lo \<le> x" "x \<le> hi" for x
    proof -
      have u: "0 \<le> fl64 (x - lo) / S" "fl64 (x - lo) / S \<le> 1"
        using off [OF that] False by (simp_all add: divide_le_eq_1)
      then show "0 \<le> fl64 (fl64 (x - lo) / S)" "fl64 (fl64 (x - lo) / S) \<le> 1"
        using b64.rnd_unit by simp_all
      with u off [OF that] False show "normalizeNumber (Fin x) (Fin lo) (Fin hi) = Fin (fl64 (fl64 (x - lo) / S))"
        by (simp add: normalizeNumber_def normalize_span_def js_sub_def Fin js_le_def js_of_rat_unit
            clamp01_id unit_num_def)
    qed
    have "fl64 (fl64 (a - lo) / S) \<le> fl64 (fl64 (b - lo) / S)"
      using assms(2) False by (intro b64.rnd_divide_mono fl64_mono) simp_all
    with val [of a] val [of b] assms show ?thesis by (simp add: num_le_Fin)
  qed
next
  case PosInf
  have "clamp01 (js_div v PosInf) = Fin 0" for v by (cases v) (simp_all add: clamp01_def)
  with PosInf show ?thesis
    by (simp add: normalizeNumber_def normalize_span_def js_sub_def js_le_def num_le_Fin)
next
  case NegInf
  with js_of_rat_pos [of "hi - lo"] assms show ?thesis by simp
next
  case NaN
  with js_of_rat_cases [of "hi - lo"] show ?thesis by simp
qed

lemma normalizeAtomic_mono:
  assumes "a \<le> b"
  shows "num_le (normalizeAtomic a lo hi) (normalizeAtomic b lo hi)"
proof -
  let ?r = "\<lambda>v. (v - lo) * 1000000 div (hi - lo)"
  have val: "normalizeAtomic v lo hi = Fin (fl64 (of_int (?r v) / 1000000))" "0 \<le> ?r v" "?r v \<le> 1000000"
    if "lo < v" "v - lo < hi - lo" for v
  proof -
    have "(v - lo) * 1000000 \<le> (hi - lo) * 1000000" using that by simp
    then have "?r v \<le> (hi - lo) * 1000000 div (hi - lo)" using that by (intro zdiv_mono1) simp_all
    also have "(hi - lo) * 1000000 div (hi - lo) = 1000000"
      using that by (intro nonzero_mult_div_cancel_left) simp
    finally show r1: "?r v \<le> 1000000" .
    show r0: "0 \<le> ?r v" using that by (simp add: pos_imp_zdiv_nonneg_iff)
    have u: "(of_int (?r v) :: rat) / 1000000 \<le> 1" "0 \<le> (of_int (?r v) :: rat) / 1000000"
      using r0 r1 of_int_le_iff [of "?r v" 1000000, where 'a = rat] by simp_all
    have "js_int (?r v) = Fin (of_int (?r v))" using r0 r1 by (intro js_int_small) simp
    moreover have "js_int RATIO_SCALE = Fin 1000000" by (simp add: js_int_small RATIO_SCALE_def)
    moreover have "big_div ((v - lo) * RATIO_SCALE) (hi - lo) = ?r v"
      using that by (simp add: big_div_nonneg RATIO_SCALE_def)
    ultimately show "normalizeAtomic v lo hi = Fin (fl64 (of_int (?r v) / 1000000))"
      using that js_of_rat_unit [OF u(2,1)] by (simp add: normalizeAtomic_def Let_def)
  qed
  have unit: "0 \<le> fl64 (of_int (?r v) / 1000000) \<and> fl64 (of_int (?r v) / 1000000) \<le> 1"
    if "lo < v" "v - lo < hi - lo" for v
    using val [OF that] of_int_le_iff [of "?r v" 1000000, where 'a = rat] by (intro b64.rnd_unit) simp_all
  consider "hi \<le> lo" | "lo < hi" "a \<le> lo" | "lo < hi" "hi \<le> b" | "lo < a" "b < hi" by linarith
  then show ?thesis
  proof cases
    case 1
    then show ?thesis by (simp add: normalizeAtomic_def num_le_Fin)
  next
    case 2
    then show ?thesis using val [of b] unit [of b]
      by (cases "b \<le> lo"; cases "hi \<le> b") (auto simp: normalizeAtomic_def num_le_Fin Let_def)
  next
    case 3
    then show ?thesis using val [of a] unit [of a]
      by (cases "a \<le> lo"; cases "hi \<le> a") (auto simp: normalizeAtomic_def num_le_Fin Let_def)
  next
    case 4
    have "?r a \<le> ?r b" using assms 4 by (intro zdiv_mono1) simp_all
    then have "fl64 (of_int (?r a) / 1000000) \<le> fl64 (of_int (?r b) / 1000000)"
      by (intro b64.rnd_divide_mono) simp_all
    with val(1) [of a] val(1) [of b] unit [of a] unit [of b] 4 assms show ?thesis
      by (simp add: num_le_Fin)
  qed
qed

lemma combine_mono:
  assumes "unit_weights w" "num_le lt lt'" "num_le pt pt'" "num_le qt qt'"
  shows "num_le (combine w lt pt qt) (combine w lt' pt' qt')"
proof -
  from assms(1) obtain a b c where w: "w_latency w = Fin a" "w_price w = Fin b" "w_quality w = Fin c"
      "0 \<le> a" "a \<le> 1" "0 \<le> b" "b \<le> 1" "0 \<le> c" "c \<le> 1"
    by (auto simp: unit_weights_def unit_num_iff)
  have mul: "js_mul (Fin k) (Fin x) = Fin (fl64 (k * x))" "0 \<le> fl64 (k * x)" "fl64 (k * x) \<le> 1"
    if "0 \<le> k" "k \<le> 1" "0 \<le> x" "x \<le> 1" for k x
    using that b64.rnd_unit [of "k * x"] by (simp_all add: js_of_rat_unit mult_le_one)
  have add1: "js_add (Fin x) (Fin y) = Fin (fl64 (x + y))" "0 \<le> fl64 (x + y)" "fl64 (x + y) \<le> 2"
    if "0 \<le> x" "x \<le> 1" "0 \<le> y" "y \<le> 1" for x y
    using that js_of_rat_small [of "x + y" 2] b64.rnd_le_int [of "x + y" 2] by (simp_all add: b64.rnd_nonneg)
  have add2: "js_add (Fin x) (Fin y) = Fin (fl64 (x + y))" if "0 \<le> x" "x \<le> 2" "0 \<le> y" "y \<le> 1" for x y
    using that js_of_rat_small [of "x + y" 3] by simp
  have val: "combine w (Fin x) (Fin y) (Fin z) =
      clamp01 (Fin (fl64 (fl64 (fl64 (a * x) + fl64 (b * y)) + fl64 (c * z))))"
    if "0 \<le> x" "x \<le> 1" "0 \<le> y" "y \<le> 1" "0 \<le> z" "z \<le> 1" for x y z
  proof -
    have m: "js_mul (Fin a) (Fin x) = Fin (fl64 (a * x))" "js_mul (Fin b) (Fin y) = Fin (fl64 (b * y))"
      "js_mul (Fin c) (Fin z) = Fin (fl64 (c * z))"
      using that w by (intro mul(1); simp)+
    have "js_add (Fin (fl64 (a * x))) (Fin (fl64 (b * y))) = Fin (fl64 (fl64 (a * x) + fl64 (b * y)))"
      using that w by (intro add1(1) mul(2,3))
    moreover have "js_add (Fin (fl64 (fl64 (a * x) + fl64 (b * y)))) (Fin (fl64 (c * z)))
        = Fin (fl64 (fl64 (fl64 (a * x) + fl64 (b * y)) + fl64 (c * z)))"
      using that w by (intro add2 add1(2,3) mul(2,3))
    ultimately show ?thesis by (simp only: combine_def w m)
  qed
  from assms(2-4) obtain x x' y y' z z' where "lt = Fin x" "lt' = Fin x'" "pt = Fin y" "pt' = Fin y'"
      "qt = Fin z" "qt' = Fin z'" and o: "0 \<le> x" "x \<le> x'" "x' \<le> 1" "0 \<le> y" "y \<le> y'" "y' \<le> 1"
      "0 \<le> z" "z \<le> z'" "z' \<le> 1"
    by (auto simp: num_le_Fin)
  moreover have "fl64 (fl64 (fl64 (a * x) + fl64 (b * y)) + fl64 (c * z))
      \<le> fl64 (fl64 (fl64 (a * x') + fl64 (b * y')) + fl64 (c * z'))"
    using o w by (intro b64.rnd_add_mono b64.rnd_mult_mono)
  ultimately show ?thesis using val [of x y z] val [of x' y' z'] by (simp add: clamp01_mono)
qed

subsection \<open>The score\<close>

definition ctx_weights :: "score_context \<Rightarrow> score_weights" where
  "ctx_weights ctx = (case sc_weights ctx of None \<Rightarrow> DEFAULT_WEIGHTS | Some w \<Rightarrow> w)"

lemma scoreNode_ctx: "scoreNode n ctx = bind_res (normalizeWeights (ctx_weights ctx))
    (\<lambda>w. Inr (combine w (latency_term n ctx) (price_term n ctx) (quality_term n)))"
  by (simp add: scoreNode_def ctx_weights_def)

lemma combine_unit [simp]: "unit_num (combine w lt pt qt)"
  by (simp add: combine_def)

lemma scoreNode_unit: "scoreNode n ctx = Inr v \<Longrightarrow> unit_num v"
  by (auto simp: scoreNode_ctx bind_res_Inr_iff)

lemma scoreNode_ok: "good_weights (ctx_weights ctx) \<Longrightarrow> \<exists>v. scoreNode n ctx = Inr v"
  using normalizeWeights_unit [of "ctx_weights ctx"] by (auto simp: scoreNode_ctx)

lemma price_term_mono:
  assumes "nodePriceAtomic a (sc_model ctx) = Some pa" "nodePriceAtomic b (sc_model ctx) = Some pb" "pb \<le> pa"
  shows "num_le (price_term a ctx) (price_term b ctx)"
  using assms by (simp add: price_term_def complement_antimono normalizeAtomic_mono)

lemma latency_term_mono:
  assumes "sc_minLatencyMs ctx = Fin lo" "sc_maxLatencyMs ctx = Fin hi"
    and "h_latencyMsP95 (n_health a) = Fin la" "h_latencyMsP95 (n_health b) = Fin lb"
    and "lo \<le> lb" "lb \<le> la" "la \<le> hi"
  shows "num_le (latency_term a ctx) (latency_term b ctx)"
  using assms by (simp add: latency_term_def complement_antimono normalizeNumber_mono)

lemma DEFAULT_WEIGHTS_good: "good_weights DEFAULT_WEIGHTS"
proof -
  have v: "js_of_rat (2/5) = Fin (fl64 (2/5))" "js_of_rat (3/10) = Fin (fl64 (3/10))"
    by (simp_all add: js_of_rat_unit)
  have "\<not> js_le (weight_total DEFAULT_WEIGHTS) (Fin 0)" by code_simp
  moreover have "0 \<le> fl64 (2/5)" "0 \<le> fl64 (3/10)" by (simp_all add: b64.rnd_nonneg)
  ultimately show ?thesis
    by (simp add: good_weights_def DEFAULT_WEIGHTS_def v bad_weight_def is_double_def)
qed

end
