(* ===== verification/Selector.thy ===== *)
theory Selector
  imports Score "HOL-Library.List_Lexorder" "HOL-Library.Multiset"
begin

section \<open>Routability and selection (packages/registry/src/selector)\<close>

text \<open>
  \<open>routable.ts\<close> and \<open>selector/index.ts\<close>. The loop over the stored records is a classification of
  each record (\<open>classify\<close>, one branch per \<open>continue\<close>), a tally of the rejections and the list of the
  eligible ones. The clock is read once per selection and the random draw is an argument. The
  human-readable \<open>reason\<close> string of a selection is not modelled.
\<close>

subsection \<open>Routability\<close>

datatype unroutable_reason = UWrongNetwork | UStale | UUnhealthy | UNotOptedIn

record routability_options =
  ro_network :: "string option"
  ro_staleAfterMs :: "jsnum option"
  ro_now :: jsnum

definition wrong_network :: "string option \<Rightarrow> node_record \<Rightarrow> bool" where
  "wrong_network net r \<longleftrightarrow> (case net of None \<Rightarrow> False | Some w \<Rightarrow> r_network (n_registration r) \<noteq> w)"

definition is_stale :: "jsnum option \<Rightarrow> jsnum \<Rightarrow> node_record \<Rightarrow> bool" where
  "is_stale bound now r \<longleftrightarrow>
     (case bound of None \<Rightarrow> False | Some d \<Rightarrow> js_less d (js_sub now (h_lastSeenAt (n_health r))))"

definition unroutableReason :: "node_record \<Rightarrow> routability_options \<Rightarrow> unroutable_reason option" where
  "unroutableReason r opts =
     (if wrong_network (ro_network opts) r then Some UWrongNetwork
      else if is_stale (ro_staleAfterMs opts) (ro_now opts) r then Some UStale
      else if \<not> h_healthy (n_health r) then Some UUnhealthy
      else if \<not> n_usdcOptedIn r then Some UNotOptedIn
      else None)"

definition isRoutable :: "node_record \<Rightarrow> routability_options \<Rightarrow> bool" where
  "isRoutable r opts \<longleftrightarrow> unroutableReason r opts = None"

subsection \<open>The eligibility filter\<close>

datatype rejection =
    RExcluded | RWrongNetwork | RStale | RUnhealthy | RWrongModel | RNotOptedIn | RSaturated | RUnpriceable

record rejection_tally =
  t_wrongNetwork :: nat
  t_stale :: nat
  t_unhealthy :: nat
  t_wrongModel :: nat
  t_notOptedIn :: nat
  t_saturated :: nat
  t_excluded :: nat
  t_unpriceable :: nat

record selector =
  sel_weights :: score_weights
  sel_weightFloor :: jsnum
  sel_network :: "string option"
  sel_staleAfterMs :: "jsnum option"

definition DEFAULT_WEIGHT_FLOOR :: jsnum where
  "DEFAULT_WEIGHT_FLOOR = js_of_rat (5/100)"

definition make_selector ::
  "string option \<Rightarrow> jsnum option \<Rightarrow> score_weights option \<Rightarrow> jsnum option \<Rightarrow> selector" where
  "make_selector network staleAfterMs weights weightFloor =
     (let flr = (case weightFloor of None \<Rightarrow> DEFAULT_WEIGHT_FLOOR | Some f \<Rightarrow> f)
      in \<lparr>sel_weights = (case weights of None \<Rightarrow> DEFAULT_WEIGHTS | Some w \<Rightarrow> w),
          sel_weightFloor = (if isFinite flr \<and> js_less (Fin 0) flr then flr else DEFAULT_WEIGHT_FLOOR),
          sel_network = network, sel_staleAfterMs = staleAfterMs\<rparr>)"

definition serves_model :: "string \<Rightarrow> node_record \<Rightarrow> bool" where
  "serves_model model r \<longleftrightarrow>
     list_ex (\<lambda>c. normalizeModelId (c_model c) = normalizeModelId model) (r_capabilities (n_registration r))"

definition classify :: "selector \<Rightarrow> jsnum \<Rightarrow> string list \<Rightarrow> string \<Rightarrow> node_record \<Rightarrow> rejection + int" where
  "classify cfg now excluded model r =
     (if n_nodeId r \<in> set excluded then Inl RExcluded
      else if wrong_network (sel_network cfg) r then Inl RWrongNetwork
      else if is_stale (sel_staleAfterMs cfg) now r then Inl RStale
      else if \<not> h_healthy (n_health r) then Inl RUnhealthy
      else if \<not> serves_model model r then Inl RWrongModel
      else if \<not> n_usdcOptedIn r then Inl RNotOptedIn
      else if h_maxConcurrency (n_health r) \<le> h_inFlight (n_health r) then Inl RSaturated
      else (case nodePriceAtomic r model of None \<Rightarrow> Inl RUnpriceable | Some p \<Rightarrow> Inr p))"

fun bump_tally :: "rejection \<Rightarrow> rejection_tally \<Rightarrow> rejection_tally" where
  "bump_tally RExcluded t = t\<lparr>t_excluded := t_excluded t + 1\<rparr>"
| "bump_tally RWrongNetwork t = t\<lparr>t_wrongNetwork := t_wrongNetwork t + 1\<rparr>"
| "bump_tally RStale t = t\<lparr>t_stale := t_stale t + 1\<rparr>"
| "bump_tally RUnhealthy t = t\<lparr>t_unhealthy := t_unhealthy t + 1\<rparr>"
| "bump_tally RWrongModel t = t\<lparr>t_wrongModel := t_wrongModel t + 1\<rparr>"
| "bump_tally RNotOptedIn t = t\<lparr>t_notOptedIn := t_notOptedIn t + 1\<rparr>"
| "bump_tally RSaturated t = t\<lparr>t_saturated := t_saturated t + 1\<rparr>"
| "bump_tally RUnpriceable t = t\<lparr>t_unpriceable := t_unpriceable t + 1\<rparr>"

definition tally_zero :: rejection_tally where
  "tally_zero = \<lparr>t_wrongNetwork = 0, t_stale = 0, t_unhealthy = 0, t_wrongModel = 0, t_notOptedIn = 0,
     t_saturated = 0, t_excluded = 0, t_unpriceable = 0\<rparr>"

definition tally_total :: "rejection_tally \<Rightarrow> nat" where
  "tally_total t = t_wrongNetwork t + t_stale t + t_unhealthy t + t_wrongModel t + t_notOptedIn t
     + t_saturated t + t_excluded t + t_unpriceable t"

fun filter_records ::
  "selector \<Rightarrow> jsnum \<Rightarrow> string list \<Rightarrow> string \<Rightarrow> node_record list \<Rightarrow>
   (node_record \<times> int) list \<times> rejection_tally \<Rightarrow> (node_record \<times> int) list \<times> rejection_tally" where
  "filter_records cfg now excluded model [] acc = acc"
| "filter_records cfg now excluded model (r # rs) (el, t) =
     (case classify cfg now excluded model r of
        Inl why \<Rightarrow> filter_records cfg now excluded model rs (el, bump_tally why t)
      | Inr p \<Rightarrow> filter_records cfg now excluded model rs (el @ [(r, p)], t))"

subsection \<open>Scoring and the weighted draw\<close>

record candidate =
  cand_record :: node_record
  cand_price :: int
  cand_score :: jsnum

definition min_latency :: "(node_record \<times> int) list \<Rightarrow> jsnum" where
  "min_latency el = foldl (\<lambda>m (r, p). let l = h_latencyMsP95 (n_health r) in if js_less l m then l else m) PosInf el"

definition max_latency :: "(node_record \<times> int) list \<Rightarrow> jsnum" where
  "max_latency el = foldl (\<lambda>m (r, p). let l = h_latencyMsP95 (n_health r) in if js_less m l then l else m) NegInf el"

definition min_price :: "(node_record \<times> int) list \<Rightarrow> int option" where
  "min_price el = foldl (\<lambda>m (r, p). case m of None \<Rightarrow> Some p | Some q \<Rightarrow> if p < q then Some p else m) None el"

definition max_price :: "(node_record \<times> int) list \<Rightarrow> int option" where
  "max_price el = foldl (\<lambda>m (r, p). case m of None \<Rightarrow> Some p | Some q \<Rightarrow> if q < p then Some p else m) None el"

definition select_context :: "selector \<Rightarrow> string \<Rightarrow> (node_record \<times> int) list \<Rightarrow> score_context" where
  "select_context cfg model el =
     \<lparr>sc_model = model, sc_minLatencyMs = min_latency el, sc_maxLatencyMs = max_latency el,
      sc_minPriceAtomic = (case min_price el of None \<Rightarrow> 0 | Some p \<Rightarrow> p),
      sc_maxPriceAtomic = (case max_price el of None \<Rightarrow> 0 | Some p \<Rightarrow> p),
      sc_weights = Some (sel_weights cfg)\<rparr>"

definition score_candidates ::
  "score_context \<Rightarrow> (node_record \<times> int) list \<Rightarrow> candidate list res" where
  "score_candidates ctx el = map_res (\<lambda>(r, p). bind_res (scoreNode r ctx)
     (\<lambda>v. Inr \<lparr>cand_record = r, cand_price = p, cand_score = v\<rparr>)) el"

definition draw_weight :: "jsnum \<Rightarrow> candidate \<Rightarrow> jsnum" where
  "draw_weight flr c = js_add (if isFinite (cand_score c) then cand_score c else Fin 0) flr"

fun weighted_walk :: "jsnum \<Rightarrow> jsnum \<Rightarrow> candidate list \<Rightarrow> candidate option" where
  "weighted_walk flr threshold [] = None"
| "weighted_walk flr threshold (c # cs) =
     (let t = js_sub threshold (draw_weight flr c)
      in if js_less t (Fin 0) then Some c else weighted_walk flr t cs)"

definition unit_draw :: "jsnum \<Rightarrow> jsnum" where
  "unit_draw draw = (if isFinite draw then js_min (Fin 1) (js_max (Fin 0) draw) else Fin 0)"

definition weightedChoice :: "jsnum \<Rightarrow> jsnum \<Rightarrow> candidate list \<Rightarrow> candidate res" where
  "weightedChoice flr draw cs =
     (let total = foldl (\<lambda>s c. js_add s (draw_weight flr c)) (Fin 0) cs
      in case weighted_walk flr (js_mul (unit_draw draw) total) cs of
           Some c \<Rightarrow> Inr c
         | None \<Rightarrow> if cs = []
             then throw NoCapacityErr ''weighted selection was called with an empty candidate set''
             else Inr (last cs))"

definition no_node_message :: "string \<Rightarrow> string" where
  "no_node_message model = ''no healthy node can serve model '' @ [CHR 0x22] @ model @ [CHR 0x22]"

record node_selection =
  ns_node :: node_record
  ns_score :: jsnum

text \<open>
  \<open>eligible.sort((a, b) => a.nodeId < b.nodeId ? -1 : 1)\<close>: ascending by code units; node ids in a
  store are distinct. A failed selection reports the tally next to the error.
\<close>

definition select ::
  "selector \<Rightarrow> jsnum \<Rightarrow> jsnum \<Rightarrow> node_record list \<Rightarrow> string \<Rightarrow> string list \<Rightarrow>
   (exn \<times> rejection_tally) + node_selection" where
  "select cfg now draw records model excluded =
     (case filter_records cfg now excluded model records ([], tally_zero) of (el, tally) \<Rightarrow>
        if el = [] then Inl (Exn NoCapacityErr (no_node_message model), tally)
        else (let sorted_el = sort_key (\<lambda>(r, p). n_nodeId r) el;
                  ctx = select_context cfg model sorted_el
              in case bind_res (score_candidates ctx sorted_el) (weightedChoice (sel_weightFloor cfg) draw) of
                   Inl e \<Rightarrow> Inl (e, tally)
                 | Inr c \<Rightarrow> Inr \<lparr>ns_node = cand_record c, ns_score = cand_score c\<rparr>))"

subsection \<open>What the filter computes\<close>

definition is_eligible :: "selector \<Rightarrow> jsnum \<Rightarrow> string list \<Rightarrow> string \<Rightarrow> node_record \<Rightarrow> bool" where
  "is_eligible cfg now excluded model r \<longleftrightarrow> isOk (case classify cfg now excluded model r of
     Inl _ \<Rightarrow> throw NoCapacityErr [] | Inr p \<Rightarrow> Inr p)"

lemma is_eligible_iff: "is_eligible cfg now excluded model r \<longleftrightarrow> (\<exists>p. classify cfg now excluded model r = Inr p)"
  by (cases "classify cfg now excluded model r") (simp_all add: is_eligible_def)

text \<open>Every guard of the loop, read off an eligible record.\<close>

lemma classify_Inr:
  assumes "classify cfg now excluded model r = Inr p"
  shows "n_nodeId r \<notin> set excluded" "\<not> wrong_network (sel_network cfg) r"
    "\<not> is_stale (sel_staleAfterMs cfg) now r" "h_healthy (n_health r)" "serves_model model r"
    "n_usdcOptedIn r" "h_inFlight (n_health r) < h_maxConcurrency (n_health r)"
    "nodePriceAtomic r model = Some p"
  using assms by (auto simp: classify_def not_le split: if_splits option.splits)

definition eligible_pairs ::
  "selector \<Rightarrow> jsnum \<Rightarrow> string list \<Rightarrow> string \<Rightarrow> node_record list \<Rightarrow> (node_record \<times> int) list" where
  "eligible_pairs cfg now excluded model rs =
     map (\<lambda>r. (r, case nodePriceAtomic r model of None \<Rightarrow> 0 | Some p \<Rightarrow> p))
       (filter (is_eligible cfg now excluded model) rs)"

fun tally_get :: "rejection \<Rightarrow> rejection_tally \<Rightarrow> nat" where
  "tally_get RExcluded t = t_excluded t"
| "tally_get RWrongNetwork t = t_wrongNetwork t"
| "tally_get RStale t = t_stale t"
| "tally_get RUnhealthy t = t_unhealthy t"
| "tally_get RWrongModel t = t_wrongModel t"
| "tally_get RNotOptedIn t = t_notOptedIn t"
| "tally_get RSaturated t = t_saturated t"
| "tally_get RUnpriceable t = t_unpriceable t"

lemma tally_get_bump: "tally_get why (bump_tally w t) = tally_get why t + (if why = w then 1 else 0)"
  by (cases w; cases why) simp_all

lemma tally_total_bump: "tally_total (bump_tally w t) = Suc (tally_total t)"
  by (cases w) (simp_all add: tally_total_def)

lemma tally_eqI: "(\<And>why. tally_get why t = tally_get why t') \<Longrightarrow> t = t'"
proof -
  assume a: "\<And>why. tally_get why t = tally_get why t'"
  show "t = t'"
    using a [of RExcluded] a [of RWrongNetwork] a [of RStale] a [of RUnhealthy] a [of RWrongModel]
      a [of RNotOptedIn] a [of RSaturated] a [of RUnpriceable] by simp
qed

lemma filter_records_fst:
  "fst (filter_records cfg now excluded model rs (el, t)) = el @ eligible_pairs cfg now excluded model rs"
proof (induction rs arbitrary: el t)
  case Nil
  then show ?case by (simp add: eligible_pairs_def)
next
  case (Cons r rs)
  then show ?case
    by (cases "classify cfg now excluded model r")
      (simp_all add: eligible_pairs_def is_eligible_def classify_Inr(8))
qed

lemma filter_records_tally:
  "tally_get why (snd (filter_records cfg now excluded model rs (el, t))) =
     tally_get why t + length (filter (\<lambda>r. classify cfg now excluded model r = Inl why) rs)"
  by (induction rs arbitrary: el t) (auto simp: tally_get_bump split: sum.split)

lemma filter_records_total:
  "length (fst (filter_records cfg now excluded model rs (el, t)))
     + tally_total (snd (filter_records cfg now excluded model rs (el, t)))
   = length el + tally_total t + length rs"
  by (induction rs arbitrary: el t) (auto simp: tally_total_bump split: sum.split)

subsection \<open>The draw\<close>

lemma weighted_walk_mem: "weighted_walk flr t cs = Some c \<Longrightarrow> c \<in> set cs"
  by (induction cs arbitrary: t) (auto simp: Let_def split: if_splits)

lemma weightedChoice_mem: "weightedChoice flr draw cs = Inr c \<Longrightarrow> c \<in> set cs"
  by (auto simp: weightedChoice_def Let_def dest: weighted_walk_mem split: option.splits if_splits)

lemma weightedChoice_ok: "cs \<noteq> [] \<Longrightarrow> \<exists>c. weightedChoice flr draw cs = Inr c"
  by (auto simp: weightedChoice_def Let_def split: option.splits)

lemma score_candidates_records:
  "score_candidates ctx el = Inr cs \<Longrightarrow> map cand_record cs = map fst el"
proof (induction el arbitrary: cs)
  case (Cons p el)
  then show ?case by (cases p) (auto simp: score_candidates_def bind_res_Inr_iff)
qed (simp add: score_candidates_def)

lemma score_candidates_unit:
  "score_candidates ctx el = Inr cs \<Longrightarrow> c \<in> set cs \<Longrightarrow> unit_num (cand_score c)"
proof (induction el arbitrary: cs)
  case (Cons p el)
  obtain r q where p: "p = (r, q)" by (cases p)
  with Cons.prems(1) obtain v cs' where v: "scoreNode r ctx = Inr v" "score_candidates ctx el = Inr cs'"
      "cs = \<lparr>cand_record = r, cand_price = q, cand_score = v\<rparr> # cs'"
    by (auto simp: score_candidates_def bind_res_Inr_iff)
  with scoreNode_unit [OF v(1)] Cons.IH [OF v(2)] Cons.prems(2) show ?case by auto
qed (simp add: score_candidates_def)

lemma score_candidates_ok:
  assumes "good_weights (ctx_weights ctx)"
  shows "\<exists>cs. score_candidates ctx el = Inr cs"
proof (induction el)
  case (Cons p el)
  obtain r q where p: "p = (r, q)" by (cases p)
  obtain v where "scoreNode r ctx = Inr v" using scoreNode_ok [OF assms] by blast
  with Cons p show ?case by (auto simp: score_candidates_def)
qed (simp add: score_candidates_def)

subsection \<open>Selection\<close>

lemma select_eq:
  "select cfg now draw rs model excluded =
     (let el = eligible_pairs cfg now excluded model rs;
          tally = snd (filter_records cfg now excluded model rs ([], tally_zero))
      in if el = [] then Inl (Exn NoCapacityErr (no_node_message model), tally)
         else case bind_res (score_candidates (select_context cfg model (sort_key (\<lambda>(r, p). n_nodeId r) el))
                    (sort_key (\<lambda>(r, p). n_nodeId r) el)) (weightedChoice (sel_weightFloor cfg) draw) of
                Inl e \<Rightarrow> Inl (e, tally)
              | Inr c \<Rightarrow> Inr \<lparr>ns_node = cand_record c, ns_score = cand_score c\<rparr>)"
  using filter_records_fst [of cfg now excluded model rs "[]" tally_zero]
  by (cases "filter_records cfg now excluded model rs ([], tally_zero)") (simp add: select_def Let_def)

lemma select_Inr:
  assumes "select cfg now draw rs model excluded = Inr s"
  shows "ns_node s \<in> set rs" "is_eligible cfg now excluded model (ns_node s)" "unit_num (ns_score s)"
proof -
  let ?el = "sort_key (\<lambda>(r, p). n_nodeId r) (eligible_pairs cfg now excluded model rs)"
  obtain cs c where cs: "score_candidates (select_context cfg model ?el) ?el = Inr cs"
      and c: "weightedChoice (sel_weightFloor cfg) draw cs = Inr c"
      and s: "s = \<lparr>ns_node = cand_record c, ns_score = cand_score c\<rparr>"
    using assms by (auto simp: select_eq Let_def bind_res_def split: if_splits sum.splits)
  have "cand_record c \<in> set (map cand_record cs)" using weightedChoice_mem [OF c] by simp
  then have "cand_record c \<in> fst ` set (eligible_pairs cfg now excluded model rs)"
    unfolding score_candidates_records [OF cs] by simp
  then show "ns_node s \<in> set rs" "is_eligible cfg now excluded model (ns_node s)"
    by (auto simp: s eligible_pairs_def)
  show "unit_num (ns_score s)"
    using score_candidates_unit [OF cs weightedChoice_mem [OF c]] by (simp add: s)
qed

lemma select_ok:
  assumes "good_weights (sel_weights cfg)" "r \<in> set rs" "is_eligible cfg now excluded model r"
  shows "\<exists>s. select cfg now draw rs model excluded = Inr s"
proof -
  let ?el = "sort_key (\<lambda>(r, p). n_nodeId r) (eligible_pairs cfg now excluded model rs)"
  have ne: "eligible_pairs cfg now excluded model rs \<noteq> []"
    using assms(2,3) by (auto simp: eligible_pairs_def filter_empty_conv)
  have "good_weights (ctx_weights (select_context cfg model ?el))"
    using assms(1) by (simp add: select_context_def ctx_weights_def)
  then obtain cs where cs: "score_candidates (select_context cfg model ?el) ?el = Inr cs"
    using score_candidates_ok by blast
  have "cs \<noteq> []"
    using score_candidates_records [OF cs] ne by (metis list.map_disc_iff mset.simps(1) mset_sort mset_zero_iff)
  then obtain c where "weightedChoice (sel_weightFloor cfg) draw cs = Inr c" using weightedChoice_ok by blast
  with ne cs show ?thesis by (simp add: select_eq Let_def)
qed

lemma select_none:
  assumes "\<And>r. r \<in> set rs \<Longrightarrow> \<not> is_eligible cfg now excluded model r"
  shows "\<exists>t. select cfg now draw rs model excluded =
    Inl (Exn NoCapacityErr (no_node_message model), t)
    \<and> tally_total t = length rs"
proof -
  have e: "eligible_pairs cfg now excluded model rs = []"
    using assms by (simp add: eligible_pairs_def filter_empty_conv)
  then have "tally_total (snd (filter_records cfg now excluded model rs ([], tally_zero))) = length rs"
    using filter_records_total [of cfg now excluded model rs "[]" tally_zero]
      filter_records_fst [of cfg now excluded model rs "[]" tally_zero]
    by (simp add: tally_total_def tally_zero_def)
  with e show ?thesis by (simp add: select_eq Let_def)
qed

lemma eligible_pairs_perm:
  assumes "mset rs = mset rs'" "distinct (map n_nodeId rs)"
  shows "sort_key (\<lambda>(r, p). n_nodeId r) (eligible_pairs cfg now excluded model rs) =
    sort_key (\<lambda>(r, p). n_nodeId r) (eligible_pairs cfg now excluded model rs')"
proof (rule sort_key_inj_key_eq)
  show "mset (eligible_pairs cfg now excluded model rs) =
      mset (sort_key (\<lambda>(r, p). n_nodeId r) (eligible_pairs cfg now excluded model rs'))"
    using assms(1) by (simp add: eligible_pairs_def)
  show "inj_on (\<lambda>(r, p). n_nodeId r) (set (eligible_pairs cfg now excluded model rs))"
    using assms(2) by (auto simp: eligible_pairs_def inj_on_def distinct_map)
  show "sorted (map (\<lambda>(r, p). n_nodeId r)
      (sort_key (\<lambda>(r, p). n_nodeId r) (eligible_pairs cfg now excluded model rs')))"
    by (rule sorted_sort_key)
qed

lemma tally_perm:
  assumes "mset rs = mset rs'"
  shows "snd (filter_records cfg now excluded model rs ([], tally_zero)) =
    snd (filter_records cfg now excluded model rs' ([], tally_zero))"
  using mset_eq_length [OF arg_cong [OF assms, of "filter_mset P" for P, folded mset_filter]]
  by (intro tally_eqI) (simp add: filter_records_tally)

end
