(* ===== verification/RegistryProps.thy ===== *)
theory RegistryProps
  imports Selector
begin

section \<open>Properties of the registry: health, store, score, selection\<close>

text \<open>Claims about packages/registry/src, each with a witness on a concrete two-node market.\<close>

subsection \<open>Histories of the in-memory store\<close>

datatype store_op =
    Upsert node_record | Remove string | Outcome string request_outcome | Begin string | EndReq string

fun apply_op :: "store_op \<Rightarrow> mem_store \<Rightarrow> mem_store" where
  "apply_op (Upsert r) s = mem_upsert r s"
| "apply_op (Remove k) s = mem_remove k s"
| "apply_op (Outcome k ou) s = mem_recordOutcome k ou s"
| "apply_op (Begin k) s = mem_beginRequest k s"
| "apply_op (EndReq k) s = mem_endRequest k s"

definition run_ops :: "store_op list \<Rightarrow> mem_store \<Rightarrow> mem_store" where
  "run_ops ops s = foldl (\<lambda>s p. apply_op p s) s ops"

text \<open>A registration enters the store with a non-negative in-flight count (the gateway writes 0).\<close>

fun op_ok :: "store_op \<Rightarrow> bool" where
  "op_ok (Upsert r) = (0 \<le> in_flight r)"
| "op_ok _ = True"

lemma run_ops_simps [simp]:
  "run_ops [] s = s" "run_ops (p # ps) s = run_ops ps (apply_op p s)"
  "run_ops (ps @ qs) s = run_ops qs (run_ops ps s)"
  by (simp_all add: run_ops_def)

lemma mem_inv_apply: "op_ok p \<Longrightarrow> mem_inv s \<Longrightarrow> mem_inv (apply_op p s)"
  by (cases p) (auto intro: inv_intros)

lemma mem_inv_run: "list_all op_ok ps \<Longrightarrow> mem_inv s \<Longrightarrow> mem_inv (run_ops ps s)"
  by (induction ps arbitrary: s) (simp_all add: mem_inv_apply)

lemma window_upsert [simp]: "window_of (mem_upsert r s) k = window_of s k"
  by (auto simp: window_of_def mem_upsert_def Let_def jget_jset jhas_iff split: option.splits)

lemma window_begin [simp]: "window_of (mem_beginRequest k' s) k = window_of s k"
  by (auto simp: window_of_def mem_beginRequest_def split: option.splits)

lemma window_end [simp]: "window_of (mem_endRequest k' s) k = window_of s k"
  by (auto simp: window_of_def mem_endRequest_def split: option.splits)

lemma window_outcome:
  "window_of (mem_recordOutcome k' ou s) k =
    (if k = k' \<and> jhas (m_records s) k then push_window (window_of s k) ou else window_of s k)"
  by (auto simp: window_of_def mem_recordOutcome_def Let_def jget_jset jhas_iff split: option.splits)

lemma window_remove [simp]: "k \<noteq> k' \<Longrightarrow> window_of (mem_remove k' s) k = window_of s k"
  by (simp add: window_of_def mem_remove_def jget_jdel)

lemma mem_get_window:
  assumes "mem_inv s" "mem_get s k = Some r"
  shows "jget (m_windows s) k = Some (window_of s k)" "window_ok (window_of s k)"
    "derived_ok (n_health r) (window_of s k)"
proof -
  have r: "jget (m_records s) k = Some r" using assms(2) by (simp add: mem_get_def)
  from mem_inv_cell [OF assms(1), of k] show "jget (m_windows s) k = Some (window_of s k)"
    "window_ok (window_of s k)" "derived_ok (n_health r) (window_of s k)"
    unfolding r by (auto elim!: cell_ok_SomeE simp: window_of_def)
qed

subsection \<open>Health is what the gateway measured\<close>

text \<open>The reported health of a node is derived from observed outcomes. After any history of store
  operations, a registered node with at least one recorded outcome has a window of at most 100
  outcomes, its p50 and p95 are latencies that were observed in that window with p50 at most p95, its
  uptime and quality are in [0, 1], and its failure count is the streak at the end of the window.\<close>

theorem health_is_observed:
  assumes "list_all op_ok ops" "mem_get (run_ops ops mem_empty) k = Some r"
    and "window_of (run_ops ops mem_empty) k \<noteq> []"
  shows "let w = window_of (run_ops ops mem_empty) k; h = n_health r in
    length w \<le> 100 \<and> h_latencyMsP50 h \<in> set (map o_latencyMs w) \<and> h_latencyMsP95 h \<in> set (map o_latencyMs w)
    \<and> num_key (h_latencyMsP50 h) \<le> num_key (h_latencyMsP95 h)
    \<and> unit_num (h_uptimeRatio h) \<and> unit_num (h_qualityScore h)
    \<and> h_consecutiveFailures h = int (failure_streak w)"
proof -
  define w where "w = window_of (run_ops ops mem_empty) k"
  have inv: "mem_inv (run_ops ops mem_empty)" using assms(1) by (simp add: mem_inv_run)
  have ok: "window_ok w" "derived_ok (n_health r) w"
    using mem_get_window [OF inv assms(2)] by (simp_all add: w_def)
  have len: "length w \<le> 100" using ok(1) by (simp add: window_ok_def HEALTH_WINDOW_SIZE_def)
  have ne: "map o_latencyMs w \<noteq> []" "length (map o_latencyMs w) < 2 ^ 53 - 1"
    using assms(3) len by (simp_all add: w_def)
  have q: "0 \<le> fl64 (uptime w * penalty c)" for c
    using uptime_unit [of w] penalty_unit [of c] by (simp add: b64.rnd_nonneg)
  show ?thesis
    using ok(2) assms(3) len percentile_observed [OF ne, of 50] percentile_observed [OF ne, of 95]
      percentile_mono [OF ne, of 50 95] uptime_unit [of w] q quality_le_uptime
    unfolding w_def [symmetric] Let_def by (simp add: derived_ok_def unit_num_iff)
qed

fun no_relief :: "string \<Rightarrow> store_op \<Rightarrow> bool" where
  "no_relief k (Outcome k' ou) = (k' = k \<longrightarrow> \<not> o_success ou)"
| "no_relief k (Remove k') = (k' \<noteq> k)"
| "no_relief k _ = True"

lemma records_outcome [simp]: "jhas (m_records (mem_recordOutcome k' ou s)) k = jhas (m_records s) k"
  by (auto simp: mem_recordOutcome_def Let_def jget_jset jhas_iff split: option.splits if_splits)

lemma records_kept: "no_relief k p \<Longrightarrow> jhas (m_records s) k \<Longrightarrow> jhas (m_records (apply_op p s)) k"
  by (cases p) (auto simp: mem_recordOutcome_def mem_upsert_def mem_remove_def mem_beginRequest_def mem_endRequest_def Let_def
    jget_jset jget_jdel jhas_iff split: option.splits)

fun outcome_of :: "string \<Rightarrow> store_op \<Rightarrow> bool" where
  "outcome_of k (Outcome k' ou) = (k' = k)"
| "outcome_of k _ = False"

text \<open>Each failed outcome lengthens the streak, and nothing between two of them shortens it.\<close>

lemma streak_step:
  assumes "no_relief k p" "jhas (m_records s) k"
  shows "min 3 (failure_streak (window_of s k) + (if outcome_of k p then 1 else 0))
    \<le> failure_streak (window_of (apply_op p s) k)"
  using assms by (cases p) (auto simp: window_outcome failure_streak_push HEALTH_WINDOW_SIZE_def)

lemma streak_run:
  assumes "list_all (no_relief k) ps" "jhas (m_records s) k"
  shows "min 3 (failure_streak (window_of s k) + length (filter (outcome_of k) ps))
    \<le> failure_streak (window_of (run_ops ps s) k)"
  using assms
proof (induction ps arbitrary: s)
  case (Cons p ps)
  then have p: "no_relief k p" by simp
  from Cons.IH [of "apply_op p s"] Cons.prems records_kept [OF p Cons.prems(2)] streak_step [OF p Cons.prems(2)]
  show ?case by (auto simp: min_def split: if_splits)
qed simp

text \<open>C37: Operators cannot heal a tripped breaker. Take any stretch of store operations in which no
  request to the node succeeded and the node was not removed, and at least three outcomes of requests to
  it were recorded, with any re-registrations, heartbeat upserts, begun and ended requests and operations
  on other nodes before, between and after those three: at its end the node is unhealthy. Only a
  successful request to it (or its removal) can change that.\<close>

theorem breaker_stays_open:
  assumes "list_all op_ok (before @ during)" "mem_get (run_ops before mem_empty) k \<noteq> None"
    and "list_all (no_relief k) during" "3 \<le> length (filter (outcome_of k) during)"
    and r: "mem_get (run_ops (before @ during) mem_empty) k = Some r"
  shows "\<not> h_healthy (n_health r)"
proof -
  let ?s = "run_ops before mem_empty" and ?ps = "before @ during"
  have "jhas (m_records ?s) k" using assms(2) by (simp add: mem_get_def jhas_iff)
  from streak_run [OF assms(3) this] assms(4)
  have "3 \<le> failure_streak (window_of (run_ops ?ps mem_empty) k)" by simp
  moreover from this have "window_of (run_ops ?ps mem_empty) k \<noteq> []" by auto
  moreover have "mem_inv (run_ops ?ps mem_empty)" using assms(1) by (intro mem_inv_run) auto
  from mem_get_window(3) [OF this r] have "derived_ok (n_health r) (window_of (run_ops ?ps mem_empty) k)" .
  ultimately show ?thesis by (auto simp: derived_ok_def)
qed

definition ex_node :: "string \<Rightarrow> node_record" where
  "ex_node k = \<lparr>n_registration = \<lparr>r_nodeId = k, r_operatorAddress = ''op'', r_endpoint = ''https://n'',
       r_capabilities = [\<lparr>c_model = ''m'', c_contextWindow = 8192, c_pricePer1kTokensUsdc = ''0.01'',
         c_quantization = None\<rparr>], r_network = ''net'', r_version = ''1'', r_timestamp = 1, r_nonce = ''x''\<rparr>,
     n_health = \<lparr>h_nodeId = k, h_healthy = True, h_latencyMsP50 = Fin 10, h_latencyMsP95 = Fin 20,
       h_inFlight = 0, h_maxConcurrency = 2, h_uptimeRatio = Fin 1, h_qualityScore = Fin 1,
       h_consecutiveFailures = 0, h_lastSeenAt = Fin 100\<rparr>,
     n_usdcOptedIn = True, n_totalRequests = 0, n_totalPaidAtomic = ''0'', n_registeredAt = 1\<rparr>"

definition ex_fail :: request_outcome where
  "ex_fail = \<lparr>o_success = False, o_latencyMs = Fin 30, o_at = Fin 200\<rparr>"

abbreviation "ex_outage \<equiv> [Upsert (ex_node ''a'')] @ [Begin ''a'', Outcome ''a'' ex_fail, EndReq ''a'', Upsert (ex_node ''a''), Outcome ''a'' ex_fail,
   Upsert (ex_node ''b''), Outcome ''a'' ex_fail, Upsert (ex_node ''a''), Begin ''a'']"

lemma ex_node_id [simp]: "n_nodeId (ex_node k) = k" "in_flight (ex_node k) = 0"
  by (simp_all add: ex_node_def)

lemma ex_fail_simps [simp]: "\<not> o_success ex_fail"
  by (simp add: ex_fail_def)

lemma mem_gets_empty [simp]: "mem_get mem_empty k = None" "jget (m_records mem_empty) k = None"
  by (simp_all add: mem_get_def mem_empty_def)

lemma window_empty [simp]: "window_of mem_empty k = []"
  by (simp add: window_of_def mem_empty_def)

lemma ex_outage_get: "\<exists>r. mem_get (run_ops ex_outage mem_empty) ''a'' = Some r"
  by (simp add: mem_get_begin mem_get_upsert mem_get_recordOutcome)

theorem health_is_observed_witness:
  "\<exists>r. mem_get (run_ops [Upsert (ex_node ''a''), Outcome ''a'' ex_fail] mem_empty) ''a'' = Some r
     \<and> h_consecutiveFailures (n_health r) = 1 \<and> unit_num (h_qualityScore (n_health r))"
proof -
  let ?ops = "[Upsert (ex_node ''a''), Outcome ''a'' ex_fail]"
  obtain r where r: "mem_get (run_ops ?ops mem_empty) ''a'' = Some r"
    by (simp add: mem_get_upsert mem_get_recordOutcome)
  have "jhas (m_records (mem_upsert (ex_node ''a'') mem_empty)) ''a''"
    using mem_get_upsert [of "ex_node ''a''" mem_empty "''a''"] by (auto simp: mem_get_def jhas_iff)
  then have w: "window_of (run_ops ?ops mem_empty) ''a'' = push_window [] ex_fail"
    by (simp add: window_outcome)
  have "list_all op_ok ?ops" by simp
  from health_is_observed [OF this r] have "h_consecutiveFailures (n_health r) = 1 \<and> unit_num (h_qualityScore (n_health r))"
    unfolding w by (simp add: Let_def failure_streak_push HEALTH_WINDOW_SIZE_def)
  with r show ?thesis by blast
qed

theorem breaker_stays_open_witness:
  "\<exists>r. mem_get (run_ops ex_outage mem_empty) ''a'' = Some r \<and> \<not> h_healthy (n_health r)"
proof -
  obtain r where r: "mem_get (run_ops ex_outage mem_empty) ''a'' = Some r" using ex_outage_get by blast
  from breaker_stays_open [OF _ _ _ _ r] r show ?thesis
    by (auto simp: mem_get_upsert)
qed

subsection \<open>What a registration may change\<close>

text \<open>A re-registration replaces what the operator declares and nothing the store measured. For a
  known node, an upsert takes the new registration, keeps the in-flight count and the first
  registration time, and never lowers the lifetime request count; other nodes are untouched.\<close>

theorem upsert_keeps_store_state:
  assumes "list_all op_ok ops" "mem_get (run_ops ops mem_empty) (n_nodeId r) = Some e"
  shows "(\<exists>r'. mem_get (mem_upsert r (run_ops ops mem_empty)) (n_nodeId r) = Some r'
      \<and> n_registration r' = n_registration r \<and> in_flight r' = in_flight e
      \<and> n_registeredAt r' = n_registeredAt e \<and> n_totalRequests e \<le> n_totalRequests r')
    \<and> (\<forall>k \<in> - {n_nodeId r}. mem_get (mem_upsert r (run_ops ops mem_empty)) k = mem_get (run_ops ops mem_empty) k)"
proof -
  have inv: "mem_inv (run_ops ops mem_empty)" using assms(1) by (simp add: mem_inv_run)
  from mem.get_upsert_old [OF inv assms(2)] mem.get_upsert_other [OF inv] show ?thesis by auto
qed

theorem upsert_keeps_store_state_witness:
  "\<exists>r'. mem_get (mem_upsert (ex_node ''a'') (run_ops [Upsert (ex_node ''a''), Begin ''a''] mem_empty)) ''a'' = Some r'
     \<and> in_flight r' = 1"
proof -
  have e: "mem_get (run_ops [Upsert (ex_node ''a''), Begin ''a''] mem_empty) (n_nodeId (ex_node ''a''))
      = Some (set_in_flight 1 (ex_node ''a''))"
    by (simp add: mem_get_begin mem_get_upsert mergeRecord_def)
  from upsert_keeps_store_state [OF _ e] show ?thesis by (auto simp: set_in_flight_def)
qed

text \<open>Request accounting brackets. For a registered node, \<open>beginRequest\<close>, a recorded outcome and
  \<open>endRequest\<close> leave the in-flight count as it was and count one more request; a begin and an end
  alone restore every record exactly; and an end without a begin leaves a count of zero at zero.\<close>

theorem request_bracket:
  assumes "list_all op_ok ops" "mem_get (run_ops ops mem_empty) k = Some e"
  shows "(\<exists>r'. mem_get (run_ops (ops @ [Begin k, Outcome k ou, EndReq k]) mem_empty) k = Some r'
      \<and> in_flight r' = in_flight e \<and> n_totalRequests r' = n_totalRequests e + 1)
    \<and> mem_get (run_ops (ops @ [Begin k, EndReq k]) mem_empty) = mem_get (run_ops ops mem_empty)
    \<and> (if in_flight e = 0 then mem_get (run_ops (ops @ [EndReq k]) mem_empty) k = Some e else 0 < in_flight e)"
proof -
  have inv: "mem_inv (run_ops ops mem_empty)" using assms(1) by (simp add: mem_inv_run)
  show ?thesis
    using mem.bracket_with_outcome [OF inv assms(2), of ou] mem.bracket_balanced [OF inv, of k]
      mem.unpaired_end_saturates [OF inv assms(2)] mem.get_in_flight [OF inv assms(2)]
    by simp
qed

theorem request_bracket_witness:
  "\<exists>r'. mem_get (run_ops [Upsert (ex_node ''a''), Begin ''a'', Outcome ''a'' ex_fail, EndReq ''a''] mem_empty) ''a'' = Some r'
     \<and> in_flight r' = 0 \<and> n_totalRequests r' = 1"
proof -
  have "mem_get (run_ops [Upsert (ex_node ''a'')] mem_empty) ''a'' = Some (ex_node ''a'')"
    by (simp add: mem_get_upsert mergeRecord_def)
  from request_bracket [OF _ this, of ex_fail] show ?thesis by (auto simp: ex_node_def)
qed

end
