(* ===== verification/MarketProps.thy ===== *)
theory MarketProps
  imports Pricing
begin

section \<open>Properties of money, pricing and the error surface\<close>

text \<open>Claims about packages/shared/src/money.ts, pricing.ts and errors.ts.\<close>

subsection \<open>Decimal USDC amounts\<close>

text \<open>Parsing a USDC amount is exact. When \<open>usdcToAtomic\<close> accepts a string, the string is (after
  trimming and an optional dollar sign) a decimal literal with at most six fraction digits, and the
  integer returned is exactly a million times the number it denotes; no float takes part.\<close>

theorem usdc_parse_exact:
  assumes "usdcToAtomic s = Inr a"
  shows "\<exists>w f. decimal_match (trim s) = Some (w, f) \<and> length f \<le> USDC_DECIMALS
    \<and> of_int a = 10 ^ USDC_DECIMALS * decimal_value w f \<and> 0 \<le> a"
  using assms by (elim usdcToAtomic_Inr) blast

lemmas parse_eval = usdcToAtomic_def trim_def is_ws_def code_def Let_def starts_with_def decimal_match_def
  is_digit_def USDC_DECIMALS_def SCALE_def pad_end_def radix_val_def digit_val_def

lemma replicate_4: "replicate 4 x = [x, x, x, x]"
  by (simp add: numeral_eq_Suc)

lemma ex_parse:
  "usdcToAtomic ''$1.25'' = Inr 1250000" "usdcToAtomic ''0.01'' = Inr 10000" "usdcToAtomic ''0.02'' = Inr 20000"
  by (simp_all add: parse_eval replicate_4)

theorem usdc_parse_exact_witness:
  "\<exists>w f. decimal_match (trim ''$1.25'') = Some (w, f) \<and> (1250000 :: rat) = 10 ^ USDC_DECIMALS * decimal_value w f"
  using usdc_parse_exact [OF ex_parse(1)] by auto

text \<open>Printing and parsing are inverse on non-negative amounts, and a printed negative amount is
  never read back as money: \<open>usdcToAtomic (atomicToUsdc a)\<close> succeeds exactly when a is non-negative,
  and then returns a.\<close>

theorem usdc_print_parse:
  "isOk (usdcToAtomic (atomicToUsdc a)) = (0 \<le> a) \<and> usdcToAtomic (atomicToUsdc \<bar>a\<bar>) = Inr \<bar>a\<bar>"
proof (cases "0 \<le> a")
  case True
  then show ?thesis by (simp add: usdc_roundtrip_nonneg)
next
  case False
  then obtain m where "usdcToAtomic (atomicToUsdc a) = throw ConfigErr m"
    using usdc_negative_rejected [of a] by auto
  with False show ?thesis by (simp add: usdc_roundtrip_nonneg)
qed

subsection \<open>The settlement split\<close>

definition splits_at :: "int \<Rightarrow> jsnum \<Rightarrow> price_split \<Rightarrow> bool" where
  "splits_at a v s \<longleftrightarrow> (\<exists>bps. v = Fin (of_int bps) \<and> 0 \<le> bps \<and> bps \<le> 10000 \<and> 0 \<le> a \<and> inbound s = a
     \<and> payout s + margin s = a \<and> 0 \<le> payout s \<and> 0 \<le> margin s
     \<and> margin s * 10000 \<le> a * bps \<and> a * bps < (margin s + 1) * 10000)"

lemma splits_at_unique:
  assumes "splits_at a v s" "splits_at a v s'"
  shows "s = s'"
proof -
  obtain b where b: "v = Fin (of_int b)" "margin s * 10000 \<le> a * b" "a * b < (margin s + 1) * 10000"
      "inbound s = a" "payout s + margin s = a"
    using assms(1) unfolding splits_at_def by blast
  obtain c where c: "v = Fin (of_int c)" "margin s' * 10000 \<le> a * c" "a * c < (margin s' + 1) * 10000"
      "inbound s' = a" "payout s' + margin s' = a"
    using assms(2) unfolding splits_at_def by blast
  have "b = c" using b(1) c(1) by simp
  note c' = c(2,3) [folded \<open>b = c\<close>]
  have "margin s < margin s' + 1" using b(2) c'(2) by simp
  moreover have "margin s' < margin s + 1" using b(3) c'(1) by simp
  ultimately have "margin s = margin s'" by simp
  with b(4,5) c(4,5) show ?thesis by (simp add: price_split.equality)
qed

lemma computeSplit_splits: "computeSplit a v = Inr s \<Longrightarrow> splits_at a v s"
proof -
  assume "computeSplit a v = Inr s"
  then obtain n where n: "v = Fin (of_int n)" "0 \<le> n" "n \<le> 10000" "0 \<le> a"
    "s = \<lparr>inbound = a, payout = a - a * n div 10000, margin = a * n div 10000\<rparr>"
    by (rule computeSplit_Inr)
  have m: "a * n mod 10000 < 10000" "0 \<le> a * n mod 10000" by simp_all
  have lo: "a * n div 10000 * 10000 \<le> a * n" using m div_mult_mod_eq [of "a * n" 10000] by linarith
  have hi: "a * n < (a * n div 10000 + 1) * 10000"
    unfolding distrib_right using m div_mult_mod_eq [of "a * n" 10000] by simp
  from lo hi n margin_bounds [OF n(4,2,3)] show ?thesis
    unfolding splits_at_def by (intro exI [of _ n]) simp
qed

text \<open>C16: The split conserves the charge and rounds in the operator's favour. \<open>computeSplit\<close> returns a
  split exactly if the charge is non-negative, the margin an integer of 0 to 10000 basis points, both legs
  are non-negative and add up to the charge, and the margin is the largest integer not above the
  configured share; every charge and margin in range has such a split, the one it returns passes the
  second assertion \<open>assertSplitInvariant\<close>, and anything else throws.\<close>

theorem split_exact:
  "(computeSplit a v = Inr s \<longleftrightarrow> splits_at a v s)
   \<and> ((\<exists>x. computeSplit a v = Inr x) \<longleftrightarrow> 0 \<le> a \<and> (\<exists>bps. v = Fin (of_int bps) \<and> 0 \<le> bps \<and> bps \<le> 10000))
   \<and> (computeSplit a v = Inr s \<longrightarrow> assertSplitInvariant s = Inr ())"
proof (intro conjI)
  show "computeSplit a v = Inr s \<longleftrightarrow> splits_at a v s"
  proof
    assume s: "splits_at a v s"
    then obtain bps where "v = Fin (of_int bps)" "0 \<le> bps" "bps \<le> 10000" "0 \<le> a" unfolding splits_at_def by blast
    then obtain s' where s': "computeSplit a v = Inr s'" using computeSplit_valid by blast
    then show "computeSplit a v = Inr s" using splits_at_unique [OF s computeSplit_splits [OF s']] by simp
  qed (rule computeSplit_splits)
  show "(\<exists>x. computeSplit a v = Inr x) \<longleftrightarrow> 0 \<le> a \<and> (\<exists>bps. v = Fin (of_int bps) \<and> 0 \<le> bps \<and> bps \<le> 10000)"
    unfolding computeSplit_Inr_iff by (auto elim!: valid_bpsE)
qed (use assertSplitInvariant_computeSplit in blast)

theorem split_exact_witness:
  "\<exists>s. computeSplit 2001 (Fin 1500) = Inr s \<and> payout s + margin s = 2001 \<and> margin s * 10000 \<le> 2001 * 1500"
proof -
  obtain s where s: "computeSplit 2001 (Fin 1500) = Inr s"
    using computeSplit_valid [of 2001 1500] by simp
  then have "splits_at 2001 (Fin 1500) s" using split_exact by blast
  moreover have "bps = 1500" if "Fin 1500 = Fin (of_int bps)" for bps :: int
    using that by (metis jsnum.inject of_int_eq_iff of_int_numeral)
  ultimately have "payout s + margin s = 2001 \<and> margin s * 10000 \<le> 2001 * 1500" unfolding splits_at_def by fastforce
  with s show ?thesis by blast
qed

text \<open>The split rejects exactly the bad inputs: it throws if and only if the charge is negative or
  the margin is not an integer in [0, 10000] (a fraction, NaN or an infinity included).\<close>

theorem split_accepts_iff: "isOk (computeSplit a v) = (0 \<le> a \<and> valid_bps v)"
  using computeSplit_Inr_iff [of a v] by (simp add: isOk_iff)

subsection \<open>The price table\<close>

text \<open>A price table that is accepted is usable. Whatever \<open>JSON.parse\<close> returns, an accepted table has
  distinct, non-empty, normalised model ids and parseable prices, at most 16 distinct prices, and the
  price quoted for any model (or none) is one of the declared tiers.\<close>

theorem price_table_usable:
  assumes "parseModelPrices json_parse raw = Inr t"
  shows "distinct (jkeys t) \<and> (\<forall>(k, p) \<in> set t. k \<noteq> [] \<and> normalizeModelId k = k \<and> isOk (usdcToAtomic p))
    \<and> card (set (jvals t)) \<le> MAX_PRICE_TIERS \<and> resolveModelPrice t fb m \<in> set (priceTiers t fb)"
  using parseModelPrices_good [OF assms] resolveModelPrice_in_tiers [of t fb m]
  by (simp add: good_table_def jwf_def)

definition ex_json :: "string \<Rightarrow> jsval option" where
  "ex_json s = (if s = ''J'' then Some (JObj [('' Llama '', JStr ''0.01''), (''qwen'', JStr ''0.02'')]) else None)"

lemma ex_table: "parseModelPrices ex_json (Some ''J'') = Inr [(''llama'', ''0.01''), (''qwen'', ''0.02'')]"
  by (simp add: parseModelPrices_def ex_json_def ex_parse normalizeModelId_def to_lower_def lower_char_def
      is_upper_def trim_def is_ws_def code_def Let_def dedup_def MAX_PRICE_TIERS_def char_of_def bit_0)

theorem price_table_usable_witness:
  "resolveModelPrice [(''llama'', ''0.01''), (''qwen'', ''0.02'')] ''0.0020'' (Some ''LLAMA'')
     \<in> set (priceTiers [(''llama'', ''0.01''), (''qwen'', ''0.02'')] ''0.0020'')"
  using price_table_usable [OF ex_table] by blast

subsection \<open>What an error tells a client\<close>

text \<open>C39: Error responses are safe to send. For anything thrown, the status is in the 4xx-5xx range, and
  the details, if any, are plain JSON nested at most five deep, with at most 32 items per collection,
  finite numbers only, and every property whose name looks like a secret redacted; an error that is
  not a \<open>MeshError\<close> always yields the same opaque body.\<close>

theorem error_response_safe:
  "400 \<le> fst (toErrorResponse t) \<and> fst (toErrorResponse t) < 600
   \<and> (case eb_details (snd (toErrorResponse t)) of None \<Rightarrow> True | Some kvs \<Rightarrow> client_safe 5 (JObj kvs))
   \<and> toErrorResponse (Foreign a) = toErrorResponse (Foreign b)"
proof (cases t)
  case (Mesh e)
  have s: "client_safe 5 (sanitizeDetailValue (JObj kvs) 0)" for kvs
    using client_safe_sanitize [of 0 "JObj kvs"] by simp
  show ?thesis
  proof (cases "me_details e")
    case (Some kvs)
    obtain out where "sanitizeDetailValue (JObj kvs) 0 = JObj out" using sanitize_JObj by blast
    with s [of kvs] Mesh Some err_status_range [of "me_class e"] show ?thesis
      by (simp add: toErrorResponse_def toJSON_def)
  qed (use Mesh err_status_range [of "me_class e"] in \<open>simp add: toErrorResponse_def toJSON_def\<close>)
qed (simp add: toErrorResponse_def)

text \<open>The error code identifies the error class: no two classes of the taxonomy share a code, so a
  client can dispatch on it.\<close>

theorem error_codes_distinct: "inj err_code"
  by (rule injI) (rule err_code_inj)

end
