(* ===== verification/SelectionProps.thy ===== *)
theory SelectionProps
  imports RegistryProps MarketProps
begin

section \<open>Properties of scoring and selection\<close>

text \<open>Claims about packages/registry/src/selector, on the concrete nodes of RegistryProps.\<close>

subsection \<open>The composite score\<close>

text \<open>A routing score is a number in [0, 1]. Whatever latencies, prices and quality a node reports
  (NaN and infinities included) and whatever the candidate ranges, a score that is produced is a
  finite number between 0 and 1, and with usable weights a score is always produced.\<close>

theorem score_in_unit_interval:
  assumes "good_weights (ctx_weights ctx)"
  shows "\<exists>v. scoreNode n ctx = Inr v \<and> unit_num v"
  using scoreNode_ok [OF assms, of n] scoreNode_unit by blast

definition ex_ctx :: score_context where
  "ex_ctx = \<lparr>sc_model = ''m'', sc_minLatencyMs = Fin 10, sc_maxLatencyMs = Fin 50, sc_minPriceAtomic = 5000,
     sc_maxPriceAtomic = 20000, sc_weights = None\<rparr>"

lemma ex_ctx_weights [simp]: "ctx_weights ex_ctx = DEFAULT_WEIGHTS"
  by (simp add: ctx_weights_def ex_ctx_def)

theorem score_in_unit_interval_witness: "\<exists>v. scoreNode (ex_node ''a'') ex_ctx = Inr v \<and> unit_num v"
  by (rule score_in_unit_interval) (simp add: DEFAULT_WEIGHTS_good)

text \<open>Routing rewards dominance. If node b is at least as fast (p95 within the candidate range), at
  most as expensive for the model and of at least the quality of node a, then b's score is at least
  a's: floating-point rounding never reverses a dominated choice.\<close>

theorem score_respects_dominance:
  assumes "good_weights (ctx_weights ctx)"
    and "scoreNode a ctx = Inr sa" "scoreNode b ctx = Inr sb"
    and "sc_minLatencyMs ctx = Fin lo" "sc_maxLatencyMs ctx = Fin hi"
    and "h_latencyMsP95 (n_health a) = Fin la" "h_latencyMsP95 (n_health b) = Fin lb"
    and "lo \<le> lb" "lb \<le> la" "la \<le> hi"
    and "nodePriceAtomic a (sc_model ctx) = Some pa" "nodePriceAtomic b (sc_model ctx) = Some pb" "pb \<le> pa"
    and "num_le (quality_term a) (quality_term b)"
  shows "num_le sa sb"
proof -
  obtain w where w: "normalizeWeights (ctx_weights ctx) = Inr w" "unit_weights w"
    using normalizeWeights_unit [OF assms(1)] by blast
  have "sa = combine w (latency_term a ctx) (price_term a ctx) (quality_term a)"
    "sb = combine w (latency_term b ctx) (price_term b ctx) (quality_term b)"
    using assms(2,3) w(1) by (simp_all add: scoreNode_ctx)
  with combine_mono [OF w(2) latency_term_mono [OF assms(4-10)] price_term_mono [OF assms(11-13)] assms(14)]
  show ?thesis by simp
qed

definition ex_slow :: node_record where
  "ex_slow = (ex_node ''b'')\<lparr>n_health := (n_health (ex_node ''b''))\<lparr>h_latencyMsP95 := Fin 40\<rparr>\<rparr>"

lemma norm_m [simp]: "normalizeModelId ''m'' = ''m''"
  by (simp add: normalizeModelId_def to_lower_def lower_char_def is_upper_def trim_def is_ws_def code_def)

lemma ex_price [simp]: "nodePriceAtomic (ex_node k) ''m'' = Some 10000" "nodePriceAtomic ex_slow ''m'' = Some 10000"
  by (simp_all add: nodePriceAtomic_def ex_slow_def ex_node_def ex_parse)

theorem score_respects_dominance_witness:
  "\<exists>sa sb. scoreNode ex_slow ex_ctx = Inr sa \<and> scoreNode (ex_node ''a'') ex_ctx = Inr sb \<and> num_le sa sb"
proof -
  have g: "good_weights (ctx_weights ex_ctx)" by (simp add: DEFAULT_WEIGHTS_good)
  obtain sa sb where s: "scoreNode ex_slow ex_ctx = Inr sa" "scoreNode (ex_node ''a'') ex_ctx = Inr sb"
    using scoreNode_ok [OF g] by metis
  have "quality_term ex_slow = quality_term (ex_node ''a'')" "unit_num (quality_term (ex_node ''a''))"
    by (simp_all add: quality_term_def ex_slow_def ex_node_def)
  then have q: "num_le (quality_term ex_slow) (quality_term (ex_node ''a''))" by (simp add: num_le_refl)
  have "num_le sa sb"
    by (rule score_respects_dominance [OF g s, where lo = 10 and hi = 50 and la = 40 and lb = 20
          and pa = 10000 and pb = 10000])
      (use q in \<open>simp_all add: ex_ctx_def\<close>, simp_all add: ex_slow_def ex_node_def)
  with s show ?thesis by blast
qed

subsection \<open>Selection\<close>

text \<open>C17: Selection is safe. A node that is selected is one of the stored records, was not excluded by
  the caller, settles on the right network, is not stale, is healthy, serves the model at a parseable
  price, can receive USDC and has a free slot; it is routable in the sense of the discovery endpoint;
  and its score is in [0, 1]. No draw of the random source can select anything else.\<close>

theorem selected_node_is_eligible:
  assumes "select cfg now draw rs model excluded = Inr s"
  shows "ns_node s \<in> set rs \<and> n_nodeId (ns_node s) \<notin> set excluded
    \<and> unroutableReason (ns_node s)
        \<lparr>ro_network = sel_network cfg, ro_staleAfterMs = sel_staleAfterMs cfg, ro_now = now\<rparr> = None
    \<and> serves_model model (ns_node s) \<and> nodePriceAtomic (ns_node s) model \<noteq> None
    \<and> h_inFlight (n_health (ns_node s)) < h_maxConcurrency (n_health (ns_node s))
    \<and> unit_num (ns_score s)"
proof -
  obtain p where "classify cfg now excluded model (ns_node s) = Inr p"
    using select_Inr(2) [OF assms] is_eligible_iff by blast
  from classify_Inr [OF this] select_Inr(1,3) [OF assms] show ?thesis
    by (simp add: unroutableReason_def)
qed

definition ex_cfg :: selector where
  "ex_cfg = make_selector (Some ''net'') (Some (Fin 1000)) None None"

lemma ex_cfg_simps [simp]:
  "sel_weights ex_cfg = DEFAULT_WEIGHTS" "sel_network ex_cfg = Some ''net''" "sel_staleAfterMs ex_cfg = Some (Fin 1000)"
  by (simp_all add: ex_cfg_def make_selector_def Let_def)

lemma ex_eligible: "is_eligible ex_cfg (Fin 150) [] ''m'' (ex_node k)"
proof -
  have "js_sub (Fin 150) (Fin 100) = Fin 50"
    using js_int_small [of 50] by (simp add: js_sub_def js_int_def)
  then have "classify ex_cfg (Fin 150) [] ''m'' (ex_node k) = Inr 10000"
    by (simp add: classify_def wrong_network_def is_stale_def serves_model_def)
      (simp add: ex_node_def)
  then show ?thesis by (simp add: is_eligible_iff)
qed

lemma ex_selects:
  "\<exists>s. select ex_cfg (Fin 150) (Fin (1/2)) [ex_node ''a'', ex_node ''b''] ''m'' [] = Inr s"
  by (rule select_ok [where r = "ex_node ''a''"]) (simp_all add: DEFAULT_WEIGHTS_good ex_eligible)

theorem selected_node_is_eligible_witness:
  "\<exists>s. select ex_cfg (Fin 150) (Fin (1/2)) [ex_node ''a'', ex_node ''b''] ''m'' [] = Inr s
     \<and> ns_node s \<in> {ex_node ''a'', ex_node ''b''} \<and> unit_num (ns_score s)"
proof -
  obtain s where s: "select ex_cfg (Fin 150) (Fin (1/2)) [ex_node ''a'', ex_node ''b''] ''m'' [] = Inr s"
    using ex_selects by blast
  from selected_node_is_eligible [OF s] s show ?thesis by simp
qed

text \<open>Selection is complete and its failure is explained. With usable weights, \<open>select\<close> returns a
  node for every draw exactly when some stored record is eligible; otherwise it reports that there is
  no capacity for the model, with a tally that accounts for every stored record.\<close>

theorem selection_complete:
  assumes "good_weights (sel_weights cfg)"
  shows "(case select cfg now draw rs model excluded of
      Inr s \<Rightarrow> list_ex (is_eligible cfg now excluded model) rs
    | Inl (err, tally) \<Rightarrow> \<not> list_ex (is_eligible cfg now excluded model) rs
        \<and> err = Exn NoCapacityErr (no_node_message model) \<and> tally_total tally = length rs)"
proof (cases "list_ex (is_eligible cfg now excluded model) rs")
  case True
  then obtain r where "r \<in> set rs" "is_eligible cfg now excluded model r" by (auto simp: list_ex_iff)
  from select_ok [OF assms this, where draw = draw] obtain s where
    "select cfg now draw rs model excluded = Inr s" by blast
  with True show ?thesis by simp
next
  case False
  then have "\<And>r. r \<in> set rs \<Longrightarrow> \<not> is_eligible cfg now excluded model r" by (auto simp: list_ex_iff)
  from select_none [OF this, where draw = draw] obtain t where
    "select cfg now draw rs model excluded = Inl (Exn NoCapacityErr (no_node_message model), t)"
    "tally_total t = length rs" by blast
  with False show ?thesis by simp
qed

theorem selection_complete_witness:
  "case select ex_cfg (Fin 150) (Fin 0) [ex_node ''a''] ''m'' [] of Inr s \<Rightarrow> True | Inl _ \<Rightarrow> False"
  using selection_complete [of ex_cfg, where now = "Fin 150" and draw = "Fin 0" and rs = "[ex_node ''a'']"
      and model = "''m''" and excluded = "[]"]
  by (auto simp: DEFAULT_WEIGHTS_good ex_eligible split: sum.splits prod.splits)

text \<open>Selection does not depend on storage order. For stores with distinct node ids, two listings
  with the same records in any order give the same selection, score and failure tally for the same
  draw, so restarts and Redis key order cannot change routing.\<close>

theorem selection_order_independent:
  assumes "mset rs = mset rs'" "distinct (map n_nodeId rs)"
  shows "select cfg now draw rs model excluded = select cfg now draw rs' model excluded"
proof -
  let ?el = "eligible_pairs cfg now excluded model rs" and ?el' = "eligible_pairs cfg now excluded model rs'"
  have s: "sort_key (\<lambda>(r, p). n_nodeId r) ?el = sort_key (\<lambda>(r, p). n_nodeId r) ?el'"
    by (rule eligible_pairs_perm [OF assms])
  then have "length ?el = length ?el'" by (metis length_sort)
  then have "?el = [] \<longleftrightarrow> ?el' = []" by (metis length_0_conv)
  then show ?thesis unfolding select_eq Let_def s tally_perm [OF assms(1)] by simp
qed

theorem selection_order_independent_witness:
  "select ex_cfg (Fin 150) (Fin (1/2)) [ex_node ''a'', ex_node ''b''] ''m'' []
   = select ex_cfg (Fin 150) (Fin (1/2)) [ex_node ''b'', ex_node ''a''] ''m'' []"
  by (rule selection_order_independent) simp_all

end
