(* ===== verification/Json.thy ===== *)
theory Json
  imports Errors "HOL-Library.List_Lexorder"
begin

section \<open>Canonical JSON (signing.ts, canonical.ts)\<close>

text \<open>
  The deterministic serializer that every signature of the mesh covers. \<open>JSON.stringify\<close> of a
  string is the standard escaping; of a finite number it is \<open>Number::toString\<close>, which is the
  decimal integer below \<open>10\<^sup>2\<^sup>1\<close> and otherwise the text \<open>fmt\<close> supplies (every signed payload holds
  integers only). An \<open>Error\<close> object has no enumerable own property, so it serializes as \<open>{}\<close>.

  The second half shows that the text determines the value: \<open>normal\<close> is the canonical tree of a
  value (keys sorted, undefined members dropped, undefined items null, big integers as strings),
  and two values with the same text have the same tree.
\<close>

subsection \<open>JSON.stringify on strings and numbers\<close>

definition hex4 :: "nat \<Rightarrow> string" where
  "hex4 n = [CHR ''0'', CHR ''0'', radix_char (n div 16), radix_char (n mod 16)]"

abbreviation quote :: char where "quote \<equiv> CHR 0x22"
abbreviation backslash :: char where "backslash \<equiv> CHR 0x5C"

definition json_escape :: "char \<Rightarrow> string" where
  "json_escape c =
     (if c = quote then [backslash, quote]
      else if c = backslash then [backslash, backslash]
      else if code c = 8 then [backslash, CHR ''b'']
      else if code c = 9 then [backslash, CHR ''t'']
      else if code c = 10 then [backslash, CHR ''n'']
      else if code c = 12 then [backslash, CHR ''f'']
      else if code c = 13 then [backslash, CHR ''r'']
      else if code c < 32 then [backslash, CHR ''u''] @ hex4 (code c)
      else [c])"

definition json_string :: "string \<Rightarrow> string" where
  "json_string s = quote # concat (map json_escape s) @ [quote]"

definition is_plain_int :: "rat \<Rightarrow> bool" where
  "is_plain_int q \<longleftrightarrow> q = of_int \<lfloor>q\<rfloor> \<and> \<bar>\<lfloor>q\<rfloor>\<bar> < 10 ^ 21"

definition json_number :: "(rat \<Rightarrow> string) \<Rightarrow> rat \<Rightarrow> string" where
  "json_number fmt q = (if is_plain_int q then int_str \<lfloor>q\<rfloor> else fmt q)"

subsection \<open>canonicalJson\<close>

definition null_if_undefined :: "jsval \<Rightarrow> jsval" where
  "null_if_undefined v = (if v = JUndef then JNull else v)"

definition sorted_entries :: "(string \<times> jsval) list \<Rightarrow> (string \<times> jsval) list" where
  "sorted_entries kvs = sort_key fst (filter (\<lambda>kv. snd kv \<noteq> JUndef) kvs)"

lemma size_sorted_entries [simp]:
  "kv \<in> set (sorted_entries kvs) \<Longrightarrow> size (snd kv) < Suc (size_list (size_prod (\<lambda>_. 0) size) kvs)"
  by (induction kvs) (auto simp: sorted_entries_def split: if_splits)

declare map_res_cong [fundef_cong]

function canonicalJson :: "(rat \<Rightarrow> string) \<Rightarrow> jsval \<Rightarrow> string res" where
  "canonicalJson fmt JNull = Inr ''null''"
| "canonicalJson fmt (JStr s) = Inr (json_string s)"
| "canonicalJson fmt (JBool b) = Inr (if b then ''true'' else ''false'')"
| "canonicalJson fmt (JNum v) = (case v of
      Fin q \<Rightarrow> Inr (json_number fmt q)
    | _ \<Rightarrow> throw ValidationErr ''cannot canonicalize a non-finite number'')"
| "canonicalJson fmt (JBig i) = Inr (json_string (int_str i))"
| "canonicalJson fmt (JArr vs) =
     bind_res (map_res (\<lambda>v. canonicalJson fmt (null_if_undefined v)) vs)
       (\<lambda>items. Inr (''['' @ join_with '','' items @ '']''))"
| "canonicalJson fmt (JObj kvs) =
     bind_res (map_res (\<lambda>kv. bind_res (canonicalJson fmt (snd kv))
                (\<lambda>t. Inr (json_string (fst kv) @ '':'' @ t))) (sorted_entries kvs))
       (\<lambda>body. Inr (''{'' @ join_with '','' body @ ''}''))"
| "canonicalJson fmt (JErr name) = Inr ''{}''"
| "canonicalJson fmt JUndef = throw ValidationErr ''cannot canonicalize value''"
| "canonicalJson fmt JFun = throw ValidationErr ''cannot canonicalize value''"
  by pat_completeness auto
termination
proof (relation "measure (size \<circ> snd)")
  fix fmt :: "rat \<Rightarrow> string" and vs and v :: jsval
  assume "v \<in> set vs"
  then have "size v < Suc (size_list size vs)" by (simp add: less_Suc_eq_le size_list_estimation')
  moreover have "size (null_if_undefined v) \<le> size v" by (auto simp: null_if_undefined_def)
  ultimately show "((fmt, null_if_undefined v), (fmt, JArr vs)) \<in> measure (size \<circ> snd)" by simp
qed (simp_all add: less_Suc_eq_le [symmetric])

subsection \<open>The tree that is written\<close>

datatype tree = TNull | TBool bool | TNum rat | TStr string | TArr "tree list" | TObj "(string \<times> tree) list"

fun opt_list :: "('a \<Rightarrow> 'b option) \<Rightarrow> 'a list \<Rightarrow> 'b list option" where
  "opt_list f [] = Some []"
| "opt_list f (x # xs) = Option.bind (f x) (\<lambda>y. Option.bind (opt_list f xs) (\<lambda>ys. Some (y # ys)))"

lemma opt_list_cong [fundef_cong]:
  "xs = ys \<Longrightarrow> (\<And>x. x \<in> set ys \<Longrightarrow> f x = g x) \<Longrightarrow> opt_list f xs = opt_list g ys"
  by (induction xs arbitrary: ys) auto

function normal :: "jsval \<Rightarrow> tree option" where
  "normal JNull = Some TNull"
| "normal (JStr s) = Some (TStr s)"
| "normal (JBool b) = Some (TBool b)"
| "normal (JNum v) = (case v of Fin q \<Rightarrow> Some (TNum q) | _ \<Rightarrow> None)"
| "normal (JBig i) = Some (TStr (int_str i))"
| "normal (JArr vs) = map_option TArr (opt_list (\<lambda>v. normal (null_if_undefined v)) vs)"
| "normal (JObj kvs) =
     map_option TObj (opt_list (\<lambda>kv. map_option (Pair (fst kv)) (normal (snd kv))) (sorted_entries kvs))"
| "normal (JErr name) = Some (TObj [])"
| "normal JUndef = None"
| "normal JFun = None"
  by pat_completeness auto
termination
proof (relation "measure size")
  fix vs and v :: jsval
  assume "v \<in> set vs"
  then have "size v < Suc (size_list size vs)" by (simp add: less_Suc_eq_le size_list_estimation')
  moreover have "size (null_if_undefined v) \<le> size v" by (auto simp: null_if_undefined_def)
  ultimately show "(null_if_undefined v, JArr vs) \<in> measure size" by simp
qed (simp_all add: less_Suc_eq_le [symmetric])

function render :: "(rat \<Rightarrow> string) \<Rightarrow> tree \<Rightarrow> string" where
  "render fmt TNull = ''null''"
| "render fmt (TBool b) = (if b then ''true'' else ''false'')"
| "render fmt (TNum q) = json_number fmt q"
| "render fmt (TStr s) = json_string s"
| "render fmt (TArr ts) = ''['' @ join_with '','' (map (render fmt) ts) @ '']''"
| "render fmt (TObj kts) =
     ''{'' @ join_with '','' (map (\<lambda>kt. json_string (fst kt) @ '':'' @ render fmt (snd kt)) kts) @ ''}''"
  by pat_completeness auto
termination
proof (relation "measure (size \<circ> snd)")
  fix fmt :: "rat \<Rightarrow> string" and ts and t :: tree
  assume "t \<in> set ts"
  then show "((fmt, t), (fmt, TArr ts)) \<in> measure (size \<circ> snd)"
    by (simp add: less_Suc_eq_le size_list_estimation')
next
  fix fmt :: "rat \<Rightarrow> string" and kts and kt :: "string \<times> tree"
  assume "kt \<in> set kts"
  then have "size (snd kt) < Suc (size_list (size_prod (\<lambda>_. 0) size) kts)"
    by (induction kts) auto
  then show "((fmt, snd kt), (fmt, TObj kts)) \<in> measure (size \<circ> snd)" by simp
qed simp

subsection \<open>The text is the rendering of the canonical tree\<close>

lemma map_res_opt_list:
  assumes "\<And>x t. x \<in> set xs \<Longrightarrow> f x = Inr t \<Longrightarrow> \<exists>y. g x = Some y \<and> h y = t"
    and "map_res f xs = Inr ts"
  shows "\<exists>ys. opt_list g xs = Some ys \<and> map h ys = ts"
  using assms
proof (induction xs arbitrary: ts)
  case (Cons x xs)
  from Cons.prems(2) obtain t ts' where t: "f x = Inr t" "map_res f xs = Inr ts'" "ts = t # ts'"
    by (auto simp: bind_res_Inr_iff)
  from Cons.prems(1) [OF _ t(1)] obtain y where "g x = Some y" "h y = t" by auto
  moreover from Cons.IH [OF Cons.prems(1) t(2)] obtain ys where "opt_list g xs = Some ys" "map h ys = ts'"
    by auto
  ultimately show ?case using t(3) by simp
qed simp

lemma canonical_is_render:
  "canonicalJson fmt v = Inr s \<Longrightarrow> \<exists>t. normal v = Some t \<and> render fmt t = s"
proof (induction fmt v arbitrary: s rule: canonicalJson.induct)
  case (6 fmt vs)
  then obtain items where items: "map_res (\<lambda>v. canonicalJson fmt (null_if_undefined v)) vs = Inr items"
    "s = ''['' @ join_with '','' items @ '']''" by (auto simp: bind_res_Inr_iff)
  from map_res_opt_list [OF _ items(1), of "\<lambda>v. normal (null_if_undefined v)" "render fmt"] "6.IH"
  obtain ys where "opt_list (\<lambda>v. normal (null_if_undefined v)) vs = Some ys" "map (render fmt) ys = items"
    by auto
  with items(2) show ?case by auto
next
  case (7 fmt kvs)
  let ?g = "\<lambda>kv. map_option (Pair (fst kv)) (normal (snd kv))"
  let ?h = "\<lambda>kt. json_string (fst kt) @ '':'' @ render fmt (snd kt)"
  from 7 obtain body where body: "map_res (\<lambda>kv. bind_res (canonicalJson fmt (snd kv))
      (\<lambda>t. Inr (json_string (fst kv) @ '':'' @ t))) (sorted_entries kvs) = Inr body"
    "s = ''{'' @ join_with '','' body @ ''}''" by (auto simp: bind_res_Inr_iff)
  have step: "\<exists>y. ?g kv = Some y \<and> ?h y = t"
    if kv: "kv \<in> set (sorted_entries kvs)"
      and t: "bind_res (canonicalJson fmt (snd kv)) (\<lambda>t. Inr (json_string (fst kv) @ '':'' @ t)) = Inr t" for kv t
  proof -
    from t obtain t' where "canonicalJson fmt (snd kv) = Inr t'" "t = json_string (fst kv) @ '':'' @ t'"
      by (auto simp: bind_res_Inr_iff)
    with "7.IH" [OF kv] show ?thesis by auto
  qed
  obtain ys where "opt_list ?g (sorted_entries kvs) = Some ys" "map ?h ys = body"
    using map_res_opt_list [where g = ?g and h = ?h, OF step body(1)] by blast
  with body(2) show ?case by auto
qed (auto split: jsnum.splits)

lemma opt_list_map_res:
  assumes "\<And>x y. x \<in> set xs \<Longrightarrow> g x = Some y \<Longrightarrow> f x = Inr (h y)" and "opt_list g xs = Some ys"
  shows "map_res f xs = Inr (map h ys)"
  using assms
proof (induction xs arbitrary: ys)
  case (Cons x xs)
  from Cons.prems(2) obtain y ys' where y: "g x = Some y" "opt_list g xs = Some ys'" "ys = y # ys'"
    by (auto split: Option.bind_splits)
  from Cons.prems(1) [OF _ y(1)] Cons.IH [OF Cons.prems(1) y(2)] y(3) show ?case by simp
qed simp

lemma render_is_canonical: "normal v = Some t \<Longrightarrow> canonicalJson fmt v = Inr (render fmt t)"
proof (induction v arbitrary: t rule: normal.induct)
  case (6 vs)
  then obtain ts where ts: "opt_list (\<lambda>v. normal (null_if_undefined v)) vs = Some ts" "t = TArr ts" by auto
  have "map_res (\<lambda>v. canonicalJson fmt (null_if_undefined v)) vs = Inr (map (render fmt) ts)"
    by (rule opt_list_map_res [OF _ ts(1)]) (rule "6.IH")
  with ts(2) show ?case by simp
next
  case (7 kvs)
  then obtain ts where ts: "opt_list (\<lambda>kv. map_option (Pair (fst kv)) (normal (snd kv))) (sorted_entries kvs) = Some ts"
    "t = TObj ts" by auto
  have "map_res (\<lambda>kv. bind_res (canonicalJson fmt (snd kv)) (\<lambda>t. Inr (json_string (fst kv) @ '':'' @ t)))
      (sorted_entries kvs) = Inr (map (\<lambda>kt. json_string (fst kt) @ '':'' @ render fmt (snd kt)) ts)"
  proof (rule opt_list_map_res [OF _ ts(1)])
    fix kv y
    assume kv: "kv \<in> set (sorted_entries kvs)" "map_option (Pair (fst kv)) (normal (snd kv)) = Some y"
    then obtain u where u: "normal (snd kv) = Some u" "y = (fst kv, u)" by auto
    from "7.IH" [OF kv(1) u(1)] u(2)
    show "bind_res (canonicalJson fmt (snd kv)) (\<lambda>t. Inr (json_string (fst kv) @ '':'' @ t))
        = Inr (json_string (fst y) @ '':'' @ render fmt (snd y))" by simp
  qed
  with ts(2) show ?case by simp
qed (auto split: jsnum.splits)

subsection \<open>Unambiguous reading\<close>

text \<open>A text that a reader can split off a longer one: the rest starts with no digit.\<close>

definition stops :: "string \<Rightarrow> bool" where
  "stops r \<longleftrightarrow> (case r of [] \<Rightarrow> True | c # _ \<Rightarrow> \<not> is_digit c)"

fun int_tree :: "tree \<Rightarrow> bool" where
  "int_tree (TNum q) = is_plain_int q"
| "int_tree (TArr ts) = (\<forall>t \<in> set ts. int_tree t)"
| "int_tree (TObj kts) = (\<forall>kt \<in> set kts. int_tree (snd kt))"
| "int_tree _ = True"

lemma stops_simps [simp]: "stops []" "stops (c # r) \<longleftrightarrow> \<not> is_digit c"
  by (simp_all add: stops_def)

lemma digits_split:
  "list_all is_digit a \<Longrightarrow> list_all is_digit b \<Longrightarrow> stops r \<Longrightarrow> stops r' \<Longrightarrow> a @ r = b @ r' \<Longrightarrow>
   a = b \<and> r = r'"
proof (induction a arbitrary: b)
  case Nil
  then show ?case by (cases b) auto
next
  case (Cons c a)
  show ?case
  proof (cases b)
    case Nil
    with Cons.prems show ?thesis by auto
  next
    case (Cons d b')
    with Cons.prems Cons.IH [of b'] show ?thesis by simp
  qed
qed

lemma nat_str_Cons: "\<exists>c cs. nat_str n = c # cs \<and> is_digit c"
proof (cases "nat_str n")
  case Nil
  then show ?thesis by (simp add: radix_str_nonempty)
next
  case (Cons c cs)
  then show ?thesis using nat_str_digits [of n] by simp
qed

lemma minus_not_digit: "\<not> is_digit CHR ''-''"
  by (simp add: is_digit_def code_def)

lemma nat_str_split: "nat_str m @ r = nat_str n @ r' \<Longrightarrow> stops r \<Longrightarrow> stops r' \<Longrightarrow> m = n \<and> r = r'"
  using digits_split [OF nat_str_digits nat_str_digits] nat_str_inj by blast

lemma nat_str_not_minus: "nat_str n @ r \<noteq> CHR ''-'' # r'"
  using nat_str_Cons [of n] minus_not_digit by auto

lemma int_str_split:
  assumes "int_str i @ r = int_str j @ r'" "stops r" "stops r'"
  shows "i = j \<and> r = r'"
proof (cases "i < 0"; cases "j < 0")
  assume n: "i < 0" "j < 0"
  then have "nat_str (nat (- i)) @ r = nat_str (nat (- j)) @ r'" using assms(1) by (simp add: int_str_def)
  from nat_str_split [OF this assms(2,3)] n show ?thesis by (simp add: eq_nat_nat_iff)
next
  assume n: "\<not> i < 0" "\<not> j < 0"
  then have "nat_str (nat i) @ r = nat_str (nat j) @ r'" using assms(1) by (simp add: int_str_def)
  from nat_str_split [OF this assms(2,3)] n show ?thesis by (simp add: eq_nat_nat_iff)
next
  assume "i < 0" "\<not> j < 0"
  then show ?thesis using assms(1) nat_str_not_minus [of "nat j" r'] by (simp add: int_str_def) metis
next
  assume "\<not> i < 0" "j < 0"
  then show ?thesis using assms(1) nat_str_not_minus [of "nat i" r] by (simp add: int_str_def)
qed

text \<open>A reader for one escaped character.\<close>

definition short_escapes :: "(char \<times> char) list" where
  "short_escapes = [(CHR ''b'', CHR 0x08), (CHR ''t'', CHR 0x09), (CHR ''n'', CHR 0x0A),
     (CHR ''f'', CHR 0x0C), (CHR ''r'', CHR 0x0D)]"

fun unescape :: "string \<Rightarrow> char \<times> string" where
  "unescape (x # y # r) =
     (if x \<noteq> backslash then (x, y # r)
      else if y = CHR ''u'' then (case r of _ # _ # h # l # r' \<Rightarrow> (char_of (16 * digit_val h + digit_val l), r')
                                          | _ \<Rightarrow> (x, r))
      else (case jget short_escapes y of Some c \<Rightarrow> (c, r) | None \<Rightarrow> (y, r)))"
| "unescape [x] = (x, [])"
| "unescape [] = (backslash, [])"

lemma char_of_code: "char_of (code c) = c"
  by (simp add: code_def)

lemma code_inj: "code c = code d \<longleftrightarrow> c = d"
  by (metis char_of_code)

lemma unescape_hex4: "code c < 32 \<Longrightarrow> unescape (backslash # CHR ''u'' # hex4 (code c) @ r) = (c, r)"
proof -
  assume c: "code c < 32"
  then have "code c div 16 < 36" "code c mod 16 < 36" by (auto intro: less_trans [OF mod_less_divisor])
  then show ?thesis by (simp add: hex4_def digit_val_radix_char char_of_code)
qed

lemma unescape_plain: "c \<noteq> backslash \<Longrightarrow> unescape (c # r) = (c, r)"
  by (cases r) simp_all

lemma code_controls:
  "code CHR 0x08 = 8" "code CHR 0x09 = 9" "code CHR 0x0A = 10" "code CHR 0x0C = 12" "code CHR 0x0D = 13"
  by (simp_all add: code_def)

lemma escape_short:
  "json_escape CHR 0x08 = [backslash, CHR ''b'']" "json_escape CHR 0x09 = [backslash, CHR ''t'']"
  "json_escape CHR 0x0A = [backslash, CHR ''n'']" "json_escape CHR 0x0C = [backslash, CHR ''f'']"
  "json_escape CHR 0x0D = [backslash, CHR ''r'']" "json_escape quote = [backslash, quote]"
  "json_escape backslash = [backslash, backslash]"
  by (simp_all add: json_escape_def code_controls)

lemma control_char:
  assumes "code c \<in> {8, 9, 10, 12, 13}"
  shows "c \<in> {CHR 0x08, CHR 0x09, CHR 0x0A, CHR 0x0C, CHR 0x0D}"
proof -
  have "c = d" if "code c = code d" for d using that char_of_code by metis
  with assms code_controls show ?thesis by (metis insertCI insertE empty_iff)
qed

lemma unescape_escape: "unescape (json_escape c @ r) = (c, r)"
proof (cases "c \<in> {quote, backslash, CHR 0x08, CHR 0x09, CHR 0x0A, CHR 0x0C, CHR 0x0D}")
  case True
  then show ?thesis by (auto simp: escape_short short_escapes_def)
next
  case False
  then have n: "code c \<notin> {8, 9, 10, 12, 13}" using control_char [of c] by blast
  show ?thesis
  proof (cases "code c < 32")
    case True
    with False n have "json_escape c = backslash # CHR ''u'' # hex4 (code c)" by (simp add: json_escape_def)
    with unescape_hex4 [OF True] show ?thesis by simp
  next
    case f: False
    with False n have "json_escape c = [c]" by (simp add: json_escape_def)
    with False unescape_plain [of c r] show ?thesis by simp
  qed
qed

lemma escape_split: "json_escape c @ r = json_escape d @ r' \<Longrightarrow> c = d \<and> r = r'"
  by (metis unescape_escape prod.inject)

lemma escape_not_quote: "json_escape c @ r \<noteq> quote # r'"
  by (auto simp: json_escape_def split: if_splits)

lemma escaped_split:
  "concat (map json_escape s) @ quote # r = concat (map json_escape s') @ quote # r' \<Longrightarrow> s = s' \<and> r = r'"
proof (induction s arbitrary: s')
  case Nil
  then show ?case
  proof (cases s')
    case (Cons d t)
    with Nil escape_not_quote [of d "concat (map json_escape t) @ quote # r'" r] show ?thesis by simp
  qed simp
next
  case (Cons c s)
  show ?case
  proof (cases s')
    case Nil
    with Cons.prems escape_not_quote [of c "concat (map json_escape s) @ quote # r" r'] show ?thesis by simp
  next
    case (Cons d t)
    with Cons.prems have "json_escape c @ concat (map json_escape s) @ quote # r
        = json_escape d @ concat (map json_escape t) @ quote # r'" by simp
    from escape_split [OF this] Cons.IH Cons show ?thesis by auto
  qed
qed

lemma string_split: "json_string s @ r = json_string s' @ r' \<Longrightarrow> s = s' \<and> r = r'"
  using escaped_split [of s r s' r'] by (simp add: json_string_def)

subsection \<open>The text determines the tree\<close>

lemma quote_not_digit [simp]: "\<not> is_digit quote" "\<not> is_digit CHR '',''" "\<not> is_digit CHR '']''"
  "\<not> is_digit CHR ''}''"
  by (simp_all add: is_digit_def code_def)

text \<open>The first character tells the constructor.\<close>

fun opens :: "tree \<Rightarrow> char \<Rightarrow> bool" where
  "opens TNull c = (c = CHR ''n'')"
| "opens (TBool b) c = (c = (if b then CHR ''t'' else CHR ''f''))"
| "opens (TNum q) c = (is_digit c \<or> c = CHR ''-'')"
| "opens (TStr s) c = (c = quote)"
| "opens (TArr ts) c = (c = CHR ''['')"
| "opens (TObj kts) c = (c = CHR ''{'')"

lemma int_str_Cons: "\<exists>c cs. int_str i = c # cs \<and> (is_digit c \<or> c = CHR ''-'')"
  using nat_str_Cons [of "nat i"] by (auto simp: int_str_def)

lemma render_opens:
  assumes "int_tree t"
  shows "\<exists>c cs. render fmt t = c # cs \<and> opens t c"
  using assms int_str_Cons
  by (cases t) (auto simp: json_string_def json_number_def)

lemma letters_not_digits:
  "\<not> is_digit CHR ''n''" "\<not> is_digit CHR ''t''" "\<not> is_digit CHR ''f''" "\<not> is_digit CHR ''[''"
  "\<not> is_digit CHR ''{''"
  by (simp_all add: is_digit_def code_def)

lemma opens_not_close: "opens t c \<Longrightarrow> c \<noteq> CHR '']'' \<and> c \<noteq> CHR ''}'' \<and> c \<noteq> CHR '',''"
  by (cases t) auto

text \<open>A list of items, each readable, is readable up to its closing bracket.\<close>

fun items_text :: "char \<Rightarrow> string list \<Rightarrow> string" where
  "items_text e [] = [e]"
| "items_text e (x # xs) = CHR '','' # x @ items_text e xs"

lemma join_items:
  "join_with '','' xs @ [e] = (case xs of [] \<Rightarrow> [e] | x # xs' \<Rightarrow> x @ items_text e xs')"
proof (induction xs rule: induct_list012)
  case (3 x y zs)
  then show ?case by simp
qed simp_all

lemma items_split:
  assumes "\<And>x y r r'. x \<in> set xs \<Longrightarrow> y \<in> set ys \<Longrightarrow> stops r \<Longrightarrow> stops r' \<Longrightarrow> f x @ r = f y @ r' \<Longrightarrow> x = y \<and> r = r'"
    and "e \<noteq> CHR '',''" and "\<not> is_digit e"
    and "items_text e (map f xs) @ r = items_text e (map f ys) @ r'"
  shows "xs = ys \<and> r = r'"
  using assms(1,4)
proof (induction xs arbitrary: ys)
  case Nil
  then show ?case using assms(2) by (cases ys) auto
next
  case (Cons x xs)
  show ?case
  proof (cases ys)
    case Nil
    with Cons.prems(2) assms(2) show ?thesis by simp
  next
    case (Cons y zs)
    have st: "stops (items_text e (map f us) @ q)" for us q using assms(3) by (cases us) simp_all
    from Cons Cons.prems(2) have "f x @ items_text e (map f xs) @ r = f y @ items_text e (map f zs) @ r'"
      by simp
    with Cons.prems(1) [of x y] st Cons have "x = y" "items_text e (map f xs) @ r = items_text e (map f zs) @ r'"
      by auto
    moreover from this(2) Cons.IH [of zs] Cons.prems(1) Cons have "xs = zs \<and> r = r'" by auto
    ultimately show ?thesis using Cons by simp
  qed
qed

lemma joined_split:
  assumes "\<And>x y r r'. x \<in> set xs \<Longrightarrow> y \<in> set ys \<Longrightarrow> stops r \<Longrightarrow> stops r' \<Longrightarrow> f x @ r = f y @ r' \<Longrightarrow> x = y \<and> r = r'"
    and e: "e \<noteq> CHR '',''" "\<not> is_digit e"
    and ne: "\<And>x. x \<in> set xs \<union> set ys \<Longrightarrow> \<exists>c cs. f x = c # cs \<and> c \<noteq> e"
    and eq: "join_with '','' (map f xs) @ e # r = join_with '','' (map f ys) @ e # r'"
  shows "xs = ys \<and> r = r'"
proof -
  have j: "join_with '','' (map f us) @ e # q
      = (case us of [] \<Rightarrow> e # q | u # us' \<Rightarrow> f u @ items_text e (map f us') @ q)" for us q
  proof -
    have "join_with '','' (map f us) @ e # q = (join_with '','' (map f us) @ [e]) @ q" by simp
    also have "\<dots> = (case us of [] \<Rightarrow> e # q | u # us' \<Rightarrow> f u @ items_text e (map f us') @ q)"
      by (subst join_items) (cases us, simp_all)
    finally show ?thesis .
  qed
  note eq' = eq [unfolded j]
  show ?thesis
  proof (cases xs; cases ys)
    fix x xs' y ys'
    assume c: "xs = x # xs'" "ys = y # ys'"
    then have "items_text e (map f xs) @ r = items_text e (map f ys) @ r'" using eq' by simp
    from items_split [OF assms(1) e this] show ?thesis by blast
  next
    fix y ys'
    assume c: "xs = []" "ys = y # ys'"
    then show ?thesis using eq' ne [of y] by auto
  next
    fix x xs'
    assume c: "xs = x # xs'" "ys = []"
    then show ?thesis using eq' ne [of x] by auto
  next
    assume "xs = []" "ys = []"
    then show ?thesis using eq' by simp
  qed
qed

abbreviation member_text :: "(rat \<Rightarrow> string) \<Rightarrow> string \<times> tree \<Rightarrow> string" where
  "member_text fmt kt \<equiv> json_string (fst kt) @ '':'' @ render fmt (snd kt)"

lemma number_split:
  assumes "is_plain_int p" "is_plain_int q" "stops r" "stops r'" "json_number fmt p @ r = json_number fmt q @ r'"
  shows "p = q \<and> r = r'"
proof -
  from assms have "int_str \<lfloor>p\<rfloor> @ r = int_str \<lfloor>q\<rfloor> @ r'" by (simp add: json_number_def)
  from int_str_split [OF this assms(3,4)] show ?thesis
    using assms(1,2) by (metis is_plain_int_def)
qed

lemma same_shape:
  assumes "int_tree t" "int_tree u" "render fmt t @ r = render fmt u @ r'"
  shows "\<exists>c. opens t c \<and> opens u c"
  using render_opens [OF assms(1), of fmt] render_opens [OF assms(2), of fmt] assms(3) by auto

theorem render_split:
  "int_tree t \<Longrightarrow> int_tree u \<Longrightarrow> stops r \<Longrightarrow> stops r' \<Longrightarrow> render fmt t @ r = render fmt u @ r' \<Longrightarrow>
   t = u \<and> r = r'"
proof (induction fmt t arbitrary: u r r' rule: render.induct)
  case (1 fmt)
  then show ?case using same_shape [OF 1(1,2,5)] by (cases u) (auto simp: letters_not_digits split: if_splits)
next
  case (2 fmt b)
  then show ?case using same_shape [OF 2(1,2,5)]
    by (cases u) (auto simp: letters_not_digits split: if_splits)
next
  case (3 fmt q)
  obtain p where "u = TNum p"
    using same_shape [OF 3(1,2,5)] by (cases u) (auto simp: letters_not_digits split: if_splits)
  with 3 number_split [of q p r r' fmt] show ?case by simp
next
  case (4 fmt s)
  obtain s' where "u = TStr s'"
    using same_shape [OF 4(1,2,5)] by (cases u) (auto split: if_splits)
  with 4 string_split [of s r s' r'] show ?case by simp
next
  case (5 fmt ts)
  obtain us where u: "u = TArr us"
    using same_shape [OF "5.prems"(1,2,5)] by (cases u) (auto simp: letters_not_digits split: if_splits)
  have ne: "\<exists>c cs. render fmt x = c # cs \<and> c \<noteq> CHR '']''" if "x \<in> set ts \<union> set us" for x
    using that "5.prems"(1,2) u render_opens [of x fmt] opens_not_close by fastforce
  have "join_with '','' (map (render fmt) ts) @ CHR '']'' # r = join_with '','' (map (render fmt) us) @ CHR '']'' # r'"
    using "5.prems"(5) u by simp
  from joined_split [OF _ _ _ ne this] "5.IH" "5.prems"(1,2) u show ?case by fastforce
next
  case (6 fmt kts)
  obtain us where u: "u = TObj us"
    using same_shape [OF "6.prems"(1,2,5)] by (cases u) (auto simp: letters_not_digits split: if_splits)
  have ne: "\<exists>c cs. member_text fmt x = c # cs \<and> c \<noteq> CHR ''}''" for x
    by (simp add: json_string_def)
  have st: "x = y \<and> q = q'" if "x \<in> set kts" "y \<in> set us" "stops q" "stops q'"
    "member_text fmt x @ q = member_text fmt y @ q'" for x y q q'
  proof -
    from that(5) have "json_string (fst x) @ '':'' @ render fmt (snd x) @ q
        = json_string (fst y) @ '':'' @ render fmt (snd y) @ q'" by simp
    from string_split [OF this] have k: "fst x = fst y" "render fmt (snd x) @ q = render fmt (snd y) @ q'"
      by simp_all
    from "6.prems"(1,2) u that have "int_tree (snd x)" "int_tree (snd y)" by auto
    from "6.IH" [OF that(1) this that(3,4) k(2)] k(1) show ?thesis by (simp add: prod_eq_iff)
  qed
  have "join_with '','' (map (member_text fmt) kts) @ CHR ''}'' # r
      = join_with '','' (map (member_text fmt) us) @ CHR ''}'' # r'"
    using "6.prems"(5) u by simp
  from joined_split [OF st _ _ _ this] ne u show ?case by simp
qed

end
