(* ===== verification/Networks.thy ===== *)
theory Networks
  imports Errors
begin

section \<open>Algorand networks (packages/shared/src/networks.ts)\<close>

text \<open>
  The CAIP-2 identifiers, their normalisation and the asset lookup. The SDK \<open>@x402/avm\<close> is not
  part of the repository: its constants, its \<open>normalizeAlgorandNetwork\<close> (which throws on an
  unknown network, here \<open>None\<close>) and its \<open>USDC_CONFIG\<close> table are the fields of the record \<open>avm\<close>
  that every definition takes. What the code relies on is the predicate \<open>sdk_ok\<close>.
\<close>

record usdc_entry =
  ue_asaId :: string
  ue_decimals :: int

record avm =
  avm_mainnet :: string
  avm_testnet :: string
  avm_mainnet_genesis :: string
  avm_testnet_genesis :: string
  avm_normalize :: "string \<Rightarrow> string option"
  avm_usdc :: "string \<Rightarrow> usdc_entry option"

datatype mesh_network = Mainnet | Testnet

definition SUPPORTED_NETWORKS :: "avm \<Rightarrow> string list" where
  "SUPPORTED_NETWORKS a = [avm_mainnet a, avm_testnet a]"

text \<open>A JavaScript object literal: of two equal computed keys the later one stays.\<close>

definition FACILITATOR_NETWORK :: "avm \<Rightarrow> (string, string) jsmap" where
  "FACILITATOR_NETWORK a =
     jset (avm_testnet a) (''algorand:'' @ avm_testnet_genesis a)
       (jset (avm_mainnet a) (''algorand:'' @ avm_mainnet_genesis a) [])"

definition facilitatorNetwork :: "avm \<Rightarrow> string \<Rightarrow> string res" where
  "facilitatorNetwork a network = (case jget (FACILITATOR_NETWORK a) network of
      None \<Rightarrow> throw ConfigErr (''no facilitator network mapping for '' @ network)
    | Some mapped \<Rightarrow> Inr mapped)"

fun toCaip2 :: "avm \<Rightarrow> mesh_network \<Rightarrow> string" where
  "toCaip2 a Mainnet = avm_mainnet a"
| "toCaip2 a Testnet = avm_testnet a"

definition normalizeNetwork :: "avm \<Rightarrow> string \<Rightarrow> string res" where
  "normalizeNetwork a raw =
     (if trim raw = [] then throw ConfigErr ''network must be a non-empty CAIP-2 string''
      else (case avm_normalize a (trim raw) of
              Some n \<Rightarrow> Inr n
            | None \<Rightarrow> throw ConfigErr (''unsupported network: '' @ trim raw)))"

definition isSupportedNetwork :: "avm \<Rightarrow> string \<Rightarrow> bool" where
  "isSupportedNetwork a raw = (case normalizeNetwork a raw of Inr _ \<Rightarrow> True | Inl _ \<Rightarrow> False)"

definition toMeshNetwork :: "avm \<Rightarrow> string \<Rightarrow> mesh_network res" where
  "toMeshNetwork a network = bind_res (normalizeNetwork a network)
     (\<lambda>canonical. Inr (if canonical = avm_mainnet a then Mainnet else Testnet))"

definition USDC_CHAIN_DECIMALS :: int where "USDC_CHAIN_DECIMALS = 6"

definition usdcAssetId :: "avm \<Rightarrow> string \<Rightarrow> string res" where
  "usdcAssetId a network = bind_res (normalizeNetwork a network) (\<lambda>canonical.
     case avm_usdc a canonical of
       None \<Rightarrow> throw ConfigErr (''no USDC asset configured for network: '' @ canonical)
     | Some entry \<Rightarrow>
         if ue_decimals entry \<noteq> USDC_CHAIN_DECIMALS
         then throw ConfigErr (''USDC decimals mismatch on '' @ canonical @ '': expected '' @
                int_str USDC_CHAIN_DECIMALS @ '', got '' @ int_str (ue_decimals entry))
         else Inr (ue_asaId entry))"

subsection \<open>What the code relies on in the SDK\<close>

text \<open>
  Normalisation answers one of the two canonical identifiers and leaves those alone; the two
  networks differ. This is the documented behaviour of \<open>normalizeAlgorandNetwork\<close>.
\<close>

definition sdk_ok :: "avm \<Rightarrow> bool" where
  "sdk_ok a \<longleftrightarrow>
     avm_mainnet a \<noteq> avm_testnet a \<and>
     (\<forall>n \<in> set (SUPPORTED_NETWORKS a). n \<noteq> [] \<and> trim n = n \<and> avm_normalize a n = Some n) \<and>
     (\<forall>raw n. avm_normalize a raw = Some n \<longrightarrow> n \<in> set (SUPPORTED_NETWORKS a))"

lemma normalize_result:
  assumes "sdk_ok a" and "normalizeNetwork a raw = Inr n"
  shows "n \<in> set (SUPPORTED_NETWORKS a)"
  using assms by (auto simp: normalizeNetwork_def sdk_ok_def split: if_splits option.splits)

lemma normalize_canonical:
  "sdk_ok a \<Longrightarrow> n \<in> set (SUPPORTED_NETWORKS a) \<Longrightarrow> normalizeNetwork a n = Inr n"
  by (simp add: normalizeNetwork_def sdk_ok_def)

lemma normalize_idem:
  "sdk_ok a \<Longrightarrow> normalizeNetwork a raw = Inr n \<Longrightarrow> normalizeNetwork a n = Inr n"
  by (blast intro: normalize_canonical normalize_result)

lemma toCaip2_supported: "toCaip2 a n \<in> set (SUPPORTED_NETWORKS a)"
  by (cases n) (simp_all add: SUPPORTED_NETWORKS_def)

lemma mesh_caip2: "sdk_ok a \<Longrightarrow> toMeshNetwork a (toCaip2 a n) = Inr n"
  using normalize_canonical [OF _ toCaip2_supported [of a n]]
  by (cases n) (auto simp: toMeshNetwork_def sdk_ok_def)

lemma caip2_mesh:
  assumes "sdk_ok a" and "toMeshNetwork a raw = Inr n"
  shows "normalizeNetwork a raw = Inr (toCaip2 a n)"
proof -
  obtain c where c: "normalizeNetwork a raw = Inr c" "n = (if c = avm_mainnet a then Mainnet else Testnet)"
    using assms(2) by (auto simp: toMeshNetwork_def bind_res_Inr_iff)
  from normalize_result [OF assms(1) c(1)] have "c = avm_mainnet a \<or> c = avm_testnet a"
    by (simp add: SUPPORTED_NETWORKS_def)
  with c assms(1) show ?thesis by (auto simp: sdk_ok_def)
qed

lemma facilitator_total: "sdk_ok a \<Longrightarrow> isOk (facilitatorNetwork a (toCaip2 a n))"
  by (cases n) (auto simp: sdk_ok_def facilitatorNetwork_def FACILITATOR_NETWORK_def jget_jset)

subsection \<open>An SDK that keeps the contract\<close>

definition demo_avm :: avm where
  "demo_avm =
     \<lparr>avm_mainnet = ''algorand:wGHE2Pwdvd7S12BL5FaOP20EGYesN73k'',
      avm_testnet = ''algorand:SGO1GKSzyE7IEPItTxCByw9x8FmnrCDe'',
      avm_mainnet_genesis = ''wGHE2Pwdvd7S12BL5FaOP20EGYesN73ktiC1qzkkit8='',
      avm_testnet_genesis = ''SGO1GKSzyE7IEPItTxCByw9x8FmnrCDexi9/cOUJOiI='',
      avm_normalize = (\<lambda>s.
        if s = ''algorand:wGHE2Pwdvd7S12BL5FaOP20EGYesN73k''
         \<or> s = ''algorand:wGHE2Pwdvd7S12BL5FaOP20EGYesN73ktiC1qzkkit8=''
        then Some ''algorand:wGHE2Pwdvd7S12BL5FaOP20EGYesN73k''
        else if s = ''algorand:SGO1GKSzyE7IEPItTxCByw9x8FmnrCDe''
         \<or> s = ''algorand:SGO1GKSzyE7IEPItTxCByw9x8FmnrCDexi9/cOUJOiI=''
        then Some ''algorand:SGO1GKSzyE7IEPItTxCByw9x8FmnrCDe'' else None),
      avm_usdc = (\<lambda>n. if n = ''algorand:wGHE2Pwdvd7S12BL5FaOP20EGYesN73k''
        then Some \<lparr>ue_asaId = ''31566704'', ue_decimals = 6\<rparr>
        else if n = ''algorand:SGO1GKSzyE7IEPItTxCByw9x8FmnrCDe''
        then Some \<lparr>ue_asaId = ''10458941'', ue_decimals = 6\<rparr> else None)\<rparr>"

lemma demo_sdk_ok: "sdk_ok demo_avm"
proof -
  have "trim n = n" if "n \<in> set (SUPPORTED_NETWORKS demo_avm)" for n
    using that by (intro trim_no_outer_ws) (auto simp: SUPPORTED_NETWORKS_def demo_avm_def is_ws_def code_def)
  then show ?thesis
    by (auto simp: sdk_ok_def SUPPORTED_NETWORKS_def demo_avm_def split: if_splits)
qed

subsection \<open>Properties\<close>

text \<open>
  The selector of a network and its CAIP-2 identifier determine each other: translating a
  selector and back gives the selector, and every network string that resolves to a selector
  normalises to that selector's identifier, whichever encoding it came in, for which the
  facilitator's form exists. The first hypothesis is the documented behaviour of the SDK.
\<close>

theorem network_round_trip:
  assumes "sdk_ok a" and "toMeshNetwork a raw = Inr m"
  shows "toMeshNetwork a (toCaip2 a n) = Inr n \<and> normalizeNetwork a raw = Inr (toCaip2 a m) \<and>
         isOk (facilitatorNetwork a (toCaip2 a m))"
  using mesh_caip2 [OF assms(1)] caip2_mesh [OF assms] facilitator_total [OF assms(1)] by blast

theorem network_round_trip_witness:
  "toMeshNetwork demo_avm (toCaip2 demo_avm Mainnet) = Inr Mainnet \<and>
   normalizeNetwork demo_avm (avm_testnet demo_avm) = Inr (avm_testnet demo_avm) \<and>
   isOk (facilitatorNetwork demo_avm (avm_testnet demo_avm))"
  using network_round_trip [OF demo_sdk_ok, of "avm_testnet demo_avm" Testnet Mainnet]
    mesh_caip2 [OF demo_sdk_ok, of Testnet] by simp

end
