(* ===== verification/Signing.thy ===== *)
theory Signing
  imports Json Networks Types "HOL-Library.Word"
begin

section \<open>Signed payloads (packages/shared/src/signing.ts)\<close>

text \<open>
  The bytes an operator signs: a domain separator, a newline and the canonical JSON of a fixed
  projection. The lemmas show that the bytes determine every projected field, that they do not
  depend on the order in which keys were inserted, and that a registration is never a heartbeat.
  \<open>TextEncoder\<close> is UTF-8, written out for code units below 256. \<open>registrationNonce\<close> draws random
  bytes and is not modelled.
\<close>

definition REGISTRATION_DOMAIN :: string where "REGISTRATION_DOMAIN = ''x402-mesh/node-registration/v1''"
definition HEARTBEAT_DOMAIN :: string where "HEARTBEAT_DOMAIN = ''x402-mesh/node-heartbeat/v1''"

definition byte :: "nat \<Rightarrow> 8 word" where
  "byte n = of_nat n"

definition utf8_char :: "char \<Rightarrow> 8 word list" where
  "utf8_char c = (if code c < 128 then [byte (code c)]
                  else [byte (192 + code c div 64), byte (128 + code c mod 64)])"

definition utf8 :: "string \<Rightarrow> 8 word list" where
  "utf8 s = concat (map utf8_char s)"

definition num_of_int :: "int \<Rightarrow> jsval" where
  "num_of_int i = JNum (Fin (of_int i))"

definition projectCapability :: "node_capability \<Rightarrow> jsval" where
  "projectCapability c = JObj
     ([(''model'', JStr (c_model c)),
       (''contextWindow'', num_of_int (c_contextWindow c)),
       (''pricePer1kTokensUsdc'', JStr (c_pricePer1kTokensUsdc c))] @
      (case c_quantization c of None \<Rightarrow> [] | Some q \<Rightarrow> [(''quantization'', JStr q)]))"

definition registration_projection :: "node_registration \<Rightarrow> string \<Rightarrow> jsval" where
  "registration_projection r network = JObj
     [(''nodeId'', JStr (r_nodeId r)),
      (''operatorAddress'', JStr (r_operatorAddress r)),
      (''endpoint'', JStr (r_endpoint r)),
      (''capabilities'', JArr (map projectCapability (r_capabilities r))),
      (''network'', JStr network),
      (''version'', JStr (r_version r)),
      (''timestamp'', num_of_int (r_timestamp r)),
      (''nonce'', JStr (r_nonce r))]"

definition domainSeparatedBytes :: "(rat \<Rightarrow> string) \<Rightarrow> string \<Rightarrow> jsval \<Rightarrow> 8 word list res" where
  "domainSeparatedBytes fmt domain payload =
     bind_res (canonicalJson fmt payload) (\<lambda>text. Inr (utf8 (domain @ [CHR 0x0A] @ text)))"

definition canonicalRegistrationBytes ::
  "(rat \<Rightarrow> string) \<Rightarrow> avm \<Rightarrow> node_registration \<Rightarrow> 8 word list res" where
  "canonicalRegistrationBytes fmt a r =
     bind_res (normalizeNetwork a (r_network r)) (\<lambda>network.
       bind_res (canonicalJson fmt (registration_projection r network))
         (\<lambda>text. Inr (utf8 (REGISTRATION_DOMAIN @ [CHR 0x0A] @ text))))"

definition heartbeat_projection :: "node_heartbeat \<Rightarrow> jsval" where
  "heartbeat_projection h = JObj
     [(''nodeId'', JStr (hb_nodeId h)),
      (''healthy'', JBool (hb_healthy h)),
      (''inFlight'', num_of_int (hb_inFlight h)),
      (''maxConcurrency'', num_of_int (hb_maxConcurrency h)),
      (''version'', JStr (hb_version h)),
      (''timestamp'', num_of_int (hb_timestamp h)),
      (''nonce'', JStr (hb_nonce h))]"

definition canonicalHeartbeatBytes :: "(rat \<Rightarrow> string) \<Rightarrow> node_heartbeat \<Rightarrow> 8 word list res" where
  "canonicalHeartbeatBytes fmt h = domainSeparatedBytes fmt HEARTBEAT_DOMAIN (heartbeat_projection h)"

definition REGISTRATION_MAX_SKEW_MS :: int where "REGISTRATION_MAX_SKEW_MS = 120000"

text \<open>A timestamp that passed a schema is an integer; the first guard of the source is discharged by the type.\<close>

definition assertFreshTimestamp :: "int \<Rightarrow> int \<Rightarrow> unit res" where
  "assertFreshTimestamp ts now =
     (let skew = ts - now
      in if REGISTRATION_MAX_SKEW_MS < \<bar>skew\<bar>
         then throw ValidationErr (if 0 < skew then ''registration timestamp is too far in the future''
                                   else ''registration timestamp is too old'')
         else Inr ())"

lemma fresh_iff: "isOk (assertFreshTimestamp ts now) \<longleftrightarrow> \<bar>ts - now\<bar> \<le> REGISTRATION_MAX_SKEW_MS"
  by (auto simp: assertFreshTimestamp_def Let_def)

subsection \<open>UTF-8 is injective\<close>

lemma byte_eq: "m < 256 \<Longrightarrow> n < 256 \<Longrightarrow> byte m = byte n \<longleftrightarrow> m = n"
proof -
  assume "m < 256" "n < 256"
  then have "unat (byte m) = m" "unat (byte n) = n"
    by (simp_all add: byte_def unat_of_nat take_bit_eq_mod)
  then show ?thesis by metis
qed

lemma utf8_char_split:
  assumes "utf8_char c @ r = utf8_char d @ r'"
  shows "c = d \<and> r = r'"
proof -
  have lt: "code x < 256" "192 + code x div 64 < 256" "128 + code x mod 64 < 256" for x
    using code_less [of x] by auto
  have dm: "c = d" if "code c div 64 = code d div 64" "code c mod 64 = code d mod 64"
    using that by (metis div_mult_mod_eq code_inj)
  from assms show ?thesis
    using dm by (auto simp: utf8_char_def byte_eq lt code_inj split: if_splits)
qed

lemma utf8_Cons: "utf8 (c # s) = utf8_char c @ utf8 s" and utf8_Nil [simp]: "utf8 [] = []"
  by (simp_all add: utf8_def)

lemma utf8_inj: "utf8 s = utf8 t \<longleftrightarrow> s = t"
proof
  show "utf8 s = utf8 t \<Longrightarrow> s = t"
  proof (induction s arbitrary: t)
    case Nil
    then show ?case by (cases t) (auto simp: utf8_Cons utf8_char_def split: if_splits)
  next
    case (Cons c s)
    then show ?case
    proof (cases t)
      case Nil
      with Cons.prems show ?thesis by (auto simp: utf8_Cons utf8_char_def split: if_splits)
    next
      case (Cons d t')
      with Cons.prems utf8_char_split [of c "utf8 s" d "utf8 t'"] Cons.IH show ?thesis
        by (simp add: utf8_Cons)
    qed
  qed
qed simp

subsection \<open>The canonical tree of the signed projections\<close>

definition signed_text :: "string \<Rightarrow> tree \<Rightarrow> (rat \<Rightarrow> string) \<Rightarrow> 8 word list" where
  "signed_text domain t fmt = utf8 (domain @ [CHR 0x0A] @ render fmt t)"

lemma signed_text_inj:
  assumes "signed_text d t fmt = signed_text d u fmt" "int_tree t" "int_tree u"
  shows "t = u"
proof -
  have "render fmt t @ [] = render fmt u @ []" using assms(1) by (simp add: signed_text_def utf8_inj)
  from render_split [OF assms(2,3) _ _ this] show ?thesis by simp
qed

lemma plain_int [simp]: "is_plain_int (of_int i) \<longleftrightarrow> \<bar>i\<bar> < 10 ^ 21"
  by (simp add: is_plain_int_def)

text \<open>Looking a key up in the tree of an object finds the tree of the member.\<close>

lemma opt_list_map_of:
  assumes "opt_list (\<lambda>kv. map_option (Pair (fst kv)) (normal (snd kv))) kvs = Some kts"
  shows "map_of kts k = Option.bind (map_of kvs k) normal"
  using assms
proof (induction kvs arbitrary: kts)
  case (Cons kv kvs)
  then show ?case by (cases kv) (auto split: Option.bind_splits)
qed simp

lemma map_of_defined_entries:
  assumes "distinct (map fst kvs)"
  shows "map_of (filter (\<lambda>kv. snd kv \<noteq> JUndef) kvs) k
       = (if map_of kvs k = Some JUndef then None else map_of kvs k)"
  using assms
proof (induction kvs)
  case (Cons kv kvs)
  then have IH: "map_of (filter (\<lambda>kv. snd kv \<noteq> JUndef) kvs) k
       = (if map_of kvs k = Some JUndef then None else map_of kvs k)" by simp
  obtain a b where kv: "kv = (a, b)" by (cases kv)
  show ?case
  proof (cases "k = a")
    case True
    with Cons.prems kv have "map_of kvs k = None" by (simp add: map_of_eq_None_iff)
    with IH True kv show ?thesis by simp
  next
    case False
    with IH kv show ?thesis by simp
  qed
qed simp

lemma map_of_sorted_entries:
  assumes "distinct (map fst kvs)"
  shows "map_of (sorted_entries kvs) k = (if map_of kvs k = Some JUndef then None else map_of kvs k)"
proof -
  let ?f = "filter (\<lambda>kv. snd kv \<noteq> JUndef) kvs"
  have d: "distinct (map fst ?f)" using assms by (rule distinct_map_filter)
  moreover have "distinct (map fst (sorted_entries kvs))"
    using d by (simp add: distinct_map sorted_entries_def)
  moreover have "set (sorted_entries kvs) = set ?f" by (simp add: sorted_entries_def)
  ultimately have "map_of (sorted_entries kvs) = map_of ?f"
    by (simp add: map_of_inject_set)
  then show ?thesis using map_of_defined_entries [OF assms, of k] by (simp only:)
qed

lemma object_member:
  assumes "normal (JObj kvs) = Some (TObj kts)" "distinct (map fst kvs)"
  shows "map_of kts k = (if map_of kvs k = Some JUndef then None else Option.bind (map_of kvs k) normal)"
proof -
  have "opt_list (\<lambda>kv. map_option (Pair (fst kv)) (normal (snd kv))) (sorted_entries kvs) = Some kts"
    using assms(1) by auto
  from opt_list_map_of [OF this, of k] map_of_sorted_entries [OF assms(2), of k] show ?thesis
    by simp
qed

function plain_val :: "jsval \<Rightarrow> bool" where
  "plain_val (JNum v) = (case v of Fin q \<Rightarrow> is_plain_int q | _ \<Rightarrow> False)"
| "plain_val (JArr vs) = (\<forall>v \<in> set vs. plain_val (null_if_undefined v))"
| "plain_val (JObj kvs) = (\<forall>kv \<in> set (sorted_entries kvs). plain_val (snd kv))"
| "plain_val JUndef = False"
| "plain_val JFun = False"
| "plain_val JNull = True"
| "plain_val (JBool b) = True"
| "plain_val (JBig i) = True"
| "plain_val (JStr s) = True"
| "plain_val (JErr e) = True"
  by pat_completeness auto
termination
proof (relation "measure size")
  fix vs and v :: jsval
  assume "v \<in> set vs"
  then have "size v < Suc (size_list size vs)" by (simp add: less_Suc_eq_le size_list_estimation')
  moreover have "size (null_if_undefined v) \<le> size v" by (auto simp: null_if_undefined_def)
  ultimately show "(null_if_undefined v, JArr vs) \<in> measure size" by simp
qed (simp_all add: less_Suc_eq_le [symmetric])

lemma opt_list_total:
  assumes "\<And>x. x \<in> set xs \<Longrightarrow> \<exists>y. f x = Some y \<and> P y"
  shows "\<exists>ys. opt_list f xs = Some ys \<and> (\<forall>y \<in> set ys. P y)"
  using assms
proof (induction xs)
  case (Cons x xs)
  then obtain ys where "opt_list f xs = Some ys" "\<forall>y \<in> set ys. P y" by auto
  moreover obtain y where "f x = Some y" "P y" using Cons.prems [of x] by auto
  ultimately show ?case by auto
qed simp

lemma plain_normal: "plain_val v \<Longrightarrow> \<exists>t. normal v = Some t \<and> int_tree t"
proof (induction v rule: normal.induct)
  case (6 vs)
  then have "\<exists>t. normal (null_if_undefined v) = Some t \<and> int_tree t" if "v \<in> set vs" for v
    using that by simp
  then obtain ts where
    "opt_list (\<lambda>v. normal (null_if_undefined v)) vs = Some ts" "\<forall>t \<in> set ts. int_tree t"
    using opt_list_total [where f = "\<lambda>v. normal (null_if_undefined v)" and xs = vs and P = int_tree] by blast
  then show ?case by simp
next
  case (7 kvs)
  have "\<exists>kt. map_option (Pair (fst kv)) (normal (snd kv)) = Some kt \<and> int_tree (snd kt)"
    if "kv \<in> set (sorted_entries kvs)" for kv
    using "7.IH" [OF that] "7.prems" that by auto
  then obtain kts where
    "opt_list (\<lambda>kv. map_option (Pair (fst kv)) (normal (snd kv))) (sorted_entries kvs) = Some kts"
    "\<forall>kt \<in> set kts. int_tree (snd kt)"
    using opt_list_total [where f = "\<lambda>kv. map_option (Pair (fst kv)) (normal (snd kv))"
      and xs = "sorted_entries kvs" and P = "\<lambda>kt. int_tree (snd kt)"] by blast
  then show ?case by simp
qed (auto split: jsnum.splits)

lemma plain_object:
  "(\<And>k v. (k, v) \<in> set kvs \<Longrightarrow> plain_val v) \<Longrightarrow> plain_val (JObj kvs)"
  by (auto simp: sorted_entries_def)

lemma plain_object_tree:
  assumes "plain_val (JObj kvs)"
  shows "\<exists>kts. normal (JObj kvs) = Some (TObj kts) \<and> int_tree (TObj kts)"
  using plain_normal [OF assms] by auto

subsection \<open>Which registrations can be signed\<close>

definition small_int :: "int \<Rightarrow> bool" where
  "small_int i \<longleftrightarrow> \<bar>i\<bar> < 10 ^ 21"

definition signable :: "node_registration \<Rightarrow> bool" where
  "signable r \<longleftrightarrow> small_int (r_timestamp r) \<and> list_all (\<lambda>c. small_int (c_contextWindow c)) (r_capabilities r)"

definition signable_beat :: "node_heartbeat \<Rightarrow> bool" where
  "signable_beat h \<longleftrightarrow> small_int (hb_inFlight h) \<and> small_int (hb_maxConcurrency h) \<and> small_int (hb_timestamp h)"

lemma plain_num [simp]: "plain_val (num_of_int i) \<longleftrightarrow> small_int i"
  by (simp add: num_of_int_def small_int_def)

lemma plain_capability: "small_int (c_contextWindow c) \<Longrightarrow> plain_val (projectCapability c)"
  unfolding projectCapability_def by (rule plain_object) (auto split: option.splits)

lemma capability_defined [simp]: "null_if_undefined (projectCapability c) = projectCapability c"
  by (simp add: null_if_undefined_def projectCapability_def)

lemma plain_registration: "signable r \<Longrightarrow> plain_val (registration_projection r net)"
  unfolding registration_projection_def
  by (rule plain_object) (auto simp: signable_def list_all_iff plain_capability)

lemma plain_heartbeat: "signable_beat h \<Longrightarrow> plain_val (heartbeat_projection h)"
  unfolding heartbeat_projection_def by (rule plain_object) (auto simp: signable_beat_def)

lemma num_tree [simp]: "normal (num_of_int i) = Some (TNum (of_int i))"
  by (simp add: num_of_int_def)

lemma num_defined [simp]: "num_of_int i \<noteq> JUndef"
  by (simp add: num_of_int_def)

lemma same_members:
  assumes "normal (JObj kvs) = normal (JObj kvs')" "normal (JObj kvs) = Some t"
    and "distinct (map fst kvs)" "distinct (map fst kvs')"
    and "list_all (\<lambda>kv. snd kv \<noteq> JUndef) kvs" "list_all (\<lambda>kv. snd kv \<noteq> JUndef) kvs'"
  shows "Option.bind (map_of kvs k) normal = Option.bind (map_of kvs' k) normal"
proof -
  obtain kts where t: "t = TObj kts" using assms(2) by auto
  have "map_of kvs k \<noteq> Some JUndef" "map_of kvs' k \<noteq> Some JUndef"
    using assms(5,6) by (auto simp: list_all_iff dest!: map_of_SomeD)
  then show ?thesis
    using object_member [of kvs kts k] object_member [of kvs' kts k] assms(1-4) t by simp
qed

lemma opt_list_inj:
  assumes "opt_list f xs = opt_list f ys" "opt_list f xs = Some zs"
    and "\<And>x y. x \<in> set xs \<Longrightarrow> y \<in> set ys \<Longrightarrow> f x = f y \<Longrightarrow> x = y"
  shows "xs = ys"
  using assms
proof (induction xs arbitrary: ys zs)
  case Nil
  then show ?case by (cases ys) (auto split: Option.bind_splits)
next
  case (Cons x xs)
  from Cons.prems(2) obtain z zs' where z: "f x = Some z" "opt_list f xs = Some zs'"
    by (auto split: Option.bind_splits)
  with Cons.prems(1) obtain y ys' where y: "ys = y # ys'" "f y = Some z" "opt_list f ys' = Some zs'"
    by (cases ys) (auto split: Option.bind_splits)
  with Cons.prems(3) [of x y] z have "x = y" by simp
  moreover from Cons.IH [of ys' zs'] Cons.prems(3) z y have "xs = ys'" by simp
  ultimately show ?case using y by simp
qed

lemma projection_members:
  assumes "normal (JObj kvs) = normal (JObj kvs')" "plain_val (JObj kvs)"
    and "distinct (map fst kvs)" "distinct (map fst kvs')"
    and "list_all (\<lambda>kv. snd kv \<noteq> JUndef) kvs" "list_all (\<lambda>kv. snd kv \<noteq> JUndef) kvs'"
  shows "Option.bind (map_of kvs k) normal = Option.bind (map_of kvs' k) normal"
  using plain_normal [OF assms(2)] same_members [OF assms(1) _ assms(3-6)] by blast

text \<open>One statement per projection: its canonical tree determines the fields.\<close>

lemma normal_num_inj: "normal (num_of_int i) = normal (num_of_int j) \<longleftrightarrow> i = j"
  by simp

lemma capability_determined:
  assumes "normal (projectCapability c) = normal (projectCapability d)" "small_int (c_contextWindow c)"
  shows "c = d"
proof -
  have m: "Option.bind (map_of kvs k) normal = Option.bind (map_of kvs' k) normal"
    if "projectCapability c = JObj kvs" "projectCapability d = JObj kvs'" for kvs kvs' k
  proof (rule projection_members)
    show "normal (JObj kvs) = normal (JObj kvs')" "plain_val (JObj kvs)"
      using assms plain_capability [of c] that by (metis)+
  qed (use that in \<open>auto simp: projectCapability_def split: option.splits\<close>)
  note field = m [unfolded projectCapability_def, OF refl refl]
  have "c_model c = c_model d" using field [of "''model''"] by (simp split: option.splits)
  moreover have "c_contextWindow c = c_contextWindow d"
    using field [of "''contextWindow''"] by (simp split: option.splits)
  moreover have "c_pricePer1kTokensUsdc c = c_pricePer1kTokensUsdc d"
    using field [of "''pricePer1kTokensUsdc''"] by (simp split: option.splits)
  moreover have "c_quantization c = c_quantization d"
    using field [of "''quantization''"] by (auto split: option.splits)
  ultimately show ?thesis by simp
qed

lemma capabilities_determined:
  assumes "normal (JArr (map projectCapability cs)) = normal (JArr (map projectCapability ds))"
    and "list_all (\<lambda>c. small_int (c_contextWindow c)) cs"
  shows "cs = ds"
proof -
  have ol: "opt_list (\<lambda>v. normal (null_if_undefined v)) (map projectCapability us)
      = opt_list (\<lambda>c. normal (projectCapability c)) us" for us
    by (induction us) simp_all
  have "\<exists>t. normal (projectCapability c) = Some t \<and> True" if "c \<in> set cs" for c
    using plain_normal [OF plain_capability] assms(2) that by (fastforce simp: list_all_iff)
  then obtain ts where ts: "opt_list (\<lambda>c. normal (projectCapability c)) cs = Some ts"
    using opt_list_total [where f = "\<lambda>c. normal (projectCapability c)" and xs = cs and P = "\<lambda>_. True"] by blast
  moreover have "opt_list (\<lambda>c. normal (projectCapability c)) cs = opt_list (\<lambda>c. normal (projectCapability c)) ds"
    using assms(1) ts unfolding normal.simps ol by (auto simp: map_option_case split: option.splits)
  ultimately show ?thesis
    using assms(2) by (intro opt_list_inj [where f = "\<lambda>c. normal (projectCapability c)"])
      (auto simp: list_all_iff intro: capability_determined)
qed

subsection \<open>Properties\<close>

text \<open>
  Canonical JSON identifies values exactly up to canonical form: when two values hold only
  integer numbers below `10^21`, they serialize to the same text if and only if their trees with
  sorted keys, without undefined members, and with undefined items as null agree.
\<close>

theorem canonical_text_determines:
  assumes "plain_val v" and "plain_val w"
  shows "canonicalJson fmt v = canonicalJson fmt w \<longleftrightarrow> normal v = normal w"
proof -
  obtain t where t: "normal v = Some t" "int_tree t" using plain_normal [OF assms(1)] by blast
  obtain u where u: "normal w = Some u" "int_tree u" using plain_normal [OF assms(2)] by blast
  have c: "canonicalJson fmt v = Inr (render fmt t)" "canonicalJson fmt w = Inr (render fmt u)"
    using render_is_canonical t u by blast+
  show ?thesis
    using render_split [OF t(2) u(2), of "[]" "[]" fmt] c t u by auto
qed

definition ex_value :: jsval where
  "ex_value = JObj [(''b'', JArr [JUndef, num_of_int 7]), (''a'', JStr [CHR 0x22]), (''c'', JUndef)]"

definition ex_value_sorted :: jsval where
  "ex_value_sorted = JObj [(''a'', JStr [CHR 0x22]), (''b'', JArr [JNull, num_of_int 7])]"

lemma ex_values_plain: "plain_val ex_value" "plain_val ex_value_sorted"
  by (auto simp: ex_value_def ex_value_sorted_def sorted_entries_def null_if_undefined_def small_int_def)

lemma ex_values_normal: "normal ex_value = normal ex_value_sorted"
  by (simp add: ex_value_def ex_value_sorted_def sorted_entries_def null_if_undefined_def)

theorem canonical_text_determines_witness:
  "canonicalJson (\<lambda>_. []) ex_value = canonicalJson (\<lambda>_. []) ex_value_sorted"
  using canonical_text_determines [OF ex_values_plain, of "\<lambda>_. []"] ex_values_normal by blast

text \<open>
  C21: The signed bytes of a registration bind every field: two registrations with the same bytes
  agree on the node id, the operator address, the endpoint, the capabilities, the version, the
  timestamp and the nonce, and their networks normalise to the same identifier.
\<close>

theorem registration_bytes_bind:
  assumes "canonicalRegistrationBytes fmt a r = Inr b" and "canonicalRegistrationBytes fmt a r' = Inr b"
    and "signable r" and "signable r'"
  shows "r_nodeId r = r_nodeId r' \<and> r_operatorAddress r = r_operatorAddress r' \<and>
         r_endpoint r = r_endpoint r' \<and> r_capabilities r = r_capabilities r' \<and>
         r_version r = r_version r' \<and> r_timestamp r = r_timestamp r' \<and> r_nonce r = r_nonce r' \<and>
         normalizeNetwork a (r_network r) = normalizeNetwork a (r_network r')"
proof -
  from assms(1) obtain n s where n: "normalizeNetwork a (r_network r) = Inr n"
    "canonicalJson fmt (registration_projection r n) = Inr s" "b = utf8 (REGISTRATION_DOMAIN @ [CHR 0x0A] @ s)"
    by (auto simp: canonicalRegistrationBytes_def bind_res_Inr_iff)
  from assms(2) obtain n' s' where n': "normalizeNetwork a (r_network r') = Inr n'"
    "canonicalJson fmt (registration_projection r' n') = Inr s'" "b = utf8 (REGISTRATION_DOMAIN @ [CHR 0x0A] @ s')"
    by (auto simp: canonicalRegistrationBytes_def bind_res_Inr_iff)
  have "s = s'" using n(3) n'(3) by (simp add: utf8_inj)
  with n(2) n'(2) canonical_text_determines [OF plain_registration [OF assms(3)] plain_registration [OF assms(4)]]
  have same: "normal (registration_projection r n) = normal (registration_projection r' n')" by metis
  have m: "Option.bind (map_of kvs k) normal = Option.bind (map_of kvs' k) normal"
    if "registration_projection r n = JObj kvs" "registration_projection r' n' = JObj kvs'" for kvs kvs' k
  proof (rule projection_members)
    show "normal (JObj kvs) = normal (JObj kvs')" "plain_val (JObj kvs)"
      using same plain_registration [OF assms(3)] that by metis+
  qed (use that in \<open>auto simp: registration_projection_def\<close>)
  note field = m [unfolded registration_projection_def, OF refl refl]
  have caps: "r_capabilities r = r_capabilities r'"
    using field [of "''capabilities''"] assms(3)
    by (intro capabilities_determined) (simp_all add: signable_def del: normal.simps)
  show ?thesis
    using field [of "''nodeId''"] field [of "''operatorAddress''"] field [of "''endpoint''"]
      field [of "''network''"] field [of "''version''"] field [of "''timestamp''"] field [of "''nonce''"] n n' caps
    by simp
qed

definition ex_registration :: "string \<Rightarrow> node_registration" where
  "ex_registration network =
     \<lparr>r_nodeId = ''node-1'', r_operatorAddress = ''OP'', r_endpoint = ''https://n1.example'',
      r_capabilities = [\<lparr>c_model = ''m'', c_contextWindow = 8192, c_pricePer1kTokensUsdc = ''0.001'',
                         c_quantization = None\<rparr>],
      r_network = network, r_version = ''0.1.0'', r_timestamp = 1767225600000, r_nonce = ''00''\<rparr>"

abbreviation testnet_full :: string where
  "testnet_full \<equiv> ''algorand:SGO1GKSzyE7IEPItTxCByw9x8FmnrCDexi9/cOUJOiI=''"

lemma ex_registration_signable: "signable (ex_registration n)"
  by (simp add: signable_def small_int_def ex_registration_def)

lemma testnet_full_normal: "normalizeNetwork demo_avm testnet_full = Inr (avm_testnet demo_avm)"
proof -
  have "trim testnet_full = testnet_full" by (rule trim_no_outer_ws) (simp add: is_ws_def code_def)
  then show ?thesis by (simp add: normalizeNetwork_def demo_avm_def)
qed

lemma testnet_normal: "normalizeNetwork demo_avm (avm_testnet demo_avm) = Inr (avm_testnet demo_avm)"
  by (rule normalize_canonical [OF demo_sdk_ok]) (simp add: SUPPORTED_NETWORKS_def)

theorem registration_bytes_bind_witness:
  "\<exists>b. canonicalRegistrationBytes (\<lambda>_. []) demo_avm (ex_registration testnet_full) = Inr b \<and>
       canonicalRegistrationBytes (\<lambda>_. []) demo_avm (ex_registration (avm_testnet demo_avm)) = Inr b \<and>
       normalizeNetwork demo_avm testnet_full = normalizeNetwork demo_avm (avm_testnet demo_avm)"
proof -
  let ?r = "ex_registration testnet_full" and ?r' = "ex_registration (avm_testnet demo_avm)"
  have net: "r_network (ex_registration n) = n" for n by (simp add: ex_registration_def)
  obtain t where "normal (registration_projection ?r (avm_testnet demo_avm)) = Some t"
    using plain_normal [OF plain_registration [OF ex_registration_signable]] by blast
  from render_is_canonical [OF this] obtain b where
    b: "canonicalRegistrationBytes (\<lambda>_. []) demo_avm ?r = Inr b"
    by (simp add: canonicalRegistrationBytes_def net testnet_full_normal)
  moreover have "canonicalRegistrationBytes (\<lambda>_. []) demo_avm ?r' = canonicalRegistrationBytes (\<lambda>_. []) demo_avm ?r"
    by (simp add: canonicalRegistrationBytes_def net testnet_full_normal testnet_normal
      registration_projection_def ex_registration_def)
  ultimately have b': "canonicalRegistrationBytes (\<lambda>_. []) demo_avm ?r' = Inr b" by simp
  from registration_bytes_bind [OF b b' ex_registration_signable ex_registration_signable] b b'
  show ?thesis by (auto simp: net)
qed

text \<open>
  The domain separator keeps the two kinds of message apart: the bytes signed for a
  registration are never the bytes signed for a heartbeat, so a captured registration cannot be
  replayed as a heartbeat; and the bytes of a heartbeat bind all its fields.
\<close>

theorem heartbeat_bytes_bind:
  assumes "canonicalHeartbeatBytes fmt h = Inr b" and "signable_beat h"
  shows "canonicalRegistrationBytes fmt a r \<noteq> Inr b \<and>
         (signable_beat h' \<longrightarrow> canonicalHeartbeatBytes fmt h' = Inr b \<longrightarrow> h' = h)"
proof
  from assms(1) obtain s where s: "canonicalJson fmt (heartbeat_projection h) = Inr s"
    "b = utf8 (HEARTBEAT_DOMAIN @ [CHR 0x0A] @ s)"
    by (auto simp: canonicalHeartbeatBytes_def domainSeparatedBytes_def bind_res_Inr_iff)
  show "canonicalRegistrationBytes fmt a r \<noteq> Inr b"
    by (auto simp: canonicalRegistrationBytes_def bind_res_Inr_iff s utf8_inj REGISTRATION_DOMAIN_def
      HEARTBEAT_DOMAIN_def)
  show "signable_beat h' \<longrightarrow> canonicalHeartbeatBytes fmt h' = Inr b \<longrightarrow> h' = h"
  proof (intro impI)
    assume sg: "signable_beat h'" and b: "canonicalHeartbeatBytes fmt h' = Inr b"
    from b s obtain "canonicalJson fmt (heartbeat_projection h') = Inr s"
      by (auto simp: canonicalHeartbeatBytes_def domainSeparatedBytes_def bind_res_Inr_iff utf8_inj)
    with s canonical_text_determines [OF plain_heartbeat [OF sg] plain_heartbeat [OF assms(2)]]
    have same: "normal (heartbeat_projection h') = normal (heartbeat_projection h)" by metis
    have m: "Option.bind (map_of kvs k) normal = Option.bind (map_of kvs' k) normal"
      if "heartbeat_projection h' = JObj kvs" "heartbeat_projection h = JObj kvs'" for kvs kvs' k
    proof (rule projection_members)
      show "normal (JObj kvs) = normal (JObj kvs')" "plain_val (JObj kvs)"
        using same plain_heartbeat [OF sg] that by metis+
    qed (use that in \<open>auto simp: heartbeat_projection_def\<close>)
    note field = m [unfolded heartbeat_projection_def, OF refl refl]
    show "h' = h"
      using field [of "''nodeId''"] field [of "''healthy''"] field [of "''inFlight''"]
        field [of "''maxConcurrency''"] field [of "''version''"] field [of "''timestamp''"] field [of "''nonce''"]
      by simp
  qed
qed

definition ex_beat :: node_heartbeat where
  "ex_beat = \<lparr>hb_nodeId = ''node-1'', hb_healthy = True, hb_inFlight = 0, hb_maxConcurrency = 8,
     hb_version = ''0.1.0'', hb_timestamp = 1767225600000, hb_nonce = ''01''\<rparr>"

lemma ex_beat_bytes:
  "signable_beat ex_beat" "\<exists>b. canonicalHeartbeatBytes (\<lambda>_. []) ex_beat = Inr b"
proof -
  show sg: "signable_beat ex_beat" by (simp add: signable_beat_def small_int_def ex_beat_def)
  obtain t where "normal (heartbeat_projection ex_beat) = Some t"
    using plain_normal [OF plain_heartbeat [OF sg]] by blast
  from render_is_canonical [OF this] show "\<exists>b. canonicalHeartbeatBytes (\<lambda>_. []) ex_beat = Inr b"
    by (simp add: canonicalHeartbeatBytes_def domainSeparatedBytes_def)
qed

theorem heartbeat_bytes_bind_witness:
  "\<exists>b. canonicalHeartbeatBytes (\<lambda>_. []) ex_beat = Inr b \<and>
       canonicalRegistrationBytes (\<lambda>_. []) demo_avm (ex_registration testnet_full) \<noteq> Inr b"
  using ex_beat_bytes(2) heartbeat_bytes_bind [OF _ ex_beat_bytes(1)] by blast

end
