(* ===== verification/NonceCache.thy ===== *)
theory NonceCache
  imports Signing
begin

section \<open>Single-use nonces (packages/gateway/src/services/nonceCache.ts)\<close>

text \<open>
  The replay defence of the signed node routes. The cache is the insertion-ordered map of the
  source; the clock is an argument of \<open>claim\<close>. \<open>expire\<close> and \<open>evict\<close> are the two loops of \<open>prune\<close>:
  deleting the entry under the iterator, or the first key, removes the head of the list.
\<close>

record nonce_cache =
  nc_seen :: "(string, int) jsmap"
  nc_ttlMs :: int
  nc_maxEntries :: int

definition new_nonce_cache :: "int \<Rightarrow> int \<Rightarrow> nonce_cache" where
  "new_nonce_cache ttl cap = \<lparr>nc_seen = [], nc_ttlMs = ttl, nc_maxEntries = cap\<rparr>"

definition default_nonce_cache :: nonce_cache where
  "default_nonce_cache = new_nonce_cache (REGISTRATION_MAX_SKEW_MS * 2) 50000"

fun expire :: "int \<Rightarrow> int \<Rightarrow> (string, int) jsmap \<Rightarrow> (string, int) jsmap" where
  "expire ttl now [] = []"
| "expire ttl now ((nonce, recordedAt) # rest) =
     (if now - recordedAt < ttl then (nonce, recordedAt) # rest else expire ttl now rest)"

fun evict :: "int \<Rightarrow> (string, int) jsmap \<Rightarrow> (string, int) jsmap" where
  "evict cap [] = []"
| "evict cap (e # rest) = (if cap \<le> int (length (e # rest)) then evict cap rest else e # rest)"

definition prune :: "nonce_cache \<Rightarrow> int \<Rightarrow> nonce_cache" where
  "prune c now = c\<lparr>nc_seen := evict (nc_maxEntries c) (expire (nc_ttlMs c) now (nc_seen c))\<rparr>"

definition claim :: "nonce_cache \<Rightarrow> string \<Rightarrow> int \<Rightarrow> nonce_cache \<times> bool" where
  "claim c nonce now =
     (let c' = prune c now
      in case jget (nc_seen c') nonce of
           Some previous \<Rightarrow> if now - previous < nc_ttlMs c' then (c', False)
                            else (c'\<lparr>nc_seen := jset nonce now (nc_seen c')\<rparr>, True)
         | None \<Rightarrow> (c'\<lparr>nc_seen := jset nonce now (nc_seen c')\<rparr>, True))"

definition nc_size :: "nonce_cache \<Rightarrow> nat" where
  "nc_size c = length (nc_seen c)"

text \<open>A history of claims: the answers, and the cache after them.\<close>

fun claims :: "nonce_cache \<Rightarrow> (string \<times> int) list \<Rightarrow> nonce_cache \<times> bool list" where
  "claims c [] = (c, [])"
| "claims c ((nonce, now) # rest) =
     (case claim c nonce now of (c', ok) \<Rightarrow> case claims c' rest of (c'', oks) \<Rightarrow> (c'', ok # oks))"

subsection \<open>The loops of prune\<close>

lemma expire_suffix: "\<exists>p. m = p @ expire ttl now m"
proof (induction m)
  case (Cons e m)
  then obtain p where "m = p @ expire ttl now m" by blast
  then show ?case by (cases e) (auto intro: exI [of _ "e # p"])
qed simp

lemma evict_suffix: "\<exists>p. m = p @ evict cap m"
proof (induction m)
  case (Cons e m)
  then obtain p where "m = p @ evict cap m" by blast
  then show ?case by (auto intro: exI [of _ "e # p"])
qed simp

lemma evict_length: "0 < cap \<Longrightarrow> int (length (evict cap m)) < cap"
  by (induction m) auto

lemma evict_keeps: "int (length m) < cap \<Longrightarrow> evict cap m = m"
  by (cases m) auto

lemma prune_suffix: "\<exists>p. nc_seen c = p @ nc_seen (prune c now)"
  using expire_suffix [of "nc_seen c" "nc_ttlMs c" now]
    evict_suffix [of "expire (nc_ttlMs c) now (nc_seen c)" "nc_maxEntries c"]
  by (simp add: prune_def) (metis append.assoc)

lemma prune_frame [simp]: "nc_ttlMs (prune c now) = nc_ttlMs c" "nc_maxEntries (prune c now) = nc_maxEntries c"
  by (simp_all add: prune_def)

lemma claim_frame [simp]:
  "nc_ttlMs (fst (claim c n now)) = nc_ttlMs c" "nc_maxEntries (fst (claim c n now)) = nc_maxEntries c"
  by (simp_all add: claim_def Let_def split: option.splits)

text \<open>The entries are in the order of their times: the invariant behind the two loops.\<close>

definition nc_inv :: "nonce_cache \<Rightarrow> bool" where
  "nc_inv c \<longleftrightarrow> jwf (nc_seen c) \<and> sorted (map snd (nc_seen c))"

definition nc_before :: "nonce_cache \<Rightarrow> int \<Rightarrow> bool" where
  "nc_before c now \<longleftrightarrow> (\<forall>e \<in> set (nc_seen c). snd e \<le> now)"

lemma prune_inv: "nc_inv c \<Longrightarrow> nc_inv (prune c now)"
  using prune_suffix [of c now] by (auto simp: nc_inv_def jwf_def sorted_append)

lemma prune_before: "nc_before c now \<Longrightarrow> nc_before (prune c now') now"
  using prune_suffix [of c now'] by (auto simp: nc_before_def)

lemma expire_live:
  "sorted (map snd m) \<Longrightarrow> e \<in> set (expire ttl now m) \<Longrightarrow> now - snd e < ttl"
proof (induction m)
  case (Cons x m)
  then show ?case by (cases x) (force split: if_splits)
qed simp

lemma prune_live: "nc_inv c \<Longrightarrow> e \<in> set (nc_seen (prune c now)) \<Longrightarrow> now - snd e < nc_ttlMs c"
  using expire_live [of "nc_seen c" e "nc_ttlMs c" now]
    evict_suffix [of "expire (nc_ttlMs c) now (nc_seen c)" "nc_maxEntries c"]
  by (auto simp: nc_inv_def prune_def) (metis Un_iff set_append)

subsection \<open>One claim\<close>

lemma claim_eq:
  assumes "nc_inv c"
  shows "claim c n now =
     (if jhas (nc_seen (prune c now)) n then (prune c now, False)
      else ((prune c now)\<lparr>nc_seen := nc_seen (prune c now) @ [(n, now)]\<rparr>, True))"
proof (cases "jget (nc_seen (prune c now)) n")
  case None
  then have "\<not> jhas (nc_seen (prune c now)) n" by (simp add: map_of_eq_None_iff)
  with None show ?thesis by (simp add: claim_def Let_def jset_fresh)
next
  case (Some previous)
  then have "(n, previous) \<in> set (nc_seen (prune c now))" by (rule map_of_SomeD)
  with prune_live [OF assms this] Some show ?thesis by (force simp: claim_def Let_def)
qed

lemma claim_inv:
  assumes "nc_inv c" "nc_before c now"
  shows "nc_inv (fst (claim c n now)) \<and> nc_before (fst (claim c n now)) now"
  using prune_inv [OF assms(1), of now] prune_before [OF assms(2), of now] assms(1)
  by (auto simp: claim_eq nc_inv_def jwf_def nc_before_def sorted_append)

lemma before_mono: "nc_before c t \<Longrightarrow> t \<le> u \<Longrightarrow> nc_before c u"
  by (force simp: nc_before_def)

text \<open>An accepted nonce with at most \<open>k\<close> entries behind it.\<close>

definition held_since :: "nonce_cache \<Rightarrow> string \<Rightarrow> int \<Rightarrow> nat \<Rightarrow> bool" where
  "held_since c n t k \<longleftrightarrow> (\<exists>p q. nc_seen c = p @ (n, t) # q \<and> length q \<le> k)"

lemma expire_keeps:
  "now - t < ttl \<Longrightarrow> \<exists>p'. expire ttl now (p @ (n, t) # q) = p' @ (n, t) # q"
proof (induction p)
  case (Cons e p)
  then obtain p' where "expire ttl now (p @ (n, t) # q) = p' @ (n, t) # q" by blast
  then show ?case by (cases e) (auto intro: exI [of _ "e # p"])
qed (auto intro: exI [of _ "[]"])

lemma evict_keeps_entry:
  "int (Suc (length q)) < cap \<Longrightarrow> \<exists>p'. evict cap (p @ e # q) = p' @ e # q"
proof (induction p)
  case (Cons x p)
  then obtain p' where "evict cap (p @ e # q) = p' @ e # q" by blast
  then show ?case by (auto intro: exI [of _ "x # p"])
qed (auto intro: exI [of _ "[]"])

lemma prune_held:
  assumes "held_since c n t k" "now - t < nc_ttlMs c" "int (Suc k) < nc_maxEntries c"
  shows "held_since (prune c now) n t k"
proof -
  obtain p q where pq: "nc_seen c = p @ (n, t) # q" "length q \<le> k" using assms(1) by (auto simp: held_since_def)
  obtain p' where e: "expire (nc_ttlMs c) now (nc_seen c) = p' @ (n, t) # q"
    using expire_keeps [OF assms(2)] pq(1) by metis
  have "int (Suc (length q)) < nc_maxEntries c" using pq(2) assms(3) by linarith
  from evict_keeps_entry [OF this, of p' "(n, t)"] obtain p'' where
    "nc_seen (prune c now) = p'' @ (n, t) # q" by (auto simp: prune_def e)
  with pq(2) show ?thesis by (auto simp: held_since_def)
qed

lemma claim_held:
  assumes "nc_inv c" "held_since c n t k" "now - t < nc_ttlMs c" "int (Suc k) < nc_maxEntries c"
  shows "held_since (fst (claim c m now)) n t (Suc k)" and "m = n \<Longrightarrow> \<not> snd (claim c m now)"
proof -
  obtain p q where pq: "nc_seen (prune c now) = p @ (n, t) # q" "length q \<le> k"
    using prune_held [OF assms(2-4)] by (auto simp: held_since_def)
  show "held_since (fst (claim c m now)) n t (Suc k)"
  proof (cases "jhas (nc_seen (prune c now)) m")
    case True
    then have "nc_seen (fst (claim c m now)) = p @ (n, t) # q" using pq by (simp add: claim_eq [OF assms(1)])
    with pq(2) show ?thesis unfolding held_since_def by (metis le_SucI)
  next
    case False
    then have "nc_seen (fst (claim c m now)) = p @ (n, t) # (q @ [(m, now)])"
      using pq by (simp add: claim_eq [OF assms(1)])
    moreover have "length (q @ [(m, now)]) \<le> Suc k" using pq(2) by simp
    ultimately show ?thesis unfolding held_since_def by blast
  qed
  show "m = n \<Longrightarrow> \<not> snd (claim c m now)"
    using pq by (auto simp: claim_eq [OF assms(1)])
qed

lemma claim_accepted: "nc_inv c \<Longrightarrow> snd (claim c n now) \<Longrightarrow> held_since (fst (claim c n now)) n now 0"
  by (auto simp: claim_eq held_since_def split: if_splits)

lemma claim_size: "0 < nc_maxEntries c \<Longrightarrow> nc_inv c \<Longrightarrow> int (nc_size (fst (claim c n now))) \<le> nc_maxEntries c"
  using evict_length [of "nc_maxEntries c" "expire (nc_ttlMs c) now (nc_seen c)"]
  by (auto simp: claim_eq nc_size_def prune_def)

subsection \<open>A history of claims\<close>

lemma claims_Cons:
  "snd (claims c ((n, now) # cs)) = snd (claim c n now) # snd (claims (fst (claim c n now)) cs)"
  "fst (claims c ((n, now) # cs)) = fst (claims (fst (claim c n now)) cs)"
  by (simp_all add: case_prod_unfold)

lemma length_claims [simp]: "length (snd (claims c cs)) = length cs"
  by (induction cs arbitrary: c) (auto simp: case_prod_unfold)

lemma claims_held:
  assumes "nc_inv c" "held_since c n t k" "sorted (map snd cs)" "\<And>e. e \<in> set cs \<Longrightarrow> nc_before c (snd e)"
    and "j < length cs" "cs ! j = (n, u)" "u - t < nc_ttlMs c" "int (k + j + 1) < nc_maxEntries c"
  shows "\<not> snd (claims c cs) ! j"
  using assms
proof (induction cs arbitrary: c k j)
  case (Cons e cs)
  obtain m now where e: "e = (m, now)" by (cases e)
  have "(n, u) \<in> set (e # cs)" using Cons.prems(5,6) by (metis nth_mem)
  with Cons.prems(3) e have "now \<le> u" by force
  with Cons.prems(7) have ttl: "now - t < nc_ttlMs c" by linarith
  have cap: "int (Suc k) < nc_maxEntries c" using Cons.prems(8) by linarith
  note step = claim_held [OF Cons.prems(1,2) ttl cap, of m]
  show ?case
  proof (cases j)
    case 0
    with Cons.prems(6) e step(2) show ?thesis by (simp add: claims_Cons del: claims.simps)
  next
    case (Suc i)
    have bf: "nc_before c now" using Cons.prems(4) [of e] e by simp
    have "nc_before (fst (claim c m now)) (snd x)" if "x \<in> set cs" for x
      using claim_inv [OF Cons.prems(1) bf, of m] Cons.prems(3) that e before_mono by auto
    with Cons.IH [of "fst (claim c m now)" "Suc k" i] claim_inv [OF Cons.prems(1) bf, of m] step(1)
      Cons.prems(3,5-8) Suc e
    show ?thesis by (simp add: claims_Cons del: claims.simps)
  qed
qed simp

lemma claims_from:
  assumes "nc_inv c" "sorted (map snd cs)" "\<And>e. e \<in> set cs \<Longrightarrow> nc_before c (snd e)"
    and "i < j" "j < length cs" "cs ! i = (n, t)" "cs ! j = (n, u)"
    and "u - t < nc_ttlMs c" "int (j - i) < nc_maxEntries c" "snd (claims c cs) ! i"
  shows "\<not> snd (claims c cs) ! j"
  using assms
proof (induction cs arbitrary: c i j)
  case (Cons e cs)
  obtain m now where e: "e = (m, now)" by (cases e)
  have bf: "nc_before c now" using Cons.prems(3) [of e] e by simp
  note inv = claim_inv [OF Cons.prems(1) bf, of m]
  have bf': "nc_before (fst (claim c m now)) (snd x)" if "x \<in> set cs" for x
    using inv Cons.prems(2) that e before_mono by auto
  obtain j' where j: "j = Suc j'" using Cons.prems(4) by (cases j) auto
  show ?case
  proof (cases i)
    case 0
    with Cons.prems e have *: "m = n" "now = t" "snd (claim c n t)" by (simp_all add: claims_Cons del: claims.simps)
    have "held_since (fst (claim c m now)) n t 0" using claim_accepted [OF Cons.prems(1)] * by simp
    from claims_held [OF _ this, of cs j' u] inv bf' Cons.prems(2,5,7,8,9) 0 j e show ?thesis
      by (simp add: claims_Cons del: claims.simps)
  next
    case (Suc i')
    with Cons.IH [of "fst (claim c m now)" i' j'] inv bf' Cons.prems(2,4-10) j e show ?thesis
      by (simp add: claims_Cons del: claims.simps)
  qed
qed simp

lemma new_cache_inv: "nc_inv (new_nonce_cache ttl cap)" "nc_before (new_nonce_cache ttl cap) t"
  by (simp_all add: new_nonce_cache_def nc_inv_def nc_before_def)

lemma claims_inv:
  assumes "nc_inv c" "sorted (map snd cs)" "\<And>e. e \<in> set cs \<Longrightarrow> nc_before c (snd e)"
  shows "nc_inv (fst (claims c cs)) \<and> nc_maxEntries (fst (claims c cs)) = nc_maxEntries c \<and>
         (0 < nc_maxEntries c \<longrightarrow> int (nc_size c) \<le> nc_maxEntries c \<longrightarrow>
          int (nc_size (fst (claims c cs))) \<le> nc_maxEntries c)"
  using assms
proof (induction cs arbitrary: c)
  case (Cons e cs)
  obtain m now where e: "e = (m, now)" by (cases e)
  have bf: "nc_before c now" using Cons.prems(3) [of e] e by simp
  note inv = claim_inv [OF Cons.prems(1) bf, of m]
  have "nc_before (fst (claim c m now)) (snd x)" if "x \<in> set cs" for x
    using inv Cons.prems(2) that e before_mono by auto
  with Cons.IH [of "fst (claim c m now)"] inv Cons.prems(2) claim_size [OF _ Cons.prems(1), of m now] e
  show ?case by (simp add: claims_Cons del: claims.simps)
qed simp

subsection \<open>Properties\<close>

text \<open>
  A nonce is single use inside the retention window: in any history of claims at
  non-decreasing times, of two claims of the same nonce less than `ttlMs` apart and with fewer
  than `maxEntries` claims from the first to the second, at most one is accepted.
\<close>

theorem nonce_single_use:
  assumes "sorted (map snd cs)" and "i < j" and "j < length cs"
    and "cs ! i = (n, t)" and "cs ! j = (n, u)" and "u - t < ttl" and "int (j - i) < cap"
    and "snd (claims (new_nonce_cache ttl cap) cs) ! i"
  shows "\<not> snd (claims (new_nonce_cache ttl cap) cs) ! j"
  by (rule claims_from [OF new_cache_inv(1) assms(1) new_cache_inv(2) assms(2-5) _ _ assms(8)])
    (use assms(6,7) in \<open>simp_all add: new_nonce_cache_def\<close>)

definition ex_claims :: "(string \<times> int) list" where
  "ex_claims = [(''aa'', 0), (''bb'', 5), (''aa'', 9)]"

lemma claim_first: "claim (new_nonce_cache ttl cap) n t = (\<lparr>nc_seen = [(n, t)], nc_ttlMs = ttl, nc_maxEntries = cap\<rparr>, True)"
  by (simp add: claim_def prune_def new_nonce_cache_def)

theorem nonce_single_use_witness:
  "\<not> snd (claims (new_nonce_cache 10 3) ex_claims) ! 2"
  by (rule nonce_single_use [where i = 0 and t = 0 and u = 9 and n = "''aa''"])
    (simp_all add: ex_claims_def claim_first case_prod_unfold)

text \<open>
  The cache never holds more than `maxEntries` nonces, whatever the flood of claims, and its
  entries stay in the order of their times, which is what lets pruning stop at the first live one.
\<close>

theorem nonce_cache_bounded:
  assumes "sorted (map snd cs)" and "0 < cap"
  shows "int (nc_size (fst (claims (new_nonce_cache ttl cap) cs))) \<le> cap \<and>
         sorted (map snd (nc_seen (fst (claims (new_nonce_cache ttl cap) cs))))"
  using claims_inv [OF new_cache_inv(1) assms(1) new_cache_inv(2), of ttl cap] assms(2)
  by (simp add: new_nonce_cache_def nc_size_def nc_inv_def)

theorem nonce_cache_bounded_witness:
  "int (nc_size (fst (claims (new_nonce_cache 10 2) ex_claims))) \<le> 2"
  using nonce_cache_bounded [of ex_claims 2 10] by (simp add: ex_claims_def)

text \<open>
  C22: Replay of a signed message: when two submissions of the same timestamp and nonce both pass
  the freshness check and the second is one of the 49,999 claims that follow the first (at most
  49,998 others lie between them: one more, of a new nonce, fills the cache of 50,000 and evicts the
  first), the gateway's cache accepts at most one, unless the two submissions happen exactly at the
  two ends of the accepted window.
\<close>

theorem replayed_message_rejected:
  assumes "sorted (map snd cs)" and "i < j" and "j < length cs" and "cs ! i = (n, t)" and "cs ! j = (n, u)"
    and "isOk (assertFreshTimestamp ts t)" and "isOk (assertFreshTimestamp ts u)"
    and "\<not> (t = ts - REGISTRATION_MAX_SKEW_MS \<and> u = ts + REGISTRATION_MAX_SKEW_MS)"
    and "j - i < 50000" and "snd (claims default_nonce_cache cs) ! i"
  shows "\<not> snd (claims default_nonce_cache cs) ! j"
proof -
  have "u - t < REGISTRATION_MAX_SKEW_MS * 2"
    using assms(6-8) by (simp only: fresh_iff) linarith
  with nonce_single_use [OF assms(1-5), of "REGISTRATION_MAX_SKEW_MS * 2" 50000] assms(9,10)
  show ?thesis by (simp add: default_nonce_cache_def)
qed

theorem replayed_message_rejected_witness:
  "\<not> snd (claims default_nonce_cache [(''aa'', 0), (''aa'', 200000)]) ! 1"
  by (rule replayed_message_rejected [where i = 0 and t = 0 and u = 200000 and n = "''aa''" and ts = 100000])
    (simp_all add: default_nonce_cache_def claim_first case_prod_unfold fresh_iff REGISTRATION_MAX_SKEW_MS_def)

text \<open>
  At the two ends of the window the replay is accepted: freshness is inclusive while the
  retention is exclusive, so a message claimed exactly when it becomes fresh and again exactly
  when it is last fresh passes both checks both times.
\<close>

theorem replay_accepted_at_the_edge:
  "isOk (assertFreshTimestamp ts (ts - REGISTRATION_MAX_SKEW_MS)) \<and>
   isOk (assertFreshTimestamp ts (ts + REGISTRATION_MAX_SKEW_MS)) \<and>
   snd (claims default_nonce_cache
     [(n, ts - REGISTRATION_MAX_SKEW_MS), (n, ts + REGISTRATION_MAX_SKEW_MS)]) = [True, True]"
proof -
  have "claim \<lparr>nc_seen = [(n, ts - REGISTRATION_MAX_SKEW_MS)], nc_ttlMs = REGISTRATION_MAX_SKEW_MS * 2,
      nc_maxEntries = 50000\<rparr> n (ts + REGISTRATION_MAX_SKEW_MS)
    = (\<lparr>nc_seen = [(n, ts + REGISTRATION_MAX_SKEW_MS)], nc_ttlMs = REGISTRATION_MAX_SKEW_MS * 2,
      nc_maxEntries = 50000\<rparr>, True)"
    by (simp add: claim_def prune_def Let_def)
  then show ?thesis by (simp add: default_nonce_cache_def claim_first fresh_iff REGISTRATION_MAX_SKEW_MS_def)
qed

end
