(* ===== verification/NetGuard.thy ===== *)
theory NetGuard
  imports Types "HOL-Library.Word"
begin

section \<open>The SSRF guard (packages/shared/src/net-guard.ts)\<close>

text \<open>
  The classification of literal addresses, the shape check of a node endpoint, and the guard that
  resolves a host name and caches a clean answer for thirty seconds. Numbers that the source
  forces to 32 bits (\<open>value >>> 0\<close>, \<open>&\<close>, \<open><<\<close>) are 32-bit words. \<open>net.isIP\<close> is written out as its
  grammar; the WHATWG URL parser and the resolver are arguments. The module-level cache is a map
  passed through.
\<close>

unbundle bit_operations_syntax

subsection \<open>IPv4\<close>

definition RESOLUTION_CACHE_TTL_MS :: int where "RESOLUTION_CACHE_TTL_MS = 30000"
definition RESOLUTION_CACHE_MAX_ENTRIES :: nat where "RESOLUTION_CACHE_MAX_ENTRIES = 1024"

definition BLOCKED_IPV4 :: "(string \<times> nat) list" where
  "BLOCKED_IPV4 =
     [(''0.0.0.0'', 8), (''10.0.0.0'', 8), (''100.64.0.0'', 10), (''127.0.0.0'', 8),
      (''169.254.0.0'', 16), (''172.16.0.0'', 12), (''192.0.0.0'', 24), (''192.0.2.0'', 24),
      (''192.168.0.0'', 16), (''198.18.0.0'', 15), (''198.51.100.0'', 24), (''203.0.113.0'', 24),
      (''224.0.0.0'', 4), (''240.0.0.0'', 4)]"

text \<open>The regular expression \<open>^\d{1,3}$\<close>, and the loop over the parts with its early returns.\<close>

definition short_digits :: "string \<Rightarrow> bool" where
  "short_digits s \<longleftrightarrow> list_all is_digit s \<and> 1 \<le> length s \<and> length s \<le> 3"

fun octets_value :: "string list \<Rightarrow> nat \<Rightarrow> nat option" where
  "octets_value [] v = Some v"
| "octets_value (part # ps) v =
     (if \<not> short_digits part then None
      else let octet = dec_val part
           in if 255 < octet then None else octets_value ps (v * 256 + octet))"

definition ipv4ToInt :: "string \<Rightarrow> 32 word option" where
  "ipv4ToInt ip =
     (let parts = split_on CHR ''.'' ip
      in if length parts \<noteq> 4 then None else map_option of_nat (octets_value parts 0))"

definition prefix_mask :: "nat \<Rightarrow> 32 word" where
  "prefix_mask len = push_bit (32 - len) (0xffffffff :: 32 word)"

definition matches_entry :: "32 word \<Rightarrow> string \<times> nat \<Rightarrow> bool" where
  "matches_entry v e = (case ipv4ToInt (fst e) of
      None \<Rightarrow> False
    | Some base \<Rightarrow> v AND prefix_mask (snd e) = base AND prefix_mask (snd e))"

definition isBlockedIPv4 :: "string \<Rightarrow> bool" where
  "isBlockedIPv4 ip = (case ipv4ToInt ip of
      None \<Rightarrow> True
    | Some v \<Rightarrow> list_ex (matches_entry v) BLOCKED_IPV4)"

subsection \<open>IPv6\<close>

text \<open>The match of \<open>(?:^::ffff:|^::)(\d{1,3}(?:\.\d{1,3}){3})$\<close>: its first capture.\<close>

definition quad_shape :: "string \<Rightarrow> bool" where
  "quad_shape s \<longleftrightarrow> length (split_on CHR ''.'' s) = 4 \<and> list_all short_digits (split_on CHR ''.'' s)"

definition embedded_ipv4 :: "string \<Rightarrow> string option" where
  "embedded_ipv4 s =
     (if starts_with ''::ffff:'' s \<and> quad_shape (drop 7 s) then Some (drop 7 s)
      else if starts_with ''::'' s \<and> quad_shape (drop 2 s) then Some (drop 2 s)
      else None)"

definition is_hex :: "char \<Rightarrow> bool" where
  "is_hex c \<longleftrightarrow> is_digit c \<or> (97 \<le> code c \<and> code c \<le> 102) \<or> (65 \<le> code c \<and> code c \<le> 70)"

text \<open>
  \<open>Number.parseInt(s, 16)\<close> on a lower-case string: the value of the longest prefix of hex digits,
  \<open>NaN\<close> (\<open>None\<close>) when there is none. Signs, spaces and \<open>0x\<close> cannot occur in the first group of an
  address that \<open>isIP\<close> accepted.
\<close>

definition parse_hex :: "string \<Rightarrow> nat option" where
  "parse_hex s = (case takeWhile is_hex s of [] \<Rightarrow> None | ds \<Rightarrow> Some (radix_val 16 ds))"

definition isBlockedIPv6 :: "string \<Rightarrow> bool" where
  "isBlockedIPv6 ip =
     (let normalized = hd (split_on CHR ''%'' (to_lower ip))
      in case embedded_ipv4 normalized of
           Some v4 \<Rightarrow> isBlockedIPv4 v4
         | None \<Rightarrow>
             if normalized = ''::'' \<or> normalized = ''::1'' then True
             else let head = hd (split_on CHR '':'' normalized)
                  in if head = [] then False
                     else (case parse_hex (take 4 (pad_end 4 CHR ''0'' head)) of
                             None \<Rightarrow> True
                           | Some grp \<Rightarrow>
                               let g = (of_nat grp :: 32 word)
                               in if g AND 0xfe00 = 0xfc00 then True
                                  else if g AND 0xffc0 = 0xfe80 then True
                                  else if g AND 0xff00 = 0xff00 then True
                                  else False))"

subsection \<open>net.isIP and the classification\<close>

definition strict_octet :: "string \<Rightarrow> bool" where
  "strict_octet s \<longleftrightarrow> short_digits s \<and> dec_val s \<le> 255 \<and> (length s = 1 \<or> hd s \<noteq> CHR ''0'')"

definition is_ipv4 :: "string \<Rightarrow> bool" where
  "is_ipv4 s \<longleftrightarrow> (let ps = split_on CHR ''.'' s in length ps = 4 \<and> list_all strict_octet ps)"

definition hex_group :: "string \<Rightarrow> bool" where
  "hex_group s \<longleftrightarrow> list_all is_hex s \<and> 1 \<le> length s \<and> length s \<le> 4"

text \<open>The groups between colons, the last of which may be a dotted quad that counts for two.\<close>

fun group_count :: "string list \<Rightarrow> nat option" where
  "group_count [] = Some 0"
| "group_count [g] = (if hex_group g then Some 1 else if is_ipv4 g then Some 2 else None)"
| "group_count (g # gs) =
     (if hex_group g then map_option Suc (group_count gs) else None)"

fun split_double_colon :: "string \<Rightarrow> string \<Rightarrow> (string \<times> string) option" where
  "split_double_colon acc (a # b # s) =
     (if a = CHR '':'' \<and> b = CHR '':'' then Some (rev acc, s) else split_double_colon (a # acc) (b # s))"
| "split_double_colon acc _ = None"

definition groups_of :: "string \<Rightarrow> string list" where
  "groups_of s = (if s = [] then [] else split_on CHR '':'' s)"

definition zone_ok :: "string list \<Rightarrow> bool" where
  "zone_ok zs \<longleftrightarrow> (case zs of [] \<Rightarrow> True
     | [z] \<Rightarrow> z \<noteq> [] \<and> list_all (\<lambda>c. is_digit c \<or> is_upper c \<and> code c < 128 \<or> 97 \<le> code c \<and> code c \<le> 122
              \<or> c \<in> {CHR ''-'', CHR ''.'', CHR '':''}) z
     | _ \<Rightarrow> False)"

definition is_ipv6 :: "string \<Rightarrow> bool" where
  "is_ipv6 s \<longleftrightarrow>
     (case split_on CHR ''%'' s of
        [] \<Rightarrow> False
      | addr # zs \<Rightarrow> zone_ok zs \<and>
          (case split_double_colon [] addr of
             None \<Rightarrow> group_count (groups_of addr) = Some 8
           | Some (l, r) \<Rightarrow> list_all hex_group (groups_of l) \<and>
               (case group_count (groups_of r) of
                  None \<Rightarrow> False | Some k \<Rightarrow> length (groups_of l) + k \<le> 7)))"

definition isIP :: "string \<Rightarrow> nat" where
  "isIP s = (if is_ipv4 s then 4 else if is_ipv6 s then 6 else 0)"

definition isBlockedAddress :: "string \<Rightarrow> bool" where
  "isBlockedAddress ip =
     (if isIP ip = 4 then isBlockedIPv4 ip else if isIP ip = 6 then isBlockedIPv6 ip else True)"

subsection \<open>The endpoint guard\<close>

record url =
  u_protocol :: string
  u_username :: string
  u_password :: string
  u_host :: string
  u_hostname :: string

definition assertHttpUrlShape :: "(string \<Rightarrow> url option) \<Rightarrow> string \<Rightarrow> url res" where
  "assertHttpUrlShape parse raw = (case parse raw of
      None \<Rightarrow> throw ValidationErr ''endpoint must be an absolute URL''
    | Some u \<Rightarrow>
        if u_protocol u \<noteq> ''http:'' \<and> u_protocol u \<noteq> ''https:''
        then throw ValidationErr ''endpoint must use http or https''
        else if u_username u \<noteq> [] \<or> u_password u \<noteq> []
        then throw ValidationErr ''endpoint must not embed credentials''
        else Inr u)"

type_synonym host_cache = "(string, int) jsmap"

definition rememberHost :: "string \<Rightarrow> int \<Rightarrow> host_cache \<Rightarrow> host_cache" where
  "rememberHost host at_ms cache =
     jset host (at_ms + RESOLUTION_CACHE_TTL_MS)
       (if RESOLUTION_CACHE_MAX_ENTRIES \<le> length cache
        then (case cache of [] \<Rightarrow> [] | (oldest, _) # _ \<Rightarrow> jdel oldest cache)
        else cache)"

definition strip_brackets :: "string \<Rightarrow> string" where
  "strip_brackets s =
     (let s' = (case s of c # cs \<Rightarrow> if c = CHR ''['' then cs else s | [] \<Rightarrow> [])
      in if s' \<noteq> [] \<and> last s' = CHR '']'' then butlast s' else s')"

text \<open>
  The two readings of the clock are \<open>t1\<close> (before resolving) and \<open>t2\<close> (after); \<open>resolve\<close> is the
  answer of the resolver, \<open>None\<close> when it throws.
\<close>

definition assertRoutableEndpoint ::
  "(string \<Rightarrow> url option) \<Rightarrow> bool \<Rightarrow> (string \<Rightarrow> string list option) \<Rightarrow> int \<Rightarrow> int \<Rightarrow>
   host_cache \<Rightarrow> string \<Rightarrow> host_cache \<times> url res" where
  "assertRoutableEndpoint parse allowPrivate resolve t1 t2 cache raw =
     (case assertHttpUrlShape parse raw of
        Inl e \<Rightarrow> (cache, Inl e)
      | Inr u \<Rightarrow>
          if allowPrivate then (cache, Inr u)
          else let hostname = strip_brackets (u_hostname u)
               in if isIP hostname \<noteq> 0
                  then if isBlockedAddress hostname
                       then (cache, throw ValidationErr ''endpoint resolves to a non-public address'')
                       else (rememberHost (u_host u) t1 cache, Inr u)
                  else if (case jget cache (u_host u) of None \<Rightarrow> False | Some ex \<Rightarrow> t1 < ex)
                       then (cache, Inr u)
                  else (case resolve hostname of
                          None \<Rightarrow> (cache, throw ValidationErr ''endpoint hostname could not be resolved'')
                        | Some addresses \<Rightarrow>
                            if addresses = []
                            then (cache, throw ValidationErr ''endpoint hostname could not be resolved'')
                            else if list_ex isBlockedAddress addresses
                            then (cache, throw ValidationErr ''endpoint resolves to a non-public address'')
                            else (rememberHost (u_host u) t2 cache, Inr u)))"

subsection \<open>Dotted quads and prefixes\<close>

definition dotted :: "nat \<Rightarrow> nat \<Rightarrow> nat \<Rightarrow> nat \<Rightarrow> string" where
  "dotted a b c d = nat_str a @ ''.'' @ nat_str b @ ''.'' @ nat_str c @ ''.'' @ nat_str d"

definition quad_value :: "nat \<Rightarrow> nat \<Rightarrow> nat \<Rightarrow> nat \<Rightarrow> nat" where
  "quad_value a b c d = ((a * 256 + b) * 256 + c) * 256 + d"

lemma split_on_none: "x \<notin> set w \<Longrightarrow> split_on x w = [w]"
  by (induction w) auto

lemma split_on_append: "x \<notin> set w \<Longrightarrow> split_on x (w @ x # r) = w # split_on x r"
  by (induction w) auto

lemma nat_str_chars: "\<not> is_digit x \<Longrightarrow> x \<notin> set (nat_str n)"
  using nat_str_digits [of n] by (auto simp: list_all_iff)

lemma nat_str_Cons_digit: "\<exists>c cs. nat_str n = c # cs \<and> is_digit c"
  using nat_str_digits [of n] radix_str_nonempty [of 10 n] by (cases "nat_str n") (simp_all add: radix_str_nonempty)

lemma dot_not_digit: "\<not> is_digit CHR ''.''" and colon_not_digit: "\<not> is_digit CHR '':''"
  by (simp_all add: is_digit_def code_def)

lemma split_dotted: "split_on CHR ''.'' (dotted a b c d) = [nat_str a, nat_str b, nat_str c, nat_str d]"
  by (simp add: dotted_def split_on_append split_on_none nat_str_chars dot_not_digit)

lemma nat_str_short: "n < 1000 \<Longrightarrow> short_digits (nat_str n)"
  using length_nat_str_le [of n 3] nat_str_digits [of n] radix_str_nonempty [of 10 n]
  by (simp add: short_digits_def Suc_le_eq)

lemma ipv4ToInt_dotted:
  assumes "a < 256" "b < 256" "c < 256" "d < 256"
  shows "ipv4ToInt (dotted a b c d) = Some (of_nat (quad_value a b c d))"
  using assms by (simp add: ipv4ToInt_def split_dotted nat_str_short quad_value_def Let_def)

lemma quad_value_less: "a < 256 \<Longrightarrow> b < 256 \<Longrightarrow> c < 256 \<Longrightarrow> d < 256 \<Longrightarrow> quad_value a b c d < 2 ^ 32"
  by (simp add: quad_value_def)

lemma and_prefix_mask: "len \<le> 32 \<Longrightarrow> v AND prefix_mask len = push_bit (32 - len) (drop_bit (32 - len) v)"
proof -
  have m: "(0xffffffff :: 32 word) = - 1" by simp
  show ?thesis unfolding prefix_mask_def m by (rule bit_word_eqI) (auto simp: bit_simps)
qed

lemma prefix_eq_iff:
  assumes "len \<le> 32"
  shows "v AND prefix_mask len = w AND prefix_mask len \<longleftrightarrow> unat v div 2 ^ (32 - len) = unat w div 2 ^ (32 - len)"
proof -
  have "drop_bit k (push_bit k (drop_bit k v)) = drop_bit k v" for k and v :: "32 word"
    by (rule bit_word_eqI) (auto simp: bit_simps dest: bit_imp_le_length)
  then have "v AND prefix_mask len = w AND prefix_mask len \<longleftrightarrow> drop_bit (32 - len) v = drop_bit (32 - len) w"
    using assms by (metis and_prefix_mask)
  also have "\<dots> \<longleftrightarrow> unat (drop_bit (32 - len) v) = unat (drop_bit (32 - len) w)"
    by (simp only: word_unat_eq_iff)
  finally show ?thesis by (simp only: unat_drop_bit_eq drop_bit_eq_div [where 'a = nat])
qed

lemma matches_dotted:
  assumes "a < 256" "b < 256" "c < 256" "d < 256" "n < 2 ^ 32" "len \<le> 32"
  shows "matches_entry (of_nat n) (dotted a b c d, len) \<longleftrightarrow>
         n div 2 ^ (32 - len) = quad_value a b c d div 2 ^ (32 - len)"
proof -
  have u: "unat (of_nat m :: 32 word) = m" if "m < 2 ^ 32" for m
    using that by (simp add: unat_of_nat take_bit_eq_mod)
  show ?thesis
    using assms u [OF assms(5)] u [OF quad_value_less [OF assms(1-4)]]
    by (simp add: matches_entry_def ipv4ToInt_dotted prefix_eq_iff)
qed

lemma nat_str_lits:
  "nat_str 0 = ''0''" "nat_str 10 = ''10''" "nat_str 100 = ''100''" "nat_str 64 = ''64''" "nat_str 127 = ''127''"
  "nat_str 169 = ''169''" "nat_str 254 = ''254''" "nat_str 172 = ''172''" "nat_str 16 = ''16''"
  "nat_str 192 = ''192''" "nat_str 2 = ''2''" "nat_str 168 = ''168''" "nat_str 198 = ''198''" "nat_str 18 = ''18''"
  "nat_str 51 = ''51''" "nat_str 203 = ''203''" "nat_str 113 = ''113''" "nat_str 224 = ''224''" "nat_str 240 = ''240''"
  by (simp_all add: radix_str.simps radix_char_def char_of_def bit_0)

lemma blocked_dotted:
  "BLOCKED_IPV4 =
     [(dotted 0 0 0 0, 8), (dotted 10 0 0 0, 8), (dotted 100 64 0 0, 10), (dotted 127 0 0 0, 8),
      (dotted 169 254 0 0, 16), (dotted 172 16 0 0, 12), (dotted 192 0 0 0, 24), (dotted 192 0 2 0, 24),
      (dotted 192 168 0 0, 16), (dotted 198 18 0 0, 15), (dotted 198 51 100 0, 24), (dotted 203 0 113 0, 24),
      (dotted 224 0 0 0, 4), (dotted 240 0 0 0, 4)]"
  by (simp add: BLOCKED_IPV4_def dotted_def nat_str_lits)

subsection \<open>The reference: the ranges by octets\<close>

definition non_public_v4 :: "nat \<Rightarrow> nat \<Rightarrow> nat \<Rightarrow> bool" where
  "non_public_v4 a b c \<longleftrightarrow>
     a = 0 \<or> a = 10 \<or> (a = 100 \<and> 64 \<le> b \<and> b \<le> 127) \<or> a = 127 \<or> (a = 169 \<and> b = 254) \<or>
     (a = 172 \<and> 16 \<le> b \<and> b \<le> 31) \<or> (a = 192 \<and> b = 0 \<and> c = 0) \<or> (a = 192 \<and> b = 0 \<and> c = 2) \<or>
     (a = 192 \<and> b = 168) \<or> (a = 198 \<and> (b = 18 \<or> b = 19)) \<or> (a = 198 \<and> b = 51 \<and> c = 100) \<or>
     (a = 203 \<and> b = 0 \<and> c = 113) \<or> 224 \<le> a"

lemma quad_divs:
  assumes "a < 256" "b < 256" "c < 256" "d < 256"
  shows "quad_value a b c d div 2 ^ 24 = a" "quad_value a b c d div 2 ^ 16 = a * 256 + b"
    "quad_value a b c d div 2 ^ 8 = (a * 256 + b) * 256 + c" "quad_value a b c d div 2 ^ 28 = a div 16"
    "quad_value a b c d div 2 ^ 22 = a * 4 + b div 64" "quad_value a b c d div 2 ^ 20 = a * 16 + b div 16"
    "quad_value a b c d div 2 ^ 17 = a * 128 + b div 2"
proof -
  let ?n = "quad_value a b c d"
  show d8: "?n div 2 ^ 8 = (a * 256 + b) * 256 + c" using assms by (simp add: quad_value_def)
  have "?n div 2 ^ 16 = ?n div 2 ^ 8 div 256" by (simp add: div_mult2_eq [symmetric])
  then show d16: "?n div 2 ^ 16 = a * 256 + b" using d8 assms by simp
  have "?n div 2 ^ 24 = ?n div 2 ^ 16 div 256" by (simp add: div_mult2_eq [symmetric])
  then show d24: "?n div 2 ^ 24 = a" using d16 assms by simp
  have "?n div 2 ^ 28 = ?n div 2 ^ 24 div 16" by (simp add: div_mult2_eq [symmetric])
  then show "?n div 2 ^ 28 = a div 16" using d24 by simp
  have "?n div 2 ^ 22 = ?n div 2 ^ 16 div 64" by (simp add: div_mult2_eq [symmetric])
  then show "?n div 2 ^ 22 = a * 4 + b div 64" using d16 by simp
  have "?n div 2 ^ 20 = ?n div 2 ^ 16 div 16" by (simp add: div_mult2_eq [symmetric])
  then show "?n div 2 ^ 20 = a * 16 + b div 16" using d16 by simp
  have "?n div 2 ^ 17 = ?n div 2 ^ 16 div 2" by (simp add: div_mult2_eq [symmetric])
  then show "?n div 2 ^ 17 = a * 128 + b div 2" using d16 by simp
qed

lemma two_digits: "(x::nat) < m \<Longrightarrow> y < m \<Longrightarrow> a * m + x = b * m + y \<longleftrightarrow> a = b \<and> x = y"
  by (metis add.commute div_mult_self3 div_less mod_mult_self3 mod_less add.right_neutral not_less_zero)

lemma matches_ranges:
  assumes "a < 256" "b < 256" "c < 256" "d < 256"
  defines "v \<equiv> of_nat (quad_value a b c d) :: 32 word"
  shows "p < 256 \<Longrightarrow> matches_entry v (dotted p 0 0 0, 8) \<longleftrightarrow> a = p"
    "p < 256 \<Longrightarrow> q < 256 \<Longrightarrow> matches_entry v (dotted p q 0 0, 16) \<longleftrightarrow> a = p \<and> b = q"
    "p < 256 \<Longrightarrow> q < 256 \<Longrightarrow> r < 256 \<Longrightarrow> matches_entry v (dotted p q r 0, 24) \<longleftrightarrow> a = p \<and> b = q \<and> c = r"
    "p < 256 \<Longrightarrow> matches_entry v (dotted p 0 0 0, 4) \<longleftrightarrow> a div 16 = p div 16"
    "p < 256 \<Longrightarrow> q < 256 \<Longrightarrow> matches_entry v (dotted p q 0 0, 10) \<longleftrightarrow> a = p \<and> b div 64 = q div 64"
    "p < 256 \<Longrightarrow> q < 256 \<Longrightarrow> matches_entry v (dotted p q 0 0, 12) \<longleftrightarrow> a = p \<and> b div 16 = q div 16"
    "p < 256 \<Longrightarrow> q < 256 \<Longrightarrow> matches_entry v (dotted p q 0 0, 15) \<longleftrightarrow> a = p \<and> b div 2 = q div 2"
proof -
  note n = quad_value_less [OF assms(1-4)]
  show "p < 256 \<Longrightarrow> matches_entry v (dotted p 0 0 0, 8) \<longleftrightarrow> a = p"
    using matches_dotted [OF _ _ _ _ n, of p 0 0 0 8] by (simp add: v_def quad_divs assms(1-4) del: power_numeral)
  show "p < 256 \<Longrightarrow> matches_entry v (dotted p 0 0 0, 4) \<longleftrightarrow> a div 16 = p div 16"
    using matches_dotted [OF _ _ _ _ n, of p 0 0 0 4] by (simp add: v_def quad_divs assms(1-4) del: power_numeral)
  show "p < 256 \<Longrightarrow> q < 256 \<Longrightarrow> matches_entry v (dotted p q 0 0, 16) \<longleftrightarrow> a = p \<and> b = q"
    using matches_dotted [OF _ _ _ _ n, of p q 0 0 16] two_digits [of b 256 q a p] assms(1-4)
    by (simp add: v_def quad_divs del: power_numeral)
  show "p < 256 \<Longrightarrow> q < 256 \<Longrightarrow> r < 256 \<Longrightarrow> matches_entry v (dotted p q r 0, 24) \<longleftrightarrow> a = p \<and> b = q \<and> c = r"
    using matches_dotted [OF _ _ _ _ n, of p q r 0 24] two_digits [of b 256 q a p]
      two_digits [of c 256 r "a * 256 + b" "p * 256 + q"] assms(1-4)
    by (simp add: v_def quad_divs del: power_numeral)
  show "p < 256 \<Longrightarrow> q < 256 \<Longrightarrow> matches_entry v (dotted p q 0 0, 10) \<longleftrightarrow> a = p \<and> b div 64 = q div 64"
    using matches_dotted [OF _ _ _ _ n, of p q 0 0 10] two_digits [of "b div 64" 4 "q div 64" a p] assms(1-4)
    by (simp add: v_def quad_divs less_mult_imp_div_less del: power_numeral)
  show "p < 256 \<Longrightarrow> q < 256 \<Longrightarrow> matches_entry v (dotted p q 0 0, 12) \<longleftrightarrow> a = p \<and> b div 16 = q div 16"
    using matches_dotted [OF _ _ _ _ n, of p q 0 0 12] two_digits [of "b div 16" 16 "q div 16" a p] assms(1-4)
    by (simp add: v_def quad_divs less_mult_imp_div_less del: power_numeral)
  show "p < 256 \<Longrightarrow> q < 256 \<Longrightarrow> matches_entry v (dotted p q 0 0, 15) \<longleftrightarrow> a = p \<and> b div 2 = q div 2"
    using matches_dotted [OF _ _ _ _ n, of p q 0 0 15] two_digits [of "b div 2" 128 "q div 2" a p] assms(1-4)
    by (simp add: v_def quad_divs less_mult_imp_div_less del: power_numeral)
qed

lemma blocked_v4_octets:
  assumes "a < 256" "b < 256" "c < 256" "d < 256"
  shows "isBlockedIPv4 (dotted a b c d) \<longleftrightarrow> non_public_v4 a b c"
proof -
  have hi: "a div 16 = 14 \<or> a div 16 = 15 \<longleftrightarrow> 224 \<le> a" using assms(1) by auto
  have b64: "b div 64 = Suc 0 \<longleftrightarrow> 64 \<le> b \<and> b \<le> 127" using assms(2) by auto
  have b16: "b div 16 = Suc 0 \<longleftrightarrow> 16 \<le> b \<and> b \<le> 31" using assms(2) by auto
  have b2: "b div 2 = 9 \<longleftrightarrow> b = 18 \<or> b = 19" by auto
  have "isBlockedIPv4 (dotted a b c d) \<longleftrightarrow> list_ex (matches_entry (of_nat (quad_value a b c d))) BLOCKED_IPV4"
    using assms by (simp add: isBlockedIPv4_def ipv4ToInt_dotted)
  also have "\<dots> \<longleftrightarrow> non_public_v4 a b c"
    unfolding blocked_dotted non_public_v4_def
    by (simp add: matches_ranges [OF assms] b64 b16 b2 hi)
  finally show ?thesis .
qed

lemma is_ipv4_dotted:
  assumes "a < 256" "b < 256" "c < 256" "d < 256"
  shows "is_ipv4 (dotted a b c d)"
proof -
  have "length (nat_str n) = 1 \<or> hd (nat_str n) \<noteq> CHR ''0''" if "n < 256" for n
  proof (cases "n < 10")
    case True
    then show ?thesis by (simp add: radix_str.simps [of 10 n])
  next
    case False
    show ?thesis
    proof (rule disjI2, rule notI)
      assume h: "hd (nat_str n) = CHR ''0''"
      obtain z zs where z: "nat_str n = z # zs" by (cases "nat_str n") auto
      have zs: "zs \<noteq> []" using False z by (auto simp: radix_str.simps [of 10 n])
      have "dec_val (nat_str n) = dec_val zs" using h z radix_val_append [of 10 "[CHR ''0'']" zs]
        by (simp add: radix_val_def)
      then have v: "dec_val zs = n" by simp
      have dz: "list_all is_digit zs" using nat_str_digits [of n] z by simp
      have "length (nat_str n) \<le> length zs"
        using dec_val_less [OF dz] v zs length_nat_str_le [of n "length zs"] by auto
      with z show False by simp
    qed
  qed
  with assms show ?thesis by (simp add: is_ipv4_def split_dotted strict_octet_def nat_str_short)
qed

lemma blocked_address_octets:
  "a < 256 \<Longrightarrow> b < 256 \<Longrightarrow> c < 256 \<Longrightarrow> d < 256 \<Longrightarrow>
   isBlockedAddress (dotted a b c d) \<longleftrightarrow> non_public_v4 a b c"
  by (simp add: isBlockedAddress_def isIP_def is_ipv4_dotted blocked_v4_octets)

subsection \<open>IPv4 addresses inside IPv6 literals\<close>

lemma dotted_lower: "to_lower (dotted a b c d) = dotted a b c d"
proof -
  have "lower_char x = x" if "is_digit x \<or> x = CHR ''.''" for x
    using that by (auto simp: lower_char_def is_upper_def is_digit_def code_def)
  then have "map lower_char (nat_str n) = nat_str n" "lower_char CHR ''.'' = CHR ''.''" for n
    using nat_str_digits [of n] by (auto simp: list_all_iff map_idI)
  then show ?thesis by (simp add: to_lower_def dotted_def)
qed

lemma dotted_chars: "x \<in> set (dotted a b c d) \<Longrightarrow> is_digit x \<or> x = CHR ''.''"
  using nat_str_digits [of a] nat_str_digits [of b] nat_str_digits [of c] nat_str_digits [of d]
  by (auto simp: dotted_def list_all_iff)

lemma quad_shape_dotted:
  "a < 256 \<Longrightarrow> b < 256 \<Longrightarrow> c < 256 \<Longrightarrow> d < 256 \<Longrightarrow> quad_shape (dotted a b c d)"
  by (simp add: quad_shape_def split_dotted nat_str_short)

lemma mapped_quad:
  assumes "a < 256" "b < 256" "c < 256" "d < 256" "pre \<in> {''::ffff:'', ''::FFFF:'', ''::''}"
  shows "isBlockedIPv6 (pre @ dotted a b c d) \<longleftrightarrow> non_public_v4 a b c"
proof -
  define p where "p = to_lower pre"
  have p: "p = ''::ffff:'' \<or> p = ''::''"
    using assms(5) by (auto simp: p_def to_lower_def lower_char_def is_upper_def code_def char_of_def bit_0)
  have "CHR ''%'' \<notin> set (p @ dotted a b c d)"
    using p dotted_chars [of "CHR ''%''" a b c d] by (auto simp: is_digit_def code_def)
  then have n: "hd (split_on CHR ''%'' (to_lower (pre @ dotted a b c d))) = p @ dotted a b c d"
    using dotted_lower [of a b c d] by (simp add: split_on_none p_def to_lower_def)
  have q: "quad_shape (dotted a b c d)" using quad_shape_dotted assms by blast
  have nf: "\<not> starts_with ''::ffff:'' (''::'' @ dotted a b c d)"
    using nat_str_Cons_digit [of a]
    by (auto simp: starts_with_def dotted_def is_digit_def code_def)
  have "embedded_ipv4 (p @ dotted a b c d) = Some (dotted a b c d)"
    using p q nf by (auto simp: embedded_ipv4_def starts_with_def)
  then show ?thesis
    using n blocked_v4_octets assms by (simp add: isBlockedIPv6_def Let_def)
qed

subsection \<open>A history of guard calls\<close>

text \<open>
  One call: the endpoint, the two clock readings and the resolver's answer of that moment. The
  cache justifies an entry by an earlier clean validation.
\<close>

record guard_call =
  gc_raw :: string
  gc_t1 :: int
  gc_t2 :: int
  gc_resolve :: "string \<Rightarrow> string list option"

definition guard_step :: "(string \<Rightarrow> url option) \<Rightarrow> host_cache \<Rightarrow> guard_call \<Rightarrow> host_cache \<times> url res" where
  "guard_step parse cache g =
     assertRoutableEndpoint parse False (gc_resolve g) (gc_t1 g) (gc_t2 g) cache (gc_raw g)"

fun guard_run :: "(string \<Rightarrow> url option) \<Rightarrow> host_cache \<Rightarrow> guard_call list \<Rightarrow> host_cache" where
  "guard_run parse cache [] = cache"
| "guard_run parse cache (g # gs) = guard_run parse (fst (guard_step parse cache g)) gs"

definition clean_addresses :: "guard_call \<Rightarrow> url \<Rightarrow> bool" where
  "clean_addresses g u \<longleftrightarrow>
     (let h = strip_brackets (u_hostname u)
      in if isIP h \<noteq> 0 then \<not> isBlockedAddress h
         else \<exists>as. gc_resolve g h = Some as \<and> as \<noteq> [] \<and> list_all (\<lambda>a. \<not> isBlockedAddress a) as)"

definition validated :: "(string \<Rightarrow> url option) \<Rightarrow> guard_call \<Rightarrow> string \<Rightarrow> int \<Rightarrow> bool" where
  "validated parse g host at_ms \<longleftrightarrow>
     (\<exists>u. parse (gc_raw g) = Some u \<and> u_host u = host \<and> clean_addresses g u \<and> at_ms \<in> {gc_t1 g, gc_t2 g})"

definition justified :: "(string \<Rightarrow> url option) \<Rightarrow> guard_call list \<Rightarrow> host_cache \<Rightarrow> bool" where
  "justified parse gs cache \<longleftrightarrow>
     (\<forall>host ex. (host, ex) \<in> set cache \<longrightarrow>
        (\<exists>g \<in> set gs. validated parse g host (ex - RESOLUTION_CACHE_TTL_MS)))"

definition make_room :: "host_cache \<Rightarrow> host_cache" where
  "make_room cache = (if RESOLUTION_CACHE_MAX_ENTRIES \<le> length cache
        then (case cache of [] \<Rightarrow> [] | (oldest, _) # _ \<Rightarrow> jdel oldest cache) else cache)"

lemma remember_make_room: "rememberHost h t cache = jset h (t + RESOLUTION_CACHE_TTL_MS) (make_room cache)"
  by (simp add: rememberHost_def make_room_def)

lemma make_room_Cons:
  "make_room ((k, v) # r) = (if RESOLUTION_CACHE_MAX_ENTRIES \<le> length ((k, v) # r) then jdel k ((k, v) # r) else (k, v) # r)"
  by (simp add: make_room_def)

lemma make_room_set: "set (make_room cache) \<subseteq> set cache"
proof (cases cache)
  case Nil
  then have "make_room cache = []" by (simp add: make_room_def)
  then show ?thesis by simp
next
  case (Cons e r)
  obtain k v where e: "e = (k, v)" by (cases e)
  have "make_room cache = jdel k cache \<or> make_room cache = cache"
    unfolding Cons e make_room_Cons by (cases "RESOLUTION_CACHE_MAX_ENTRIES \<le> length ((k, v) # r)") simp_all
  then show ?thesis using jdel_set_subset [of k cache] by (metis subset_refl)
qed

lemma make_room_length:
  "length cache \<le> RESOLUTION_CACHE_MAX_ENTRIES \<Longrightarrow> length (make_room cache) < RESOLUTION_CACHE_MAX_ENTRIES"
proof (cases cache)
  case (Cons e r)
  obtain k v where e: "e = (k, v)" by (cases e)
  have "length (jdel k cache) \<le> length r" using Cons e by (simp add: AList.delete_eq)
  moreover assume "length cache \<le> RESOLUTION_CACHE_MAX_ENTRIES"
  ultimately show ?thesis using Cons e by (simp add: make_room_def)
qed (simp add: make_room_def RESOLUTION_CACHE_MAX_ENTRIES_def)

lemma remember_set: "set (rememberHost h t cache) \<subseteq> insert (h, t + RESOLUTION_CACHE_TTL_MS) (set cache)"
  using jset_set_subset [of h "t + RESOLUTION_CACHE_TTL_MS" "make_room cache"] make_room_set [of cache]
  unfolding remember_make_room by blast

lemma remember_length:
  "length cache \<le> RESOLUTION_CACHE_MAX_ENTRIES \<Longrightarrow> length (rememberHost h t cache) \<le> RESOLUTION_CACHE_MAX_ENTRIES"
  using make_room_length [of cache] unfolding remember_make_room length_jset by (simp split: if_split)

lemma shape_ok:
  "assertHttpUrlShape parse raw = Inr u \<Longrightarrow>
   parse raw = Some u \<and> u_protocol u \<in> {''http:'', ''https:''} \<and> u_username u = [] \<and> u_password u = []"
  by (auto simp: assertHttpUrlShape_def split: option.splits if_splits)

text \<open>What a call can do to the cache and when it accepts.\<close>

lemma guard_cases:
  obtains (kept) e where "guard_step parse cache g = (cache, Inl e)"
  | (cached) u ex where "guard_step parse cache g = (cache, Inr u)" "assertHttpUrlShape parse (gc_raw g) = Inr u"
      "jget cache (u_host u) = Some ex" "gc_t1 g < ex"
  | (fresh) u t where "guard_step parse cache g = (rememberHost (u_host u) t cache, Inr u)"
      "assertHttpUrlShape parse (gc_raw g) = Inr u" "t \<in> {gc_t1 g, gc_t2 g}" "clean_addresses g u"
proof (cases "assertHttpUrlShape parse (gc_raw g)")
  case (Inl e)
  then show ?thesis by (intro kept [of e]) (simp add: guard_step_def assertRoutableEndpoint_def)
next
  case (Inr u)
  define h where "h = strip_brackets (u_hostname u)"
  consider "isIP h \<noteq> 0" "isBlockedAddress h" | "isIP h \<noteq> 0" "\<not> isBlockedAddress h"
    | ex where "isIP h = 0" "jget cache (u_host u) = Some ex" "gc_t1 g < ex"
    | "isIP h = 0" "\<not> (case jget cache (u_host u) of None \<Rightarrow> False | Some ex \<Rightarrow> gc_t1 g < ex)"
    by (cases "jget cache (u_host u)") auto
  then show ?thesis
  proof cases
    case 1
    with Inr show ?thesis by (intro kept) (simp add: guard_step_def assertRoutableEndpoint_def h_def [symmetric])
  next
    case 2
    with Inr show ?thesis
      by (intro fresh [of u "gc_t1 g"])
        (simp_all add: guard_step_def assertRoutableEndpoint_def clean_addresses_def h_def [symmetric])
  next
    case 3
    with Inr show ?thesis
      by (intro cached [of u ex]) (simp_all add: guard_step_def assertRoutableEndpoint_def h_def [symmetric])
  next
    case 4
    show ?thesis
    proof (cases "\<exists>as. gc_resolve g h = Some as \<and> as \<noteq> [] \<and> list_all (\<lambda>a. \<not> isBlockedAddress a) as")
      case True
      with 4 Inr show ?thesis
        by (intro fresh [of u "gc_t2 g"])
          (auto simp: guard_step_def assertRoutableEndpoint_def clean_addresses_def h_def [symmetric]
            list_all_iff list_ex_iff)
    next
      case False
      have "\<exists>e. guard_step parse cache g = (cache, Inl e)"
      proof (cases "gc_resolve g h")
        case None
        with 4 Inr show ?thesis by (simp add: guard_step_def assertRoutableEndpoint_def h_def [symmetric])
      next
        case (Some as)
        with False have "as = [] \<or> list_ex isBlockedAddress as" by (auto simp: list_all_iff list_ex_iff)
        with 4 Inr Some show ?thesis
          by (auto simp: guard_step_def assertRoutableEndpoint_def h_def [symmetric])
      qed
      then show ?thesis using kept by blast
    qed
  qed
qed

lemma justified_mono: "justified parse gs cache \<Longrightarrow> set gs \<subseteq> set hs \<Longrightarrow> justified parse hs cache"
  unfolding justified_def by blast

lemma guard_step_justified:
  assumes "justified parse gs cache"
  shows "justified parse (gs @ [g]) (fst (guard_step parse cache g))"
proof (cases rule: guard_cases [of parse cache g])
  case (fresh u t)
  have "validated parse g (u_host u) (t + RESOLUTION_CACHE_TTL_MS - RESOLUTION_CACHE_TTL_MS)"
    using fresh shape_ok [OF fresh(2)] by (auto simp: validated_def)
  then show ?thesis
    using fresh(1) remember_set [of "u_host u" t cache] assms unfolding justified_def by fastforce
qed (use justified_mono [OF assms, of "gs @ [g]"] in auto)

lemma guard_run_justified:
  "justified parse gs cache \<Longrightarrow> justified parse (gs @ hs) (guard_run parse cache hs)"
proof (induction hs arbitrary: gs cache)
  case (Cons g hs)
  from Cons.IH [OF guard_step_justified [OF Cons.prems, of g]] show ?case by simp
qed simp

lemma guard_step_length:
  "length cache \<le> RESOLUTION_CACHE_MAX_ENTRIES \<Longrightarrow>
   length (fst (guard_step parse cache g)) \<le> RESOLUTION_CACHE_MAX_ENTRIES"
  by (cases rule: guard_cases [of parse cache g]) (simp_all add: remember_length)

lemma guard_run_length:
  "length cache \<le> RESOLUTION_CACHE_MAX_ENTRIES \<Longrightarrow>
   length (guard_run parse cache hs) \<le> RESOLUTION_CACHE_MAX_ENTRIES"
  by (induction hs arbitrary: cache) (simp_all add: guard_step_length)

subsection \<open>Properties\<close>

text \<open>
  The bit-mask check agrees with the published ranges: a dotted quad is refused exactly when
  its octets lie in one of the special-purpose blocks (loopback, RFC 1918, link-local with the
  cloud metadata address, carrier NAT, test networks, multicast, reserved), and wrapping it as an
  IPv4-mapped or IPv4-compatible IPv6 literal in dotted notation does not change the answer.
\<close>

theorem ipv4_blocked_iff:
  assumes "a < 256" and "b < 256" and "c < 256" and "d < 256"
  shows "(isBlockedAddress (dotted a b c d) \<longleftrightarrow> non_public_v4 a b c) \<and>
         (\<forall>pre \<in> {''::ffff:'', ''::FFFF:'', ''::''}.
            isBlockedIPv6 (pre @ dotted a b c d) \<longleftrightarrow> non_public_v4 a b c)"
  using blocked_address_octets [OF assms] mapped_quad [OF assms] by blast

theorem ipv4_blocked_iff_witness:
  "isBlockedAddress (dotted 169 254 169 254) \<and> isBlockedIPv6 (''::ffff:'' @ dotted 169 254 169 254) \<and>
   \<not> isBlockedAddress (dotted 8 8 8 8)"
  using ipv4_blocked_iff [of 169 254 169 254] ipv4_blocked_iff [of 8 8 8 8]
  by (simp add: non_public_v4_def)

text \<open>
  The IPv4 checks can be slipped past: the hexadecimal notation of an IPv4-mapped address,
  which is the form a URL parser normalises `[::ffff:169.254.169.254]` to, is classified as a
  public IPv6 address, although the dotted notation of the same address is refused.
\<close>

theorem mapped_hex_not_blocked:
  "isIP ''::ffff:a9fe:a9fe'' = 6 \<and> \<not> isBlockedAddress ''::ffff:a9fe:a9fe'' \<and>
   isBlockedAddress (dotted 169 254 169 254)"
proof -
  have v4: "\<not> is_ipv4 ''::ffff:a9fe:a9fe''" by (simp add: is_ipv4_def Let_def)
  have v6: "is_ipv6 ''::ffff:a9fe:a9fe''"
    by (simp add: is_ipv6_def zone_ok_def groups_of_def hex_group_def is_hex_def is_digit_def code_def)
  have low: "to_lower ''::ffff:a9fe:a9fe'' = ''::ffff:a9fe:a9fe''"
    by (simp add: to_lower_def lower_char_def is_upper_def code_def)
  have "embedded_ipv4 ''::ffff:a9fe:a9fe'' = None"
    by (simp add: embedded_ipv4_def starts_with_def quad_shape_def)
  then have "\<not> isBlockedIPv6 ''::ffff:a9fe:a9fe''"
    by (simp add: isBlockedIPv6_def low Let_def)
  with v4 v6 have "isIP ''::ffff:a9fe:a9fe'' = 6" "\<not> isBlockedAddress ''::ffff:a9fe:a9fe''"
    by (simp_all add: isIP_def isBlockedAddress_def)
  moreover have "isBlockedAddress (dotted 169 254 169 254)"
    by (simp add: blocked_address_octets non_public_v4_def)
  ultimately show ?thesis by blast
qed

lemma guard_sound:
  assumes "guard_step parse (guard_run parse [] gs) g = (cache', Inr u)"
  shows "u_protocol u \<in> {''http:'', ''https:''} \<and> u_username u = [] \<and> u_password u = [] \<and>
         (clean_addresses g u \<or>
          (\<exists>g0 \<in> set gs. \<exists>t0. validated parse g0 (u_host u) t0 \<and> gc_t1 g < t0 + RESOLUTION_CACHE_TTL_MS)) \<and>
         length cache' \<le> RESOLUTION_CACHE_MAX_ENTRIES"
proof -
  let ?c = "guard_run parse [] gs"
  have j: "justified parse gs ?c" using guard_run_justified [of parse "[]" "[]" gs] by (simp add: justified_def)
  have len: "length cache' \<le> RESOLUTION_CACHE_MAX_ENTRIES"
    using guard_step_length [OF guard_run_length [where cache = "[]" and parse = parse and hs = gs],
      of parse g] assms by simp
  show ?thesis
  proof (cases rule: guard_cases [of parse ?c g])
    case (kept e)
    with assms show ?thesis by simp
  next
    case (cached v ex)
    then have "(u_host v, ex) \<in> set ?c" by (simp add: map_of_SomeD)
    with j obtain g0 where "g0 \<in> set gs" "validated parse g0 (u_host v) (ex - RESOLUTION_CACHE_TTL_MS)"
      unfolding justified_def by blast
    moreover have "v = u" using cached(1) assms by simp
    ultimately show ?thesis using cached(4) shape_ok [OF cached(2)] len by force
  next
    case (fresh v t)
    moreover have "v = u" using fresh(1) assms by simp
    ultimately show ?thesis using shape_ok [OF fresh(2)] len by simp
  qed
qed

text \<open>
  C23: No stale trust: when the guard, after any history of calls on an initially empty cache,
  accepts an endpoint with private addresses disallowed, the endpoint is an http(s) URL without
  credentials, and its host was validated, that is resolved to addresses none of which is
  blocked, either by this very call or by an earlier one less than thirty seconds before; and the
  cache never exceeds 1024 hosts.
\<close>

theorem endpoint_guard_sound:
  assumes "guard_step parse (guard_run parse [] gs) g = (cache', Inr u)"
  shows "u_protocol u \<in> {''http:'', ''https:''} \<and> u_username u = [] \<and> u_password u = [] \<and>
         (clean_addresses g u \<or>
          (\<exists>g0 \<in> set gs. \<exists>t0. validated parse g0 (u_host u) t0 \<and> gc_t1 g < t0 + RESOLUTION_CACHE_TTL_MS)) \<and>
         length cache' \<le> RESOLUTION_CACHE_MAX_ENTRIES"
  using guard_sound [OF assms] .

definition ex_url :: url where
  "ex_url = \<lparr>u_protocol = ''https:'', u_username = [], u_password = [], u_host = ''n1.example'',
     u_hostname = ''n1.example''\<rparr>"

definition ex_guard_call :: guard_call where
  "ex_guard_call = \<lparr>gc_raw = ''https://n1.example'', gc_t1 = 0, gc_t2 = 1, gc_resolve = (\<lambda>_. Some [dotted 8 8 8 8])\<rparr>"

lemma ex_guard_accepts:
  "guard_step (\<lambda>_. Some ex_url) [] ex_guard_call = ([(''n1.example'', 30001)], Inr ex_url)"
proof -
  have "isIP ''n1.example'' = 0"
    by (simp add: isIP_def is_ipv4_def is_ipv6_def zone_ok_def groups_of_def hex_group_def is_hex_def
      is_digit_def code_def)
  moreover have "\<not> isBlockedAddress (dotted 8 8 8 8)"
    by (simp add: blocked_address_octets non_public_v4_def)
  ultimately show ?thesis
    by (simp add: guard_step_def assertRoutableEndpoint_def assertHttpUrlShape_def ex_url_def ex_guard_call_def
      strip_brackets_def rememberHost_def RESOLUTION_CACHE_TTL_MS_def RESOLUTION_CACHE_MAX_ENTRIES_def Let_def)
qed

theorem endpoint_guard_sound_witness:
  "clean_addresses ex_guard_call ex_url"
  using endpoint_guard_sound [of "\<lambda>_. Some ex_url" "[]" ex_guard_call] ex_guard_accepts by simp

end
