(* ===== verification/Schemas.thy ===== *)
theory Schemas
  imports Signing Money NetGuard
begin

section \<open>Runtime validation (packages/shared/src/schemas.ts)\<close>

text \<open>
  The schemas of the node routes and of the chat request. A schema is a function from the untrusted
  JSON value to the typed record, \<open>None\<close> when zod reports an issue; the individual issues are not
  modelled. \<open>strict\<close> objects refuse unknown keys, plain ones strip them. \<open>Buffer\<close>'s base64 is
  written out; the URL parser is an argument.
\<close>

subsection \<open>Base64\<close>

definition b64_alphabet :: string where
  "b64_alphabet = ''ABCDEFGHIJKLMNOPQRSTUVWXYZabcdefghijklmnopqrstuvwxyz0123456789+/''"

definition b64_char :: "char \<Rightarrow> bool" where
  "b64_char c \<longleftrightarrow> c \<in> set b64_alphabet"

fun index_of :: "'a \<Rightarrow> 'a list \<Rightarrow> nat" where
  "index_of x [] = 0"
| "index_of x (y # ys) = (if x = y then 0 else Suc (index_of x ys))"

definition b64_val :: "char \<Rightarrow> nat" where
  "b64_val c = index_of c b64_alphabet"

definition b64_digit :: "nat \<Rightarrow> char" where
  "b64_digit n = b64_alphabet ! n"

fun sextet_bytes :: "nat list \<Rightarrow> nat list" where
  "sextet_bytes (a # b # c # d # r) =
     (a * 4 + b div 16) # ((b mod 16) * 16 + c div 4) # ((c mod 4) * 64 + d) # sextet_bytes r"
| "sextet_bytes [a, b, c] = [a * 4 + b div 16, (b mod 16) * 16 + c div 4]"
| "sextet_bytes [a, b] = [a * 4 + b div 16]"
| "sextet_bytes _ = []"

fun byte_sextets :: "nat list \<Rightarrow> nat list" where
  "byte_sextets (x # y # z # r) =
     (x div 4) # ((x mod 4) * 16 + y div 16) # ((y mod 16) * 4 + z div 64) # (z mod 64) # byte_sextets r"
| "byte_sextets [x, y] = [x div 4, (x mod 4) * 16 + y div 16, (y mod 16) * 4]"
| "byte_sextets [x] = [x div 4, (x mod 4) * 16]"
| "byte_sextets [] = []"

definition b64_decode :: "string \<Rightarrow> nat list" where
  "b64_decode s = sextet_bytes (map b64_val (filter b64_char s))"

definition b64_encode :: "nat list \<Rightarrow> string" where
  "b64_encode bs = map b64_digit (byte_sextets bs) @
     replicate ((3 - length bs mod 3) mod 3) (CHR ''='')"

text \<open>The expression \<open>^[A-Za-z0-9+/]+={0,2}$\<close>.\<close>

definition BASE64_RE :: "string \<Rightarrow> bool" where
  "BASE64_RE s \<longleftrightarrow>
     (let body = takeWhile b64_char s; pad = dropWhile b64_char s
      in body \<noteq> [] \<and> length pad \<le> 2 \<and> list_all (\<lambda>c. c = CHR ''='') pad)"

definition isBase64OfLength :: "string \<Rightarrow> nat \<Rightarrow> bool" where
  "isBase64OfLength value n \<longleftrightarrow>
     length value \<noteq> 0 \<and> length value mod 4 = 0 \<and> BASE64_RE value \<and>
     length (b64_decode value) = n \<and> b64_encode (b64_decode value) = value"

subsection \<open>Primitive checks\<close>

definition is_upper_ascii :: "char \<Rightarrow> bool" where "is_upper_ascii c \<longleftrightarrow> 65 \<le> code c \<and> code c \<le> 90"
definition is_lower_ascii :: "char \<Rightarrow> bool" where "is_lower_ascii c \<longleftrightarrow> 97 \<le> code c \<and> code c \<le> 122"

abbreviation is_alnum :: "char \<Rightarrow> bool" where
  "is_alnum c \<equiv> is_upper_ascii c \<or> is_lower_ascii c \<or> is_digit c"

definition len_between :: "nat \<Rightarrow> nat \<Rightarrow> 'a list \<Rightarrow> bool" where
  "len_between lo hi s \<longleftrightarrow> lo \<le> length s \<and> length s \<le> hi"

definition algorand_address :: "string \<Rightarrow> bool" where
  "algorand_address s \<longleftrightarrow> length s = 58 \<and>
     list_all (\<lambda>c. is_upper_ascii c \<or> (50 \<le> code c \<and> code c \<le> 55)) s"

definition model_id_char :: "char \<Rightarrow> bool" where
  "model_id_char c \<longleftrightarrow> is_alnum c \<or> c \<in> {CHR ''.'', CHR ''_'', CHR '':'', CHR ''/'', CHR ''-''}"

definition isSafeModelId :: "string \<Rightarrow> bool" where
  "isSafeModelId s \<longleftrightarrow> len_between 1 200 s \<and> list_all model_id_char s"

definition node_id_ok :: "string \<Rightarrow> bool" where
  "node_id_ok s \<longleftrightarrow> len_between 1 128 s \<and> is_alnum (hd s) \<and>
     list_all (\<lambda>c. is_alnum c \<or> c \<in> {CHR ''.'', CHR ''_'', CHR '':'', CHR ''-''}) s"

definition nonce_ok :: "string \<Rightarrow> bool" where
  "nonce_ok s \<longleftrightarrow> len_between 16 128 s \<and> list_all is_hex s"

definition registration_version_ok :: "string \<Rightarrow> bool" where
  "registration_version_ok s \<longleftrightarrow> len_between 1 32 s \<and>
     list_all (\<lambda>c. is_alnum c \<or> c \<in> {CHR ''.'', CHR ''+'', CHR ''-''}) s"

definition endpoint_ok :: "(string \<Rightarrow> url option) \<Rightarrow> string \<Rightarrow> bool" where
  "endpoint_ok parse s \<longleftrightarrow> parse s \<noteq> None \<and> length s \<le> 512 \<and>
     (starts_with ''http://'' s \<or> starts_with ''https://'' s)"

definition usdc_amount_ok :: "string \<Rightarrow> bool" where
  "usdc_amount_ok s \<longleftrightarrow> isOk (usdcToAtomic s)"

subsection \<open>Readers of JSON members\<close>

definition member_of :: "(string \<times> jsval) list \<Rightarrow> string \<Rightarrow> jsval" where
  "member_of kvs k = (case jget kvs k of None \<Rightarrow> JUndef | Some v \<Rightarrow> v)"

definition z_string :: "(string \<Rightarrow> bool) \<Rightarrow> jsval \<Rightarrow> string option" where
  "z_string ok v = (case v of JStr s \<Rightarrow> if ok s then Some s else None | _ \<Rightarrow> None)"

definition z_bool :: "jsval \<Rightarrow> bool option" where
  "z_bool v = (case v of JBool b \<Rightarrow> Some b | _ \<Rightarrow> None)"

definition z_int :: "(int \<Rightarrow> bool) \<Rightarrow> jsval \<Rightarrow> int option" where
  "z_int ok v = (case v of
      JNum (Fin q) \<Rightarrow> if q = of_int \<lfloor>q\<rfloor> \<and> ok \<lfloor>q\<rfloor> then Some \<lfloor>q\<rfloor> else None
    | _ \<Rightarrow> None)"

definition z_optional :: "(jsval \<Rightarrow> 'a option) \<Rightarrow> jsval \<Rightarrow> 'a option option" where
  "z_optional z v = (if v = JUndef then Some None else map_option Some (z v))"

definition z_array :: "(jsval \<Rightarrow> 'a option) \<Rightarrow> nat \<Rightarrow> nat \<Rightarrow> jsval \<Rightarrow> 'a list option" where
  "z_array z lo hi v = (case v of
      JArr vs \<Rightarrow> if len_between lo hi vs then opt_list z vs else None
    | _ \<Rightarrow> None)"

definition z_strict :: "string list \<Rightarrow> jsval \<Rightarrow> (string \<times> jsval) list option" where
  "z_strict keys v = (case v of
      JObj kvs \<Rightarrow> if set (jkeys kvs) \<subseteq> set keys then Some kvs else None
    | _ \<Rightarrow> None)"

definition z_object :: "jsval \<Rightarrow> (string \<times> jsval) list option" where
  "z_object v = (case v of JObj kvs \<Rightarrow> Some kvs | _ \<Rightarrow> None)"

abbreviation obind :: "'a option \<Rightarrow> ('a \<Rightarrow> 'b option) \<Rightarrow> 'b option" where
  "obind \<equiv> Option.bind"

definition parseOrThrow :: "(jsval \<Rightarrow> 'a option) \<Rightarrow> jsval \<Rightarrow> string \<Rightarrow> 'a res" where
  "parseOrThrow schema data what = (case schema data of
      Some x \<Rightarrow> Inr x
    | None \<Rightarrow> throw ValidationErr (''invalid '' @ what))"

subsection \<open>Nodes\<close>

definition NetworkSchema :: "avm \<Rightarrow> jsval \<Rightarrow> string option" where
  "NetworkSchema a v = obind (z_string (\<lambda>s. s \<noteq> []) v)
     (\<lambda>s. case normalizeNetwork a s of Inr n \<Rightarrow> Some n | Inl _ \<Rightarrow> None)"

definition NodeCapabilitySchema :: "jsval \<Rightarrow> node_capability option" where
  "NodeCapabilitySchema v =
     obind (z_strict [''model'', ''contextWindow'', ''pricePer1kTokensUsdc'', ''quantization''] v) (\<lambda>kv.
     obind (z_string isSafeModelId (member_of kv ''model'')) (\<lambda>model.
     obind (z_int (\<lambda>i. 0 < i \<and> i \<le> 10000000) (member_of kv ''contextWindow'')) (\<lambda>win.
     obind (z_string usdc_amount_ok (member_of kv ''pricePer1kTokensUsdc'')) (\<lambda>price.
     obind (z_optional (z_string (len_between 1 64)) (member_of kv ''quantization'')) (\<lambda>q.
       Some \<lparr>c_model = model, c_contextWindow = win, c_pricePer1kTokensUsdc = price, c_quantization = q\<rparr>)))))"

definition registration_keys :: "string list" where
  "registration_keys = [''nodeId'', ''operatorAddress'', ''endpoint'', ''capabilities'', ''network'',
     ''version'', ''timestamp'', ''nonce'']"

definition MAX_SAFE_INTEGER :: int where "MAX_SAFE_INTEGER = 2 ^ 53 - 1"

definition NodeRegistrationSchema :: "avm \<Rightarrow> (string \<Rightarrow> url option) \<Rightarrow> jsval \<Rightarrow> node_registration option" where
  "NodeRegistrationSchema a parse v =
     obind (z_strict registration_keys v) (\<lambda>kv.
     obind (z_string node_id_ok (member_of kv ''nodeId'')) (\<lambda>nid.
     obind (z_string algorand_address (member_of kv ''operatorAddress'')) (\<lambda>opaddr.
     obind (z_string (endpoint_ok parse) (member_of kv ''endpoint'')) (\<lambda>endpoint.
     obind (z_array NodeCapabilitySchema 1 64 (member_of kv ''capabilities'')) (\<lambda>caps.
     obind (NetworkSchema a (member_of kv ''network'')) (\<lambda>network.
     obind (z_string registration_version_ok (member_of kv ''version'')) (\<lambda>version.
     obind (z_int (\<lambda>i. 0 < i \<and> i \<le> MAX_SAFE_INTEGER) (member_of kv ''timestamp'')) (\<lambda>ts.
     obind (z_string nonce_ok (member_of kv ''nonce'')) (\<lambda>nonce.
       Some \<lparr>r_nodeId = nid, r_operatorAddress = opaddr, r_endpoint = endpoint, r_capabilities = caps,
             r_network = network, r_version = version, r_timestamp = ts, r_nonce = nonce\<rparr>)))))))))"

definition SignedNodeRegistrationSchema ::
  "avm \<Rightarrow> (string \<Rightarrow> url option) \<Rightarrow> jsval \<Rightarrow> signed_registration option" where
  "SignedNodeRegistrationSchema a parse v =
     obind (z_strict [''registration'', ''signature'', ''publicKey''] v) (\<lambda>kv.
     obind (NodeRegistrationSchema a parse (member_of kv ''registration'')) (\<lambda>r.
     obind (z_string (\<lambda>s. isBase64OfLength s 64) (member_of kv ''signature'')) (\<lambda>sig.
     obind (z_string (\<lambda>s. isBase64OfLength s 32) (member_of kv ''publicKey'')) (\<lambda>pk.
       Some \<lparr>sr_registration = r, sr_signature = sig, sr_publicKey = pk\<rparr>))))"

definition heartbeat_keys :: "string list" where
  "heartbeat_keys = [''nodeId'', ''healthy'', ''inFlight'', ''maxConcurrency'', ''version'', ''timestamp'', ''nonce'']"

definition NodeHeartbeatSchema :: "jsval \<Rightarrow> node_heartbeat option" where
  "NodeHeartbeatSchema v =
     obind (z_strict heartbeat_keys v) (\<lambda>kv.
     obind (z_string node_id_ok (member_of kv ''nodeId'')) (\<lambda>nid.
     obind (z_bool (member_of kv ''healthy'')) (\<lambda>healthy.
     obind (z_int (\<lambda>i. 0 \<le> i \<and> i \<le> 1000000) (member_of kv ''inFlight'')) (\<lambda>infl.
     obind (z_int (\<lambda>i. 0 < i \<and> i \<le> 4096) (member_of kv ''maxConcurrency'')) (\<lambda>maxc.
     obind (z_string (len_between 1 64) (member_of kv ''version'')) (\<lambda>version.
     obind (z_int (\<lambda>i. 0 < i) (member_of kv ''timestamp'')) (\<lambda>ts.
     obind (z_string nonce_ok (member_of kv ''nonce'')) (\<lambda>nonce.
       Some \<lparr>hb_nodeId = nid, hb_healthy = healthy, hb_inFlight = infl, hb_maxConcurrency = maxc,
             hb_version = version, hb_timestamp = ts, hb_nonce = nonce\<rparr>))))))))"

definition SignedNodeHeartbeatSchema :: "jsval \<Rightarrow> signed_heartbeat option" where
  "SignedNodeHeartbeatSchema v =
     obind (z_strict [''heartbeat'', ''signature'', ''publicKey''] v) (\<lambda>kv.
     obind (NodeHeartbeatSchema (member_of kv ''heartbeat'')) (\<lambda>h.
     obind (z_string (\<lambda>s. isBase64OfLength s 64) (member_of kv ''signature'')) (\<lambda>sig.
     obind (z_string (\<lambda>s. isBase64OfLength s 32) (member_of kv ''publicKey'')) (\<lambda>pk.
       Some \<lparr>sh_heartbeat = h, sh_signature = sig, sh_publicKey = pk\<rparr>))))"

subsection \<open>Chat requests\<close>

record chat_message =
  cm_role :: string
  cm_content :: string

record chat_request =
  cr_model :: string
  cr_messages :: "chat_message list"
  cr_stream :: "bool option"
  cr_max_tokens :: "int option"
  cr_temperature :: "rat option"
  cr_top_p :: "rat option"
  cr_stop :: "string list option"

definition z_number_between :: "rat \<Rightarrow> rat \<Rightarrow> jsval \<Rightarrow> rat option" where
  "z_number_between lo hi v = (case v of
      JNum (Fin q) \<Rightarrow> if lo \<le> q \<and> q \<le> hi then Some q else None | _ \<Rightarrow> None)"

definition ChatMessageSchema :: "jsval \<Rightarrow> chat_message option" where
  "ChatMessageSchema v =
     obind (z_object v) (\<lambda>kv.
     obind (z_string (\<lambda>s. s \<in> {''system'', ''user'', ''assistant''}) (member_of kv ''role'')) (\<lambda>role.
     obind (z_string (\<lambda>_. True) (member_of kv ''content'')) (\<lambda>content.
       Some \<lparr>cm_role = role, cm_content = content\<rparr>)))"

definition ChatCompletionRequestSchema :: "jsval \<Rightarrow> chat_request option" where
  "ChatCompletionRequestSchema v =
     obind (z_object v) (\<lambda>kv.
     obind (z_string isSafeModelId (member_of kv ''model'')) (\<lambda>model.
     obind (z_array ChatMessageSchema 1 512 (member_of kv ''messages'')) (\<lambda>messages.
     obind (z_optional z_bool (member_of kv ''stream'')) (\<lambda>stream.
     obind (z_optional (z_int (\<lambda>i. 0 < i \<and> i \<le> 1000000)) (member_of kv ''max_tokens'')) (\<lambda>maxt.
     obind (z_optional (z_number_between 0 2) (member_of kv ''temperature'')) (\<lambda>temp.
     obind (z_optional (z_number_between 0 1) (member_of kv ''top_p'')) (\<lambda>topp.
     obind (z_optional (z_array (z_string (\<lambda>_. True)) 0 4) (member_of kv ''stop'')) (\<lambda>stop.
       Some \<lparr>cr_model = model, cr_messages = messages, cr_stream = stream, cr_max_tokens = maxt,
             cr_temperature = temp, cr_top_p = topp, cr_stop = stop\<rparr>))))))))"

subsection \<open>Base64 round trip\<close>

definition bytes_ok :: "nat list \<Rightarrow> bool" where
  "bytes_ok bs \<longleftrightarrow> list_all (\<lambda>b. b < 256) bs"

lemma length_alphabet: "length b64_alphabet = 64"
  by (simp add: b64_alphabet_def)

lemma distinct_alphabet: "distinct b64_alphabet"
  by (simp add: b64_alphabet_def)

lemma index_of_nth: "distinct xs \<Longrightarrow> n < length xs \<Longrightarrow> index_of (xs ! n) xs = n"
  by (induction xs arbitrary: n) (auto simp: nth_Cons split: nat.splits)

lemma index_of_less: "x \<in> set xs \<Longrightarrow> index_of x xs < length xs"
  by (induction xs) auto

lemma b64_val_digit: "n < 64 \<Longrightarrow> b64_val (b64_digit n) = n"
  using index_of_nth [OF distinct_alphabet] by (simp add: b64_val_def b64_digit_def length_alphabet)

lemma b64_digit_char: "n < 64 \<Longrightarrow> b64_char (b64_digit n)"
  by (simp add: b64_char_def b64_digit_def length_alphabet)

lemma b64_val_less: "b64_char c \<Longrightarrow> b64_val c < 64"
  using index_of_less [of c b64_alphabet] by (simp add: b64_val_def b64_char_def length_alphabet)

lemma pad_not_b64: "\<not> b64_char CHR ''=''"
  by (simp add: b64_char_def b64_alphabet_def)

lemma byte_sextets_less: "bytes_ok bs \<Longrightarrow> \<forall>x \<in> set (byte_sextets bs). x < 64"
  by (induction bs rule: byte_sextets.induct) (auto simp: bytes_ok_def)

lemma sextets_of_bytes: "bytes_ok bs \<Longrightarrow> sextet_bytes (byte_sextets bs) = bs"
proof (induction bs rule: byte_sextets.induct)
  case (1 x y z r)
  then have "x < 256" "y < 256" "z < 256" "sextet_bytes (byte_sextets r) = r" by (simp_all add: bytes_ok_def)
  then show ?case by simp
qed (auto simp: bytes_ok_def)

lemma sextet_bytes_ok: "\<forall>x \<in> set ss. x < 64 \<Longrightarrow> bytes_ok (sextet_bytes ss)"
  by (induction ss rule: sextet_bytes.induct) (auto simp: bytes_ok_def)

lemma decode_bytes_ok: "bytes_ok (b64_decode s)"
  unfolding b64_decode_def by (rule sextet_bytes_ok) (auto simp: b64_val_less)

lemma length_encode: "length (b64_encode bs) mod 4 = 0"
proof (induction bs rule: byte_sextets.induct)
  case (1 x y z r)
  have "length (x # y # z # r) mod 3 = length r mod 3"
    by (simp only: list.size) presburger
  then have "length (b64_encode (x # y # z # r)) = length (b64_encode r) + 4"
    by (simp only: b64_encode_def length_append length_replicate length_map byte_sextets.simps list.size)
  with 1 show ?case by simp
qed (simp_all add: b64_encode_def)

lemma encode_body:
  assumes "bytes_ok bs"
  shows "takeWhile b64_char (b64_encode bs) = map b64_digit (byte_sextets bs)"
    and "dropWhile b64_char (b64_encode bs) = replicate ((3 - length bs mod 3) mod 3) CHR ''=''"
    and "filter b64_char (b64_encode bs) = map b64_digit (byte_sextets bs)"
proof -
  have body: "\<forall>c \<in> set (map b64_digit (byte_sextets bs)). b64_char c"
    using byte_sextets_less [OF assms] b64_digit_char by auto
  define k where "k = (3 - length bs mod 3) mod 3"
  have r: "takeWhile b64_char (replicate k CHR ''='') = []" "dropWhile b64_char (replicate k CHR ''='') = replicate k CHR ''=''"
    "filter b64_char (replicate k CHR ''='') = []"
    by (cases k, simp_all add: pad_not_b64)+
  have e: "b64_encode bs = map b64_digit (byte_sextets bs) @ replicate k CHR ''=''"
    by (simp add: b64_encode_def k_def)
  show "takeWhile b64_char (b64_encode bs) = map b64_digit (byte_sextets bs)"
    unfolding e using body r by (subst takeWhile_append2) auto
  show "dropWhile b64_char (b64_encode bs) = replicate ((3 - length bs mod 3) mod 3) CHR ''=''"
    unfolding e k_def [symmetric] using body r by (subst dropWhile_append2) auto
  show "filter b64_char (b64_encode bs) = map b64_digit (byte_sextets bs)"
    unfolding e filter_append r using body by (simp add: filter_id_conv)
qed

lemma decode_encode: "bytes_ok bs \<Longrightarrow> b64_decode (b64_encode bs) = bs"
proof -
  assume b: "bytes_ok bs"
  have "map b64_val (map b64_digit (byte_sextets bs)) = byte_sextets bs"
    using byte_sextets_less [OF b] by (auto simp: b64_val_digit intro: map_idI)
  with b show ?thesis by (simp add: b64_decode_def encode_body(3) sextets_of_bytes)
qed

lemma byte_sextets_nonempty: "bs \<noteq> [] \<Longrightarrow> byte_sextets bs \<noteq> []"
  by (cases bs rule: byte_sextets.cases) simp_all

lemma isBase64OfLength_encode:
  assumes "bytes_ok bs" "bs \<noteq> []"
  shows "isBase64OfLength (b64_encode bs) (length bs)"
proof -
  have "(3 - length bs mod 3) mod 3 \<le> 2" using mod_less_divisor [of 3 "3 - length bs mod 3"] by linarith
  then have "BASE64_RE (b64_encode bs)"
    using byte_sextets_nonempty [OF assms(2)] by (simp add: BASE64_RE_def encode_body [OF assms(1)] list_all_iff)
  moreover have "length (b64_encode bs) \<noteq> 0"
    using byte_sextets_nonempty [OF assms(2)] by (simp add: b64_encode_def)
  ultimately show ?thesis
    by (simp add: isBase64OfLength_def length_encode decode_encode [OF assms(1)])
qed

subsection \<open>What a parsed registration satisfies\<close>

lemma z_string_Some: "z_string ok v = Some s \<longleftrightarrow> v = JStr s \<and> ok s"
  by (cases v) (auto simp: z_string_def)

lemma z_int_Some: "z_int ok v = Some i \<Longrightarrow> ok i"
  by (auto simp: z_int_def split: jsval.splits jsnum.splits if_splits)

lemma z_int_num: "z_int ok (num_of_int i) = (if ok i then Some i else None)"
  by (simp add: z_int_def num_of_int_def)

lemma opt_list_all:
  assumes "opt_list f xs = Some ys" "\<And>x y. f x = Some y \<Longrightarrow> P y"
  shows "list_all P ys"
  using assms(1)
proof (induction xs arbitrary: ys)
  case (Cons x xs)
  then show ?case using assms(2) by (auto split: Option.bind_splits)
qed simp

lemma z_array_all:
  assumes "z_array z lo hi v = Some ys" "\<And>x y. z x = Some y \<Longrightarrow> P y"
  shows "list_all P ys"
  using assms opt_list_all [where f = z and P = P]
  by (auto simp: z_array_def split: jsval.splits if_splits)

definition capability_ok :: "node_capability \<Rightarrow> bool" where
  "capability_ok c \<longleftrightarrow> isSafeModelId (c_model c) \<and> 0 < c_contextWindow c \<and> c_contextWindow c \<le> 10000000 \<and>
     usdc_amount_ok (c_pricePer1kTokensUsdc c)"

lemma capability_schema_ok: "NodeCapabilitySchema v = Some c \<Longrightarrow> capability_ok c"
  by (auto simp: NodeCapabilitySchema_def capability_ok_def z_string_Some dest!: z_int_Some split: Option.bind_splits)

definition registration_ok :: "avm \<Rightarrow> (string \<Rightarrow> url option) \<Rightarrow> node_registration \<Rightarrow> bool" where
  "registration_ok a parse r \<longleftrightarrow>
     node_id_ok (r_nodeId r) \<and> algorand_address (r_operatorAddress r) \<and> endpoint_ok parse (r_endpoint r) \<and>
     list_all capability_ok (r_capabilities r) \<and> registration_version_ok (r_version r) \<and>
     0 < r_timestamp r \<and> r_timestamp r \<le> MAX_SAFE_INTEGER \<and> nonce_ok (r_nonce r) \<and>
     (\<exists>raw. normalizeNetwork a raw = Inr (r_network r))"

lemma registration_schema_ok:
  assumes "NodeRegistrationSchema a parse v = Some r"
  shows "registration_ok a parse r"
proof -
  obtain kv network where o:
    "z_string node_id_ok (member_of kv ''nodeId'') = Some (r_nodeId r)"
    "z_string algorand_address (member_of kv ''operatorAddress'') = Some (r_operatorAddress r)"
    "z_string (endpoint_ok parse) (member_of kv ''endpoint'') = Some (r_endpoint r)"
    "z_array NodeCapabilitySchema 1 64 (member_of kv ''capabilities'') = Some (r_capabilities r)"
    "NetworkSchema a (member_of kv ''network'') = Some (r_network r)"
    "z_string registration_version_ok (member_of kv ''version'') = Some (r_version r)"
    "z_int (\<lambda>i. 0 < i \<and> i \<le> MAX_SAFE_INTEGER) (member_of kv ''timestamp'') = Some (r_timestamp r)"
    "z_string nonce_ok (member_of kv ''nonce'') = Some (r_nonce r)"
    using assms by (auto simp: NodeRegistrationSchema_def split: Option.bind_splits)
  have "\<exists>raw. normalizeNetwork a raw = Inr (r_network r)"
    using o(5) by (auto simp: NetworkSchema_def z_string_Some split: sum.splits Option.bind_splits)
  with o z_int_Some [OF o(7)] z_array_all [OF o(4), of capability_ok] capability_schema_ok
  show ?thesis by (simp add: registration_ok_def z_string_Some)
qed

lemma registration_ok_signable: "registration_ok a parse r \<Longrightarrow> signable r"
  by (auto simp: registration_ok_def signable_def small_int_def capability_ok_def MAX_SAFE_INTEGER_def list_all_iff)

subsection \<open>Properties\<close>

text \<open>
  The base64 check accepts exactly the canonical encodings: a string passes for length `n`
  if and only if it is the standard encoding of some non-empty list of `n` bytes, so two accepted
  strings for the same bytes are equal and padding or stray characters cannot create aliases.
\<close>

theorem base64_check_canonical:
  "isBase64OfLength s n \<longleftrightarrow> (\<exists>bs. bytes_ok bs \<and> bs \<noteq> [] \<and> length bs = n \<and> s = b64_encode bs)"
proof
  assume i: "isBase64OfLength s n"
  have "b64_decode s \<noteq> []"
  proof
    assume "b64_decode s = []"
    with i have "s = b64_encode []" by (simp add: isBase64OfLength_def)
    with i show False by (simp add: isBase64OfLength_def b64_encode_def)
  qed
  with i decode_bytes_ok [of s] show "\<exists>bs. bytes_ok bs \<and> bs \<noteq> [] \<and> length bs = n \<and> s = b64_encode bs"
    by (auto simp: isBase64OfLength_def)
qed (use isBase64OfLength_encode in blast)

text \<open>
  A model id that passed validation is inert wherever it is interpolated: it holds no quote,
  backslash, backtick, dollar sign, angle bracket, ampersand, whitespace or control character,
  and JSON encodes it unchanged between two quotes.
\<close>

theorem safe_model_id_inert:
  assumes "isSafeModelId s"
  shows "(\<forall>c \<in> set s. 32 < code c \<and> code c < 127 \<and>
           c \<notin> {quote, CHR 0x27, backslash, CHR 0x60, CHR ''$'', CHR ''<'', CHR ''>'', CHR ''&''}) \<and>
         json_string s = quote # s @ [quote]"
proof -
  have c: "32 < code c \<and> code c < 127 \<and>
      c \<notin> {quote, CHR 0x27, backslash, CHR 0x60, CHR ''$'', CHR ''<'', CHR ''>'', CHR ''&''}" if "c \<in> set s" for c
  proof -
    have "model_id_char c" using assms that by (simp add: isSafeModelId_def list_all_iff)
    then show ?thesis
      by (auto simp: model_id_char_def is_upper_ascii_def is_lower_ascii_def is_digit_def code_def)
  qed
  then have "json_escape x = [x]" if "x \<in> set s" for x
    using that by (force simp: json_escape_def)
  then have "concat (map json_escape s) = s" by (induction s) auto
  with c show ?thesis by (simp add: json_string_def)
qed

theorem safe_model_id_inert_witness:
  "json_string ''llama3.1:8b'' = quote # ''llama3.1:8b'' @ [quote]"
  using safe_model_id_inert [of "''llama3.1:8b''"]
  by (simp add: isSafeModelId_def len_between_def model_id_char_def is_upper_ascii_def is_lower_ascii_def
    is_digit_def code_def)

end
