(* ===== verification/Config.thy ===== *)
theory Config
  imports Schemas Pricing
begin

section \<open>Gateway configuration (packages/shared/src/config.ts)\<close>

text \<open>
  The field readers, the error that names the offending variables, the reconciliation of the two
  network variables, and \<open>loadGatewayConfig\<close>. The environment is a function from variable names;
  the URL parser, the JSON parser and the SDK are arguments. A field reader answers \<open>None\<close> where
  zod reports an issue. The default
  margin is \<open>DEFAULT_MARGIN_BPS\<close> as an integer. The daemon's loader is not modelled.
\<close>

type_synonym environment = "string \<Rightarrow> string option"

definition CHALLENGE_TAG :: string where "CHALLENGE_TAG = ''x402-global-challenge''"
definition DEFAULT_FACILITATOR_URL :: string where
  "DEFAULT_FACILITATOR_URL = ''https://facilitator.goplausible.xyz''"
definition DEFAULT_GATEWAY_PORT :: int where "DEFAULT_GATEWAY_PORT = 8402"
definition DEFAULT_NODE_REQUEST_TIMEOUT_MS :: int where "DEFAULT_NODE_REQUEST_TIMEOUT_MS = 120000"
definition DEFAULT_MAX_CONCURRENT_PER_NODE :: int where "DEFAULT_MAX_CONCURRENT_PER_NODE = 8"

subsection \<open>Field readers\<close>

definition envValue :: "string option \<Rightarrow> string option" where
  "envValue v = (case v of
      None \<Rightarrow> None
    | Some s \<Rightarrow> let trimmed = trim s in if trimmed = [] then None else Some trimmed)"

definition env_or :: "string option \<Rightarrow> string \<Rightarrow> string" where
  "env_or v dflt = (case envValue v of None \<Rightarrow> dflt | Some s \<Rightarrow> s)"

definition check :: "('a \<Rightarrow> bool) \<Rightarrow> 'a \<Rightarrow> 'a option" where
  "check ok x = (if ok x then Some x else None)"

definition check_optional :: "('a \<Rightarrow> bool) \<Rightarrow> 'a option \<Rightarrow> 'a option option" where
  "check_optional ok v = (case v of None \<Rightarrow> Some None | Some x \<Rightarrow> map_option Some (check ok x))"

definition stringField :: "string \<Rightarrow> nat \<Rightarrow> string option \<Rightarrow> string option" where
  "stringField dflt mx v = check (len_between 1 mx) (env_or v dflt)"

definition optionalStringField :: "nat \<Rightarrow> string option \<Rightarrow> string option option" where
  "optionalStringField mx v = check_optional (len_between 1 mx) (envValue v)"

definition url_ok :: "(string \<Rightarrow> url option) \<Rightarrow> string \<Rightarrow> bool" where
  "url_ok parse s \<longleftrightarrow> parse s \<noteq> None \<and> length s \<le> 512"

definition urlField :: "(string \<Rightarrow> url option) \<Rightarrow> string \<Rightarrow> string option \<Rightarrow> string option" where
  "urlField parse dflt v = check (url_ok parse) (env_or v dflt)"

definition optionalUrlField :: "(string \<Rightarrow> url option) \<Rightarrow> string option \<Rightarrow> string option option" where
  "optionalUrlField parse v = check_optional (url_ok parse) (envValue v)"

text \<open>
  \<open>^-?\d+$\<close>, then \<open>Number\<close>. All bounds are below \<open>2\<^sup>5\<^sup>3\<close>, where the double is the integer itself;
  a longer digit string is rounded to a double that is still out of bounds.
\<close>

definition decimal_int :: "string \<Rightarrow> int option" where
  "decimal_int s = (case s of
      [] \<Rightarrow> None
    | c # cs \<Rightarrow> if c = CHR ''-''
        then (if wire_digits cs then Some (- int (dec_val cs)) else None)
        else (if wire_digits s then Some (int (dec_val s)) else None))"

definition intField :: "int \<Rightarrow> int \<Rightarrow> int \<Rightarrow> string option \<Rightarrow> int option" where
  "intField dflt lo hi v = obind
     (case envValue v of None \<Rightarrow> Some dflt | Some raw \<Rightarrow> decimal_int raw)
     (check (\<lambda>i. lo \<le> i \<and> i \<le> hi))"

definition boolField :: "bool \<Rightarrow> string option \<Rightarrow> bool option" where
  "boolField dflt v = (case map_option to_lower (envValue v) of
      None \<Rightarrow> Some dflt
    | Some raw \<Rightarrow>
        if raw \<in> {''1'', ''true'', ''yes'', ''on''} then Some True
        else if raw \<in> {''0'', ''false'', ''no'', ''off''} then Some False
        else None)"

definition enumField :: "string list \<Rightarrow> string \<Rightarrow> string option \<Rightarrow> string option" where
  "enumField vals dflt v = check (\<lambda>s. s \<in> set vals) (env_or v dflt)"

definition redisUrlField :: "(string \<Rightarrow> url option) \<Rightarrow> string option \<Rightarrow> string option option" where
  "redisUrlField parse v = check_optional (\<lambda>s. length s \<le> 512 \<and>
     (case parse s of None \<Rightarrow> False | Some u \<Rightarrow> u_protocol u = ''redis:'' \<or> u_protocol u = ''rediss:''))
     (envValue v)"

definition usdcField :: "string \<Rightarrow> string option \<Rightarrow> string option" where
  "usdcField dflt v = check usdc_amount_ok (env_or v dflt)"

definition MESH_NETWORK_VALUES :: "string list" where "MESH_NETWORK_VALUES = [''mainnet'', ''testnet'']"
definition LOG_LEVEL_VALUES :: "string list" where
  "LOG_LEVEL_VALUES = [''fatal'', ''error'', ''warn'', ''info'', ''debug'', ''trace'', ''silent'']"

definition stripTrailingSlash :: "string \<Rightarrow> string" where
  "stripTrailingSlash u = (if u \<noteq> [] \<and> last u = CHR ''/'' then rev (dropWhile (\<lambda>c. c = CHR ''/'') (rev u)) else u)"

subsection \<open>The parsed environment\<close>

record gateway_env =
  ge_port :: int
  ge_host :: string
  ge_mesh_network :: string
  ge_x402_network :: "string option"
  ge_facilitator_url :: string
  ge_pay_to :: string
  ge_inbound_price :: string
  ge_model_prices :: "string option"
  ge_margin_bps :: int
  ge_batch_min :: string
  ge_batch_delay :: int
  ge_batch_requests :: int
  ge_public_base_url :: "string option"
  ge_redis_url :: "string option"
  ge_require_opt_in :: bool
  ge_allow_private :: bool
  ge_trust_proxy_hops :: int
  ge_node_timeout :: int
  ge_max_concurrent :: int
  ge_log_level :: string
  ge_otel_enabled :: bool
  ge_otel_endpoint :: "string option"
  ge_stale_after :: int
  ge_challenge_tag :: string

definition GatewayEnvSchema :: "(string \<Rightarrow> url option) \<Rightarrow> environment \<Rightarrow> gateway_env option" where
  "GatewayEnvSchema parse env =
     obind (intField DEFAULT_GATEWAY_PORT 1 65535 (env ''PORT'')) (\<lambda>port.
     obind (stringField ''0.0.0.0'' 255 (env ''HOST'')) (\<lambda>host.
     obind (enumField MESH_NETWORK_VALUES ''testnet'' (env ''MESH_NETWORK'')) (\<lambda>meshNet.
     obind (optionalStringField 128 (env ''X402_NETWORK'')) (\<lambda>x402Net.
     obind (urlField parse DEFAULT_FACILITATOR_URL (env ''X402_FACILITATOR_URL'')) (\<lambda>facilitator.
     obind (obind (envValue (env ''X402_PAY_TO_ADDRESS'')) (check algorand_address)) (\<lambda>payTo.
     obind (usdcField DEFAULT_INBOUND_USDC (env ''MESH_INBOUND_PRICE_USDC'')) (\<lambda>price.
     obind (optionalStringField 4096 (env ''MESH_MODEL_PRICES'')) (\<lambda>prices.
     obind (intField 1500 0 10000 (env ''MESH_MARGIN_BPS'')) (\<lambda>bps.
     obind (usdcField ''0'' (env ''MESH_PAYOUT_BATCH_MIN_USDC'')) (\<lambda>batchMin.
     obind (intField 900000 1000 86400000 (env ''MESH_PAYOUT_BATCH_MAX_DELAY_MS'')) (\<lambda>batchDelay.
     obind (intField 100 1 10000 (env ''MESH_PAYOUT_BATCH_MAX_REQUESTS'')) (\<lambda>batchMax.
     obind (optionalUrlField parse (env ''MESH_PUBLIC_BASE_URL'')) (\<lambda>publicUrl.
     obind (redisUrlField parse (env ''REDIS_URL'')) (\<lambda>redis.
     obind (boolField True (env ''MESH_REQUIRE_USDC_OPT_IN'')) (\<lambda>optIn.
     obind (boolField False (env ''MESH_ALLOW_PRIVATE_NODE_ENDPOINTS'')) (\<lambda>allowPriv.
     obind (intField 0 0 10 (env ''MESH_TRUST_PROXY_HOPS'')) (\<lambda>hops.
     obind (intField DEFAULT_NODE_REQUEST_TIMEOUT_MS 1000 600000 (env ''MESH_NODE_REQUEST_TIMEOUT_MS'')) (\<lambda>timeout.
     obind (intField DEFAULT_MAX_CONCURRENT_PER_NODE 1 1024 (env ''MESH_MAX_CONCURRENT_PER_NODE'')) (\<lambda>maxc.
     obind (enumField LOG_LEVEL_VALUES ''info'' (env ''LOG_LEVEL'')) (\<lambda>level.
     obind (boolField False (env ''OTEL_ENABLED'')) (\<lambda>otel.
     obind (optionalUrlField parse (env ''OTEL_EXPORTER_OTLP_ENDPOINT'')) (\<lambda>otelUrl.
     obind (intField 90000 5000 3600000 (env ''MESH_NODE_STALE_AFTER_MS'')) (\<lambda>stale.
     obind (stringField CHALLENGE_TAG 64 (env ''X402_CHALLENGE_TAG'')) (\<lambda>tag.
       Some \<lparr>ge_port = port, ge_host = host, ge_mesh_network = meshNet, ge_x402_network = x402Net,
         ge_facilitator_url = facilitator, ge_pay_to = payTo, ge_inbound_price = price,
         ge_model_prices = prices, ge_margin_bps = bps, ge_batch_min = batchMin,
         ge_batch_delay = batchDelay, ge_batch_requests = batchMax, ge_public_base_url = publicUrl,
         ge_redis_url = redis, ge_require_opt_in = optIn, ge_allow_private = allowPriv,
         ge_trust_proxy_hops = hops, ge_node_timeout = timeout, ge_max_concurrent = maxc,
         ge_log_level = level, ge_otel_enabled = otel, ge_otel_endpoint = otelUrl,
         ge_stale_after = stale, ge_challenge_tag = tag\<rparr>))))))))))))))))))))))))"

text \<open>zod reports every failing field; the message of the thrown error (its variables) is not modelled.\<close>

definition parseEnv :: "(environment \<Rightarrow> 'a option) \<Rightarrow> environment \<Rightarrow> string \<Rightarrow> 'a res" where
  "parseEnv schema env kind = (case schema env of
      Some x \<Rightarrow> Inr x
    | None \<Rightarrow> throw ConfigErr (''invalid '' @ kind @ '' configuration''))"

definition mesh_of_name :: "string \<Rightarrow> mesh_network" where
  "mesh_of_name s = (if s = ''mainnet'' then Mainnet else Testnet)"

definition name_of_mesh :: "mesh_network \<Rightarrow> string" where
  "name_of_mesh m = (case m of Mainnet \<Rightarrow> ''mainnet'' | Testnet \<Rightarrow> ''testnet'')"

definition resolveNetwork ::
  "avm \<Rightarrow> environment \<Rightarrow> mesh_network \<Rightarrow> string option \<Rightarrow> (string \<times> mesh_network) res" where
  "resolveNetwork a env selector override = (case override of
      None \<Rightarrow> Inr (toCaip2 a selector, selector)
    | Some raw \<Rightarrow>
        (case normalizeNetwork a raw of
           Inl _ \<Rightarrow> throw ConfigErr ''X402_NETWORK is not a supported Algorand CAIP-2 network''
         | Inr network \<Rightarrow> bind_res (toMeshNetwork a network) (\<lambda>derived.
             if envValue (env ''MESH_NETWORK'') \<noteq> None \<and> derived \<noteq> selector
             then throw ConfigErr (''MESH_NETWORK ('' @ name_of_mesh selector @ '') and X402_NETWORK ('' @
                    name_of_mesh derived @ '') disagree'')
             else Inr (network, derived))))"

record gateway_config =
  g_port :: int
  g_host :: string
  g_network :: string
  g_meshNetwork :: mesh_network
  g_facilitatorUrl :: string
  g_payToAddress :: string
  g_inboundPriceUsdc :: string
  g_modelPricesUsdc :: model_prices
  g_marginBps :: int
  g_payoutBatchMinUsdc :: string
  g_payoutBatchMaxDelayMs :: int
  g_payoutBatchMaxRequests :: int
  g_publicBaseUrl :: string
  g_redisUrl :: "string option"
  g_requireUsdcOptIn :: bool
  g_allowPrivateNodeEndpoints :: bool
  g_trustProxyHops :: int
  g_nodeRequestTimeoutMs :: int
  g_maxConcurrentPerNode :: int
  g_logLevel :: string
  g_otelEnabled :: bool
  g_otelExporterUrl :: "string option"
  g_nodeStaleAfterMs :: int
  g_challengeTag :: string

definition loadGatewayConfig ::
  "avm \<Rightarrow> (string \<Rightarrow> url option) \<Rightarrow> (string \<Rightarrow> jsval option) \<Rightarrow> environment \<Rightarrow> gateway_config res" where
  "loadGatewayConfig a parse json_parse env =
     bind_res (parseEnv (GatewayEnvSchema parse) env ''gateway'') (\<lambda>p.
     bind_res (resolveNetwork a env (mesh_of_name (ge_mesh_network p)) (ge_x402_network p)) (\<lambda>(network, mesh).
     bind_res (parseModelPrices json_parse (ge_model_prices p)) (\<lambda>prices.
       Inr \<lparr>g_port = ge_port p, g_host = ge_host p, g_network = network, g_meshNetwork = mesh,
         g_facilitatorUrl = stripTrailingSlash (ge_facilitator_url p),
         g_payToAddress = ge_pay_to p, g_inboundPriceUsdc = ge_inbound_price p,
         g_modelPricesUsdc = prices, g_marginBps = ge_margin_bps p,
         g_payoutBatchMinUsdc = ge_batch_min p, g_payoutBatchMaxDelayMs = ge_batch_delay p,
         g_payoutBatchMaxRequests = ge_batch_requests p,
         g_publicBaseUrl = stripTrailingSlash (case ge_public_base_url p of
           Some u \<Rightarrow> u | None \<Rightarrow> ''http://localhost:'' @ int_str (ge_port p)),
         g_redisUrl = ge_redis_url p, g_requireUsdcOptIn = ge_require_opt_in p,
         g_allowPrivateNodeEndpoints = ge_allow_private p, g_trustProxyHops = ge_trust_proxy_hops p,
         g_nodeRequestTimeoutMs = ge_node_timeout p, g_maxConcurrentPerNode = ge_max_concurrent p,
         g_logLevel = ge_log_level p, g_otelEnabled = ge_otel_enabled p,
         g_otelExporterUrl = ge_otel_endpoint p, g_nodeStaleAfterMs = ge_stale_after p,
         g_challengeTag = ge_challenge_tag p\<rparr>)))"

subsection \<open>What a loaded configuration satisfies\<close>

definition no_trailing_slash :: "string \<Rightarrow> bool" where
  "no_trailing_slash s \<longleftrightarrow> s = [] \<or> last s \<noteq> CHR ''/''"

lemma strip_no_trailing: "no_trailing_slash (stripTrailingSlash u)"
proof (cases "u \<noteq> [] \<and> last u = CHR ''/''")
  case True
  let ?d = "dropWhile (\<lambda>c. c = CHR ''/'') (rev u)"
  show ?thesis
  proof (cases "?d = []")
    case False
    then show ?thesis using True hd_dropWhile [OF False]
      by (simp add: stripTrailingSlash_def no_trailing_slash_def last_rev)
  qed (use True in \<open>simp add: stripTrailingSlash_def no_trailing_slash_def\<close>)
qed (auto simp: stripTrailingSlash_def no_trailing_slash_def)

lemma strip_idem: "stripTrailingSlash (stripTrailingSlash u) = stripTrailingSlash u"
  using strip_no_trailing [of u] by (subst stripTrailingSlash_def) (auto simp: no_trailing_slash_def)

lemma check_Some: "check ok x = Some y \<longleftrightarrow> y = x \<and> ok x"
  by (auto simp: check_def)

lemma intField_range: "intField d lo hi v = Some i \<Longrightarrow> lo \<le> i \<and> i \<le> hi"
  by (auto simp: intField_def check_Some split: Option.bind_splits)

lemma usdcField_ok: "usdcField d v = Some s \<Longrightarrow> usdc_amount_ok s"
  by (auto simp: usdcField_def check_Some)

definition config_ok :: "avm \<Rightarrow> gateway_config \<Rightarrow> bool" where
  "config_ok a c \<longleftrightarrow>
     1 \<le> g_port c \<and> g_port c \<le> 65535 \<and>
     g_network c = toCaip2 a (g_meshNetwork c) \<and>
     algorand_address (g_payToAddress c) \<and>
     usdc_amount_ok (g_inboundPriceUsdc c) \<and> usdc_amount_ok (g_payoutBatchMinUsdc c) \<and>
     good_table (g_modelPricesUsdc c) \<and>
     0 \<le> g_marginBps c \<and> g_marginBps c \<le> 10000 \<and>
     1000 \<le> g_payoutBatchMaxDelayMs c \<and> g_payoutBatchMaxDelayMs c \<le> 86400000 \<and>
     1 \<le> g_payoutBatchMaxRequests c \<and> g_payoutBatchMaxRequests c \<le> 10000 \<and>
     no_trailing_slash (g_facilitatorUrl c) \<and> no_trailing_slash (g_publicBaseUrl c) \<and>
     1000 \<le> g_nodeRequestTimeoutMs c \<and> g_nodeRequestTimeoutMs c \<le> 600000 \<and>
     1 \<le> g_maxConcurrentPerNode c \<and> g_maxConcurrentPerNode c \<le> 1024 \<and>
     5000 \<le> g_nodeStaleAfterMs c \<and> g_nodeStaleAfterMs c \<le> 3600000 \<and>
     0 \<le> g_trustProxyHops c \<and> g_trustProxyHops c \<le> 10"

lemma resolveNetwork_consistent:
  assumes "sdk_ok a" and "resolveNetwork a env sel ov = Inr (network, mesh)"
  shows "network = toCaip2 a mesh"
proof (cases ov)
  case None
  with assms(2) show ?thesis by (auto simp: resolveNetwork_def)
next
  case (Some raw)
  with assms(2) obtain n where n: "normalizeNetwork a raw = Inr n" "toMeshNetwork a n = Inr mesh" "network = n"
    by (auto simp: resolveNetwork_def bind_res_Inr_iff split: sum.splits if_splits)
  from caip2_mesh [OF assms(1) n(2)] normalize_idem [OF assms(1) n(1)] n(3) show ?thesis by simp
qed

lemma resolveNetwork_error: "resolveNetwork a env sel ov = Inl e \<Longrightarrow> exn_class e = ConfigErr"
  by (auto simp: resolveNetwork_def toMeshNetwork_def normalizeNetwork_def bind_res_def
    split: option.splits sum.splits if_splits)

lemma bind_SomeE: "obind m f = Some y \<Longrightarrow> (\<And>x. m = Some x \<Longrightarrow> f x = Some y \<Longrightarrow> P) \<Longrightarrow> P"
  by (cases m) simp_all

lemma gateway_env_fields:
  assumes "GatewayEnvSchema parse env = Some p"
  shows "1 \<le> ge_port p \<and> ge_port p \<le> 65535" "algorand_address (ge_pay_to p)"
    "usdc_amount_ok (ge_inbound_price p)" "usdc_amount_ok (ge_batch_min p)"
    "0 \<le> ge_margin_bps p \<and> ge_margin_bps p \<le> 10000"
    "1000 \<le> ge_batch_delay p \<and> ge_batch_delay p \<le> 86400000"
    "1 \<le> ge_batch_requests p \<and> ge_batch_requests p \<le> 10000"
    "1000 \<le> ge_node_timeout p \<and> ge_node_timeout p \<le> 600000"
    "1 \<le> ge_max_concurrent p \<and> ge_max_concurrent p \<le> 1024"
    "5000 \<le> ge_stale_after p \<and> ge_stale_after p \<le> 3600000"
    "0 \<le> ge_trust_proxy_hops p \<and> ge_trust_proxy_hops p \<le> 10"
proof -
  have *: "intField DEFAULT_GATEWAY_PORT 1 65535 (env ''PORT'') = Some (ge_port p) \<and>
    obind (envValue (env ''X402_PAY_TO_ADDRESS'')) (check algorand_address) = Some (ge_pay_to p) \<and>
    usdcField DEFAULT_INBOUND_USDC (env ''MESH_INBOUND_PRICE_USDC'') = Some (ge_inbound_price p) \<and>
    usdcField ''0'' (env ''MESH_PAYOUT_BATCH_MIN_USDC'') = Some (ge_batch_min p) \<and>
    intField 1500 0 10000 (env ''MESH_MARGIN_BPS'') = Some (ge_margin_bps p) \<and>
    intField 900000 1000 86400000 (env ''MESH_PAYOUT_BATCH_MAX_DELAY_MS'') = Some (ge_batch_delay p) \<and>
    intField 100 1 10000 (env ''MESH_PAYOUT_BATCH_MAX_REQUESTS'') = Some (ge_batch_requests p) \<and>
    intField DEFAULT_NODE_REQUEST_TIMEOUT_MS 1000 600000 (env ''MESH_NODE_REQUEST_TIMEOUT_MS'') = Some (ge_node_timeout p) \<and>
    intField DEFAULT_MAX_CONCURRENT_PER_NODE 1 1024 (env ''MESH_MAX_CONCURRENT_PER_NODE'') = Some (ge_max_concurrent p) \<and>
    intField 90000 5000 3600000 (env ''MESH_NODE_STALE_AFTER_MS'') = Some (ge_stale_after p) \<and>
    intField 0 0 10 (env ''MESH_TRUST_PROXY_HOPS'') = Some (ge_trust_proxy_hops p)"
    using assms unfolding GatewayEnvSchema_def 
    apply (elim bind_SomeE)
    apply (drule option.inject [THEN iffD1])
    apply hypsubst
    apply (simp only: gateway_env.simps simp_thms Option.bind.simps)
    done
  show "1 \<le> ge_port p \<and> ge_port p \<le> 65535" using * by (elim conjE) (rule intField_range)
  show "algorand_address (ge_pay_to p)" using * by (elim conjE bind_SomeE) (simp add: check_Some)
  show "usdc_amount_ok (ge_inbound_price p)" using * by (elim conjE) (rule usdcField_ok)
  show "usdc_amount_ok (ge_batch_min p)" using * by (elim conjE) (rule usdcField_ok)
  show "0 \<le> ge_margin_bps p \<and> ge_margin_bps p \<le> 10000" using * by (elim conjE) (rule intField_range)
  show "1000 \<le> ge_batch_delay p \<and> ge_batch_delay p \<le> 86400000" using * by (elim conjE) (rule intField_range)
  show "1 \<le> ge_batch_requests p \<and> ge_batch_requests p \<le> 10000" using * by (elim conjE) (rule intField_range)
  show "1000 \<le> ge_node_timeout p \<and> ge_node_timeout p \<le> 600000" using * by (elim conjE) (rule intField_range)
  show "1 \<le> ge_max_concurrent p \<and> ge_max_concurrent p \<le> 1024" using * by (elim conjE) (rule intField_range)
  show "5000 \<le> ge_stale_after p \<and> ge_stale_after p \<le> 3600000" using * by (elim conjE) (rule intField_range)
  show "0 \<le> ge_trust_proxy_hops p \<and> ge_trust_proxy_hops p \<le> 10" using * by (elim conjE) (rule intField_range)
qed

lemma loaded_config_ok:
  assumes "sdk_ok a" and "loadGatewayConfig a parse json_parse env = Inr c"
  shows "config_ok a c"
proof -
  obtain p network mesh prices where p: "GatewayEnvSchema parse env = Some p"
    and n: "resolveNetwork a env (mesh_of_name (ge_mesh_network p)) (ge_x402_network p) = Inr (network, mesh)"
    and pr: "parseModelPrices json_parse (ge_model_prices p) = Inr prices"
    and c: "g_port c = ge_port p" "g_network c = network" "g_meshNetwork c = mesh" "g_payToAddress c = ge_pay_to p"
      "g_inboundPriceUsdc c = ge_inbound_price p" "g_payoutBatchMinUsdc c = ge_batch_min p"
      "g_modelPricesUsdc c = prices" "g_marginBps c = ge_margin_bps p"
      "g_payoutBatchMaxDelayMs c = ge_batch_delay p" "g_payoutBatchMaxRequests c = ge_batch_requests p"
      "no_trailing_slash (g_facilitatorUrl c)" "no_trailing_slash (g_publicBaseUrl c)"
      "g_nodeRequestTimeoutMs c = ge_node_timeout p" "g_maxConcurrentPerNode c = ge_max_concurrent p"
      "g_nodeStaleAfterMs c = ge_stale_after p" "g_trustProxyHops c = ge_trust_proxy_hops p"
    using assms(2)
    by (auto simp: loadGatewayConfig_def bind_res_Inr_iff parseEnv_def strip_no_trailing split: option.splits)
  from gateway_env_fields [OF p] resolveNetwork_consistent [OF assms(1) n] parseModelPrices_good [OF pr]
  show ?thesis by (simp add: config_ok_def c)
qed

subsection \<open>Properties\<close>

text \<open>
  C38: A gateway that boots has a consistent configuration: its network is the canonical identifier
  of its network selector, its prices and price table parse, the payout address is well formed,
  every numeric setting (port, margin, batch delay and size, trusted proxy hops, node timeout, cap and
  staleness bound) lies in its declared range (in particular no accrued payout can be held
  longer than 24 hours), and the URLs other paths are appended to end in no slash. The first
  hypothesis is the documented behaviour of the SDK.
\<close>

theorem loaded_config_consistent:
  assumes "sdk_ok a" and "loadGatewayConfig a parse json_parse env = Inr c"
  shows "config_ok a c"
  using assms by (rule loaded_config_ok)

definition ex_env_vars :: environment where
  "ex_env_vars = (\<lambda>k. if k = ''X402_PAY_TO_ADDRESS'' then Some (replicate 58 CHR ''A'') else None)"

definition any_url :: "string \<Rightarrow> url option" where
  "any_url s = Some \<lparr>u_protocol = ''https:'', u_username = [], u_password = [], u_host = s, u_hostname = s\<rparr>"

lemma ex_env_config:
  "\<exists>c. loadGatewayConfig demo_avm any_url (\<lambda>_. None) ex_env_vars = Inr c \<and> g_inboundPriceUsdc c = DEFAULT_INBOUND_USDC"
proof -
  have e: "envValue (ex_env_vars k) = (if k = ''X402_PAY_TO_ADDRESS'' then Some (replicate 58 CHR ''A'') else None)" for k
  proof -
    have "trim (replicate 58 CHR ''A'') = replicate 58 CHR ''A''"
      by (rule trim_no_outer_ws) (simp add: is_ws_def code_def)
    then show ?thesis by (simp add: envValue_def ex_env_vars_def)
  qed
  have addr: "algorand_address (replicate 58 CHR ''A'')"
    by (simp add: algorand_address_def is_upper_ascii_def code_def list_all_iff)
  have price: "usdc_amount_ok DEFAULT_INBOUND_USDC" "usdc_amount_ok ''0''"
    by (simp_all add: usdc_amount_ok_def DEFAULT_INBOUND_USDC_def usdcToAtomic_def trim_def is_ws_def code_def
      Let_def starts_with_def decimal_match_def is_digit_def USDC_DECIMALS_def)
  show ?thesis
    by (simp add: loadGatewayConfig_def parseEnv_def GatewayEnvSchema_def intField_def stringField_def
      optionalStringField_def enumField_def urlField_def usdcField_def optionalUrlField_def redisUrlField_def
      boolField_def env_or_def check_optional_def check_def e addr price url_ok_def any_url_def
      DEFAULT_GATEWAY_PORT_def DEFAULT_NODE_REQUEST_TIMEOUT_MS_def DEFAULT_MAX_CONCURRENT_PER_NODE_def
      DEFAULT_FACILITATOR_URL_def CHALLENGE_TAG_def MESH_NETWORK_VALUES_def LOG_LEVEL_VALUES_def len_between_def
      resolveNetwork_def parseModelPrices_def)
qed

lemma ex_env_loads: "isOk (loadGatewayConfig demo_avm any_url (\<lambda>_. None) ex_env_vars)"
  using ex_env_config by (auto simp: isOk_iff)

theorem loaded_config_consistent_witness:
  "\<exists>c. loadGatewayConfig demo_avm any_url (\<lambda>_. None) ex_env_vars = Inr c \<and> config_ok demo_avm c"
  using ex_env_loads loaded_config_consistent [OF demo_sdk_ok] unfolding isOk_iff by blast

end
