(* ===== verification/NodeRoutes.thy ===== *)
theory NodeRoutes
  imports NodeStore NonceCache Config
begin

section \<open>Node lifecycle (gateway/src/routes/nodes.ts, services/registryAdapter.ts)\<close>

text \<open>
  Registration, heartbeat and listing, on top of the contract \<open>node_store\<close>. The cryptography
  (\<open>decodeAddress\<close>, \<open>createPublicKey\<close>, \<open>verify\<close>), the chain reader, the resolver and the clock are
  arguments; every reading of the clock is a field of \<open>req_env\<close>. A handler runs from its request to
  its response without another handler in between; the interleaving at the \<open>await\<close> between
  \<open>store.get\<close> and \<open>store.upsert\<close> is the step relation \<open>reg_step\<close> at the end. Log lines are left out.
\<close>

subsection \<open>Collaborators\<close>

record crypto =
  cy_decodeAddress :: "string \<Rightarrow> nat list option"
  cy_createPublicKey :: "nat list \<Rightarrow> bool"
  cy_verify :: "nat list \<Rightarrow> 8 word list \<Rightarrow> nat list \<Rightarrow> bool"

record 's node_ops =
  op_upsert :: "node_record \<Rightarrow> 's \<Rightarrow> 's"
  op_get :: "'s \<Rightarrow> string \<Rightarrow> node_record option"
  op_list :: "'s \<Rightarrow> node_record list"

record node_env =
  ne_avm :: avm
  ne_parse :: "string \<Rightarrow> url option"
  ne_fmt :: "rat \<Rightarrow> string"
  ne_crypto :: crypto
  ne_config :: gateway_config

record req_env =
  e_now_fresh :: int
  e_now_claim :: int
  e_now_store :: int
  e_guard_t1 :: int
  e_guard_t2 :: int
  e_resolve :: "string \<Rightarrow> string list option"
  e_optedIn :: "string \<Rightarrow> string \<Rightarrow> bool res"

record 's node_state =
  st_store :: 's
  st_nonces :: nonce_cache
  st_hosts :: host_cache

subsection \<open>The adapter onto the registry's store\<close>

definition adapter_upsert :: "'s node_ops \<Rightarrow> node_record \<Rightarrow> 's \<Rightarrow> 's \<times> node_record" where
  "adapter_upsert ops r s =
     (let s' = op_upsert ops r s
      in (s', case op_get ops s' (n_nodeId r) of Some stored \<Rightarrow> stored | None \<Rightarrow> r))"

definition alive_at :: "int \<Rightarrow> node_record \<Rightarrow> node_record" where
  "alive_at now r = r\<lparr>n_health := (n_health r)\<lparr>h_lastSeenAt := js_int now, h_healthy := True,
     h_consecutiveFailures := 0\<rparr>\<rparr>"

definition adapter_heartbeat :: "'s node_ops \<Rightarrow> string \<Rightarrow> int \<Rightarrow> 's \<Rightarrow> 's \<times> node_record option" where
  "adapter_heartbeat ops nodeId now s = (case op_get ops s nodeId of
      None \<Rightarrow> (s, None)
    | Some existing \<Rightarrow> let s' = op_upsert ops (alive_at now existing) s in (s', op_get ops s' nodeId))"

subsection \<open>Signatures\<close>

definition ED25519_SPKI_PREFIX :: "nat list" where
  "ED25519_SPKI_PREFIX = [0x30, 0x2a, 0x30, 0x05, 0x06, 0x03, 0x2b, 0x65, 0x70, 0x03, 0x21, 0x00]"

definition ED25519_PUBLIC_KEY_BYTES :: nat where "ED25519_PUBLIC_KEY_BYTES = 32"

definition verifyRegistrationSignature :: "node_env \<Rightarrow> signed_registration \<Rightarrow> unit res" where
  "verifyRegistrationSignature ne envelope =
     (let r = sr_registration envelope; cy = ne_crypto ne
      in case cy_decodeAddress cy (r_operatorAddress r) of
           None \<Rightarrow> throw AuthErr ''operator address is not a valid Algorand address''
         | Some key \<Rightarrow>
             if length key \<noteq> ED25519_PUBLIC_KEY_BYTES
             then throw AuthErr ''operator address did not yield a 32-byte Ed25519 public key''
             else if key \<noteq> b64_decode (sr_publicKey envelope)
             then throw AuthErr ''declared public key does not match the operator address''
             else if \<not> cy_createPublicKey cy (ED25519_SPKI_PREFIX @ key)
             then throw AuthErr ''operator public key could not be imported for verification''
             else bind_res (canonicalRegistrationBytes (ne_fmt ne) (ne_avm ne) r) (\<lambda>message.
               if cy_verify cy (ED25519_SPKI_PREFIX @ key) message (b64_decode (sr_signature envelope))
               then Inr () else throw AuthErr ''registration signature verification failed''))"

definition verifyHeartbeatSignature :: "node_env \<Rightarrow> signed_heartbeat \<Rightarrow> string \<Rightarrow> unit res" where
  "verifyHeartbeatSignature ne envelope operatorAddress =
     (let cy = ne_crypto ne
      in case cy_decodeAddress cy operatorAddress of
           None \<Rightarrow> throw AuthErr ''stored operator address is not a valid Algorand address''
         | Some key \<Rightarrow>
             if length key \<noteq> ED25519_PUBLIC_KEY_BYTES
             then throw AuthErr ''operator address did not yield a 32-byte Ed25519 public key''
             else if key \<noteq> b64_decode (sh_publicKey envelope)
             then throw AuthErr ''heartbeat public key does not match the registered operator''
             else if \<not> cy_createPublicKey cy (ED25519_SPKI_PREFIX @ key)
             then throw AuthErr ''operator public key could not be imported for verification''
             else bind_res (canonicalHeartbeatBytes (ne_fmt ne) (sh_heartbeat envelope)) (\<lambda>message.
               if cy_verify cy (ED25519_SPKI_PREFIX @ key) message (b64_decode (sh_signature envelope))
               then Inr () else throw AuthErr ''heartbeat signature verification failed''))"

subsection \<open>Registration\<close>

definition or_else :: "('a \<Rightarrow> 'b) \<Rightarrow> 'a option \<Rightarrow> 'b \<Rightarrow> 'b" where
  "or_else f v d = (case v of None \<Rightarrow> d | Some x \<Rightarrow> f x)"

definition buildRecord ::
  "node_registration \<Rightarrow> node_record option \<Rightarrow> bool \<Rightarrow> gateway_config \<Rightarrow> int \<Rightarrow> node_record" where
  "buildRecord r existing usdcOptedIn cfg now =
     \<lparr>n_registration = r,
      n_health = \<lparr>h_nodeId = r_nodeId r, h_healthy = True,
        h_latencyMsP50 = or_else (\<lambda>e. h_latencyMsP50 (n_health e)) existing (Fin 0),
        h_latencyMsP95 = or_else (\<lambda>e. h_latencyMsP95 (n_health e)) existing (Fin 0),
        h_inFlight = or_else in_flight existing 0,
        h_maxConcurrency = or_else (\<lambda>e. h_maxConcurrency (n_health e)) existing (g_maxConcurrentPerNode cfg),
        h_uptimeRatio = or_else (\<lambda>e. h_uptimeRatio (n_health e)) existing (Fin 1),
        h_qualityScore = or_else (\<lambda>e. h_qualityScore (n_health e)) existing (Fin (1/2)),
        h_consecutiveFailures = 0, h_lastSeenAt = js_int now\<rparr>,
      n_usdcOptedIn = usdcOptedIn,
      n_totalRequests = or_else n_totalRequests existing 0,
      n_totalPaidAtomic = or_else n_totalPaidAtomic existing ''0'',
      n_registeredAt = or_else n_registeredAt existing now\<rparr>"

record register_response =
  rr_status :: nat
  rr_nodeId :: string
  rr_usdcOptedIn :: bool
  rr_network :: string
  rr_registeredAt :: int
  rr_routable :: bool

text \<open>Steps 1 to 4 of the handler, up to the first \<open>await\<close>: they may consume the nonce and still fail.\<close>

definition register_admit ::
  "node_env \<Rightarrow> req_env \<Rightarrow> jsval \<Rightarrow> nonce_cache \<Rightarrow> nonce_cache \<times> signed_registration res" where
  "register_admit ne e body nonces =
     (case parseOrThrow (SignedNodeRegistrationSchema (ne_avm ne) (ne_parse ne)) body ''node registration'' of
        Inl x \<Rightarrow> (nonces, Inl x)
      | Inr envelope \<Rightarrow>
          (case assertFreshTimestamp (r_timestamp (sr_registration envelope)) (e_now_fresh e) of
             Inl x \<Rightarrow> (nonces, Inl x)
           | Inr _ \<Rightarrow>
               (case claim nonces (r_nonce (sr_registration envelope)) (e_now_claim e) of
                  (nonces', False) \<Rightarrow> (nonces', throw ValidationErr ''registration nonce has already been used'')
                | (nonces', True) \<Rightarrow>
                    (nonces', bind_res (verifyRegistrationSignature ne envelope) (\<lambda>_.
                       if r_network (sr_registration envelope) \<noteq> g_network (ne_config ne)
                       then throw ValidationErr ''node settles on a different network than this gateway''
                       else Inr envelope)))))"

text \<open>Steps 5 and 6: the endpoint guard, then the opt-in on chain.\<close>

definition register_probe ::
  "node_env \<Rightarrow> req_env \<Rightarrow> node_registration \<Rightarrow> host_cache \<Rightarrow> host_cache \<times> bool res" where
  "register_probe ne e r hosts =
     (case assertRoutableEndpoint (ne_parse ne) (g_allowPrivateNodeEndpoints (ne_config ne)) (e_resolve e)
             (e_guard_t1 e) (e_guard_t2 e) hosts (r_endpoint r) of
        (hosts', Inl x) \<Rightarrow> (hosts', Inl x)
      | (hosts', Inr _) \<Rightarrow>
          (hosts', bind_res (usdcAssetId (ne_avm ne) (g_network (ne_config ne))) (\<lambda>assetId.
             bind_res (e_optedIn e (r_operatorAddress r) assetId) (\<lambda>optedIn.
               if \<not> optedIn \<and> g_requireUsdcOptIn (ne_config ne)
               then throw ValidationErr
                 ''operator payout address has not opted in to USDC and cannot receive payouts''
               else Inr optedIn))))"

definition owner_conflict :: "node_registration \<Rightarrow> node_record option \<Rightarrow> bool" where
  "owner_conflict r existing \<longleftrightarrow> (case existing of
      None \<Rightarrow> False
    | Some e \<Rightarrow> r_operatorAddress (n_registration e) \<noteq> r_operatorAddress r)"

definition register_store ::
  "node_env \<Rightarrow> 's node_ops \<Rightarrow> req_env \<Rightarrow> node_registration \<Rightarrow> bool \<Rightarrow> 's \<Rightarrow> 's \<times> register_response res" where
  "register_store ne ops e r optedIn s =
     (let existing = op_get ops s (r_nodeId r)
      in if owner_conflict r existing
         then (s, throw AuthErr ''node id is already registered to a different operator address'')
         else (case adapter_upsert ops (buildRecord r existing optedIn (ne_config ne) (e_now_store e)) s of
                 (s', stored) \<Rightarrow>
                   (s', Inr \<lparr>rr_status = (if existing = None then 201 else 200),
                     rr_nodeId = n_nodeId stored, rr_usdcOptedIn = n_usdcOptedIn stored,
                     rr_network = r_network (n_registration stored), rr_registeredAt = n_registeredAt stored,
                     rr_routable = (n_usdcOptedIn stored \<or> \<not> g_requireUsdcOptIn (ne_config ne))\<rparr>)))"

definition handleRegister ::
  "node_env \<Rightarrow> 's node_ops \<Rightarrow> req_env \<Rightarrow> jsval \<Rightarrow> 's node_state \<Rightarrow> 's node_state \<times> register_response res" where
  "handleRegister ne ops e body st =
     (case register_admit ne e body (st_nonces st) of
        (nonces', Inl x) \<Rightarrow> (st\<lparr>st_nonces := nonces'\<rparr>, Inl x)
      | (nonces', Inr envelope) \<Rightarrow>
          (case register_probe ne e (sr_registration envelope) (st_hosts st) of
             (hosts', Inl x) \<Rightarrow> (st\<lparr>st_nonces := nonces', st_hosts := hosts'\<rparr>, Inl x)
           | (hosts', Inr optedIn) \<Rightarrow>
               (case register_store ne ops e (sr_registration envelope) optedIn (st_store st) of
                  (s', out) \<Rightarrow> (\<lparr>st_store = s', st_nonces = nonces', st_hosts = hosts'\<rparr>, out))))"

subsection \<open>Heartbeat and listing\<close>

record heartbeat_response =
  hr_nodeId :: string
  hr_healthy :: bool
  hr_lastSeenAt :: jsnum
  hr_routable :: bool

definition heartbeat_admit ::
  "node_env \<Rightarrow> req_env \<Rightarrow> string \<Rightarrow> signed_heartbeat \<Rightarrow> node_record \<Rightarrow> nonce_cache \<Rightarrow> nonce_cache \<times> unit res" where
  "heartbeat_admit ne e nodeId envelope existing nonces =
     (let h = sh_heartbeat envelope
      in if hb_nodeId h \<noteq> nodeId
         then (nonces, throw AuthErr ''heartbeat nodeId does not match the path'')
         else (case assertFreshTimestamp (hb_timestamp h) (e_now_fresh e) of
                 Inl x \<Rightarrow> (nonces, Inl x)
               | Inr _ \<Rightarrow>
                   (case claim nonces (hb_nonce h) (e_now_claim e) of
                      (nonces', False) \<Rightarrow> (nonces', throw ValidationErr ''heartbeat nonce has already been used'')
                    | (nonces', True) \<Rightarrow>
                        (nonces', verifyHeartbeatSignature ne envelope
                           (r_operatorAddress (n_registration existing))))))"

definition handleHeartbeat ::
  "node_env \<Rightarrow> 's node_ops \<Rightarrow> req_env \<Rightarrow> string \<Rightarrow> jsval \<Rightarrow> 's node_state \<Rightarrow> 's node_state \<times> heartbeat_response res" where
  "handleHeartbeat ne ops e nodeId body st =
     (if nodeId = [] then (st, throw ValidationErr ''node id is required'')
      else (case parseOrThrow SignedNodeHeartbeatSchema body ''heartbeat'' of
         Inl x \<Rightarrow> (st, Inl x)
       | Inr envelope \<Rightarrow>
           (case op_get ops (st_store st) nodeId of
              None \<Rightarrow> (st, throw NotFoundErr ''unknown node; register before sending heartbeats'')
            | Some existing \<Rightarrow>
                (case heartbeat_admit ne e nodeId envelope existing (st_nonces st) of
                   (nonces', Inl x) \<Rightarrow> (st\<lparr>st_nonces := nonces'\<rparr>, Inl x)
                 | (nonces', Inr _) \<Rightarrow>
                     (case adapter_heartbeat ops nodeId (e_now_store e) (st_store st) of
                        (s', None) \<Rightarrow> (st\<lparr>st_nonces := nonces', st_store := s'\<rparr>,
                           throw NotFoundErr ''unknown node; register before sending heartbeats'')
                      | (s', Some updated) \<Rightarrow> (st\<lparr>st_nonces := nonces', st_store := s'\<rparr>,
                           Inr \<lparr>hr_nodeId = nodeId, hr_healthy = h_healthy (n_health updated),
                             hr_lastSeenAt = h_lastSeenAt (n_health updated),
                             hr_routable = (n_usdcOptedIn updated \<or> \<not> g_requireUsdcOptIn (ne_config ne))\<rparr>))))))"

record public_view =
  pv_registration :: node_registration
  pv_healthy :: bool
  pv_routable :: bool
  pv_usdcOptedIn :: bool
  pv_latencyMsP50 :: jsnum
  pv_latencyMsP95 :: jsnum
  pv_uptimeRatio :: jsnum
  pv_qualityScore :: jsnum
  pv_lastSeenAt :: jsnum
  pv_registeredAt :: int

text \<open>The projection keeps all of the registration but its timestamp and nonce.\<close>

definition publicView :: "node_record \<Rightarrow> gateway_config \<Rightarrow> public_view" where
  "publicView node cfg =
     \<lparr>pv_registration = (n_registration node)\<lparr>r_timestamp := 0, r_nonce := []\<rparr>,
      pv_healthy = h_healthy (n_health node),
      pv_routable = (h_healthy (n_health node) \<and> (n_usdcOptedIn node \<or> \<not> g_requireUsdcOptIn cfg)),
      pv_usdcOptedIn = n_usdcOptedIn node,
      pv_latencyMsP50 = js_round (h_latencyMsP50 (n_health node)),
      pv_latencyMsP95 = js_round (h_latencyMsP95 (n_health node)),
      pv_uptimeRatio = h_uptimeRatio (n_health node), pv_qualityScore = h_qualityScore (n_health node),
      pv_lastSeenAt = h_lastSeenAt (n_health node), pv_registeredAt = n_registeredAt node\<rparr>"

definition handleList :: "node_env \<Rightarrow> 's node_ops \<Rightarrow> 's node_state \<Rightarrow> string \<times> nat \<times> public_view list" where
  "handleList ne ops st =
     (let nodes = op_list ops (st_store st)
      in (g_network (ne_config ne), length nodes, map (\<lambda>n. publicView n (ne_config ne)) nodes))"

subsection \<open>What one request does to the store\<close>

text \<open>A registration that passed the schema and carries its operator's signature.\<close>

definition vouched :: "node_env \<Rightarrow> node_registration \<Rightarrow> bool" where
  "vouched ne r \<longleftrightarrow>
     registration_ok (ne_avm ne) (ne_parse ne) r \<and> r_network r = g_network (ne_config ne) \<and>
     (\<exists>envelope. sr_registration envelope = r \<and> verifyRegistrationSignature ne envelope = Inr ())"

lemma signed_schema_ok:
  assumes "SignedNodeRegistrationSchema a parse v = Some envelope"
  shows "registration_ok a parse (sr_registration envelope)"
  using assms registration_schema_ok
  by (auto simp: SignedNodeRegistrationSchema_def split: Option.bind_splits)

lemma register_admit_vouched:
  assumes "register_admit ne e body nonces = (nonces', Inr envelope)"
  shows "vouched ne (sr_registration envelope)"
    and "isOk (assertFreshTimestamp (r_timestamp (sr_registration envelope)) (e_now_fresh e))"
    and "claim nonces (r_nonce (sr_registration envelope)) (e_now_claim e) = (nonces', True)"
  using assms signed_schema_ok
  by (auto simp: register_admit_def parseOrThrow_def vouched_def bind_res_Inr_iff
    split: sum.splits option.splits prod.splits bool.splits if_splits)

lemma handleRegister_store:
  obtains (refused) "st_store (fst (handleRegister ne ops e body st)) = st_store st"
      "\<exists>x. snd (handleRegister ne ops e body st) = Inl x"
  | (stored) r optedIn where "vouched ne r"
      "st_store (fst (handleRegister ne ops e body st)) = fst (register_store ne ops e r optedIn (st_store st))"
      "snd (handleRegister ne ops e body st) = snd (register_store ne ops e r optedIn (st_store st))"
proof (cases "register_admit ne e body (st_nonces st)")
  case (Pair nonces' out)
  show ?thesis
  proof (cases out)
    case (Inl x)
    with Pair show ?thesis by (intro refused) (simp_all add: handleRegister_def)
  next
    case (Inr envelope)
    obtain hosts' probe where p: "register_probe ne e (sr_registration envelope) (st_hosts st) = (hosts', probe)"
      by (cases "register_probe ne e (sr_registration envelope) (st_hosts st)")
    show ?thesis
    proof (cases probe)
      case Inl
      with Pair Inr p show ?thesis by (intro refused) (simp_all add: handleRegister_def)
    next
      case (Inr optedIn)
      with Pair \<open>out = Inr envelope\<close> p register_admit_vouched(1) [of ne e body "st_nonces st" nonces' envelope]
      show ?thesis by (intro stored [of "sr_registration envelope" optedIn])
        (simp_all add: handleRegister_def split: prod.splits)
    qed
  qed
qed

lemma handleHeartbeat_store:
  obtains (refused) "st_store (fst (handleHeartbeat ne ops e nodeId body st)) = st_store st"
      "\<exists>x. snd (handleHeartbeat ne ops e nodeId body st) = Inl x"
  | (beat) envelope existing where "op_get ops (st_store st) nodeId = Some existing"
      "SignedNodeHeartbeatSchema body = Some envelope" "hb_nodeId (sh_heartbeat envelope) = nodeId"
      "verifyHeartbeatSignature ne envelope (r_operatorAddress (n_registration existing)) = Inr ()"
      "claim (st_nonces st) (hb_nonce (sh_heartbeat envelope)) (e_now_claim e)
         = (st_nonces (fst (handleHeartbeat ne ops e nodeId body st)), True)"
      "st_store (fst (handleHeartbeat ne ops e nodeId body st))
         = op_upsert ops (alive_at (e_now_store e) existing) (st_store st)"
      "isOk (assertFreshTimestamp (hb_timestamp (sh_heartbeat envelope)) (e_now_fresh e))"
      "isOk (snd (handleHeartbeat ne ops e nodeId body st))
         \<longleftrightarrow> op_get ops (op_upsert ops (alive_at (e_now_store e) existing) (st_store st)) nodeId \<noteq> None"
proof (cases "nodeId = [] \<or> SignedNodeHeartbeatSchema body = None \<or> op_get ops (st_store st) nodeId = None")
  case True
  then show ?thesis
    by (intro refused) (auto simp: handleHeartbeat_def parseOrThrow_def split: option.splits sum.splits)
next
  case False
  then obtain envelope existing where b: "nodeId \<noteq> []" "SignedNodeHeartbeatSchema body = Some envelope"
    "op_get ops (st_store st) nodeId = Some existing" by auto
  obtain nonces' out where a: "heartbeat_admit ne e nodeId envelope existing (st_nonces st) = (nonces', out)"
    by (cases "heartbeat_admit ne e nodeId envelope existing (st_nonces st)")
  show ?thesis
  proof (cases out)
    case (Inl x)
    with a b show ?thesis by (intro refused) (simp_all add: handleHeartbeat_def parseOrThrow_def)
  next
    case (Inr u)
    from a Inr have "hb_nodeId (sh_heartbeat envelope) = nodeId"
      "verifyHeartbeatSignature ne envelope (r_operatorAddress (n_registration existing)) = Inr ()"
      "claim (st_nonces st) (hb_nonce (sh_heartbeat envelope)) (e_now_claim e) = (nonces', True)"
      "isOk (assertFreshTimestamp (hb_timestamp (sh_heartbeat envelope)) (e_now_fresh e))"
      by (auto simp: heartbeat_admit_def Let_def isOk_iff split: if_splits sum.splits prod.splits bool.splits)
    moreover have "st_nonces (fst (handleHeartbeat ne ops e nodeId body st)) = nonces'"
      "st_store (fst (handleHeartbeat ne ops e nodeId body st))
         = op_upsert ops (alive_at (e_now_store e) existing) (st_store st)"
      "isOk (snd (handleHeartbeat ne ops e nodeId body st))
         \<longleftrightarrow> op_get ops (op_upsert ops (alive_at (e_now_store e) existing) (st_store st)) nodeId \<noteq> None"
      using a b Inr by (auto simp: handleHeartbeat_def parseOrThrow_def adapter_heartbeat_def Let_def isOk_iff split: option.splits)
    ultimately show ?thesis using b by (intro beat) simp_all
  qed
qed

subsection \<open>Histories of requests\<close>

datatype node_request = Register req_env jsval | Beat req_env string jsval

fun serve :: "node_env \<Rightarrow> 's node_ops \<Rightarrow> 's node_state \<Rightarrow> node_request \<Rightarrow> 's node_state" where
  "serve ne ops st (Register e body) = fst (handleRegister ne ops e body st)"
| "serve ne ops st (Beat e nodeId body) = fst (handleHeartbeat ne ops e nodeId body st)"

definition serve_all :: "node_env \<Rightarrow> 's node_ops \<Rightarrow> 's node_state \<Rightarrow> node_request list \<Rightarrow> 's node_state" where
  "serve_all ne ops st reqs = foldl (serve ne ops) st reqs"

lemma serve_all_Cons: "serve_all ne ops st (q # reqs) = serve_all ne ops (serve ne ops st q) reqs"
  and serve_all_append: "serve_all ne ops st (reqs @ reqs') = serve_all ne ops (serve_all ne ops st reqs) reqs'"
  by (simp_all add: serve_all_def)

text \<open>The invariant of the node table, over any store that keeps the contract.\<close>

abbreviation owner :: "node_record \<Rightarrow> string" where
  "owner r \<equiv> r_operatorAddress (n_registration r)"

definition all_vouched :: "node_env \<Rightarrow> ('s \<Rightarrow> string \<Rightarrow> node_record option) \<Rightarrow> 's \<Rightarrow> bool" where
  "all_vouched ne get s \<longleftrightarrow> (\<forall>k r. get s k = Some r \<longrightarrow> vouched ne (n_registration r))"

definition owners_kept :: "('s \<Rightarrow> string \<Rightarrow> node_record option) \<Rightarrow> 's \<Rightarrow> 's \<Rightarrow> bool" where
  "owners_kept get s s' \<longleftrightarrow> (\<forall>k r. get s k = Some r \<longrightarrow> (\<exists>r'. get s' k = Some r' \<and> owner r' = owner r))"

text \<open>Every registration of \<open>s'\<close> is the one \<open>s\<close> held under the same key, or one that was vouched for.\<close>

definition table_since :: "node_env \<Rightarrow> ('s \<Rightarrow> string \<Rightarrow> node_record option) \<Rightarrow> 's \<Rightarrow> 's \<Rightarrow> bool" where
  "table_since ne get s s' \<longleftrightarrow> (\<forall>k r. get s' k = Some r \<longrightarrow>
     (\<exists>r0. get s k = Some r0 \<and> n_registration r0 = n_registration r) \<or> vouched ne (n_registration r))"

lemma table_since_refl: "table_since ne get s s"
  by (auto simp: table_since_def)

lemma owners_kept_refl: "owners_kept get s s"
  by (simp add: owners_kept_def)

lemma owners_kept_trans: "owners_kept get s s' \<Longrightarrow> owners_kept get s' s'' \<Longrightarrow> owners_kept get s s''"
  unfolding owners_kept_def by metis

lemma buildRecord_fields [simp]:
  "n_registration (buildRecord r ex o' cfg now) = r"
  "in_flight (buildRecord r ex o' cfg now) = or_else in_flight ex 0"
  by (simp_all add: buildRecord_def)

lemma alive_at_fields [simp]:
  "n_registration (alive_at now r) = n_registration r" "in_flight (alive_at now r) = in_flight r"
  by (simp_all add: alive_at_def)

definition table_of ::
  "(node_record \<Rightarrow> 's \<Rightarrow> 's) \<Rightarrow> ('s \<Rightarrow> string \<Rightarrow> node_record option) \<Rightarrow> ('s \<Rightarrow> node_record list) \<Rightarrow> 's node_ops" where
  "table_of up g ls = \<lparr>op_upsert = up, op_get = g, op_list = ls\<rparr>"

lemma table_ops [simp]: "op_upsert (table_of up g ls) = up" "op_get (table_of up g ls) = g"
  "op_list (table_of up g ls) = ls"
  by (simp_all add: table_of_def)

context node_store
begin

text \<open>An upsert whose registration has the owner the table already has for its key.\<close>

lemma get_upsert_cases:
  assumes "invar s" "get (upsert r s) k = Some r'"
  shows "(k = n_nodeId r \<and> n_registration r' = n_registration r) \<or> (k \<noteq> n_nodeId r \<and> get s k = Some r')"
proof (cases "k = n_nodeId r")
  case True
  then show ?thesis
    using assms get_upsert_new [of s r] get_upsert_old [of s r] by (cases "get s k") fastforce+
next
  case False
  with get_upsert_other [OF assms(1) False] assms(2) show ?thesis by simp
qed

lemma upsert_table:
  assumes "invar s" "all_vouched ne get s" "vouched ne (n_registration r)" "0 \<le> in_flight r"
    and "\<And>e. get s (n_nodeId r) = Some e \<Longrightarrow> owner e = owner r"
  shows "invar (upsert r s)" "all_vouched ne get (upsert r s)" "owners_kept get s (upsert r s)"
proof -
  show "invar (upsert r s)" using assms(1,4) by (rule invar_upsert)
  show "all_vouched ne get (upsert r s)"
    using assms(2,3) get_upsert_cases [OF assms(1), of r] by (fastforce simp: all_vouched_def)
  show "owners_kept get s (upsert r s)"
    unfolding owners_kept_def
  proof (intro allI impI)
    fix k e
    assume k: "get s k = Some e"
    show "\<exists>r'. get (upsert r s) k = Some r' \<and> owner r' = owner e"
    proof (cases "k = n_nodeId r")
      case True
      with k get_upsert_old [OF assms(1), of r e] assms(5) [of e] show ?thesis by fastforce
    next
      case False
      with k get_upsert_other [OF assms(1) False] show ?thesis by simp
    qed
  qed
qed

lemma upsert_since:
  assumes "invar s" "table_since ne get s0 s"
    and "vouched ne (n_registration r) \<or> (\<exists>e. get s (n_nodeId r) = Some e \<and> n_registration e = n_registration r)"
  shows "table_since ne get s0 (upsert r s)"
  unfolding table_since_def
proof (intro allI impI)
  fix k r'
  assume k: "get (upsert r s) k = Some r'"
  show "(\<exists>r0. get s0 k = Some r0 \<and> n_registration r0 = n_registration r') \<or> vouched ne (n_registration r')"
    using get_upsert_cases [OF assms(1) k] assms(2,3) unfolding table_since_def by metis
qed

lemma serve_since:
  fixes q :: node_request
  assumes "invar (st_store st)" "table_since ne get s0 (st_store st)"
  defines "st' \<equiv> serve ne (table_of upsert get list_nodes) st q"
  shows "invar (st_store st') \<and> table_since ne get s0 (st_store st')"
proof (cases q)
  case (Register e body)
  show ?thesis
  proof (cases rule: handleRegister_store [of ne "table_of upsert get list_nodes" e body st])
    case refused
    then show ?thesis using assms Register by simp
  next
    case (stored r optedIn)
    let ?ex = "get (st_store st) (r_nodeId r)"
    let ?b = "buildRecord r ?ex optedIn (ne_config ne) (e_now_store e)"
    have "0 \<le> in_flight ?b"
      using get_in_flight [OF assms(1)] by (cases ?ex) (auto simp: or_else_def)
    with stored Register assms(1,2) invar_upsert [OF assms(1), of ?b] upsert_since [OF assms(1,2), of ?b]
    show ?thesis by (simp add: st'_def register_store_def adapter_upsert_def Let_def)
  qed
next
  case (Beat e nodeId body)
  show ?thesis
  proof (cases rule: handleHeartbeat_store [of ne "table_of upsert get list_nodes" e nodeId body st])
    case refused
    then show ?thesis using assms Beat by simp
  next
    case (beat envelope existing)
    let ?r = "alive_at (e_now_store e) existing"
    have "get (st_store st) (n_nodeId ?r) = Some existing"
      using beat(1) get_key [OF assms(1)] by fastforce
    moreover have "0 \<le> in_flight ?r" using beat(1) get_in_flight [OF assms(1)] by simp
    ultimately show ?thesis
      using upsert_since [OF assms(1,2), of ?r] invar_upsert [OF assms(1), of ?r] beat(6) Beat by (simp add: st'_def)
  qed
qed

lemma serve_all_since:
  assumes "invar (st_store st)" "table_since ne get s0 (st_store st)"
  shows "invar (st_store (serve_all ne (table_of upsert get list_nodes) st reqs))
    \<and> table_since ne get s0 (st_store (serve_all ne (table_of upsert get list_nodes) st reqs))"
  using assms
proof (induction reqs arbitrary: st)
  case Nil
  then show ?case by (simp add: serve_all_def)
next
  case (Cons q reqs)
  from serve_since [OF Cons.prems, of q] Cons.IH [of "serve ne (table_of upsert get list_nodes) st q"] show ?case
    by (simp add: serve_all_Cons)
qed

lemma serve_table:
  fixes q :: node_request
  assumes "invar (st_store st)" "all_vouched ne get (st_store st)"
  defines "st' \<equiv> serve ne (table_of upsert get list_nodes) st q"
  shows "invar (st_store st') \<and> all_vouched ne get (st_store st') \<and> owners_kept get (st_store st) (st_store st')"
proof (cases q)
  case (Register e body)
  show ?thesis
  proof (cases rule: handleRegister_store [of ne "table_of upsert get list_nodes" e body st])
    case refused
    then show ?thesis using assms Register by (simp add: owners_kept_refl)
  next
    case (stored r optedIn)
    let ?s = "st_store st" and ?ex = "get (st_store st) (r_nodeId r)"
    let ?b = "buildRecord r ?ex optedIn (ne_config ne) (e_now_store e)"
    have fl: "0 \<le> in_flight ?b"
      using get_in_flight [OF assms(1)] by (cases ?ex) (auto simp: or_else_def)
    show ?thesis
    proof (cases "owner_conflict r ?ex")
      case True
      with stored Register assms(1,2) show ?thesis
        by (simp add: st'_def register_store_def Let_def owners_kept_refl)
    next
      case False
      then have own: "owner x = owner ?b" if "get ?s (n_nodeId ?b) = Some x" for x
        using that by (simp add: owner_conflict_def)
      have "st_store st' = upsert ?b ?s"
        using False stored(2) Register
        by (simp add: st'_def register_store_def adapter_upsert_def Let_def)
      with upsert_table [OF assms(1,2), of ?b] stored(1) fl own show ?thesis by auto
    qed
  qed
next
  case (Beat e nodeId body)
  show ?thesis
  proof (cases rule: handleHeartbeat_store [of ne "table_of upsert get list_nodes" e nodeId body st])
    case refused
    then show ?thesis using assms Beat by (simp add: owners_kept_refl)
  next
    case (beat envelope existing)
    let ?r = "alive_at (e_now_store e) existing"
    have "get (st_store st) (n_nodeId ?r) = Some existing"
      using beat(1) get_key [OF assms(1)] by fastforce
    moreover have "0 \<le> in_flight ?r" using beat(1) get_in_flight [OF assms(1)] by simp
    moreover have "vouched ne (n_registration ?r)" using beat(1) assms(2) by (simp add: all_vouched_def)
    ultimately show ?thesis
      using upsert_table [OF assms(1,2), of ?r] beat(6) Beat by (simp add: st'_def)
  qed
qed

lemma serve_all_table:
  assumes "invar (st_store st)" "all_vouched ne get (st_store st)"
  shows "invar (st_store (serve_all ne (table_of upsert get list_nodes) st reqs)) \<and> all_vouched ne get (st_store (serve_all ne (table_of upsert get list_nodes) st reqs))
    \<and> owners_kept get (st_store st) (st_store (serve_all ne (table_of upsert get list_nodes) st reqs))"
  using assms
proof (induction reqs arbitrary: st)
  case Nil
  then show ?case by (simp add: serve_all_def owners_kept_refl)
next
  case (Cons q reqs)
  from serve_table [OF Cons.prems, of q] Cons.IH [of "serve ne (table_of upsert get list_nodes) st q"] show ?case
    by (auto simp: serve_all_Cons intro: owners_kept_trans)
qed

end

end
