(* ===== verification/NodeProps.thy ===== *)
theory NodeProps
  imports NodeRoutes
begin

section \<open>Who may write the node table\<close>

text \<open>
  The properties of the node routes over the in-memory store, by the interpretation \<open>mem\<close> of the
  store contract, with a concrete environment in which a registration and a heartbeat go through;
  and the interleaving at the \<open>await\<close> of the registration handler.
\<close>

definition mem_ops :: "mem_store node_ops" where
  "mem_ops = table_of mem_upsert mem_get mem_list"

definition empty_state :: "mem_store node_state" where
  "empty_state = \<lparr>st_store = mem_empty, st_nonces = default_nonce_cache, st_hosts = []\<rparr>"

lemma empty_ok: "mem_inv (st_store empty_state)" "all_vouched ne mem_get (st_store empty_state)"
proof -
  have "st_store empty_state = mem_empty" by (simp add: empty_state_def)
  then show "mem_inv (st_store empty_state)" "all_vouched ne mem_get (st_store empty_state)"
    by (simp_all add: all_vouched_def) (simp add: mem_get_def mem_empty_def)
qed

lemma empty_get: "mem_get (st_store empty_state) k = None"
  by (simp add: empty_state_def mem_get_def mem_empty_def)

lemma served_from_empty:
  "mem_inv (st_store (serve_all ne mem_ops empty_state reqs)) \<and>
   all_vouched ne mem_get (st_store (serve_all ne mem_ops empty_state reqs))"
  using mem.serve_all_table [OF empty_ok, of ne reqs] by (simp add: mem_ops_def)

subsection \<open>An example environment\<close>

definition ex_crypto :: crypto where
  "ex_crypto = \<lparr>cy_decodeAddress = (\<lambda>_. Some (replicate 32 0)), cy_createPublicKey = (\<lambda>_. True),
     cy_verify = (\<lambda>_ _ _. True)\<rparr>"

definition ex_config :: gateway_config where
  "ex_config = \<lparr>g_port = 8402, g_host = ''0.0.0.0'', g_network = avm_testnet demo_avm, g_meshNetwork = Testnet,
     g_facilitatorUrl = ''https://f'', g_payToAddress = replicate 58 CHR ''A'', g_inboundPriceUsdc = ''0.0020'',
     g_modelPricesUsdc = [], g_marginBps = 1500, g_payoutBatchMinUsdc = ''0'', g_payoutBatchMaxDelayMs = 900000,
     g_payoutBatchMaxRequests = 100, g_publicBaseUrl = ''http://localhost:8402'', g_redisUrl = None,
     g_requireUsdcOptIn = True, g_allowPrivateNodeEndpoints = True, g_trustProxyHops = 0,
     g_nodeRequestTimeoutMs = 120000, g_maxConcurrentPerNode = 8, g_logLevel = ''info'', g_otelEnabled = False,
     g_otelExporterUrl = None, g_nodeStaleAfterMs = 90000, g_challengeTag = ''t''\<rparr>"

definition ex_ne :: node_env where
  "ex_ne = \<lparr>ne_avm = demo_avm, ne_parse = any_url, ne_fmt = (\<lambda>_. []), ne_crypto = ex_crypto, ne_config = ex_config\<rparr>"

definition ex_req :: "int \<Rightarrow> req_env" where
  "ex_req now = \<lparr>e_now_fresh = now, e_now_claim = now, e_now_store = now, e_guard_t1 = now, e_guard_t2 = now,
     e_resolve = (\<lambda>_. None), e_optedIn = (\<lambda>_ _. Inr True)\<rparr>"

definition ex_address :: "char \<Rightarrow> string" where "ex_address c = replicate 58 c"

definition ex_key64 :: string where "ex_key64 = b64_encode (replicate 32 0)"
definition ex_sig64 :: string where "ex_sig64 = b64_encode (replicate 64 0)"

definition ex_reg_json :: "char \<Rightarrow> jsval" where
  "ex_reg_json c = JObj
     [(''nodeId'', JStr ''n1''), (''operatorAddress'', JStr (ex_address c)), (''endpoint'', JStr ''https://n1''),
      (''capabilities'', JArr [JObj [(''model'', JStr ''m''), (''contextWindow'', num_of_int 8192),
         (''pricePer1kTokensUsdc'', JStr ''0.01'')]]),
      (''network'', JStr (avm_testnet demo_avm)), (''version'', JStr ''1''), (''timestamp'', num_of_int 1000),
      (''nonce'', JStr (replicate 16 c))]"

definition ex_body :: "char \<Rightarrow> jsval" where
  "ex_body c = JObj [(''registration'', ex_reg_json c), (''signature'', JStr ex_sig64), (''publicKey'', JStr ex_key64)]"

definition ex_reg :: "char \<Rightarrow> node_registration" where
  "ex_reg c = \<lparr>r_nodeId = ''n1'', r_operatorAddress = ex_address c, r_endpoint = ''https://n1'',
     r_capabilities = [\<lparr>c_model = ''m'', c_contextWindow = 8192, c_pricePer1kTokensUsdc = ''0.01'', c_quantization = None\<rparr>],
     r_network = avm_testnet demo_avm, r_version = ''1'', r_timestamp = 1000, r_nonce = replicate 16 c\<rparr>"

definition ex_envelope :: "char \<Rightarrow> signed_registration" where
  "ex_envelope c = \<lparr>sr_registration = ex_reg c, sr_signature = ex_sig64, sr_publicKey = ex_key64\<rparr>"

lemma ex_keys: "isBase64OfLength ex_key64 32" "isBase64OfLength ex_sig64 64" "b64_decode ex_key64 = replicate 32 0"
  using isBase64OfLength_encode [of "replicate 32 0"] isBase64OfLength_encode [of "replicate 64 0"]
    decode_encode [of "replicate 32 0"]
  by (simp_all add: ex_key64_def ex_sig64_def bytes_ok_def list_all_iff)

lemma ex_reg_price: "usdc_amount_ok ''0.01''"
  by (simp add: usdc_amount_ok_def usdcToAtomic_def trim_def is_ws_def code_def
      Let_def starts_with_def decimal_match_def is_digit_def USDC_DECIMALS_def)

lemma ex_reg_parses:
  assumes "c \<in> {CHR ''A'', CHR ''B''}"
  shows "SignedNodeRegistrationSchema demo_avm any_url (ex_body c) = Some (ex_envelope c)"
proof -
  have addr: "algorand_address (ex_address c)" and nonce: "nonce_ok (replicate 16 c)"
    using assms by (auto simp: algorand_address_def ex_address_def is_upper_ascii_def code_def list_all_iff
      nonce_ok_def len_between_def is_hex_def is_digit_def)
  have cap: "NodeCapabilitySchema (JObj [(''model'', JStr ''m''), (''contextWindow'', num_of_int 8192),
         (''pricePer1kTokensUsdc'', JStr ''0.01'')])
      = Some \<lparr>c_model = ''m'', c_contextWindow = 8192, c_pricePer1kTokensUsdc = ''0.01'', c_quantization = None\<rparr>"
    by (simp add: NodeCapabilitySchema_def z_strict_def member_of_def z_string_def z_int_num z_optional_def
      isSafeModelId_def len_between_def model_id_char_def is_upper_ascii_def is_lower_ascii_def is_digit_def code_def ex_reg_price)
  have net: "NetworkSchema demo_avm (JStr (avm_testnet demo_avm)) = Some (avm_testnet demo_avm)"
    using testnet_normal demo_sdk_ok by (simp add: NetworkSchema_def z_string_def sdk_ok_def SUPPORTED_NETWORKS_def)
  have reg: "NodeRegistrationSchema demo_avm any_url (ex_reg_json c) = Some (ex_reg c)"
    using addr nonce
    by (simp add: NodeRegistrationSchema_def ex_reg_json_def ex_reg_def z_strict_def registration_keys_def member_of_def
      z_array_def len_between_def cap net z_int_num MAX_SAFE_INTEGER_def z_string_def node_id_ok_def endpoint_ok_def
      any_url_def starts_with_def registration_version_ok_def is_upper_ascii_def is_lower_ascii_def is_digit_def code_def)
  show ?thesis
    by (simp add: SignedNodeRegistrationSchema_def ex_body_def z_strict_def member_of_def reg z_string_def ex_keys
      ex_envelope_def)
qed

lemma ex_signature_ok:
  assumes "c \<in> {CHR ''A'', CHR ''B''}"
  shows "verifyRegistrationSignature ex_ne (ex_envelope c) = Inr ()"
proof -
  have "signable (ex_reg c)" by (simp add: signable_def ex_reg_def small_int_def)
  from plain_normal [OF plain_registration [OF this]] obtain t
    where t: "normal (registration_projection (ex_reg c) (avm_testnet demo_avm)) = Some t" by blast
  have "r_network (ex_reg c) = avm_testnet demo_avm" by (simp add: ex_reg_def)
  with render_is_canonical [OF t] testnet_normal
  have "isOk (canonicalRegistrationBytes (\<lambda>_. []) demo_avm (ex_reg c))"
    by (simp add: canonicalRegistrationBytes_def)
  then obtain m where "canonicalRegistrationBytes (\<lambda>_. []) demo_avm (ex_reg c) = Inr m" by (auto simp: isOk_iff)
  then show ?thesis
    by (simp add: verifyRegistrationSignature_def ex_ne_def ex_crypto_def ex_envelope_def ex_keys
      ED25519_PUBLIC_KEY_BYTES_def Let_def)
qed

lemma ex_asset: "usdcAssetId demo_avm (avm_testnet demo_avm) = Inr ''10458941''"
  using testnet_normal by (simp add: usdcAssetId_def) (simp add: demo_avm_def USDC_CHAIN_DECIMALS_def)

lemma ex_reg_guard: "assertRoutableEndpoint any_url True rs t1 t2 hosts x = (hosts, the_elem {assertHttpUrlShape any_url x})"
  by (simp add: assertRoutableEndpoint_def assertHttpUrlShape_def any_url_def)

definition ex_registered :: "char \<Rightarrow> mem_store node_state" where
  "ex_registered c = serve ex_ne mem_ops empty_state (Register (ex_req 1000) (ex_body c))"

lemma ex_admit:
  assumes "c \<in> {CHR ''A'', CHR ''B''}"
  shows "register_admit ex_ne (ex_req 1000) (ex_body c) default_nonce_cache
    = (fst (claim default_nonce_cache (replicate 16 c) 1000), Inr (ex_envelope c))"
  using ex_reg_parses [OF assms] ex_signature_ok [OF assms]
  by (simp add: register_admit_def parseOrThrow_def ex_ne_def ex_envelope_def ex_reg_def ex_req_def
    assertFreshTimestamp_def REGISTRATION_MAX_SKEW_MS_def default_nonce_cache_def claim_first ex_config_def)

lemma ex_probe: "register_probe ex_ne (ex_req 1000) (ex_reg c) [] = ([], Inr True)"
  using ex_asset
  by (simp add: register_probe_def ex_ne_def ex_config_def ex_req_def assertRoutableEndpoint_def
    assertHttpUrlShape_def any_url_def)

lemma ex_record_stored:
  assumes "c \<in> {CHR ''A'', CHR ''B''}"
  shows "mem_get (st_store (ex_registered c)) ''n1'' = Some (buildRecord (ex_reg c) None True ex_config 1000)"
proof -
  have e: "mem_get mem_empty ''n1'' = None" by (simp add: mem_get_def mem_empty_def)
  have st: "st_store (ex_registered c) = mem_upsert (buildRecord (ex_reg c) None True ex_config 1000) mem_empty"
    using ex_admit [OF assms] ex_probe [of c] e
    by (simp add: ex_registered_def handleRegister_def empty_state_def ex_envelope_def register_store_def
      mem_ops_def Let_def owner_conflict_def adapter_upsert_def ex_reg_def ex_ne_def ex_req_def)
  have "n_nodeId (buildRecord (ex_reg c) None True ex_config 1000) = ''n1''" by (simp add: ex_reg_def)
  with mem.get_upsert_new [OF mem_inv_empty, of "buildRecord (ex_reg c) None True ex_config 1000"] e st
  show ?thesis by simp
qed

lemma verified_registration:
  assumes "verifyRegistrationSignature ne envelope = Inr ()"
  shows "\<exists>key message. cy_decodeAddress (ne_crypto ne) (r_operatorAddress (sr_registration envelope)) = Some key \<and>
    length key = 32 \<and> canonicalRegistrationBytes (ne_fmt ne) (ne_avm ne) (sr_registration envelope) = Inr message \<and>
    cy_verify (ne_crypto ne) (ED25519_SPKI_PREFIX @ key) message (b64_decode (sr_signature envelope))"
proof (cases "cy_decodeAddress (ne_crypto ne) (r_operatorAddress (sr_registration envelope))")
  case None
  with assms show ?thesis by (simp add: verifyRegistrationSignature_def)
next
  case (Some key)
  let ?b = "canonicalRegistrationBytes (ne_fmt ne) (ne_avm ne) (sr_registration envelope)"
  have len: "length key = 32"
    using assms Some
    by (simp add: verifyRegistrationSignature_def ED25519_PUBLIC_KEY_BYTES_def Let_def split: if_splits)
  from assms Some have "\<exists>message. ?b = Inr message \<and>
      cy_verify (ne_crypto ne) (ED25519_SPKI_PREFIX @ key) message (b64_decode (sr_signature envelope))"
    by (cases ?b) (simp_all add: verifyRegistrationSignature_def Let_def split: if_splits)
  with Some len show ?thesis by blast
qed

subsection \<open>Properties\<close>

text \<open>
  C18: Every node in the table is authentic: whatever table the gateway starts from (an empty one, or
  the persisted table of an earlier process, which may hold nodes of another network), after any
  sequence of registration and heartbeat requests, accepted or not, every stored record sits under its
  own node id, and its registration is either the very one that table held under that id, or one that
  satisfies the schema, settles on the gateway's network, and is covered by a signature that verified
  under the key of the operator address that will be paid. From the empty table it is always the latter.
\<close>

theorem node_table_authentic:
  assumes "mem_inv (st_store st)" and "mem_get (st_store (serve_all ne mem_ops st reqs)) k = Some r"
  shows "n_nodeId r = k \<and>
    ((\<exists>r0. mem_get (st_store st) k = Some r0 \<and> n_registration r0 = n_registration r) \<or>
     (registration_ok (ne_avm ne) (ne_parse ne) (n_registration r) \<and>
      r_network (n_registration r) = g_network (ne_config ne) \<and>
      (\<exists>(envelope :: signed_registration) key message. sr_registration envelope = n_registration r \<and>
         cy_decodeAddress (ne_crypto ne) (owner r) = Some key \<and> length key = 32 \<and>
         canonicalRegistrationBytes (ne_fmt ne) (ne_avm ne) (n_registration r) = Inr message \<and>
         cy_verify (ne_crypto ne) (ED25519_SPKI_PREFIX @ key) message (b64_decode (sr_signature envelope)))))"
proof -
  note inv = mem.serve_all_since [OF assms(1) table_since_refl, folded mem_ops_def, of ne reqs]
  from mem.get_key [OF _ assms(2)] inv have k: "n_nodeId r = k" by blast
  from inv assms(2) have "(\<exists>r0. mem_get (st_store st) k = Some r0 \<and> n_registration r0 = n_registration r)
      \<or> vouched ne (n_registration r)" unfolding table_since_def by blast
  with k verified_registration show ?thesis unfolding vouched_def by metis
qed

lemma serve_all_single: "serve_all ne ops st [q] = serve ne ops st q"
  by (simp add: serve_all_def)

theorem node_table_authentic_witness:
  "\<exists>r. mem_get (st_store (serve_all ex_ne mem_ops empty_state [Register (ex_req 1000) (ex_body CHR ''A'')])) ''n1'' = Some r \<and>
       registration_ok demo_avm any_url (n_registration r)"
proof -
  have g: "mem_get (st_store (serve_all ex_ne mem_ops empty_state [Register (ex_req 1000) (ex_body CHR ''A'')])) ''n1''
      = Some (buildRecord (ex_reg CHR ''A'') None True ex_config 1000)"
    using ex_record_stored [of "CHR ''A''"] by (simp add: serve_all_single ex_registered_def)
  have "ne_avm ex_ne = demo_avm" "ne_parse ex_ne = any_url" by (simp_all add: ex_ne_def)
  with node_table_authentic [OF empty_ok(1) g] g empty_get show ?thesis by (metis option.distinct(1))
qed

text \<open>
  C19: A node id belongs to the operator that registered it first: however the table was reached,
  no later sequence of requests served one after the other removes a node or changes the operator
  address its payouts go to.
\<close>

theorem owner_is_permanent:
  assumes "mem_get (st_store (serve_all ne mem_ops empty_state reqs)) k = Some r"
  shows "\<exists>r'. mem_get (st_store (serve_all ne mem_ops empty_state (reqs @ later))) k = Some r' \<and> owner r' = owner r"
proof -
  let ?st = "serve_all ne mem_ops empty_state reqs"
  have "owners_kept mem_get (st_store ?st) (st_store (serve_all ne mem_ops ?st later))"
    using mem.serve_all_table [of ?st ne later] served_from_empty [of ne reqs] by (simp add: mem_ops_def)
  with assms show ?thesis by (simp add: owners_kept_def serve_all_append)
qed

theorem owner_is_permanent_witness:
  "\<exists>r'. mem_get (st_store (serve_all ex_ne mem_ops empty_state
          ([Register (ex_req 1000) (ex_body CHR ''A'')] @ [Register (ex_req 1000) (ex_body CHR ''B'')]))) ''n1'' = Some r' \<and>
        owner r' = ex_address CHR ''A''"
  using owner_is_permanent [of ex_ne "[Register (ex_req 1000) (ex_body CHR ''A'')]" "''n1''"
      "buildRecord (ex_reg CHR ''A'') None True ex_config 1000" "[Register (ex_req 1000) (ex_body CHR ''B'')]"]
    ex_record_stored [of "CHR ''A''"]
  by (simp add: serve_all_single ex_registered_def ex_reg_def)

lemma refused_register:
  assumes "snd (handleRegister ne ops e body st) = Inl x"
  shows "st_store (fst (handleRegister ne ops e body st)) = st_store st"
proof (cases rule: handleRegister_store [of ne ops e body st])
  case refused
  then show ?thesis by simp
next
  case (stored r optedIn)
  with assms show ?thesis by (auto simp: register_store_def Let_def split: if_splits prod.splits)
qed

lemma beat_upsert:
  fixes now :: int
  assumes "mem_inv s" "mem_get s nodeId = Some existing"
  defines "s' \<equiv> mem_upsert (alive_at now existing) s"
  shows "mem_get s' nodeId \<noteq> None" "k \<noteq> nodeId \<Longrightarrow> mem_get s' k = mem_get s k"
    "map_option n_registration (mem_get s' k) = map_option n_registration (mem_get s k)"
proof -
  let ?r = "alive_at now existing"
  have n: "n_nodeId ?r = nodeId" using mem.get_key [OF assms(1,2)] by simp
  have g: "mem_get s (n_nodeId ?r) = Some existing" using n assms(2) by simp
  note old = mem.get_upsert_old [OF assms(1) g]
  show "mem_get s' nodeId \<noteq> None" using old n by (auto simp: s'_def)
  show o: "k \<noteq> nodeId \<Longrightarrow> mem_get s' k = mem_get s k"
    using mem.get_upsert_other [OF assms(1), of k ?r] n by (simp add: s'_def)
  show "map_option n_registration (mem_get s' k) = map_option n_registration (mem_get s k)"
    using old n assms(2) o by (cases "k = nodeId") (auto simp: s'_def)
qed

text \<open>
  C20: Only the owner keeps a node alive: a heartbeat is accepted only for a registered node, with a
  fresh timestamp and a single-use nonce, and with a signature over its seven fields that verifies
  under the operator address stored at registration. The accepted heartbeat changes no registration
  and no other node's record, and a refused heartbeat or registration, whichever check it fails,
  leaves the whole table as it was.
\<close>

theorem heartbeat_needs_owner_key:
  assumes "mem_inv (st_store st)"
  shows "(case handleHeartbeat ne mem_ops e nodeId body st of
      (st', Inl x) \<Rightarrow> st_store st' = st_store st
    | (st', Inr resp) \<Rightarrow>
        (\<exists>envelope existing. mem_get (st_store st) nodeId = Some existing \<and>
          SignedNodeHeartbeatSchema body = Some envelope \<and> hb_nodeId (sh_heartbeat envelope) = nodeId \<and>
          isOk (assertFreshTimestamp (hb_timestamp (sh_heartbeat envelope)) (e_now_fresh e)) \<and>
          snd (claim (st_nonces st) (hb_nonce (sh_heartbeat envelope)) (e_now_claim e)) \<and>
          verifyHeartbeatSignature ne envelope (owner existing) = Inr ()) \<and>
        (\<forall>k. map_option n_registration (mem_get (st_store st') k)
           = map_option n_registration (mem_get (st_store st) k) \<and>
           (k \<noteq> nodeId \<longrightarrow> mem_get (st_store st') k = mem_get (st_store st) k)))
    \<and> (case handleRegister ne mem_ops e body st of
        (st', Inl x) \<Rightarrow> st_store st' = st_store st
      | (st', Inr _) \<Rightarrow> True)"
proof
  show "case handleRegister ne mem_ops e body st of (st', Inl x) \<Rightarrow> st_store st' = st_store st | (st', Inr _) \<Rightarrow> True"
    using refused_register [of ne mem_ops e body st] by (auto split: prod.splits sum.splits)
next
  obtain st' out where h: "handleHeartbeat ne mem_ops e nodeId body st = (st', out)"
    by (cases "handleHeartbeat ne mem_ops e nodeId body st")
  show "case handleHeartbeat ne mem_ops e nodeId body st of
      (st', Inl x) \<Rightarrow> st_store st' = st_store st
    | (st', Inr resp) \<Rightarrow>
        (\<exists>envelope existing. mem_get (st_store st) nodeId = Some existing \<and>
          SignedNodeHeartbeatSchema body = Some envelope \<and> hb_nodeId (sh_heartbeat envelope) = nodeId \<and>
          isOk (assertFreshTimestamp (hb_timestamp (sh_heartbeat envelope)) (e_now_fresh e)) \<and>
          snd (claim (st_nonces st) (hb_nonce (sh_heartbeat envelope)) (e_now_claim e)) \<and>
          verifyHeartbeatSignature ne envelope (owner existing) = Inr ()) \<and>
        (\<forall>k. map_option n_registration (mem_get (st_store st') k)
           = map_option n_registration (mem_get (st_store st) k) \<and>
           (k \<noteq> nodeId \<longrightarrow> mem_get (st_store st') k = mem_get (st_store st) k))"
  proof (cases rule: handleHeartbeat_store [of ne mem_ops e nodeId body st])
    case refused
    with h show ?thesis by auto
  next
    case (beat envelope existing)
    have g: "mem_get (st_store st) nodeId = Some existing" using beat(1) by (simp add: mem_ops_def)
    note up = beat_upsert [OF assms g, where now = "e_now_store e"]
    obtain resp where "out = Inr resp" using beat(8) up(1) h by (auto simp: mem_ops_def isOk_iff)
    moreover have "st_store st' = mem_upsert (alive_at (e_now_store e) existing) (st_store st)"
      using beat(6) h by (simp add: mem_ops_def)
    moreover have "snd (claim (st_nonces st) (hb_nonce (sh_heartbeat envelope)) (e_now_claim e))"
      using beat(5) by simp
    ultimately show ?thesis using h g beat(2,3,4,7) up(2,3) by auto
  qed
qed

definition ex_beat_json :: jsval where
  "ex_beat_json = JObj [(''heartbeat'', JObj
     [(''nodeId'', JStr ''n1''), (''healthy'', JBool True), (''inFlight'', num_of_int 0),
      (''maxConcurrency'', num_of_int 8), (''version'', JStr ''1''), (''timestamp'', num_of_int 1000),
      (''nonce'', JStr (replicate 16 CHR ''C''))]),
     (''signature'', JStr ex_sig64), (''publicKey'', JStr ex_key64)]"

definition ex_signed_beat :: signed_heartbeat where
  "ex_signed_beat = \<lparr>sh_heartbeat = \<lparr>hb_nodeId = ''n1'', hb_healthy = True, hb_inFlight = 0, hb_maxConcurrency = 8,
     hb_version = ''1'', hb_timestamp = 1000, hb_nonce = replicate 16 CHR ''C''\<rparr>,
     sh_signature = ex_sig64, sh_publicKey = ex_key64\<rparr>"

lemma ex_beat_parses: "SignedNodeHeartbeatSchema ex_beat_json = Some ex_signed_beat"
  by (simp add: SignedNodeHeartbeatSchema_def NodeHeartbeatSchema_def ex_beat_json_def ex_signed_beat_def z_strict_def
    member_of_def z_string_def ex_keys heartbeat_keys_def z_bool_def z_int_num node_id_ok_def nonce_ok_def len_between_def
    is_upper_ascii_def is_lower_ascii_def is_hex_def is_digit_def code_def list_all_iff)

lemma ex_beat_verifies: "verifyHeartbeatSignature ex_ne ex_signed_beat a = Inr ()"
proof -
  have "signable_beat (sh_heartbeat ex_signed_beat)"
    by (simp add: signable_beat_def ex_signed_beat_def small_int_def)
  from plain_normal [OF plain_heartbeat [OF this]] obtain t
    where "normal (heartbeat_projection (sh_heartbeat ex_signed_beat)) = Some t" by blast
  from render_is_canonical [OF this] obtain m
    where "canonicalHeartbeatBytes (\<lambda>_. []) (sh_heartbeat ex_signed_beat) = Inr m"
    by (simp add: canonicalHeartbeatBytes_def domainSeparatedBytes_def)
  then show ?thesis
    by (simp add: verifyHeartbeatSignature_def ex_ne_def ex_crypto_def ex_keys ED25519_PUBLIC_KEY_BYTES_def Let_def
      ex_signed_beat_def)
qed

lemma ex_beat_accepted:
  "\<exists>resp. snd (handleHeartbeat ex_ne mem_ops (ex_req 1000) ''n1'' ex_beat_json
      ((ex_registered CHR ''A'')\<lparr>st_nonces := default_nonce_cache\<rparr>)) = Inr resp"
proof -
  let ?rec = "buildRecord (ex_reg CHR ''A'') None True ex_config 1000"
  let ?st = "(ex_registered CHR ''A'')\<lparr>st_nonces := default_nonce_cache\<rparr>"
  have g: "mem_get (st_store ?st) ''n1'' = Some ?rec" using ex_record_stored [of "CHR ''A''"] by simp
  have inv: "mem_inv (st_store ?st)"
    using served_from_empty [of ex_ne "[Register (ex_req 1000) (ex_body CHR ''A'')]"]
    by (simp add: serve_all_single ex_registered_def)
  have "n_nodeId (alive_at 1000 ?rec) = ''n1''" by (simp add: ex_reg_def)
  with mem.get_upsert_old [OF inv, of "alive_at 1000 ?rec" ?rec] g obtain r' where
    u: "mem_get (mem_upsert (alive_at 1000 ?rec) (st_store ?st)) ''n1'' = Some r'" by auto
  have "heartbeat_admit ex_ne (ex_req 1000) ''n1'' ex_signed_beat ?rec default_nonce_cache
      = (fst (claim default_nonce_cache (replicate 16 CHR ''C'') 1000), Inr ())"
  proof -
    have f: "hb_nodeId (sh_heartbeat ex_signed_beat) = ''n1''" "hb_timestamp (sh_heartbeat ex_signed_beat) = 1000"
      "hb_nonce (sh_heartbeat ex_signed_beat) = replicate 16 CHR ''C''" by (simp_all add: ex_signed_beat_def)
    show ?thesis
      by (simp add: heartbeat_admit_def ex_beat_verifies f ex_req_def assertFreshTimestamp_def
        REGISTRATION_MAX_SKEW_MS_def default_nonce_cache_def claim_first)
  qed
  with g u show ?thesis
    by (simp add: handleHeartbeat_def parseOrThrow_def ex_beat_parses mem_ops_def adapter_heartbeat_def ex_req_def)
qed

theorem heartbeat_needs_owner_key_witness:
  "\<exists>st existing. mem_get (st_store st) ''n1'' = Some existing \<and>
     isOk (snd (handleHeartbeat ex_ne mem_ops (ex_req 1000) ''n1'' ex_beat_json st)) \<and>
     verifyHeartbeatSignature ex_ne ex_signed_beat (owner existing) = Inr ()"
proof -
  let ?st = "(ex_registered CHR ''A'')\<lparr>st_nonces := default_nonce_cache\<rparr>"
  have inv: "mem_inv (st_store ?st)"
    using served_from_empty [of ex_ne "[Register (ex_req 1000) (ex_body CHR ''A'')]"]
    by (simp add: serve_all_single ex_registered_def)
  obtain resp where r: "snd (handleHeartbeat ex_ne mem_ops (ex_req 1000) ''n1'' ex_beat_json ?st) = Inr resp"
    using ex_beat_accepted by blast
  obtain st' where "handleHeartbeat ex_ne mem_ops (ex_req 1000) ''n1'' ex_beat_json ?st = (st', Inr resp)"
    using r by (metis prod.collapse)
  with heartbeat_needs_owner_key [OF inv, where ne = ex_ne and e = "ex_req 1000" and nodeId = "''n1''" and body = ex_beat_json] obtain existing where
    "mem_get (st_store ?st) ''n1'' = Some existing"
    "verifyHeartbeatSignature ex_ne ex_signed_beat (owner existing) = Inr ()"
    by (auto simp: ex_beat_parses)
  with r show ?thesis unfolding isOk_iff by blast
qed

subsection \<open>Two registrations at once\<close>

text \<open>
  The second half of the handler is two steps: \<open>await store.get\<close>, then the ownership check and
  \<open>await store.upsert\<close>. Several handlers past their probes interleave at that \<open>await\<close>; \<open>reg_step\<close>
  lets any of them take its next step. The store is the asynchronous contract the registry states,
  which makes no promise of atomicity across calls.
\<close>

record reg_task =
  rt_registration :: node_registration
  rt_optedIn :: bool
  rt_now :: int

datatype reg_phase = AwaitGet | AwaitUpsert "node_record option" | Accepted | Refused

type_synonym reg_world = "mem_store \<times> (reg_task \<times> reg_phase) list"

definition task_get :: "mem_store \<Rightarrow> reg_task \<Rightarrow> reg_phase" where
  "task_get s t =
     (let existing = mem_get s (r_nodeId (rt_registration t))
      in if owner_conflict (rt_registration t) existing then Refused else AwaitUpsert existing)"

definition task_upsert :: "gateway_config \<Rightarrow> mem_store \<Rightarrow> reg_task \<Rightarrow> node_record option \<Rightarrow> mem_store" where
  "task_upsert cfg s t existing =
     fst (adapter_upsert mem_ops (buildRecord (rt_registration t) existing (rt_optedIn t) cfg (rt_now t)) s)"

inductive reg_step :: "gateway_config \<Rightarrow> reg_world \<Rightarrow> reg_world \<Rightarrow> bool" for cfg where
  Get: "i < length ts \<Longrightarrow> ts ! i = (t, AwaitGet) \<Longrightarrow> reg_step cfg (s, ts) (s, ts[i := (t, task_get s t)])"
| Upsert: "i < length ts \<Longrightarrow> ts ! i = (t, AwaitUpsert existing) \<Longrightarrow>
    reg_step cfg (s, ts) (task_upsert cfg s t existing, ts[i := (t, Accepted)])"

inductive reg_steps :: "gateway_config \<Rightarrow> reg_world \<Rightarrow> reg_world \<Rightarrow> bool" for cfg where
  Done: "reg_steps cfg w w"
| More: "reg_step cfg w w' \<Longrightarrow> reg_steps cfg w' w'' \<Longrightarrow> reg_steps cfg w w''"


text \<open>Run one after the other, the two steps are the handler's \<open>register_store\<close>.\<close>

lemma steps_are_register_store:
  assumes "rt_now t = e_now_store e"
  shows "fst (register_store ne mem_ops e (rt_registration t) (rt_optedIn t) s)
    = (case task_get s t of AwaitUpsert ex \<Rightarrow> task_upsert (ne_config ne) s t ex | _ \<Rightarrow> s)"
  using assms by (simp add: register_store_def task_get_def task_upsert_def mem_ops_def Let_def split: prod.splits)

text \<open>
  The ownership check is not atomic: two operators who register the same new node id at the
  same time can both be told they succeeded; after the first one's record is stored, the second
  one's write replaces it, and with it the address the node's payouts go to.
\<close>

theorem ownership_race:
  assumes "r_nodeId a = r_nodeId b" and "r_operatorAddress a \<noteq> r_operatorAddress b"
  shows "\<exists>s1 s2 ts1 ts2 ra rb.
     reg_steps cfg (mem_empty, [(\<lparr>rt_registration = a, rt_optedIn = True, rt_now = t\<rparr>, AwaitGet),
                                (\<lparr>rt_registration = b, rt_optedIn = True, rt_now = t\<rparr>, AwaitGet)]) (s1, ts1) \<and>
     snd (ts1 ! 0) = Accepted \<and> mem_get s1 (r_nodeId a) = Some ra \<and> owner ra = r_operatorAddress a \<and>
     reg_steps cfg (s1, ts1) (s2, ts2) \<and>
     snd (ts2 ! 1) = Accepted \<and> mem_get s2 (r_nodeId a) = Some rb \<and> owner rb = r_operatorAddress b"
proof -
  let ?A = "\<lparr>rt_registration = a, rt_optedIn = True, rt_now = t\<rparr>"
  let ?B = "\<lparr>rt_registration = b, rt_optedIn = True, rt_now = t\<rparr>"
  let ?ra = "buildRecord a None True cfg t" and ?rb = "buildRecord b None True cfg t"
  define s1 s2 where "s1 = mem_upsert ?ra mem_empty" and "s2 = mem_upsert ?rb s1"
  have e: "mem_get mem_empty k = None" for k by (simp add: mem_get_def mem_empty_def)
  have g1: "mem_get s1 (r_nodeId a) = Some ?ra"
    using mem.get_upsert_new [OF mem_inv_empty, of ?ra] e by (simp add: s1_def)
  have inv1: "mem_inv s1"
    unfolding s1_def by (rule mem.invar_upsert [OF mem_inv_empty]) (simp add: or_else_def)
  obtain rb where g2: "mem_get s2 (r_nodeId a) = Some rb" "n_registration rb = b"
    using mem.get_upsert_old [OF inv1, of ?rb ?ra] g1 assms(1) by (auto simp: s2_def)
  have up: "task_upsert cfg mem_empty ?A None = s1" "task_upsert cfg s1 ?B None = s2"
    by (simp_all add: task_upsert_def adapter_upsert_def mem_ops_def Let_def s1_def s2_def)
  have tg: "task_get mem_empty ?A = AwaitUpsert None" "task_get mem_empty ?B = AwaitUpsert None"
    by (simp_all add: task_get_def Let_def e owner_conflict_def)
  have st1: "reg_step cfg (mem_empty, [(?A, AwaitGet), (?B, AwaitGet)])
      (mem_empty, [(?A, AwaitUpsert None), (?B, AwaitGet)])"
    using Get [of 0 "[(?A, AwaitGet), (?B, AwaitGet)]" ?A cfg mem_empty] tg by simp
  have st2: "reg_step cfg (mem_empty, [(?A, AwaitUpsert None), (?B, AwaitGet)])
      (mem_empty, [(?A, AwaitUpsert None), (?B, AwaitUpsert None)])"
    using Get [of 1 "[(?A, AwaitUpsert None), (?B, AwaitGet)]" ?B cfg mem_empty] tg by simp
  have st3: "reg_step cfg (mem_empty, [(?A, AwaitUpsert None), (?B, AwaitUpsert None)])
      (s1, [(?A, Accepted), (?B, AwaitUpsert None)])"
    using Upsert [of 0 "[(?A, AwaitUpsert None), (?B, AwaitUpsert None)]" ?A None cfg mem_empty] up by simp
  have st4: "reg_step cfg (s1, [(?A, Accepted), (?B, AwaitUpsert None)]) (s2, [(?A, Accepted), (?B, Accepted)])"
    using Upsert [of 1 "[(?A, Accepted), (?B, AwaitUpsert None)]" ?B None cfg s1] up by simp
  have "reg_steps cfg (mem_empty, [(?A, AwaitGet), (?B, AwaitGet)]) (s1, [(?A, Accepted), (?B, AwaitUpsert None)])"
    by (rule More [OF st1], rule More [OF st2], rule More [OF st3], rule Done)
  moreover have "reg_steps cfg (s1, [(?A, Accepted), (?B, AwaitUpsert None)]) (s2, [(?A, Accepted), (?B, Accepted)])"
    by (rule More [OF st4], rule Done)
  moreover have "n_registration ?ra = a" by simp
  ultimately show ?thesis using g1 g2
    by (intro exI [of _ s1] exI [of _ s2] exI [of _ "[(?A, Accepted), (?B, AwaitUpsert None)]"]
      exI [of _ "[(?A, Accepted), (?B, Accepted)]"] exI [of _ ?ra] exI [of _ rb]) simp
qed

theorem ownership_race_witness:
  "\<exists>s1 ts1 ra. reg_steps ex_config (mem_empty,
      [(\<lparr>rt_registration = ex_reg CHR ''A'', rt_optedIn = True, rt_now = 0\<rparr>, AwaitGet),
       (\<lparr>rt_registration = ex_reg CHR ''B'', rt_optedIn = True, rt_now = 0\<rparr>, AwaitGet)]) (s1, ts1) \<and>
     mem_get s1 (r_nodeId (ex_reg CHR ''A'')) = Some ra"
proof -
  have "r_nodeId (ex_reg CHR ''A'') = r_nodeId (ex_reg CHR ''B'')"
    "r_operatorAddress (ex_reg CHR ''A'') \<noteq> r_operatorAddress (ex_reg CHR ''B'')"
    by (simp_all add: ex_reg_def ex_address_def numeral_eq_Suc)
  from ownership_race [OF this, of ex_config 0] show ?thesis by blast
qed

end
