(* ===== verification/Semaphore.thy ===== *)
theory Semaphore
  imports Pricing
begin

section \<open>The daemon's semaphore (packages/node-daemon/src/semaphore.ts)\<close>

text \<open>
  A release closure is an index into the list of \<open>released\<close> flags, which is what \<open>makeRelease\<close>
  allocates; a waiter is the number of its \<open>acquire\<close> call. Resolving a waiter records the closure
  it received in \<open>sm_granted\<close>, in the order of the grants. A waiter's abort listener is live exactly
  while the waiter is queued: \<open>detach\<close> runs when it is shifted.
\<close>

record semaphore =
  sm_permits :: int
  sm_active :: int
  sm_waiters :: "nat list"
  sm_released :: "bool list"
  sm_granted :: "(nat \<times> nat) list"

definition new_semaphore :: "jsnum \<Rightarrow> semaphore res" where
  "new_semaphore permits =
     (if \<not> is_integer permits \<or> js_le permits (Fin 0)
      then throw ValidationErr ''semaphore permits must be a positive integer''
      else Inr \<lparr>sm_permits = big_of_num permits, sm_active = 0, sm_waiters = [], sm_released = [],
                sm_granted = []\<rparr>)"

definition available :: "semaphore \<Rightarrow> int" where
  "available s = sm_permits s - sm_active s"

definition makeRelease :: "semaphore \<Rightarrow> semaphore \<times> nat" where
  "makeRelease s = (s\<lparr>sm_released := sm_released s @ [False]\<rparr>, length (sm_released s))"

definition tryAcquire :: "semaphore \<Rightarrow> semaphore \<times> nat option" where
  "tryAcquire s =
     (if sm_permits s \<le> sm_active s then (s, None)
      else (case makeRelease (s\<lparr>sm_active := sm_active s + 1\<rparr>) of (s', c) \<Rightarrow> (s', Some c)))"

datatype acquired = Immediate nat | RejectedNow | Queued

definition acquire :: "semaphore \<Rightarrow> nat \<Rightarrow> bool \<Rightarrow> semaphore \<times> acquired" where
  "acquire s w aborted = (case tryAcquire s of
      (s', Some c) \<Rightarrow> (s', Immediate c)
    | (s', None) \<Rightarrow> if aborted then (s', RejectedNow)
                     else (s'\<lparr>sm_waiters := sm_waiters s' @ [w]\<rparr>, Queued))"

text \<open>The abort handler: \<open>indexOf\<close> and \<open>splice\<close> remove the first occurrence.\<close>

definition on_abort :: "nat \<Rightarrow> semaphore \<Rightarrow> semaphore" where
  "on_abort w s = s\<lparr>sm_waiters := remove1 w (sm_waiters s)\<rparr>"

definition release :: "nat \<Rightarrow> semaphore \<Rightarrow> semaphore" where
  "release c s =
     (if length (sm_released s) \<le> c \<or> sm_released s ! c then s
      else let s1 = s\<lparr>sm_released := (sm_released s)[c := True]\<rparr>
           in case sm_waiters s1 of
                w # ws \<Rightarrow> (case makeRelease (s1\<lparr>sm_waiters := ws\<rparr>) of
                             (s2, c') \<Rightarrow> s2\<lparr>sm_granted := sm_granted s2 @ [(w, c')]\<rparr>)
              | [] \<Rightarrow> s1\<lparr>sm_active := sm_active s1 - 1\<rparr>)"

datatype sem_op = TryAcquire | Acquire nat bool | Abort nat | Release nat

fun sem_do :: "sem_op \<Rightarrow> semaphore \<Rightarrow> semaphore" where
  "sem_do TryAcquire s = fst (tryAcquire s)"
| "sem_do (Acquire w aborted) s = fst (acquire s w aborted)"
| "sem_do (Abort w) s = on_abort w s"
| "sem_do (Release c) s = release c s"

subsection \<open>The invariant\<close>

definition holders :: "semaphore \<Rightarrow> nat" where
  "holders s = length (filter Not (sm_released s))"

definition sem_inv :: "semaphore \<Rightarrow> bool" where
  "sem_inv s \<longleftrightarrow> sm_active s = int (holders s) \<and> sm_active s \<le> sm_permits s \<and>
     (sm_waiters s \<noteq> [] \<longrightarrow> sm_active s = sm_permits s)"

lemma new_sem_inv:
  assumes "new_semaphore p = Inr s"
  shows "sem_inv s \<and> 0 < sm_permits s"
proof -
  have "is_integer p" "\<not> js_le p (Fin 0)" using assms by (auto simp: new_semaphore_def split: if_splits)
  then obtain q where q: "p = Fin q" "0 < q" by (cases p) (auto simp: is_integer_def js_le_def)
  have "q = of_int \<lfloor>q\<rfloor>" using \<open>is_integer p\<close> q(1) by (simp only: is_integer_def jsnum.case)
  then have "(0::rat) < of_int \<lfloor>q\<rfloor>" using q(2) by (simp only:)
  then have "0 < \<lfloor>q\<rfloor>" by (simp only: of_int_0_less_iff)
  with q assms show ?thesis
    by (auto simp: new_semaphore_def sem_inv_def holders_def big_of_num_def split: if_splits)
qed

lemma holders_mark:
  "c < length bs \<Longrightarrow> \<not> bs ! c \<Longrightarrow> Suc (length (filter Not (bs[c := True]))) = length (filter Not bs)"
proof (induction bs arbitrary: c)
  case (Cons b bs)
  then show ?case by (cases c) auto
qed simp

lemma tryAcquire_inv [inv_intros]: "sem_inv s \<Longrightarrow> sem_inv (fst (tryAcquire s))"
  by (auto simp: tryAcquire_def makeRelease_def sem_inv_def holders_def)

lemma acquire_inv [inv_intros]: "sem_inv s \<Longrightarrow> sem_inv (fst (acquire s w a))"
  by (auto simp: acquire_def tryAcquire_def makeRelease_def sem_inv_def holders_def)

lemma abort_inv [inv_intros]: "sem_inv s \<Longrightarrow> sem_inv (on_abort w s)"
  by (auto simp: on_abort_def sem_inv_def holders_def)

lemma release_inv [inv_intros]: "sem_inv s \<Longrightarrow> sem_inv (release c s)"
  using holders_mark [of c "sm_released s"]
  by (auto simp: release_def makeRelease_def sem_inv_def holders_def Let_def split: list.splits)

lemma permits_kept [simp]: "sm_permits (sem_do p s) = sm_permits s"
  by (cases p)
    (auto simp: tryAcquire_def acquire_def makeRelease_def on_abort_def release_def Let_def split: list.splits)

lemma sem_do_inv: "sem_inv s \<Longrightarrow> sem_inv (sem_do p s)"
  by (cases p) (auto intro: inv_intros)

lemma sem_run_inv: "sem_inv s \<Longrightarrow> sem_inv (fold sem_do ps s) \<and> sm_permits (fold sem_do ps s) = sm_permits s"
  by (induction ps arbitrary: s) (auto simp: sem_do_inv)

subsection \<open>Properties\<close>

text \<open>
  The concurrency ceiling holds and no wake-up is lost: after any sequence of acquisitions,
  aborts and (possibly repeated) releases, the count of active permits is exactly the number of
  release closures not yet called, it never exceeds the permits, and a caller waits only while
  every permit is held.
\<close>

theorem semaphore_ceiling:
  assumes "new_semaphore p = Inr s0"
  shows "sm_active (fold sem_do ps s0) = int (holders (fold sem_do ps s0)) \<and>
         int (holders (fold sem_do ps s0)) \<le> sm_permits s0 \<and>
         (sm_waiters (fold sem_do ps s0) \<noteq> [] \<longrightarrow> available (fold sem_do ps s0) = 0)"
  using sem_run_inv [of s0 ps] new_sem_inv [OF assms] by (auto simp: sem_inv_def available_def)

theorem semaphore_ceiling_witness:
  "\<exists>s0. new_semaphore (Fin 1) = Inr s0 \<and>
     int (holders (fold sem_do [TryAcquire, Acquire 0 False, Release 0, Release 0] s0)) \<le> 1"
proof -
  obtain s0 where s0: "new_semaphore (Fin 1) = Inr s0" "sm_permits s0 = 1"
    by (simp add: new_semaphore_def is_integer_def js_le_def big_of_num_def)
  from semaphore_ceiling [OF s0(1), of "[TryAcquire, Acquire 0 False, Release 0, Release 0]"] s0
  show ?thesis by metis
qed

text \<open>
  Releasing is idempotent and first come, first served: calling a release closure a second
  time changes nothing, and releasing a held permit hands it to the longest waiting caller, if
  any, without a moment at which the count drops.
\<close>

theorem release_once_fifo:
  "release c (release c s) = release c s \<and>
   (c < length (sm_released s) \<longrightarrow> \<not> sm_released s ! c \<longrightarrow> sm_waiters s = w # ws \<longrightarrow>
      sm_granted (release c s) = sm_granted s @ [(w, length (sm_released s))] \<and>
      sm_waiters (release c s) = ws \<and> sm_active (release c s) = sm_active s)"
proof
  show "release c (release c s) = release c s"
  proof (cases "length (sm_released s) \<le> c \<or> sm_released s ! c")
    case True
    then show ?thesis by (simp add: release_def)
  next
    case False
    then have "c < length (sm_released (release c s)) \<and> sm_released (release c s) ! c"
      by (auto simp: release_def makeRelease_def Let_def nth_append split: list.splits)
    then show ?thesis by (subst release_def) simp
  qed
qed (auto simp: release_def makeRelease_def Let_def)

theorem release_once_fifo_witness:
  "sm_granted (release 0 \<lparr>sm_permits = 1, sm_active = 1, sm_waiters = [7, 8], sm_released = [False], sm_granted = []\<rparr>)
     = [(7, 1)]"
  using release_once_fifo [of 0 "\<lparr>sm_permits = 1, sm_active = 1, sm_waiters = [7, 8], sm_released = [False],
    sm_granted = []\<rparr>" 7 "[8]"] by simp

end
