(* ===== verification/RateLimit.thy ===== *)
theory RateLimit
  imports Pricing
begin

section \<open>The token bucket limiter (packages/gateway/src/middleware/rateLimit.ts)\<close>

text \<open>
  Tokens are doubles; the clock is integer milliseconds. The map of buckets is insertion-ordered,
  so deleting and setting a key moves it to the recently used end, and the first key is the least
  recently used one. The construction errors are plain \<open>Error\<close>s (\<open>None\<close>). \<open>payerFromRequest\<close> only calls
  SDK decoders and no longer keys anything; it is not modelled.
\<close>

definition DEFAULT_MAX_KEYS :: nat where "DEFAULT_MAX_KEYS = 10000"

record bucket =
  b_tokens :: jsnum
  b_updatedAt :: int

record limiter =
  l_capacity :: jsnum
  l_refillPerSecond :: jsnum
  l_maxKeys :: nat
  l_buckets :: "(string, bucket) jsmap"

definition rateLimit :: "jsnum \<Rightarrow> jsnum \<Rightarrow> nat option \<Rightarrow> limiter option" where
  "rateLimit capacity refill maxKeys =
     (if \<not> isFinite capacity \<or> js_le capacity (Fin 0) then None
      else if \<not> isFinite refill \<or> js_le refill (Fin 0) then None
      else Some \<lparr>l_capacity = capacity, l_refillPerSecond = refill,
             l_maxKeys = (case maxKeys of None \<Rightarrow> DEFAULT_MAX_KEYS | Some k \<Rightarrow> k), l_buckets = []\<rparr>)"

datatype decision = Admitted jsnum | Limited jsnum jsnum

definition refill_tokens :: "limiter \<Rightarrow> bucket \<Rightarrow> int \<Rightarrow> jsnum" where
  "refill_tokens l b now =
     (let elapsedSeconds = js_div (js_max (Fin 0) (js_int (now - b_updatedAt b))) (Fin 1000)
      in js_min (l_capacity l) (js_add (b_tokens b) (js_mul elapsedSeconds (l_refillPerSecond l))))"

text \<open>The first half of the middleware: the bucket of the key, and the map without it.\<close>

definition touch :: "limiter \<Rightarrow> string \<Rightarrow> int \<Rightarrow> bucket \<times> (string, bucket) jsmap" where
  "touch l key now = (case jget (l_buckets l) key of
      None \<Rightarrow> (\<lparr>b_tokens = l_capacity l, b_updatedAt = now\<rparr>, l_buckets l)
    | Some b \<Rightarrow> (\<lparr>b_tokens = refill_tokens l b now, b_updatedAt = now\<rparr>, jdel key (l_buckets l)))"

definition drop_oldest :: "nat \<Rightarrow> (string, bucket) jsmap \<Rightarrow> (string, bucket) jsmap" where
  "drop_oldest mx m = (if mx < length m then (case m of [] \<Rightarrow> [] | (k, _) # _ \<Rightarrow> jdel k m) else m)"

definition limit_request :: "limiter \<Rightarrow> string \<Rightarrow> int \<Rightarrow> limiter \<times> decision" where
  "limit_request l key now =
     (case touch l key now of (b, rest) \<Rightarrow>
        if js_less (b_tokens b) (Fin 1)
        then let waitSeconds = js_max (Fin 1) (js_ceil (js_div (js_sub (Fin 1) (b_tokens b)) (l_refillPerSecond l)))
             in (l\<lparr>l_buckets := jset key b rest\<rparr>,
                 Limited waitSeconds (js_round (js_div (l_capacity l) (l_refillPerSecond l))))
        else let b' = b\<lparr>b_tokens := js_sub (b_tokens b) (Fin 1)\<rparr>
             in (l\<lparr>l_buckets := drop_oldest (l_maxKeys l) (jset key b' rest)\<rparr>, Admitted (js_floor (b_tokens b'))))"

definition rateLimitKey :: "string option \<Rightarrow> string option \<Rightarrow> string" where
  "rateLimitKey ip remoteAddress =
     ''ip:'' @ (case ip of Some a \<Rightarrow> a | None \<Rightarrow> (case remoteAddress of Some a \<Rightarrow> a | None \<Rightarrow> ''unknown''))"

subsection \<open>Tokens stay between zero and the capacity\<close>

definition tokens_ok :: "rat \<Rightarrow> jsnum \<Rightarrow> bool" where
  "tokens_ok c v \<longleftrightarrow> (\<exists>t. v = Fin t \<and> 0 \<le> t \<and> t \<le> c)"

definition double :: "rat \<Rightarrow> bool" where
  "double c \<longleftrightarrow> js_of_rat c = Fin c"

definition limiter_inv :: "limiter \<Rightarrow> bool" where
  "limiter_inv l \<longleftrightarrow> jwf (l_buckets l) \<and>
     (\<exists>c r. l_capacity l = Fin c \<and> 0 < c \<and> double c \<and> l_refillPerSecond l = Fin r \<and> 0 < r \<and>
        (\<forall>k b. jget (l_buckets l) k = Some b \<longrightarrow> tokens_ok c (b_tokens b)))"

definition nonneg_num :: "jsnum \<Rightarrow> bool" where
  "nonneg_num v \<longleftrightarrow> v = PosInf \<or> (\<exists>t. v = Fin t \<and> 0 \<le> t)"

lemma nonneg_of_rat: "0 \<le> q \<Longrightarrow> nonneg_num (js_of_rat q)"
  using fl64_nonneg [of q] by (auto simp: nonneg_num_def js_of_rat_def js_clip_def)

lemma refill_ok:
  assumes "l_capacity l = Fin c" "0 < c" "l_refillPerSecond l = Fin r" "0 < r" "tokens_ok c (b_tokens b)"
  shows "tokens_ok c (refill_tokens l b now)"
proof -
  obtain t where t: "b_tokens b = Fin t" "0 \<le> t" "t \<le> c" using assms(5) by (auto simp: tokens_ok_def)
  have mx: "nonneg_num (js_max (Fin 0) v)" if "v \<noteq> NaN" for v
    using that by (cases v) (auto simp: nonneg_num_def js_max_def)
  have ni: "js_int n \<noteq> NaN" for n by (simp add: js_int_def js_of_rat_def js_clip_def)
  have e: "\<exists>t. v = Fin t \<and> 0 \<le> t \<or> v = PosInf" if "nonneg_num v" for v
    using that by (auto simp: nonneg_num_def)
  have inf: "nonneg_num PosInf" by (simp add: nonneg_num_def)
  have dv: "nonneg_num (js_div v (Fin 1000))" if "nonneg_num v" for v
    using e [OF that] inf by (auto intro!: nonneg_of_rat simp: inf_of_sign_def js_sgn_def)
  have ml: "nonneg_num (js_mul v (Fin r))" if "nonneg_num v" for v
    using e [OF that] assms(4) inf by (auto intro!: nonneg_of_rat simp: inf_of_sign_def js_sgn_def)
  have ad: "nonneg_num (js_add (Fin t) v)" if "nonneg_num v" for v
    using e [OF that] t(2) inf by (auto intro!: nonneg_of_rat)
  have "nonneg_num (js_add (Fin t) (js_mul (js_div (js_max (Fin 0) (js_int (now - b_updatedAt b))) (Fin 1000)) (Fin r)))"
    by (intro ad ml dv mx ni)
  then show ?thesis
    using assms(1-3) t(1)
    by (auto simp: refill_tokens_def Let_def nonneg_num_def tokens_ok_def js_min_def min_def)
qed

lemma double_fl64: "double c \<Longrightarrow> fl64 c = c"
  by (auto simp: double_def js_of_rat_def js_clip_def split: if_splits)

lemma clip_below:
  assumes "double c" "0 \<le> a" "a \<le> c"
  shows "js_clip a = Fin a"
proof (cases "a = 0")
  case False
  have "ilog2 a \<le> ilog2 c" using assms False by (intro ilog2_mono) auto
  moreover have "ilog2 c < 1024"
    using assms False double_fl64 [OF assms(1)]
    by (auto simp: double_def js_of_rat_def js_clip_def split: if_splits)
  ultimately show ?thesis using assms(2) by (simp add: js_clip_def)
qed (simp add: js_clip_def)

lemma spend_ok:
  assumes "tokens_ok c v" "\<not> js_less v (Fin 1)" "double c"
  shows "tokens_ok c (js_sub v (Fin 1))"
proof -
  obtain t where t: "v = Fin t" "1 \<le> t" "t \<le> c" using assms(1,2) by (auto simp: tokens_ok_def)
  have "fl64 (t - 1) \<le> fl64 c" using t(3) by (intro fl64_mono) simp
  moreover have "0 \<le> fl64 (t - 1)" using t(2) by (intro fl64_nonneg) simp
  ultimately have "0 \<le> fl64 (t - 1)" "fl64 (t - 1) \<le> c" using double_fl64 [OF assms(3)] by simp_all
  moreover have "js_sub v (Fin 1) = js_clip (fl64 (t - 1))" using t(1) by (simp add: js_sub_def js_of_rat_def)
  ultimately show ?thesis using clip_below [OF assms(3), of "fl64 (t - 1)"] by (auto simp: tokens_ok_def)
qed

lemma length_jdel_less: "jhas m k \<Longrightarrow> length (jdel k m) < length m"
proof (induction m)
  case (Cons e m)
  show ?case
  proof (cases "fst e = k")
    case True
    then show ?thesis using length_delete_le [of k m] by (cases e) simp
  next
    case False
    with Cons.prems have "jhas m k" by auto
    with Cons.IH False show ?thesis by (cases e) simp
  qed
qed simp

lemma touch_none: "\<not> jhas (l_buckets l) key \<Longrightarrow>
  touch l key now = (\<lparr>b_tokens = l_capacity l, b_updatedAt = now\<rparr>, l_buckets l)"
  by (simp add: touch_def map_of_eq_None_iff [symmetric])

lemma touch_some: "jget (l_buckets l) key = Some b \<Longrightarrow>
  touch l key now = (\<lparr>b_tokens = refill_tokens l b now, b_updatedAt = now\<rparr>, jdel key (l_buckets l))"
  by (simp add: touch_def)

lemma touch_facts:
  assumes "limiter_inv l" "l_capacity l = Fin c"
  shows "tokens_ok c (b_tokens (fst (touch l key now))) \<and> jwf (snd (touch l key now)) \<and>
      \<not> jhas (snd (touch l key now)) key \<and>
      (jget (snd (touch l key now)) k = Some b' \<longrightarrow> jget (l_buckets l) k = Some b') \<and>
      length (snd (touch l key now)) \<le> length (l_buckets l) \<and>
      (jhas (l_buckets l) key \<longrightarrow> length (snd (touch l key now)) < length (l_buckets l))"
proof -
  obtain r where c: "0 < c" "l_refillPerSecond l = Fin r" "0 < r" "jwf (l_buckets l)"
    and tk: "\<And>k b. jget (l_buckets l) k = Some b \<Longrightarrow> tokens_ok c (b_tokens b)"
    using assms(1,2) by (auto simp: limiter_inv_def)
  have full: "tokens_ok c (Fin c)" using c(1) by (simp add: tokens_ok_def)
  show ?thesis
  proof (cases "jget (l_buckets l) key")
    case None
    then have "\<not> jhas (l_buckets l) key" by (simp add: map_of_eq_None_iff)
    with touch_none [OF this] full assms(2) c(4) show ?thesis by simp
  next
    case (Some b)
    have "jhas (l_buckets l) key" using Some by (metis map_of_eq_None_iff option.distinct(1))
    with touch_some [OF Some] refill_ok [OF assms(2) c(1-3) tk [OF Some]] c(4) length_jdel_less [where m = "l_buckets l" and k = key]
    show ?thesis by (simp add: jwf_jdel jget_jdel jhas_jdel)
  qed
qed

lemma limit_request_cases:
  assumes "touch l key now = (b, rest)"
  shows "limit_request l key now = (if js_less (b_tokens b) (Fin 1)
      then (l\<lparr>l_buckets := jset key b rest\<rparr>,
            Limited (js_max (Fin 1) (js_ceil (js_div (js_sub (Fin 1) (b_tokens b)) (l_refillPerSecond l))))
              (js_round (js_div (l_capacity l) (l_refillPerSecond l))))
      else (l\<lparr>l_buckets := drop_oldest (l_maxKeys l) (jset key (b\<lparr>b_tokens := js_sub (b_tokens b) (Fin 1)\<rparr>) rest)\<rparr>,
            Admitted (js_floor (js_sub (b_tokens b) (Fin 1)))))"
  using assms by (simp add: limit_request_def Let_def)

lemma drop_oldest_facts:
  assumes "jwf m" "length m \<le> Suc mx"
  shows "jwf (drop_oldest mx m) \<and> length (drop_oldest mx m) \<le> mx \<and>
    (\<forall>k b. jget (drop_oldest mx m) k = Some b \<longrightarrow> jget m k = Some b)"
proof (cases m)
  case (Cons e r)
  obtain k v where e: "e = (k, v)" by (cases e)
  have "drop_oldest mx m = (if mx < length m then jdel k m else m)"
    using Cons e by (simp add: drop_oldest_def)
  moreover have "length (jdel k m) < length m"
    using length_jdel_less [where m = m and k = k] Cons e by simp
  ultimately show ?thesis
    using assms jwf_jdel [OF assms(1), of k] by (auto simp: jget_jdel)
qed (simp add: drop_oldest_def)

lemma limit_request_inv:
  fixes key :: string and now :: int
  assumes "limiter_inv l" "l_capacity l = Fin c" "length (l_buckets l) \<le> l_maxKeys l" "1 \<le> c"
  defines "l' \<equiv> fst (limit_request l key now)"
  shows "limiter_inv l' \<and> l_capacity l' = l_capacity l \<and> l_maxKeys l' = l_maxKeys l \<and>
    l_refillPerSecond l' = l_refillPerSecond l \<and> length (l_buckets l') \<le> l_maxKeys l'"
proof -
  obtain b rest where br: "touch l key now = (b, rest)" by (cases "touch l key now")
  have f0: "tokens_ok c (b_tokens b)" "jwf rest" "\<not> jhas rest key"
      "length rest \<le> length (l_buckets l)" "jhas (l_buckets l) key \<Longrightarrow> length rest < length (l_buckets l)"
    and f1: "\<And>k x. jget rest k = Some x \<Longrightarrow> jget (l_buckets l) k = Some x"
    using touch_facts [OF assms(1,2), where key = key and now = now] by (simp_all add: br)
  note f = f0 f1
  obtain r where c: "0 < c" "double c" "l_refillPerSecond l = Fin r" "0 < r"
    and tk: "\<And>k b. jget (l_buckets l) k = Some b \<Longrightarrow> tokens_ok c (b_tokens b)"
    using assms(1,2) by (auto simp: limiter_inv_def)
  have tk': "tokens_ok c (b_tokens x)" if "jget (jset key y rest) k = Some x" "tokens_ok c (b_tokens y)" for x y k
    using that tk [OF f1] by (auto simp: jget_jset split: if_splits)
  have len: "length (jset key y rest) \<le> Suc (l_maxKeys l)" for y
    using f0(3,4) assms(3) by (simp add: length_jset)
  show ?thesis
  proof (cases "js_less (b_tokens b) (Fin 1)")
    case True
    have known: "jhas (l_buckets l) key"
    proof (rule ccontr)
      assume "\<not> jhas (l_buckets l) key"
      with touch_none [OF this] br have "b_tokens b = Fin c" using assms(2) by auto
      with True assms(4) show False by simp
    qed
    then have "length (jset key b rest) \<le> l_maxKeys l"
      using f0(3,5) assms(3) by (simp add: length_jset)
    moreover have "jwf (jset key b rest)" using f by (simp add: jwf_jset)
    ultimately show ?thesis
      using True c assms(2) tk' f
      by (simp add: l'_def limit_request_cases [OF br] limiter_inv_def)
  next
    case False
    let ?b = "b\<lparr>b_tokens := js_sub (b_tokens b) (Fin 1)\<rparr>"
    have "tokens_ok c (b_tokens ?b)" using spend_ok [OF _ False c(2)] f by simp
    moreover have "jwf (jset key ?b rest)" using f by (simp add: jwf_jset)
    note d = drop_oldest_facts [OF this len]
    ultimately have "\<forall>k x. jget (drop_oldest (l_maxKeys l) (jset key ?b rest)) k = Some x \<longrightarrow> tokens_ok c (b_tokens x)"
      using tk' d by blast
    then show ?thesis
      using False c assms(2) d
      by (simp add: l'_def limit_request_cases [OF br] limiter_inv_def)
  qed
qed

text \<open>A run of requests: who asks, and when.\<close>

fun limit_run :: "limiter \<Rightarrow> (string \<times> int) list \<Rightarrow> limiter" where
  "limit_run l [] = l"
| "limit_run l ((key, now) # rs) = limit_run (fst (limit_request l key now)) rs"

lemma limit_run_inv:
  assumes "limiter_inv l" "l_capacity l = Fin c" "length (l_buckets l) \<le> l_maxKeys l" "1 \<le> c"
  shows "limiter_inv (limit_run l rs) \<and> l_capacity (limit_run l rs) = Fin c \<and>
    l_maxKeys (limit_run l rs) = l_maxKeys l \<and> l_refillPerSecond (limit_run l rs) = l_refillPerSecond l \<and>
    length (l_buckets (limit_run l rs)) \<le> l_maxKeys l"
  using assms
proof (induction l rs rule: limit_run.induct)
  case (2 l key now rs)
  show ?case
    using 2 limit_request_inv [OF "2.prems", where key = key and now = now] by simp
qed simp

lemma new_limiter_inv:
  assumes "rateLimit (Fin c) r mk = Some l" "double c"
  shows "limiter_inv l \<and> l_capacity l = Fin c \<and> l_buckets l = [] \<and> 0 < c"
  using assms by (cases r) (auto simp: rateLimit_def limiter_inv_def js_le_def split: if_splits)

subsection \<open>A burst at one instant\<close>

fun limit_decisions :: "limiter \<Rightarrow> (string \<times> int) list \<Rightarrow> decision list" where
  "limit_decisions l [] = []"
| "limit_decisions l ((key, now) # rs) =
     (case limit_request l key now of (l', d) \<Rightarrow> d # limit_decisions l' rs)"

fun admitted :: "decision \<Rightarrow> bool" where
  "admitted (Admitted left) = True"
| "admitted (Limited wait reset) = False"

text \<open>The state of the limiter after the keys of \<open>before\<close> have each asked at \<open>now\<close>.\<close>

definition burst_state :: "limiter \<Rightarrow> nat \<Rightarrow> rat \<Rightarrow> int \<Rightarrow> string list \<Rightarrow> bool" where
  "burst_state l n r now before \<longleftrightarrow>
     l_capacity l = Fin (of_nat n) \<and> l_refillPerSecond l = Fin r \<and>
     length (l_buckets l) = card (set before) \<and>
     (\<forall>k. jget (l_buckets l) k = (if k \<in> set before
        then Some \<lparr>b_tokens = Fin (of_nat (n - count_list before k)), b_updatedAt = now\<rparr> else None))"

lemma js_of_rat_nat: "n < 2 ^ 53 \<Longrightarrow> js_of_rat (of_nat n) = Fin (of_nat n)"
  using js_int_small [of "int n"] by (simp add: js_int_def)

lemma js_dec: "m < 2 ^ 53 \<Longrightarrow> js_sub (Fin (of_nat (Suc m))) (Fin 1) = Fin (of_nat m)"
  using js_of_rat_nat [of m] by (simp add: js_sub_def)

lemma refill_at_once:
  assumes "l_capacity l = Fin (of_nat n)" "n < 2 ^ 53" "l_refillPerSecond l = Fin r" "t \<le> n"
  shows "refill_tokens l \<lparr>b_tokens = Fin (of_nat t), b_updatedAt = now\<rparr> now = Fin (of_nat t)"
  using assms js_of_rat_nat [of t] js_int_small [of 0] js_of_rat_nat [of 0]
  by (simp add: refill_tokens_def Let_def)

lemma burst_touch:
  assumes "burst_state l n r now before" "n < 2 ^ 53"
  shows "fst (touch l key now) = \<lparr>b_tokens = Fin (of_nat (n - count_list before key)), b_updatedAt = now\<rparr> \<and>
    (\<forall>k. jget (snd (touch l key now)) k = (if k = key then None else jget (l_buckets l) k)) \<and>
    (jwf (l_buckets l) \<longrightarrow> jwf (snd (touch l key now)))"
proof (cases "key \<in> set before")
  case True
  then have "jget (l_buckets l) key =
      Some \<lparr>b_tokens = Fin (of_nat (n - count_list before key)), b_updatedAt = now\<rparr>"
    using assms(1) by (simp add: burst_state_def)
  from touch_some [OF this] show ?thesis
    using assms refill_at_once [where l = l and n = n and r = r and t = "n - count_list before key"]
    by (simp add: burst_state_def jget_jdel jwf_jdel)
next
  case False
  then have none: "jget (l_buckets l) key = None" using assms(1) by (simp add: burst_state_def)
  then have "\<not> jhas (l_buckets l) key" by (simp add: map_of_eq_None_iff)
  from touch_none [OF this] show ?thesis
    using assms False none by (simp add: burst_state_def count_list_0_iff)
qed

lemma jwf_length: "jwf m \<Longrightarrow> length m = card (dom (jget m))"
  unfolding jwf_def dom_map_of_conv_image_fst by (metis distinct_card length_map set_map)

lemma dom_burst: "burst_state l n r now before \<Longrightarrow> dom (jget (l_buckets l)) = set before"
  by (auto simp: burst_state_def split: if_splits)

lemma burst_step:
  assumes "burst_state l n r now before" "jwf (l_buckets l)" "n < 2 ^ 53"
    and "card (set (before @ [key])) \<le> l_maxKeys l"
  shows "burst_state (fst (limit_request l key now)) n r now (before @ [key]) \<and>
    jwf (l_buckets (fst (limit_request l key now))) \<and>
    l_maxKeys (fst (limit_request l key now)) = l_maxKeys l \<and>
    (admitted (snd (limit_request l key now)) \<longleftrightarrow> count_list before key < n)"
proof -
  obtain b rest where br: "touch l key now = (b, rest)" by (cases "touch l key now")
  have b: "b = \<lparr>b_tokens = Fin (of_nat (n - count_list before key)), b_updatedAt = now\<rparr>"
    and rest: "\<And>k. jget rest k = (if k = key then None else jget (l_buckets l) k)" and wf: "jwf rest"
    using burst_touch [OF assms(1,3), of key] assms(2) by (simp_all add: br)
  let ?b = "\<lparr>b_tokens = Fin (of_nat (n - count_list (before @ [key]) key)), b_updatedAt = now\<rparr>"
  have new: "burst_state (l\<lparr>l_buckets := jset key ?b rest\<rparr>) n r now (before @ [key])"
  proof -
    have "dom (jget (jset key ?b rest)) = insert key (dom (jget (l_buckets l)))"
      by (auto simp: rest jget_jset split: if_splits)
    then have "dom (jget (jset key ?b rest)) = set (before @ [key])"
      using dom_burst [OF assms(1)] by simp
    then have "length (jset key ?b rest) = card (set (before @ [key]))"
      by (simp add: jwf_length jwf_jset wf)
    then show ?thesis
      using assms(1) by (auto simp: burst_state_def rest jget_jset)
  qed
  have len: "length (jset key ?b rest) \<le> l_maxKeys l"
    using new assms(4) by (simp add: burst_state_def)
  show ?thesis
  proof (cases "count_list before key < n")
    case True
    then have "n - count_list before key = Suc (n - Suc (count_list before key))"
      by simp
    then have "js_sub (b_tokens b) (Fin 1) = b_tokens ?b"
      using assms(3) js_dec [of "n - Suc (count_list before key)"] by (simp only: b bucket.simps) simp
    then show ?thesis
      using True new len wf
      by (simp add: limit_request_cases [OF br] b drop_oldest_def jwf_jset)
  next
    case False
    then show ?thesis
      using new wf by (simp add: limit_request_cases [OF br] b jwf_jset)
  qed
qed

lemma burst_run:
  assumes "burst_state l n r now before" "jwf (l_buckets l)" "n < 2 ^ 53"
    and "card (set (before @ keys)) \<le> l_maxKeys l" "i < length keys"
  shows "admitted (limit_decisions l (map (\<lambda>k. (k, now)) keys) ! i) \<longleftrightarrow>
    count_list (before @ take i keys) (keys ! i) < n"
  using assms
proof (induction keys arbitrary: l before i)
  case (Cons key keys)
  have "card (set (before @ [key])) \<le> card (set (before @ key # keys))"
    by (rule card_mono) auto
  then have *: "card (set (before @ [key])) \<le> l_maxKeys l" using Cons.prems(4) by linarith
  obtain l' d where ld: "limit_request l key now = (l', d)" by (cases "limit_request l key now")
  show ?case
    using burst_step [OF Cons.prems(1-3) *] Cons.prems(3-5) Cons.IH [of l' "before @ [key]" "i - 1"]
    by (cases i) (simp_all add: ld)
qed simp

subsection \<open>What the limiter guarantees\<close>

text \<open>
  A limiter with a capacity of at least one token (a double) never remembers more keys than
  \<open>maxKeys\<close>, and every bucket holds between zero and \<open>capacity\<close> tokens, whoever asks and whatever
  the clock says, backwards jumps included.
\<close>

theorem limiter_stays_bounded:
  assumes "rateLimit (Fin c) r mk = Some l" "double c" "1 \<le> c"
  shows "length (l_buckets (limit_run l rs)) \<le> l_maxKeys l \<and>
    (\<forall>k b. jget (l_buckets (limit_run l rs)) k = Some b \<longrightarrow> (\<exists>t. b_tokens b = Fin t \<and> 0 \<le> t \<and> t \<le> c))"
proof -
  have n: "limiter_inv l" "l_capacity l = Fin c" "l_buckets l = []"
    using new_limiter_inv [OF assms(1,2)] by simp_all
  from limit_run_inv [OF n(1,2) _ assms(3), where rs = rs] n(3) show ?thesis
    by (auto simp: limiter_inv_def tokens_ok_def)
qed

lemma limiter_stays_bounded_witness:
  "length (l_buckets (limit_run \<lparr>l_capacity = Fin 1, l_refillPerSecond = Fin 1, l_maxKeys = 1, l_buckets = []\<rparr>
     [(''a'', 0), (''b'', 5)])) \<le> 1"
proof -
  have "rateLimit (Fin 1) (Fin 1) (Some 1) =
      Some \<lparr>l_capacity = Fin 1, l_refillPerSecond = Fin 1, l_maxKeys = 1, l_buckets = []\<rparr>"
    by (simp add: rateLimit_def js_le_def)
  moreover have "double 1" using js_of_rat_nat [of 1] by (simp add: double_def)
  ultimately show ?thesis
    using limiter_stays_bounded [where c = 1 and rs = "[(''a'', 0), (''b'', 5)]"] by fastforce
qed

text \<open>
  Of a burst of requests at one instant, by any keys in any order, exactly the first \<open>capacity\<close>
  of each key are admitted: one client cannot spend another's tokens (as long as the limiter has
  room for the keys of the burst; the capacity a whole number a double holds exactly).
\<close>

theorem burst_admits_capacity:
  assumes "rateLimit (Fin (of_nat n)) (Fin r) mk = Some l" "n < 2 ^ 53"
    and "card (set keys) \<le> l_maxKeys l" "i < length keys"
  shows "admitted (limit_decisions l (map (\<lambda>k. (k, now)) keys) ! i) \<longleftrightarrow>
    count_list (take i keys) (keys ! i) < n"
proof -
  have "burst_state l n r now []" "jwf (l_buckets l)"
    using assms(1) by (auto simp: burst_state_def rateLimit_def split: if_splits)
  from burst_run [OF this assms(2)] assms(3,4) show ?thesis by simp
qed


lemma burst_admits_capacity_witness:
  "\<not> admitted (limit_decisions \<lparr>l_capacity = Fin 2, l_refillPerSecond = Fin 1, l_maxKeys = 10000, l_buckets = []\<rparr>
     (map (\<lambda>k. (k, 7)) [''a'', ''b'', ''a'', ''a'']) ! 3)"
proof -
  have "rateLimit (Fin (of_nat 2)) (Fin 1) None =
      Some \<lparr>l_capacity = Fin 2, l_refillPerSecond = Fin 1, l_maxKeys = 10000, l_buckets = []\<rparr>"
    by (simp add: rateLimit_def js_le_def DEFAULT_MAX_KEYS_def)
  from burst_admits_capacity [OF this, where keys = "[''a'', ''b'', ''a'', ''a'']" and i = 3 and now = 7]
  show ?thesis by (simp add: card_insert_if)
qed

end
