(* ===== verification/Sse.thy ===== *)
theory Sse
  imports Json "HOL-Library.Word"
begin

section \<open>Server-sent events in the daemon (packages/node-daemon/src/sse.ts)\<close>

text \<open>
  \<open>SseParser\<close> with its three fields, and the generator \<open>iterateSseJson\<close> as the list of the values it
  yields together with the error that ends it, if any. The \<open>TextDecoder\<close> and \<open>JSON.parse\<close> are
  arguments. The specification \<open>sse_events\<close> reads a whole text at once: the parser yields the same
  events however the text is cut into chunks.
\<close>

subsection \<open>The parser\<close>

abbreviation CR :: char where "CR \<equiv> CHR 0x0D"
abbreviation LF :: char where "LF \<equiv> CHR 0x0A"

definition SSE_DONE :: string where "SSE_DONE = ''[DONE]''"

record sse_event =
  ev_data :: string
  ev_event :: "string option"
  ev_id :: "string option"

record sse_parser =
  sp_buffer :: string
  sp_pendingCr :: bool
  sp_finished :: bool

definition new_parser :: sse_parser where
  "new_parser = \<lparr>sp_buffer = [], sp_pendingCr = False, sp_finished = False\<rparr>"

definition sse_pending :: "sse_parser \<Rightarrow> string" where
  "sse_pending p = (if sp_pendingCr p then sp_buffer p @ [CR] else sp_buffer p)"

text \<open>\<open>text.replace(/\\r\\n/g, "\\n").replace(/\\r/g, "\\n")\<close>\<close>

fun replace_crlf :: "string \<Rightarrow> string" where
  "replace_crlf (a # b # s) =
     (if a = CR \<and> b = LF then LF # replace_crlf s else a # replace_crlf (b # s))"
| "replace_crlf s = s"

definition replace_cr :: "string \<Rightarrow> string" where
  "replace_cr = map (\<lambda>c. if c = CR then LF else c)"

definition sse_append :: "string \<Rightarrow> sse_parser \<Rightarrow> sse_parser" where
  "sse_append chunk p =
     (let buffer1 = (if sp_pendingCr p then sp_buffer p @ [LF] else sp_buffer p);
          text1 = (if sp_pendingCr p \<and> starts_with [LF] chunk then tl chunk else chunk);
          pend = (text1 \<noteq> [] \<and> last text1 = CR);
          text2 = (if pend then butlast text1 else text1)
      in p\<lparr>sp_buffer := buffer1 @ replace_cr (replace_crlf text2), sp_pendingCr := pend\<rparr>)"

text \<open>One line of a frame: the fields collected so far are the data lines, the event name and the id.\<close>

type_synonym frame_fields = "string list \<times> string option \<times> string option"

definition field_value :: "string \<Rightarrow> string \<times> string" where
  "field_value line =
     (let field = takeWhile (\<lambda>c. c \<noteq> CHR '':'') line;
          raw = tl (dropWhile (\<lambda>c. c \<noteq> CHR '':'') line)
      in (field, if starts_with '' '' raw then tl raw else raw))"

definition frame_line :: "frame_fields \<Rightarrow> string \<Rightarrow> frame_fields" where
  "frame_line acc line =
     (if line = [] \<or> starts_with '':'' line then acc
      else case (acc, field_value line) of ((dataLines, name, ident), (field, v)) \<Rightarrow>
        if field = ''data'' then (dataLines @ [v], name, ident)
        else if field = ''event'' then (dataLines, Some v, ident)
        else if field = ''id'' then (dataLines, name, Some v)
        else acc)"

fun join_lines :: "string list \<Rightarrow> string" where
  "join_lines [] = []"
| "join_lines [l] = l"
| "join_lines (l # ls) = l @ LF # join_lines ls"

datatype emitted = NoEvent | DoneFrame | Event sse_event

definition parse_frame :: "string \<Rightarrow> emitted" where
  "parse_frame frame =
     (case foldl frame_line ([], None, None) (split_on LF frame) of (dataLines, name, ident) \<Rightarrow>
        if dataLines = [] then NoEvent
        else if join_lines dataLines = SSE_DONE then DoneFrame
        else Event \<lparr>ev_data = join_lines dataLines, ev_event = name, ev_id = ident\<rparr>)"

definition emit :: "string \<Rightarrow> sse_parser \<times> sse_event list \<Rightarrow> (sse_parser \<times> sse_event list) \<times> bool" where
  "emit frame st = (case (st, parse_frame frame) of
      (_, NoEvent) \<Rightarrow> (st, False)
    | ((p, out), DoneFrame) \<Rightarrow> ((p\<lparr>sp_finished := True\<rparr>, out), True)
    | ((p, out), Event e) \<Rightarrow> ((p, out @ [e]), False))"

text \<open>\<open>indexOf("\\n\\n")\<close> and the two slices: the text before the first blank line, and after it.\<close>

fun cut_frame :: "string \<Rightarrow> (string \<times> string) option" where
  "cut_frame (a # b # s) =
     (if a = LF \<and> b = LF then Some ([], s)
      else map_option (\<lambda>(f, r). (a # f, r)) (cut_frame (b # s)))"
| "cut_frame s = None"

lemma cut_frame_length: "cut_frame s = Some (f, r) \<Longrightarrow> length r < length s"
  by (induction s arbitrary: f rule: cut_frame.induct) (auto split: if_splits)

function drain :: "sse_parser \<times> sse_event list \<Rightarrow> sse_parser \<times> sse_event list" where
  "drain (p, out) = (case cut_frame (sp_buffer p) of
      None \<Rightarrow> (p, out)
    | Some (frame, rest) \<Rightarrow>
        (case emit frame (p\<lparr>sp_buffer := rest\<rparr>, out) of
           (st, True) \<Rightarrow> st
         | (st, False) \<Rightarrow> drain st))"
  by pat_completeness auto
termination
  by (relation "measure (\<lambda>(p, out). length (sp_buffer p))")
    (auto simp: emit_def split: emitted.splits dest: cut_frame_length)

definition push :: "string \<Rightarrow> sse_parser \<Rightarrow> sse_parser \<times> sse_event list" where
  "push chunk p = (if sp_finished p \<or> chunk = [] then (p, []) else drain (sse_append chunk p, []))"

definition sse_flush :: "sse_parser \<Rightarrow> sse_parser \<times> sse_event list" where
  "sse_flush p =
     (if sp_finished p then (p, [])
      else let rest = (if sp_pendingCr p then sp_buffer p @ [LF] else sp_buffer p);
               p1 = p\<lparr>sp_buffer := [], sp_pendingCr := False\<rparr>
           in if trim rest = [] then (p1, []) else fst (emit rest (p1, [])))"

subsection \<open>The generator\<close>

record 'd text_decoder =
  td_new :: 'd
  td_decode :: "'d \<Rightarrow> 8 word list \<Rightarrow> string \<times> 'd"
  td_flush :: "'d \<Rightarrow> string"

definition parseFrame :: "(string \<Rightarrow> jsval option) \<Rightarrow> string \<Rightarrow> string \<Rightarrow> jsval res" where
  "parseFrame json label data = (case json data of
      Some v \<Rightarrow> Inr v | None \<Rightarrow> throw UpstreamErr (label @ '' sent a malformed SSE frame''))"

fun yield_frames :: "(string \<Rightarrow> jsval option) \<Rightarrow> string \<Rightarrow> sse_event list \<Rightarrow> jsval list \<times> exn option" where
  "yield_frames json label [] = ([], None)"
| "yield_frames json label (e # es) = (case parseFrame json label (ev_data e) of
      Inl x \<Rightarrow> ([], Some x)
    | Inr v \<Rightarrow> (case yield_frames json label es of (vs, x) \<Rightarrow> (v # vs, x)))"

text \<open>What the generator does after its values \<open>vs\<close>: stop with the error, or go on.\<close>

definition and_then ::
  "jsval list \<times> exn option \<Rightarrow> jsval list \<times> exn option \<Rightarrow> jsval list \<times> exn option" where
  "and_then a b = (case a of (vs, Some x) \<Rightarrow> (vs, Some x) | (vs, None) \<Rightarrow> (vs @ fst b, snd b))"

definition iterate_end ::
  "'d text_decoder \<Rightarrow> (string \<Rightarrow> jsval option) \<Rightarrow> string \<Rightarrow> 'd \<Rightarrow> sse_parser \<Rightarrow> jsval list \<times> exn option" where
  "iterate_end td json label d p =
     (case push (td_flush td d) p of (p1, es) \<Rightarrow>
        and_then (yield_frames json label es)
          (if sp_finished p1 then ([], None)
           else yield_frames json label (snd (sse_flush p1))))"

fun iterate_chunks ::
  "'d text_decoder \<Rightarrow> (string \<Rightarrow> jsval option) \<Rightarrow> string \<Rightarrow> 'd \<Rightarrow> sse_parser \<Rightarrow> 8 word list list \<Rightarrow>
   jsval list \<times> exn option" where
  "iterate_chunks td json label d p [] = iterate_end td json label d p"
| "iterate_chunks td json label d p (bytes # rest) =
     (case td_decode td d bytes of (text, d') \<Rightarrow>
      case push text p of (p', es) \<Rightarrow>
        and_then (yield_frames json label es)
          (if sp_finished p' then ([], None) else iterate_chunks td json label d' p' rest))"

definition iterateSseJson ::
  "'d text_decoder \<Rightarrow> (string \<Rightarrow> jsval option) \<Rightarrow> string \<Rightarrow> 8 word list list \<Rightarrow> jsval list \<times> exn option" where
  "iterateSseJson td json label stream = iterate_chunks td json label (td_new td) new_parser stream"

subsection \<open>What a whole text means\<close>

text \<open>Line endings in one pass; a final \<open>CR\<close> is withheld, since a \<open>LF\<close> may follow.\<close>

fun norm_lines :: "string \<Rightarrow> string" where
  "norm_lines (a # b # s) =
     (if a = CR \<and> b = LF then LF # norm_lines s else (if a = CR then LF else a) # norm_lines (b # s))"
| "norm_lines [a] = [if a = CR then LF else a]"
| "norm_lines [] = []"

definition ends_cr :: "string \<Rightarrow> bool" where
  "ends_cr t \<longleftrightarrow> t \<noteq> [] \<and> last t = CR"

definition withheld :: "string \<Rightarrow> string" where
  "withheld t = (if ends_cr t then butlast t else t)"

definition body_text :: "string \<Rightarrow> string" where
  "body_text t = norm_lines (withheld t)"

lemma ends_cr_Nil [simp]: "\<not> ends_cr []"
  by (simp add: ends_cr_def)

function scan_frames :: "string \<Rightarrow> sse_event list \<times> string \<times> bool" where
  "scan_frames s = (case cut_frame s of
      None \<Rightarrow> ([], s, False)
    | Some (frame, rest) \<Rightarrow> (case parse_frame frame of
        DoneFrame \<Rightarrow> ([], rest, True)
      | NoEvent \<Rightarrow> scan_frames rest
      | Event e \<Rightarrow> (case scan_frames rest of (es, r, fin) \<Rightarrow> (e # es, r, fin))))"
  by pat_completeness auto
termination
  by (relation "measure length") (auto dest: cut_frame_length)

declare scan_frames.simps [simp del] drain.simps [simp del]

definition last_frame :: "string \<Rightarrow> sse_event list" where
  "last_frame s = (if trim s = [] then [] else case parse_frame s of Event e \<Rightarrow> [e] | _ \<Rightarrow> [])"

definition sse_events :: "string \<Rightarrow> sse_event list" where
  "sse_events t = (case scan_frames (body_text t) of (es, r, fin) \<Rightarrow>
      es @ (if fin then [] else last_frame (if ends_cr t then r @ [LF] else r)))"

subsection \<open>The parser computes it, whatever the chunks\<close>

lemma replace_crlf_Cons [simp]: "a \<noteq> CR \<Longrightarrow> replace_crlf (a # s) = a # replace_crlf s"
  by (cases s) auto

lemma replace_is_norm: "replace_cr (replace_crlf s) = norm_lines s"
  by (induction s rule: norm_lines.induct) (auto simp: replace_cr_def)

lemma norm_lines_append:
  "\<not> (ends_cr u \<and> starts_with [LF] v) \<Longrightarrow> norm_lines (u @ v) = norm_lines u @ norm_lines v"
proof (induction u rule: norm_lines.induct)
  case (1 a b s)
  then show ?case by (cases s) (auto simp: ends_cr_def)
next
  case (2 a)
  then show ?case by (cases v) (auto simp: ends_cr_def starts_with_def)
qed simp

lemma norm_lines_crlf: "norm_lines (u @ CR # LF # v) = norm_lines u @ LF # norm_lines v"
proof (induction u rule: norm_lines.induct)
  case (2 a)
  then show ?case by (cases "a = CR") auto
qed auto

lemma ends_crE: "ends_cr t \<Longrightarrow> (\<And>u. t = u @ [CR] \<Longrightarrow> thesis) \<Longrightarrow> thesis"
  by (metis ends_cr_def append_butlast_last_id)

lemma ends_cr_append: "ends_cr (t @ c) \<longleftrightarrow> (if c = [] then ends_cr t else ends_cr c)"
  by (simp add: ends_cr_def)

text \<open>The text that \<open>append\<close> adds to the buffer.\<close>

definition added :: "bool \<Rightarrow> string \<Rightarrow> string" where
  "added pend c = (if pend then [LF] else []) @ body_text (if pend \<and> starts_with [LF] c then tl c else c)"

lemma sse_append_added:
  "sse_append c p = p\<lparr>sp_buffer := sp_buffer p @ added (sp_pendingCr p) c,
     sp_pendingCr := ends_cr (if sp_pendingCr p \<and> starts_with [LF] c then tl c else c)\<rparr>"
  by (simp add: sse_append_def Let_def added_def replace_is_norm body_text_def withheld_def ends_cr_def)

lemma starts_LF: "starts_with [LF] c \<longleftrightarrow> (\<exists>d. c = LF # d)"
  by (cases c) (auto simp: starts_with_def)

lemma ends_cr_Cons: "ends_cr (a # c) \<longleftrightarrow> (if c = [] then a = CR else ends_cr c)"
  by (simp add: ends_cr_def)

lemma withheld_append: "c \<noteq> [] \<Longrightarrow> withheld (t @ c) = t @ withheld c"
  by (simp add: withheld_def ends_cr_append butlast_append)

lemma withheld_LF: "withheld (LF # d) = LF # withheld d"
  by (simp add: withheld_def ends_cr_Cons)

lemma withheld_CR: "withheld (u @ [CR]) = u"
  by (simp add: withheld_def ends_cr_def)

lemma starts_LF_withheld: "starts_with [LF] (withheld c) \<Longrightarrow> starts_with [LF] c"
  by (cases c) (auto simp: starts_LF withheld_def split: if_splits)

lemma body_text_append:
  assumes "c \<noteq> []"
  shows "body_text (t @ c) = body_text t @ added (ends_cr t) c"
proof (cases "ends_cr t")
  case False
  then have "norm_lines (t @ withheld c) = norm_lines t @ norm_lines (withheld c)"
    by (intro norm_lines_append) simp
  with False assms show ?thesis by (simp add: body_text_def added_def withheld_append) (simp add: withheld_def)
next
  case True
  then obtain u where u: "t = u @ [CR]" by (rule ends_crE)
  show ?thesis
  proof (cases "starts_with [LF] c")
    case True
    then obtain d where d: "c = LF # d" by (auto simp: starts_LF)
    have "body_text (t @ c) = norm_lines u @ LF # norm_lines (withheld d)"
      using norm_lines_crlf [of u "withheld d"] withheld_append [of "LF # d" "u @ [CR]"]
      by (simp add: body_text_def u d withheld_LF)
    with True \<open>ends_cr t\<close> show ?thesis
      by (simp add: added_def body_text_def) (simp add: u d withheld_CR)
  next
    case False
    then have "norm_lines (t @ withheld c) = norm_lines t @ norm_lines (withheld c)"
      using starts_LF_withheld by (intro norm_lines_append) blast
    moreover have "norm_lines t = norm_lines u @ [LF]"
      using norm_lines_append [of u "[CR]"] by (simp add: u starts_with_def)
    ultimately have "body_text (t @ c) = norm_lines u @ LF # norm_lines (withheld c)"
      using assms by (simp add: body_text_def withheld_append)
    with False \<open>ends_cr t\<close> show ?thesis
      by (simp add: added_def body_text_def) (simp add: u withheld_CR)
  qed
qed

lemma ends_cr_append_added: "c \<noteq> [] \<Longrightarrow>
  ends_cr (t @ c) = ends_cr (if ends_cr t \<and> starts_with [LF] c then tl c else c)"
  by (cases c) (simp_all add: ends_cr_append starts_LF ends_cr_Cons)

lemma cut_frame_append: "cut_frame s = Some (f, r) \<Longrightarrow> cut_frame (s @ x) = Some (f, r @ x)"
  by (induction s arbitrary: f rule: cut_frame.induct) (auto split: if_splits)

lemma scan_append:
  "scan_frames (s @ x) = (case scan_frames s of
      (es, r, True) \<Rightarrow> (es, r @ x, True)
    | (es, r, False) \<Rightarrow> (case scan_frames (r @ x) of (es', r', fin) \<Rightarrow> (es @ es', r', fin)))"
proof (induction s rule: scan_frames.induct)
  case (1 s)
  show ?case
  proof (cases "cut_frame s")
    case None
    then show ?thesis by (simp add: scan_frames.simps [of s] split: prod.split)
  next
    case (Some fr)
    obtain f r where fr: "fr = (f, r)" by (cases fr)
    have c: "cut_frame s = Some (f, r)" "cut_frame (s @ x) = Some (f, r @ x)"
      using Some fr cut_frame_append by auto
    show ?thesis
    proof (cases "parse_frame f")
      case NoEvent
      with "1.IH"(1) Some fr show ?thesis by (simp add: scan_frames.simps [of s] scan_frames.simps [of "s @ x"] c)
    next
      case DoneFrame
      then show ?thesis by (simp add: scan_frames.simps [of s] scan_frames.simps [of "s @ x"] c)
    next
      case (Event e)
      with "1.IH"(2) Some fr show ?thesis
        by (simp add: scan_frames.simps [of s] scan_frames.simps [of "s @ x"] c split: prod.splits bool.splits)
    qed
  qed
qed

lemma drain_scan:
  "\<not> sp_finished p \<Longrightarrow> drain (p, out) = (case scan_frames (sp_buffer p) of
     (es, r, fin) \<Rightarrow> (p\<lparr>sp_buffer := r, sp_finished := fin\<rparr>, out @ es))"
proof (induction "sp_buffer p" arbitrary: p out rule: scan_frames.induct)
  case 1
  show ?case
  proof (cases "cut_frame (sp_buffer p)")
    case None
    with 1(3) show ?thesis by (simp add: scan_frames.simps [of "sp_buffer p"] drain.simps [of p])
  next
    case (Some fr)
    obtain f r where fr: "cut_frame (sp_buffer p) = Some (f, r)" using Some by (cases fr) auto
    show ?thesis
      using 1 fr
      by (cases "parse_frame f")
        (auto simp: scan_frames.simps [of "sp_buffer p"] drain.simps [of p] emit_def split: prod.split)
  qed
qed

subsection \<open>Feeding chunks\<close>

fun feed :: "sse_parser \<Rightarrow> string list \<Rightarrow> sse_event list" where
  "feed p [] = snd (sse_flush p)"
| "feed p (c # cs) = (case push c p of (p', es) \<Rightarrow> es @ feed p' cs)"

lemma feed_finished: "sp_finished p \<Longrightarrow> feed p cs = []"
  by (induction cs) (simp_all add: push_def sse_flush_def)

lemma flush_last_frame:
  "\<not> sp_finished p \<Longrightarrow>
   snd (sse_flush p) = last_frame (if sp_pendingCr p then sp_buffer p @ [LF] else sp_buffer p)"
  by (auto simp: sse_flush_def last_frame_def emit_def Let_def split: emitted.split)

text \<open>The state after the text \<open>t\<close>, no \<open>[DONE]\<close> frame yet.\<close>

definition reading :: "string \<Rightarrow> sse_parser \<Rightarrow> sse_event list \<Rightarrow> bool" where
  "reading t p es \<longleftrightarrow> \<not> sp_finished p \<and> sp_pendingCr p = ends_cr t \<and>
     scan_frames (body_text t) = (es, sp_buffer p, False)"

lemma reading_push:
  assumes "reading t p es" "c \<noteq> []"
  obtains p' new where "push c p = (p', new)" "\<not> sp_finished p'" "reading (t @ c) p' (es @ new)"
  | p' new r where "push c p = (p', new)" "sp_finished p'" "scan_frames (body_text (t @ c)) = (es @ new, r, True)"
proof -
  let ?q = "sse_append c p"
  have q: "sp_buffer ?q = sp_buffer p @ added (ends_cr t) c" "sp_pendingCr ?q = ends_cr (t @ c)"
      "\<not> sp_finished ?q"
    using assms ends_cr_append_added [OF assms(2), of t] by (simp_all add: sse_append_added reading_def)
  obtain new r fin where s: "scan_frames (sp_buffer ?q) = (new, r, fin)" by (metis prod_cases3)
  have "push c p = (?q\<lparr>sp_buffer := r, sp_finished := fin\<rparr>, new)"
    using assms drain_scan [OF q(3), of "[]"] s by (simp add: push_def reading_def)
  moreover have "scan_frames (body_text (t @ c)) = (es @ new, r, fin)"
  proof -
    have "scan_frames (body_text (t @ c)) =
        (case scan_frames (sp_buffer ?q) of (es', r', fin) \<Rightarrow> (es @ es', r', fin))"
      using assms(1) scan_append [of "body_text t" "added (ends_cr t) c"]
      by (simp add: body_text_append [OF assms(2)] q(1) reading_def)
    with s show ?thesis by simp
  qed
  ultimately show thesis
    using that(1) [of "?q\<lparr>sp_buffer := r, sp_finished := fin\<rparr>" new]
      that(2) [of "?q\<lparr>sp_buffer := r, sp_finished := fin\<rparr>" new r] q(2)
    by (cases fin) (simp_all add: reading_def)
qed

lemma reading_feed:
  "reading t p es \<Longrightarrow> es @ feed p cs = sse_events (t @ concat cs)"
proof (induction cs arbitrary: t p es)
  case Nil
  then show ?case
    by (auto simp: reading_def sse_events_def flush_last_frame)
next
  case (Cons c cs)
  show ?case
  proof (cases "c = []")
    case True
    with Cons show ?thesis by (simp add: push_def)
  next
    case False
    from Cons.prems False show ?thesis
    proof (cases rule: reading_push)
      case (1 p' new)
      with Cons.IH [OF 1(3)] show ?thesis by simp
    next
      case (2 p' new r)
      have "sse_events ((t @ c) @ concat cs) = es @ new"
      proof (cases "concat cs = []")
        case True
        show ?thesis unfolding True using 2 by (simp add: sse_events_def)
      next
        case False
        have "scan_frames (body_text ((t @ c) @ concat cs)) = (es @ new, r @ added (ends_cr (t @ c)) (concat cs), True)"
          unfolding body_text_append [OF False, of "t @ c"]
          by (subst scan_append) (simp add: 2)
        then show ?thesis unfolding sse_events_def by simp
      qed
      with 2 show ?thesis by (simp add: feed_finished)
    qed
  qed
qed

lemma feed_is_events: "feed new_parser cs = sse_events (concat cs)"
proof -
  have "reading [] new_parser []"
    by (simp add: reading_def new_parser_def body_text_def withheld_def scan_frames.simps)
  from reading_feed [OF this] show ?thesis by simp
qed

subsection \<open>What the parser guarantees\<close>

text \<open>
  C29: The events of a stream depend on its text alone, not on where the network cut it: for every
  way to split a text into chunks (inside a field name, between the two newlines of a boundary,
  between the CR and the LF of one line ending) the parser yields exactly the events of the whole
  text, and nothing after a \<open>[DONE]\<close> frame.
\<close>

theorem sse_chunking_irrelevant:
  "feed new_parser cs = sse_events (concat cs)"
  by (rule feed_is_events)

end
