(* ===== verification/Router.thy ===== *)
theory Router
  imports Selector NodeStore Schemas Config Sse
begin

section \<open>The upstream router (packages/gateway/src/services/router.ts)\<close>

text \<open>
  \<open>HttpNodeRouter.route\<close>: at most two attempts, each on a node of its own. What the outside world
  answers in an attempt is an \<open>attempt_env\<close> (the node list, the clock, the random draw, the resolver,
  the upstream's reply, the state of the abort signal, calls of the store that reject); what the router does
  is the list of its \<open>route_event\<close>s in order, next to its result. \<open>TextDecoder\<close>, \<open>JSON.parse\<close> and
  the URL parser are fields of \<open>router\<close>. An error carries its class, message and details; of an
  error the modelled guard or the store throws, only class and message. Log lines and spans are left out.
\<close>

subsection \<open>Constants and collaborators\<close>

definition NODE_CHAT_PATH :: string where "NODE_CHAT_PATH = ''/v1/chat/completions''"
definition DONE_FRAME :: string where "DONE_FRAME = ''data: [DONE]'' @ [LF, LF]"
definition MAX_JSON_BODY_BYTES :: nat where "MAX_JSON_BODY_BYTES = 8 * 1024 * 1024"
definition MAX_STREAM_BODY_BYTES :: nat where "MAX_STREAM_BODY_BYTES = 64 * 1024 * 1024"
definition ERROR_SNIPPET_BYTES :: nat where "ERROR_SNIPPET_BYTES = 256"

text \<open>One \<open>reader.read()\<close>: bytes, no value, or a rejection. The body ends with the list.\<close>

datatype body_read = Data "8 word list" | NoValue | ReadFails exn

record http_response =
  hr_status :: nat
  hr_contentType :: "string option"
  hr_body :: "body_read list option"

datatype fetch_reply = FetchFails bool string | Responded http_response

record 'd router =
  ro_config :: gateway_config
  ro_selector :: selector
  ro_parse :: "string \<Rightarrow> url option"
  ro_decoder :: "'d text_decoder"
  ro_json :: "string \<Rightarrow> jsval option"

record route_input =
  ri_requestId :: string
  ri_request :: chat_request
  ri_sink :: bool

record attempt_env =
  ae_list :: "node_record list res"
  ae_selectAt :: jsnum
  ae_draw :: jsnum
  ae_startedAt :: jsnum
  ae_doneAt :: jsnum
  ae_failedAt :: jsnum
  ae_outcomeAt :: jsnum
  ae_aborted :: bool
  ae_abortedAfter :: bool
  ae_guardT1 :: int
  ae_guardT2 :: int
  ae_resolve :: "string \<Rightarrow> string list option"
  ae_fetch :: fetch_reply
  ae_beginError :: "exn option"
  ae_recordError :: "exn option"
  ae_recordFailureError :: "exn option"
  ae_endError :: "exn option"

text \<open>The calls of the store carry whether they resolved.\<close>

datatype route_event =
    NodeSelected node_record
  | BeginRequest string bool
  | RecordOutcome string request_outcome bool
  | EndRequest string bool
  | Fetch string string jsval
  | SinkBegin string
  | SinkWrite "8 word list"
  | SinkEnd

subsection \<open>Errors\<close>

definition of_exn :: "exn \<Rightarrow> mesh_error" where
  "of_exn e = \<lparr>me_class = exn_class e, me_message = exn_message e, me_details = None\<rparr>"

definition describe :: "mesh_error option \<Rightarrow> string" where
  "describe e = (case e of Some x \<Rightarrow> me_message x | None \<Rightarrow> ''undefined'')"

subsection \<open>The tracked sink\<close>

record tracked_sink =
  tk_started :: bool
  tk_ended :: bool

definition new_sink :: tracked_sink where "new_sink = \<lparr>tk_started = False, tk_ended = False\<rparr>"

definition sink_begin :: "string \<Rightarrow> tracked_sink \<Rightarrow> tracked_sink \<times> route_event list" where
  "sink_begin ct k = (if tk_started k then (k, []) else (k\<lparr>tk_started := True\<rparr>, [SinkBegin ct]))"

definition sink_end :: "tracked_sink \<Rightarrow> tracked_sink \<times> route_event list" where
  "sink_end k = (if tk_ended k then (k, []) else (k\<lparr>tk_ended := True\<rparr>, [SinkEnd]))"

subsection \<open>Bodies\<close>

definition forwardBody :: "chat_request \<Rightarrow> jsval" where
  "forwardBody q = JObj
     ([(''model'', JStr (cr_model q)),
       (''messages'', JArr (map (\<lambda>m. JObj [(''role'', JStr (cm_role m)), (''content'', JStr (cm_content m))])
          (cr_messages q)))]
      @ (case cr_stream q of None \<Rightarrow> [] | Some b \<Rightarrow> [(''stream'', JBool b)])
      @ (case cr_max_tokens q of None \<Rightarrow> [] | Some i \<Rightarrow> [(''max_tokens'', JNum (Fin (of_int i)))])
      @ (case cr_temperature q of None \<Rightarrow> [] | Some t \<Rightarrow> [(''temperature'', JNum (Fin t))])
      @ (case cr_top_p q of None \<Rightarrow> [] | Some t \<Rightarrow> [(''top_p'', JNum (Fin t))])
      @ (case cr_stop q of None \<Rightarrow> [] | Some ss \<Rightarrow> [(''stop'', JArr (map JStr ss))]))"

fun has_substring :: "string \<Rightarrow> string \<Rightarrow> bool" where
  "has_substring p [] = (p = [])"
| "has_substring p (c # s) = (starts_with p (c # s) \<or> has_substring p s)"

definition slice_last :: "nat \<Rightarrow> string \<Rightarrow> string" where
  "slice_last n s = drop (length s - n) s"

text \<open>The loop of \<open>pumpStream\<close>: the writes, the tail it inspects, and the rejection that broke it.\<close>

fun pump_reads ::
  "'d text_decoder \<Rightarrow> 'd \<Rightarrow> string \<Rightarrow> nat \<Rightarrow> body_read list \<Rightarrow> route_event list \<times> string \<times> exn option" where
  "pump_reads td d tl_text fwd [] = ([], tl_text, None)"
| "pump_reads td d tl_text fwd (NoValue # rs) = pump_reads td d tl_text fwd rs"
| "pump_reads td d tl_text fwd (ReadFails e # rs) = ([], tl_text, Some e)"
| "pump_reads td d tl_text fwd (Data v # rs) =
     (if MAX_STREAM_BODY_BYTES < fwd + length v then ([], tl_text, None)
      else (case td_decode td d v of (text, d') \<Rightarrow>
            case pump_reads td d' (slice_last 64 (tl_text @ text)) (fwd + length v) rs of
              (evs, t, e) \<Rightarrow> (SinkWrite v # evs, t, e)))"

definition pumpStream ::
  "'d text_decoder \<Rightarrow> http_response \<Rightarrow> tracked_sink \<Rightarrow> string \<Rightarrow>
   route_event list \<times> tracked_sink \<times> mesh_error option" where
  "pumpStream td resp k nodeId = (case hr_body resp of
      None \<Rightarrow> ([], k, Some (upstream_error ''node returned a streaming response with no body''
                     [(''nodeId'', JStr nodeId)]))
    | Some reads \<Rightarrow>
        (case sink_begin (case hr_contentType resp of Some t \<Rightarrow> t | None \<Rightarrow> ''text/event-stream'') k of (k1, e1) \<Rightarrow>
         case pump_reads td (td_new td) [] 0 reads of (e2, t, err) \<Rightarrow>
         case sink_end k1 of (k2, e4) \<Rightarrow>
           (e1 @ e2 @ (if err = None \<and> \<not> has_substring ''[DONE]'' t then [SinkWrite (utf8 DONE_FRAME)] else []) @ e4,
            k2, map_option of_exn err)))"

text \<open>\<open>readBounded\<close>: the text and whether the cap was passed, or the rejection of a read.\<close>

fun bounded_reads ::
  "'d text_decoder \<Rightarrow> nat \<Rightarrow> 'd \<Rightarrow> string \<Rightarrow> nat \<Rightarrow> body_read list \<Rightarrow> exn + string \<times> bool" where
  "bounded_reads td limit d text received [] = Inr (text @ td_flush td d, False)"
| "bounded_reads td limit d text received (NoValue # rs) = bounded_reads td limit d text received rs"
| "bounded_reads td limit d text received (ReadFails e # rs) = Inl e"
| "bounded_reads td limit d text received (Data v # rs) =
     (if limit < received + length v then Inr (text, True)
      else (case td_decode td d v of (more_text, d') \<Rightarrow>
            bounded_reads td limit d' (text @ more_text) (received + length v) rs))"

definition readBounded :: "'d text_decoder \<Rightarrow> http_response \<Rightarrow> nat \<Rightarrow> exn + string \<times> bool" where
  "readBounded td resp limit = (case hr_body resp of
      None \<Rightarrow> Inr ([], False) | Some reads \<Rightarrow> bounded_reads td limit (td_new td) [] 0 reads)"

definition readJson ::
  "'d text_decoder \<Rightarrow> (string \<Rightarrow> jsval option) \<Rightarrow> http_response \<Rightarrow> string \<Rightarrow> mesh_error + jsval" where
  "readJson td json resp nodeId = (case readBounded td resp MAX_JSON_BODY_BYTES of
      Inl e \<Rightarrow> Inl (of_exn e)
    | Inr (text, truncated) \<Rightarrow>
        if truncated
        then Inl (upstream_error ''node response exceeded the maximum body size''
               [(''nodeId'', JStr nodeId), (''maxBytes'', JNum (Fin (of_nat MAX_JSON_BODY_BYTES)))])
        else (case json text of
               Some v \<Rightarrow> Inr v
             | None \<Rightarrow> Inl (upstream_error ''node returned a body that is not valid JSON'' [(''nodeId'', JStr nodeId)])))"

definition readErrorSnippet :: "'d text_decoder \<Rightarrow> http_response \<Rightarrow> string" where
  "readErrorSnippet td resp = (case readBounded td resp ERROR_SNIPPET_BYTES of
      Inl e \<Rightarrow> [] | Inr (text, _) \<Rightarrow> slice_to ERROR_SNIPPET_BYTES text)"

subsection \<open>One upstream call\<close>

definition response_ok :: "http_response \<Rightarrow> bool" where
  "response_ok r \<longleftrightarrow> 200 \<le> hr_status r \<and> hr_status r \<le> 299"

type_synonym call_result = "route_event list \<times> tracked_sink \<times> host_cache \<times> (mesh_error + jsval option)"

definition receive ::
  "'d router \<Rightarrow> route_input \<Rightarrow> http_response \<Rightarrow> tracked_sink \<Rightarrow> string \<Rightarrow>
   route_event list \<times> tracked_sink \<times> (mesh_error + jsval option)" where
  "receive ro inp resp k nodeId =
     (if \<not> response_ok resp
      then ([], k, Inl (upstream_error (''node returned HTTP '' @ nat_str (hr_status resp))
             [(''nodeId'', JStr nodeId), (''status'', JNum (Fin (of_nat (hr_status resp)))),
              (''detail'', JStr (readErrorSnippet (ro_decoder ro) resp))]))
      else if \<not> ri_sink inp
      then ([], k, map_sum id Some (readJson (ro_decoder ro) (ro_json ro) resp nodeId))
      else (case pumpStream (ro_decoder ro) resp k nodeId of
              (evs, k', err) \<Rightarrow> (evs, k', case err of Some e \<Rightarrow> Inl e | None \<Rightarrow> Inr None)))"

definition performCall ::
  "'d router \<Rightarrow> route_input \<Rightarrow> node_record \<Rightarrow> attempt_env \<Rightarrow> tracked_sink \<Rightarrow> host_cache \<Rightarrow> call_result" where
  "performCall ro inp node ae k hosts =
     (let nodeId = n_nodeId node;
          endpoint = r_endpoint (n_registration node)
      in if ae_aborted ae
         then ([], k, hosts, Inl (upstream_error ''client disconnected before the request was forwarded''
                [(''nodeId'', JStr nodeId)]))
         else (case assertRoutableEndpoint (ro_parse ro) (g_allowPrivateNodeEndpoints (ro_config ro))
                      (ae_resolve ae) (ae_guardT1 ae) (ae_guardT2 ae) hosts endpoint of
                 (hosts', Inl e) \<Rightarrow> ([], k, hosts', Inl (of_exn e))
               | (hosts', Inr u) \<Rightarrow>
                   let call = Fetch (stripTrailingSlash endpoint @ NODE_CHAT_PATH)
                        (if ri_sink inp then ''text/event-stream'' else ''application/json'')
                        (forwardBody (ri_request inp))
                   in (case ae_fetch ae of
                         FetchFails timedOut reason \<Rightarrow>
                           ([call], k, hosts', Inl (upstream_error
                             (if timedOut then ''node did not respond before the deadline'' else ''node request failed'')
                             [(''nodeId'', JStr nodeId),
                              (''timeoutMs'', JNum (Fin (of_int (g_nodeRequestTimeoutMs (ro_config ro))))),
                              (''reason'', JStr reason)]))
                       | Responded resp \<Rightarrow>
                           (case receive ro inp resp k nodeId of
                              (evs, k', r) \<Rightarrow> (call # evs, k', hosts', r)))))"

definition outcome_event :: "attempt_env \<Rightarrow> string \<Rightarrow> bool \<Rightarrow> jsnum \<Rightarrow> exn option \<Rightarrow> route_event" where
  "outcome_event ae nodeId success now err =
     RecordOutcome nodeId \<lparr>o_success = success, o_latencyMs = js_sub now (ae_startedAt ae), o_at = ae_outcomeAt ae\<rparr>
       (err = None)"

text \<open>The \<open>catch\<close> clause of \<open>callNode\<close>: a rejection of its own replaces the error.\<close>

definition record_failure :: "attempt_env \<Rightarrow> string \<Rightarrow> mesh_error \<Rightarrow> route_event list \<times> mesh_error" where
  "record_failure ae nodeId e =
     ([outcome_event ae nodeId False (ae_failedAt ae) (ae_recordFailureError ae)],
      case ae_recordFailureError ae of None \<Rightarrow> e | Some x \<Rightarrow> of_exn x)"

definition callNode ::
  "'d router \<Rightarrow> route_input \<Rightarrow> node_record \<Rightarrow> attempt_env \<Rightarrow> tracked_sink \<Rightarrow> host_cache \<Rightarrow>
   route_event list \<times> tracked_sink \<times> host_cache \<times> (mesh_error + jsnum \<times> jsval option)" where
  "callNode ro inp node ae k hosts =
     (let nodeId = n_nodeId node
      in case ae_beginError ae of
           Some e \<Rightarrow> ([BeginRequest nodeId False], k, hosts, Inl (of_exn e))
         | None \<Rightarrow>
             (case performCall ro inp node ae k hosts of (evs, k', hosts', r) \<Rightarrow>
              case (case r of
                      Inr body \<Rightarrow>
                        (let ok = outcome_event ae nodeId True (ae_doneAt ae) (ae_recordError ae)
                         in case ae_recordError ae of
                              None \<Rightarrow> ([ok], Inr (js_sub (ae_doneAt ae) (ae_startedAt ae), body))
                            | Some e \<Rightarrow> (case record_failure ae nodeId (of_exn e) of (fs, x) \<Rightarrow> (ok # fs, Inl x)))
                    | Inl e \<Rightarrow> (case record_failure ae nodeId e of (fs, x) \<Rightarrow> (fs, Inl x))) of (recorded, res) \<Rightarrow>
                (BeginRequest nodeId True # evs @ recorded @ [EndRequest nodeId (ae_endError ae = None)], k', hosts',
                 case ae_endError ae of None \<Rightarrow> res | Some e \<Rightarrow> Inl (of_exn e))))"

subsection \<open>The retry loop\<close>

record route_result =
  rr_node :: node_record
  rr_body :: "jsval option"
  rr_latencyMs :: jsnum
  rr_attempts :: nat

definition give_up :: "route_input \<Rightarrow> string list \<Rightarrow> mesh_error option \<Rightarrow> mesh_error" where
  "give_up inp tried lastError =
     (case lastError of
        Some e \<Rightarrow> if me_class e = NoCapacityErr then e
           else upstream_error ''every candidate node failed to serve the request''
             [(''requestId'', JStr (ri_requestId inp)), (''triedNodeIds'', JArr (map JStr tried)),
              (''reason'', JStr (describe (Some e)))]
      | None \<Rightarrow> upstream_error ''every candidate node failed to serve the request''
             [(''requestId'', JStr (ri_requestId inp)), (''triedNodeIds'', JArr (map JStr tried)),
              (''reason'', JStr (describe None))])"

definition select_node :: "'d router \<Rightarrow> route_input \<Rightarrow> attempt_env \<Rightarrow> string list \<Rightarrow> exn + node_record" where
  "select_node ro inp ae tried = (case ae_list ae of
      Inl e \<Rightarrow> Inl e
    | Inr records \<Rightarrow>
        (case select (ro_selector ro) (ae_selectAt ae) (ae_draw ae) records (cr_model (ri_request inp)) tried of
           Inl (e, tally) \<Rightarrow> Inl e | Inr s \<Rightarrow> Inr (ns_node s)))"

fun attempts ::
  "'d router \<Rightarrow> route_input \<Rightarrow> (nat \<times> attempt_env) list \<Rightarrow> string list \<Rightarrow> mesh_error option \<Rightarrow>
   tracked_sink \<Rightarrow> host_cache \<Rightarrow> route_event list \<times> host_cache \<times> (mesh_error + route_result)" where
  "attempts ro inp [] tried lastError k hosts = ([], hosts, Inl (give_up inp tried lastError))"
| "attempts ro inp ((n, ae) # more_tries) tried lastError k hosts =
     (case select_node ro inp ae tried of
        Inl e \<Rightarrow> ([], hosts, Inl (if 1 < n \<and> lastError \<noteq> None then give_up inp tried lastError else of_exn e))
      | Inr node \<Rightarrow>
          (case callNode ro inp node ae k hosts of (evs, k', hosts', r) \<Rightarrow>
             let tried' = tried @ [n_nodeId node];
                 evs' = NodeSelected node # evs
             in case r of
                  Inr (latency, body) \<Rightarrow>
                    (evs', hosts', Inr \<lparr>rr_node = node, rr_body = body, rr_latencyMs = latency, rr_attempts = n\<rparr>)
                | Inl e \<Rightarrow>
                    if ae_abortedAfter ae \<or> (ri_sink inp \<and> tk_started k')
                    then (evs', hosts', Inl (give_up inp tried' (Some e)))
                    else (case attempts ro inp more_tries tried' (Some e) k' hosts' of
                            (evs2, rest) \<Rightarrow> (evs' @ evs2, rest))))"

definition route ::
  "'d router \<Rightarrow> route_input \<Rightarrow> attempt_env \<Rightarrow> attempt_env \<Rightarrow> host_cache \<Rightarrow>
   route_event list \<times> host_cache \<times> (mesh_error + route_result)" where
  "route ro inp ae1 ae2 hosts = attempts ro inp [(1, ae1), (2, ae2)] [] None new_sink hosts"

subsection \<open>The calls onto the store (services/registryAdapter.ts)\<close>

text \<open>
  \<open>RegistrySelectorAdapter\<close> hands the calls that resolve to the registry's store; one that rejects has
  no effect.
\<close>

fun apply_call ::
  "(string \<Rightarrow> 's \<Rightarrow> 's) \<Rightarrow> (string \<Rightarrow> request_outcome \<Rightarrow> 's \<Rightarrow> 's) \<Rightarrow> (string \<Rightarrow> 's \<Rightarrow> 's) \<Rightarrow> route_event \<Rightarrow> 's \<Rightarrow> 's" where
  "apply_call bgn rcd fin (BeginRequest k b) s = (if b then bgn k s else s)"
| "apply_call bgn rcd fin (RecordOutcome k ou b) s = (if b then rcd k ou s else s)"
| "apply_call bgn rcd fin (EndRequest k b) s = (if b then fin k s else s)"
| "apply_call bgn rcd fin _ s = s"

fun resolved :: "route_event \<Rightarrow> bool" where
  "resolved (BeginRequest k b) = b"
| "resolved (RecordOutcome k ou b) = b"
| "resolved (EndRequest k b) = b"
| "resolved _ = True"

fun selected :: "route_event list \<Rightarrow> string list" where
  "selected [] = []"
| "selected (NodeSelected node # evs) = n_nodeId node # selected evs"
| "selected (_ # evs) = selected evs"

end
