(* ===== verification/RouterProps.thy ===== *)
theory RouterProps
  imports Router SelectionProps NodeProps "HOL-Library.Sublist"
begin

section \<open>What the router guarantees\<close>

text \<open>
  A run of the router is a sequence of attempts of one shape (\<open>one_attempt\<close>); the properties read
  the store calls, the bytes towards the client and the upstream fetches off that sequence.
\<close>

subsection \<open>The shape of one attempt\<close>

fun store_call :: "route_event \<Rightarrow> bool" where
  "store_call (BeginRequest n b) = True"
| "store_call (RecordOutcome n ou b) = True"
| "store_call (EndRequest n b) = True"
| "store_call _ = False"

fun sink_call :: "route_event \<Rightarrow> bool" where
  "sink_call (SinkBegin ct) = True"
| "sink_call (SinkWrite v) = True"
| "sink_call SinkEnd = True"
| "sink_call _ = False"

definition endpoint_passed :: "'d router \<Rightarrow> node_record \<Rightarrow> bool" where
  "endpoint_passed ro node \<longleftrightarrow>
     (\<exists>u. ro_parse ro (r_endpoint (n_registration node)) = Some u \<and>
        (u_protocol u = ''http:'' \<or> u_protocol u = ''https:'') \<and> u_username u = [] \<and> u_password u = [] \<and>
        (g_allowPrivateNodeEndpoints (ro_config ro) \<or> isIP (strip_brackets (u_hostname u)) = 0 \<or>
         \<not> isBlockedAddress (strip_brackets (u_hostname u))))"

definition fetch_of :: "'d router \<Rightarrow> route_input \<Rightarrow> node_record \<Rightarrow> route_event" where
  "fetch_of ro inp node = Fetch (stripTrailingSlash (r_endpoint (n_registration node)) @ NODE_CHAT_PATH)
     (if ri_sink inp then ''text/event-stream'' else ''application/json'') (forwardBody (ri_request inp))"

definition streamed_events :: "route_event list \<Rightarrow> bool" where
  "streamed_events evs \<longleftrightarrow> (\<exists>ct ws. evs = SinkBegin ct # map SinkWrite ws @ [SinkEnd])"

text \<open>What \<open>performCall\<close> does; \<open>st\<close> says whether the client's response was opened.\<close>

definition call_events :: "'d router \<Rightarrow> route_input \<Rightarrow> node_record \<Rightarrow> bool \<Rightarrow> route_event list \<Rightarrow> bool" where
  "call_events ro inp node st evs \<longleftrightarrow>
     (evs = [] \<and> \<not> st) \<or>
     (endpoint_passed ro node \<and>
       (\<exists>es. evs = fetch_of ro inp node # es \<and>
          (es = [] \<and> \<not> st \<or> streamed_events es \<and> st \<and> ri_sink inp)))"

definition outcome_calls :: "string \<Rightarrow> route_event list \<Rightarrow> bool" where
  "outcome_calls k evs \<longleftrightarrow>
     (\<exists>ou b. evs = [RecordOutcome k ou b]) \<or>
     (\<exists>ou ou' b. evs = [RecordOutcome k ou False, RecordOutcome k ou' b] \<and> o_success ou \<and> \<not> o_success ou')"

definition one_attempt :: "'d router \<Rightarrow> route_input \<Rightarrow> node_record \<Rightarrow> bool \<Rightarrow> route_event list \<Rightarrow> bool" where
  "one_attempt ro inp node st evs \<longleftrightarrow>
     (evs = [NodeSelected node, BeginRequest (n_nodeId node) False] \<and> \<not> st) \<or>
     (\<exists>call outcome ok. call_events ro inp node st call \<and> outcome_calls (n_nodeId node) outcome \<and>
        evs = NodeSelected node # BeginRequest (n_nodeId node) True #
          call @ outcome @ [EndRequest (n_nodeId node) ok])"

lemma pump_reads_writes: "pump_reads td d t f rs = (evs, t', e) \<Longrightarrow> \<exists>ws. evs = map SinkWrite ws"
proof (induction td d t f rs arbitrary: evs t' e rule: pump_reads.induct)
  case (4 td d t f v rs)
  then show ?case
    by (auto simp: Let_def split: if_splits prod.splits) (metis list.simps(9))
qed auto

lemma pumpStream_events:
  assumes "pumpStream td resp new_sink k = (evs, k', err)"
  shows "(evs = [] \<and> k' = new_sink \<and> err \<noteq> None) \<or> (streamed_events evs \<and> tk_started k')"
proof (cases "hr_body resp")
  case None
  with assms show ?thesis by (auto simp: pumpStream_def)
next
  case (Some reads)
  obtain e2 t e where p: "pump_reads td (td_new td) [] 0 reads = (e2, t, e)" by (metis prod_cases3)
  obtain ws where ws: "e2 = map SinkWrite ws" using pump_reads_writes [OF p] by blast
  let ?ws = "ws @ (if e = None \<and> \<not> has_substring ''[DONE]'' t then [utf8 DONE_FRAME] else [])"
  have "evs = SinkBegin (case hr_contentType resp of Some t \<Rightarrow> t | None \<Rightarrow> ''text/event-stream'') #
      map SinkWrite ?ws @ [SinkEnd]" "tk_started k'"
    using assms Some p ws
    by (auto simp: pumpStream_def sink_begin_def sink_end_def new_sink_def)
  then show ?thesis unfolding streamed_events_def by blast
qed

lemma receive_events:
  assumes "receive ro inp resp new_sink k = (evs, k', r)"
  shows "(evs = [] \<and> k' = new_sink) \<or> (streamed_events evs \<and> tk_started k' \<and> ri_sink inp)"
  using assms pumpStream_events [where resp = resp and k = k and td = "ro_decoder ro"]
  by (auto simp: receive_def split: if_splits prod.splits)

lemma guard_passed:
  assumes "assertRoutableEndpoint parse ap res t1 t2 cache raw = (cache', Inr u)"
  shows "assertHttpUrlShape parse raw = Inr u \<and>
    (ap \<or> isIP (strip_brackets (u_hostname u)) = 0 \<or> \<not> isBlockedAddress (strip_brackets (u_hostname u)))"
  using assms by (auto simp: assertRoutableEndpoint_def Let_def split: sum.splits if_splits option.splits)

lemma shape_passed:
  "assertHttpUrlShape parse raw = Inr u \<Longrightarrow> parse raw = Some u \<and>
     (u_protocol u = ''http:'' \<or> u_protocol u = ''https:'') \<and> u_username u = [] \<and> u_password u = []"
  by (auto simp: assertHttpUrlShape_def split: option.splits if_splits)

lemma performCall_events:
  assumes "performCall ro inp node ae new_sink hosts = (evs, k', hosts', r)"
  shows "\<exists>st. call_events ro inp node st evs \<and> (st \<longrightarrow> tk_started k') \<and> (\<not> st \<longrightarrow> k' = new_sink)"
proof (cases "ae_aborted ae")
  case True
  with assms show ?thesis by (auto simp: performCall_def call_events_def)
next
  case False
  let ?g = "assertRoutableEndpoint (ro_parse ro) (g_allowPrivateNodeEndpoints (ro_config ro))
      (ae_resolve ae) (ae_guardT1 ae) (ae_guardT2 ae) hosts (r_endpoint (n_registration node))"
  obtain h g where g: "?g = (h, g)" by (cases ?g)
  show ?thesis
  proof (cases g)
    case (Inl e)
    with False g assms show ?thesis by (auto simp: performCall_def call_events_def)
  next
    case (Inr u)
    have ep: "endpoint_passed ro node"
      using guard_passed [OF g [unfolded Inr]] shape_passed by (auto simp: endpoint_passed_def)
    show ?thesis
    proof (cases "ae_fetch ae")
      case (FetchFails x y)
      with False g Inr ep assms show ?thesis by (auto simp: performCall_def call_events_def fetch_of_def)
    next
      case (Responded resp)
      obtain es k2 r2 where rc: "receive ro inp resp new_sink (n_nodeId node) = (es, k2, r2)"
        by (metis prod_cases3)
      have "evs = fetch_of ro inp node # es" "k' = k2"
        using False g Inr Responded rc assms by (auto simp: performCall_def fetch_of_def Let_def)
      with ep receive_events [OF rc] show ?thesis by (auto simp: call_events_def)
    qed
  qed
qed

lemma record_failure_calls:
  "record_failure ae k e = (fs, x) \<Longrightarrow>
   \<exists>ou. \<not> o_success ou \<and> fs = [RecordOutcome k ou (ae_recordFailureError ae = None)]"
  by (auto simp: record_failure_def outcome_event_def)

lemma callNode_events:
  assumes "callNode ro inp node ae new_sink hosts = (evs, k', hosts', r)"
  shows "\<exists>st. one_attempt ro inp node st (NodeSelected node # evs) \<and>
    (st \<longrightarrow> tk_started k') \<and> (\<not> st \<longrightarrow> k' = new_sink)"
proof (cases "ae_beginError ae")
  case (Some e)
  with assms show ?thesis by (auto simp: callNode_def one_attempt_def)
next
  case None
  obtain call k2 h2 r2 where pc: "performCall ro inp node ae new_sink hosts = (call, k2, h2, r2)"
    by (metis prod_cases4)
  obtain outcome where "outcome_calls (n_nodeId node) outcome" "k' = k2"
      "evs = BeginRequest (n_nodeId node) True # call @ outcome @ [EndRequest (n_nodeId node) (ae_endError ae = None)]"
  proof (cases r2)
    case (Inl e)
    obtain fs x where rf: "record_failure ae (n_nodeId node) e = (fs, x)" by (cases "record_failure ae (n_nodeId node) e")
    show thesis
      using record_failure_calls [OF rf] None pc Inl rf assms
      by (intro that [of fs]) (auto simp: callNode_def outcome_calls_def Let_def)
  next
    case (Inr body)
    let ?ok = "outcome_event ae (n_nodeId node) True (ae_doneAt ae) (ae_recordError ae)"
    show thesis
    proof (cases "ae_recordError ae")
      case None
      then show thesis
        using \<open>ae_beginError ae = None\<close> pc Inr assms
        by (intro that [of "[?ok]"]) (auto simp: callNode_def outcome_calls_def outcome_event_def Let_def)
    next
      case (Some e)
      obtain fs x where rf: "record_failure ae (n_nodeId node) (of_exn e) = (fs, x)"
        by (cases "record_failure ae (n_nodeId node) (of_exn e)")
      show thesis
        using record_failure_calls [OF rf] \<open>ae_beginError ae = None\<close> Some pc Inr rf assms
        by (intro that [of "?ok # fs"]) (auto simp: callNode_def outcome_calls_def outcome_event_def Let_def)
    qed
  qed
  with performCall_events [OF pc] show ?thesis by (auto simp: one_attempt_def)
qed

subsection \<open>The shape of a run\<close>

type_synonym attempt_log = "node_record \<times> bool \<times> route_event list"

abbreviation al_id :: "attempt_log \<Rightarrow> string" where "al_id a \<equiv> n_nodeId (fst a)"
abbreviation al_streamed :: "attempt_log \<Rightarrow> bool" where "al_streamed a \<equiv> fst (snd a)"
abbreviation al_events :: "attempt_log \<Rightarrow> route_event list" where "al_events a \<equiv> snd (snd a)"

text \<open>The node was eligible in the list the selector read for one of the attempts.\<close>

definition chosen_in :: "'d router \<Rightarrow> route_input \<Rightarrow> attempt_env set \<Rightarrow> node_record \<Rightarrow> bool" where
  "chosen_in ro inp aes node \<longleftrightarrow> (\<exists>ae \<in> aes. \<exists>rs tried. ae_list ae = Inr rs \<and> node \<in> set rs \<and>
     is_eligible (ro_selector ro) (ae_selectAt ae) tried (cr_model (ri_request inp)) node)"

definition run_of ::
  "'d router \<Rightarrow> route_input \<Rightarrow> attempt_env set \<Rightarrow> string list \<Rightarrow> attempt_log list \<Rightarrow> bool" where
  "run_of ro inp aes tried runs \<longleftrightarrow>
     (\<forall>a \<in> set runs. one_attempt ro inp (fst a) (al_streamed a) (al_events a) \<and> chosen_in ro inp aes (fst a)) \<and>
     distinct (tried @ map al_id runs) \<and> (\<forall>a \<in> set (butlast runs). \<not> al_streamed a)"

lemma select_node_Inr:
  assumes "select_node ro inp ae tried = Inr node"
  shows "chosen_in ro inp {ae} node \<and> n_nodeId node \<notin> set tried"
proof -
  obtain rs sel where rs: "ae_list ae = Inr rs"
      and sel: "select (ro_selector ro) (ae_selectAt ae) (ae_draw ae) rs (cr_model (ri_request inp)) tried = Inr sel"
      and node: "node = ns_node sel"
    using assms by (auto simp: select_node_def split: sum.splits prod.splits)
  have "node \<in> set rs" and e: "is_eligible (ro_selector ro) (ae_selectAt ae) tried (cr_model (ri_request inp)) node"
    using select_Inr(1,2) [OF sel] node by simp_all
  moreover have "n_nodeId node \<notin> set tried"
    using e classify_Inr(1) by (auto simp: is_eligible_iff)
  ultimately show ?thesis using rs by (auto simp: chosen_in_def)
qed

lemma chosen_in_mono: "chosen_in ro inp A node \<Longrightarrow> A \<subseteq> B \<Longrightarrow> chosen_in ro inp B node"
  unfolding chosen_in_def by blast

lemma run_of_Nil: "distinct tried \<Longrightarrow> run_of ro inp aes tried []"
  by (simp add: run_of_def)

lemma run_of_Cons:
  assumes "one_attempt ro inp node st e" "chosen_in ro inp {ae} node" "n_nodeId node \<notin> set tried"
    and "run_of ro inp aes (tried @ [n_nodeId node]) runs" "runs \<noteq> [] \<Longrightarrow> \<not> st" "distinct tried"
  shows "run_of ro inp (insert ae aes) tried ((node, st, e) # runs)"
proof -
  have "chosen_in ro inp (insert ae aes) n" if "chosen_in ro inp {ae} n \<or> chosen_in ro inp aes n" for n
    using that chosen_in_mono [of ro inp "{ae}" n "insert ae aes"] chosen_in_mono [of ro inp aes n "insert ae aes"] by blast
  then show ?thesis using assms unfolding run_of_def by (cases "runs = []") auto
qed

text \<open>One turn of the loop, by what the selection and the call return.\<close>

lemma attempts_none:
  "select_node ro inp ae tried = Inl e \<Longrightarrow> attempts ro inp ((n, ae) # ts) tried le k hosts =
     ([], hosts, Inl (if 1 < n \<and> le \<noteq> None then give_up inp tried le else of_exn e))"
  by simp

lemma attempts_served:
  "select_node ro inp ae tried = Inr node \<Longrightarrow> callNode ro inp node ae k hosts = (ev, k', h2, Inr (lat, body)) \<Longrightarrow>
   attempts ro inp ((n, ae) # ts) tried le k hosts = (NodeSelected node # ev, h2,
     Inr \<lparr>rr_node = node, rr_body = body, rr_latencyMs = lat, rr_attempts = n\<rparr>)"
  by (simp add: Let_def)

lemma attempts_fatal:
  "select_node ro inp ae tried = Inr node \<Longrightarrow> callNode ro inp node ae k hosts = (ev, k', h2, Inl e) \<Longrightarrow>
   ae_abortedAfter ae \<or> (ri_sink inp \<and> tk_started k') \<Longrightarrow>
   attempts ro inp ((n, ae) # ts) tried le k hosts =
     (NodeSelected node # ev, h2, Inl (give_up inp (tried @ [n_nodeId node]) (Some e)))"
  by (simp add: Let_def)

lemma attempts_retry:
  "select_node ro inp ae tried = Inr node \<Longrightarrow> callNode ro inp node ae k hosts = (ev, k', h2, Inl e) \<Longrightarrow>
   \<not> (ae_abortedAfter ae \<or> (ri_sink inp \<and> tk_started k')) \<Longrightarrow>
   attempts ro inp ts (tried @ [n_nodeId node]) (Some e) k' h2 = (evs2, rest) \<Longrightarrow>
   attempts ro inp ((n, ae) # ts) tried le k hosts = (NodeSelected node # ev @ evs2, rest)"
  by (simp add: Let_def) blast

text \<open>A call that returns a result has fetched, and streamed if the request streams.\<close>

lemma performCall_served:
  assumes "performCall ro inp node ae new_sink hosts = (evs, k', hosts', Inr b)"
  shows "fetch_of ro inp node \<in> set evs \<and> (ri_sink inp \<longrightarrow> SinkEnd \<in> set evs)"
proof -
  let ?g = "assertRoutableEndpoint (ro_parse ro) (g_allowPrivateNodeEndpoints (ro_config ro))
      (ae_resolve ae) (ae_guardT1 ae) (ae_guardT2 ae) hosts (r_endpoint (n_registration node))"
  obtain h g where g: "?g = (h, g)" by (cases ?g)
  from assms g obtain u where u: "\<not> ae_aborted ae" "g = Inr u"
    by (cases g) (auto simp: performCall_def Let_def split: if_splits)
  with assms g obtain resp where f: "ae_fetch ae = Responded resp"
    by (cases "ae_fetch ae") (auto simp: performCall_def Let_def)
  obtain es k2 r2 where rc: "receive ro inp resp new_sink (n_nodeId node) = (es, k2, r2)" by (metis prod_cases3)
  have e: "evs = fetch_of ro inp node # es" "r2 = Inr b"
    using u g f rc assms by (auto simp: performCall_def fetch_of_def Let_def)
  have "SinkEnd \<in> set es" if "ri_sink inp"
  proof -
    have "\<exists>k3. pumpStream (ro_decoder ro) resp new_sink (n_nodeId node) = (es, k3, None)"
      using rc that e(2) by (auto simp: receive_def split: if_splits prod.splits option.splits)
    then show ?thesis using pumpStream_events by (fastforce simp: streamed_events_def)
  qed
  with e show ?thesis by simp
qed

lemma callNode_served:
  assumes "callNode ro inp node ae new_sink hosts = (evs, k', hosts', Inr lb)"
  shows "fetch_of ro inp node \<in> set evs \<and> (ri_sink inp \<longrightarrow> SinkEnd \<in> set evs)"
proof -
  obtain call k2 h2 r2 where pc: "performCall ro inp node ae new_sink hosts = (call, k2, h2, r2)"
    by (metis prod_cases4)
  have "ae_beginError ae = None" using assms by (cases "ae_beginError ae") (auto simp: callNode_def)
  then have "set call \<subseteq> set evs" "\<exists>b. r2 = Inr b"
    using assms pc by (cases r2; auto simp: callNode_def record_failure_def Let_def split: option.splits)+
  with performCall_served pc show ?thesis by blast
qed

text \<open>A run that returns a result was served by its last attempt.\<close>

definition served_by :: "'d router \<Rightarrow> route_input \<Rightarrow> attempt_log list \<Rightarrow> mesh_error + route_result \<Rightarrow> bool" where
  "served_by ro inp runs r \<longleftrightarrow> (\<forall>res. r = Inr res \<longrightarrow> runs \<noteq> [] \<and> rr_node res = fst (last runs) \<and>
     fetch_of ro inp (fst (last runs)) \<in> set (al_events (last runs)) \<and> (ri_sink inp \<longrightarrow> al_streamed (last runs)))"

lemma served_by_Cons:
  assumes "served_by ro inp runs r"
  shows "served_by ro inp (a # runs) r"
  unfolding served_by_def
proof (intro allI impI)
  fix res
  assume "r = Inr res"
  with assms have "runs \<noteq> []" "rr_node res = fst (last runs) \<and> fetch_of ro inp (fst (last runs)) \<in> set (al_events (last runs)) \<and>
      (ri_sink inp \<longrightarrow> al_streamed (last runs))"
    unfolding served_by_def by blast+
  then show "a # runs \<noteq> [] \<and> rr_node res = fst (last (a # runs)) \<and>
      fetch_of ro inp (fst (last (a # runs))) \<in> set (al_events (last (a # runs))) \<and>
      (ri_sink inp \<longrightarrow> al_streamed (last (a # runs)))"
    by simp
qed

lemma streamed_if_closed: "one_attempt ro inp node st evs \<Longrightarrow> SinkEnd \<in> set evs \<Longrightarrow> st"
  by (auto simp: one_attempt_def call_events_def outcome_calls_def fetch_of_def)

text \<open>
  The call of the endpoint guard an attempt makes, and what it says: the endpoint has the shape of an
  http(s) URL and, unless private endpoints are allowed, the guard accepted it with the host cache it
  had after \<open>hosts\<close> and calls among \<open>seen\<close>.
\<close>

definition guard_call_of :: "attempt_env \<Rightarrow> node_record \<Rightarrow> guard_call" where
  "guard_call_of ae node = \<lparr>gc_raw = r_endpoint (n_registration node), gc_t1 = ae_guardT1 ae, gc_t2 = ae_guardT2 ae,
     gc_resolve = ae_resolve ae\<rparr>"

definition cache_after :: "'d router \<Rightarrow> host_cache \<Rightarrow> guard_call set \<Rightarrow> host_cache \<Rightarrow> bool" where
  "cache_after ro hosts seen cache \<longleftrightarrow> g_allowPrivateNodeEndpoints (ro_config ro) \<or>
     (\<exists>gs. set gs \<subseteq> seen \<and> cache = guard_run (ro_parse ro) hosts gs)"

definition guarded :: "'d router \<Rightarrow> host_cache \<Rightarrow> attempt_env \<Rightarrow> node_record \<Rightarrow> bool" where
  "guarded ro cache ae node \<longleftrightarrow> (\<exists>u. assertHttpUrlShape (ro_parse ro) (r_endpoint (n_registration node)) = Inr u \<and>
     (g_allowPrivateNodeEndpoints (ro_config ro) \<or>
      (\<exists>cache'. guard_step (ro_parse ro) cache (guard_call_of ae node) = (cache', Inr u))))"

lemma guard_of_attempt:
  "\<not> g_allowPrivateNodeEndpoints (ro_config ro) \<Longrightarrow>
   assertRoutableEndpoint (ro_parse ro) (g_allowPrivateNodeEndpoints (ro_config ro)) (ae_resolve ae) (ae_guardT1 ae)
     (ae_guardT2 ae) cache (r_endpoint (n_registration node)) = guard_step (ro_parse ro) cache (guard_call_of ae node)"
  by (simp add: guard_step_def guard_call_of_def)

lemma performCall_guard:
  assumes "performCall ro inp node ae k cache = (evs, k', cache', r)"
  shows "(Fetch u a b \<in> set evs \<longrightarrow> guarded ro cache ae node) \<and>
    (g_allowPrivateNodeEndpoints (ro_config ro) \<or> cache' = cache \<or> cache' = fst (guard_step (ro_parse ro) cache (guard_call_of ae node)))"
proof (cases "ae_aborted ae")
  case False
  let ?g = "assertRoutableEndpoint (ro_parse ro) (g_allowPrivateNodeEndpoints (ro_config ro))
      (ae_resolve ae) (ae_guardT1 ae) (ae_guardT2 ae) cache (r_endpoint (n_registration node))"
  obtain h g where g: "?g = (h, g)" by (cases ?g)
  have h: "g_allowPrivateNodeEndpoints (ro_config ro) \<or> h = fst (guard_step (ro_parse ro) cache (guard_call_of ae node))"
    using guard_of_attempt [of ro ae cache node] g by (metis fst_conv)
  show ?thesis
  proof (cases g)
    case (Inl e)
    then show ?thesis using False g h assms by (auto simp: performCall_def)
  next
    case (Inr v)
    have "guarded ro cache ae node"
      using guard_passed [OF g [unfolded Inr]] guard_of_attempt [of ro ae cache node] g Inr by (auto simp: guarded_def)
    then show ?thesis using False g h Inr assms
      by (auto simp: performCall_def Let_def split: fetch_reply.splits prod.splits)
  qed
qed (use assms in \<open>auto simp: performCall_def\<close>)

lemma callNode_guard:
  assumes "callNode ro inp node ae k cache = (evs, k', cache', r)"
  shows "(Fetch u a b \<in> set evs \<longrightarrow> guarded ro cache ae node) \<and>
    (g_allowPrivateNodeEndpoints (ro_config ro) \<or> cache' = cache \<or> cache' = fst (guard_step (ro_parse ro) cache (guard_call_of ae node)))"
proof (cases "ae_beginError ae")
  case (Some e)
  then show ?thesis using assms by (auto simp: callNode_def)
next
  case None
  obtain call k2 h2 r2 where pc: "performCall ro inp node ae k cache = (call, k2, h2, r2)" by (metis prod_cases4)
  have "cache' = h2 \<and> (Fetch u a b \<in> set evs \<longrightarrow> Fetch u a b \<in> set call)"
    using assms None pc
    by (cases r2; cases "ae_recordError ae")
      (auto simp: callNode_def record_failure_def outcome_event_def Let_def)
  with performCall_guard [OF pc] show ?thesis by blast
qed

lemma guard_run_snoc: "guard_run parse cache (gs @ [g]) = fst (guard_step parse (guard_run parse cache gs) g)"
  by (induction gs arbitrary: cache) simp_all

lemma cache_after_call:
  assumes "cache_after ro hosts seen cache" "callNode ro inp node ae k cache = (evs, k', cache', r)"
  shows "cache_after ro hosts (seen \<union> range (guard_call_of ae)) cache'"
proof (cases "g_allowPrivateNodeEndpoints (ro_config ro)")
  case False
  obtain gs where gs: "set gs \<subseteq> seen" "cache = guard_run (ro_parse ro) hosts gs"
    using assms(1) False by (auto simp: cache_after_def)
  have "cache' = guard_run (ro_parse ro) hosts gs \<or> cache' = guard_run (ro_parse ro) hosts (gs @ [guard_call_of ae node])"
    using callNode_guard [OF assms(2)] False unfolding guard_run_snoc gs(2) by blast
  moreover have "set gs \<subseteq> seen \<union> range (guard_call_of ae)"
    "set (gs @ [guard_call_of ae node]) \<subseteq> seen \<union> range (guard_call_of ae)" using gs(1) by auto
  ultimately show ?thesis unfolding cache_after_def by blast
qed (simp add: cache_after_def)

text \<open>The \<open>i\<close>-th attempt of a run goes by the \<open>i\<close>-th environment: its list, its guard call.\<close>

fun own_attempts ::
  "'d router \<Rightarrow> route_input \<Rightarrow> host_cache \<Rightarrow> guard_call set \<Rightarrow> attempt_env list \<Rightarrow> attempt_log list \<Rightarrow> bool" where
  "own_attempts ro inp hosts seen aes [] = True"
| "own_attempts ro inp hosts seen [] (l # ls) = False"
| "own_attempts ro inp hosts seen (ae # aes) (l # ls) =
     (chosen_in ro inp {ae} (fst l) \<and>
      (\<forall>u a b. Fetch u a b \<in> set (al_events l) \<longrightarrow> (\<exists>cache. cache_after ro hosts seen cache \<and> guarded ro cache ae (fst l))) \<and>
      own_attempts ro inp hosts (seen \<union> range (guard_call_of ae)) aes ls)"

lemma attempts_run:
  assumes "attempts ro inp tries tried le new_sink hosts = (evs, hosts', r)" "distinct tried" "cache_after ro base seen hosts"
  shows "\<exists>runs. evs = concat (map al_events runs) \<and> length runs \<le> length tries \<and>
    run_of ro inp (snd ` set tries) tried runs \<and> served_by ro inp runs r \<and>
    own_attempts ro inp base seen (map snd tries) runs"
  using assms
proof (induction tries arbitrary: tried le hosts evs hosts' r seen)
  case Nil
  then show ?case by (intro exI [of _ "[]"]) (auto simp: served_by_def run_of_Nil)
next
  case (Cons t tries)
  obtain n ae where t: "t = (n, ae)" by (cases t)
  show ?case
  proof (cases "select_node ro inp ae tried")
    case (Inl e)
    have "evs = []" "\<exists>x. r = Inl x" using Cons.prems(1) unfolding t attempts_none [OF Inl] by auto
    with Cons.prems(2) show ?thesis by (intro exI [of _ "[]"]) (auto simp: served_by_def run_of_Nil)
  next
    case (Inr node)
    note sel = select_node_Inr [OF Inr]
    obtain ev k' h2 r2 where cn: "callNode ro inp node ae new_sink hosts = (ev, k', h2, r2)"
      by (metis prod_cases4)
    obtain st where one: "one_attempt ro inp node st (NodeSelected node # ev)"
        and k: "st \<longrightarrow> tk_started k'" "\<not> st \<longrightarrow> k' = new_sink"
      using callNode_events [OF cn] by blast
    have d: "distinct (tried @ [n_nodeId node])" using sel Cons.prems(2) by simp
    let ?one = "(node, st, NodeSelected node # ev)"
    have own: "own_attempts ro inp base seen (map snd (t # tries)) (?one # ls) \<longleftrightarrow>
        own_attempts ro inp base (seen \<union> range (guard_call_of ae)) (map snd tries) ls" for ls
      using sel callNode_guard [OF cn] Cons.prems(3) t by auto
    have alone: "run_of ro inp (snd ` set (t # tries)) tried [?one]"
      using run_of_Cons [OF one _ _ run_of_Nil [OF d], where ae = ae and aes = "snd ` set tries"]
        sel Cons.prems(2) t by simp
    show ?thesis
    proof (cases "\<exists>e. r2 = Inl e \<and> \<not> (ae_abortedAfter ae \<or> (ri_sink inp \<and> tk_started k'))")
      case False
      have ev: "evs = NodeSelected node # ev \<and> served_by ro inp [?one] r"
      proof (cases r2)
        case (Inr lb)
        obtain lat body where lb: "lb = (lat, body)" by (cases lb)
        have e: "evs = NodeSelected node # ev"
            "r = Inr \<lparr>rr_node = node, rr_body = body, rr_latencyMs = lat, rr_attempts = n\<rparr>"
          using Cons.prems(1) unfolding t attempts_served [OF \<open>select_node ro inp ae tried = Inr node\<close> cn [unfolded Inr lb]]
          by simp_all
        have "ri_sink inp \<longrightarrow> st" using callNode_served [OF cn [unfolded Inr]] streamed_if_closed [OF one] by auto
        then show ?thesis using callNode_served [OF cn [unfolded Inr]] e by (simp add: served_by_def)
      next
        case (Inl e)
        with False have fatal: "ae_abortedAfter ae \<or> (ri_sink inp \<and> tk_started k')" by simp
        have "evs = NodeSelected node # ev" "r = Inl (give_up inp (tried @ [n_nodeId node]) (Some e))"
          using Cons.prems(1) unfolding t attempts_fatal [OF \<open>select_node ro inp ae tried = Inr node\<close> cn [unfolded Inl] fatal]
          by simp_all
        then show ?thesis by (simp add: served_by_def)
      qed
      with ev alone own [of "[]"] show ?thesis by (intro exI [of _ "[?one]"]) simp
    next
      case True
      then obtain e where e: "r2 = Inl e" "\<not> (ae_abortedAfter ae \<or> (ri_sink inp \<and> tk_started k'))" by blast
      have "\<not> st"
      proof
        assume st
        then have "ri_sink inp" using one by (auto simp: one_attempt_def call_events_def)
        with k \<open>st\<close> e show False by simp
      qed
      with k have new: "k' = new_sink" by simp
      obtain evs2 rest where a2: "attempts ro inp tries (tried @ [n_nodeId node]) (Some e) new_sink h2 = (evs2, rest)"
        by (metis prod.exhaust)
      obtain h3 r3 where rest: "rest = (h3, r3)" by (cases rest)
      obtain runs where runs: "evs2 = concat (map al_events runs)" "length runs \<le> length tries"
          "run_of ro inp (snd ` set tries) (tried @ [n_nodeId node]) runs" "served_by ro inp runs r3"
          "own_attempts ro inp base (seen \<union> range (guard_call_of ae)) (map snd tries) runs"
        using Cons.IH [OF a2 [unfolded rest] d cache_after_call [OF Cons.prems(3) cn]] by blast
      have ev: "evs = NodeSelected node # ev @ evs2" and r3: "r3 = r"
        using Cons.prems(1) unfolding t attempts_retry [OF Inr cn [unfolded e(1)] e(2) a2 [folded new]] rest
        by simp_all
      have "run_of ro inp (snd ` set (t # tries)) tried (?one # runs)"
        using run_of_Cons [OF one _ _ runs(3), where ae = ae] sel \<open>\<not> st\<close> Cons.prems(2) t by simp
      moreover have "served_by ro inp (?one # runs) r" using served_by_Cons runs(4) r3 by blast
      ultimately show ?thesis using runs ev own [of runs] by (intro exI [of _ "?one # runs"]) simp
    qed
  qed
qed

lemma route_run:
  assumes "route ro inp ae1 ae2 hosts = (evs, hosts', r)"
  obtains runs where "evs = concat (map al_events runs)" "length runs \<le> 2" "run_of ro inp {ae1, ae2} [] runs"
    "served_by ro inp runs r" "own_attempts ro inp hosts {} [ae1, ae2] runs"
proof -
  have "cache_after ro hosts {} hosts" by (auto simp: cache_after_def intro: exI [of _ "[]"])
  from attempts_run [OF assms [unfolded route_def] _ this] that show thesis by auto
qed

subsection \<open>The in-flight slots\<close>

lemma fold_no_store_call:
  "(\<And>ev. ev \<in> set evs \<Longrightarrow> \<not> store_call ev) \<Longrightarrow> fold (apply_call bgn rcd fin) evs s = s"
proof (induction evs arbitrary: s)
  case (Cons ev evs)
  have "apply_call bgn rcd fin ev s = s" using Cons.prems [of ev] by (cases ev) simp_all
  with Cons show ?case by simp
qed simp

lemma call_events_no_store:
  assumes "call_events ro inp node st evs" "ev \<in> set evs"
  shows "\<not> store_call ev \<and> ev \<noteq> NodeSelected k"
  using assms by (auto simp: call_events_def streamed_events_def fetch_of_def)

context node_store
begin

lemma attempt_balanced:
  assumes "one_attempt ro inp node st evs" "\<forall>ev \<in> set evs. resolved ev" "invar s"
  defines "s' \<equiv> fold (apply_call begin_request record_outcome end_request) evs s"
  shows "invar s' \<and> map_option in_flight (get s' k) = map_option in_flight (get s k)"
proof -
  have "evs \<noteq> [NodeSelected node, BeginRequest (n_nodeId node) False]" using assms(2) by auto
  then obtain call outcome ok where c: "call_events ro inp node st call"
      and o: "outcome_calls (n_nodeId node) outcome"
      and e: "evs = NodeSelected node # BeginRequest (n_nodeId node) True #
          call @ outcome @ [EndRequest (n_nodeId node) ok]"
    using assms(1) by (auto simp: one_attempt_def)
  have "ok" using assms(2) e by simp
  obtain ou where ou: "outcome = [RecordOutcome (n_nodeId node) ou True]"
    using o assms(2) e by (auto simp: outcome_calls_def)
  have f: "fold (apply_call begin_request record_outcome end_request) call x = x" for x
    using call_events_no_store [OF c] by (intro fold_no_store_call) blast
  have "s' = end_request (n_nodeId node) (record_outcome (n_nodeId node) ou (begin_request (n_nodeId node) s))"
    using \<open>ok\<close> by (simp add: s'_def e ou f)
  then show ?thesis
    using bracket_in_flight [OF assms(3)] invar_end [OF invar_outcome [OF invar_begin [OF assms(3)]]] by simp
qed

lemma run_balanced:
  assumes "run_of ro inp aes tried runs" "\<forall>a \<in> set runs. \<forall>ev \<in> set (al_events a). resolved ev" "invar s"
  defines "s' \<equiv> fold (apply_call begin_request record_outcome end_request) (concat (map al_events runs)) s"
  shows "invar s' \<and> map_option in_flight (get s' k) = map_option in_flight (get s k)"
proof -
  have one: "\<forall>a \<in> set runs. one_attempt ro inp (fst a) (al_streamed a) (al_events a)"
    using assms(1) by (simp add: run_of_def)
  show ?thesis using one assms(2,3) unfolding s'_def
  proof (induction runs arbitrary: s)
    case (Cons a runs)
    have "one_attempt ro inp (fst a) (al_streamed a) (al_events a)" "\<forall>ev \<in> set (al_events a). resolved ev"
      using Cons.prems by simp_all
    note b = attempt_balanced [OF this Cons.prems(3)]
    show ?case using Cons.IH b Cons.prems by simp
  qed simp
qed

end

subsection \<open>A run\<close>

definition ex_decoder :: "unit text_decoder" where
  "ex_decoder = \<lparr>td_new = (), td_decode = (\<lambda>d b. (''d:'', ())), td_flush = (\<lambda>d. [])\<rparr>"

definition ex_router :: "unit router" where
  "ex_router = \<lparr>ro_config = ex_config, ro_selector = ex_cfg,
     ro_parse = (\<lambda>s. Some ex_url), ro_decoder = ex_decoder, ro_json = (\<lambda>s. None)\<rparr>"

definition ex_input :: route_input where
  "ex_input = \<lparr>ri_requestId = ''r'', ri_request = \<lparr>cr_model = ''m'', cr_messages = [], cr_stream = Some True,
     cr_max_tokens = None, cr_temperature = None, cr_top_p = None, cr_stop = None\<rparr>, ri_sink = True\<rparr>"

definition ex_attempt :: "fetch_reply \<Rightarrow> attempt_env" where
  "ex_attempt f = \<lparr>ae_list = Inr [ex_node ''a''], ae_selectAt = Fin 150, ae_draw = Fin 0, ae_startedAt = Fin 150,
     ae_doneAt = Fin 160, ae_failedAt = Fin 160, ae_outcomeAt = Fin 160, ae_aborted = False, ae_abortedAfter = False,
     ae_guardT1 = 0, ae_guardT2 = 0, ae_resolve = (\<lambda>h. None), ae_fetch = f, ae_beginError = None,
     ae_recordError = None, ae_recordFailureError = None, ae_endError = None\<rparr>"

definition ex_reply :: fetch_reply where
  "ex_reply = Responded \<lparr>hr_status = 200, hr_contentType = None, hr_body = Some [Data [0x64, 0x3a], NoValue]\<rparr>"

definition ex_events :: "route_event list" where
  "ex_events = [NodeSelected (ex_node ''a''), BeginRequest ''a'' True, fetch_of ex_router ex_input (ex_node ''a''),
     SinkBegin ''text/event-stream'', SinkWrite [0x64, 0x3a], SinkWrite (utf8 DONE_FRAME), SinkEnd,
     outcome_event (ex_attempt ex_reply) ''a'' True (Fin 160) None, EndRequest ''a'' True]"

lemma ex_select_node: "select_node ex_router ex_input (ex_attempt f) [] = Inr (ex_node ''a'')"
proof -
  have "\<exists>v. select ex_cfg (Fin 150) (Fin 0) [ex_node ''a''] ''m'' [] = Inr v"
    by (rule select_ok [where r = "ex_node ''a''"]) (simp_all add: DEFAULT_WEIGHTS_good ex_eligible)
  then obtain v where v: "select ex_cfg (Fin 150) (Fin 0) [ex_node ''a''] ''m'' [] = Inr v" by blast
  from select_Inr(1) [OF v] v show ?thesis
    by (simp add: select_node_def ex_router_def ex_input_def ex_attempt_def)
qed

lemma ex_guard: "assertRoutableEndpoint (\<lambda>s. Some ex_url) True res t1 t2 [] raw = ([], Inr ex_url)"
  by (simp add: assertRoutableEndpoint_def assertHttpUrlShape_def ex_url_def)

lemma ex_pump: "pump_reads ex_decoder () [] 0 [Data [0x64, 0x3a], NoValue] = ([SinkWrite [0x64, 0x3a]], ''d:'', None)"
  by (simp add: ex_decoder_def MAX_STREAM_BODY_BYTES_def slice_last_def)

lemma ex_stream: "pumpStream ex_decoder \<lparr>hr_status = 200, hr_contentType = None, hr_body = Some [Data [0x64, 0x3a], NoValue]\<rparr> new_sink k =
  ([SinkBegin ''text/event-stream'', SinkWrite [0x64, 0x3a], SinkWrite (utf8 DONE_FRAME), SinkEnd],
   \<lparr>tk_started = True, tk_ended = True\<rparr>, None)"
  using ex_pump by (simp add: pumpStream_def sink_begin_def sink_end_def new_sink_def ex_decoder_def starts_with_def)

lemma ex_fields [simp]:
  "ro_config ex_router = ex_config" "ro_parse ex_router = (\<lambda>s. Some ex_url)" "ro_decoder ex_router = ex_decoder"
  "ri_sink ex_input" "ae_aborted (ex_attempt f) = False" "ae_fetch (ex_attempt f) = f"
  "ae_beginError (ex_attempt f) = None" "ae_recordError (ex_attempt f) = None" "ae_endError (ex_attempt f) = None"
  "ae_doneAt (ex_attempt f) = Fin 160" "ae_startedAt (ex_attempt f) = Fin 150" "g_allowPrivateNodeEndpoints ex_config"
  by (simp_all add: ex_router_def ex_input_def ex_attempt_def ex_config_def)

lemma ex_perform: "performCall ex_router ex_input (ex_node ''a'') (ex_attempt ex_reply) new_sink [] =
  ([fetch_of ex_router ex_input (ex_node ''a''), SinkBegin ''text/event-stream'', SinkWrite [0x64, 0x3a],
    SinkWrite (utf8 DONE_FRAME), SinkEnd], \<lparr>tk_started = True, tk_ended = True\<rparr>, [], Inr None)"
  by (simp add: performCall_def Let_def ex_guard ex_reply_def receive_def response_ok_def ex_stream fetch_of_def)

lemma ex_call: "callNode ex_router ex_input (ex_node ''a'') (ex_attempt ex_reply) new_sink [] =
  (tl ex_events, \<lparr>tk_started = True, tk_ended = True\<rparr>, [], Inr (js_sub (Fin 160) (Fin 150), None))"
  by (simp add: callNode_def ex_perform ex_events_def Let_def)

lemma ex_route: "\<exists>res. route ex_router ex_input (ex_attempt ex_reply) (ex_attempt ex_reply) [] = (ex_events, [], Inr res)"
  using ex_call by (simp add: route_def ex_select_node) (simp add: ex_events_def)

text \<open>
  C24: Routing a request leaves the in-flight counter of every node of the in-memory store where it was,
  whatever the upstream does (an error status, a broken stream, a timeout, a failover to a second node),
  as long as the store's own calls resolve.
\<close>

theorem routing_returns_slots:
  assumes "route ro inp ae1 ae2 hosts = (evs, hosts', r)" "\<forall>ev \<in> set evs. resolved ev" "mem_inv s"
  defines "s' \<equiv> fold (apply_call mem_beginRequest mem_recordOutcome mem_endRequest) evs s"
  shows "mem_inv s' \<and> map_option in_flight (mem_get s' k) = map_option in_flight (mem_get s k)"
proof -
  obtain runs where r: "evs = concat (map al_events runs)" "run_of ro inp {ae1, ae2} [] runs"
    using assms(1) by (rule route_run)
  have "\<forall>a \<in> set runs. \<forall>ev \<in> set (al_events a). resolved ev" using assms(2) r(1) by auto
  from mem.run_balanced [OF r(2) this assms(3)] show ?thesis unfolding s'_def r(1) .
qed

lemma routing_returns_slots_witness:
  "mem_inv (fold (apply_call mem_beginRequest mem_recordOutcome mem_endRequest) ex_events mem_empty)"
proof -
  obtain res where r: "route ex_router ex_input (ex_attempt ex_reply) (ex_attempt ex_reply) [] = (ex_events, [], Inr res)"
    using ex_route by blast
  have "\<forall>ev \<in> set ex_events. resolved ev" by (simp add: ex_events_def fetch_of_def outcome_event_def)
  moreover have "mem_inv mem_empty" by (simp add: mem_inv_def mem_empty_def)
  ultimately show ?thesis using routing_returns_slots [OF r] by blast
qed

subsection \<open>Which nodes are tried\<close>

lemma selected_append [simp]: "selected (xs @ ys) = selected xs @ selected ys"
  by (induction xs rule: selected.induct) simp_all

lemma selected_none: "(\<And>ev k. ev \<in> set evs \<Longrightarrow> ev \<noteq> NodeSelected k) \<Longrightarrow> selected evs = []"
  by (induction evs rule: selected.induct) auto

lemma selected_attempt: "one_attempt ro inp node st evs \<Longrightarrow> selected evs = [n_nodeId node]"
  using selected_none call_events_no_store
  by (fastforce simp: one_attempt_def outcome_calls_def)

lemma selected_run:
  "\<forall>a \<in> set runs. one_attempt ro inp (fst a) (al_streamed a) (al_events a) \<Longrightarrow>
   selected (concat (map al_events runs)) = map al_id runs"
  by (induction runs) (auto simp: selected_attempt)

text \<open>
  The node was in the list the selector read for the attempt, has the price and the free slot, serves the
  model and is routable: on the right network, not stale, healthy and opted in to USDC.
\<close>

definition eligible_for :: "'d router \<Rightarrow> route_input \<Rightarrow> attempt_env \<Rightarrow> node_record \<Rightarrow> bool" where
  "eligible_for ro inp ae node \<longleftrightarrow> (\<exists>rs. ae_list ae = Inr rs \<and> node \<in> set rs) \<and>
     unroutableReason node \<lparr>ro_network = sel_network (ro_selector ro), ro_staleAfterMs = sel_staleAfterMs (ro_selector ro),
       ro_now = ae_selectAt ae\<rparr> = None \<and>
     h_healthy (n_health node) \<and> n_usdcOptedIn node \<and> h_inFlight (n_health node) < h_maxConcurrency (n_health node) \<and>
     serves_model (cr_model (ri_request inp)) node \<and> nodePriceAtomic node (cr_model (ri_request inp)) \<noteq> None"

lemma chosen_eligible: "chosen_in ro inp {ae} node \<Longrightarrow> eligible_for ro inp ae node"
  unfolding chosen_in_def eligible_for_def is_eligible_iff unroutableReason_def
  by (auto simp: classify_Inr)

fun is_fetch :: "route_event \<Rightarrow> bool" where
  "is_fetch (Fetch u a b) = True"
| "is_fetch _ = False"

lemma fetches_attempt:
  assumes "one_attempt ro inp node st evs"
  shows "filter is_fetch evs = [] \<or> filter is_fetch evs = [fetch_of ro inp node]"
proof -
  have o: "filter is_fetch outcome = []" if "outcome_calls k outcome" for outcome k
    using that by (auto simp: outcome_calls_def)
  have w: "filter is_fetch (map SinkWrite ws) = []" for ws by (induction ws) simp_all
  have c: "filter is_fetch call = [] \<or> filter is_fetch call = [fetch_of ro inp node]" if "call_events ro inp node st call" for call
    using that by (auto simp: call_events_def streamed_events_def fetch_of_def w)
  show ?thesis using assms by (auto simp: one_attempt_def o dest: c)
qed

lemma fetches_run:
  "\<forall>a \<in> set runs. one_attempt ro inp (fst a) (al_streamed a) (al_events a) \<Longrightarrow>
   subseq (filter is_fetch (concat (map al_events runs))) (map (fetch_of ro inp) (map fst runs))"
proof (induction runs)
  case (Cons a runs)
  then have "subseq (filter is_fetch (al_events a)) [fetch_of ro inp (fst a)]"
    using fetches_attempt [of ro inp "fst a" "al_streamed a" "al_events a"] by auto
  from list_emb_append_mono [OF this Cons.IH] Cons.prems show ?case by simp
qed simp

lemma own_attempts_chosen:
  "own_attempts ro inp hosts seen aes runs \<Longrightarrow> i < length runs \<Longrightarrow>
   i < length aes \<and> chosen_in ro inp {aes ! i} (fst (runs ! i))"
proof (induction ro inp hosts seen aes runs arbitrary: i rule: own_attempts.induct)
  case (3 ro inp hosts seen ae aes l ls)
  then show ?case by (cases i) auto
qed simp_all

text \<open>
  C26: A request is sent to at most two nodes, never to one node twice: the upstream requests go, in
  order and at most one each, to the nodes selected, which are at most two, with distinct ids. The
  node of the first attempt was eligible (listed, routable, below its cap, serving the model at a
  price) in the list read for the first attempt, the node of the second in the list read for the second.
\<close>

theorem routed_nodes_distinct_eligible:
  assumes "route ro inp ae1 ae2 hosts = (evs, hosts', r)"
  shows "\<exists>nodes. selected evs = map n_nodeId nodes \<and> distinct (map n_nodeId nodes) \<and> length nodes \<le> 2 \<and>
    subseq (filter is_fetch evs) (map (fetch_of ro inp) nodes) \<and>
    (\<forall>i < length nodes. eligible_for ro inp ([ae1, ae2] ! i) (nodes ! i))"
proof -
  obtain runs where r: "evs = concat (map al_events runs)" "length runs \<le> 2" "run_of ro inp {ae1, ae2} [] runs"
      "own_attempts ro inp hosts {} [ae1, ae2] runs"
    using assms by (rule route_run)
  have one: "\<forall>a \<in> set runs. one_attempt ro inp (fst a) (al_streamed a) (al_events a)"
    using r(3) by (simp add: run_of_def)
  have "eligible_for ro inp ([ae1, ae2] ! i) (fst (runs ! i))" if "i < length runs" for i
    using own_attempts_chosen [OF r(4) that] chosen_eligible by blast
  then show ?thesis
    using r(2,3) selected_run [OF one] fetches_run [OF one]
    by (intro exI [of _ "map fst runs"]) (simp add: r(1) run_of_def comp_def)
qed

lemma routed_nodes_distinct_eligible_witness:
  "\<exists>nodes. map n_nodeId nodes = selected ex_events \<and> eligible_for ex_router ex_input (ex_attempt ex_reply) (nodes ! 0)"
proof -
  obtain res where "route ex_router ex_input (ex_attempt ex_reply) (ex_attempt ex_reply) [] = (ex_events, [], Inr res)"
    using ex_route by blast
  from routed_nodes_distinct_eligible [OF this] obtain nodes where
    n: "selected ex_events = map n_nodeId nodes"
      "\<forall>i < length nodes. eligible_for ex_router ex_input ([ex_attempt ex_reply, ex_attempt ex_reply] ! i) (nodes ! i)"
    by blast
  have "nodes \<noteq> []" using n(1) by (auto simp: ex_events_def)
  with n show ?thesis by (intro exI [of _ nodes]) auto
qed

subsection \<open>The client's stream\<close>

lemma streamed_attempt:
  assumes "one_attempt ro inp node True evs"
  obtains ct pre ws post where "evs = pre @ SinkBegin ct # map SinkWrite ws @ SinkEnd # post"
    "\<forall>ev \<in> set pre. \<not> sink_call ev" "\<forall>ev \<in> set post. store_call ev"
proof -
  obtain call outcome ok where c: "call_events ro inp node True call" "outcome_calls (n_nodeId node) outcome"
      and e: "evs = NodeSelected node # BeginRequest (n_nodeId node) True # call @ outcome @ [EndRequest (n_nodeId node) ok]"
    using assms by (auto simp: one_attempt_def)
  obtain ct ws where "call = fetch_of ro inp node # SinkBegin ct # map SinkWrite ws @ [SinkEnd]"
    using c(1) by (auto simp: call_events_def streamed_events_def)
  with c(2) e show thesis
    by (intro that [of "[NodeSelected node, BeginRequest (n_nodeId node) True, fetch_of ro inp node]"
          ct ws "outcome @ [EndRequest (n_nodeId node) ok]"])
      (auto simp: fetch_of_def outcome_calls_def)
qed

lemma unstreamed_attempt: "one_attempt ro inp node False evs \<Longrightarrow> ev \<in> set evs \<Longrightarrow> \<not> sink_call ev"
  by (auto simp: one_attempt_def call_events_def outcome_calls_def fetch_of_def)

text \<open>Every sink call of a run belongs to its last attempt.\<close>

lemma run_stream:
  assumes "run_of ro inp aes tried runs" "SinkBegin ct \<in> set (concat (map al_events runs))"
  obtains pre ws post where "concat (map al_events runs) = pre @ SinkBegin ct # map SinkWrite ws @ SinkEnd # post"
    "\<forall>ev \<in> set pre. \<not> sink_call ev" "\<forall>ev \<in> set post. store_call ev"
proof -
  have ne: "runs \<noteq> []" using assms(2) by auto
  then have split: "runs = butlast runs @ [last runs]" by simp
  have bl: "\<not> sink_call ev" if "ev \<in> set (concat (map al_events (butlast runs)))" for ev
  proof -
    have "\<exists>a \<in> set (butlast runs). ev \<in> set (al_events a)" using that by simp
    then obtain a where a: "a \<in> set (butlast runs)" "ev \<in> set (al_events a)" by blast
    then have "one_attempt ro inp (fst a) False (al_events a)"
      using assms(1) in_set_butlastD [OF a(1)] by (auto simp: run_of_def)
    with a(2) show ?thesis using unstreamed_attempt by blast
  qed
  have all: "concat (map al_events runs) = concat (map al_events (butlast runs)) @ al_events (last runs)"
    by (subst split) simp
  with assms(2) bl have mem: "SinkBegin ct \<in> set (al_events (last runs))" by fastforce
  have one: "one_attempt ro inp (fst (last runs)) (al_streamed (last runs)) (al_events (last runs))"
    using assms(1) ne by (simp add: run_of_def)
  with mem have "al_streamed (last runs)" using unstreamed_attempt by (cases "al_streamed (last runs)") fastforce+
  with one have "one_attempt ro inp (fst (last runs)) True (al_events (last runs))" by simp
  then obtain ct' pre ws post where e: "al_events (last runs) = pre @ SinkBegin ct' # map SinkWrite ws @ SinkEnd # post"
    and q: "\<forall>ev \<in> set pre. \<not> sink_call ev" "\<forall>ev \<in> set post. store_call ev"
    by (rule streamed_attempt)
  have "ct' = ct" using mem e q by auto
  with all e q bl show thesis
    by (intro that [of "concat (map al_events (butlast runs)) @ pre" ws post]) auto
qed

text \<open>
  The node a run's answer came from: the last one selected, and the last one a request was sent to; nothing
  had been written to the client before it was selected.
\<close>

definition last_source :: "'d router \<Rightarrow> route_input \<Rightarrow> route_event list \<Rightarrow> node_record \<Rightarrow> bool" where
  "last_source ro inp evs node \<longleftrightarrow> (\<exists>pre post.
     evs = pre @ [NodeSelected node, BeginRequest (n_nodeId node) True, fetch_of ro inp node] @ post \<and>
     (\<forall>ev \<in> set pre. \<not> sink_call ev) \<and> selected post = [] \<and> filter is_fetch post = [])"

fun writes_of :: "route_event list \<Rightarrow> 8 word list list" where
  "writes_of [] = []"
| "writes_of (SinkWrite v # evs) = v # writes_of evs"
| "writes_of (_ # evs) = writes_of evs"

lemma writes_of_append [simp]: "writes_of (xs @ ys) = writes_of xs @ writes_of ys"
  by (induction xs rule: writes_of.induct) simp_all

lemma writes_of_writes [simp]: "writes_of (map SinkWrite ws) = ws"
  by (induction ws) simp_all

lemma writes_of_none: "\<forall>ev \<in> set evs. \<not> sink_call ev \<Longrightarrow> writes_of evs = []"
  by (induction evs rule: writes_of.induct) auto

lemma attempt_source:
  assumes "one_attempt ro inp node st evs" "fetch_of ro inp node \<in> set evs"
  obtains post where "evs = [NodeSelected node, BeginRequest (n_nodeId node) True, fetch_of ro inp node] @ post"
    "selected post = []" "filter is_fetch post = []"
proof -
  obtain call outcome ok where c: "call_events ro inp node st call" "outcome_calls (n_nodeId node) outcome"
      and e: "evs = NodeSelected node # BeginRequest (n_nodeId node) True # call @ outcome @ [EndRequest (n_nodeId node) ok]"
    using assms by (auto simp: one_attempt_def fetch_of_def)
  have o: "selected outcome = []" "filter is_fetch outcome = []" "fetch_of ro inp node \<notin> set outcome"
    using c(2) by (auto simp: outcome_calls_def fetch_of_def)
  obtain es where es: "call = fetch_of ro inp node # es" "es = [] \<or> streamed_events es"
    using c(1) assms(2) e o(3) by (auto simp: call_events_def fetch_of_def)
  have "filter is_fetch (map SinkWrite ws) = []" "selected (map SinkWrite ws) = []" for ws by (induction ws) simp_all
  then have "selected es = [] \<and> filter is_fetch es = []" using es(2) by (auto simp: streamed_events_def)
  with e es(1) o show thesis by (intro that [of "es @ outcome @ [EndRequest (n_nodeId node) ok]"]) simp_all
qed

lemma run_source:
  assumes "run_of ro inp aes tried runs" "runs \<noteq> []" "fetch_of ro inp (fst (last runs)) \<in> set (al_events (last runs))"
  shows "last_source ro inp (concat (map al_events runs)) (fst (last runs))"
proof -
  have "one_attempt ro inp (fst (last runs)) (al_streamed (last runs)) (al_events (last runs))"
    using assms(1,2) by (simp add: run_of_def)
  from attempt_source [OF this assms(3)] obtain post where p:
    "al_events (last runs) = [NodeSelected (fst (last runs)), BeginRequest (al_id (last runs)) True,
       fetch_of ro inp (fst (last runs))] @ post" "selected post = []" "filter is_fetch post = []"
    by blast
  have bl: "\<not> sink_call ev" if "ev \<in> set (concat (map al_events (butlast runs)))" for ev
  proof -
    have "\<exists>a \<in> set (butlast runs). ev \<in> set (al_events a)" using that by simp
    then obtain a where a: "a \<in> set (butlast runs)" "ev \<in> set (al_events a)" by blast
    then have "one_attempt ro inp (fst a) False (al_events a)"
      using assms(1) in_set_butlastD [OF a(1)] by (auto simp: run_of_def)
    with a(2) show ?thesis using unstreamed_attempt by blast
  qed
  have split: "runs = butlast runs @ [last runs]" using assms(2) by simp
  have "concat (map al_events runs) = concat (map al_events (butlast runs)) @ al_events (last runs)"
    by (subst split) simp
  then show ?thesis using p bl unfolding last_source_def
    by (intro exI [of _ "concat (map al_events (butlast runs))"] exI [of _ post]) simp
qed

lemma unique_split:
  assumes "xs @ x # ys = us @ x # vs" "x \<notin> set us" "x \<notin> set vs"
  shows "ys = vs"
  using assms append_Cons_eq_iff [of x us vs xs ys] by metis

text \<open>
  C25: Once a byte of the response can have reached the client there is no failover: after the
  stream is opened the router selects no other node, issues no other fetch and does not open the
  stream again; what the client still gets are writes of that node's stream and one end.
\<close>

theorem no_failover_after_stream_opens:
  assumes "route ro inp ae1 ae2 hosts = (evs, hosts', r)" "evs = pre @ SinkBegin ct # post"
  shows "selected post = [] \<and> (\<forall>ev \<in> set post. \<forall>u a b c. ev \<noteq> Fetch u a b \<and> ev \<noteq> SinkBegin c) \<and>
    (\<exists>ws. filter sink_call post = map SinkWrite ws @ [SinkEnd])"
proof -
  obtain runs where r: "evs = concat (map al_events runs)" "run_of ro inp {ae1, ae2} [] runs"
    using assms(1) by (rule route_run)
  have "SinkBegin ct \<in> set (concat (map al_events runs))" using assms(2) r(1) by simp
  with r(2) obtain pre' ws post' where
    s: "concat (map al_events runs) = pre' @ SinkBegin ct # map SinkWrite ws @ SinkEnd # post'"
    and q: "\<forall>ev \<in> set pre'. \<not> sink_call ev" "\<forall>ev \<in> set post'. store_call ev"
    by (rule run_stream)
  have post: "post = map SinkWrite ws @ SinkEnd # post'"
    using q assms(2) r(1) s
    by (intro unique_split [of pre "SinkBegin ct" post pre']) auto
  have "filter sink_call post' = []" using q(2) by (auto simp: filter_empty_conv elim!: store_call.elims)
  moreover have "selected post' = []" using q(2) by (intro selected_none) auto
  moreover have "selected (map SinkWrite ws @ [SinkEnd]) = []" by (intro selected_none) auto
  moreover have "filter sink_call (map SinkWrite ws) = map SinkWrite ws" by (induction ws) simp_all
  ultimately show ?thesis using post q(2) selected_append [of "map SinkWrite ws @ [SinkEnd]" post'] by auto
qed

lemma no_failover_after_stream_opens_witness:
  "\<exists>ws. filter sink_call (drop 4 ex_events) = map SinkWrite ws @ [SinkEnd]"
proof -
  obtain res where "route ex_router ex_input (ex_attempt ex_reply) (ex_attempt ex_reply) [] = (ex_events, [], Inr res)"
    using ex_route by blast
  moreover have "ex_events = take 3 ex_events @ SinkBegin ''text/event-stream'' # drop 4 ex_events"
    by (simp add: ex_events_def)
  ultimately show ?thesis using no_failover_after_stream_opens by blast
qed

fun decode_all :: "'d text_decoder \<Rightarrow> 'd \<Rightarrow> 8 word list list \<Rightarrow> string" where
  "decode_all td d [] = []"
| "decode_all td d (v # vs) = (case td_decode td d v of (t, d') \<Rightarrow> t @ decode_all td d' vs)"

text \<open>The chunks under the cap, up to the first rejected read.\<close>

fun forwardable :: "nat \<Rightarrow> body_read list \<Rightarrow> 8 word list list" where
  "forwardable fwd [] = []"
| "forwardable fwd (NoValue # rs) = forwardable fwd rs"
| "forwardable fwd (ReadFails e # rs) = []"
| "forwardable fwd (Data v # rs) =
     (if MAX_STREAM_BODY_BYTES < fwd + length v then [] else v # forwardable (fwd + length v) rs)"

lemma slice_last_twice: "slice_last n (slice_last n a @ b) = slice_last n (a @ b)"
  by (simp add: slice_last_def) (metis Nat.diff_diff_right add.commute diff_diff_left diff_le_self le_add_diff_inverse2 nat_le_linear diff_is_0_eq diff_zero)

lemma slice_last_short: "length s \<le> n \<Longrightarrow> slice_last n s = s"
  by (simp add: slice_last_def)

lemma length_slice_last: "length (slice_last n s) \<le> n"
  by (simp add: slice_last_def)

lemma pump_reads_spec:
  assumes "length tl_text \<le> 64"
  shows "\<exists>err. pump_reads td d tl_text fwd rs =
    (map SinkWrite (forwardable fwd rs), slice_last 64 (tl_text @ decode_all td d (forwardable fwd rs)), err) \<and>
    (err \<noteq> None \<longrightarrow> (\<exists>e. ReadFails e \<in> set rs))"
  using assms
proof (induction td d tl_text fwd rs rule: pump_reads.induct)
  case (4 td d tl_text fwd v rs)
  show ?case
  proof (cases "MAX_STREAM_BODY_BYTES < fwd + length v")
    case True
    with 4 show ?thesis by (simp add: slice_last_short)
  next
    case False
    obtain t d' where t: "td_decode td d v = (t, d')" by (cases "td_decode td d v")
    from "4.IH" [OF False t [symmetric] length_slice_last] False t show ?thesis
      by (auto simp: length_slice_last slice_last_twice)
  qed
qed (auto simp: slice_last_short)

lemma forwardable_bound: "fwd \<le> MAX_STREAM_BODY_BYTES \<Longrightarrow>
  fwd + sum_list (map length (forwardable fwd rs)) \<le> MAX_STREAM_BODY_BYTES"
  by (induction fwd rs rule: forwardable.induct) (auto simp: add.assoc)

lemma forwardable_all: "fwd + sum_list (map length vs) \<le> MAX_STREAM_BODY_BYTES \<Longrightarrow> forwardable fwd (map Data vs) = vs"
  by (induction vs arbitrary: fwd) (auto simp: add.assoc)

text \<open>
  A body within the cap reaches the client chunk for chunk, byte for byte, between one opening
  and one end of the response; the only bytes added are one \<open>[DONE]\<close> frame, exactly when the last 64
  characters of the whole decoded text hold no \<open>[DONE]\<close> (the sliding window loses nothing).
\<close>

theorem stream_forwarded_verbatim:
  assumes "hr_body resp = Some (map Data vs)" "sum_list (map length vs) \<le> MAX_STREAM_BODY_BYTES"
  shows "fst (pumpStream td resp new_sink k) =
      SinkBegin (case hr_contentType resp of Some t \<Rightarrow> t | None \<Rightarrow> ''text/event-stream'') #
      map SinkWrite (vs @ (if has_substring ''[DONE]'' (slice_last 64 (decode_all td (td_new td) vs)) then []
        else [utf8 DONE_FRAME])) @ [SinkEnd] \<and>
    snd (snd (pumpStream td resp new_sink k)) = None"
proof -
  have f: "forwardable 0 (map Data vs) = vs" using assms(2) by (simp add: forwardable_all)
  obtain err where p: "pump_reads td (td_new td) [] 0 (map Data vs) =
      (map SinkWrite vs, slice_last 64 (decode_all td (td_new td) vs), err)" "err = None"
    using pump_reads_spec [of "[]" td "td_new td" 0 "map Data vs"] by (auto simp: f)
  show ?thesis
    using assms(1) by (simp add: pumpStream_def p sink_begin_def sink_end_def new_sink_def)
qed

lemma stream_forwarded_verbatim_witness:
  "fst (pumpStream ex_decoder \<lparr>hr_status = 200, hr_contentType = None, hr_body = Some [Data [0x64, 0x3a]]\<rparr> new_sink ''a'') =
   [SinkBegin ''text/event-stream'', SinkWrite [0x64, 0x3a], SinkWrite (utf8 DONE_FRAME), SinkEnd]"
  using stream_forwarded_verbatim [where vs = "[[0x64, 0x3a]]" and td = ex_decoder and k = "''a''"
      and resp = "\<lparr>hr_status = 200, hr_contentType = None, hr_body = Some [Data [0x64, 0x3a]]\<rparr>"]
  by (simp add: MAX_STREAM_BODY_BYTES_def ex_decoder_def slice_last_def starts_with_def)

fun written :: "route_event \<Rightarrow> nat" where
  "written (SinkWrite v) = length v"
| "written _ = 0"

lemma written_writes: "sum_list (map written (map SinkWrite vs)) = sum_list (map length vs)"
  by (induction vs) simp_all

text \<open>
  Whatever a node sends and however its stream ends, the router writes at most 64 MiB of it to the
  client, plus the 14 bytes of the \<open>[DONE]\<close> frame.
\<close>

theorem streamed_bytes_bounded:
  "sum_list (map written (fst (pumpStream td resp new_sink k))) \<le> MAX_STREAM_BODY_BYTES + 14"
proof (cases "hr_body resp")
  case (Some reads)
  obtain err where p: "pump_reads td (td_new td) [] 0 reads =
      (map SinkWrite (forwardable 0 reads), slice_last 64 (decode_all td (td_new td) (forwardable 0 reads)), err)"
    using pump_reads_spec [of "[]" td "td_new td" 0 reads] by auto
  have "length (utf8 DONE_FRAME) = 14" by (simp add: DONE_FRAME_def utf8_def utf8_char_def code_def)
  then show ?thesis
    using Some forwardable_bound [of 0 reads]
    by (simp add: pumpStream_def p sink_begin_def sink_end_def new_sink_def written_writes [unfolded map_map] comp_def)
qed (simp add: pumpStream_def)

subsection \<open>Fetches and failures\<close>

text \<open>
  The addresses a guard call had for the host, and what the numbers of the dotted ones say,
  independently of the classifier.
\<close>

definition addresses_of :: "guard_call \<Rightarrow> url \<Rightarrow> string list" where
  "addresses_of g u = (let h = strip_brackets (u_hostname u)
     in if isIP h \<noteq> 0 then [h] else case gc_resolve g h of Some xs \<Rightarrow> xs | None \<Rightarrow> [])"

definition public_quads :: "string list \<Rightarrow> bool" where
  "public_quads xs \<longleftrightarrow> (\<forall>a b c d. a < 256 \<and> b < 256 \<and> c < 256 \<and> d < 256 \<and> dotted a b c d \<in> set xs \<longrightarrow> \<not> non_public_v4 a b c)"

definition vetted :: "guard_call \<Rightarrow> url \<Rightarrow> bool" where
  "vetted g u \<longleftrightarrow> addresses_of g u \<noteq> [] \<and> public_quads (addresses_of g u) \<and> (\<forall>x \<in> set (addresses_of g u). \<not> isBlockedAddress x)"

lemma unblocked_public: "\<forall>x \<in> set xs. \<not> isBlockedAddress x \<Longrightarrow> public_quads xs"
  unfolding public_quads_def using blocked_address_octets by blast

lemma clean_vetted: "clean_addresses g u \<Longrightarrow> vetted g u"
  unfolding vetted_def
  by (intro conjI unblocked_public)
    (auto simp: clean_addresses_def addresses_of_def Let_def list_all_iff split: if_splits)

text \<open>The guard saw public addresses for the host, in this call or less than thirty seconds before it.\<close>

definition recently_vetted :: "(string \<Rightarrow> url option) \<Rightarrow> guard_call set \<Rightarrow> guard_call \<Rightarrow> url \<Rightarrow> bool" where
  "recently_vetted parse earlier g u \<longleftrightarrow> vetted g u \<or>
     (\<exists>g0 \<in> earlier. \<exists>u0 t0. parse (gc_raw g0) = Some u0 \<and> u_host u0 = u_host u \<and> vetted g0 u0 \<and>
        t0 \<in> {gc_t1 g0, gc_t2 g0} \<and> gc_t1 g < t0 + RESOLUTION_CACHE_TTL_MS)"

lemma guard_run_append: "guard_run parse cache (gs @ hs) = guard_run parse (guard_run parse cache gs) hs"
  by (induction gs arbitrary: cache) simp_all

lemma guarded_vetted:
  assumes "guarded ro cache ae node" "cache_after ro (guard_run (ro_parse ro) [] gs) seen cache"
  obtains u where "ro_parse ro (r_endpoint (n_registration node)) = Some u" "u_protocol u \<in> {''http:'', ''https:''}"
    "u_username u = []" "u_password u = []"
    "g_allowPrivateNodeEndpoints (ro_config ro) \<or> recently_vetted (ro_parse ro) (set gs \<union> seen) (guard_call_of ae node) u"
proof -
  obtain u where u: "assertHttpUrlShape (ro_parse ro) (r_endpoint (n_registration node)) = Inr u"
    and g: "g_allowPrivateNodeEndpoints (ro_config ro) \<or>
      (\<exists>cache'. guard_step (ro_parse ro) cache (guard_call_of ae node) = (cache', Inr u))"
    using assms(1) by (auto simp: guarded_def)
  have "recently_vetted (ro_parse ro) (set gs \<union> seen) (guard_call_of ae node) u" if na: "\<not> g_allowPrivateNodeEndpoints (ro_config ro)"
  proof -
    obtain hs where hs: "set hs \<subseteq> seen" "cache = guard_run (ro_parse ro) [] (gs @ hs)"
      using assms(2) na by (auto simp: cache_after_def guard_run_append)
    obtain cache' where "guard_step (ro_parse ro) cache (guard_call_of ae node) = (cache', Inr u)" using g na by blast
    then have "clean_addresses (guard_call_of ae node) u \<or> (\<exists>g0 \<in> set (gs @ hs). \<exists>t0.
        validated (ro_parse ro) g0 (u_host u) t0 \<and> gc_t1 (guard_call_of ae node) < t0 + RESOLUTION_CACHE_TTL_MS)"
      unfolding hs(2) using guard_sound by blast
    moreover have "set (gs @ hs) \<subseteq> set gs \<union> seen" using hs(1) by auto
    ultimately show ?thesis using clean_vetted unfolding recently_vetted_def validated_def by blast
  qed
  with u shape_ok [OF u] show thesis by (intro that [of u]) auto
qed

lemma cache_after_mono: "cache_after ro hosts S cache \<Longrightarrow> S \<subseteq> T \<Longrightarrow> cache_after ro hosts T cache"
  unfolding cache_after_def by blast

lemma own_attempts_fetch:
  "own_attempts ro inp hosts seen aes runs \<Longrightarrow> l \<in> set runs \<Longrightarrow> Fetch u a b \<in> set (al_events l) \<Longrightarrow>
   \<exists>ae \<in> set aes. \<exists>cache. chosen_in ro inp {ae} (fst l) \<and> guarded ro cache ae (fst l) \<and>
     cache_after ro hosts (seen \<union> (\<Union>x \<in> set aes. range (guard_call_of x))) cache"
proof (induction ro inp hosts seen aes runs rule: own_attempts.induct)
  case (3 ro inp hosts seen ae aes l' ls)
  let ?T = "seen \<union> (\<Union>x \<in> set (ae # aes). range (guard_call_of x))"
  show ?case
  proof (cases "Fetch u a b \<in> set (al_events l') \<and> l = l'")
    case True
    then obtain cache where "chosen_in ro inp {ae} (fst l)" "guarded ro cache ae (fst l)" "cache_after ro hosts seen cache"
      using "3.prems"(1) unfolding own_attempts.simps by blast
    moreover have "cache_after ro hosts ?T cache" by (rule cache_after_mono [OF calculation(3)]) blast
    ultimately show ?thesis by (meson list.set_intros(1))
  next
    case False
    then have l: "l \<in> set ls" using "3.prems"(2,3) by auto
    have "own_attempts ro inp hosts (seen \<union> range (guard_call_of ae)) aes ls" using "3.prems"(1) by simp
    from "3.IH" [OF this l "3.prems"(3)] obtain ae' cache where o: "ae' \<in> set aes" "chosen_in ro inp {ae'} (fst l)"
        "guarded ro cache ae' (fst l)"
        "cache_after ro hosts ((seen \<union> range (guard_call_of ae)) \<union> (\<Union>x \<in> set aes. range (guard_call_of x))) cache"
      by blast
    have "cache_after ro hosts ?T cache" by (rule cache_after_mono [OF o(4)]) auto
    with o(1-3) show ?thesis by (meson list.set_intros(2))
  qed
qed simp_all

text \<open>
  C27: Every upstream request goes to the chat path of a node eligible for one of the two attempts, whose
  endpoint parsed as an http(s) URL without credentials; its body is the projection of the client's
  request. Unless private endpoints are allowed, and with a host cache filled by earlier calls of the
  guard, the guard had addresses for that host at the attempt or less than thirty seconds before it, none
  of which its classifier blocks; in particular no dotted quad among them is in a special-purpose
  block by its numbers. (What the classifier lets pass among IPv6 texts is its own matter: see
  \<open>mapped_hex_not_blocked\<close>.)
\<close>

theorem fetches_are_guarded:
  assumes "route ro inp ae1 ae2 hosts = (evs, hosts', r)" "Fetch u a b \<in> set evs" "hosts = guard_run (ro_parse ro) [] gs"
  shows "\<exists>ae \<in> {ae1, ae2}. \<exists>node url. eligible_for ro inp ae node \<and> Fetch u a b = fetch_of ro inp node \<and>
    ro_parse ro (r_endpoint (n_registration node)) = Some url \<and> u_protocol url \<in> {''http:'', ''https:''} \<and>
    u_username url = [] \<and> u_password url = [] \<and>
    (g_allowPrivateNodeEndpoints (ro_config ro) \<or>
     recently_vetted (ro_parse ro) (set gs \<union> range (guard_call_of ae1) \<union> range (guard_call_of ae2)) (guard_call_of ae node) url)"
proof -
  obtain runs where r: "evs = concat (map al_events runs)" "run_of ro inp {ae1, ae2} [] runs"
      "own_attempts ro inp hosts {} [ae1, ae2] runs"
    using assms(1) by (rule route_run)
  have "\<exists>l \<in> set runs. Fetch u a b \<in> set (al_events l)" using assms(2) r(1) by simp
  then obtain l where l: "l \<in> set runs" "Fetch u a b \<in> set (al_events l)" by blast
  have "one_attempt ro inp (fst l) (al_streamed l) (al_events l)" using r(2) l(1) by (auto simp: run_of_def)
  then have f: "Fetch u a b = fetch_of ro inp (fst l)"
    using fetches_attempt filter_set [of is_fetch "al_events l"] l(2)
    by (metis (no_types, lifting) empty_iff empty_set is_fetch.simps(1) mem_Collect_eq set_ConsD set_filter)
  obtain ae cache where ae: "ae \<in> {ae1, ae2}" "chosen_in ro inp {ae} (fst l)" "guarded ro cache ae (fst l)"
      "cache_after ro (guard_run (ro_parse ro) [] gs) (range (guard_call_of ae1) \<union> range (guard_call_of ae2)) cache"
    using own_attempts_fetch [OF r(3) l] unfolding assms(3) by auto
  show ?thesis
    by (rule guarded_vetted [OF ae(3,4)]) (use ae(1) chosen_eligible [OF ae(2)] f in \<open>auto simp: Un_assoc\<close>)
qed

text \<open>A gateway that refuses private endpoints, whose only node fails to answer.\<close>

definition strict_router :: "unit router" where
  "strict_router = ex_router\<lparr>ro_config := ex_config\<lparr>g_allowPrivateNodeEndpoints := False\<rparr>\<rparr>"

definition strict_attempt :: attempt_env where
  "strict_attempt = (ex_attempt (FetchFails True ''timeout''))\<lparr>ae_abortedAfter := True, ae_guardT2 := 1,
     ae_resolve := (\<lambda>_. Some [dotted 8 8 8 8])\<rparr>"

lemma strict_guard:
  "assertRoutableEndpoint (\<lambda>s. Some ex_url) False (\<lambda>_. Some [dotted 8 8 8 8]) 0 1 [] raw = ([(''n1.example'', 30001)], Inr ex_url)"
  using ex_guard_accepts by (simp add: guard_step_def ex_guard_call_def assertRoutableEndpoint_def assertHttpUrlShape_def)

lemma strict_route: "\<exists>evs hosts' res. route strict_router ex_input strict_attempt strict_attempt [] = (evs, hosts', res) \<and>
   fetch_of strict_router ex_input (ex_node ''a'') \<in> set evs"
proof -
  have f: "ro_selector strict_router = ro_selector ex_router" "ae_list strict_attempt = ae_list (ex_attempt (FetchFails True ''timeout''))"
    "ae_selectAt strict_attempt = ae_selectAt (ex_attempt (FetchFails True ''timeout''))"
    "ae_draw strict_attempt = ae_draw (ex_attempt (FetchFails True ''timeout''))"
    by (simp_all add: strict_router_def strict_attempt_def)
  have sel: "select_node strict_router ex_input strict_attempt [] = Inr (ex_node ''a'')"
    using ex_select_node [of "FetchFails True ''timeout''"] unfolding select_node_def f .
  obtain e where "performCall strict_router ex_input (ex_node ''a'') strict_attempt new_sink [] =
      ([fetch_of strict_router ex_input (ex_node ''a'')], new_sink, [(''n1.example'', 30001)], Inl e)"
    by (simp add: performCall_def Let_def strict_router_def strict_attempt_def strict_guard fetch_of_def) (simp add: ex_attempt_def strict_guard)
  then have "\<exists>xs x. callNode strict_router ex_input (ex_node ''a'') strict_attempt new_sink [] = (xs, new_sink, x) \<and>
      fetch_of strict_router ex_input (ex_node ''a'') \<in> set xs \<and> (\<exists>e. snd x = Inl e)"
    by (simp add: callNode_def strict_attempt_def record_failure_def Let_def)
  then obtain xs h x where c: "callNode strict_router ex_input (ex_node ''a'') strict_attempt new_sink [] = (xs, new_sink, h, Inl x)"
      "fetch_of strict_router ex_input (ex_node ''a'') \<in> set xs"
    by auto
  have "ae_abortedAfter strict_attempt" by (simp add: strict_attempt_def)
  then show ?thesis using attempts_fatal [OF sel c(1)] c(2) unfolding route_def by force
qed

lemma fetches_are_guarded_witness:
  "\<exists>node url. \<not> g_allowPrivateNodeEndpoints (ro_config strict_router) \<and>
     recently_vetted (\<lambda>s. Some ex_url) (range (guard_call_of strict_attempt)) (guard_call_of strict_attempt node) url"
proof -
  obtain evs hosts' res where s: "route strict_router ex_input strict_attempt strict_attempt [] = (evs, hosts', res)"
      "fetch_of strict_router ex_input (ex_node ''a'') \<in> set evs"
    using strict_route by blast
  have "\<not> g_allowPrivateNodeEndpoints (ro_config strict_router)" "ro_parse strict_router = (\<lambda>s. Some ex_url)"
    by (simp_all add: strict_router_def)
  then show ?thesis
    using fetches_are_guarded [OF s(1) s(2) [unfolded fetch_of_def], of "[]"] by auto
qed

text \<open>The error \<open>attempts\<close> ends with, next to the nodes it has tried.\<close>

definition exhausted :: "route_input \<Rightarrow> string list \<Rightarrow> mesh_error \<Rightarrow> bool" where
  "exhausted inp ids e \<longleftrightarrow>
     me_class e = NoCapacityErr \<or>
     (me_class e = UpstreamErr \<and> me_message e = ''every candidate node failed to serve the request'' \<and>
       (\<exists>reason. me_details e = Some [(''requestId'', JStr (ri_requestId inp)),
          (''triedNodeIds'', JArr (map JStr ids)), (''reason'', JStr reason)]))"

lemma give_up_exhausted: "exhausted inp tried (give_up inp tried le)"
  by (auto simp: give_up_def exhausted_def upstream_error_def split: option.split)

lemma selected_callNode:
  assumes "callNode ro inp node ae new_sink hosts = (evs, k', hosts', r)"
  shows "selected evs = []"
proof -
  obtain st where "one_attempt ro inp node st (NodeSelected node # evs)"
    using callNode_events [OF assms] by blast
  from selected_attempt [OF this] show ?thesis by simp
qed

lemma attempts_cases:
  assumes "attempts ro inp ((n, ae) # ts) tried le new_sink hosts = (evs, hosts', r)"
  obtains (none) e where "select_node ro inp ae tried = Inl e" "evs = []"
      "r = Inl (if 1 < n \<and> le \<noteq> None then give_up inp tried le else of_exn e)"
  | (served) node res where "selected evs = [n_nodeId node]" "r = Inr res" "rr_node res = node" "rr_attempts res = n"
  | (fatal) node e where "selected evs = [n_nodeId node]" "r = Inl (give_up inp (tried @ [n_nodeId node]) (Some e))"
  | (retry) node e h2 evs2 where "selected evs = n_nodeId node # selected evs2"
      "attempts ro inp ts (tried @ [n_nodeId node]) (Some e) new_sink h2 = (evs2, hosts', r)"
proof (cases "select_node ro inp ae tried")
  case (Inl e)
  with assms none show thesis by (simp add: attempts_none)
next
  case (Inr node)
  obtain ev k' h2 r2 where cn: "callNode ro inp node ae new_sink hosts = (ev, k', h2, r2)"
    by (metis prod_cases4)
  note sel = selected_callNode [OF cn]
  obtain st where k: "one_attempt ro inp node st (NodeSelected node # ev)"
      "st \<longrightarrow> tk_started k'" "\<not> st \<longrightarrow> k' = new_sink"
    using callNode_events [OF cn] by blast
  show thesis
  proof (cases r2)
    case (Inr lb)
    obtain lat body where lb: "lb = (lat, body)" by (cases lb)
    have "evs = NodeSelected node # ev"
        "r = Inr \<lparr>rr_node = node, rr_body = body, rr_latencyMs = lat, rr_attempts = n\<rparr>"
      using assms unfolding attempts_served [OF \<open>select_node ro inp ae tried = Inr node\<close> cn [unfolded Inr lb]]
      by simp_all
    with sel show thesis 
      by (intro served [of node "\<lparr>rr_node = node, rr_body = body, rr_latencyMs = lat, rr_attempts = n\<rparr>"]) simp_all
  next
    case (Inl e)
    show thesis
    proof (cases "ae_abortedAfter ae \<or> (ri_sink inp \<and> tk_started k')")
      case True
      have "evs = NodeSelected node # ev" "r = Inl (give_up inp (tried @ [n_nodeId node]) (Some e))"
        using assms unfolding attempts_fatal [OF \<open>select_node ro inp ae tried = Inr node\<close> cn [unfolded Inl] True]
        by simp_all
      with sel show thesis by (intro fatal [of node e]) simp_all
    next
      case False
      then have new: "k' = new_sink" using k by (auto simp: one_attempt_def call_events_def)
      obtain evs2 rest where a2: "attempts ro inp ts (tried @ [n_nodeId node]) (Some e) k' h2 = (evs2, rest)"
        by (metis prod.exhaust)
      have "evs = NodeSelected node # ev @ evs2" "rest = (hosts', r)"
        using assms unfolding attempts_retry [OF \<open>select_node ro inp ae tried = Inr node\<close> cn [unfolded Inl] False a2]
        by simp_all
      with sel a2 new show thesis by (intro retry [of node evs2 e h2]) simp_all
    qed
  qed
qed

lemma attempts_result:
  assumes "attempts ro inp tries tried le new_sink hosts = (evs, hosts', r)"
    and "le \<noteq> None" "\<forall>t \<in> set tries. 1 < fst t"
  shows "case r of
      Inl e \<Rightarrow> exhausted inp (tried @ selected evs) e
    | Inr res \<Rightarrow> selected evs \<noteq> [] \<and> last (selected evs) = n_nodeId (rr_node res)"
  using assms
proof (induction tries arbitrary: tried le hosts evs hosts' r)
  case Nil
  then show ?case by (auto simp: give_up_exhausted)
next
  case (Cons t tries)
  obtain n ae where t: "t = (n, ae)" by (cases t)
  from Cons.prems(1) [unfolded t] show ?case
  proof (cases rule: attempts_cases)
    case (none e)
    with Cons.prems(2,3) t show ?thesis by (simp add: give_up_exhausted)
  next
    case (served node res)
    then show ?thesis by simp
  next
    case (fatal node e)
    then show ?thesis by (simp add: give_up_exhausted)
  next
    case (retry node e h2 evs2)
    with Cons.IH [OF retry(2)] Cons.prems(3) show ?thesis by (cases r) simp_all
  qed
qed

text \<open>
  C28: The outcome of a routed request names who served it or who failed: a result comes from the last
  node selected; a failure with no node selected is the selector's own error; any other failure is
  \<open>no_capacity\<close> or an upstream error whose \<open>triedNodeIds\<close> are exactly the nodes selected, in order.
\<close>

theorem route_outcome_names_nodes:
  assumes "route ro inp ae1 ae2 hosts = (evs, hosts', r)"
  shows "case r of
      Inr res \<Rightarrow> selected evs \<noteq> [] \<and> last (selected evs) = n_nodeId (rr_node res)
    | Inl e \<Rightarrow> (if selected evs = [] then \<exists>x. select_node ro inp ae1 [] = Inl x \<and> e = of_exn x
                else exhausted inp (selected evs) e)"
  using assms unfolding route_def
proof (cases rule: attempts_cases)
  case (none e)
  then show ?thesis by simp
next
  case (served node res)
  then show ?thesis by simp
next
  case (fatal node e)
  then show ?thesis using give_up_exhausted [of inp "[n_nodeId node]" "Some e"] by simp
next
  case (retry node e h2 evs2)
  with attempts_result [OF retry(2)] show ?thesis by (cases r) auto
qed

lemma route_outcome_names_nodes_witness: "last (selected ex_events) = ''a''"
proof -
  obtain res where r: "route ex_router ex_input (ex_attempt ex_reply) (ex_attempt ex_reply) [] = (ex_events, [], Inr res)"
    using ex_route by blast
  from route_outcome_names_nodes [OF this] have "last (selected ex_events) = n_nodeId (rr_node res)" by simp
  then show ?thesis by (simp add: ex_events_def fetch_of_def outcome_event_def)
qed

end
