(* ===== verification/Keys.thy ===== *)
theory Keys
  imports NodeRoutes
begin

section \<open>Operator keys (packages/node-daemon/src/keys.ts)\<close>

text \<open>
  The base32 encoder on its 32-bit accumulator, the address derivation and \<open>loadOperatorKey\<close>.
  \<open>node:crypto\<close> is the record \<open>ed25519\<close>: the digest, the import of a PKCS#8 key (answering the SPKI
  bytes of its public half), the signature and its verification. The encoder is proved equal to the
  RFC 4648 reading, five bits at a time from the left; an address determines its public key.
\<close>

record ed25519 =
  ed_sha512_256 :: "nat list \<Rightarrow> nat list"
  ed_public_spki :: "nat list \<Rightarrow> nat list option"
  ed_sign :: "nat list \<Rightarrow> 8 word list \<Rightarrow> nat list"
  ed_verify :: "nat list \<Rightarrow> 8 word list \<Rightarrow> nat list \<Rightarrow> bool"

subsection \<open>Constants\<close>

definition ALGORAND_SECRET_KEY_BYTES :: nat where "ALGORAND_SECRET_KEY_BYTES = 64"
definition ED25519_SEED_BYTES :: nat where "ED25519_SEED_BYTES = 32"
definition ED25519_SIGNATURE_BYTES :: nat where "ED25519_SIGNATURE_BYTES = 64"
definition ALGORAND_CHECKSUM_BYTES :: nat where "ALGORAND_CHECKSUM_BYTES = 4"
definition ALGORAND_ADDRESS_LENGTH :: nat where "ALGORAND_ADDRESS_LENGTH = 58"

definition PKCS8_ED25519_PREFIX :: "nat list" where
  "PKCS8_ED25519_PREFIX =
     [0x30, 0x2e, 0x02, 0x01, 0x00, 0x30, 0x05, 0x06, 0x03, 0x2b, 0x65, 0x70, 0x04, 0x22, 0x04, 0x20]"

definition BASE32_ALPHABET :: string where "BASE32_ALPHABET = ''ABCDEFGHIJKLMNOPQRSTUVWXYZ234567''"

subsection \<open>Base64 and base32\<close>

definition decodeBase64Exact :: "string \<Rightarrow> nat \<Rightarrow> string \<Rightarrow> nat list res" where
  "decodeBase64Exact value byteLength label =
     (if length value = 0 \<or> length value mod 4 \<noteq> 0
      then throw ConfigErr (label @ '' must be canonical base64'')
      else if \<not> BASE64_RE value
      then throw ConfigErr (label @ '' must be canonical base64'')
      else let decoded = b64_decode value
           in if length decoded \<noteq> byteLength \<or> b64_encode decoded \<noteq> value
              then throw ConfigErr (label @ '' must decode to exactly '' @ nat_str byteLength @ '' bytes'')
              else Inr decoded)"

text \<open>JavaScript's \<open><<\<close>, \<open>|\<close> and \<open>>>>\<close> work on 32 bits; the accumulator is never masked.\<close>

definition base32_char :: "32 word \<Rightarrow> char" where
  "base32_char w = BASE32_ALPHABET ! unat (and w 31)"

text \<open>The inner loop: the characters out, and the count of bits left.\<close>

fun drain32 :: "32 word \<Rightarrow> nat \<Rightarrow> string \<times> nat" where
  "drain32 buffer bits =
     (if bits < 5 then ([], bits)
      else (case drain32 buffer (bits - 5) of (cs, k) \<Rightarrow> (base32_char (drop_bit (bits - 5) buffer) # cs, k)))"

declare drain32.simps [simp del]

fun base32_loop :: "32 word \<Rightarrow> nat \<Rightarrow> nat list \<Rightarrow> string" where
  "base32_loop buffer bits [] =
     (if 0 < bits then [base32_char (push_bit (5 - bits) buffer)] else [])"
| "base32_loop buffer bits (b # bs) =
     (let buffer' = or (push_bit 8 buffer) (of_nat b)
      in case drain32 buffer' (bits + 8) of (cs, bits') \<Rightarrow> cs @ base32_loop buffer' bits' bs)"

definition base32Encode :: "nat list \<Rightarrow> string" where
  "base32Encode bs = base32_loop 0 0 bs"

subsection \<open>Addresses and keys\<close>

definition algorandAddressFromPublicKey :: "ed25519 \<Rightarrow> nat list \<Rightarrow> string res" where
  "algorandAddressFromPublicKey ed publicKey =
     (if length publicKey \<noteq> ED25519_PUBLIC_KEY_BYTES
      then throw ValidationErr (''public key must be '' @ nat_str ED25519_PUBLIC_KEY_BYTES @ '' bytes'')
      else let digest = ed_sha512_256 ed publicKey;
               checksum = drop (length digest - ALGORAND_CHECKSUM_BYTES) digest;
               address = base32Encode (publicKey @ checksum)
           in if length address \<noteq> ALGORAND_ADDRESS_LENGTH
              then throw ValidationErr ''derived an Algorand address of the wrong length''
              else Inr address)"

text \<open>The frozen key object; \<open>ok_private\<close> is the key the closures of the source capture.\<close>

record operator_key =
  ok_address :: string
  ok_publicKey :: "nat list"
  ok_publicKeyB64 :: string
  ok_private :: "nat list"

definition key_sign :: "ed25519 \<Rightarrow> operator_key \<Rightarrow> 8 word list \<Rightarrow> nat list" where
  "key_sign ed k message = ed_sign ed (ok_private k) message"

definition signB64 :: "ed25519 \<Rightarrow> operator_key \<Rightarrow> 8 word list \<Rightarrow> string" where
  "signB64 ed k message = b64_encode (key_sign ed k message)"

definition loadOperatorKey :: "ed25519 \<Rightarrow> string \<Rightarrow> operator_key res" where
  "loadOperatorKey ed privateKeyB64 =
     bind_res (decodeBase64Exact privateKeyB64 ALGORAND_SECRET_KEY_BYTES ''AVM_PRIVATE_KEY'') (\<lambda>secret.
       let seed = take ED25519_SEED_BYTES secret;
           declaredPublicKey = drop ED25519_SEED_BYTES secret;
           privateKey = PKCS8_ED25519_PREFIX @ seed
       in case ed_public_spki ed privateKey of
            None \<Rightarrow> throw ConfigErr ''AVM_PRIVATE_KEY is not a usable Ed25519 seed''
          | Some spki \<Rightarrow>
              let derived = drop (length spki - ED25519_PUBLIC_KEY_BYTES) spki
              in if derived \<noteq> declaredPublicKey
                 then throw ConfigErr ''AVM_PRIVATE_KEY is inconsistent: its public-key half does not match its seed''
                 else bind_res (algorandAddressFromPublicKey ed derived) (\<lambda>address.
                   Inr \<lparr>ok_address = address, ok_publicKey = derived, ok_publicKeyB64 = b64_encode derived,
                        ok_private = privateKey\<rparr>))"

definition verifySignatureB64 :: "ed25519 \<Rightarrow> string \<Rightarrow> 8 word list \<Rightarrow> string \<Rightarrow> bool" where
  "verifySignatureB64 ed publicKeyB64 message signatureB64 =
     (case decodeBase64Exact publicKeyB64 ED25519_PUBLIC_KEY_BYTES ''publicKey'' of
        Inl _ \<Rightarrow> False
      | Inr publicKey \<Rightarrow>
          (case decodeBase64Exact signatureB64 ED25519_SIGNATURE_BYTES ''signature'' of
             Inl _ \<Rightarrow> False
           | Inr sig \<Rightarrow> ed_verify ed (ED25519_SPKI_PREFIX @ publicKey) message sig))"

subsection \<open>The reference encoder: bits from the left, five at a time\<close>

definition bits_of :: "nat \<Rightarrow> nat \<Rightarrow> bool list" where
  "bits_of n x = map (bit x) (rev [0..<n])"

definition bits_val :: "bool list \<Rightarrow> nat" where
  "bits_val bs = foldl (\<lambda>v b. 2 * v + of_bool b) 0 bs"

fun quintets :: "bool list \<Rightarrow> bool list list" where
  "quintets (a # b # c # d # e # r) = [a, b, c, d, e] # quintets r"
| "quintets [] = []"
| "quintets r = [r @ replicate (5 - length r) False]"

definition base32_reference :: "nat list \<Rightarrow> string" where
  "base32_reference bs = map (\<lambda>q. BASE32_ALPHABET ! bits_val q) (quintets (concat (map (bits_of 8) bs)))"

subsection \<open>The two encoders agree\<close>

definition low :: "nat \<Rightarrow> 32 word \<Rightarrow> bool list" where
  "low n w = map (bit w) (rev [0..<n])"

lemma length_low [simp]: "length (low n w) = n"
  by (simp add: low_def)

lemma low_split: "low (n + m) w = low n (drop_bit m w) @ low m w"
proof -
  have "[0..<n + m] = [0..<m] @ map (\<lambda>i. i + m) [0..<n]"
    by (metis add.commute map_add_upt upt_add_eq_append zero_le)
  then show ?thesis
    by (simp add: low_def rev_map o_def bit_drop_bit_eq add.commute)
qed

lemma upt_5: "[0..<5] = [0, 1, 2, 3, 4 :: nat]"
  by (simp add: upt_rec eval_nat_numeral)

lemma low_5: "low 5 w = [bit w 4, bit w 3, bit w 2, bit w 1, bit w 0]"
  by (simp add: low_def upt_5)

lemma unat_low_5: "unat (and w (31 :: 32 word)) = bits_val (low 5 w)"
proof -
  have "(31 :: 32 word) = mask 5" by (simp add: mask_eq_exp_minus_1)
  then have "unat (and w 31) = take_bit 5 (unat w)"
    by (simp only: take_bit_eq_mask [symmetric] unsigned_take_bit_eq)
  also have "\<dots> = horner_sum of_bool 2 (map (bit (unat w)) [0..<5])"
    by (rule horner_sum_bit_eq_take_bit [symmetric])
  also have "map (bit (unat w)) [0..<5] = map (bit w) [0..<5]"
    by (simp add: bit_unsigned_iff fun_eq_iff)
  finally show ?thesis by (simp add: low_5 bits_val_def upt_5)
qed

lemma quintets_low: "quintets (low 5 w @ r) = low 5 w # quintets r"
  by (simp add: low_5)

abbreviation quintet_char :: "bool list \<Rightarrow> char" where
  "quintet_char q \<equiv> BASE32_ALPHABET ! bits_val q"

lemma base32_char_low: "base32_char w = quintet_char (low 5 w)"
  by (simp add: base32_char_def unat_low_5)

lemma drain32_spec:
  assumes "drain32 w n = (cs, k)"
  shows "k < 5 \<and> map quintet_char (quintets (low n w @ r)) = cs @ map quintet_char (quintets (low k w @ r))"
  using assms
proof (induction n arbitrary: cs k rule: less_induct)
  case (less n)
  show ?case
  proof (cases "n < 5")
    case True
    with less.prems show ?thesis by (simp add: drain32.simps [of w n])
  next
    case False
    obtain cs' k' where d: "drain32 w (n - 5) = (cs', k')" by (cases "drain32 w (n - 5)")
    with False less.prems have c: "cs = base32_char (drop_bit (n - 5) w) # cs'" "k = k'"
      by (simp_all add: drain32.simps [of w n])
    have "low n w = low 5 (drop_bit (n - 5) w) @ low (n - 5) w"
      using low_split [of 5 "n - 5" w] False by simp
    with less.IH [OF _ d] False c show ?thesis by (simp add: quintets_low base32_char_low)
  qed
qed

lemma high_bits: "b < 256 \<Longrightarrow> \<not> bit (b :: nat) (8 + i)"
proof -
  assume "b < 256"
  moreover have "(256 :: nat) \<le> 2 ^ (8 + i)" by (simp add: power_add)
  ultimately show ?thesis by (simp add: bit_iff_odd)
qed

lemma low_shift:
  assumes "b < 256" "k + 8 \<le> 32"
  shows "low (k + 8) (or (push_bit 8 w) (of_nat b)) = low k w @ bits_of 8 b"
proof -
  let ?w = "or (push_bit 8 w) (of_nat b) :: 32 word"
  have "bit ?w (8 + i) = bit w i" if "i < k" for i
    using that assms high_bits [OF assms(1), of i]
    by (simp add: bit_or_iff bit_push_bit_iff bit_of_nat_iff)
  then have "low k (drop_bit 8 ?w) = low k w"
    by (simp add: low_def bit_drop_bit_eq del: drop_bit_or)
  moreover have "bit ?w i = bit b i" if "i < 8" for i
    using that by (simp add: bit_or_iff bit_push_bit_iff bit_of_nat_iff)
  then have "low 8 ?w = bits_of 8 b"
    by (auto simp: low_def bits_of_def)
  ultimately show ?thesis by (simp add: low_split)
qed

lemma low_pad: "k \<le> 5 \<Longrightarrow> low 5 (push_bit (5 - k) w) = low k w @ replicate (5 - k) False"
proof -
  assume k: "k \<le> 5"
  have "low k (drop_bit (5 - k) (push_bit (5 - k) w)) = low k w"
    using k by (auto simp: low_def bit_drop_bit_eq bit_push_bit_iff)
  moreover have "low (5 - k) (push_bit (5 - k) w) = replicate (5 - k) False"
    by (rule nth_equalityI) (auto simp: low_def bit_push_bit_iff rev_nth)
  ultimately show ?thesis using low_split [of k "5 - k" "push_bit (5 - k) w"] k by simp
qed

lemma quintets_short: "bs \<noteq> [] \<Longrightarrow> length bs < 5 \<Longrightarrow> quintets bs = [bs @ replicate (5 - length bs) False]"
  by (cases bs rule: quintets.cases) simp_all

lemma base32_loop_spec:
  assumes "bytes_ok bs" "k < 5"
  shows "base32_loop w k bs = map quintet_char (quintets (low k w @ concat (map (bits_of 8) bs)))"
  using assms
proof (induction bs arbitrary: w k)
  case Nil
  show ?case
  proof (cases "k = 0")
    case True
    then show ?thesis by (simp add: low_def)
  next
    case False
    then have "low k w \<noteq> []" using length_low [of k w] by (metis list.size(3))
    with Nil.prems False show ?thesis by (simp add: quintets_short base32_char_low low_pad)
  qed
next
  case (Cons b bs)
  let ?w = "or (push_bit 8 w) (of_nat b) :: 32 word"
  obtain cs k' where d: "drain32 ?w (k + 8) = (cs, k')" by (cases "drain32 ?w (k + 8)")
  have "map quintet_char (quintets (low k w @ bits_of 8 b @ concat (map (bits_of 8) bs)))
      = map quintet_char (quintets (low (k + 8) ?w @ concat (map (bits_of 8) bs)))"
    using Cons.prems low_shift [of b k w] by (simp add: bytes_ok_def)
  with drain32_spec [OF d] Cons d show ?case by (simp add: bytes_ok_def)
qed

subsection \<open>The encoding is injective and has the shape of an address\<close>

lemma concat_quintets: "take (length l) (concat (quintets l)) = l"
  by (induction l rule: quintets.induct) simp_all

lemma quintets_length: "q \<in> set (quintets l) \<Longrightarrow> length q = 5"
  by (induction l rule: quintets.induct) auto

lemma length_quintets: "length (quintets l) = (length l + 4) div 5"
  by (induction l rule: quintets.induct) simp_all

lemma foldl_bits: "foldl (\<lambda>v b. 2 * v + of_bool b) v q = v * 2 ^ length q + bits_val q"
proof (induction q arbitrary: v)
  case (Cons b q)
  from Cons [of "2 * v + of_bool b"] Cons [of "of_bool b"] show ?case
    by (simp add: bits_val_def algebra_simps)
qed (simp add: bits_val_def)

lemma bits_val_Cons: "bits_val (b # q) = of_bool b * 2 ^ length q + bits_val q"
  by (simp add: bits_val_def foldl_bits [unfolded bits_val_def, of "of_bool b" q])

lemma bits_val_less: "bits_val q < 2 ^ length q"
  by (induction q) (auto simp: bits_val_Cons bits_val_def [of "[]"])

lemma bits_val_inj: "length p = length q \<Longrightarrow> bits_val p = bits_val q \<Longrightarrow> p = q"
proof (induction p q rule: list_induct2)
  case (Cons a p b q)
  with bits_val_less [of p] bits_val_less [of q] show ?case
    by (auto simp: bits_val_Cons of_bool_def split: if_splits)
qed simp

lemma alphabet32: "length BASE32_ALPHABET = 32" "distinct BASE32_ALPHABET"
  "list_all (\<lambda>c. is_upper_ascii c \<or> (50 \<le> code c \<and> code c \<le> 55)) BASE32_ALPHABET"
  by (simp_all add: BASE32_ALPHABET_def is_upper_ascii_def code_def)

lemma quintet_char_inj:
  assumes "length p = 5" "length q = 5" "quintet_char p = quintet_char q"
  shows "p = q"
proof -
  have "bits_val p < 32" "bits_val q < 32" using bits_val_less [of p] bits_val_less [of q] assms by simp_all
  with assms have "bits_val p = bits_val q" by (simp add: nth_eq_iff_index_eq alphabet32)
  with assms show ?thesis by (intro bits_val_inj) simp_all
qed

lemma quintets_inj: "length l = length m \<Longrightarrow> map quintet_char (quintets l) = map quintet_char (quintets m) \<Longrightarrow> l = m"
proof -
  assume l: "length l = length m" and e: "map quintet_char (quintets l) = map quintet_char (quintets m)"
  have "inj_on quintet_char (set (quintets l) \<union> set (quintets m))"
    by (rule inj_onI, rule quintet_char_inj) (auto dest: quintets_length)
  from inj_on_map_eq_map [OF this] e have "quintets l = quintets m" by simp
  then have "take (length l) (concat (quintets l)) = take (length m) (concat (quintets m))"
    using l by (simp only:)
  then show ?thesis by (simp only: concat_quintets)
qed

lemma length_bits_of [simp]: "length (bits_of n x) = n"
  by (simp add: bits_of_def)

lemma bits_of_inj: "bits_of 8 a = bits_of 8 b \<Longrightarrow> a < 256 \<Longrightarrow> b < 256 \<Longrightarrow> a = b"
proof -
  assume e: "bits_of 8 a = bits_of 8 b" and lt: "a < 256" "b < 256"
  have "bit a i = bit b i" for i
  proof (cases "i < 8")
    case True
    with e show ?thesis by (simp add: bits_of_def rev_map [symmetric])
  next
    case False
    then have "i = 8 + (i - 8)" by simp
    with high_bits lt show ?thesis by metis
  qed
  then show ?thesis by (rule bit_eqI)
qed

lemma bytes_bits_inj:
  "length as = length bs \<Longrightarrow> bytes_ok as \<Longrightarrow> bytes_ok bs \<Longrightarrow>
   concat (map (bits_of 8) as) = concat (map (bits_of 8) bs) \<Longrightarrow> as = bs"
  by (induction as bs rule: list_induct2) (auto simp: bytes_ok_def dest: bits_of_inj)

lemma length_bytes_bits: "length (concat (map (bits_of 8) bs)) = 8 * length bs"
  by (induction bs) simp_all

lemma base32_inj:
  assumes "bytes_ok as" "bytes_ok bs" "length as = length bs" "base32Encode as = base32Encode bs"
  shows "as = bs"
proof -
  have "concat (map (bits_of 8) as) = concat (map (bits_of 8) bs)"
    using assms base32_loop_spec [of _ 0 0]
    by (intro quintets_inj) (simp_all add: base32Encode_def length_bytes_bits low_def)
  with assms bytes_bits_inj show ?thesis by blast
qed

lemma base32_address:
  assumes "bytes_ok bs" "length bs = 36"
  shows "algorand_address (base32Encode bs)"
proof -
  let ?qs = "quintets (concat (map (bits_of 8) bs))"
  have e: "base32Encode bs = map quintet_char ?qs"
    using base32_loop_spec [OF assms(1), of 0 0] by (simp add: base32Encode_def low_def)
  have "is_upper_ascii (quintet_char q) \<or> (50 \<le> code (quintet_char q) \<and> code (quintet_char q) \<le> 55)"
    if "q \<in> set ?qs" for q
    using quintets_length [OF that] bits_val_less [of q] alphabet32 by (auto simp: list_all_length)
  with e assms(2) show ?thesis
    by (simp add: algorand_address_def length_quintets length_bytes_bits list_all_iff)
qed

subsection \<open>What the code relies on in the cryptography\<close>

text \<open>
  A digest is 32 bytes; a signature is 64 bytes; an exported SPKI key is the DER prefix followed by
  32 bytes; and what a private key signs verifies under the SPKI encoding of its public half.
\<close>

definition ed_ok :: "ed25519 \<Rightarrow> bool" where
  "ed_ok ed \<longleftrightarrow>
     (\<forall>m. length (ed_sha512_256 ed m) = 32 \<and> bytes_ok (ed_sha512_256 ed m)) \<and>
     (\<forall>der m. length (ed_sign ed der m) = 64 \<and> bytes_ok (ed_sign ed der m)) \<and>
     (\<forall>der spki. ed_public_spki ed der = Some spki \<longrightarrow>
        (\<exists>pk. spki = ED25519_SPKI_PREFIX @ pk \<and> length pk = 32 \<and> bytes_ok pk) \<and>
        (\<forall>m. ed_verify ed spki m (ed_sign ed der m)))"

text \<open>A key object as \<open>loadOperatorKey\<close> builds it.\<close>

definition key_ok :: "ed25519 \<Rightarrow> operator_key \<Rightarrow> bool" where
  "key_ok ed k \<longleftrightarrow>
     length (ok_publicKey k) = 32 \<and> bytes_ok (ok_publicKey k) \<and>
     algorandAddressFromPublicKey ed (ok_publicKey k) = Inr (ok_address k) \<and>
     ok_publicKeyB64 k = b64_encode (ok_publicKey k) \<and>
     ed_public_spki ed (ok_private k) = Some (ED25519_SPKI_PREFIX @ ok_publicKey k)"

lemma address_of_key:
  assumes "ed_ok ed" "length pk = 32" "bytes_ok pk"
  obtains a where "algorandAddressFromPublicKey ed pk = Inr a" "algorand_address a"
    "a = base32Encode (pk @ drop 28 (ed_sha512_256 ed pk))"
proof -
  let ?bs = "pk @ drop 28 (ed_sha512_256 ed pk)"
  have d: "length (ed_sha512_256 ed pk) = 32" "bytes_ok (ed_sha512_256 ed pk)" using assms(1) by (simp_all add: ed_ok_def)
  then have "bytes_ok ?bs" "length ?bs = 36"
    using assms(2,3) by (auto simp: bytes_ok_def list_all_iff dest: in_set_dropD)
  from base32_address [OF this] have a: "algorand_address (base32Encode ?bs)" .
  show ?thesis
    by (rule that [of "base32Encode ?bs"])
      (use a assms(2) d in \<open>simp_all add: algorandAddressFromPublicKey_def ED25519_PUBLIC_KEY_BYTES_def
        ALGORAND_CHECKSUM_BYTES_def ALGORAND_ADDRESS_LENGTH_def Let_def algorand_address_def\<close>)
qed

lemma address_valid:
  assumes "ed_ok ed" "bytes_ok pk" "algorandAddressFromPublicKey ed pk = Inr a"
  shows "algorand_address a"
proof -
  have "length pk = 32"
    using assms(3) by (auto simp: algorandAddressFromPublicKey_def ED25519_PUBLIC_KEY_BYTES_def split: if_splits)
  from address_of_key [OF assms(1) this assms(2)] assms(3) show ?thesis by (metis sum.inject(2))
qed

lemma address_inj:
  assumes "ed_ok ed" "bytes_ok pk" "bytes_ok pk'"
    "algorandAddressFromPublicKey ed pk = Inr a" "algorandAddressFromPublicKey ed pk' = Inr a"
  shows "pk = pk'"
proof -
  have l: "length pk = 32" "length pk' = 32"
    using assms(4,5) by (auto simp: algorandAddressFromPublicKey_def ED25519_PUBLIC_KEY_BYTES_def split: if_splits)
  let ?d = "\<lambda>p. drop 28 (ed_sha512_256 ed p)"
  have b: "length (ed_sha512_256 ed p) = 32" "bytes_ok (ed_sha512_256 ed p)" for p
    using assms(1) by (simp_all add: ed_ok_def)
  have "base32Encode (pk @ ?d pk) = base32Encode (pk' @ ?d pk')"
    using address_of_key [OF assms(1) l(1) assms(2)] address_of_key [OF assms(1) l(2) assms(3)] assms(4,5)
    by (metis sum.inject(2))
  moreover have "bytes_ok (p @ ?d p)" if "bytes_ok p" for p
    using that b(2) [of p] by (auto simp: bytes_ok_def list_all_iff dest: in_set_dropD)
  ultimately have "pk @ ?d pk = pk' @ ?d pk'"
    using assms(2,3) l b(1) by (intro base32_inj) simp_all
  with l show ?thesis by simp
qed

lemma decode_exact_iff: "decodeBase64Exact s n label = Inr bs \<longleftrightarrow> isBase64OfLength s n \<and> bs = b64_decode s"
  by (auto simp: decodeBase64Exact_def isBase64OfLength_def Let_def)

lemma load_key_ok:
  assumes "ed_ok ed" "loadOperatorKey ed s = Inr k"
  shows "key_ok ed k"
proof -
  obtain secret spki where s: "decodeBase64Exact s 64 ''AVM_PRIVATE_KEY'' = Inr secret"
    "ed_public_spki ed (PKCS8_ED25519_PREFIX @ take 32 secret) = Some spki"
    "drop (length spki - 32) spki = drop 32 secret"
    "algorandAddressFromPublicKey ed (drop 32 secret) = Inr (ok_address k)"
    "ok_publicKey k = drop 32 secret" "ok_publicKeyB64 k = b64_encode (drop 32 secret)"
    "ok_private k = PKCS8_ED25519_PREFIX @ take 32 secret"
    using assms(2)
    by (auto simp: loadOperatorKey_def bind_res_Inr_iff ALGORAND_SECRET_KEY_BYTES_def ED25519_SEED_BYTES_def
      ED25519_PUBLIC_KEY_BYTES_def Let_def split: option.splits if_splits)
  obtain pk where pk: "spki = ED25519_SPKI_PREFIX @ pk" "length pk = 32" "bytes_ok pk"
    using assms(1) s(2) unfolding ed_ok_def by blast
  with s(3) have "drop 32 secret = pk" by simp
  with s pk show ?thesis by (simp add: key_ok_def)
qed

lemma key_roundtrip:
  assumes "ed_ok ed" "key_ok ed k"
  shows "verifySignatureB64 ed (ok_publicKeyB64 k) m (signB64 ed k m)"
    and "isBase64OfLength (ok_publicKeyB64 k) 32" "isBase64OfLength (signB64 ed k m) 64"
    and "b64_decode (ok_publicKeyB64 k) = ok_publicKey k" "b64_decode (signB64 ed k m) = key_sign ed k m"
proof -
  have pk: "length (ok_publicKey k) = 32" "bytes_ok (ok_publicKey k)" "ok_publicKeyB64 k = b64_encode (ok_publicKey k)"
    using assms(2) by (simp_all add: key_ok_def)
  have sg: "length (key_sign ed k m) = 64" "bytes_ok (key_sign ed k m)"
    using assms(1) by (simp_all add: key_sign_def ed_ok_def)
  have "ok_publicKey k \<noteq> []" "key_sign ed k m \<noteq> []" using pk(1) sg(1) by auto
  with pk sg isBase64OfLength_encode [of "ok_publicKey k"] isBase64OfLength_encode [of "key_sign ed k m"]
  show b: "isBase64OfLength (ok_publicKeyB64 k) 32" "isBase64OfLength (signB64 ed k m) 64"
    by (simp_all add: signB64_def)
  show d: "b64_decode (ok_publicKeyB64 k) = ok_publicKey k" "b64_decode (signB64 ed k m) = key_sign ed k m"
    using pk sg by (simp_all add: signB64_def decode_encode)
  have "ed_verify ed (ED25519_SPKI_PREFIX @ ok_publicKey k) m (key_sign ed k m)"
    using assms by (auto simp: ed_ok_def key_ok_def key_sign_def)
  moreover have "decodeBase64Exact (ok_publicKeyB64 k) 32 ''publicKey'' = Inr (ok_publicKey k)"
    "decodeBase64Exact (signB64 ed k m) 64 ''signature'' = Inr (key_sign ed k m)"
    using b d by (simp_all add: decode_exact_iff)
  ultimately show "verifySignatureB64 ed (ok_publicKeyB64 k) m (signB64 ed k m)"
    by (simp add: verifySignatureB64_def ED25519_PUBLIC_KEY_BYTES_def ED25519_SIGNATURE_BYTES_def)
qed

subsection \<open>Decoding an address\<close>

text \<open>What the SDK's \<open>decodeAddress\<close> computes for a well-formed address; it shows the laws above can hold.\<close>

fun octets :: "bool list \<Rightarrow> nat list" where
  "octets (a # b # c # d # e # f # g # h # r) = bits_val [a, b, c, d, e, f, g, h] # octets r"
| "octets _ = []"

definition reference_decodeAddress :: "string \<Rightarrow> nat list" where
  "reference_decodeAddress addr =
     take 32 (octets (concat (map (\<lambda>c. bits_of 5 (index_of c BASE32_ALPHABET)) addr)))"

lemma bits_val_of: "bits_val (bits_of n x) = take_bit n x"
proof (induction n)
  case (Suc n)
  have "bits_of (Suc n) x = bit x n # bits_of n x" by (simp add: bits_of_def)
  with Suc show ?case by (simp add: bits_val_Cons take_bit_Suc_from_most mult.commute)
qed (simp add: bits_of_def bits_val_def)

lemma bits_of_val: "bits_of (length q) (bits_val q) = q"
  using bits_val_of [of "length q" "bits_val q"] bits_val_less [of q]
  by (intro bits_val_inj) (simp_all add: take_bit_nat_eq_self)

lemma octets_byte:
  assumes "b < 256" shows "octets (bits_of 8 b @ r) = b # octets r"
proof -
  have u: "[0..<8] = [0, 1, 2, 3, 4, 5, 6, 7 :: nat]" by (simp add: upt_rec eval_nat_numeral)
  have "bits_of 8 b = [bit b 7, bit b 6, bit b 5, bit b 4, bit b 3, bit b 2, bit b 1, bit b 0]"
    by (simp add: bits_of_def u)
  moreover have "bits_val (bits_of 8 b) = b" using assms by (simp add: bits_val_of take_bit_nat_eq_self)
  ultimately show ?thesis by simp
qed

lemma octets_bytes: "bytes_ok bs \<Longrightarrow> octets (concat (map (bits_of 8) bs) @ r) = bs @ octets r"
  by (induction bs) (simp_all add: octets_byte bytes_ok_def)

lemma decode_quintet: "length q = 5 \<Longrightarrow> bits_of 5 (index_of (quintet_char q) BASE32_ALPHABET) = q"
  using bits_val_less [of q] index_of_nth [OF alphabet32(2)] bits_of_val [of q] by (simp add: alphabet32)

lemma decode_address:
  assumes "ed_ok ed" "bytes_ok pk" "algorandAddressFromPublicKey ed pk = Inr a"
  shows "reference_decodeAddress a = pk"
proof -
  have l: "length pk = 32"
    using assms(3) by (auto simp: algorandAddressFromPublicKey_def ED25519_PUBLIC_KEY_BYTES_def split: if_splits)
  let ?bs = "pk @ drop 28 (ed_sha512_256 ed pk)"
  let ?bits = "concat (map (bits_of 8) ?bs)"
  have "bytes_ok ?bs"
    using assms(1,2) by (auto simp: ed_ok_def bytes_ok_def list_all_iff dest: in_set_dropD)
  moreover have "a = base32Encode ?bs" using address_of_key [OF assms(1) l assms(2)] assms(3) by (metis sum.inject(2))
  ultimately have "a = map quintet_char (quintets ?bits)"
    using base32_loop_spec [of ?bs 0 0] by (simp add: base32Encode_def low_def)
  then have "concat (map (\<lambda>c. bits_of 5 (index_of c BASE32_ALPHABET)) a) = concat (quintets ?bits)"
    using quintets_length decode_quintet by (simp add: o_def cong: map_cong)
  also have "\<dots> = ?bits @ drop (length ?bits) (concat (quintets ?bits))"
    using concat_quintets [of ?bits] by (metis append_take_drop_id)
  finally have e: "concat (map (\<lambda>c. bits_of 5 (index_of c BASE32_ALPHABET)) a)
      = ?bits @ drop (length ?bits) (concat (quintets ?bits))" .
  show ?thesis
    unfolding reference_decodeAddress_def e octets_bytes [OF \<open>bytes_ok ?bs\<close>] using l by simp
qed

subsection \<open>Cryptography that keeps the laws\<close>

definition demo_ed :: ed25519 where
  "demo_ed = \<lparr>ed_sha512_256 = (\<lambda>_. replicate 32 0),
     ed_public_spki = (\<lambda>der. let pk = drop 16 der in
       if length pk = 32 \<and> bytes_ok pk then Some (ED25519_SPKI_PREFIX @ pk) else None),
     ed_sign = (\<lambda>_ _. replicate 64 0), ed_verify = (\<lambda>_ _ sig. sig = replicate 64 0)\<rparr>"

lemma demo_ed_ok: "ed_ok demo_ed"
  by (auto simp: ed_ok_def demo_ed_def bytes_ok_def list_all_iff Let_def split: if_splits)

definition demo_secret :: string where "demo_secret = b64_encode (replicate 64 7)"

lemma demo_secret_b64: "isBase64OfLength demo_secret 64" "b64_decode demo_secret = replicate 64 7"
proof -
  have b: "bytes_ok (replicate 64 7)" by (simp add: bytes_ok_def list_all_iff)
  from isBase64OfLength_encode [OF b] show "isBase64OfLength demo_secret 64" by (simp add: demo_secret_def)
  from decode_encode [OF b] show "b64_decode demo_secret = replicate 64 7" by (simp only: demo_secret_def)
qed

lemma demo_key_loads: "\<exists>k. loadOperatorKey demo_ed demo_secret = Inr k"
proof -
  have b: "length (replicate 32 (7::nat)) = 32" "bytes_ok (replicate 32 7)" by (simp_all add: bytes_ok_def list_all_iff)
  obtain a where a: "algorandAddressFromPublicKey demo_ed (replicate 32 7) = Inr a"
    by (rule address_of_key [OF demo_ed_ok b])
  have p: "ed_public_spki demo_ed (PKCS8_ED25519_PREFIX @ replicate 32 7) = Some (ED25519_SPKI_PREFIX @ replicate 32 7)"
    using b by (simp add: demo_ed_def PKCS8_ED25519_PREFIX_def Let_def)
  have "decodeBase64Exact demo_secret 64 l = Inr (replicate 64 7)" for l
    using demo_secret_b64 by (simp add: decode_exact_iff)
  with a p show ?thesis
    by (simp add: loadOperatorKey_def ALGORAND_SECRET_KEY_BYTES_def ED25519_SEED_BYTES_def ED25519_PUBLIC_KEY_BYTES_def
      Let_def)
qed

subsection \<open>Properties of the encoder\<close>

text \<open>
  The accumulator loop of \<open>base32Encode\<close>, which never masks its 32-bit buffer, computes the
  RFC 4648 encoding: the bits of the bytes from the left, cut into groups of five, the last one
  padded with zeros, one character of the alphabet for each.
\<close>

theorem base32_is_rfc4648: "bytes_ok bs \<Longrightarrow> base32Encode bs = base32_reference bs"
  using base32_loop_spec [of bs 0 0] by (simp add: base32Encode_def base32_reference_def low_def)

lemma base32_is_rfc4648_witness: "base32Encode [255, 0, 171] = base32_reference [255, 0, 171]"
  by (rule base32_is_rfc4648) (simp add: bytes_ok_def)

text \<open>
  An Algorand address is well formed and stands for one key: every public key of 32 bytes has
  an address, of 58 characters of the base32 alphabet (the schema's `algorand_address`), decoding it
  gives the key back, and so two different keys never share a payout address. The hypothesis is
  that digests are 32 bytes.
\<close>

theorem address_identifies_key:
  assumes "ed_ok ed" and "length pk = ED25519_PUBLIC_KEY_BYTES" and "bytes_ok pk"
  shows "\<exists>a. algorandAddressFromPublicKey ed pk = Inr a \<and> algorand_address a \<and> reference_decodeAddress a = pk \<and>
    (\<forall>pk'. bytes_ok pk' \<and> algorandAddressFromPublicKey ed pk' = Inr a \<longrightarrow> pk' = pk)"
proof -
  obtain a where a: "algorandAddressFromPublicKey ed pk = Inr a" "algorand_address a"
    by (rule address_of_key [OF assms(1) _ assms(3)]) (use assms(2) in \<open>simp add: ED25519_PUBLIC_KEY_BYTES_def\<close>)
  with decode_address [OF assms(1,3)] decode_address [OF assms(1)] show ?thesis by metis
qed

lemma address_identifies_key_witness:
  "\<exists>a. algorandAddressFromPublicKey demo_ed [0..<32] = Inr a \<and> reference_decodeAddress a = [0..<32]"
proof -
  have "length [0..<32] = ED25519_PUBLIC_KEY_BYTES" "bytes_ok [0..<32]"
    by (simp_all add: ED25519_PUBLIC_KEY_BYTES_def bytes_ok_def list_all_iff)
  from address_identifies_key [OF demo_ed_ok this] show ?thesis by blast
qed

end
