(* ===== verification/DaemonConfig.thy ===== *)
theory DaemonConfig
  imports Keys
begin

section \<open>Daemon configuration (packages/shared/src/config.ts)\<close>

text \<open>
  \<open>DaemonEnvSchema\<close> and \<open>loadDaemonConfig\<close>. \<open>Number\<close> of a string (used for one port) is written out:
  decimal literals with fraction and exponent, the three radix prefixes, \<open>Infinity\<close>. The base64 of
  \<open>Buffer.from\<close> also reads the URL-safe alphabet, which matters here because the schema
  checks the decoded length only; \<open>loadOperatorKey\<close> is what rejects other spellings of a key.
\<close>

definition DEFAULT_HEARTBEAT_INTERVAL_MS :: int where "DEFAULT_HEARTBEAT_INTERVAL_MS = 15000"
definition PROVIDER_VALUES :: "string list" where "PROVIDER_VALUES = [''ollama'', ''vllm'', ''openai'']"

definition PROVIDER_DEFAULT_BASE_URL :: "(string, string) jsmap" where
  "PROVIDER_DEFAULT_BASE_URL =
     [(''ollama'', ''http://127.0.0.1:11434''), (''vllm'', ''http://127.0.0.1:8000''),
      (''openai'', ''https://api.openai.com'')]"

subsection \<open>\<open>Number\<close> of a string\<close>

definition radix_number :: "nat \<Rightarrow> string \<Rightarrow> jsnum" where
  "radix_number b ds =
     (let lowered = map lower_char ds
      in if ds \<noteq> [] \<and> list_all (\<lambda>c. (is_digit c \<or> is_lower_ascii c) \<and> digit_val c < b) lowered
         then js_of_rat (of_nat (radix_val b lowered)) else NaN)"

definition exponent_value :: "string \<Rightarrow> int option" where
  "exponent_value s = (case s of
      [] \<Rightarrow> Some 0
    | c # r \<Rightarrow>
        if c \<noteq> CHR ''e'' \<and> c \<noteq> CHR ''E'' then None
        else (case r of
            [] \<Rightarrow> None
          | d # ds \<Rightarrow>
              let digits = (if d = CHR ''+'' \<or> d = CHR ''-'' then ds else r)
              in if digits = [] \<or> \<not> list_all is_digit digits then None
                 else Some (if d = CHR ''-'' then - int (dec_val digits) else int (dec_val digits))))"

definition unsigned_decimal :: "string \<Rightarrow> rat option" where
  "unsigned_decimal s =
     (let whole = takeWhile is_digit s;
          r = dropWhile is_digit s;
          dotted = (r \<noteq> [] \<and> hd r = CHR ''.'');
          frac = (if dotted then takeWhile is_digit (tl r) else []);
          r' = (if dotted then dropWhile is_digit (tl r) else r)
      in if whole = [] \<and> frac = [] then None
         else map_option (\<lambda>e. of_nat (dec_val (whole @ frac)) * 10 powi (e - int (length frac))) (exponent_value r'))"

definition signed_decimal :: "string \<Rightarrow> jsnum" where
  "signed_decimal s =
     (let neg = (s \<noteq> [] \<and> hd s = CHR ''-'');
          body = (if s \<noteq> [] \<and> (hd s = CHR ''-'' \<or> hd s = CHR ''+'') then tl s else s);
          v = (if body = ''Infinity'' then PosInf
               else (case unsigned_decimal body of None \<Rightarrow> NaN | Some q \<Rightarrow> js_of_rat q))
      in if neg then js_neg v else v)"

definition js_number :: "string \<Rightarrow> jsnum" where
  "js_number raw =
     (let s = trim raw; prefix = map lower_char (take 2 s)
      in if s = [] then Fin 0
         else if prefix = ''0x'' then radix_number 16 (drop 2 s)
         else if prefix = ''0o'' then radix_number 8 (drop 2 s)
         else if prefix = ''0b'' then radix_number 2 (drop 2 s)
         else signed_decimal s)"

subsection \<open>Field readers of the daemon\<close>

definition requiredUrlField :: "(string \<Rightarrow> url option) \<Rightarrow> string option \<Rightarrow> string option" where
  "requiredUrlField parse v = obind (envValue v) (check (url_ok parse))"

definition listenPortField :: "string option \<Rightarrow> int option option" where
  "listenPortField v = (case envValue v of
      None \<Rightarrow> Some None
    | Some raw \<Rightarrow> map_option Some (z_int (\<lambda>i. 1 \<le> i \<and> i \<le> 65535) (JNum (js_number raw))))"

definition modelsField :: "string option \<Rightarrow> string list option" where
  "modelsField v = obind (envValue v) (\<lambda>raw.
     check (\<lambda>ms. len_between 1 64 ms \<and> list_all (len_between 1 200) ms)
       (filter (\<lambda>m. m \<noteq> []) (map trim (split_on CHR '','' raw))))"

definition url_safe :: "char \<Rightarrow> char" where
  "url_safe c = (if c = CHR ''-'' then CHR ''+'' else if c = CHR ''_'' then CHR ''/'' else c)"

definition privateKeyField :: "string option \<Rightarrow> string option" where
  "privateKeyField v = obind (envValue v)
     (check (\<lambda>s. length (b64_decode (map url_safe s)) = ALGORAND_SECRET_KEY_BYTES))"

record daemon_env =
  de_gateway_url :: string
  de_node_id :: string
  de_endpoint :: string
  de_port :: "int option"
  de_provider :: string
  de_provider_url :: "string option"
  de_models :: "string list"
  de_network :: string
  de_x402_network :: "string option"
  de_heartbeat :: int
  de_max_concurrency :: int
  de_private_key :: string

definition DaemonEnvSchema :: "(string \<Rightarrow> url option) \<Rightarrow> environment \<Rightarrow> daemon_env option" where
  "DaemonEnvSchema parse env =
     obind (requiredUrlField parse (env ''MESH_GATEWAY_URL'')) (\<lambda>gateway.
     obind (obind (envValue (env ''MESH_NODE_ID'')) (check node_id_ok)) (\<lambda>nodeId.
     obind (requiredUrlField parse (env ''MESH_NODE_ENDPOINT'')) (\<lambda>endpoint.
     obind (listenPortField (env ''MESH_NODE_PORT'')) (\<lambda>port.
     obind (enumField PROVIDER_VALUES ''ollama'' (env ''MESH_PROVIDER'')) (\<lambda>provider.
     obind (optionalUrlField parse (env ''MESH_PROVIDER_BASE_URL'')) (\<lambda>base.
     obind (modelsField (env ''MESH_MODELS'')) (\<lambda>models.
     obind (enumField MESH_NETWORK_VALUES ''testnet'' (env ''MESH_NETWORK'')) (\<lambda>meshNet.
     obind (optionalStringField 128 (env ''X402_NETWORK'')) (\<lambda>x402Net.
     obind (intField DEFAULT_HEARTBEAT_INTERVAL_MS 1000 600000 (env ''MESH_HEARTBEAT_INTERVAL_MS'')) (\<lambda>beat.
     obind (intField DEFAULT_MAX_CONCURRENT_PER_NODE 1 1024 (env ''MESH_MAX_CONCURRENCY'')) (\<lambda>maxc.
     obind (privateKeyField (env ''AVM_PRIVATE_KEY'')) (\<lambda>key.
       Some \<lparr>de_gateway_url = gateway, de_node_id = nodeId, de_endpoint = endpoint, de_port = port,
         de_provider = provider, de_provider_url = base, de_models = models, de_network = meshNet,
         de_x402_network = x402Net, de_heartbeat = beat, de_max_concurrency = maxc,
         de_private_key = key\<rparr>))))))))))))"

record daemon_config =
  d_gatewayUrl :: string
  d_nodeId :: string
  d_endpoint :: string
  d_listenPort :: "int option"
  d_provider :: string
  d_providerBaseUrl :: string
  d_models :: "string list"
  d_network :: string
  d_heartbeatIntervalMs :: int
  d_maxConcurrency :: int
  d_privateKeyB64 :: string

definition loadDaemonConfig :: "avm \<Rightarrow> (string \<Rightarrow> url option) \<Rightarrow> environment \<Rightarrow> daemon_config res" where
  "loadDaemonConfig a parse env =
     bind_res (parseEnv (DaemonEnvSchema parse) env ''node daemon'') (\<lambda>p.
     bind_res (resolveNetwork a env (mesh_of_name (de_network p)) (de_x402_network p)) (\<lambda>(network, mesh).
       Inr \<lparr>d_gatewayUrl = stripTrailingSlash (de_gateway_url p), d_nodeId = de_node_id p,
         d_endpoint = stripTrailingSlash (de_endpoint p), d_listenPort = de_port p,
         d_provider = de_provider p,
         d_providerBaseUrl = stripTrailingSlash (case de_provider_url p of
             Some u \<Rightarrow> u
           | None \<Rightarrow> (case jget PROVIDER_DEFAULT_BASE_URL (de_provider p) of Some u \<Rightarrow> u | None \<Rightarrow> ''undefined'')),
         d_models = de_models p, d_network = network, d_heartbeatIntervalMs = de_heartbeat p,
         d_maxConcurrency = de_max_concurrency p, d_privateKeyB64 = de_private_key p\<rparr>))"

subsection \<open>What a loaded configuration satisfies\<close>

definition daemon_ok :: "avm \<Rightarrow> daemon_config \<Rightarrow> bool" where
  "daemon_ok a c \<longleftrightarrow>
     node_id_ok (d_nodeId c) \<and> (\<exists>n. d_network c = toCaip2 a n) \<and>
     len_between 1 64 (d_models c) \<and> list_all (len_between 1 200) (d_models c) \<and>
     length (d_endpoint c) \<le> 512 \<and>
     no_trailing_slash (d_gatewayUrl c) \<and> no_trailing_slash (d_endpoint c) \<and>
     d_provider c \<in> set PROVIDER_VALUES \<and>
     (case d_listenPort c of None \<Rightarrow> True | Some p \<Rightarrow> 1 \<le> p \<and> p \<le> 65535) \<and>
     1000 \<le> d_heartbeatIntervalMs c \<and> d_heartbeatIntervalMs c \<le> 600000 \<and>
     1 \<le> d_maxConcurrency c \<and> d_maxConcurrency c \<le> 1024"

lemma length_strip: "length (stripTrailingSlash u) \<le> length u"
  unfolding stripTrailingSlash_def using length_dropWhile_le [of "\<lambda>c. c = CHR ''/''" "rev u"] by auto

lemma daemon_env_fields:
  assumes "DaemonEnvSchema parse env = Some p"
  shows "node_id_ok (de_node_id p)" "length (de_endpoint p) \<le> 512"
    "case de_port p of None \<Rightarrow> True | Some i \<Rightarrow> 1 \<le> i \<and> i \<le> 65535"
    "de_provider p \<in> set PROVIDER_VALUES"
    "len_between 1 64 (de_models p) \<and> list_all (len_between 1 200) (de_models p)"
    "1000 \<le> de_heartbeat p \<and> de_heartbeat p \<le> 600000"
    "1 \<le> de_max_concurrency p \<and> de_max_concurrency p \<le> 1024"
proof -
  have *: "obind (envValue (env ''MESH_NODE_ID'')) (check node_id_ok) = Some (de_node_id p) \<and>
    requiredUrlField parse (env ''MESH_NODE_ENDPOINT'') = Some (de_endpoint p) \<and>
    listenPortField (env ''MESH_NODE_PORT'') = Some (de_port p) \<and>
    enumField PROVIDER_VALUES ''ollama'' (env ''MESH_PROVIDER'') = Some (de_provider p) \<and>
    modelsField (env ''MESH_MODELS'') = Some (de_models p) \<and>
    intField DEFAULT_HEARTBEAT_INTERVAL_MS 1000 600000 (env ''MESH_HEARTBEAT_INTERVAL_MS'') = Some (de_heartbeat p) \<and>
    intField DEFAULT_MAX_CONCURRENT_PER_NODE 1 1024 (env ''MESH_MAX_CONCURRENCY'') = Some (de_max_concurrency p)"
    using assms unfolding DaemonEnvSchema_def
    apply (elim bind_SomeE)
    apply (drule option.inject [THEN iffD1])
    apply hypsubst
    apply (simp only: daemon_env.simps simp_thms Option.bind.simps)
    done
  show "node_id_ok (de_node_id p)" using * by (elim conjE bind_SomeE) (simp add: check_Some)
  show "length (de_endpoint p) \<le> 512"
    using * by (elim conjE) (auto simp: requiredUrlField_def check_Some url_ok_def split: Option.bind_splits)
  show "case de_port p of None \<Rightarrow> True | Some i \<Rightarrow> 1 \<le> i \<and> i \<le> 65535"
    using * by (elim conjE) (auto simp: listenPortField_def split: option.splits dest: z_int_Some)
  show "de_provider p \<in> set PROVIDER_VALUES" using * by (elim conjE) (auto simp: enumField_def check_Some)
  show "len_between 1 64 (de_models p) \<and> list_all (len_between 1 200) (de_models p)"
    using * by (elim conjE) (auto simp: modelsField_def check_Some split: Option.bind_splits)
  show "1000 \<le> de_heartbeat p \<and> de_heartbeat p \<le> 600000" using * by (elim conjE) (rule intField_range)
  show "1 \<le> de_max_concurrency p \<and> de_max_concurrency p \<le> 1024" using * by (elim conjE) (rule intField_range)
qed

lemma loaded_daemon_ok:
  assumes "sdk_ok a" and "loadDaemonConfig a parse env = Inr c"
  shows "daemon_ok a c"
proof -
  obtain p network mesh where p: "DaemonEnvSchema parse env = Some p"
    and n: "resolveNetwork a env (mesh_of_name (de_network p)) (de_x402_network p) = Inr (network, mesh)"
    and c: "d_nodeId c = de_node_id p" "d_endpoint c = stripTrailingSlash (de_endpoint p)"
      "no_trailing_slash (d_gatewayUrl c)" "d_listenPort c = de_port p" "d_provider c = de_provider p"
      "d_models c = de_models p" "d_network c = network" "d_heartbeatIntervalMs c = de_heartbeat p"
      "d_maxConcurrency c = de_max_concurrency p"
    using assms(2)
    by (auto simp: loadDaemonConfig_def bind_res_Inr_iff parseEnv_def strip_no_trailing split: option.splits)
  have "length (d_endpoint c) \<le> 512"
    using daemon_env_fields(2) [OF p] length_strip [of "de_endpoint p"] by (simp add: c(2))
  with daemon_env_fields [OF p] resolveNetwork_consistent [OF assms(1) n] show ?thesis
    by (auto simp: daemon_ok_def c strip_no_trailing)
qed

end
