(* ===== verification/Onboarding.thy ===== *)
theory Onboarding
  imports DaemonConfig
begin

section \<open>Registering a node (packages/node-daemon/src/registration.ts, http.ts)\<close>

text \<open>
  The daemon builds, checks and signs its registration and posts it until the gateway answers. What
  an attempt meets (clock, nonce, the gateway's reply, the abort signal, the random draw) is an
  \<open>attempt\<close>; what \<open>registerNode\<close> does is its list of \<open>reg_event\<close>s. The JSON text on the wire is the
  value it stands for. The signed projection of a registration and its JSON object are the same
  object. An abort is a foreign exception, not a \<open>MeshError\<close>.
\<close>

definition REGISTER_PATH :: string where "REGISTER_PATH = ''/v1/nodes/register''"
definition DEFAULT_CONTEXT_WINDOW :: int where "DEFAULT_CONTEXT_WINDOW = 8192"
definition DEFAULT_PRICE_PER_1K_TOKENS_USDC :: string where
  "DEFAULT_PRICE_PER_1K_TOKENS_USDC = DEFAULT_NODE_PAYOUT_USDC"
definition DEFAULT_MAX_ATTEMPTS :: int where "DEFAULT_MAX_ATTEMPTS = 4"
definition DEFAULT_RETRY_BASE_MS :: int where "DEFAULT_RETRY_BASE_MS = 500"
definition DEFAULT_RETRY_MAX_MS :: int where "DEFAULT_RETRY_MAX_MS = 8000"
definition DAEMON_VERSION :: string where "DAEMON_VERSION = ''0.1.0''"
definition SNIPPET_BYTES :: nat where "SNIPPET_BYTES = 400"

subsection \<open>Building and signing\<close>

record capability_overrides =
  co_contextWindow :: "int option"
  co_pricePer1kTokensUsdc :: "string option"
  co_quantization :: "string option"

definition no_overrides :: capability_overrides where
  "no_overrides = \<lparr>co_contextWindow = None, co_pricePer1kTokensUsdc = None, co_quantization = None\<rparr>"

definition buildCapabilities :: "daemon_config \<Rightarrow> capability_overrides \<Rightarrow> node_capability list res" where
  "buildCapabilities cfg ov =
     (if length (d_models cfg) = 0 then throw ValidationErr ''a node must advertise at least one model''
      else let contextWindow = (case co_contextWindow ov of None \<Rightarrow> DEFAULT_CONTEXT_WINDOW | Some w \<Rightarrow> w);
               price = (case co_pricePer1kTokensUsdc ov of None \<Rightarrow> DEFAULT_PRICE_PER_1K_TOKENS_USDC | Some p \<Rightarrow> p)
           in Inr (map (\<lambda>model. \<lparr>c_model = model, c_contextWindow = contextWindow,
                c_pricePer1kTokensUsdc = price, c_quantization = co_quantization ov\<rparr>) (d_models cfg)))"

definition registration_json :: "node_registration \<Rightarrow> jsval" where
  "registration_json r = registration_projection r (r_network r)"

definition buildRegistration ::
  "avm \<Rightarrow> (string \<Rightarrow> url option) \<Rightarrow> daemon_config \<Rightarrow> operator_key \<Rightarrow> capability_overrides \<Rightarrow>
   int \<Rightarrow> string \<Rightarrow> node_registration res" where
  "buildRegistration a parse cfg key ov now nonce =
     bind_res (buildCapabilities cfg ov) (\<lambda>caps.
       parseOrThrow (NodeRegistrationSchema a parse)
         (registration_json \<lparr>r_nodeId = d_nodeId cfg, r_operatorAddress = ok_address key,
            r_endpoint = d_endpoint cfg, r_capabilities = caps, r_network = d_network cfg,
            r_version = DAEMON_VERSION, r_timestamp = now, r_nonce = nonce\<rparr>)
         ''node registration'')"

definition envelope_json :: "signed_registration \<Rightarrow> jsval" where
  "envelope_json s = JObj
     [(''registration'', registration_json (sr_registration s)), (''signature'', JStr (sr_signature s)),
      (''publicKey'', JStr (sr_publicKey s))]"

definition signRegistration ::
  "avm \<Rightarrow> (string \<Rightarrow> url option) \<Rightarrow> (rat \<Rightarrow> string) \<Rightarrow> ed25519 \<Rightarrow> node_registration \<Rightarrow> operator_key \<Rightarrow>
   signed_registration res" where
  "signRegistration a parse fmt ed r key =
     bind_res (canonicalRegistrationBytes fmt a r) (\<lambda>message.
       parseOrThrow (SignedNodeRegistrationSchema a parse)
         (envelope_json \<lparr>sr_registration = r, sr_signature = signB64 ed key message,
            sr_publicKey = ok_publicKeyB64 key\<rparr>)
         ''signed node registration'')"

subsection \<open>HTTP helpers\<close>

definition joinUrl :: "string \<Rightarrow> string \<Rightarrow> string" where
  "joinUrl base path =
     (let left = (if base \<noteq> [] \<and> last base = CHR ''/'' then butlast base else base);
          right = (if starts_with ''/'' path then path else CHR ''/'' # path)
      in left @ right)"

definition isRetryableStatus :: "nat \<Rightarrow> bool" where
  "isRetryableStatus status \<longleftrightarrow> status = 408 \<or> status = 425 \<or> status = 429 \<or> 500 \<le> status"

text \<open>\<open>2 **\<close> a small natural number is exact.\<close>

definition retry_backoffMs :: "nat \<Rightarrow> int \<Rightarrow> int \<Rightarrow> jsnum \<Rightarrow> jsnum" where
  "retry_backoffMs attempt baseMs maxMs draw =
     (let exponential = js_min (js_int maxMs) (js_mul (js_int baseMs) (js_of_rat (2 ^ (attempt - 1))))
      in js_floor (js_mul draw exponential))"

text \<open>A rejection of \<open>fetch\<close>: an abort (the deadline or the caller), or a transport error.\<close>

datatype rejection_cause = AbortError | OtherError string

definition transportError :: "string \<Rightarrow> string \<Rightarrow> rejection_cause \<Rightarrow> thrown" where
  "transportError label what cause = (case cause of
      AbortError \<Rightarrow> Foreign ''AbortError''
    | OtherError message \<Rightarrow>
        Mesh (upstream_error (label @ '' '' @ what @ '' failed: '' @ message) [(''upstream'', JStr label)]))"

subsection \<open>The retry loop\<close>

datatype gateway_reply = Answered nat "string option" | Rejected rejection_cause

record attempt_input =
  ai_now :: int
  ai_nonce :: string
  ai_reply :: gateway_reply
  ai_signalAborted :: bool
  ai_draw :: jsnum
  ai_sleepAborted :: bool

record register_options =
  ro_overrides :: capability_overrides
  ro_maxAttempts :: "int option"
  ro_retryBaseMs :: "int option"
  ro_retryMaxMs :: "int option"

record daemon =
  dm_avm :: avm
  dm_parse :: "string \<Rightarrow> url option"
  dm_fmt :: "rat \<Rightarrow> string"
  dm_ed :: ed25519
  dm_config :: daemon_config
  dm_key :: operator_key

datatype reg_event = Posted string signed_registration | Slept jsnum

record register_result =
  rg_registration :: node_registration
  rg_status :: nat
  rg_attempts :: nat

definition maxAttempts_of :: "register_options \<Rightarrow> nat" where
  "maxAttempts_of opts = nat (max 1 (case ro_maxAttempts opts of None \<Rightarrow> DEFAULT_MAX_ATTEMPTS | Some m \<Rightarrow> m))"

definition retryBase_of :: "register_options \<Rightarrow> int" where
  "retryBase_of opts = (case ro_retryBaseMs opts of None \<Rightarrow> DEFAULT_RETRY_BASE_MS | Some b \<Rightarrow> b)"

definition retryMax_of :: "register_options \<Rightarrow> int" where
  "retryMax_of opts = (case ro_retryMaxMs opts of None \<Rightarrow> DEFAULT_RETRY_MAX_MS | Some b \<Rightarrow> b)"

definition attempt_envelope ::
  "daemon \<Rightarrow> capability_overrides \<Rightarrow> attempt_input \<Rightarrow> (node_registration \<times> signed_registration) res" where
  "attempt_envelope dm ov i =
     bind_res (buildRegistration (dm_avm dm) (dm_parse dm) (dm_config dm) (dm_key dm) ov (ai_now i) (ai_nonce i)) (\<lambda>r.
     bind_res (signRegistration (dm_avm dm) (dm_parse dm) (dm_fmt dm) (dm_ed dm) r (dm_key dm)) (\<lambda>s.
       Inr (r, s)))"

text \<open>The error of an attempt, and whether it ends the loop.\<close>

definition attempt_error :: "daemon \<Rightarrow> attempt_input \<Rightarrow> thrown \<times> bool" where
  "attempt_error dm i = (case ai_reply i of
      Answered status body \<Rightarrow>
        let snippet = (case body of None \<Rightarrow> [] | Some text \<Rightarrow> slice_to SNIPPET_BYTES text)
        in (Mesh (upstream_error (''gateway rejected node registration (HTTP '' @ nat_str status @ '')'')
               ([(''status'', JNum (Fin (of_nat status))), (''nodeId'', JStr (d_nodeId (dm_config dm)))] @
                (if snippet \<noteq> [] then [(''body'', JStr snippet)] else []))),
            \<not> isRetryableStatus status)
    | Rejected cause \<Rightarrow>
        (transportError ''gateway'' ''node registration'' cause, cause = AbortError \<and> ai_signalAborted i))"

definition accepted :: "gateway_reply \<Rightarrow> nat option" where
  "accepted rep = (case rep of
      Answered status body \<Rightarrow> if 200 \<le> status \<and> status \<le> 299 then Some status else None
    | Rejected cause \<Rightarrow> None)"

text \<open>
  The loop over the attempts that are left, the last of which is attempt number \<open>maxAttempts\<close>. Building
  and signing stand outside the \<open>try\<close>, so what they throw ends the loop; a delay of at most zero
  does not sleep; the empty list is the statement after the loop, which is not reached.
\<close>

fun register_loop ::
  "daemon \<Rightarrow> register_options \<Rightarrow> nat \<Rightarrow> attempt_input list \<Rightarrow>
   reg_event list \<times> (thrown + register_result)" where
  "register_loop dm opts attempt [] = ([], Inl (Mesh (upstream_error ''node registration failed''
     [(''nodeId'', JStr (d_nodeId (dm_config dm)))])))"
| "register_loop dm opts attempt (i # rest) =
     (case attempt_envelope dm (ro_overrides opts) i of
        Inl e \<Rightarrow> ([], Inl (Mesh \<lparr>me_class = exn_class e, me_message = exn_message e, me_details = None\<rparr>))
      | Inr (r, s) \<Rightarrow>
          let post = Posted (joinUrl (d_gatewayUrl (dm_config dm)) REGISTER_PATH) s
          in (case accepted (ai_reply i) of
                Some status \<Rightarrow> ([post], Inr \<lparr>rg_registration = r, rg_status = status, rg_attempts = attempt\<rparr>)
              | None \<Rightarrow>
                  (case attempt_error dm i of (err, fatal) \<Rightarrow>
                     if fatal \<or> rest = [] then ([post], Inl err)
                     else let ms = retry_backoffMs attempt (retryBase_of opts) (retryMax_of opts) (ai_draw i)
                          in if js_le ms (Fin 0)
                             then (case register_loop dm opts (Suc attempt) rest of (evs, out) \<Rightarrow> (post # evs, out))
                             else if ai_sleepAborted i then ([post, Slept ms], Inl (Foreign ''AbortError''))
                             else (case register_loop dm opts (Suc attempt) rest of
                                     (evs, out) \<Rightarrow> (post # Slept ms # evs, out)))))"

definition registerNode ::
  "daemon \<Rightarrow> register_options \<Rightarrow> (nat \<Rightarrow> attempt_input) \<Rightarrow> reg_event list \<times> (thrown + register_result)" where
  "registerNode dm opts inputs = register_loop dm opts 1 (map inputs [1..<Suc (maxAttempts_of opts)])"

subsection \<open>What the schema accepted, it accepts again unchanged\<close>

lemma z_string_JStr [simp]: "z_string ok (JStr s) = (if ok s then Some s else None)"
  by (simp add: z_string_def)

declare z_int_num [simp]

lemma capability_fields:
  assumes "NodeCapabilitySchema v = Some c"
  shows "isSafeModelId (c_model c)" "0 < c_contextWindow c" "c_contextWindow c \<le> 10000000"
    "usdc_amount_ok (c_pricePer1kTokensUsdc c)"
    "case c_quantization c of None \<Rightarrow> True | Some q \<Rightarrow> len_between 1 64 q"
  using assms
  by (auto simp: NodeCapabilitySchema_def z_string_Some z_optional_def dest!: z_int_Some
    split: Option.bind_splits if_splits option.splits)

lemma capability_reparse:
  assumes "NodeCapabilitySchema v = Some c"
  shows "NodeCapabilitySchema (projectCapability c) = Some c"
  using capability_fields [OF assms]
  by (cases "c_quantization c")
    (simp_all add: NodeCapabilitySchema_def projectCapability_def z_strict_def member_of_def z_optional_def)

lemma opt_list_length: "opt_list f xs = Some ys \<Longrightarrow> length ys = length xs"
  by (induction xs arbitrary: ys) (auto split: Option.bind_splits)

lemma opt_list_reparse:
  "opt_list f xs = Some ys \<Longrightarrow> (\<And>x y. f x = Some y \<Longrightarrow> f (g y) = Some y) \<Longrightarrow> opt_list f (map g ys) = Some ys"
  by (induction xs arbitrary: ys) (auto split: Option.bind_splits)

lemma z_array_reparse:
  assumes "z_array f lo hi v = Some ys" "\<And>x y. f x = Some y \<Longrightarrow> f (g y) = Some y"
  shows "z_array f lo hi (JArr (map g ys)) = Some ys"
proof -
  obtain vs where "v = JArr vs" "len_between lo hi vs" "opt_list f vs = Some ys"
    using assms(1) by (auto simp: z_array_def split: jsval.splits if_splits)
  with opt_list_length [of f vs ys] opt_list_reparse [of f vs ys g] assms(2) show ?thesis
    by (simp add: z_array_def len_between_def)
qed

lemma registration_fields:
  assumes "NodeRegistrationSchema a parse v = Some r"
  obtains caps net where "node_id_ok (r_nodeId r)" "algorand_address (r_operatorAddress r)"
    "endpoint_ok parse (r_endpoint r)" "z_array NodeCapabilitySchema 1 64 caps = Some (r_capabilities r)"
    "NetworkSchema a net = Some (r_network r)" "registration_version_ok (r_version r)"
    "0 < r_timestamp r" "r_timestamp r \<le> MAX_SAFE_INTEGER" "nonce_ok (r_nonce r)"
  using assms
  by (auto simp: NodeRegistrationSchema_def z_string_Some dest!: z_int_Some split: Option.bind_splits)

lemma network_reparse:
  assumes "sdk_ok a" "NetworkSchema a v = Some n"
  shows "NetworkSchema a (JStr n) = Some n"
proof -
  obtain raw where "normalizeNetwork a raw = Inr n"
    using assms(2) by (auto simp: NetworkSchema_def split: Option.bind_splits sum.splits)
  from normalize_idem [OF assms(1) this] have "normalizeNetwork a n = Inr n" .
  moreover then have "n \<noteq> []" by (auto simp: normalizeNetwork_def trim_def)
  ultimately show ?thesis by (simp add: NetworkSchema_def)
qed

lemma registration_reparse:
  assumes "sdk_ok a" "NodeRegistrationSchema a parse v = Some r"
  shows "NodeRegistrationSchema a parse (registration_json r) = Some r"
proof (rule registration_fields [OF assms(2)])
  fix caps net
  assume f: "node_id_ok (r_nodeId r)" "algorand_address (r_operatorAddress r)"
    "endpoint_ok parse (r_endpoint r)" "z_array NodeCapabilitySchema 1 64 caps = Some (r_capabilities r)"
    "NetworkSchema a net = Some (r_network r)" "registration_version_ok (r_version r)"
    "0 < r_timestamp r" "r_timestamp r \<le> MAX_SAFE_INTEGER" "nonce_ok (r_nonce r)"
  have "z_array NodeCapabilitySchema 1 64 (JArr (map projectCapability (r_capabilities r))) = Some (r_capabilities r)"
    by (rule z_array_reparse [OF f(4)]) (rule capability_reparse)
  with f network_reparse [OF assms(1) f(5)] show ?thesis
    by (simp add: NodeRegistrationSchema_def registration_json_def registration_projection_def z_strict_def
      registration_keys_def member_of_def)
qed

subsection \<open>What the daemon sends, the gateway admits\<close>

text \<open>The two ends use the same cryptography: the SDK's \<open>decodeAddress\<close> inverts the address derivation.\<close>

definition same_crypto :: "ed25519 \<Rightarrow> crypto \<Rightarrow> bool" where
  "same_crypto ed cy \<longleftrightarrow> ed_ok ed \<and>
     (\<forall>pk addr. bytes_ok pk \<and> algorandAddressFromPublicKey ed pk = Inr addr \<longrightarrow> cy_decodeAddress cy addr = Some pk) \<and>
     (\<forall>der spki. ed_public_spki ed der = Some spki \<longrightarrow> cy_createPublicKey cy spki) \<and>
     cy_verify cy = ed_verify ed"

lemma crypto_agrees:
  assumes "same_crypto ed cy" "key_ok ed key"
  shows "cy_decodeAddress cy (ok_address key) = Some (ok_publicKey key)" "length (ok_publicKey key) = 32"
    "cy_createPublicKey cy (ED25519_SPKI_PREFIX @ ok_publicKey key)"
    "cy_verify cy (ED25519_SPKI_PREFIX @ ok_publicKey key) message (key_sign ed key message)"
proof -
  have pk: "length (ok_publicKey key) = 32" "bytes_ok (ok_publicKey key)"
    "algorandAddressFromPublicKey ed (ok_publicKey key) = Inr (ok_address key)"
    "ed_public_spki ed (ok_private key) = Some (ED25519_SPKI_PREFIX @ ok_publicKey key)"
    using assms(2) by (simp_all add: key_ok_def)
  then show "cy_decodeAddress cy (ok_address key) = Some (ok_publicKey key)" "length (ok_publicKey key) = 32"
    "cy_createPublicKey cy (ED25519_SPKI_PREFIX @ ok_publicKey key)"
    "cy_verify cy (ED25519_SPKI_PREFIX @ ok_publicKey key) message (key_sign ed key message)"
    using assms(1) unfolding same_crypto_def ed_ok_def key_sign_def by (blast, blast, blast, metis)
qed

lemma parse_Inr: "parseOrThrow z v what = Inr x \<longleftrightarrow> z v = Some x"
  by (auto simp: parseOrThrow_def split: option.splits)

lemma build_registration:
  assumes "buildRegistration a parse cfg key ov now nonce = Inr r"
  shows "\<exists>v. NodeRegistrationSchema a parse v = Some r"
    and "r_nodeId r = d_nodeId cfg" "r_operatorAddress r = ok_address key" "r_endpoint r = d_endpoint cfg"
      "r_timestamp r = now" "r_nonce r = nonce" "normalizeNetwork a (d_network cfg) = Inr (r_network r)"
proof -
  obtain caps where v: "NodeRegistrationSchema a parse
      (registration_json \<lparr>r_nodeId = d_nodeId cfg, r_operatorAddress = ok_address key,
            r_endpoint = d_endpoint cfg, r_capabilities = caps, r_network = d_network cfg,
            r_version = DAEMON_VERSION, r_timestamp = now, r_nonce = nonce\<rparr>) = Some r"
    using assms by (auto simp: buildRegistration_def bind_res_Inr_iff parse_Inr)
  then show "\<exists>v. NodeRegistrationSchema a parse v = Some r" by blast
  from v show "r_nodeId r = d_nodeId cfg" "r_operatorAddress r = ok_address key" "r_endpoint r = d_endpoint cfg"
      "r_timestamp r = now" "r_nonce r = nonce" "normalizeNetwork a (d_network cfg) = Inr (r_network r)"
    by (auto simp: NodeRegistrationSchema_def registration_json_def registration_projection_def z_strict_def
      member_of_def NetworkSchema_def split: Option.bind_splits if_splits sum.splits)
qed

lemma sign_registration:
  assumes "sdk_ok a" "NodeRegistrationSchema a parse v = Some r" "same_crypto ed cy" "key_ok ed key"
    and "r_operatorAddress r = ok_address key"
    and "signRegistration a parse fmt ed r key = Inr s"
  shows "sr_registration s = r" "SignedNodeRegistrationSchema a parse (envelope_json s) = Some s"
    "verifyRegistrationSignature \<lparr>ne_avm = a, ne_parse = p, ne_fmt = fmt, ne_crypto = cy, ne_config = gc\<rparr> s = Inr ()"
proof -
  obtain message where m: "canonicalRegistrationBytes fmt a r = Inr message"
    and p: "SignedNodeRegistrationSchema a parse (envelope_json \<lparr>sr_registration = r,
      sr_signature = signB64 ed key message, sr_publicKey = ok_publicKeyB64 key\<rparr>) = Some s"
    using assms(6) by (auto simp: signRegistration_def bind_res_Inr_iff parse_Inr)
  have ed: "ed_ok ed" using assms(3) by (simp add: same_crypto_def)
  note k = key_roundtrip [OF ed assms(4)]
  have s: "s = \<lparr>sr_registration = r, sr_signature = signB64 ed key message, sr_publicKey = ok_publicKeyB64 key\<rparr>"
    using p registration_reparse [OF assms(1,2)] k(2,3)
    by (simp add: SignedNodeRegistrationSchema_def envelope_json_def z_strict_def member_of_def)
  with p show "sr_registration s = r" "SignedNodeRegistrationSchema a parse (envelope_json s) = Some s" by simp_all
  note c = crypto_agrees [OF assms(3,4)]
  show "verifyRegistrationSignature \<lparr>ne_avm = a, ne_parse = p, ne_fmt = fmt, ne_crypto = cy, ne_config = gc\<rparr> s = Inr ()"
    using m c k(4,5) assms(5)
    by (simp add: verifyRegistrationSignature_def s Let_def ED25519_PUBLIC_KEY_BYTES_def)
qed

end
