(* ===== verification/Heartbeat.thy ===== *)
theory Heartbeat
  imports Onboarding
begin

section \<open>The heartbeat loop (packages/node-daemon/src/heartbeat.ts)\<close>

text \<open>
  One beat (\<open>sendOnce\<close>) as a function of what it meets, and the loop as a state machine: the fields
  of \<open>HeartbeatLoop\<close>, the timers the scheduler holds, and the ticks in flight. A step is a call of
  \<open>start\<close>, \<open>stop\<close> or \<open>tick\<close>, a timer that fires, a tick whose \<open>sendOnce\<close> settles, or the continuation
  after it; calls may come between any two. Handles and ticks are numbered. Delays before jitter are
  integers below \<open>2\<^sup>5\<^sup>3\<close>, the jitter is binary64.
\<close>

subsection \<open>One beat\<close>

text \<open>\<open>encodeURIComponent\<close>: unreserved characters stay, other bytes of the UTF-8 form are escaped.\<close>

definition uri_unreserved :: "nat \<Rightarrow> bool" where
  "uri_unreserved b \<longleftrightarrow> b < 128 \<and> (let c = char_of b in is_alnum c \<or>
     c \<in> {CHR ''-'', CHR ''_'', CHR ''.'', CHR ''!'', CHR ''~'', CHR ''*'', CHR 0x27, CHR ''('', CHR '')''})"

definition hex_upper :: "nat \<Rightarrow> char" where
  "hex_upper d = char_of (if d < 10 then 48 + d else 55 + d)"

definition uri_byte :: "8 word \<Rightarrow> string" where
  "uri_byte w = (let b = unat w in if uri_unreserved b then [char_of b]
     else [CHR ''%'', hex_upper (b div 16), hex_upper (b mod 16)])"

definition encodeURIComponent :: "string \<Rightarrow> string" where
  "encodeURIComponent s = concat (map uri_byte (utf8 s))"

definition defaultHeartbeatPath :: "string \<Rightarrow> string" where
  "defaultHeartbeatPath nodeId = ''/v1/nodes/'' @ encodeURIComponent nodeId @ ''/heartbeat''"

definition signHeartbeat ::
  "(rat \<Rightarrow> string) \<Rightarrow> ed25519 \<Rightarrow> node_heartbeat \<Rightarrow> operator_key \<Rightarrow> signed_heartbeat res" where
  "signHeartbeat fmt ed h key = bind_res (canonicalHeartbeatBytes fmt h) (\<lambda>message.
     Inr \<lparr>sh_heartbeat = h, sh_signature = signB64 ed key message, sh_publicKey = ok_publicKeyB64 key\<rparr>)"

definition beat_json :: "signed_heartbeat \<Rightarrow> jsval" where
  "beat_json s = JObj
     [(''heartbeat'', heartbeat_projection (sh_heartbeat s)), (''signature'', JStr (sh_signature s)),
      (''publicKey'', JStr (sh_publicKey s))]"

record tick_result =
  tr_ok :: bool
  tr_status :: "nat option"
  tr_reregistered :: bool
  tr_error :: "thrown option"

record beat_input =
  bi_snapshot :: "rejection_cause + bool \<times> int"
  bi_now :: int
  bi_nonce :: string
  bi_reply :: gateway_reply
  bi_reregister :: "thrown option"

datatype beat_event = Beat string signed_heartbeat | Reregister

definition current_beat :: "daemon \<Rightarrow> beat_input \<Rightarrow> bool \<Rightarrow> int \<Rightarrow> node_heartbeat" where
  "current_beat dm i healthy inFlight =
     \<lparr>hb_nodeId = d_nodeId (dm_config dm), hb_healthy = healthy, hb_inFlight = inFlight,
      hb_maxConcurrency = d_maxConcurrency (dm_config dm), hb_version = DAEMON_VERSION,
      hb_timestamp = bi_now i, hb_nonce = bi_nonce i\<rparr>"

definition heartbeat_url :: "daemon \<Rightarrow> string" where
  "heartbeat_url dm = joinUrl (d_gatewayUrl (dm_config dm)) (defaultHeartbeatPath (d_nodeId (dm_config dm)))"

text \<open>The outer \<open>catch\<close>: no response was had.\<close>

definition beat_failed :: "daemon \<Rightarrow> rejection_cause \<Rightarrow> tick_result" where
  "beat_failed dm cause =
     \<lparr>tr_ok = False, tr_status = None, tr_reregistered = False,
      tr_error = Some (case cause of
         AbortError \<Rightarrow> Mesh (upstream_error ''heartbeat timed out'' [(''nodeId'', JStr (d_nodeId (dm_config dm)))])
       | OtherError _ \<Rightarrow> transportError ''gateway'' ''heartbeat'' cause)\<rparr>"

text \<open>What the answer of the gateway makes of the beat.\<close>

definition beat_answered :: "daemon \<Rightarrow> beat_input \<Rightarrow> nat \<Rightarrow> string option \<Rightarrow> beat_event list \<times> tick_result" where
  "beat_answered dm i status body =
     (if 200 \<le> status \<and> status < 300
      then ([], \<lparr>tr_ok = True, tr_status = Some status, tr_reregistered = False, tr_error = None\<rparr>)
      else if status = 404 \<or> status = 410
      then ([Reregister], \<lparr>tr_ok = (bi_reregister i = None), tr_status = Some status,
              tr_reregistered = (bi_reregister i = None), tr_error = bi_reregister i\<rparr>)
      else let snippet = (case body of None \<Rightarrow> [] | Some text \<Rightarrow> slice_to SNIPPET_BYTES text)
           in ([], \<lparr>tr_ok = False, tr_status = Some status, tr_reregistered = False,
              tr_error = Some (Mesh (upstream_error (''gateway rejected heartbeat (HTTP '' @ nat_str status @ '')'')
                ([(''status'', JNum (Fin (of_nat status))), (''nodeId'', JStr (d_nodeId (dm_config dm)))] @
                 (if snippet \<noteq> [] then [(''body'', JStr snippet)] else []))))\<rparr>))"

definition sendOnce :: "daemon \<Rightarrow> beat_input \<Rightarrow> beat_event list \<times> tick_result" where
  "sendOnce dm i = (case bi_snapshot i of
      Inl cause \<Rightarrow> ([], beat_failed dm cause)
    | Inr (healthy, inFlight) \<Rightarrow>
        (case signHeartbeat (dm_fmt dm) (dm_ed dm) (current_beat dm i healthy inFlight) (dm_key dm) of
           Inl e \<Rightarrow> ([], beat_failed dm (OtherError (exn_message e)))
         | Inr s \<Rightarrow>
             (case bi_reply i of
                Rejected cause \<Rightarrow> ([Beat (heartbeat_url dm) s], beat_failed dm cause)
              | Answered status body \<Rightarrow>
                  (case beat_answered dm i status body of
                     (evs, res) \<Rightarrow> (Beat (heartbeat_url dm) s # evs, res)))))"

subsection \<open>The state of the loop\<close>

definition DEFAULT_MAX_BACKOFF_MS :: int where "DEFAULT_MAX_BACKOFF_MS = 120000"
definition JITTER_FRACTION :: jsnum where "JITTER_FRACTION = js_of_rat (1/5)"

text \<open>A tick in flight: its number, whether a timer started it, whether \<open>sendOnce\<close> has settled.\<close>

record flying =
  fl_id :: nat
  fl_byTimer :: bool
  fl_settled :: bool

record hb_loop =
  hl_timer :: "nat option"
  hl_running :: bool
  hl_failures :: nat
  hl_inFlightTick :: "nat option"
  hl_armed :: "(nat \<times> jsnum) list"
  hl_ticks :: "flying list"
  hl_next :: nat

record hb_config =
  hc_interval :: int
  hc_maxBackoff :: int

definition new_loop :: hb_loop where
  "new_loop = \<lparr>hl_timer = None, hl_running = False, hl_failures = 0, hl_inFlightTick = None,
     hl_armed = [], hl_ticks = [], hl_next = 0\<rparr>"

definition nextDelayMs :: "hb_config \<Rightarrow> nat \<Rightarrow> int" where
  "nextDelayMs c failures =
     (if failures = 0 then hc_interval c
      else min (hc_maxBackoff c) (hc_interval c * 2 ^ min failures 16))"

definition jitter :: "int \<Rightarrow> jsnum \<Rightarrow> jsnum" where
  "jitter delayMs random =
     (let spread = js_mul (js_int delayMs) JITTER_FRACTION;
          offset = js_mul (js_sub (js_mul random (Fin 2)) (Fin 1)) spread
      in js_max (Fin 1) (js_round (js_add (js_int delayMs) offset)))"

definition clear_timer :: "hb_loop \<Rightarrow> hb_loop" where
  "clear_timer st = (case hl_timer st of
      None \<Rightarrow> st
    | Some h \<Rightarrow> st\<lparr>hl_armed := filter (\<lambda>a. fst a \<noteq> h) (hl_armed st)\<rparr>)"

definition schedule :: "int \<Rightarrow> jsnum \<Rightarrow> hb_loop \<Rightarrow> hb_loop" where
  "schedule delayMs random st =
     (if \<not> hl_running st then st
      else let st1 = clear_timer st
           in st1\<lparr>hl_armed := hl_armed st1 @ [(hl_next st1, jitter delayMs random)],
                  hl_timer := Some (hl_next st1), hl_next := Suc (hl_next st1)\<rparr>)"

definition scheduleNext :: "hb_config \<Rightarrow> jsnum \<Rightarrow> hb_loop \<Rightarrow> hb_loop" where
  "scheduleNext c random st =
     (if \<not> hl_running st then st else schedule (nextDelayMs c (hl_failures st)) random st)"

definition loop_start :: "hb_config \<Rightarrow> jsnum \<Rightarrow> hb_loop \<Rightarrow> hb_loop" where
  "loop_start c random st =
     (if hl_running st then st
      else schedule (hc_interval c) random (st\<lparr>hl_running := True, hl_failures := 0\<rparr>))"

definition loop_stop :: "hb_loop \<Rightarrow> hb_loop" where
  "loop_stop st = (clear_timer (st\<lparr>hl_running := False\<rparr>))\<lparr>hl_timer := None\<rparr>"

definition tick_begin :: "bool \<Rightarrow> hb_loop \<Rightarrow> hb_loop" where
  "tick_begin byTimer st =
     st\<lparr>hl_ticks := hl_ticks st @ [\<lparr>fl_id = hl_next st, fl_byTimer = byTimer, fl_settled = False\<rparr>],
        hl_inFlightTick := Some (hl_next st), hl_next := Suc (hl_next st)\<rparr>"

definition timer_fires :: "nat \<Rightarrow> hb_loop \<Rightarrow> hb_loop" where
  "timer_fires h st =
     tick_begin True (st\<lparr>hl_armed := filter (\<lambda>a. fst a \<noteq> h) (hl_armed st), hl_timer := None\<rparr>)"

definition tick_settles :: "nat \<Rightarrow> bool \<Rightarrow> hb_loop \<Rightarrow> hb_loop" where
  "tick_settles n ok st =
     st\<lparr>hl_ticks := map (\<lambda>t. if fl_id t = n then t\<lparr>fl_settled := True\<rparr> else t) (hl_ticks st),
        hl_failures := (if ok then 0 else Suc (hl_failures st))\<rparr>"

text \<open>The \<open>finally\<close> of \<open>tick\<close>, then \<open>scheduleNext\<close> where a timer started the tick.\<close>

definition tick_continues :: "hb_config \<Rightarrow> flying \<Rightarrow> jsnum \<Rightarrow> hb_loop \<Rightarrow> hb_loop" where
  "tick_continues c t random st =
     (let st1 = st\<lparr>hl_inFlightTick := (if hl_inFlightTick st = Some (fl_id t) then None else hl_inFlightTick st),
                   hl_ticks := filter (\<lambda>u. fl_id u \<noteq> fl_id t) (hl_ticks st)\<rparr>
      in if fl_byTimer t then scheduleNext c random st1 else st1)"

definition drained :: "hb_loop \<Rightarrow> bool" where
  "drained st \<longleftrightarrow> hl_inFlightTick st = None"

inductive hb_step :: "hb_config \<Rightarrow> hb_loop \<Rightarrow> hb_loop \<Rightarrow> bool" for c where
  Start: "0 \<le> u \<Longrightarrow> u < 1 \<Longrightarrow> hb_step c st (loop_start c (Fin u) st)"
| Stop: "hb_step c st (loop_stop st)"
| Tick: "hb_step c st (tick_begin False st)"
| Fire: "(h, d) \<in> set (hl_armed st) \<Longrightarrow> hb_step c st (timer_fires h st)"
| Settle: "t \<in> set (hl_ticks st) \<Longrightarrow> \<not> fl_settled t \<Longrightarrow> hb_step c st (tick_settles (fl_id t) ok st)"
| Continue: "t \<in> set (hl_ticks st) \<Longrightarrow> fl_settled t \<Longrightarrow> 0 \<le> u \<Longrightarrow> u < 1 \<Longrightarrow>
    hb_step c st (tick_continues c t (Fin u) st)"

inductive hb_reach :: "hb_config \<Rightarrow> hb_loop \<Rightarrow> bool" for c where
  Init: "hb_reach c new_loop"
| Step: "hb_reach c st \<Longrightarrow> hb_step c st st' \<Longrightarrow> hb_reach c st'"

subsection \<open>The invariant of the loop\<close>

definition delay_ok :: "hb_config \<Rightarrow> jsnum \<Rightarrow> bool" where
  "delay_ok c d \<longleftrightarrow> (\<exists>n k. let D = nextDelayMs c n in
     d = Fin (of_int k) \<and> 1 \<le> k \<and> \<bar>k - D\<bar> \<le> D div 5 + 1)"

definition ticks_ok :: "hb_loop \<Rightarrow> bool" where
  "ticks_ok st \<longleftrightarrow> (\<forall>n. hl_inFlightTick st = Some n \<longrightarrow> n \<in> fl_id ` set (hl_ticks st)) \<and>
     distinct (map fl_id (hl_ticks st)) \<and> (\<forall>t \<in> set (hl_ticks st). fl_id t < hl_next st)"

definition timer_ok :: "hb_config \<Rightarrow> hb_loop \<Rightarrow> bool" where
  "timer_ok c st \<longleftrightarrow> map fst (hl_armed st) = (case hl_timer st of None \<Rightarrow> [] | Some h \<Rightarrow> [h]) \<and>
     (\<forall>a \<in> set (hl_armed st). delay_ok c (snd a))"

definition loop_inv :: "hb_config \<Rightarrow> hb_loop \<Rightarrow> bool" where
  "loop_inv c st \<longleftrightarrow> timer_ok c st \<and> ticks_ok st \<and>
     (hl_timer st \<noteq> None \<longrightarrow> hl_running st) \<and>
     (hl_running st \<longrightarrow> hl_timer st \<noteq> None \<or> (\<exists>t \<in> set (hl_ticks st). fl_byTimer t))"

subsection \<open>The jitter stays in its band\<close>

lemma fifth_bound: "0 \<le> fl64 (1/5)" "fl64 (1/5) \<le> 1801439850948199 / 9007199254740992"
proof -
  have "fl64 (1/5) \<le> fl64 (of_int 1801439850948199 * 2 powi (- 53))"
    by (rule fl64_mono) (simp add: power_int_minus)
  also have "\<dots> = of_int 1801439850948199 * 2 powi (- 53)" by (rule fl64_dyadic) simp_all
  finally show "fl64 (1/5) \<le> 1801439850948199 / 9007199254740992" by (simp add: power_int_minus)
qed (simp add: b64.rnd_nonneg)

lemma jitter_fraction: "JITTER_FRACTION = Fin (fl64 (1/5))"
  unfolding JITTER_FRACTION_def by (rule js_of_rat_unit) simp_all

lemma jitter_band:
  assumes D: "0 \<le> D" "D < 2 ^ 51" and u: "0 \<le> u" "u < 1"
  shows "\<exists>k. jitter D (Fin u) = Fin (of_int k) \<and> 1 \<le> k \<and> \<bar>k - D\<bar> \<le> D div 5 + 1"
proof -
  define d where "d = D div 5 + 1"
  define q where "q = fl64 (1/5)"
  define x where "x = fl64 (of_int D * q)"
  define w where "w = fl64 (fl64 (u * 2) + - 1)"
  define y where "y = fl64 (w * x)"
  define z where "z = fl64 (of_int D + y)"
  have d: "1 \<le> d" "d < 2 ^ 51" using D by (simp_all add: d_def)
  have dq: "of_int D * q \<le> of_int d"
  proof -
    have "of_int D * q \<le> of_int D * (1801439850948199 / 9007199254740992)"
      using fifth_bound(2) D by (intro mult_left_mono) (simp_all add: q_def)
    also have "\<dots> \<le> of_int D / 5 + 1/5"
    proof -
      have "(of_int D :: rat) \<le> of_int (2 ^ 51)" using D by (simp only: of_int_le_iff)
      then show ?thesis by simp
    qed
    also have "of_int D / 5 + 1/5 \<le> (of_int d :: rat)"
    proof -
      have "5 * (D div 5) + D mod 5 = D" "D mod 5 < 5" by simp_all
      then have "D + 1 \<le> 5 * d" unfolding d_def by presburger
      then have "(of_int (D + 1) :: rat) \<le> of_int (5 * d)" by (simp only: of_int_le_iff)
      then show ?thesis by simp
    qed
    finally show ?thesis .
  qed
  have q0: "0 \<le> of_int D * q" using D fifth_bound(1) by (simp add: q_def)
  have x: "0 \<le> x" "x \<le> of_int d"
    using d dq q0 by (auto simp: x_def intro!: b64.rnd_nonneg b64.rnd_le_int)
  have v: "0 \<le> fl64 (u * 2)" "fl64 (u * 2) \<le> of_int 2"
    using u b64.rnd_le_int [of "u * 2" 2] by (auto intro!: b64.rnd_nonneg)
  have w: "of_int (- 1) \<le> w" "w \<le> of_int 1"
    unfolding w_def using v by (intro b64.rnd_ge_int b64.rnd_le_int; simp)+
  have wx: "w * x \<le> of_int d" "- of_int d \<le> w * x"
  proof -
    have "w * x \<le> 1 * x" using w x by (intro mult_right_mono) simp_all
    with x show "w * x \<le> of_int d" by simp
    have "(- 1) * x \<le> w * x" using w x by (intro mult_right_mono) simp_all
    with x show "- of_int d \<le> w * x" by simp
  qed
  have y: "of_int (- d) \<le> y" "y \<le> of_int d"
    unfolding y_def using wx d by (intro b64.rnd_ge_int b64.rnd_le_int; simp)+
  have z: "of_int (D - d) \<le> z" "z \<le> of_int (D + d)"
    unfolding z_def using y D d by (intro b64.rnd_ge_int b64.rnd_le_int; simp)+
  have js: "js_int D = Fin (of_int D)" using D by (simp add: js_int_small)
  have "js_mul (js_int D) JITTER_FRACTION = Fin x"
    unfolding js jitter_fraction js_mul.simps x_def q_def [symmetric]
    using dq q0 d by (intro js_of_rat_small [of _ d]) (auto simp: abs_of_nonneg)
  moreover have "js_mul (Fin u) (Fin 2) = Fin (fl64 (u * 2))"
    unfolding js_mul.simps using u by (intro js_of_rat_small [of _ 2]) auto
  moreover have "js_sub (Fin (fl64 (u * 2))) (Fin 1) = Fin w"
    unfolding js_sub_def js_neg.simps js_add.simps w_def using v by (intro js_of_rat_small [of _ 2]) auto
  moreover have "js_mul (Fin w) (Fin x) = Fin y"
    unfolding js_mul.simps y_def using wx d by (intro js_of_rat_small [of _ d]) (auto simp: abs_le_iff)
  moreover have "js_add (js_int D) (Fin y) = Fin z"
    unfolding js js_add.simps z_def using y D d by (intro js_of_rat_small [of _ "D + d"]) (auto simp: abs_le_iff)
  ultimately have j: "jitter D (Fin u) = Fin (max 1 (of_int \<lfloor>z + 1/2\<rfloor>))"
    by (simp add: jitter_def Let_def js_round_def)
  have k: "D - d \<le> \<lfloor>z + 1/2\<rfloor>" "\<lfloor>z + 1/2\<rfloor> \<le> D + d"
    using z by (simp_all add: le_floor_iff floor_le_iff)
  have "Fin (max 1 (of_int \<lfloor>z + 1/2\<rfloor>)) = Fin (of_int (max 1 \<lfloor>z + 1/2\<rfloor>))" by (simp add: of_int_max)
  moreover have "\<bar>max 1 \<lfloor>z + 1/2\<rfloor> - D\<bar> \<le> d" using k D d by linarith
  ultimately show ?thesis using j by (auto simp: d_def)
qed

subsection \<open>Every step keeps the invariant\<close>

definition hb_config_ok :: "hb_config \<Rightarrow> bool" where
  "hb_config_ok c \<longleftrightarrow> 0 \<le> hc_interval c \<and> hc_interval c < 2 ^ 34 \<and> 0 \<le> hc_maxBackoff c"

lemma nextDelay_range: "hb_config_ok c \<Longrightarrow> 0 \<le> nextDelayMs c n \<and> nextDelayMs c n < 2 ^ 51"
proof -
  assume c: "hb_config_ok c"
  have "(2 :: int) ^ min n 16 \<le> 2 ^ 16" by (rule power_increasing) simp_all
  then have "hc_interval c * 2 ^ min n 16 \<le> hc_interval c * 2 ^ 16"
    using c by (intro mult_left_mono) (simp_all add: hb_config_ok_def)
  with c show ?thesis by (auto simp: nextDelayMs_def hb_config_ok_def)
qed

lemma delay_ok_jitter:
  assumes "hb_config_ok c" "0 \<le> u" "u < 1"
  shows "delay_ok c (jitter (nextDelayMs c n) (Fin u))"
  using jitter_band [of "nextDelayMs c n" u] nextDelay_range [OF assms(1)] assms(2,3)
  unfolding delay_ok_def Let_def by blast

lemma armed_none: "timer_ok c st \<Longrightarrow> hl_timer st = None \<Longrightarrow> hl_armed st = []"
  by (simp add: timer_ok_def)

lemma armed_one:
  assumes "timer_ok c st" "hl_timer st = Some h"
  obtains d where "hl_armed st = [(h, d)]" "delay_ok c d"
proof -
  from assms have "map fst (hl_armed st) = [h]" by (simp add: timer_ok_def)
  then obtain d where d: "hl_armed st = [(h, d)]" by (cases "hl_armed st") auto
  with assms(1) have "delay_ok c d" by (simp add: timer_ok_def)
  with d show ?thesis by (rule that)
qed

text \<open>Arming a timer in a running loop gives exactly one, whatever was there.\<close>

lemma ticks_ok_cong:
  assumes "map fl_id (hl_ticks st') = map fl_id (hl_ticks st)"
    and "hl_inFlightTick st' = hl_inFlightTick st" "hl_next st' = hl_next st" "ticks_ok st"
  shows "ticks_ok st'"
proof -
  have "ticks_ok s \<longleftrightarrow> (\<forall>n. hl_inFlightTick s = Some n \<longrightarrow> n \<in> set (map fl_id (hl_ticks s))) \<and>
     distinct (map fl_id (hl_ticks s)) \<and> (\<forall>n \<in> set (map fl_id (hl_ticks s)). n < hl_next s)" for s
    by (simp add: ticks_ok_def)
  with assms show ?thesis by (simp only: simp_thms) blast
qed

lemma cleared: "timer_ok c st \<Longrightarrow> hl_armed (clear_timer st) = []"
proof -
  assume t: "timer_ok c st"
  show ?thesis
  proof (cases "hl_timer st")
    case (Some h)
    then obtain d where "hl_armed st = [(h, d)]" by (rule armed_one [OF t])
    then show ?thesis using Some by (simp add: clear_timer_def)
  qed (use t in \<open>simp add: timer_ok_def clear_timer_def\<close>)
qed

lemma clear_fields [simp]:
  "hl_next (clear_timer st) = hl_next st" "hl_ticks (clear_timer st) = hl_ticks st"
  "hl_running (clear_timer st) = hl_running st" "hl_inFlightTick (clear_timer st) = hl_inFlightTick st"
  by (simp_all add: clear_timer_def split: option.splits)

lemma schedule_inv:
  assumes "hb_config_ok c" "0 \<le> u" "u < 1" "timer_ok c st" "ticks_ok st" "hl_running st"
  shows "loop_inv c (schedule (nextDelayMs c n) (Fin u) st)"
  using assms cleared [OF assms(4)] delay_ok_jitter [OF assms(1-3)]
  by (auto simp: schedule_def Let_def loop_inv_def timer_ok_def ticks_ok_def)

lemma step_inv:
  assumes "hb_config_ok c" "loop_inv c st" "hb_step c st st'"
  shows "loop_inv c st'"
  using assms(3)
proof cases
  case (Start u)
  let ?s = "st\<lparr>hl_running := True, hl_failures := 0\<rparr>"
  have "timer_ok c ?s" "ticks_ok ?s" using assms(2) by (simp_all add: loop_inv_def timer_ok_def ticks_ok_def)
  from schedule_inv [OF assms(1) Start(2,3) this, of 0] Start assms(2) show ?thesis
    by (simp add: loop_start_def nextDelayMs_def)
next
  case Stop
  have "timer_ok c (st\<lparr>hl_running := False\<rparr>)" using assms(2) by (simp add: loop_inv_def timer_ok_def)
  from cleared [OF this] Stop assms(2) show ?thesis
    by (simp add: loop_stop_def loop_inv_def timer_ok_def ticks_ok_def)
next
  case Tick
  with assms(2) show ?thesis
    by (auto simp: loop_inv_def timer_ok_def ticks_ok_def tick_begin_def)
next
  case (Fire h d)
  have t: "timer_ok c st" using assms(2) by (simp add: loop_inv_def)
  obtain h' where h: "hl_timer st = Some h'" using Fire(2) armed_none [OF t] by (cases "hl_timer st") auto
  obtain d' where "hl_armed st = [(h', d')]" by (rule armed_one [OF t h])
  with Fire(2) have "hl_armed st = [(h, d)]" by simp
  with Fire(1) assms(2) show ?thesis
    by (auto simp: loop_inv_def timer_ok_def ticks_ok_def timer_fires_def tick_begin_def)
next
  case (Settle t ok)
  have "fl_id \<circ> (\<lambda>u. if fl_id u = fl_id t then u\<lparr>fl_settled := True\<rparr> else u) = fl_id" by (simp add: fun_eq_iff)
  then have m: "map fl_id (hl_ticks (tick_settles (fl_id t) ok st)) = map fl_id (hl_ticks st)"
    by (simp add: tick_settles_def)
  have "ticks_ok (tick_settles (fl_id t) ok st)"
    using assms(2) m by (intro ticks_ok_cong [OF m]) (simp_all add: loop_inv_def tick_settles_def)
  moreover have "(\<exists>v \<in> set (hl_ticks (tick_settles (fl_id t) ok st)). fl_byTimer v) \<longleftrightarrow>
      (\<exists>v \<in> set (hl_ticks st). fl_byTimer v)" (is "?L \<longleftrightarrow> ?R")
  proof -
    let ?f = "\<lambda>v. if fl_id v = fl_id t then v\<lparr>fl_settled := True\<rparr> else v"
    have "hl_ticks (tick_settles (fl_id t) ok st) = map ?f (hl_ticks st)" by (simp add: tick_settles_def)
    then have "?L \<longleftrightarrow> (\<exists>v \<in> ?f ` set (hl_ticks st). fl_byTimer v)" by (simp only: set_map)
    also have "\<dots> \<longleftrightarrow> (\<exists>v \<in> set (hl_ticks st). fl_byTimer (?f v))" by blast
    also have "(\<lambda>v. fl_byTimer (?f v)) = fl_byTimer" by (simp add: fun_eq_iff)
    finally show ?thesis .
  qed
  ultimately show ?thesis
    using assms(2) Settle(1) unfolding loop_inv_def timer_ok_def by (simp add: tick_settles_def)
next
  case (Continue t u)
  let ?s = "st\<lparr>hl_inFlightTick := (if hl_inFlightTick st = Some (fl_id t) then None else hl_inFlightTick st),
                   hl_ticks := filter (\<lambda>v. fl_id v \<noteq> fl_id t) (hl_ticks st)\<rparr>"
  have tk: "ticks_ok ?s" using assms(2) unfolding loop_inv_def ticks_ok_def
    by (auto simp: distinct_map_filter)
  have tm: "timer_ok c ?s" using assms(2) by (simp add: loop_inv_def timer_ok_def)
  show ?thesis
  proof (cases "fl_byTimer t \<and> hl_running st")
    case True
    with schedule_inv [OF assms(1) Continue(4,5) tm tk, of "hl_failures st"] Continue(1) show ?thesis
      by (simp add: tick_continues_def scheduleNext_def Let_def)
  next
    case False
    then have e: "st' = ?s" using Continue(1) by (auto simp: tick_continues_def scheduleNext_def Let_def)
    have keep: "\<exists>v \<in> set (hl_ticks ?s). fl_byTimer v" if "hl_running st" "w \<in> set (hl_ticks st)" "fl_byTimer w" for w
    proof -
      have "distinct (map fl_id (hl_ticks st))" using assms(2) by (simp add: loop_inv_def ticks_ok_def)
      with that Continue(2) False have "fl_id w \<noteq> fl_id t"
        by (metis distinct_map inj_onD)
      with that show ?thesis by auto
    qed
    show ?thesis
      unfolding e loop_inv_def using tk tm assms(2) keep by (auto simp: loop_inv_def)
  qed
qed

lemma reach_inv: "hb_config_ok c \<Longrightarrow> hb_reach c st \<Longrightarrow> loop_inv c st"
proof (rotate_tac, induction rule: hb_reach.induct)
  case Init
  show ?case by (simp add: loop_inv_def timer_ok_def ticks_ok_def new_loop_def)
qed (rule step_inv)

end
