(* ===== verification/DaemonProps.thy ===== *)
theory DaemonProps
  imports Onboarding NodeProps
begin

section \<open>The node daemon against the gateway\<close>

text \<open>
  What the daemon's registration needs in order to be built, that the gateway admits what the daemon
  sends, and what the retry loop posts.
\<close>

subsection \<open>When a registration can be built\<close>

lemma signable_bytes:
  assumes "signable r" "normalizeNetwork a (r_network r) = Inr n"
  shows "\<exists>b. canonicalRegistrationBytes fmt a r = Inr b"
proof -
  obtain t where "normal (registration_projection r n) = Some t"
    using plain_normal [OF plain_registration [OF assms(1)]] by blast
  from render_is_canonical [OF this] assms(2) show ?thesis by (simp add: canonicalRegistrationBytes_def)
qed

lemma sign_total:
  assumes "sdk_ok a" "NodeRegistrationSchema a parse v = Some r" "ed_ok ed" "key_ok ed key"
  shows "\<exists>s. signRegistration a parse fmt ed r key = Inr s \<and> sr_registration s = r"
proof -
  have "registration_ok a parse r" using assms(2) by (rule registration_schema_ok)
  then have sg: "signable r" by (rule registration_ok_signable)
  obtain raw where "normalizeNetwork a raw = Inr (r_network r)"
    using \<open>registration_ok a parse r\<close> by (auto simp: registration_ok_def)
  from normalize_idem [OF assms(1) this] signable_bytes [OF sg] obtain m
    where "canonicalRegistrationBytes fmt a r = Inr m" by blast
  with registration_reparse [OF assms(1,2)] key_roundtrip [OF assms(3,4)] show ?thesis
    by (simp add: signRegistration_def parseOrThrow_def SignedNodeRegistrationSchema_def envelope_json_def
      z_strict_def member_of_def)
qed

lemma default_price: "usdc_amount_ok DEFAULT_PRICE_PER_1K_TOKENS_USDC"
  by (simp add: DEFAULT_PRICE_PER_1K_TOKENS_USDC_def DEFAULT_NODE_PAYOUT_USDC_def usdc_amount_ok_def usdcToAtomic_def
    trim_def is_ws_def code_def Let_def starts_with_def decimal_match_def is_digit_def USDC_DECIMALS_def)

lemma opt_list_map:
  "opt_list f (map g xs) = (if list_all (\<lambda>x. f (g x) \<noteq> None) xs then Some (map (\<lambda>x. the (f (g x))) xs) else None)"
  by (induction xs) (auto split: Option.bind_splits)

abbreviation default_capability :: "string \<Rightarrow> node_capability" where
  "default_capability m \<equiv> \<lparr>c_model = m, c_contextWindow = DEFAULT_CONTEXT_WINDOW,
     c_pricePer1kTokensUsdc = DEFAULT_PRICE_PER_1K_TOKENS_USDC, c_quantization = None\<rparr>"

lemma default_capability_parses:
  "NodeCapabilitySchema (projectCapability (default_capability m)) = (if isSafeModelId m then Some (default_capability m) else None)"
  by (simp add: NodeCapabilitySchema_def projectCapability_def z_strict_def member_of_def z_optional_def
    DEFAULT_CONTEXT_WINDOW_def default_price)

lemma default_capabilities_parse:
  "opt_list NodeCapabilitySchema (map projectCapability (map default_capability ms))
   = (if list_all isSafeModelId ms then Some (map default_capability ms) else None)"
  by (induction ms) (simp_all add: default_capability_parses)

lemma built_iff:
  assumes "sdk_ok a" "daemon_ok a cfg" "ed_ok ed" "key_ok ed key"
  shows "isOk (buildRegistration a parse cfg key no_overrides now nonce) \<longleftrightarrow>
    endpoint_ok parse (d_endpoint cfg) \<and> list_all isSafeModelId (d_models cfg) \<and>
    0 < now \<and> now \<le> MAX_SAFE_INTEGER \<and> nonce_ok nonce"
proof -
  have d: "node_id_ok (d_nodeId cfg)" "len_between 1 64 (d_models cfg)"
    and n: "\<exists>n. d_network cfg = toCaip2 a n"
    using assms(2) by (simp_all add: daemon_ok_def)
  from n have net: "normalizeNetwork a (d_network cfg) = Inr (d_network cfg)"
    using normalize_canonical [OF assms(1) toCaip2_supported] by auto
  then have "d_network cfg \<noteq> []" by (auto simp: normalizeNetwork_def trim_def)
  with net have ns: "NetworkSchema a (JStr (d_network cfg)) = Some (d_network cfg)" by (simp add: NetworkSchema_def)
  have addr: "algorand_address (ok_address key)"
    using assms(4) by (intro address_valid [OF assms(3), where pk = "ok_publicKey key"]) (simp_all add: key_ok_def)
  have ver: "registration_version_ok DAEMON_VERSION"
    by (simp add: registration_version_ok_def DAEMON_VERSION_def len_between_def is_upper_ascii_def
      is_lower_ascii_def is_digit_def code_def)
  have caps: "z_array NodeCapabilitySchema 1 64 (JArr (map projectCapability (map default_capability (d_models cfg))))
    = (if list_all isSafeModelId (d_models cfg) then Some (map default_capability (d_models cfg)) else None)"
    using d(2) by (simp add: z_array_def len_between_def default_capabilities_parse del: map_map)
  from d(2) have "d_models cfg \<noteq> []" by (auto simp: len_between_def)
  then have b: "buildCapabilities cfg no_overrides = Inr (map default_capability (d_models cfg))"
    by (simp add: buildCapabilities_def no_overrides_def)
  show ?thesis
    using d(1) addr ver ns caps
    by (simp add: buildRegistration_def b parseOrThrow_def NodeRegistrationSchema_def registration_json_def
      registration_projection_def z_strict_def registration_keys_def member_of_def) blast
qed

subsection \<open>An example daemon\<close>

definition ex_daemon_vars :: environment where
  "ex_daemon_vars = map_of [(''MESH_GATEWAY_URL'', ''https://gw''), (''MESH_NODE_ID'', ''n1''),
     (''MESH_NODE_ENDPOINT'', ''https://n1''), (''MESH_MODELS'', ''m''), (''AVM_PRIVATE_KEY'', demo_secret)]"

definition ex_daemon_config :: daemon_config where
  "ex_daemon_config = \<lparr>d_gatewayUrl = ''https://gw'', d_nodeId = ''n1'', d_endpoint = ''https://n1'', d_listenPort = None,
     d_provider = ''ollama'', d_providerBaseUrl = ''http://127.0.0.1:11434'', d_models = [''m''],
     d_network = avm_testnet demo_avm, d_heartbeatIntervalMs = 15000, d_maxConcurrency = 8,
     d_privateKeyB64 = demo_secret\<rparr>"

definition ex_daemon :: daemon where
  "ex_daemon = \<lparr>dm_avm = demo_avm, dm_parse = any_url, dm_fmt = (\<lambda>_. []), dm_ed = demo_ed,
     dm_config = ex_daemon_config,
     dm_key = (case loadOperatorKey demo_ed demo_secret of Inr k \<Rightarrow> k
       | Inl _ \<Rightarrow> \<lparr>ok_address = [], ok_publicKey = [], ok_publicKeyB64 = [], ok_private = []\<rparr>)\<rparr>"

definition ex_try :: "gateway_reply \<Rightarrow> attempt_input" where
  "ex_try rep = \<lparr>ai_now = 1000, ai_nonce = replicate 16 CHR ''a'', ai_reply = rep, ai_signalAborted = False,
     ai_draw = Fin (1/2), ai_sleepAborted = False\<rparr>"

lemma demo_secret_trim: "trim demo_secret = demo_secret" "map url_safe demo_secret = demo_secret"
proof -
  have "BASE64_RE demo_secret" using demo_secret_b64(1) by (simp add: isBase64OfLength_def)
  then have c: "b64_char c \<or> c = CHR ''=''" if "c \<in> set demo_secret" for c
    using that takeWhile_dropWhile_id [of b64_char demo_secret] set_takeWhileD [of c b64_char demo_secret]
    unfolding BASE64_RE_def Let_def list_all_iff by (metis Un_iff set_append)
  have "list_all (\<lambda>c. url_safe c = c \<and> \<not> is_ws c) (CHR ''='' # b64_alphabet)"
    by (simp add: b64_alphabet_def url_safe_def is_ws_def code_def)
  then have "url_safe c = c \<and> \<not> is_ws c" if "b64_char c \<or> c = CHR ''=''" for c
    using that by (auto simp: b64_char_def list_all_iff)
  with c have d: "\<And>c. c \<in> set demo_secret \<Longrightarrow> url_safe c = c \<and> \<not> is_ws c" by blast
  then show "map url_safe demo_secret = demo_secret" by (simp add: map_idI)
  have "demo_secret \<noteq> []" using demo_secret_b64(1) by (auto simp: isBase64OfLength_def)
  with d show "trim demo_secret = demo_secret" by (intro trim_no_outer_ws) auto
qed

lemma env_trimmed:
  assumes "\<And>v. env k = Some v \<Longrightarrow> trim v = v \<and> v \<noteq> []"
  shows "envValue (env k) = env k"
  using assms by (cases "env k") (simp_all add: envValue_def)

lemma ex_daemon_env: "envValue (ex_daemon_vars k) = ex_daemon_vars k"
proof (rule env_trimmed)
  fix v
  assume "ex_daemon_vars k = Some v"
  then have "v = demo_secret \<or> v \<in> {''https://gw'', ''n1'', ''https://n1'', ''m''}"
    unfolding ex_daemon_vars_def by (auto split: if_splits)
  moreover have "demo_secret \<noteq> []" using demo_secret_b64(1) by (auto simp: isBase64OfLength_def)
  moreover have "trim v = v" if "v \<in> {''https://gw'', ''n1'', ''https://n1'', ''m''}"
    using that by (intro trim_no_outer_ws) (auto simp: is_ws_def code_def)
  ultimately show "trim v = v \<and> v \<noteq> []" using demo_secret_trim(1) by auto
qed

lemma ex_daemon_fields:
  "ex_daemon_vars ''MESH_GATEWAY_URL'' = Some ''https://gw''" "ex_daemon_vars ''MESH_NODE_ID'' = Some ''n1''"
  "ex_daemon_vars ''MESH_NODE_ENDPOINT'' = Some ''https://n1''" "ex_daemon_vars ''MESH_MODELS'' = Some ''m''"
  "ex_daemon_vars ''AVM_PRIVATE_KEY'' = Some demo_secret" "ex_daemon_vars ''MESH_NODE_PORT'' = None"
  "ex_daemon_vars ''MESH_PROVIDER'' = None" "ex_daemon_vars ''MESH_PROVIDER_BASE_URL'' = None"
  "ex_daemon_vars ''MESH_NETWORK'' = None" "ex_daemon_vars ''X402_NETWORK'' = None"
  "ex_daemon_vars ''MESH_HEARTBEAT_INTERVAL_MS'' = None" "ex_daemon_vars ''MESH_MAX_CONCURRENCY'' = None"
  by (simp_all add: ex_daemon_vars_def)

lemmas ex_daemon_values = ex_daemon_fields [THEN trans [OF ex_daemon_env]]

lemma ex_daemon_readers:
  "requiredUrlField any_url (ex_daemon_vars ''MESH_GATEWAY_URL'') = Some ''https://gw''"
  "obind (envValue (ex_daemon_vars ''MESH_NODE_ID'')) (check node_id_ok) = Some ''n1''"
  "requiredUrlField any_url (ex_daemon_vars ''MESH_NODE_ENDPOINT'') = Some ''https://n1''"
  "listenPortField (ex_daemon_vars ''MESH_NODE_PORT'') = Some None"
  "enumField PROVIDER_VALUES ''ollama'' (ex_daemon_vars ''MESH_PROVIDER'') = Some ''ollama''"
  "optionalUrlField any_url (ex_daemon_vars ''MESH_PROVIDER_BASE_URL'') = Some None"
  "modelsField (ex_daemon_vars ''MESH_MODELS'') = Some [''m'']"
  "enumField MESH_NETWORK_VALUES ''testnet'' (ex_daemon_vars ''MESH_NETWORK'') = Some ''testnet''"
  "optionalStringField 128 (ex_daemon_vars ''X402_NETWORK'') = Some None"
  "intField DEFAULT_HEARTBEAT_INTERVAL_MS 1000 600000 (ex_daemon_vars ''MESH_HEARTBEAT_INTERVAL_MS'') = Some 15000"
  "intField DEFAULT_MAX_CONCURRENT_PER_NODE 1 1024 (ex_daemon_vars ''MESH_MAX_CONCURRENCY'') = Some 8"
  "privateKeyField (ex_daemon_vars ''AVM_PRIVATE_KEY'') = Some demo_secret"
proof -
  have m: "trim ''m'' = ''m''" by (intro trim_no_outer_ws) (auto simp: is_ws_def code_def)
  show "modelsField (ex_daemon_vars ''MESH_MODELS'') = Some [''m'']"
    by (simp add: modelsField_def ex_daemon_values m check_def len_between_def)
  show "obind (envValue (ex_daemon_vars ''MESH_NODE_ID'')) (check node_id_ok) = Some ''n1''"
    by (simp add: ex_daemon_values check_def node_id_ok_def len_between_def is_lower_ascii_def
      is_digit_def is_upper_ascii_def code_def)
  show "privateKeyField (ex_daemon_vars ''AVM_PRIVATE_KEY'') = Some demo_secret"
    by (simp add: privateKeyField_def ex_daemon_values check_def demo_secret_trim demo_secret_b64
      ALGORAND_SECRET_KEY_BYTES_def)
qed (simp_all add: ex_daemon_values requiredUrlField_def listenPortField_def enumField_def
  optionalUrlField_def optionalStringField_def intField_def check_def check_optional_def url_ok_def any_url_def
  env_or_def PROVIDER_VALUES_def MESH_NETWORK_VALUES_def DEFAULT_HEARTBEAT_INTERVAL_MS_def
  DEFAULT_MAX_CONCURRENT_PER_NODE_def)

lemma ex_daemon_loads: "loadDaemonConfig demo_avm any_url ex_daemon_vars = Inr ex_daemon_config"
  by (simp add: loadDaemonConfig_def parseEnv_def DaemonEnvSchema_def ex_daemon_readers)
    (simp add: resolveNetwork_def mesh_of_name_def stripTrailingSlash_def PROVIDER_DEFAULT_BASE_URL_def ex_daemon_config_def)

lemma ex_daemon_key: "loadOperatorKey demo_ed demo_secret = Inr (dm_key ex_daemon)"
  using demo_key_loads by (auto simp: ex_daemon_def)

lemma ex_nonce: "nonce_ok (replicate 16 CHR ''a'')"
  by (simp add: nonce_ok_def len_between_def is_hex_def is_digit_def code_def list_all_iff)

text \<open>
  A daemon whose configuration and key loaded can build and sign its registration exactly
  when its endpoint is an `http` or `https` URL the parser accepts, every model it advertises has the
  characters the gateway admits, the clock is positive and the nonce has the right shape. The first
  two are conditions the configuration loader does not check: a node that passes it may still be
  unable to register. The hypotheses are the documented behaviour of the SDK and the cryptography.
\<close>

theorem registration_built_iff:
  assumes "sdk_ok (dm_avm dm)" and "ed_ok (dm_ed dm)"
    and "loadDaemonConfig (dm_avm dm) (dm_parse dm) env = Inr (dm_config dm)"
    and "loadOperatorKey (dm_ed dm) (d_privateKeyB64 (dm_config dm)) = Inr (dm_key dm)"
  shows "isOk (attempt_envelope dm no_overrides i) \<longleftrightarrow>
    endpoint_ok (dm_parse dm) (d_endpoint (dm_config dm)) \<and> list_all isSafeModelId (d_models (dm_config dm)) \<and>
    0 < ai_now i \<and> ai_now i \<le> MAX_SAFE_INTEGER \<and> nonce_ok (ai_nonce i)"
proof -
  have cfg: "daemon_ok (dm_avm dm) (dm_config dm)" using assms(1,3) by (rule loaded_daemon_ok)
  have key: "key_ok (dm_ed dm) (dm_key dm)" using assms(2,4) by (rule load_key_ok)
  have "isOk (attempt_envelope dm no_overrides i) \<longleftrightarrow>
    isOk (buildRegistration (dm_avm dm) (dm_parse dm) (dm_config dm) (dm_key dm) no_overrides (ai_now i) (ai_nonce i))"
    (is "_ \<longleftrightarrow> isOk ?b")
  proof (cases ?b)
    case (Inr r)
    obtain v where "NodeRegistrationSchema (dm_avm dm) (dm_parse dm) v = Some r"
      using build_registration(1) [OF Inr] ..
    from sign_total [OF assms(1) this assms(2) key] obtain s
      where "signRegistration (dm_avm dm) (dm_parse dm) (dm_fmt dm) (dm_ed dm) r (dm_key dm) = Inr s" by blast
    with Inr show ?thesis by (simp add: attempt_envelope_def)
  qed (simp add: attempt_envelope_def)
  with built_iff [OF assms(1) cfg assms(2) key] show ?thesis by blast
qed

lemma registration_built_iff_witness: "isOk (attempt_envelope ex_daemon no_overrides (ex_try rep))"
proof -
  have e: "endpoint_ok any_url ''https://n1''" "isSafeModelId ''m''"
    by (simp_all add: endpoint_ok_def any_url_def starts_with_def isSafeModelId_def len_between_def model_id_char_def
      is_lower_ascii_def code_def)
  have d: "dm_avm ex_daemon = demo_avm" "dm_ed ex_daemon = demo_ed" "dm_parse ex_daemon = any_url"
    "dm_config ex_daemon = ex_daemon_config" "d_privateKeyB64 ex_daemon_config = demo_secret"
    by (simp_all add: ex_daemon_def ex_daemon_config_def)
  have "isOk (attempt_envelope ex_daemon no_overrides (ex_try rep)) \<longleftrightarrow>
    endpoint_ok any_url (d_endpoint ex_daemon_config) \<and> list_all isSafeModelId (d_models ex_daemon_config) \<and>
    0 < ai_now (ex_try rep) \<and> ai_now (ex_try rep) \<le> MAX_SAFE_INTEGER \<and> nonce_ok (ai_nonce (ex_try rep))"
    using registration_built_iff [of ex_daemon ex_daemon_vars "ex_try rep"] demo_sdk_ok demo_ed_ok
      ex_daemon_loads ex_daemon_key by (simp only: d)
  with e ex_nonce show ?thesis by (simp add: ex_daemon_config_def ex_try_def MAX_SAFE_INTEGER_def)
qed

subsection \<open>The gateway admits what the daemon sends\<close>

text \<open>
  C30: What a daemon builds and signs, the gateway admits: if the configuration and the key loaded,
  the two ends agree on the network and on the cryptography, the clocks differ by at most the
  allowed skew and the nonce is new, then the envelope passes the gateway's schema, freshness,
  replay and signature checks, for the daemon's node id, endpoint and payout address.
\<close>

theorem daemon_registration_admitted:
  assumes "sdk_ok (dm_avm dm)" and "same_crypto (dm_ed dm) (ne_crypto ne)"
    and "loadOperatorKey (dm_ed dm) (d_privateKeyB64 (dm_config dm)) = Inr (dm_key dm)"
    and "loadDaemonConfig (dm_avm dm) (dm_parse dm) env = Inr (dm_config dm)"
    and "ne_avm ne = dm_avm dm" and "ne_parse ne = dm_parse dm" and "ne_fmt ne = dm_fmt dm"
    and "g_network (ne_config ne) = d_network (dm_config dm)"
    and "attempt_envelope dm ov i = Inr (r, s)"
    and "\<bar>ai_now i - e_now_fresh e\<bar> \<le> REGISTRATION_MAX_SKEW_MS"
    and "claim nonces (ai_nonce i) (e_now_claim e) = (nonces', True)"
  shows "register_admit ne e (envelope_json s) nonces = (nonces', Inr s) \<and> sr_registration s = r \<and>
    r_nodeId r = d_nodeId (dm_config dm) \<and> r_endpoint r = d_endpoint (dm_config dm) \<and>
    r_operatorAddress r = ok_address (dm_key dm)"
proof -
  have ed: "ed_ok (dm_ed dm)" using assms(2) by (simp add: same_crypto_def)
  have key: "key_ok (dm_ed dm) (dm_key dm)" using ed assms(3) by (rule load_key_ok)
  have b: "buildRegistration (dm_avm dm) (dm_parse dm) (dm_config dm) (dm_key dm) ov (ai_now i) (ai_nonce i) = Inr r"
    and sg: "signRegistration (dm_avm dm) (dm_parse dm) (dm_fmt dm) (dm_ed dm) r (dm_key dm) = Inr s"
    using assms(9) by (auto simp: attempt_envelope_def bind_res_Inr_iff)
  obtain v where v: "NodeRegistrationSchema (dm_avm dm) (dm_parse dm) v = Some r" using build_registration(1) [OF b] ..
  note f = build_registration(2-7) [OF b]
  have "\<exists>n. d_network (dm_config dm) = toCaip2 (dm_avm dm) n"
    using loaded_daemon_ok [OF assms(1,4)] by (simp add: daemon_ok_def)
  then have "normalizeNetwork (dm_avm dm) (d_network (dm_config dm)) = Inr (d_network (dm_config dm))"
    using normalize_canonical [OF assms(1) toCaip2_supported] by auto
  with f(6) assms(8) have net: "r_network r = g_network (ne_config ne)" by simp
  note s = sign_registration [OF assms(1) v assms(2) key f(2) sg]
  have "verifyRegistrationSignature ne s = Inr ()"
    using s(3) [where p = "ne_parse ne" and gc = "ne_config ne"] assms(5,7) by (cases ne) simp
  moreover have "assertFreshTimestamp (ai_now i) (e_now_fresh e) = Inr ()"
    using fresh_iff [of "ai_now i" "e_now_fresh e"] assms(10) by (auto simp: isOk_iff)
  ultimately have "register_admit ne e (envelope_json s) nonces = (nonces', Inr s)"
    using s(1,2) assms(5,6,11) f(4,5) net by (simp add: register_admit_def parseOrThrow_def)
  with s(1) f show ?thesis by blast
qed

definition demo_crypto :: crypto where
  "demo_crypto = \<lparr>cy_decodeAddress = (\<lambda>a. Some (reference_decodeAddress a)), cy_createPublicKey = (\<lambda>_. True),
     cy_verify = ed_verify demo_ed\<rparr>"

lemma demo_same_crypto: "same_crypto demo_ed demo_crypto"
  using demo_ed_ok decode_address [OF demo_ed_ok] by (simp add: same_crypto_def demo_crypto_def)

lemma daemon_registration_admitted_witness:
  "\<exists>s nonces'. register_admit (ex_ne\<lparr>ne_crypto := demo_crypto\<rparr>) (ex_req 1000) (envelope_json s) default_nonce_cache
     = (nonces', Inr s) \<and> r_nodeId (sr_registration s) = ''n1''"
proof -
  let ?i = "ex_try (Answered 201 None)" and ?ne = "ex_ne\<lparr>ne_crypto := demo_crypto\<rparr>"
  obtain r s where rs: "attempt_envelope ex_daemon no_overrides ?i = Inr (r, s)"
    using registration_built_iff_witness [of "Answered 201 None"] by (auto simp: isOk_iff)
  have d: "dm_avm ex_daemon = demo_avm" "dm_ed ex_daemon = demo_ed" "dm_parse ex_daemon = any_url"
    "dm_fmt ex_daemon = (\<lambda>_. [])" "dm_config ex_daemon = ex_daemon_config"
    "d_privateKeyB64 ex_daemon_config = demo_secret" "d_network ex_daemon_config = avm_testnet demo_avm"
    by (simp_all add: ex_daemon_def ex_daemon_config_def)
  obtain nonces' where c: "claim default_nonce_cache (ai_nonce ?i) (e_now_claim (ex_req 1000)) = (nonces', True)"
    by (simp add: claim_first default_nonce_cache_def)
  have "register_admit ?ne (ex_req 1000) (envelope_json s) default_nonce_cache = (nonces', Inr s) \<and> sr_registration s = r \<and>
    r_nodeId r = d_nodeId (dm_config ex_daemon) \<and> r_endpoint r = d_endpoint (dm_config ex_daemon) \<and>
    r_operatorAddress r = ok_address (dm_key ex_daemon)"
  proof (rule daemon_registration_admitted [where env = ex_daemon_vars, OF _ _ _ _ _ _ _ _ rs _ c])
    show "same_crypto (dm_ed ex_daemon) (ne_crypto ?ne)" using demo_same_crypto by (simp add: d)
  qed (simp_all add: d demo_sdk_ok ex_daemon_loads ex_daemon_key ex_ne_def ex_config_def ex_try_def ex_req_def
    REGISTRATION_MAX_SKEW_MS_def)
  then show ?thesis by (auto simp: d ex_daemon_config_def)
qed

subsection \<open>The retry loop\<close>

fun posted :: "reg_event list \<Rightarrow> signed_registration list" where
  "posted [] = []"
| "posted (Posted u s # evs) = s # posted evs"
| "posted (Slept ms # evs) = posted evs"

fun slept :: "reg_event list \<Rightarrow> jsnum list" where
  "slept [] = []"
| "slept (Posted u s # evs) = slept evs"
| "slept (Slept ms # evs) = ms # slept evs"

text \<open>What the loop over the attempts left posts and answers, \<open>n\<close> of them having been made.\<close>

definition loop_result ::
  "daemon \<Rightarrow> register_options \<Rightarrow> nat \<Rightarrow> attempt_input list \<Rightarrow> reg_event list \<Rightarrow> thrown + register_result \<Rightarrow>
   nat \<Rightarrow> (node_registration \<times> signed_registration) list \<Rightarrow> bool" where
  "loop_result dm opts a xs evs out n sent \<longleftrightarrow>
     n \<le> length xs \<and> map_res (attempt_envelope dm (ro_overrides opts)) (take n xs) = Inr sent \<and>
     posted evs = map snd sent \<and> length (slept evs) \<le> n \<and>
     (\<forall>k. Suc k < n \<longrightarrow> accepted (ai_reply (xs ! k)) = None \<and> \<not> snd (attempt_error dm (xs ! k))) \<and>
     (case out of
        Inr res \<Rightarrow> 0 < n \<and> Suc (rg_attempts res) = a + n \<and>
          accepted (ai_reply (xs ! (n - 1))) = Some (rg_status res) \<and> fst (last sent) = rg_registration res
      | Inl e \<Rightarrow> \<forall>k<n. accepted (ai_reply (xs ! k)) = None)"

lemma loop_result_Cons:
  assumes "loop_result dm opts (Suc a) xs evs out n sent" "attempt_envelope dm (ro_overrides opts) i = Inr (r, s)"
    and "accepted (ai_reply i) = None" "\<not> snd (attempt_error dm i)"
    and "evs' = evs \<or> (\<exists>ms. evs' = Slept ms # evs)"
  shows "loop_result dm opts a (i # xs) (Posted u s # evs') out (Suc n) ((r, s) # sent)"
proof -
  have l: "length sent = n"
    using assms(1) map_res_Inr_length [of _ "take n xs" sent] by (auto simp: loop_result_def)
  have e: "posted evs' = posted evs" "length (slept evs') \<le> Suc (length (slept evs))" using assms(5) by auto
  show ?thesis
    using assms(1-4) e l
    by (cases out) (auto simp: loop_result_def nth_Cons last_ConsR split: nat.splits)
qed

declare register_loop.simps(2) [simp del]

lemma register_loop_result:
  assumes "register_loop dm opts a xs = (evs, out)" "xs \<noteq> []"
  shows "\<exists>n sent. loop_result dm opts a xs evs out n sent"
  using assms
proof (induction xs arbitrary: a evs out)
  case (Cons i xs)
  show ?case
  proof (cases "attempt_envelope dm (ro_overrides opts) i")
    case (Inl e)
    with Cons.prems(1) have "loop_result dm opts a (i # xs) evs out 0 []"
      by (auto simp: loop_result_def register_loop.simps(2))
    then show ?thesis by blast
  next
    case (Inr rs)
    obtain r s where rs: "rs = (r, s)" by (cases rs)
    let ?post = "Posted (joinUrl (d_gatewayUrl (dm_config dm)) REGISTER_PATH) s"
    obtain err fatal where f: "attempt_error dm i = (err, fatal)" by (cases "attempt_error dm i")
    let ?ms = "retry_backoffMs a (retryBase_of opts) (retryMax_of opts) (ai_draw i)"
    obtain evs1 out1 where l: "register_loop dm opts (Suc a) xs = (evs1, out1)"
      by (cases "register_loop dm opts (Suc a) xs")
    note step = register_loop.simps(2) [of dm opts a i xs]
    consider (served) status where "accepted (ai_reply i) = Some status"
      | (ends) "accepted (ai_reply i) = None" "fatal \<or> xs = [] \<or> (\<not> js_le ?ms (Fin 0) \<and> ai_sleepAborted i)"
      | (again) "accepted (ai_reply i) = None" "\<not> fatal" "xs \<noteq> []" "js_le ?ms (Fin 0) \<or> \<not> ai_sleepAborted i"
      by blast
    then show ?thesis
    proof cases
      case served
      then have "evs = [?post]" "out = Inr \<lparr>rg_registration = r, rg_status = status, rg_attempts = a\<rparr>"
        using Cons.prems(1) by (simp_all add: step Inr rs Let_def)
      then have "loop_result dm opts a (i # xs) evs out 1 [(r, s)]" using served Inr rs by (simp add: loop_result_def)
      then show ?thesis by blast
    next
      case ends
      then have "(evs = [?post] \<or> evs = [?post, Slept ?ms]) \<and> (\<exists>e. out = Inl e)"
        using Cons.prems(1) by (auto simp: step Inr rs f Let_def split: if_splits)
      then have "loop_result dm opts a (i # xs) evs out 1 [(r, s)]" using ends Inr rs by (auto simp: loop_result_def)
      then show ?thesis by blast
    next
      case again
      then obtain n sent where IH: "loop_result dm opts (Suc a) xs evs1 out1 n sent"
        using Cons.IH [OF l] by blast
      have e: "out = out1" "evs = ?post # evs1 \<or> evs = ?post # Slept ?ms # evs1"
        using Cons.prems(1) again by (auto simp: step Inr rs f l Let_def split: if_splits)
      have nf: "\<not> snd (attempt_error dm i)" using f again by simp
      note res = loop_result_Cons [OF IH Inr [unfolded rs] again(1) nf]
      from e(2) res [of evs1] res [of "Slept ?ms # evs1"] e(1) show ?thesis by blast
    qed
  qed
qed simp

lemma map_res_nonces:
  "map_res (attempt_envelope dm ov) xs = Inr sent \<Longrightarrow> map (r_nonce \<circ> fst) sent = map ai_nonce xs \<and>
    map (r_timestamp \<circ> fst) sent = map ai_now xs"
proof (induction xs arbitrary: sent)
  case (Cons i xs)
  then obtain r s rest where i: "attempt_envelope dm ov i = Inr (r, s)" "map_res (attempt_envelope dm ov) xs = Inr rest"
    "sent = (r, s) # rest" by (auto simp: bind_res_Inr_iff)
  then have "buildRegistration (dm_avm dm) (dm_parse dm) (dm_config dm) (dm_key dm) ov (ai_now i) (ai_nonce i) = Inr r"
    by (auto simp: attempt_envelope_def bind_res_Inr_iff)
  from build_registration(5,6) [OF this] Cons.IH [OF i(2)] i(3) show ?case by simp
qed simp

text \<open>
  The order of the events: every event starts from a post, and a post is followed by at most one sleep,
  of the positive delay drawn for its attempt, before the next post or the end.
\<close>

fun paced :: "register_options \<Rightarrow> nat \<Rightarrow> attempt_input list \<Rightarrow> reg_event list \<Rightarrow> bool" where
  "paced opts a xs [] = True"
| "paced opts a (i # xs) (Posted u s # Slept d # evs) =
     (d = retry_backoffMs a (retryBase_of opts) (retryMax_of opts) (ai_draw i) \<and> \<not> js_le d (Fin 0) \<and>
      paced opts (Suc a) xs evs)"
| "paced opts a (i # xs) (Posted u s # evs) = paced opts (Suc a) xs evs"
| "paced opts a xs evs = False"

definition ends_asleep :: "reg_event list \<Rightarrow> bool" where
  "ends_asleep evs \<longleftrightarrow> (\<exists>us d. evs = us @ [Slept d])"

lemma ends_asleep_simps [simp]:
  "\<not> ends_asleep []" "\<not> ends_asleep [Posted u s]" "ends_asleep [Slept d]"
  "evs \<noteq> [] \<Longrightarrow> ends_asleep (e # evs) = ends_asleep evs"
  unfolding ends_asleep_def by (simp_all add: Cons_eq_append_conv) (auto simp: Cons_eq_append_conv)

lemma register_loop_first:
  "register_loop dm opts a xs = (evs, out) \<Longrightarrow> evs = [] \<or> (\<exists>u s evs'. evs = Posted u s # evs')"
  by (cases xs) (auto simp: register_loop.simps(2) Let_def split: sum.splits option.splits prod.splits if_splits)

lemma paced_post: "evs = [] \<or> (\<exists>u s evs'. evs = Posted u s # evs') \<Longrightarrow>
  paced opts a (i # xs) (Posted u s # evs) = paced opts (Suc a) xs evs"
  by auto

lemma register_loop_paced:
  assumes "register_loop dm opts a xs = (evs, out)"
  shows "paced opts a xs evs \<and> (ends_asleep evs \<longrightarrow> length (posted evs) < length xs \<and> (\<exists>e. out = Inl e) \<and>
    (ai_sleepAborted (xs ! (length (posted evs) - 1)) \<or>
     \<not> isOk (attempt_envelope dm (ro_overrides opts) (xs ! length (posted evs)))))"
  using assms
proof (induction xs arbitrary: a evs out)
  case (Cons i xs)
  show ?case
  proof (cases "attempt_envelope dm (ro_overrides opts) i")
    case (Inl e)
    with Cons.prems show ?thesis by (auto simp: register_loop.simps(2))
  next
    case (Inr rs)
    obtain r s where rs: "rs = (r, s)" by (cases rs)
    let ?post = "Posted (joinUrl (d_gatewayUrl (dm_config dm)) REGISTER_PATH) s"
    obtain err fatal where f: "attempt_error dm i = (err, fatal)" by (cases "attempt_error dm i")
    let ?ms = "retry_backoffMs a (retryBase_of opts) (retryMax_of opts) (ai_draw i)"
    obtain evs1 out1 where l: "register_loop dm opts (Suc a) xs = (evs1, out1)"
      by (cases "register_loop dm opts (Suc a) xs")
    note step = register_loop.simps(2) [of dm opts a i xs] and first = register_loop_first [OF l]
    note IH = Cons.IH [OF l]
    consider (once) "evs = [?post]"
      | (aborted) "evs = [?post, Slept ?ms]" "\<exists>e. out = Inl e" "xs \<noteq> []" "\<not> js_le ?ms (Fin 0)" "ai_sleepAborted i"
      | (again) "evs = ?post # evs1" "out = out1" "xs \<noteq> []"
      | (slept) "evs = ?post # Slept ?ms # evs1" "out = out1" "xs \<noteq> []" "\<not> js_le ?ms (Fin 0)"
      using Cons.prems by (auto simp: step Inr rs f l Let_def split: option.splits if_splits)
    then show ?thesis
    proof cases
      case once
      then show ?thesis by simp
    next
      case aborted
      then show ?thesis by simp
    next
      case again
      show ?thesis
      proof (cases "evs1 = []")
        case True
        with again show ?thesis by simp
      next
        case False
        with first have "posted evs1 \<noteq> []" by auto
        with again False IH first show ?thesis by (auto simp: paced_post nth_Cons split: nat.splits)
      qed
    next
      case slept
      show ?thesis
      proof (cases "evs1 = []")
        case True
        with l slept have "\<not> isOk (attempt_envelope dm (ro_overrides opts) (xs ! 0)) \<and> (\<exists>e. out = Inl e)"
          by (cases xs) (auto simp: register_loop.simps(2) isOk_iff Let_def
            split: sum.splits option.splits prod.splits if_splits)
        with slept True show ?thesis by simp
      next
        case False
        with first have "posted evs1 \<noteq> []" by auto
        with slept False IH show ?thesis by (auto simp: nth_Cons split: nat.splits)
      qed
    qed
  qed
qed simp

text \<open>
  C31: Registration makes at most `maxAttempts` posts, one for each attempt, and each is built and
  signed afresh with that attempt's nonce and clock; every attempt but the last failed in a way
  worth retrying. Between two posts there is at most one sleep, of the delay computed for the attempt
  before it, and no sleep comes first; after the last post there is one only when attempts were left and
  either the caller aborted it or the next registration could not be built. A success reports the
  number of attempts made, the status the gateway answered and the registration of the last post; a
  failure means that no post was accepted.
\<close>

theorem register_attempts_fresh:
  assumes "registerNode dm opts inputs = (evs, out)"
  shows "\<exists>n sent. n \<le> maxAttempts_of opts \<and>
    map_res (attempt_envelope dm (ro_overrides opts)) (map inputs [1..<Suc n]) = Inr sent \<and>
    posted evs = map snd sent \<and>
    map (r_nonce \<circ> fst) sent = map (\<lambda>k. ai_nonce (inputs k)) [1..<Suc n] \<and>
    map (r_timestamp \<circ> fst) sent = map (\<lambda>k. ai_now (inputs k)) [1..<Suc n] \<and>
    paced opts 1 (map inputs [1..<Suc (maxAttempts_of opts)]) evs \<and>
    (ends_asleep evs \<longrightarrow> n < maxAttempts_of opts \<and> (\<exists>e. out = Inl e) \<and>
       (ai_sleepAborted (inputs n) \<or> \<not> isOk (attempt_envelope dm (ro_overrides opts) (inputs (Suc n))))) \<and>
    (\<forall>k. 1 \<le> k \<and> k < n \<longrightarrow> accepted (ai_reply (inputs k)) = None \<and> \<not> snd (attempt_error dm (inputs k))) \<and>
    (case out of
       Inr res \<Rightarrow> rg_attempts res = n \<and> 0 < n \<and> accepted (ai_reply (inputs n)) = Some (rg_status res) \<and>
         fst (last sent) = rg_registration res
     | Inl e \<Rightarrow> \<forall>k. 1 \<le> k \<and> k \<le> n \<longrightarrow> accepted (ai_reply (inputs k)) = None)"
proof -
  let ?m = "maxAttempts_of opts"
  define xs where "xs = map inputs [1..<Suc ?m]"
  have ne: "xs \<noteq> []" by (simp add: xs_def maxAttempts_of_def)
  obtain n sent where l: "loop_result dm opts 1 xs evs out n sent"
    using register_loop_result [OF assms [unfolded registerNode_def xs_def [symmetric]] ne] by blast
  then have n: "n \<le> ?m" by (simp add: loop_result_def xs_def del: upt_Suc)
  then have t: "take n xs = map inputs [1..<Suc n]" by (simp add: xs_def take_map del: upt_Suc)
  have at_k: "xs ! (k - 1) = inputs k" if "1 \<le> k" "k \<le> ?m" for k
    using that by (simp add: xs_def del: upt_Suc)
  have sent: "map_res (attempt_envelope dm (ro_overrides opts)) (map inputs [1..<Suc n]) = Inr sent"
    using l t by (simp only: loop_result_def)
  have early: "accepted (ai_reply (inputs k)) = None \<and> \<not> snd (attempt_error dm (inputs k))" if "1 \<le> k" "k < n" for k
    using l that n at_k [of k] unfolding loop_result_def by (metis Suc_diff_1 less_imp_le_nat less_le_trans less_one not_le)
  have last: "case out of
       Inr res \<Rightarrow> rg_attempts res = n \<and> 0 < n \<and> accepted (ai_reply (inputs n)) = Some (rg_status res) \<and>
         fst (last sent) = rg_registration res
     | Inl e \<Rightarrow> \<forall>k. 1 \<le> k \<and> k \<le> n \<longrightarrow> accepted (ai_reply (inputs k)) = None"
  proof (cases out)
    case (Inl e)
    then have "\<forall>k<n. accepted (ai_reply (xs ! k)) = None" using l by (simp add: loop_result_def del: upt_Suc)
    then have "accepted (ai_reply (inputs k)) = None" if "1 \<le> k" "k \<le> n" for k
      using that at_k [of k] n by (metis Suc_diff_1 Suc_le_lessD le_trans less_eq_Suc_le zero_less_one)
    with Inl show ?thesis by simp
  next
    case (Inr res)
    with l at_k [of n] n show ?thesis by (auto simp: loop_result_def simp del: upt_Suc)
  qed
  have sl: "posted evs = map snd sent" using l by (simp add: loop_result_def del: upt_Suc)
  have "length sent = n" using map_res_Inr_length [OF sent] by (simp del: upt_Suc)
  with sl have np: "length (posted evs) = n" by simp
  note pace = register_loop_paced [OF assms [unfolded registerNode_def], unfolded np]
  have asleep: "n < ?m \<and> (\<exists>e. out = Inl e) \<and>
      (ai_sleepAborted (inputs n) \<or> \<not> isOk (attempt_envelope dm (ro_overrides opts) (inputs (Suc n))))" if "ends_asleep evs"
  proof -
    have "posted evs \<noteq> []" using that pace by (cases evs rule: posted.cases) (auto simp: ends_asleep_def Cons_eq_append_conv)
    with np have "0 < n" by auto
    moreover from that pace have "n < ?m" by (simp del: upt_Suc)
    ultimately show ?thesis
      using that pace at_k [of n, unfolded xs_def] at_k [of "Suc n", unfolded xs_def] by (simp del: upt_Suc)
  qed
  show ?thesis
    by (intro exI [of _ n] exI [of _ sent] conjI)
      (use n sent sl early last asleep pace map_res_nonces [OF sent] in \<open>simp_all add: o_def del: upt_Suc\<close>)
qed

definition ex_options :: register_options where
  "ex_options = \<lparr>ro_overrides = no_overrides, ro_maxAttempts = None, ro_retryBaseMs = None, ro_retryMaxMs = None\<rparr>"

definition ex_inputs :: "nat \<Rightarrow> attempt_input" where
  "ex_inputs k = ex_try (Answered (if k = 1 then 503 else 201) None)"

lemma ex_registers: "\<exists>evs r. registerNode ex_daemon ex_options ex_inputs
  = (evs, Inr \<lparr>rg_registration = r, rg_status = 201, rg_attempts = 2\<rparr>)"
proof -
  obtain r1 s1 r2 s2 where e: "attempt_envelope ex_daemon no_overrides (ex_try (Answered 503 None)) = Inr (r1, s1)"
    "attempt_envelope ex_daemon no_overrides (ex_try (Answered 201 None)) = Inr (r2, s2)"
    using registration_built_iff_witness [of "Answered 503 None"] registration_built_iff_witness [of "Answered 201 None"]
    by (auto simp: isOk_iff)
  have m: "maxAttempts_of ex_options = 4" by (simp add: maxAttempts_of_def ex_options_def DEFAULT_MAX_ATTEMPTS_def)
  have l: "map ex_inputs [1..<Suc 4] = ex_try (Answered 503 None) # ex_try (Answered 201 None) #
      map ex_inputs [3..<Suc 4]"
    by (simp add: ex_inputs_def upt_rec)
  have o: "ro_overrides ex_options = no_overrides" by (simp add: ex_options_def)
  have a: "accepted (ai_reply (ex_try (Answered 503 None))) = None"
    "accepted (ai_reply (ex_try (Answered 201 None))) = Some 201"
    "\<not> snd (attempt_error ex_daemon (ex_try (Answered 503 None)))"
    "\<not> ai_sleepAborted (ex_try rep)" for rep
    by (simp_all add: accepted_def ex_try_def attempt_error_def isRetryableStatus_def Let_def)
  then obtain err where "attempt_error ex_daemon (ex_try (Answered 503 None)) = (err, False)"
    by (cases "attempt_error ex_daemon (ex_try (Answered 503 None))") simp
  with a e o show ?thesis
    unfolding registerNode_def m l by (simp add: register_loop.simps(2) Let_def)
qed

lemma register_attempts_fresh_witness:
  "\<exists>evs (sent :: (node_registration \<times> signed_registration) list). fst (registerNode ex_daemon ex_options ex_inputs) = evs \<and> posted evs = map snd sent \<and> length sent = 2"
proof -
  obtain evs r where g: "registerNode ex_daemon ex_options ex_inputs
    = (evs, Inr \<lparr>rg_registration = r, rg_status = 201, rg_attempts = 2\<rparr>)" using ex_registers by blast
  obtain sent :: "(node_registration \<times> signed_registration) list" where "posted evs = map snd sent"
    "map (r_nonce \<circ> fst) sent = map (\<lambda>k. ai_nonce (ex_inputs k)) [1..<Suc 2]"
    using register_attempts_fresh [OF g] by (auto simp del: upt_Suc)
  moreover from this(2) have "length (map (r_nonce \<circ> fst) sent) = length (map (\<lambda>k. ai_nonce (ex_inputs k)) [1..<Suc 2])"
    by (rule arg_cong)
  then have "length sent = 2" by simp
  ultimately show ?thesis using g by auto
qed

subsection \<open>The delays between posts\<close>

lemma js_of_rat_nonneg: "0 \<le> q \<Longrightarrow> js_of_rat q = PosInf \<or> (\<exists>x\<ge>0. js_of_rat q = Fin x)"
  using b64.rnd_nonneg [of q] by (auto simp: js_of_rat_def js_clip_def)

text \<open>
  The delay before the next registration attempt lies between zero and the cap, whatever the
  attempt number: also where the exponential has overflowed to infinity.
\<close>

theorem retry_delay_bounded:
  assumes "1 \<le> baseMs" "baseMs < 2 ^ 53" "0 \<le> maxMs" "maxMs < 2 ^ 53" "0 \<le> u" "u < 1"
  shows "\<exists>k. retry_backoffMs attempt baseMs maxMs (Fin u) = Fin (of_int k) \<and> 0 \<le> k \<and> k \<le> maxMs"
proof -
  have b: "js_int baseMs = Fin (of_int baseMs)" "js_int maxMs = Fin (of_int maxMs)"
    using assms by (simp_all add: js_int_small)
  define e where "e = js_mul (js_int baseMs) (js_of_rat (2 ^ (attempt - 1)))"
  have "e = PosInf \<or> (\<exists>x\<ge>0. e = Fin x)"
  proof -
    consider "js_of_rat (2 ^ (attempt - 1)) = PosInf" | x where "0 \<le> x" "js_of_rat (2 ^ (attempt - 1)) = Fin x"
      using js_of_rat_nonneg [of "2 ^ (attempt - 1)"] by auto
    then show ?thesis
    proof cases
      case 1
      with assms(1) show ?thesis by (simp add: e_def b inf_of_sign_def js_sgn_def)
    next
      case (2 x)
      with assms(1) js_of_rat_nonneg [of "of_int baseMs * x"] show ?thesis by (simp add: e_def b)
    qed
  qed
  then have "\<exists>c. js_min (js_int maxMs) e = Fin c \<and> 0 \<le> c \<and> c \<le> of_int maxMs"
  proof (elim disjE exE conjE)
    fix x
    assume "0 \<le> x" "e = Fin x"
    with assms(3) show ?thesis by (intro exI [of _ "min (of_int maxMs) x"]) (simp add: b)
  qed (use assms(3) in \<open>simp add: b js_min_def\<close>)
  then obtain c where c: "js_min (js_int maxMs) e = Fin c" "0 \<le> c" "c \<le> of_int maxMs" by blast
  have "u * c \<le> 1 * c" using assms c by (intro mult_right_mono) auto
  then have uc: "0 \<le> u * c" "u * c \<le> of_int maxMs" using assms c by auto
  then have "js_of_rat (u * c) = Fin (fl64 (u * c))"
    using assms(4) by (intro js_of_rat_small [of _ maxMs]) simp_all
  moreover have "0 \<le> fl64 (u * c)" "fl64 (u * c) \<le> of_int maxMs"
    using uc assms(3,4) by (simp_all add: b64.rnd_nonneg b64.rnd_le_int)
  ultimately show ?thesis
    using c by (auto simp: retry_backoffMs_def e_def js_floor_def Let_def floor_le_iff le_floor_iff
      intro!: exI [of _ "\<lfloor>fl64 (u * c)\<rfloor>"]) 
qed

theorem retry_delay_bounded_witness:
  "\<exists>k. retry_backoffMs 2000 500 8000 (Fin (1/2)) = Fin (of_int k) \<and> 0 \<le> k \<and> k \<le> (8000 :: int)"
  by (rule retry_delay_bounded) simp_all

end
