(* ===== verification/HeartbeatProps.thy ===== *)
theory HeartbeatProps
  imports Heartbeat DaemonProps
begin

section \<open>The heartbeat against the gateway\<close>

text \<open>
  The loop never stalls and never holds two timers; the gateway accepts the daemon's beats; what a
  beat reports about the node's health has no effect on the node table.
\<close>

subsection \<open>The loop\<close>

text \<open>
  C35: The heartbeat loop neither stalls nor leaks, whatever the order of calls of `start`, `stop`
  and `tick`, of timers firing and of beats completing: the scheduler holds at most one timer, the
  one the loop owns; a stopped loop holds none; a running loop has a timer armed or a timer's beat in
  flight, and when such a beat completes a timer is armed again; and every armed delay is within a
  fifth (rounded up) of the steady interval or of the capped backoff it was computed from.
\<close>

theorem heartbeat_loop_live:
  assumes "hb_config_ok c" and "hb_reach c st"
  shows "length (hl_armed st) \<le> 1 \<and>
    map fst (hl_armed st) = (case hl_timer st of None \<Rightarrow> [] | Some h \<Rightarrow> [h]) \<and>
    (\<not> hl_running st \<longrightarrow> hl_armed st = []) \<and>
    (hl_running st \<longrightarrow> hl_armed st \<noteq> [] \<or> (\<exists>t \<in> set (hl_ticks st). fl_byTimer t)) \<and>
    (\<forall>t \<in> set (hl_ticks st). \<forall>u. hl_running st \<and> fl_byTimer t \<longrightarrow> hl_armed (tick_continues c t u st) \<noteq> []) \<and>
    (\<forall>(h, d) \<in> set (hl_armed st). \<exists>n k. d = Fin (of_int k) \<and> 1 \<le> k \<and>
       \<bar>k - nextDelayMs c n\<bar> \<le> nextDelayMs c n div 5 + 1)"
proof -
  have inv: "loop_inv c st" using assms by (rule reach_inv)
  then have t: "timer_ok c st" by (simp add: loop_inv_def)
  have m: "map fst (hl_armed st) = (case hl_timer st of None \<Rightarrow> [] | Some h \<Rightarrow> [h])" using t by (simp add: timer_ok_def)
  have "length (map fst (hl_armed st)) \<le> 1" unfolding m by (simp split: option.split)
  then have l: "length (hl_armed st) \<le> 1" by simp
  have s: "\<not> hl_running st \<longrightarrow> hl_armed st = []"
    using inv armed_none [OF t] by (auto simp: loop_inv_def)
  have r: "hl_running st \<longrightarrow> hl_armed st \<noteq> [] \<or> (\<exists>t \<in> set (hl_ticks st). fl_byTimer t)"
    using inv m by (auto simp: loop_inv_def split: option.splits)
  have k: "hl_armed (tick_continues c tk u st) \<noteq> []" if "hl_running st" "fl_byTimer tk" for tk u
    using that by (simp add: tick_continues_def scheduleNext_def schedule_def Let_def)
  have d: "\<forall>(h, d) \<in> set (hl_armed st). \<exists>n k. d = Fin (of_int k) \<and> 1 \<le> k \<and>
       \<bar>k - nextDelayMs c n\<bar> \<le> nextDelayMs c n div 5 + 1"
    using t by (fastforce simp: timer_ok_def delay_ok_def Let_def)
  from l m s r k d show ?thesis by blast
qed

definition ex_hb :: hb_config where "ex_hb = \<lparr>hc_interval = 15000, hc_maxBackoff = DEFAULT_MAX_BACKOFF_MS\<rparr>"

lemma heartbeat_loop_live_witness:
  "length (hl_armed (loop_start ex_hb (Fin (1/2)) new_loop)) \<le> 1 \<and> hl_running (loop_start ex_hb (Fin (1/2)) new_loop)"
proof -
  have "hb_config_ok ex_hb" by (simp add: hb_config_ok_def ex_hb_def DEFAULT_MAX_BACKOFF_MS_def)
  moreover have "hb_reach ex_hb (loop_start ex_hb (Fin (1/2)) new_loop)"
    by (rule hb_reach.Step [OF hb_reach.Init]) (rule hb_step.Start, simp_all)
  ultimately have "length (hl_armed (loop_start ex_hb (Fin (1/2)) new_loop)) \<le> 1"
    using heartbeat_loop_live by blast
  then show ?thesis by (simp add: loop_start_def new_loop_def schedule_def Let_def clear_timer_def)
qed

text \<open>
  \<open>drain\<close> waits for the tick that started last: with two beats at once, the loop reports itself
  drained when the later one is through and the earlier one is still in flight.
\<close>

lemma drain_can_miss_a_beat: "\<exists>st. hb_reach ex_hb st \<and> drained st \<and> \<not> hl_running st \<and> hl_ticks st \<noteq> []"
proof -
  define s1 where "s1 = tick_begin False new_loop"
  define s2 where "s2 = tick_begin False s1"
  define s3 where "s3 = tick_settles 1 True s2"
  define s4 where "s4 = tick_continues ex_hb \<lparr>fl_id = 1, fl_byTimer = False, fl_settled = True\<rparr> (Fin 0) s3"
  note d = s1_def s2_def s3_def s4_def tick_begin_def tick_settles_def tick_continues_def new_loop_def Let_def
  have "hb_reach ex_hb s1" unfolding s1_def by (rule hb_reach.Step [OF hb_reach.Init hb_step.Tick])
  then have "hb_reach ex_hb s2" unfolding s2_def by (rule hb_reach.Step) (rule hb_step.Tick)
  then have "hb_reach ex_hb s3"
  proof (rule hb_reach.Step)
    show "hb_step ex_hb s2 s3"
      using hb_step.Settle [of "\<lparr>fl_id = 1, fl_byTimer = False, fl_settled = False\<rparr>" s2 ex_hb True] by (simp add: d)
  qed
  then have "hb_reach ex_hb s4"
  proof (rule hb_reach.Step)
    show "hb_step ex_hb s3 s4"
      unfolding s4_def by (rule hb_step.Continue) (simp_all add: d)
  qed
  moreover have "drained s4 \<and> \<not> hl_running s4 \<and> hl_ticks s4 \<noteq> []" by (simp add: d drained_def)
  ultimately show ?thesis by blast
qed

subsection \<open>What a beat comes to\<close>

text \<open>
  C36: A beat reports what the gateway answered. It posts at most one heartbeat, and posts it exactly if
  the load was sampled and the beat was signed; its status is the status of the gateway's response to
  that post, and none if there was no post or no response. It succeeds exactly when that response was a
  2xx, or a 404 or 410 and the registration that follows succeeded; it registers again exactly on a 404
  or 410, after the post; a failed beat, and no other, carries an error, which is the timeout when the
  post was aborted and the registration's own error when that failed.
\<close>

theorem beat_outcome:
  "case sendOnce dm i of (evs, res) \<Rightarrow>
     (\<forall>url s. Beat url s \<in> set evs \<longleftrightarrow> url = heartbeat_url dm \<and>
        (\<exists>healthy inFlight. bi_snapshot i = Inr (healthy, inFlight) \<and>
           signHeartbeat (dm_fmt dm) (dm_ed dm) (current_beat dm i healthy inFlight) (dm_key dm) = Inr s)) \<and>
     (evs = [] \<or> (\<exists>s. evs = [Beat (heartbeat_url dm) s]) \<or> (\<exists>s. evs = [Beat (heartbeat_url dm) s, Reregister])) \<and>
     (\<forall>status. tr_status res = Some status \<longleftrightarrow> evs \<noteq> [] \<and> (\<exists>body. bi_reply i = Answered status body)) \<and>
     (Reregister \<in> set evs \<longleftrightarrow> evs \<noteq> [] \<and> (\<exists>body. bi_reply i = Answered 404 body \<or> bi_reply i = Answered 410 body)) \<and>
     (tr_ok res \<longleftrightarrow> evs \<noteq> [] \<and> (\<exists>status body. bi_reply i = Answered status body \<and>
        (200 \<le> status \<and> status < 300 \<or> (status = 404 \<or> status = 410) \<and> bi_reregister i = None))) \<and>
     (tr_reregistered res \<longleftrightarrow> Reregister \<in> set evs \<and> bi_reregister i = None) \<and>
     (tr_error res = None \<longleftrightarrow> tr_ok res) \<and>
     (Reregister \<in> set evs \<longrightarrow> tr_error res = bi_reregister i) \<and>
     (evs \<noteq> [] \<and> bi_reply i = Rejected AbortError \<longrightarrow> tr_error res =
        Some (Mesh (upstream_error ''heartbeat timed out'' [(''nodeId'', JStr (d_nodeId (dm_config dm)))])))"
proof (cases "bi_snapshot i")
  case (Inl cause)
  then show ?thesis by (simp add: sendOnce_def beat_failed_def)
next
  case (Inr live)
  obtain healthy inFlight where live: "live = (healthy, inFlight)" by (cases live)
  show ?thesis
  proof (cases "signHeartbeat (dm_fmt dm) (dm_ed dm) (current_beat dm i healthy inFlight) (dm_key dm)")
    case (Inl e)
    with Inr live show ?thesis by (simp add: sendOnce_def beat_failed_def)
  next
    case (Inr s)
    show ?thesis
    proof (cases "bi_reply i")
      case (Rejected cause)
      with Inr \<open>bi_snapshot i = Inr live\<close> live show ?thesis by (auto simp: sendOnce_def beat_failed_def)
    next
      case (Answered status body)
      with Inr \<open>bi_snapshot i = Inr live\<close> live show ?thesis
        by (auto simp: sendOnce_def beat_answered_def Let_def)
    qed
  qed
qed

subsection \<open>The gateway accepts the daemon's beats\<close>

lemma beat_reparse:
  assumes "daemon_ok a (dm_config dm)" "0 \<le> inFlight" "inFlight \<le> 1000000" "0 < bi_now i" "nonce_ok (bi_nonce i)"
    and "ed_ok (dm_ed dm)" "key_ok (dm_ed dm) (dm_key dm)"
    and "signHeartbeat (dm_fmt dm) (dm_ed dm) (current_beat dm i healthy inFlight) (dm_key dm) = Inr s"
  shows "SignedNodeHeartbeatSchema (beat_json s) = Some s"
proof -
  obtain message where s: "s = \<lparr>sh_heartbeat = current_beat dm i healthy inFlight,
      sh_signature = signB64 (dm_ed dm) (dm_key dm) message, sh_publicKey = ok_publicKeyB64 (dm_key dm)\<rparr>"
    using assms(8) by (auto simp: signHeartbeat_def bind_res_Inr_iff)
  have c: "node_id_ok (d_nodeId (dm_config dm))" "1 \<le> d_maxConcurrency (dm_config dm)" "d_maxConcurrency (dm_config dm) \<le> 1024"
    using assms(1) by (simp_all add: daemon_ok_def)
  have "NodeHeartbeatSchema (heartbeat_projection (current_beat dm i healthy inFlight)) = Some (current_beat dm i healthy inFlight)"
    using c assms(2-5)
    by (simp add: NodeHeartbeatSchema_def heartbeat_projection_def current_beat_def z_strict_def heartbeat_keys_def
      member_of_def z_bool_def len_between_def DAEMON_VERSION_def)
  with key_roundtrip(2,3) [OF assms(6,7)] show ?thesis
    by (simp add: SignedNodeHeartbeatSchema_def beat_json_def s z_strict_def member_of_def)
qed

lemma beat_verifies:
  assumes "same_crypto ed cy" "key_ok ed key" "signHeartbeat fmt ed h key = Inr s"
    and "ne_crypto ne = cy" "ne_fmt ne = fmt"
  shows "verifyHeartbeatSignature ne s (ok_address key) = Inr ()"
proof -
  have ed: "ed_ok ed" using assms(1) by (simp add: same_crypto_def)
  obtain message where m: "canonicalHeartbeatBytes fmt h = Inr message"
    and s: "s = \<lparr>sh_heartbeat = h, sh_signature = signB64 ed key message, sh_publicKey = ok_publicKeyB64 key\<rparr>"
    using assms(3) by (auto simp: signHeartbeat_def bind_res_Inr_iff)
  note k = crypto_agrees [OF assms(1,2)]
  show ?thesis
    using m k key_roundtrip(4,5) [OF ed assms(2)] assms(4,5)
    by (simp add: verifyHeartbeatSignature_def s Let_def ED25519_PUBLIC_KEY_BYTES_def)
qed

lemma last_seen_ge: "t \<noteq> NaN \<Longrightarrow> js_le t (last_seen t w)"
proof (induction w arbitrary: t)
  case (Cons ou w)
  show ?case
  proof (cases "o_success ou \<and> js_less t (o_at ou)")
    case True
    then have "o_at ou \<noteq> NaN" by auto
    with Cons.IH [of "o_at ou"] True show ?thesis using js_less_trans by (auto simp: js_le_def)
  next
    case False
    with Cons.IH [OF Cons.prems] show ?thesis by auto
  qed
qed (simp add: js_le_def)

lemma js_max_ge: "a \<noteq> NaN \<Longrightarrow> b \<noteq> NaN \<Longrightarrow> js_max a b \<noteq> NaN \<and> js_le b (js_max a b)"
  by (cases a; cases b) (auto simp: js_max_def js_le_def)

lemma js_int_number: "js_int n \<noteq> NaN"
  by (simp add: js_int_def js_of_rat_def js_clip_def)

lemma merge_alive:
  fixes now :: int and w :: "request_outcome list"
  assumes "h_lastSeenAt (n_health e) \<noteq> NaN"
  defines "r' \<equiv> mergeRecord (Some e) (alive_at now e) w"
  shows "js_le (js_int now) (h_lastSeenAt (n_health r'))" "h_healthy (n_health r') \<longleftrightarrow> failure_streak w < 3"
proof -
  let ?t = "js_max (h_lastSeenAt (n_health e)) (js_int now)"
  have t: "?t \<noteq> NaN" "js_le (js_int now) ?t" using js_max_ge [OF assms(1) js_int_number, of now] by simp_all
  have trans: "js_le (js_int now) x" if "js_le ?t x" for x
    using that t(2) js_less_trans by (auto simp: js_le_def)
  show "js_le (js_int now) (h_lastSeenAt (n_health r'))"
    using t(2) trans [OF last_seen_ge [OF t(1)], of w]
    by (auto simp: r'_def mergeRecord_def cloneRecord_def alive_at_def Let_def deriveHealth_def)
  show "h_healthy (n_health r') \<longleftrightarrow> failure_streak w < 3"
    by (auto simp: r'_def mergeRecord_def cloneRecord_def alive_at_def Let_def deriveHealth_def
      failure_streak_def UNHEALTHY_CONSECUTIVE_FAILURES_def)
qed

lemma daemon_beat_handled:
  assumes "sdk_ok (dm_avm dm)" and "same_crypto (dm_ed dm) (ne_crypto ne)" and "ne_fmt ne = dm_fmt dm"
    and "loadOperatorKey (dm_ed dm) (d_privateKeyB64 (dm_config dm)) = Inr (dm_key dm)"
    and "loadDaemonConfig (dm_avm dm) (dm_parse dm) env = Inr (dm_config dm)"
    and "mem_inv (st_store st)" and "mem_get (st_store st) (d_nodeId (dm_config dm)) = Some existing"
    and "owner existing = ok_address (dm_key dm)"
    and "bi_snapshot i = Inr (healthy, inFlight)" and "0 \<le> inFlight" and "inFlight \<le> 1000000"
    and "0 < bi_now i" and "nonce_ok (bi_nonce i)"
    and "Beat url s \<in> set (fst (sendOnce dm i))"
    and "\<bar>bi_now i - e_now_fresh e\<bar> \<le> REGISTRATION_MAX_SKEW_MS"
    and "claim (st_nonces st) (bi_nonce i) (e_now_claim e) = (nonces', True)"
    and "h_lastSeenAt (n_health existing) \<noteq> NaN"
  shows "\<exists>st' resp r'. handleHeartbeat ne mem_ops e (d_nodeId (dm_config dm)) (beat_json s) st = (st', Inr resp) \<and>
    mem_get (st_store st') (d_nodeId (dm_config dm)) = Some r' \<and>
    js_le (js_int (e_now_store e)) (h_lastSeenAt (n_health r')) \<and> hr_lastSeenAt resp = h_lastSeenAt (n_health r') \<and>
    (h_healthy (n_health r') \<longleftrightarrow> failure_streak (window_of (st_store st) (d_nodeId (dm_config dm))) < 3) \<and>
    hr_healthy resp = h_healthy (n_health r') \<and>
    n_registration r' = n_registration existing \<and> in_flight r' = in_flight existing \<and>
    (\<forall>k. k \<noteq> d_nodeId (dm_config dm) \<longrightarrow> mem_get (st_store st') k = mem_get (st_store st) k)"
proof -
  let ?id = "d_nodeId (dm_config dm)"
  have ed: "ed_ok (dm_ed dm)" using assms(2) by (simp add: same_crypto_def)
  have key: "key_ok (dm_ed dm) (dm_key dm)" using ed assms(4) by (rule load_key_ok)
  have cfg: "daemon_ok (dm_avm dm) (dm_config dm)" using assms(1,5) by (rule loaded_daemon_ok)
  then have "?id \<noteq> []" by (auto simp: daemon_ok_def node_id_ok_def len_between_def)
  have sg: "signHeartbeat (dm_fmt dm) (dm_ed dm) (current_beat dm i healthy inFlight) (dm_key dm) = Inr s"
    using assms(9,14) by (auto simp: sendOnce_def beat_answered_def Let_def split: sum.splits gateway_reply.splits if_splits)
  have parsed: "SignedNodeHeartbeatSchema (beat_json s) = Some s"
    by (rule beat_reparse [OF cfg assms(10-13) ed key sg])
  have "sh_heartbeat s = current_beat dm i healthy inFlight"
    using sg by (auto simp: signHeartbeat_def bind_res_Inr_iff)
  then have h: "hb_nodeId (sh_heartbeat s) = ?id" "hb_timestamp (sh_heartbeat s) = bi_now i"
    "hb_nonce (sh_heartbeat s) = bi_nonce i" by (simp_all add: current_beat_def)
  have "assertFreshTimestamp (bi_now i) (e_now_fresh e) = Inr ()"
    using fresh_iff [of "bi_now i" "e_now_fresh e"] assms(15) by (auto simp: isOk_iff)
  with beat_verifies [OF assms(2) key sg refl assms(3)] h assms(8,16)
  have admit: "heartbeat_admit ne e ?id s existing (st_nonces st) = (nonces', Inr ())"
    by (simp add: heartbeat_admit_def Let_def)
  let ?r = "mergeRecord (Some existing) (alive_at (e_now_store e) existing) (window_of (st_store st) ?id)"
  let ?s = "mem_upsert (alive_at (e_now_store e) existing) (st_store st)"
  have "n_nodeId existing = ?id" using mem.get_key [OF assms(6,7)] .
  moreover obtain r0 where "jget (m_records (st_store st)) ?id = Some r0" "r0 = existing"
    using assms(7) by (auto simp: mem_get_def)
  ultimately have r': "mem_get ?s ?id = Some ?r"
    by (simp add: mem_get_def mem_upsert_def Let_def jget_jset)
  note f = merge_fields [OF refl, of existing "alive_at (e_now_store e) existing" "window_of (st_store st) ?id"]
  note al = merge_alive [OF assms(17), of "e_now_store e" "window_of (st_store st) ?id"]
  have h': "handleHeartbeat ne mem_ops e ?id (beat_json s) st = (st\<lparr>st_nonces := nonces', st_store := ?s\<rparr>,
      Inr \<lparr>hr_nodeId = ?id, hr_healthy = h_healthy (n_health ?r), hr_lastSeenAt = h_lastSeenAt (n_health ?r),
           hr_routable = (n_usdcOptedIn ?r \<or> \<not> g_requireUsdcOptIn (ne_config ne))\<rparr>)"
    using \<open>?id \<noteq> []\<close> parsed assms(7) admit r'
    by (simp add: handleHeartbeat_def parseOrThrow_def mem_ops_def adapter_heartbeat_def Let_def)
  show ?thesis
    unfolding h' using r' f(1,2) al beat_upsert(2) [OF assms(6,7), where now = "e_now_store e"] by simp
qed

text \<open>
  C32: The gateway accepts the beats of a daemon it has registered: if the stored record of the
  node id belongs to the operator whose key the daemon loaded, the daemon reports itself healthy with a
  load of at most a million, the clocks agree within the skew, the nonce is new and the last-seen time
  on record is a number, then the handler
  answers success, the stored record was last seen no earlier than the moment the gateway handled the
  beat, the node is healthy exactly if its last recorded requests do not end in three failures, the
  response says both, and its registration, its in-flight count and every other node are as they were.
\<close>

theorem daemon_beat_accepted:
  assumes "sdk_ok (dm_avm dm)" and "same_crypto (dm_ed dm) (ne_crypto ne)" and "ne_fmt ne = dm_fmt dm"
    and "loadOperatorKey (dm_ed dm) (d_privateKeyB64 (dm_config dm)) = Inr (dm_key dm)"
    and "loadDaemonConfig (dm_avm dm) (dm_parse dm) env = Inr (dm_config dm)"
    and "mem_inv (st_store st)" and "mem_get (st_store st) (d_nodeId (dm_config dm)) = Some existing"
    and "owner existing = ok_address (dm_key dm)"
    and "bi_snapshot i = Inr (True, inFlight)" and "0 \<le> inFlight" and "inFlight \<le> 1000000"
    and "0 < bi_now i" and "nonce_ok (bi_nonce i)"
    and "Beat url s \<in> set (fst (sendOnce dm i))"
    and "\<bar>bi_now i - e_now_fresh e\<bar> \<le> REGISTRATION_MAX_SKEW_MS"
    and "claim (st_nonces st) (bi_nonce i) (e_now_claim e) = (nonces', True)"
    and "h_lastSeenAt (n_health existing) \<noteq> NaN"
  shows "\<exists>st' resp r'. handleHeartbeat ne mem_ops e (d_nodeId (dm_config dm)) (beat_json s) st = (st', Inr resp) \<and>
    mem_get (st_store st') (d_nodeId (dm_config dm)) = Some r' \<and>
    js_le (js_int (e_now_store e)) (h_lastSeenAt (n_health r')) \<and> hr_lastSeenAt resp = h_lastSeenAt (n_health r') \<and>
    (h_healthy (n_health r') \<longleftrightarrow> failure_streak (window_of (st_store st) (d_nodeId (dm_config dm))) < 3) \<and>
    hr_healthy resp = h_healthy (n_health r') \<and>
    n_registration r' = n_registration existing \<and> in_flight r' = in_flight existing \<and>
    (\<forall>k. k \<noteq> d_nodeId (dm_config dm) \<longrightarrow> mem_get (st_store st') k = mem_get (st_store st) k)"
  by (rule daemon_beat_handled) (use assms in blast)+

definition ex_beat :: "bool \<Rightarrow> beat_input" where
  "ex_beat healthy = \<lparr>bi_snapshot = Inr (healthy, 1), bi_now = 1000, bi_nonce = replicate 16 CHR ''b'',
     bi_reply = Answered 200 None, bi_reregister = None\<rparr>"

definition ex_daemon_reg :: node_registration where
  "ex_daemon_reg = (ex_reg CHR ''A'')\<lparr>r_operatorAddress := ok_address (dm_key ex_daemon)\<rparr>"

lemma ex_daemon_parts:
  "dm_avm ex_daemon = demo_avm" "dm_ed ex_daemon = demo_ed" "dm_parse ex_daemon = any_url"
  "dm_fmt ex_daemon = (\<lambda>_. [])" "dm_config ex_daemon = ex_daemon_config"
  "d_privateKeyB64 ex_daemon_config = demo_secret" "d_nodeId ex_daemon_config = ''n1''"
  "d_maxConcurrency ex_daemon_config = 8"
  by (simp_all add: ex_daemon_def ex_daemon_config_def)

lemma ex_beat_signs: "\<exists>url s. Beat url s \<in> set (fst (sendOnce ex_daemon (ex_beat healthy))) \<and>
    signHeartbeat (dm_fmt ex_daemon) (dm_ed ex_daemon) (current_beat ex_daemon (ex_beat healthy) healthy 1) (dm_key ex_daemon) = Inr s"
proof -
  let ?h = "current_beat ex_daemon (ex_beat healthy) healthy 1"
  have "signable_beat ?h" by (simp add: signable_beat_def current_beat_def small_int_def ex_daemon_parts ex_beat_def)
  from plain_normal [OF plain_heartbeat [OF this]] obtain t where "normal (heartbeat_projection ?h) = Some t" by blast
  from render_is_canonical [OF this] obtain s where s: "signHeartbeat (dm_fmt ex_daemon) (dm_ed ex_daemon) ?h (dm_key ex_daemon) = Inr s"
    by (simp add: signHeartbeat_def canonicalHeartbeatBytes_def domainSeparatedBytes_def)
  then have "Beat (heartbeat_url ex_daemon) s \<in> set (fst (sendOnce ex_daemon (ex_beat healthy)))"
    by (simp add: sendOnce_def ex_beat_def current_beat_def beat_answered_def)
  with s show ?thesis by blast
qed

lemma beat_outcome_witness:
  "tr_status (snd (sendOnce ex_daemon (ex_beat True))) = Some 200 \<and> tr_ok (snd (sendOnce ex_daemon (ex_beat True)))"
proof -
  have ne: "fst (sendOnce ex_daemon (ex_beat True)) \<noteq> []" using ex_beat_signs [of True] by auto
  have r: "bi_reply (ex_beat True) = Answered 200 None" by (simp add: ex_beat_def)
  show ?thesis using beat_outcome [where dm = ex_daemon and i = "ex_beat True"] ne r
    by (simp add: case_prod_unfold)
qed

text \<open>A gateway that has the example daemon's node in its table.\<close>

abbreviation ex_gateway :: node_env where
  "ex_gateway \<equiv> ex_ne\<lparr>ne_crypto := demo_crypto\<rparr>"

abbreviation ex_known :: node_record where
  "ex_known \<equiv> buildRecord ex_daemon_reg None True ex_config 1000"

definition ex_known_state :: "mem_store node_state" where
  "ex_known_state = \<lparr>st_store = mem_upsert ex_known mem_empty, st_nonces = default_nonce_cache, st_hosts = []\<rparr>"

lemma ex_known_facts: "mem_inv (st_store ex_known_state)" "mem_get (st_store ex_known_state) ''n1'' = Some ex_known"
  "window_of (st_store ex_known_state) ''n1'' = []"
proof -
  have id: "n_nodeId ex_known = ''n1''" by (simp add: ex_daemon_reg_def ex_reg_def)
  have "mem_get mem_empty (n_nodeId ex_known) = None" by (simp add: mem_get_def mem_empty_def)
  from mem.get_upsert_new [OF mem_inv_empty this] id show "mem_get (st_store ex_known_state) ''n1'' = Some ex_known"
    by (simp add: ex_known_state_def)
  show "mem_inv (st_store ex_known_state)"
    using mem.invar_upsert [OF mem_inv_empty, of ex_known] by (simp add: ex_known_state_def or_else_def)
  show "window_of (st_store ex_known_state) ''n1'' = []"
    by (simp add: ex_known_state_def mem_upsert_def mem_empty_def window_of_def Let_def jget_jset)
qed

lemma ex_claim: "\<exists>nonces'. claim (st_nonces ex_known_state) (bi_nonce (ex_beat healthy)) (e_now_claim (ex_req 1000)) = (nonces', True)"
  by (simp add: ex_known_state_def claim_first default_nonce_cache_def)

lemma ex_beat_facts: "same_crypto (dm_ed ex_daemon) (ne_crypto ex_gateway)" "nonce_ok (bi_nonce (ex_beat healthy))"
  "bi_snapshot (ex_beat healthy) = Inr (healthy, 1)" "0 < bi_now (ex_beat healthy)"
  "\<bar>bi_now (ex_beat healthy) - e_now_fresh (ex_req 1000)\<bar> \<le> REGISTRATION_MAX_SKEW_MS"
  "owner ex_known = ok_address (dm_key ex_daemon)" "ne_fmt ex_gateway = dm_fmt ex_daemon"
  "mem_get (st_store ex_known_state) (d_nodeId (dm_config ex_daemon)) = Some ex_known"
  "loadOperatorKey (dm_ed ex_daemon) (d_privateKeyB64 (dm_config ex_daemon)) = Inr (dm_key ex_daemon)"
  "loadDaemonConfig (dm_avm ex_daemon) (dm_parse ex_daemon) ex_daemon_vars = Inr (dm_config ex_daemon)"
  "sdk_ok (dm_avm ex_daemon)" "h_lastSeenAt (n_health ex_known) \<noteq> NaN"
  using demo_same_crypto js_int_number [of 1000] ex_known_facts(2)
  by (simp_all add: ex_daemon_parts ex_beat_def nonce_ok_def len_between_def is_hex_def is_digit_def code_def
    list_all_iff ex_req_def REGISTRATION_MAX_SKEW_MS_def buildRecord_def ex_daemon_reg_def ex_ne_def demo_sdk_ok ex_daemon_loads ex_daemon_key)

lemma daemon_beat_accepted_witness:
  "\<exists>st' s resp. handleHeartbeat ex_gateway mem_ops (ex_req 1000) ''n1'' (beat_json s) ex_known_state = (st', Inr resp)"
proof -
  obtain url s where b: "Beat url s \<in> set (fst (sendOnce ex_daemon (ex_beat True)))" using ex_beat_signs by blast
  obtain nonces' where c: "claim (st_nonces ex_known_state) (bi_nonce (ex_beat True)) (e_now_claim (ex_req 1000)) = (nonces', True)"
    using ex_claim by blast
  from daemon_beat_accepted [OF ex_beat_facts(11,1,7,9,10) ex_known_facts(1) ex_beat_facts(8,6,3) _ _ ex_beat_facts(4,2) b
      ex_beat_facts(5) c ex_beat_facts(12)]
  show ?thesis by (auto simp: ex_daemon_parts)
qed

lemma ex_sick_beat: "\<exists>s resp. snd (handleHeartbeat ex_gateway mem_ops (ex_req 1000) ''n1'' (beat_json s) ex_known_state) = Inr resp \<and>
    SignedNodeHeartbeatSchema (beat_json s) = Some s \<and> \<not> hb_healthy (sh_heartbeat s)"
proof -
  obtain url s where b: "Beat url s \<in> set (fst (sendOnce ex_daemon (ex_beat False)))"
    and s: "signHeartbeat (dm_fmt ex_daemon) (dm_ed ex_daemon) (current_beat ex_daemon (ex_beat False) False 1) (dm_key ex_daemon) = Inr s"
    using ex_beat_signs by blast
  obtain nonces' where c: "claim (st_nonces ex_known_state) (bi_nonce (ex_beat False)) (e_now_claim (ex_req 1000)) = (nonces', True)"
    using ex_claim by blast
  have ed: "ed_ok (dm_ed ex_daemon)" using ex_beat_facts(1) by (simp add: same_crypto_def)
  have key: "key_ok (dm_ed ex_daemon) (dm_key ex_daemon)" by (rule load_key_ok [OF ed ex_beat_facts(9)])
  have cfg: "daemon_ok (dm_avm ex_daemon) (dm_config ex_daemon)" by (rule loaded_daemon_ok [OF ex_beat_facts(11,10)])
  have "SignedNodeHeartbeatSchema (beat_json s) = Some s"
    by (rule beat_reparse [OF cfg _ _ ex_beat_facts(4,2) ed key s]) simp_all
  moreover have "\<not> hb_healthy (sh_heartbeat s)"
    using s by (auto simp: signHeartbeat_def bind_res_Inr_iff current_beat_def)
  moreover from daemon_beat_handled [OF ex_beat_facts(11,1,7,9,10) ex_known_facts(1) ex_beat_facts(8,6,3) _ _
      ex_beat_facts(4,2) b ex_beat_facts(5) c ex_beat_facts(12)]
  obtain st' resp where "handleHeartbeat ex_gateway mem_ops (ex_req 1000) ''n1'' (beat_json s) ex_known_state = (st', Inr resp)"
    by (auto simp: ex_daemon_parts)
  ultimately show ?thesis by (intro exI [of _ s] exI [of _ resp]) simp
qed

subsection \<open>What the beat reports is not used\<close>

lemma accepted_beat_record:
  assumes "mem_inv (st_store st)" "snd (handleHeartbeat ne mem_ops e nodeId body st) = Inr resp"
    and "window_of (st_store st) nodeId = []"
  shows "hr_healthy resp \<and> (\<exists>r. mem_get (st_store (fst (handleHeartbeat ne mem_ops e nodeId body st))) nodeId = Some r \<and>
    h_healthy (n_health r))"
proof (cases rule: handleHeartbeat_store [of ne mem_ops e nodeId body st])
  case refused
  with assms(2) show ?thesis by auto
next
  case (beat envelope existing)
  let ?s = "st_store st"
  have g: "mem_get ?s nodeId = Some existing" using beat(1) by (simp add: mem_ops_def)
  then obtain r0 where r0: "jget (m_records ?s) nodeId = Some r0" by (auto simp: mem_get_def)
  have k: "n_nodeId existing = nodeId" using mem.get_key [OF assms(1) g] .
  let ?r = "cloneRecord (mergeRecord (Some r0) (alive_at (e_now_store e) existing) [])"
  have u: "mem_get (mem_upsert (alive_at (e_now_store e) existing) ?s) nodeId = Some ?r"
    using r0 k assms(3) by (simp add: mem_get_def mem_upsert_def Let_def jget_jset)
  have healthy: "h_healthy (n_health ?r)" by (simp add: cloneRecord_def mergeRecord_def Let_def alive_at_def)
  have st': "mem_get (st_store (fst (handleHeartbeat ne mem_ops e nodeId body st))) nodeId = Some ?r"
    using beat(6) u by (simp add: mem_ops_def)
  have "hr_healthy resp = h_healthy (n_health ?r)"
    using assms(2) beat(1,2) u g
    by (auto simp: handleHeartbeat_def parseOrThrow_def adapter_heartbeat_def mem_ops_def Let_def
      split: if_splits sum.splits prod.splits)
  with st' healthy show ?thesis by blast
qed

text \<open>
  What a node reports about itself is verified and then dropped: a beat that says its inference
  backend is down (`healthy: false`) and is accepted leaves the node marked healthy, in the table
  and in the response, as long as no failed request has been recorded for it, and the next
  selection may route to it.
\<close>

theorem reported_unhealthy_ignored:
  assumes "mem_inv (st_store st)" and "snd (handleHeartbeat ne mem_ops e nodeId body st) = Inr resp"
    and "SignedNodeHeartbeatSchema body = Some envelope" and "\<not> hb_healthy (sh_heartbeat envelope)"
    and "window_of (st_store st) nodeId = []"
  shows "hr_healthy resp \<and> (\<exists>r. mem_get (st_store (fst (handleHeartbeat ne mem_ops e nodeId body st))) nodeId = Some r \<and>
    h_healthy (n_health r))"
  using assms(1,2,5) by (rule accepted_beat_record)

lemma reported_unhealthy_ignored_witness:
  "\<exists>s resp. \<not> hb_healthy (sh_heartbeat s) \<and> hr_healthy resp \<and>
     snd (handleHeartbeat ex_gateway mem_ops (ex_req 1000) ''n1'' (beat_json s) ex_known_state) = Inr resp"
proof -
  obtain s resp where s: "snd (handleHeartbeat ex_gateway mem_ops (ex_req 1000) ''n1'' (beat_json s) ex_known_state) = Inr resp"
    "SignedNodeHeartbeatSchema (beat_json s) = Some s" "\<not> hb_healthy (sh_heartbeat s)" using ex_sick_beat by blast
  from reported_unhealthy_ignored [OF ex_known_facts(1) s ex_known_facts(3)] s show ?thesis by blast
qed

end
