(* ===== verification/NodeServer.thy ===== *)
theory NodeServer
  imports Semaphore Schemas Sse
begin

section \<open>The node's HTTP server (packages/node-daemon/src/server.ts)\<close>

text \<open>
  \<open>NodeServer\<close>: routing, the bearer check, admission through the semaphore, the body reader, the JSON
  and the streamed completion, and the in-band error of a stream. Requests interleave at the
  \<open>await\<close>s (\<open>sv_step\<close>): the admission, the body's arrival, the provider's completion, and, of a stream, its
  head, every chunk and its end are steps of their own, and the permit is held over all of them. The provider,
  \<open>JSON.parse\<close>, \<open>JSON.stringify\<close> and the decoding of UTF-8 are arguments; sockets, \<open>listen\<close>,
  \<open>close\<close>, log lines and the details of an error thrown by the body reader are left out.
\<close>

subsection \<open>Options and state\<close>

definition MAX_BODY_BYTES :: nat where "MAX_BODY_BYTES = 1048576"
definition HEALTH_CACHE_MS :: int where "HEALTH_CACHE_MS = 5000"

record server_env =
  se_nodeId :: string
  se_models :: "string list"
  se_provider :: string
  se_version :: string
  se_authToken :: "string option"
  se_parse :: "string \<Rightarrow> jsval option"
  se_stringify :: "jsval \<Rightarrow> string"
  se_utf8 :: "8 word list \<Rightarrow> string"

record http_request =
  hq_method :: string
  hq_url :: string
  hq_authorization :: "string option"
  hq_body :: "(string + 8 word list) list"

text \<open>What reached the wire, and the two flags of \<open>ServerResponse\<close> the code reads.\<close>

datatype wire = Header string string | JsonBody nat jsval | StreamHead | Text string | Ended

record response =
  rs_headersSent :: bool
  rs_ended :: bool
  rs_out :: "wire list"

definition new_response :: response where
  "new_response = \<lparr>rs_headersSent = False, rs_ended = False, rs_out = []\<rparr>"

definition set_header :: "string \<Rightarrow> string \<Rightarrow> response \<Rightarrow> response" where
  "set_header k v r = r\<lparr>rs_out := rs_out r @ [Header k v]\<rparr>"

definition sendJson :: "nat \<Rightarrow> jsval \<Rightarrow> response \<Rightarrow> response" where
  "sendJson status body r =
     (if rs_headersSent r \<or> rs_ended r then r
      else r\<lparr>rs_headersSent := True, rs_ended := True, rs_out := rs_out r @ [JsonBody status body, Ended]\<rparr>)"

definition writeSseData :: "string \<Rightarrow> response \<Rightarrow> response" where
  "writeSseData data r = r\<lparr>rs_out := rs_out r @ [Text (''data: '' @ data @ [LF, LF])]\<rparr>"

definition end_response :: "response \<Rightarrow> response" where
  "end_response r = r\<lparr>rs_ended := True, rs_out := rs_out r @ [Ended]\<rparr>"

definition error_json :: "error_body \<Rightarrow> jsval" where
  "error_json b = JObj [(''error'', JObj
     ([(''code'', JStr (eb_code b)), (''message'', JStr (eb_message b))] @
      (case eb_details b of None \<Rightarrow> [] | Some kvs \<Rightarrow> [(''details'', JObj kvs)])))]"

definition plain_error :: "string \<Rightarrow> string \<Rightarrow> (string \<times> jsval) list \<Rightarrow> jsval" where
  "plain_error code_text message extra =
     JObj [(''error'', JObj ([(''code'', JStr code_text), (''message'', JStr message)] @ extra))]"

subsection \<open>The bearer token\<close>

definition authorized :: "server_env \<Rightarrow> http_request \<Rightarrow> bool" where
  "authorized se rq = (case se_authToken se of
      None \<Rightarrow> True
    | Some expected \<Rightarrow>
        let header = (case hq_authorization rq of None \<Rightarrow> [] | Some h \<Rightarrow> h);
            presented = (if starts_with ''Bearer '' header then drop 7 header else []);
            a = utf8 presented;
            b = utf8 expected
        in if length a \<noteq> length b then False else a = b)"

subsection \<open>Reading the body\<close>

text \<open>The events of the request stream: data, an error, and the end where the list ends.\<close>

fun collect_body :: "nat \<Rightarrow> 8 word list \<Rightarrow> (string + 8 word list) list \<Rightarrow> 8 word list res" where
  "collect_body received chunks [] = Inr chunks"
| "collect_body received chunks (Inl message # rest) =
     throw ValidationErr (''could not read request body: '' @ message)"
| "collect_body received chunks (Inr chunk # rest) =
     (if MAX_BODY_BYTES < received + length chunk then throw ValidationErr ''request body is too large''
      else collect_body (received + length chunk) (chunks @ chunk) rest)"

definition readJsonBody :: "server_env \<Rightarrow> http_request \<Rightarrow> jsval res" where
  "readJsonBody se rq = bind_res (collect_body 0 [] (hq_body rq)) (\<lambda>bytes.
     let text = se_utf8 se bytes
     in if trim text = [] then throw ValidationErr ''request body is empty''
        else (case se_parse se text of
                Some v \<Rightarrow> Inr v
              | None \<Rightarrow> throw ValidationErr ''request body is not valid JSON''))"

subsection \<open>Answering a completion\<close>

text \<open>\<open>streamCompletion\<close>: the head, one turn of the loop over the provider's chunks, and the way out of it.\<close>

definition stream_open :: "response \<Rightarrow> response" where
  "stream_open r = r\<lparr>rs_headersSent := True, rs_out := rs_out r @ [StreamHead]\<rparr>"

definition stream_chunk :: "server_env \<Rightarrow> jsval \<Rightarrow> response \<Rightarrow> response" where
  "stream_chunk se c r = (if rs_ended r then r else writeSseData (se_stringify se c) r)"

definition stream_close :: "server_env \<Rightarrow> thrown option \<Rightarrow> response \<Rightarrow> response" where
  "stream_close se failure r =
     (if rs_ended r then r
      else case failure of
          None \<Rightarrow> end_response (writeSseData SSE_DONE r)
        | Some cause \<Rightarrow>
            let body = error_json (snd (toErrorResponse cause));
                r' = r\<lparr>rs_out := rs_out r @
                  [Text (''event: error'' @ [LF] @ ''data: '' @ se_stringify se body @ [LF, LF])]\<rparr>
            in end_response (writeSseData SSE_DONE r'))"

text \<open>The stream as a whole, given the chunks the provider yields and the failure it ends with.\<close>

definition streamCompletion :: "server_env \<Rightarrow> jsval list \<times> thrown option \<Rightarrow> response \<Rightarrow> response" where
  "streamCompletion se run r = (case run of (chunks, failure) \<Rightarrow>
     stream_close se failure (fold (stream_chunk se) chunks (stream_open r)))"

definition failInfer :: "thrown \<Rightarrow> response \<Rightarrow> response" where
  "failInfer cause r =
     (if rs_headersSent r \<or> rs_ended r then r
      else case toErrorResponse cause of (status, body) \<Rightarrow> sendJson status (error_json body) r)"

definition as_thrown :: "exn \<Rightarrow> thrown" where
  "as_thrown e = Mesh \<lparr>me_class = exn_class e, me_message = exn_message e, me_details = None\<rparr>"

subsection \<open>Admission, health and routing\<close>

text \<open>
  A handler past admission: its number, request, response so far and release closure, and the \<open>await\<close> it
  is at: the body, the provider's completion, or the next chunk of the provider's stream.
\<close>

datatype infer_phase = Reading | Completing | Streaming

record infer_call =
  ru_id :: nat
  ru_request :: http_request
  ru_response :: response
  ru_release :: nat
  ru_phase :: infer_phase

record server =
  sv_sem :: semaphore
  sv_cached :: "(bool \<times> int) option"
  sv_running :: "infer_call list"
  sv_answered :: "(nat \<times> response) list"
  sv_next :: nat

definition new_server :: "semaphore \<Rightarrow> server" where
  "new_server sem = \<lparr>sv_sem = sem, sv_cached = None, sv_running = [], sv_answered = [], sv_next = 0\<rparr>"

definition int_json :: "int \<Rightarrow> jsval" where
  "int_json i = JNum (Fin (of_int i))"

definition saturated_json :: "semaphore \<Rightarrow> jsval" where
  "saturated_json sem = plain_error ''no_capacity'' ''node is at maximum concurrency''
     [(''details'', JObj [(''inFlight'', int_json (sm_active sem)), (''maxConcurrency'', int_json (sm_permits sem))])]"

definition answer :: "response \<Rightarrow> server \<Rightarrow> server" where
  "answer r sv = sv\<lparr>sv_answered := sv_answered sv @ [(sv_next sv, r)], sv_next := Suc (sv_next sv)\<rparr>"

definition infer_admit :: "server_env \<Rightarrow> http_request \<Rightarrow> response \<Rightarrow> server \<Rightarrow> server" where
  "infer_admit se rq r sv =
     (if \<not> authorized se rq
      then answer (sendJson 401 (plain_error ''auth_error'' ''missing or invalid bearer token'' []) r) sv
      else (case tryAcquire (sv_sem sv) of
              (sem', None) \<Rightarrow>
                answer (sendJson 503 (saturated_json sem') (set_header ''retry-after'' ''1'' r)) (sv\<lparr>sv_sem := sem'\<rparr>)
            | (sem', Some c) \<Rightarrow>
                sv\<lparr>sv_sem := sem',
                   sv_running := sv_running sv @ [\<lparr>ru_id = sv_next sv, ru_request = rq, ru_response = r,
                     ru_release = c, ru_phase = Reading\<rparr>],
                   sv_next := Suc (sv_next sv)\<rparr>))"

text \<open>The end of the \<open>try\<close> statement with the response it leaves, then the \<open>finally\<close> with its release.\<close>

definition infer_finish :: "response \<Rightarrow> infer_call \<Rightarrow> server \<Rightarrow> server" where
  "infer_finish r h sv =
     sv\<lparr>sv_answered := sv_answered sv @ [(ru_id h, r)],
        sv_sem := release (ru_release h) (sv_sem sv),
        sv_running := filter (\<lambda>g. ru_id g \<noteq> ru_id h) (sv_running sv)\<rparr>"

definition set_call :: "infer_call \<Rightarrow> server \<Rightarrow> server" where
  "set_call h sv = sv\<lparr>sv_running := map (\<lambda>g. if ru_id g = ru_id h then h else g) (sv_running sv)\<rparr>"

text \<open>\<open>readJsonBody\<close> settles: the request is parsed, and a streamed answer opens.\<close>

definition infer_read :: "server_env \<Rightarrow> infer_call \<Rightarrow> server \<Rightarrow> server" where
  "infer_read se h sv =
     (case bind_res (readJsonBody se (ru_request h)) (\<lambda>raw.
             parseOrThrow ChatCompletionRequestSchema raw ''chat completion request'') of
        Inl e \<Rightarrow> infer_finish (failInfer (as_thrown e) (ru_response h)) h sv
      | Inr request \<Rightarrow>
          if cr_stream request = Some True
          then set_call (h\<lparr>ru_phase := Streaming, ru_response := stream_open (ru_response h)\<rparr>) sv
          else set_call (h\<lparr>ru_phase := Completing\<rparr>) sv)"

text \<open>\<open>provider.chat\<close> settles.\<close>

definition infer_complete :: "thrown + jsval \<Rightarrow> infer_call \<Rightarrow> server \<Rightarrow> server" where
  "infer_complete outcome h sv = infer_finish (case outcome of
      Inl cause \<Rightarrow> failInfer cause (ru_response h)
    | Inr completion \<Rightarrow> sendJson 200 completion (ru_response h)) h sv"

text \<open>The provider's stream yields a chunk, or ends, with or without an error.\<close>

definition infer_chunk :: "server_env \<Rightarrow> jsval \<Rightarrow> infer_call \<Rightarrow> server \<Rightarrow> server" where
  "infer_chunk se c h sv = set_call (h\<lparr>ru_response := stream_chunk se c (ru_response h)\<rparr>) sv"

definition infer_stream_end :: "server_env \<Rightarrow> thrown option \<Rightarrow> infer_call \<Rightarrow> server \<Rightarrow> server" where
  "infer_stream_end se failure h sv = infer_finish (stream_close se failure (ru_response h)) h sv"

definition server_healthy :: "int \<Rightarrow> thrown + bool \<Rightarrow> server \<Rightarrow> server \<times> (thrown + bool)" where
  "server_healthy now probe sv =
     (case sv_cached sv of
        Some (healthy, since) \<Rightarrow>
          if now - since < HEALTH_CACHE_MS then (sv, Inr healthy)
          else (case probe of Inl e \<Rightarrow> (sv, Inl e) | Inr h \<Rightarrow> (sv\<lparr>sv_cached := Some (h, now)\<rparr>, Inr h))
      | None \<Rightarrow> (case probe of Inl e \<Rightarrow> (sv, Inl e) | Inr h \<Rightarrow> (sv\<lparr>sv_cached := Some (h, now)\<rparr>, Inr h)))"

definition handleHealth :: "server_env \<Rightarrow> int \<Rightarrow> thrown + bool \<Rightarrow> response \<Rightarrow> server \<Rightarrow> server \<times> (thrown + response)" where
  "handleHealth se now probe r sv = (case server_healthy now probe sv of
      (sv', Inl e) \<Rightarrow> (sv', Inl e)
    | (sv', Inr healthy) \<Rightarrow>
        (sv', Inr (sendJson (if healthy then 200 else 503)
           (JObj [(''status'', JStr (if healthy then ''ok'' else ''degraded'')), (''nodeId'', JStr (se_nodeId se)),
                  (''version'', JStr (se_version se)), (''provider'', JStr (se_provider se)),
                  (''models'', JArr (map JStr (se_models se))),
                  (''inFlight'', int_json (sm_active (sv_sem sv'))),
                  (''maxConcurrency'', int_json (sm_permits (sv_sem sv'))),
                  (''available'', int_json (available (sv_sem sv')))]) r)))"

definition request_path :: "string \<Rightarrow> string" where
  "request_path url = hd (split_on CHR ''?'' url)"

text \<open>\<open>handle\<close>, up to the admission of a completion; the request id header comes first.\<close>

definition handle ::
  "server_env \<Rightarrow> string \<Rightarrow> int \<Rightarrow> thrown + bool \<Rightarrow> http_request \<Rightarrow> server \<Rightarrow> server" where
  "handle se requestId now probe rq sv =
     (let r = set_header ''x-request-id'' requestId new_response;
          path = request_path (hq_url rq)
      in if path = ''/health''
         then if hq_method rq \<noteq> ''GET'' \<and> hq_method rq \<noteq> ''HEAD''
              then answer (sendJson 405 (plain_error ''method_not_allowed'' ''use GET /health'' []) r) sv
              else (case handleHealth se now probe r sv of
                      (sv', Inr r') \<Rightarrow> answer r' sv'
                    | (sv', Inl cause) \<Rightarrow>
                        (case toErrorResponse cause of (status, body) \<Rightarrow> answer (sendJson status (error_json body) r) sv'))
         else if path = ''/v1/chat/completions'' \<or> path = ''/infer''
         then if hq_method rq \<noteq> ''POST''
              then answer (sendJson 405 (plain_error ''method_not_allowed'' (''use POST '' @ path) []) r) sv
              else infer_admit se rq r sv
         else answer (sendJson 404 (plain_error ''not_found'' (''no route for '' @ path) []) r) sv)"

inductive sv_step :: "server_env \<Rightarrow> server \<Rightarrow> server \<Rightarrow> bool" for se where
  Arrive: "sv_step se sv (handle se requestId now probe rq sv)"
| Read: "h \<in> set (sv_running sv) \<Longrightarrow> ru_phase h = Reading \<Longrightarrow> sv_step se sv (infer_read se h sv)"
| Complete: "h \<in> set (sv_running sv) \<Longrightarrow> ru_phase h = Completing \<Longrightarrow> sv_step se sv (infer_complete outcome h sv)"
| Chunk: "h \<in> set (sv_running sv) \<Longrightarrow> ru_phase h = Streaming \<Longrightarrow> sv_step se sv (infer_chunk se c h sv)"
| StreamEnd: "h \<in> set (sv_running sv) \<Longrightarrow> ru_phase h = Streaming \<Longrightarrow> sv_step se sv (infer_stream_end se failure h sv)"

inductive sv_reach :: "server_env \<Rightarrow> semaphore \<Rightarrow> server \<Rightarrow> bool" for se sem where
  Listening: "sv_reach se sem (new_server sem)"
| Step: "sv_reach se sem sv \<Longrightarrow> sv_step se sv sv' \<Longrightarrow> sv_reach se sem sv'"

end
