(* ===== verification/NodeServerProps.thy ===== *)
theory NodeServerProps
  imports NodeServer
begin

section \<open>What the node's server guarantees\<close>

text \<open>
  The permits held are the requests running, every request is answered exactly once, and what a
  stream writes is what an SSE reader gets back, its in-band error included.
\<close>

subsection \<open>One answer\<close>

fun opens_response :: "wire \<Rightarrow> bool" where
  "opens_response (JsonBody s v) = True"
| "opens_response StreamHead = True"
| "opens_response _ = False"

definition unanswered :: "response \<Rightarrow> bool" where
  "unanswered r \<longleftrightarrow> \<not> rs_headersSent r \<and> \<not> rs_ended r \<and> filter opens_response (rs_out r) = [] \<and> Ended \<notin> set (rs_out r)"

definition answered_once :: "response \<Rightarrow> bool" where
  "answered_once r \<longleftrightarrow> rs_headersSent r \<and> rs_ended r \<and> length (filter opens_response (rs_out r)) = 1 \<and>
     (\<exists>ws. rs_out r = ws @ [Ended] \<and> Ended \<notin> set ws)"

lemma unanswered_new: "unanswered (set_header k v new_response)"
  by (simp add: unanswered_def set_header_def new_response_def)

lemma unanswered_header: "unanswered r \<Longrightarrow> unanswered (set_header k v r)"
  by (simp add: unanswered_def set_header_def)

lemma sendJson_once: "unanswered r \<Longrightarrow> answered_once (sendJson status body r)"
  by (simp add: unanswered_def answered_once_def sendJson_def)

lemma failInfer_once: "unanswered r \<Longrightarrow> answered_once (failInfer cause r)"
  by (auto simp: failInfer_def unanswered_def sendJson_once split: prod.split)

definition sse_data :: "string \<Rightarrow> string" where
  "sse_data s = ''data: '' @ s @ [LF, LF]"

definition stream_texts :: "server_env \<Rightarrow> jsval list \<times> thrown option \<Rightarrow> string list" where
  "stream_texts se run =
     map (\<lambda>c. sse_data (se_stringify se c)) (fst run) @
     (case snd run of
        None \<Rightarrow> []
      | Some cause \<Rightarrow> [''event: error'' @ [LF] @ ''data: '' @ se_stringify se (error_json (snd (toErrorResponse cause))) @ [LF, LF]]) @
     [sse_data SSE_DONE]"

lemma write_chunks:
  "\<not> rs_ended r \<Longrightarrow> fold (stream_chunk se) cs r
   = r\<lparr>rs_out := rs_out r @ map (\<lambda>c. Text (sse_data (se_stringify se c))) cs\<rparr>"
  by (induction cs arbitrary: r) (simp_all add: stream_chunk_def writeSseData_def sse_data_def)

lemma stream_result:
  assumes "\<not> rs_ended r"
  shows "streamCompletion se run r = r\<lparr>rs_headersSent := True, rs_ended := True,
    rs_out := rs_out r @ [StreamHead] @ map Text (stream_texts se run) @ [Ended]\<rparr>"
  using assms
  by (cases run; cases "snd run")
    (simp_all add: streamCompletion_def stream_open_def stream_close_def Let_def write_chunks stream_texts_def end_response_def writeSseData_def sse_data_def)

text \<open>A stream that is open: its head is sent, and it has not ended.\<close>

definition open_stream :: "response \<Rightarrow> bool" where
  "open_stream r \<longleftrightarrow> rs_headersSent r \<and> \<not> rs_ended r \<and> filter opens_response (rs_out r) = [StreamHead] \<and>
     Ended \<notin> set (rs_out r)"

lemma stream_opens: "unanswered r \<Longrightarrow> open_stream (stream_open r)"
  by (simp add: unanswered_def open_stream_def stream_open_def)

lemma stream_goes_on: "open_stream r \<Longrightarrow> open_stream (stream_chunk se c r)"
  by (simp add: open_stream_def stream_chunk_def writeSseData_def)

lemma stream_closes: "open_stream r \<Longrightarrow> answered_once (stream_close se failure r)"
  by (cases failure) (simp_all add: open_stream_def stream_close_def Let_def answered_once_def end_response_def writeSseData_def)

definition call_ok :: "infer_call \<Rightarrow> bool" where
  "call_ok h \<longleftrightarrow> (case ru_phase h of Streaming \<Rightarrow> open_stream (ru_response h) | _ \<Rightarrow> unanswered (ru_response h))"

subsection \<open>The invariant of the server\<close>

definition held_ok :: "server \<Rightarrow> bool" where
  "held_ok sv \<longleftrightarrow> distinct (map ru_release (sv_running sv)) \<and>
     (\<forall>h \<in> set (sv_running sv). ru_release h < length (sm_released (sv_sem sv)) \<and> \<not> sm_released (sv_sem sv) ! ru_release h)"

definition ids_ok :: "server \<Rightarrow> bool" where
  "ids_ok sv \<longleftrightarrow> distinct (map ru_id (sv_running sv) @ map fst (sv_answered sv)) \<and>
     set (map ru_id (sv_running sv) @ map fst (sv_answered sv)) = {..<sv_next sv}"

definition server_inv :: "int \<Rightarrow> server \<Rightarrow> bool" where
  "server_inv m sv \<longleftrightarrow> sm_permits (sv_sem sv) = m \<and> sm_waiters (sv_sem sv) = [] \<and>
     sm_active (sv_sem sv) = int (length (sv_running sv)) \<and> sm_active (sv_sem sv) \<le> m \<and>
     held_ok sv \<and> ids_ok sv \<and>
     (\<forall>h \<in> set (sv_running sv). call_ok h) \<and>
     (\<forall>(i, r) \<in> set (sv_answered sv). answered_once r)"

lemma answer_inv: "server_inv m sv \<Longrightarrow> answered_once r \<Longrightarrow> server_inv m (answer r sv)"
  by (auto simp: server_inv_def answer_def held_ok_def ids_ok_def lessThan_Suc)

lemma admit_inv:
  assumes inv: "server_inv m sv" and r: "unanswered r"
  shows "server_inv m (infer_admit se rq r sv)"
proof (cases "authorized se rq")
  case False
  then show ?thesis using answer_inv [OF inv] r by (simp add: infer_admit_def sendJson_once)
next
  case auth: True
  show ?thesis
  proof (cases "sm_permits (sv_sem sv) \<le> sm_active (sv_sem sv)")
    case True
    then show ?thesis
      using answer_inv [OF inv] auth r by (simp add: infer_admit_def tryAcquire_def sendJson_once unanswered_header)
  next
    case False
    let ?c = "length (sm_released (sv_sem sv))"
    have "ru_release h \<noteq> ?c" if "h \<in> set (sv_running sv)" for h
      using inv that by (auto simp: server_inv_def held_ok_def)
    then show ?thesis
      using inv auth False r
      by (auto simp: infer_admit_def tryAcquire_def makeRelease_def server_inv_def held_ok_def ids_ok_def call_ok_def
        nth_append lessThan_Suc image_iff)
  qed
qed

lemma health_sem: "sv_sem (fst (handleHealth se now probe r sv)) = sv_sem sv" "sv_running (fst (handleHealth se now probe r sv)) = sv_running sv"
  "sv_answered (fst (handleHealth se now probe r sv)) = sv_answered sv" "sv_next (fst (handleHealth se now probe r sv)) = sv_next sv"
  by (auto simp: handleHealth_def server_healthy_def split: option.splits sum.splits prod.splits if_splits)

lemma health_inv: "server_inv m sv \<Longrightarrow> server_inv m (fst (handleHealth se now probe r sv))"
  by (simp add: server_inv_def held_ok_def ids_ok_def health_sem)

lemma health_once: "unanswered r \<Longrightarrow> snd (handleHealth se now probe r sv) = Inr r' \<Longrightarrow> answered_once r'"
  by (auto simp: handleHealth_def sendJson_once split: prod.splits sum.splits)

lemma handle_inv:
  assumes "server_inv m sv"
  shows "server_inv m (handle se requestId now probe rq sv)"
proof -
  let ?r = "set_header ''x-request-id'' requestId new_response"
  have r: "unanswered ?r" by (rule unanswered_new)
  obtain sv' out where h: "handleHealth se now probe ?r sv = (sv', out)" by (cases "handleHealth se now probe ?r sv")
  have sv': "server_inv m sv'" using health_inv [OF assms, of se now probe ?r] h by simp
  have out: "answered_once r'" if "out = Inr r'" for r' using health_once [OF r, of se now probe sv r'] h that by simp
  show ?thesis
    using answer_inv [OF assms sendJson_once [OF r]] answer_inv [OF sv' sendJson_once [OF r]] answer_inv [OF sv' out]
      admit_inv [OF assms r] h
    by (auto simp: handle_def Let_def split: sum.split prod.split)
qed

lemma finish_inv:
  assumes inv: "server_inv m sv" and h: "h \<in> set (sv_running sv)" and r: "answered_once r"
  shows "server_inv m (infer_finish r h sv)"
proof -
  have inj: "distinct (map ru_id (sv_running sv))" using inv by (simp add: server_inv_def ids_ok_def)
  obtain as bs where split: "sv_running sv = as @ h # bs" using h by (meson split_list)
  have "ru_id g \<noteq> ru_id h" if "g \<in> set as \<union> set bs" for g
    using inj that by (auto simp: split dest: sym)
  then have rest: "filter (\<lambda>g. ru_id g \<noteq> ru_id h) (sv_running sv) = as @ bs"
    by (simp add: split)
  have c: "ru_release h < length (sm_released (sv_sem sv))" "\<not> sm_released (sv_sem sv) ! ru_release h"
    using inv h by (auto simp: server_inv_def held_ok_def)
  have w: "sm_waiters (sv_sem sv) = []" using inv by (simp add: server_inv_def)
  have rel: "sm_permits (release (ru_release h) (sv_sem sv)) = sm_permits (sv_sem sv)"
    "sm_waiters (release (ru_release h) (sv_sem sv)) = []"
    "sm_active (release (ru_release h) (sv_sem sv)) = sm_active (sv_sem sv) - 1"
    "sm_released (release (ru_release h) (sv_sem sv)) = (sm_released (sv_sem sv))[ru_release h := True]"
    using c w by (simp_all add: release_def Let_def)
  have fin: "infer_finish r h sv =
    sv\<lparr>sv_answered := sv_answered sv @ [(ru_id h, r)],
       sv_sem := release (ru_release h) (sv_sem sv), sv_running := as @ bs\<rparr>"
    by (simp only: infer_finish_def rest)
  have "held_ok (infer_finish r h sv)"
    using inv unfolding fin held_ok_def by (auto simp: split rel server_inv_def held_ok_def nth_list_update)
  moreover have "ids_ok (infer_finish r h sv)"
    using inv unfolding fin by (auto simp: split ids_ok_def server_inv_def)
  ultimately show ?thesis
    using inv r unfolding fin by (auto simp: split server_inv_def rel)
qed

lemma set_call_inv:
  assumes inv: "server_inv m sv" and h: "h \<in> set (sv_running sv)"
    and h': "call_ok h'" "ru_id h' = ru_id h" "ru_release h' = ru_release h"
  shows "server_inv m (set_call h' sv)"
proof -
  have inj: "distinct (map ru_id (sv_running sv))" using inv by (simp add: server_inv_def ids_ok_def)
  have same: "g = h" if "g \<in> set (sv_running sv)" "ru_id g = ru_id h" for g
    using inj h that by (metis distinct_map inj_onD)
  let ?f = "\<lambda>g. if ru_id g = ru_id h' then h' else g"
  have keys: "map ru_id (map ?f (sv_running sv)) = map ru_id (sv_running sv)"
    "map ru_release (map ?f (sv_running sv)) = map ru_release (sv_running sv)"
    using same h' by (auto simp: map_eq_conv)
  have "held_ok (set_call h' sv)"
  proof -
    have "distinct (map ru_release (map ?f (sv_running sv)))"
      unfolding keys(2) using inv by (simp add: server_inv_def held_ok_def)
    then show ?thesis
      using inv h h' by (auto simp: server_inv_def held_ok_def set_call_def simp del: map_map)
  qed
  moreover have "ids_ok (set_call h' sv)"
  proof -
    have s: "sv_running (set_call h' sv) = map ?f (sv_running sv)" "sv_answered (set_call h' sv) = sv_answered sv"
      "sv_next (set_call h' sv) = sv_next sv" by (simp_all add: set_call_def)
    show ?thesis unfolding ids_ok_def s keys(1) using inv unfolding server_inv_def ids_ok_def by blast
  qed
  ultimately show ?thesis
    using inv h'(1) by (auto simp: server_inv_def set_call_def)
qed

lemma call_step_inv:
  assumes inv: "server_inv m sv" and h: "h \<in> set (sv_running sv)"
  shows "ru_phase h = Reading \<Longrightarrow> server_inv m (infer_read se h sv)"
    and "ru_phase h = Completing \<Longrightarrow> server_inv m (infer_complete outcome h sv)"
    and "ru_phase h = Streaming \<Longrightarrow> server_inv m (infer_chunk se c h sv)"
    and "ru_phase h = Streaming \<Longrightarrow> server_inv m (infer_stream_end se failure h sv)"
proof -
  have ok: "call_ok h" using inv h by (simp add: server_inv_def)
  note finish = finish_inv [OF inv h] and update = set_call_inv [OF inv h]
  show "server_inv m (infer_read se h sv)" if "ru_phase h = Reading"
    using ok that by (auto simp: infer_read_def call_ok_def failInfer_once stream_opens
      intro!: finish update split: sum.split)
  show "server_inv m (infer_complete outcome h sv)" if "ru_phase h = Completing"
    using ok that by (auto simp: infer_complete_def call_ok_def failInfer_once sendJson_once
      intro!: finish split: sum.split)
  show "server_inv m (infer_chunk se c h sv)" if "ru_phase h = Streaming"
    using ok that by (auto simp: infer_chunk_def call_ok_def stream_goes_on intro!: update)
  show "server_inv m (infer_stream_end se failure h sv)" if "ru_phase h = Streaming"
    using ok that by (auto simp: infer_stream_end_def call_ok_def stream_closes intro!: finish)
qed

lemma server_reach_inv:
  assumes "sv_reach se sem sv" "new_semaphore p = Inr sem"
  shows "server_inv (sm_permits sem) sv"
  using assms(1)
proof induction
  case Listening
  have "sm_waiters sem = []" "sm_active sem = 0" "sm_released sem = []"
    using assms(2) by (auto simp: new_semaphore_def split: if_splits)
  with new_sem_inv [OF assms(2)] show ?case
    by (simp add: server_inv_def new_server_def held_ok_def ids_ok_def)
next
  case (Step sv sv')
  from Step(2) show ?case
    by cases (simp_all add: handle_inv call_step_inv Step.IH)
qed

text \<open>The request was answered at once, with this status and nothing run.\<close>

definition refused_with :: "nat \<Rightarrow> server \<Rightarrow> server \<Rightarrow> bool" where
  "refused_with status sv sv' \<longleftrightarrow> sv_running sv' = sv_running sv \<and> sm_active (sv_sem sv') = sm_active (sv_sem sv) \<and>
     (\<exists>r body. sv_answered sv' = sv_answered sv @ [(sv_next sv, r)] \<and> filter opens_response (rs_out r) = [JsonBody status body])"

lemma admit_outcome:
  fixes se :: server_env and rq :: http_request
  assumes inv: "server_inv m sv" and r: "unanswered r"
  defines "sv' \<equiv> infer_admit se rq r sv"
  shows "if \<not> authorized se rq then refused_with 401 sv sv'
    else if int (length (sv_running sv)) = m then refused_with 503 sv sv'
    else \<exists>h. sv_running sv' = sv_running sv @ [h] \<and> ru_request h = rq \<and> ru_id h = sv_next sv \<and>
      ru_phase h = Reading \<and> sv_answered sv' = sv_answered sv"
  using inv r unfolding sv'_def
  by (auto simp: infer_admit_def tryAcquire_def makeRelease_def server_inv_def refused_with_def answer_def
    sendJson_def set_header_def unanswered_def)

text \<open>
  C33: The node runs at most `maxConcurrency` completions at a time and answers every request
  exactly once: in every reachable state of the server, under any interleaving of arrivals, bodies read,
  completions, and chunks and ends of streams, the permits held are the requests running; each request
  that arrived is either running, with nothing sent yet or, when it is streamed, with its head sent and
  its stream open, or has been answered with one complete response; and a completion that is posted is
  answered at once with 401 when the caller is not authorised, at once with 503 when no permit is free,
  and is run otherwise.
\<close>

theorem node_server_capacity:
  assumes "new_semaphore p = Inr sem" and "sv_reach se sem sv"
  shows "sm_active (sv_sem sv) = int (length (sv_running sv)) \<and> int (length (sv_running sv)) \<le> sm_permits sem \<and>
    distinct (map ru_id (sv_running sv) @ map fst (sv_answered sv)) \<and>
    set (map ru_id (sv_running sv) @ map fst (sv_answered sv)) = {..<sv_next sv} \<and>
    (\<forall>h \<in> set (sv_running sv). if ru_phase h = Streaming then open_stream (ru_response h) else unanswered (ru_response h)) \<and>
    (\<forall>(i, r) \<in> set (sv_answered sv). answered_once r) \<and>
    (hq_method rq = ''POST'' \<and> request_path (hq_url rq) \<in> {''/v1/chat/completions'', ''/infer''} \<longrightarrow>
     (let sv' = handle se requestId now probe rq sv in
        if \<not> authorized se rq then refused_with 401 sv sv'
        else if int (length (sv_running sv)) = sm_permits sem then refused_with 503 sv sv'
        else \<exists>h. sv_running sv' = sv_running sv @ [h] \<and> ru_request h = rq \<and> ru_id h = sv_next sv \<and>
          ru_phase h = Reading \<and> sv_answered sv' = sv_answered sv))"
proof -
  have inv: "server_inv (sm_permits sem) sv" using assms(2,1) by (rule server_reach_inv)
  have calls: "\<forall>h \<in> set (sv_running sv). if ru_phase h = Streaming then open_stream (ru_response h) else unanswered (ru_response h)"
  proof
    fix h
    assume "h \<in> set (sv_running sv)"
    with inv have "call_ok h" by (simp add: server_inv_def)
    then show "if ru_phase h = Streaming then open_stream (ru_response h) else unanswered (ru_response h)"
      by (cases "ru_phase h") (simp_all add: call_ok_def)
  qed
  note out = admit_outcome [OF inv unanswered_new, of se rq "''x-request-id''" requestId]
  have path: "handle se requestId now probe rq sv
      = infer_admit se rq (set_header ''x-request-id'' requestId new_response) sv"
    if "hq_method rq = ''POST''" "request_path (hq_url rq) \<in> {''/v1/chat/completions'', ''/infer''}"
    using that by (auto simp: handle_def)
  have posted: "hq_method rq = ''POST'' \<and> request_path (hq_url rq) \<in> {''/v1/chat/completions'', ''/infer''} \<longrightarrow>
     (let sv' = handle se requestId now probe rq sv in
        if \<not> authorized se rq then refused_with 401 sv sv'
        else if int (length (sv_running sv)) = sm_permits sem then refused_with 503 sv sv'
        else \<exists>h. sv_running sv' = sv_running sv @ [h] \<and> ru_request h = rq \<and> ru_id h = sv_next sv \<and>
          ru_phase h = Reading \<and> sv_answered sv' = sv_answered sv)"
  proof
    assume "hq_method rq = ''POST'' \<and> request_path (hq_url rq) \<in> {''/v1/chat/completions'', ''/infer''}"
    then have p: "handle se requestId now probe rq sv
      = infer_admit se rq (set_header ''x-request-id'' requestId new_response) sv" using path by blast
    show "let sv' = handle se requestId now probe rq sv in
        if \<not> authorized se rq then refused_with 401 sv sv'
        else if int (length (sv_running sv)) = sm_permits sem then refused_with 503 sv sv'
        else \<exists>h. sv_running sv' = sv_running sv @ [h] \<and> ru_request h = rq \<and> ru_id h = sv_next sv \<and>
          ru_phase h = Reading \<and> sv_answered sv' = sv_answered sv"
      unfolding Let_def p by (rule out)
  qed
  from inv have "sm_active (sv_sem sv) = int (length (sv_running sv)) \<and> int (length (sv_running sv)) \<le> sm_permits sem \<and>
    distinct (map ru_id (sv_running sv) @ map fst (sv_answered sv)) \<and>
    set (map ru_id (sv_running sv) @ map fst (sv_answered sv)) = {..<sv_next sv} \<and>
    (\<forall>(i, r) \<in> set (sv_answered sv). answered_once r)" by (simp add: server_inv_def ids_ok_def)
  with calls posted show ?thesis by blast
qed

definition ex_se :: server_env where
  "ex_se = \<lparr>se_nodeId = ''n'', se_models = [], se_provider = ''ollama'', se_version = ''0.1.0'', se_authToken = None,
     se_parse = (\<lambda>_. None), se_stringify = (\<lambda>_. ''{}''), se_utf8 = (\<lambda>_. [])\<rparr>"

definition ex_post :: http_request where
  "ex_post = \<lparr>hq_method = ''POST'', hq_url = ''/infer?x=1'', hq_authorization = None, hq_body = []\<rparr>"

lemma node_server_capacity_witness:
  "\<exists>sem. new_semaphore (Fin 1) = Inr sem \<and>
     length (sv_running (handle ex_se ''id'' 0 (Inr True) ex_post (new_server sem))) = 1"
proof -
  obtain sem where sem: "new_semaphore (Fin 1) = Inr sem" "sm_permits sem = 1" "sm_active sem = 0"
    by (simp add: new_semaphore_def is_integer_def js_le_def big_of_num_def)
  let ?sv = "handle ex_se ''id'' 0 (Inr True) ex_post (new_server sem)"
  have "sv_reach ex_se sem ?sv" by (rule sv_reach.Step [OF sv_reach.Listening sv_step.Arrive])
  with node_server_capacity [OF sem(1)] have "int (length (sv_running ?sv)) \<le> 1" using sem(2) by metis
  moreover have "sv_running ?sv \<noteq> []"
    using sem(2,3) by (simp add: handle_def ex_post_def request_path_def infer_admit_def authorized_def ex_se_def
      tryAcquire_def makeRelease_def new_server_def)
  ultimately have "length (sv_running ?sv) = 1" by (cases "sv_running ?sv") auto
  with sem(1) show ?thesis by blast
qed

subsection \<open>Reading a stream back\<close>

lemma norm_lines_no_cr: "CR \<notin> set t \<Longrightarrow> norm_lines t = t"
  by (induction t rule: norm_lines.induct) auto

lemma body_text_no_cr:
  assumes "CR \<notin> set t"
  shows "body_text t = t" and "\<not> ends_cr t"
proof -
  show cr: "\<not> ends_cr t" using assms last_in_set [of t] by (metis ends_cr_def)
  show "body_text t = t" using assms by (simp add: body_text_def withheld_def cr norm_lines_no_cr)
qed

lemma cut_frame_here: "LF \<notin> set a \<Longrightarrow> cut_frame (a @ LF # LF # r) = Some (a, r)"
proof (induction a)
  case (Cons c a)
  then show ?case by (cases a) auto
qed simp

lemma cut_frame_later:
  "LF \<notin> set a \<Longrightarrow> b \<noteq> [] \<Longrightarrow> hd b \<noteq> LF \<Longrightarrow>
   cut_frame (a @ LF # b) = map_option (\<lambda>(f, r). (a @ LF # f, r)) (cut_frame b)"
proof (induction a)
  case Nil
  then show ?case by (cases b) auto
next
  case (Cons c a)
  then show ?case by (cases a) (auto simp: option.map_comp comp_def split_beta)
qed

text \<open>The law of \<open>JSON.stringify\<close> a frame relies on: one line, and never the end sentinel.\<close>

definition one_line :: "string \<Rightarrow> bool" where
  "one_line s \<longleftrightarrow> CR \<notin> set s \<and> LF \<notin> set s \<and> s \<noteq> SSE_DONE"

lemma parse_data: "LF \<notin> set s \<Longrightarrow> parse_frame (''data: '' @ s) =
  (if s = SSE_DONE then DoneFrame else Event \<lparr>ev_data = s, ev_event = None, ev_id = None\<rparr>)"
  by (simp add: parse_frame_def split_on_none frame_line_def field_value_def starts_with_def)

lemma parse_error: "one_line s \<Longrightarrow> parse_frame (''event: error'' @ LF # ''data: '' @ s) =
  Event \<lparr>ev_data = s, ev_event = Some ''error'', ev_id = None\<rparr>"
  by (simp add: parse_frame_def split_on_none frame_line_def field_value_def starts_with_def one_line_def)

lemma scan_data:
  assumes "one_line s"
  shows "scan_frames (sse_data s @ rest) = (case scan_frames rest of
    (es, r, fin) \<Rightarrow> (\<lparr>ev_data = s, ev_event = None, ev_id = None\<rparr> # es, r, fin))"
proof -
  have "cut_frame (sse_data s @ rest) = Some (''data: '' @ s, rest)"
    using cut_frame_here [of "''data: '' @ s" rest] assms by (simp add: sse_data_def one_line_def)
  with assms show ?thesis
    using parse_data [of s] by (simp add: scan_frames.simps [of "sse_data s @ rest"] one_line_def)
qed

lemma scan_done: "scan_frames (sse_data SSE_DONE) = ([], [], True)"
proof -
  have sentinel: "LF \<notin> set SSE_DONE" by (simp add: SSE_DONE_def)
  have "cut_frame (sse_data SSE_DONE) = Some (''data: '' @ SSE_DONE, [])"
    by (simp add: sse_data_def SSE_DONE_def)
  then show ?thesis
    using parse_data [of SSE_DONE] sentinel by (simp add: scan_frames.simps [of "sse_data SSE_DONE"])
qed

lemma scan_error:
  assumes "one_line s"
  shows "scan_frames (''event: error'' @ [LF] @ ''data: '' @ s @ [LF, LF] @ rest) = (case scan_frames rest of
    (es, r, fin) \<Rightarrow> (\<lparr>ev_data = s, ev_event = Some ''error'', ev_id = None\<rparr> # es, r, fin))"
proof -
  let ?t = "''event: error'' @ LF # ''data: '' @ s @ LF # LF # rest"
  have "cut_frame (''data: '' @ s @ LF # LF # rest) = Some (''data: '' @ s, rest)"
    using cut_frame_here [of "''data: '' @ s" rest] assms by (simp add: one_line_def)
  then have "cut_frame ?t = Some (''event: error'' @ LF # ''data: '' @ s, rest)"
    using cut_frame_later [of "''event: error''" "''data: '' @ s @ LF # LF # rest"] by simp
  then have "scan_frames ?t = (case scan_frames rest of
    (es, r, fin) \<Rightarrow> (\<lparr>ev_data = s, ev_event = Some ''error'', ev_id = None\<rparr> # es, r, fin))"
    unfolding scan_frames.simps [of ?t] by (simp only: option.case prod.case parse_error [OF assms] emitted.case)
  then show ?thesis by simp
qed

definition run_events :: "server_env \<Rightarrow> jsval list \<times> thrown option \<Rightarrow> sse_event list" where
  "run_events se run =
     map (\<lambda>c. \<lparr>ev_data = se_stringify se c, ev_event = None, ev_id = None\<rparr>) (fst run) @
     (case snd run of
        None \<Rightarrow> []
      | Some cause \<Rightarrow> [\<lparr>ev_data = se_stringify se (error_json (snd (toErrorResponse cause))),
                        ev_event = Some ''error'', ev_id = None\<rparr>])"

lemma scan_chunks:
  assumes "\<And>v. one_line (f v)"
  shows "scan_frames (concat (map (\<lambda>c. sse_data (f c)) cs) @ rest) = (case scan_frames rest of
    (es, r, fin) \<Rightarrow> (map (\<lambda>c. \<lparr>ev_data = f c, ev_event = None, ev_id = None\<rparr>) cs @ es, r, fin))"
  by (induction cs) (simp_all add: scan_data assms split: prod.split)

lemma scan_stream:
  assumes "\<And>v. one_line (se_stringify se v)"
  shows "scan_frames (concat (stream_texts se run)) = (run_events se run, [], True)"
  using scan_error [OF assms, of _ "sse_data SSE_DONE"]
  by (cases "snd run") (simp_all add: stream_texts_def run_events_def scan_chunks assms scan_done)

lemma stream_no_cr:
  assumes "\<And>v. one_line (se_stringify se v)"
  shows "CR \<notin> set (concat (stream_texts se run))"
  using assms by (auto simp: stream_texts_def sse_data_def SSE_DONE_def one_line_def split: option.splits)

text \<open>
  C34: What the node streams is what its reader gets back: writing a provider's chunks to a response
  that is still open and reading the written text with the daemon's parser, cut into chunks anywhere,
  yields one event per chunk, in order and nothing else, and, when the provider failed midway, one
  last \<open>event: error\<close> frame with the sanitised body of the failure.
\<close>

theorem stream_reads_back:
  assumes "\<And>v. one_line (se_stringify se v)"
    and "\<not> rs_ended r"
    and "concat cs = concat [t. Text t \<leftarrow> drop (length (rs_out r)) (rs_out (streamCompletion se run r))]"
  shows "feed new_parser cs = run_events se run"
proof -
  have "concat [t. Text t \<leftarrow> map Text ts @ [Ended]] = concat ts" for ts
    by (induction ts) simp_all
  with assms(2,3) have "concat cs = concat (stream_texts se run)"
    by (simp add: stream_result)
  with scan_stream [OF assms(1)] stream_no_cr [OF assms(1)] show ?thesis
    by (simp add: feed_is_events sse_events_def body_text_no_cr del: feed.simps)
qed

lemma stream_reads_back_witness:
  "feed new_parser [''data: {}'', [LF, LF] @ ''event: err'', ''or'' @ [LF] @ ''data: {}'' @ [LF, LF] @ ''data: [DONE]'' @ [LF, LF]]
   = [\<lparr>ev_data = ''{}'', ev_event = None, ev_id = None\<rparr>, \<lparr>ev_data = ''{}'', ev_event = Some ''error'', ev_id = None\<rparr>]"
proof -
  let ?run = "([JNull], Some (Foreign ''boom''))"
  have "\<And>v. one_line (se_stringify ex_se v)" by (simp add: one_line_def ex_se_def SSE_DONE_def)
  from stream_reads_back [OF this, of new_response _ ?run] show ?thesis
    by (simp add: stream_result new_response_def stream_texts_def run_events_def sse_data_def ex_se_def SSE_DONE_def
      del: feed.simps)
qed

end
