(* ===== verification/Redis.thy ===== *)
theory Redis
  imports Strings "HOL-Library.Multiset"
begin

section \<open>The Redis commands the gateway uses (registry/src/store/redis.ts, RedisClientLike)\<close>

text \<open>
  A client is a record of commands; a command takes the state of the connection and of the server
  and answers or rejects (\<open>None\<close>). What an answered command did is the documented behaviour of
  Redis, seen through the key space: the locale \<open>redis\<close>. Nothing is said of a command that rejects,
  nor of when commands reject. The client has no other writer.
\<close>

subsection \<open>Commands that may reject\<close>

type_synonym ('r, 'a) cmd = "'r \<Rightarrow> 'a option \<times> 'r"

definition cret :: "'a \<Rightarrow> ('r, 'a) cmd" where
  "cret x r = (Some x, r)"

definition cbind :: "('r, 'a) cmd \<Rightarrow> ('a \<Rightarrow> ('r, 'b) cmd) \<Rightarrow> ('r, 'b) cmd" where
  "cbind m f r = (case m r of (None, r') \<Rightarrow> (None, r') | (Some x, r') \<Rightarrow> f x r')"

lemma cbind_Some: "cbind m f r = (Some y, r') \<longleftrightarrow> (\<exists>x r1. m r = (Some x, r1) \<and> f x r1 = (Some y, r'))"
  by (auto simp: cbind_def split: prod.splits option.splits)

lemma cret_Some [simp]: "cret x r = (Some y, r') \<longleftrightarrow> y = x \<and> r' = r"
  by (auto simp: cret_def)

record 'r redis_client =
  rc_connect :: "('r, unit) cmd"
  rc_get :: "string \<Rightarrow> ('r, string option) cmd"
  rc_set :: "string \<Rightarrow> string \<Rightarrow> ('r, unit) cmd"
  rc_del :: "string list \<Rightarrow> ('r, unit) cmd"
  rc_sadd :: "string \<Rightarrow> string \<Rightarrow> ('r, unit) cmd"
  rc_srem :: "string \<Rightarrow> string \<Rightarrow> ('r, unit) cmd"
  rc_smembers :: "string \<Rightarrow> ('r, string list) cmd"
  rc_mget :: "string list \<Rightarrow> ('r, string option list) cmd"
  rc_lpush :: "string \<Rightarrow> string \<Rightarrow> ('r, unit) cmd"
  rc_ltrim :: "string \<Rightarrow> int \<Rightarrow> int \<Rightarrow> ('r, unit) cmd"
  rc_lrange :: "string \<Rightarrow> int \<Rightarrow> int \<Rightarrow> ('r, string list) cmd"
  rc_incr :: "string \<Rightarrow> ('r, int) cmd"
  rc_decr :: "string \<Rightarrow> ('r, int) cmd"

subsection \<open>The key space\<close>

datatype rvalue = RString string | RList "string list" | RSet "string list"

type_synonym redis_db = "string \<Rightarrow> rvalue option"

text \<open>Reading a key as a type: an absent key is empty, a key of another type is an error.\<close>

definition str_at :: "redis_db \<Rightarrow> string \<Rightarrow> string option option" where
  "str_at db k = (case db k of None \<Rightarrow> Some None | Some (RString s) \<Rightarrow> Some (Some s) | Some _ \<Rightarrow> None)"

definition list_at :: "redis_db \<Rightarrow> string \<Rightarrow> string list option" where
  "list_at db k = (case db k of None \<Rightarrow> Some [] | Some (RList xs) \<Rightarrow> Some xs | Some _ \<Rightarrow> None)"

definition set_at :: "redis_db \<Rightarrow> string \<Rightarrow> string list option" where
  "set_at db k = (case db k of None \<Rightarrow> Some [] | Some (RSet xs) \<Rightarrow> Some xs | Some _ \<Rightarrow> None)"

definition parse_int :: "string \<Rightarrow> int option" where
  "parse_int s = (case s of
      [] \<Rightarrow> None
    | c # ds \<Rightarrow> (if c = CHR ''-'' then (if ds \<noteq> [] \<and> list_all is_digit ds then Some (- int (dec_val ds)) else None)
                else if list_all is_digit s then Some (int (dec_val s)) else None))"

definition int_at :: "redis_db \<Rightarrow> string \<Rightarrow> int option" where
  "int_at db k = (case str_at db k of Some None \<Rightarrow> Some 0 | Some (Some s) \<Rightarrow> parse_int s | None \<Rightarrow> None)"

text \<open>Empty lists and sets do not exist as keys.\<close>

definition put_list :: "string \<Rightarrow> string list \<Rightarrow> redis_db \<Rightarrow> redis_db" where
  "put_list k xs db = db(k := (if xs = [] then None else Some (RList xs)))"

definition put_set :: "string \<Rightarrow> string list \<Rightarrow> redis_db \<Rightarrow> redis_db" where
  "put_set k xs db = db(k := (if xs = [] then None else Some (RSet xs)))"

definition add_member :: "string \<Rightarrow> string list \<Rightarrow> string list" where
  "add_member x xs = (if x \<in> set xs then xs else xs @ [x])"

text \<open>\<open>LRANGE\<close> and \<open>LTRIM\<close>: both ends inclusive, negative indices count from the end, out of range is clipped.\<close>

definition redis_slice :: "int \<Rightarrow> int \<Rightarrow> 'a list \<Rightarrow> 'a list" where
  "redis_slice start stop xs =
     (let n = int (length xs);
          s = (if start < 0 then max 0 (n + start) else start);
          e = (if stop < 0 then n + stop else min stop (n - 1))
      in if e < s then [] else take (nat (e - s + 1)) (drop (nat s) xs))"

lemma redis_slice_first: "0 < n \<Longrightarrow> redis_slice 0 (int n - 1) xs = take n xs"
  by (cases "n \<le> length xs") (auto simp: redis_slice_def Let_def min_def nat_diff_distrib')

lemma redis_slice_rest: "redis_slice (int n) (-1) xs = drop n xs"
  by (auto simp: redis_slice_def Let_def)

lemma set_add_member [simp]: "set (add_member x xs) = insert x (set xs)"
  by (auto simp: add_member_def)

lemma distinct_add_member [simp]: "distinct (add_member x xs) = distinct xs"
  by (auto simp: add_member_def)

lemma at_put [simp]:
  "list_at (put_list k xs db) k = Some xs" "set_at (put_set k xs db) k = Some xs"
  by (simp_all add: list_at_def put_list_def set_at_def put_set_def)

lemma at_other [simp]:
  "k' \<noteq> k \<Longrightarrow> str_at (db(k := v)) k' = str_at db k'" "k' \<noteq> k \<Longrightarrow> list_at (db(k := v)) k' = list_at db k'"
  "k' \<noteq> k \<Longrightarrow> set_at (db(k := v)) k' = set_at db k'" "k' \<noteq> k \<Longrightarrow> int_at (db(k := v)) k' = int_at db k'"
  "k' \<noteq> k \<Longrightarrow> put_list k xs db k' = db k'" "k' \<noteq> k \<Longrightarrow> put_set k xs db k' = db k'"
  by (simp_all add: str_at_def list_at_def set_at_def int_at_def put_list_def put_set_def)

lemma at_other_put [simp]:
  "k' \<noteq> k \<Longrightarrow> str_at (put_list k xs db) k' = str_at db k'" "k' \<noteq> k \<Longrightarrow> str_at (put_set k xs db) k' = str_at db k'"
  "k' \<noteq> k \<Longrightarrow> list_at (put_list k xs db) k' = list_at db k'" "k' \<noteq> k \<Longrightarrow> list_at (put_set k xs db) k' = list_at db k'"
  "k' \<noteq> k \<Longrightarrow> set_at (put_list k xs db) k' = set_at db k'" "k' \<noteq> k \<Longrightarrow> set_at (put_set k xs db) k' = set_at db k'"
  by (simp_all add: str_at_def list_at_def set_at_def)

lemma str_at_set [simp]: "str_at (db(k := Some (RString s))) k = Some (Some s)" "str_at (db(k := None)) k = Some None"
  by (simp_all add: str_at_def)

lemma list_at_del [simp]: "list_at (db(k := None)) k = Some []" "set_at (db(k := None)) k = Some []"
  by (simp_all add: list_at_def set_at_def)

lemma at_cong:
  "db' k = db k \<Longrightarrow> str_at db' k = str_at db k" "db' k = db k \<Longrightarrow> list_at db' k = list_at db k"
  "db' k = db k \<Longrightarrow> set_at db' k = set_at db k"
  by (simp_all add: str_at_def list_at_def set_at_def)

lemma parse_int_str [simp]: "parse_int (int_str i) = Some i"
proof (cases "i < 0")
  case True
  then show ?thesis
    using radix_str_nonempty [of 10 "nat (- i)"] nat_str_digits [of "nat (- i)"]
    by (simp add: parse_int_def int_str_def dec_val_nat_str)
next
  case False
  moreover obtain c cs where "nat_str (nat i) = c # cs" "is_digit c" "list_all is_digit cs"
    using radix_str_nonempty [of 10 "nat i"] nat_str_digits [of "nat i"] by (cases "nat_str (nat i)") auto
  moreover have "\<not> is_digit (CHR ''-'')" by (simp add: is_digit_def code_def)
  ultimately show ?thesis using dec_val_nat_str [of "nat i"]
    by (auto simp: parse_int_def int_str_def)
qed

subsection \<open>What an answered command did\<close>

locale redis =
  fixes rc :: "'r redis_client"
    and view :: "'r \<Rightarrow> redis_db"
  assumes connect_ok: "rc_connect rc r = (Some u, r') \<Longrightarrow> view r' = view r"
    and get_ok: "rc_get rc k r = (Some x, r') \<Longrightarrow> str_at (view r) k = Some x \<and> view r' = view r"
    and set_ok: "rc_set rc k s r = (Some u, r') \<Longrightarrow> view r' = (view r)(k \<mapsto> RString s)"
    and del_ok: "rc_del rc ks r = (Some u, r') \<Longrightarrow> view r' = (\<lambda>k. if k \<in> set ks then None else view r k)"
    and sadd_ok: "rc_sadd rc k m r = (Some u, r') \<Longrightarrow>
      \<exists>xs. set_at (view r) k = Some xs \<and> view r' = put_set k (add_member m xs) (view r)"
    and srem_ok: "rc_srem rc k m r = (Some u, r') \<Longrightarrow>
      \<exists>xs. set_at (view r) k = Some xs \<and> view r' = put_set k (removeAll m xs) (view r)"
    and smembers_ok: "rc_smembers rc k r = (Some ys, r') \<Longrightarrow>
      \<exists>xs. set_at (view r) k = Some xs \<and> mset ys = mset xs \<and> view r' = view r"
    and mget_ok: "rc_mget rc ks r = (Some vs, r') \<Longrightarrow>
      vs = map (\<lambda>k. case str_at (view r) k of Some v \<Rightarrow> v | None \<Rightarrow> None) ks \<and> view r' = view r"
    and lpush_ok: "rc_lpush rc k m r = (Some u, r') \<Longrightarrow>
      \<exists>xs. list_at (view r) k = Some xs \<and> view r' = put_list k (m # xs) (view r)"
    and ltrim_ok: "rc_ltrim rc k i j r = (Some u, r') \<Longrightarrow>
      \<exists>xs. list_at (view r) k = Some xs \<and> view r' = put_list k (redis_slice i j xs) (view r)"
    and lrange_ok: "rc_lrange rc k i j r = (Some ys, r') \<Longrightarrow>
      \<exists>xs. list_at (view r) k = Some xs \<and> ys = redis_slice i j xs \<and> view r' = view r"
    and incr_ok: "rc_incr rc k r = (Some n, r') \<Longrightarrow>
      \<exists>i. int_at (view r) k = Some i \<and> n = i + 1 \<and> view r' = (view r)(k \<mapsto> RString (int_str n))"
    and decr_ok: "rc_decr rc k r = (Some n, r') \<Longrightarrow>
      \<exists>i. int_at (view r) k = Some i \<and> n = i - 1 \<and> view r' = (view r)(k \<mapsto> RString (int_str n))"
begin

text \<open>Reading a string back after writing it.\<close>

lemma set_then_get:
  "rc_set rc k s r = (Some u, r1) \<Longrightarrow> rc_get rc k r1 = (Some x, r2) \<Longrightarrow> x = Some s"
  by (metis set_ok get_ok str_at_set(1) option.inject)

end

subsection \<open>A server that answers a given number of commands\<close>

text \<open>An instance of the commands: the key space itself, and how many commands still succeed.\<close>

record redis_server =
  srv_db :: redis_db
  srv_left :: nat

definition on_db :: "(redis_db \<Rightarrow> ('a \<times> redis_db) option) \<Rightarrow> (redis_server, 'a) cmd" where
  "on_db f r = (case srv_left r of
      0 \<Rightarrow> (None, r)
    | Suc n \<Rightarrow> (case f (srv_db r) of
          None \<Rightarrow> (None, r)
        | Some (x, db') \<Rightarrow> (Some x, \<lparr>srv_db = db', srv_left = n\<rparr>)))"

definition counted :: "int \<Rightarrow> string \<Rightarrow> (redis_server, int) cmd" where
  "counted d k = on_db (\<lambda>db. map_option (\<lambda>i. (i + d, db(k \<mapsto> RString (int_str (i + d))))) (int_at db k))"

definition server_client :: "redis_server redis_client" where
  "server_client =
     \<lparr>rc_connect = on_db (\<lambda>db. Some ((), db)),
      rc_get = (\<lambda>k. on_db (\<lambda>db. map_option (\<lambda>x. (x, db)) (str_at db k))),
      rc_set = (\<lambda>k s. on_db (\<lambda>db. Some ((), db(k \<mapsto> RString s)))),
      rc_del = (\<lambda>ks. on_db (\<lambda>db. Some ((), \<lambda>k. if k \<in> set ks then None else db k))),
      rc_sadd = (\<lambda>k x. on_db (\<lambda>db. map_option (\<lambda>xs. ((), put_set k (add_member x xs) db)) (set_at db k))),
      rc_srem = (\<lambda>k x. on_db (\<lambda>db. map_option (\<lambda>xs. ((), put_set k (removeAll x xs) db)) (set_at db k))),
      rc_smembers = (\<lambda>k. on_db (\<lambda>db. map_option (\<lambda>xs. (xs, db)) (set_at db k))),
      rc_mget = (\<lambda>ks. on_db (\<lambda>db. Some (map (\<lambda>k. case str_at db k of Some v \<Rightarrow> v | None \<Rightarrow> None) ks, db))),
      rc_lpush = (\<lambda>k x. on_db (\<lambda>db. map_option (\<lambda>xs. ((), put_list k (x # xs) db)) (list_at db k))),
      rc_ltrim = (\<lambda>k i j. on_db (\<lambda>db. map_option (\<lambda>xs. ((), put_list k (redis_slice i j xs) db)) (list_at db k))),
      rc_lrange = (\<lambda>k i j. on_db (\<lambda>db. map_option (\<lambda>xs. (redis_slice i j xs, db)) (list_at db k))),
      rc_incr = counted 1,
      rc_decr = counted (-1)\<rparr>"

lemma on_db_Some: "on_db f r = (Some x, r') \<Longrightarrow> f (srv_db r) = Some (x, srv_db r')"
  by (auto simp: on_db_def split: nat.splits option.splits)

lemma counted_Some: "counted d k r = (Some n, r') \<Longrightarrow>
    \<exists>i. int_at (srv_db r) k = Some i \<and> n = i + d \<and> srv_db r' = (srv_db r)(k \<mapsto> RString (int_str n))"
  by (auto simp: counted_def dest!: on_db_Some)

interpretation server: redis server_client srv_db
  by unfold_locales (auto simp: server_client_def dest!: on_db_Some counted_Some)

end
