(* ===== verification/RedisStore.thy ===== *)
theory RedisStore
  imports Redis NodeStore Onboarding "HOL-Library.Countable"
begin

section \<open>The Redis node store (packages/registry/src/store/redis.ts, index.ts)\<close>

text \<open>
  \<open>RedisNodeStore\<close>: records as JSON under one key per node, in-flight counts in counter keys, outcome
  windows in capped lists, an index set; every write goes to an in-memory mirror first, and the first
  command that rejects sends the store to the mirror for good. The commands of one operation run in
  the order the code issues them. The Redis client, \<open>JSON.parse\<close> and \<open>JSON.stringify\<close> are arguments.
\<close>

subsection \<open>JSON text\<close>

record json_codec =
  jc_parse :: "string \<Rightarrow> jsval option"
  jc_stringify :: "jsval \<Rightarrow> string"

text \<open>Values that \<open>JSON.stringify\<close> writes whole, so that reading the text back gives the value.\<close>

fun json_value :: "jsval \<Rightarrow> bool" where
  "json_value (JNum n) = isFinite n"
| "json_value (JArr vs) = list_all json_value vs"
| "json_value (JObj kvs) = (distinct (jkeys kvs) \<and> list_all (\<lambda>kv. json_value (snd kv)) kvs)"
| "json_value JNull = True"
| "json_value (JBool b) = True"
| "json_value (JStr s) = True"
| "json_value v = False"

definition codec_ok :: "json_codec \<Rightarrow> bool" where
  "codec_ok jc \<longleftrightarrow> (\<forall>v. json_value v \<longrightarrow> jc_parse jc (jc_stringify jc v) = Some v)"

text \<open>A codec with the law: JSON values are countable, so each has a text of its own.\<close>

instance jsnum :: countable by countable_datatype
instance jsval :: countable by countable_datatype

definition demo_codec :: json_codec where
  "demo_codec = \<lparr>jc_parse = (\<lambda>s. Some (from_nat (length s))), jc_stringify = (\<lambda>v. replicate (to_nat v) (CHR ''x''))\<rparr>"

lemma demo_codec_ok: "codec_ok demo_codec"
  by (simp add: codec_ok_def demo_codec_def)

subsection \<open>Records as JSON\<close>

definition health_json :: "node_health \<Rightarrow> jsval" where
  "health_json h = JObj
     [(''nodeId'', JStr (h_nodeId h)), (''healthy'', JBool (h_healthy h)),
      (''latencyMsP50'', JNum (h_latencyMsP50 h)), (''latencyMsP95'', JNum (h_latencyMsP95 h)),
      (''inFlight'', num_of_int (h_inFlight h)), (''maxConcurrency'', num_of_int (h_maxConcurrency h)),
      (''uptimeRatio'', JNum (h_uptimeRatio h)), (''qualityScore'', JNum (h_qualityScore h)),
      (''consecutiveFailures'', num_of_int (h_consecutiveFailures h)), (''lastSeenAt'', JNum (h_lastSeenAt h))]"

definition record_json :: "node_record \<Rightarrow> jsval" where
  "record_json r = JObj
     [(''registration'', registration_json (n_registration r)), (''health'', health_json (n_health r)),
      (''usdcOptedIn'', JBool (n_usdcOptedIn r)), (''totalRequests'', num_of_int (n_totalRequests r)),
      (''totalPaidAtomic'', JStr (n_totalPaidAtomic r)), (''registeredAt'', num_of_int (n_registeredAt r))]"

definition outcome_json :: "request_outcome \<Rightarrow> jsval" where
  "outcome_json ou = JObj
     [(''success'', JBool (o_success ou)), (''latencyMs'', JNum (o_latencyMs ou)), (''at'', JNum (o_at ou))]"

definition z_num :: "(rat \<Rightarrow> bool) \<Rightarrow> jsval \<Rightarrow> jsnum option" where
  "z_num ok v = (case v of JNum (Fin q) \<Rightarrow> if ok q then Some (Fin q) else None | _ \<Rightarrow> None)"

definition AtomicAmountSchema :: "jsval \<Rightarrow> string option" where
  "AtomicAmountSchema = z_string wire_digits"

definition NodeHealthSchema :: "jsval \<Rightarrow> node_health option" where
  "NodeHealthSchema v =
     obind (z_strict [''nodeId'', ''healthy'', ''latencyMsP50'', ''latencyMsP95'', ''inFlight'', ''maxConcurrency'',
       ''uptimeRatio'', ''qualityScore'', ''consecutiveFailures'', ''lastSeenAt''] v) (\<lambda>kv.
     obind (z_string (len_between 1 128) (member_of kv ''nodeId'')) (\<lambda>nid.
     obind (z_bool (member_of kv ''healthy'')) (\<lambda>healthy.
     obind (z_num (\<lambda>q. 0 \<le> q) (member_of kv ''latencyMsP50'')) (\<lambda>p50.
     obind (z_num (\<lambda>q. 0 \<le> q) (member_of kv ''latencyMsP95'')) (\<lambda>p95.
     obind (z_int (\<lambda>i. 0 \<le> i) (member_of kv ''inFlight'')) (\<lambda>infl.
     obind (z_int (\<lambda>i. 0 < i \<and> i \<le> 4096) (member_of kv ''maxConcurrency'')) (\<lambda>maxc.
     obind (z_num (\<lambda>q. 0 \<le> q \<and> q \<le> 1) (member_of kv ''uptimeRatio'')) (\<lambda>up.
     obind (z_num (\<lambda>q. 0 \<le> q \<and> q \<le> 1) (member_of kv ''qualityScore'')) (\<lambda>quality.
     obind (z_int (\<lambda>i. 0 \<le> i) (member_of kv ''consecutiveFailures'')) (\<lambda>cf.
     obind (z_num (\<lambda>q. q = of_int \<lfloor>q\<rfloor> \<and> 0 \<le> q) (member_of kv ''lastSeenAt'')) (\<lambda>seen.
       Some \<lparr>h_nodeId = nid, h_healthy = healthy, h_latencyMsP50 = p50, h_latencyMsP95 = p95, h_inFlight = infl,
         h_maxConcurrency = maxc, h_uptimeRatio = up, h_qualityScore = quality, h_consecutiveFailures = cf,
         h_lastSeenAt = seen\<rparr>)))))))))))"

definition NodeRecordSchema :: "avm \<Rightarrow> (string \<Rightarrow> url option) \<Rightarrow> jsval \<Rightarrow> node_record option" where
  "NodeRecordSchema a parse v =
     obind (z_strict [''registration'', ''health'', ''usdcOptedIn'', ''totalRequests'', ''totalPaidAtomic'',
       ''registeredAt''] v) (\<lambda>kv.
     obind (NodeRegistrationSchema a parse (member_of kv ''registration'')) (\<lambda>r.
     obind (NodeHealthSchema (member_of kv ''health'')) (\<lambda>h.
     obind (z_bool (member_of kv ''usdcOptedIn'')) (\<lambda>opted.
     obind (z_int (\<lambda>i. 0 \<le> i) (member_of kv ''totalRequests'')) (\<lambda>total.
     obind (AtomicAmountSchema (member_of kv ''totalPaidAtomic'')) (\<lambda>paid.
     obind (z_int (\<lambda>i. 0 \<le> i) (member_of kv ''registeredAt'')) (\<lambda>since.
       Some \<lparr>n_registration = r, n_health = h, n_usdcOptedIn = opted, n_totalRequests = total,
         n_totalPaidAtomic = paid, n_registeredAt = since\<rparr>)))))))"

record redis_env =
  re_avm :: avm
  re_parse :: "string \<Rightarrow> url option"
  re_json :: json_codec
  re_prefix :: string

definition parseRecord :: "redis_env \<Rightarrow> string option \<Rightarrow> node_record option" where
  "parseRecord e raw = obind raw (\<lambda>s. obind (jc_parse (re_json e) s) (NodeRecordSchema (re_avm e) (re_parse e)))"

definition serializeRecord :: "redis_env \<Rightarrow> node_record \<Rightarrow> string" where
  "serializeRecord e r = jc_stringify (re_json e) (record_json r)"

definition num_or_zero :: "jsval \<Rightarrow> jsnum" where
  "num_or_zero v = (case v of JNum n \<Rightarrow> n | _ \<Rightarrow> Fin 0)"

definition parse_outcome :: "redis_env \<Rightarrow> string \<Rightarrow> request_outcome option" where
  "parse_outcome e entry = (case jc_parse (re_json e) entry of
      Some (JObj kv) \<Rightarrow> (case member_of kv ''success'' of
          JBool b \<Rightarrow> Some (normalizeOutcome \<lparr>o_success = b, o_latencyMs = num_or_zero (member_of kv ''latencyMs''),
                        o_at = num_or_zero (member_of kv ''at'')\<rparr>)
        | _ \<Rightarrow> None)
    | _ \<Rightarrow> None)"

definition parseWindow :: "redis_env \<Rightarrow> string list \<Rightarrow> request_outcome list" where
  "parseWindow e raw = List.map_filter (parse_outcome e) raw"

text \<open>\<open>Number.parseInt(raw, 10)\<close>: blanks, a sign, the longest run of digits.\<close>

definition parseInt10 :: "string \<Rightarrow> int option" where
  "parseInt10 raw =
     (let s = dropWhile is_ws raw;
          sg = s \<noteq> [] \<and> (hd s = CHR ''-'' \<or> hd s = CHR ''+'');
          ds = takeWhile is_digit (if sg then tl s else s);
          m = int (dec_val ds)
      in if ds = [] then None else Some (if sg \<and> hd s = CHR ''-'' then - m else m))"

definition parseCount :: "string option \<Rightarrow> int" where
  "parseCount raw = (case raw of
      None \<Rightarrow> 0
    | Some s \<Rightarrow> (case parseInt10 s of Some n \<Rightarrow> if 0 < n then n else 0 | None \<Rightarrow> 0))"

subsection \<open>Keys\<close>

definition recordKey :: "redis_env \<Rightarrow> string \<Rightarrow> string" where "recordKey e k = re_prefix e @ '':node:'' @ k"
definition windowKey :: "redis_env \<Rightarrow> string \<Rightarrow> string" where "windowKey e k = re_prefix e @ '':window:'' @ k"
definition inFlightKey :: "redis_env \<Rightarrow> string \<Rightarrow> string" where "inFlightKey e k = re_prefix e @ '':inflight:'' @ k"
definition indexKey :: "redis_env \<Rightarrow> string" where "indexKey e = re_prefix e @ '':nodes''"

subsection \<open>The commands of each operation\<close>

definition WINDOW_LAST :: int where "WINDOW_LAST = int HEALTH_WINDOW_SIZE - 1"

definition readRecord :: "redis_env \<Rightarrow> 'r redis_client \<Rightarrow> string \<Rightarrow> ('r, node_record option) cmd" where
  "readRecord e rc k =
     cbind (rc_get rc (recordKey e k)) (\<lambda>raw.
     cbind (rc_get rc (inFlightKey e k)) (\<lambda>inFlightRaw.
       cret (map_option (set_in_flight (parseCount inFlightRaw)) (parseRecord e raw))))"

definition upsert_cmds :: "redis_env \<Rightarrow> 'r redis_client \<Rightarrow> node_record \<Rightarrow> ('r, unit) cmd" where
  "upsert_cmds e rc r =
     (let k = n_nodeId r
      in cbind (readRecord e rc k) (\<lambda>existing.
         cbind (rc_lrange rc (windowKey e k) 0 WINDOW_LAST) (\<lambda>rawWindow.
         cbind (rc_set rc (recordKey e k) (serializeRecord e (mergeRecord existing r (rev (parseWindow e rawWindow))))) (\<lambda>_.
           rc_sadd rc (indexKey e) k))))"

fun list_records :: "redis_env \<Rightarrow> string option list \<Rightarrow> string option list \<Rightarrow> node_record list" where
  "list_records e (raw # raws) (cnt # cnts) =
     (case parseRecord e raw of
        None \<Rightarrow> list_records e raws cnts
      | Some r \<Rightarrow> set_in_flight (parseCount cnt) r # list_records e raws cnts)"
| "list_records e _ _ = []"

definition list_cmds :: "redis_env \<Rightarrow> 'r redis_client \<Rightarrow> ('r, node_record list) cmd" where
  "list_cmds e rc =
     cbind (rc_smembers rc (indexKey e)) (\<lambda>ids.
       if ids = [] then cret []
       else cbind (rc_mget rc (map (recordKey e) ids)) (\<lambda>rawRecords.
            cbind (rc_mget rc (map (inFlightKey e) ids)) (\<lambda>rawInFlight.
              cret (list_records e rawRecords rawInFlight))))"

definition remove_cmds :: "redis_env \<Rightarrow> 'r redis_client \<Rightarrow> string \<Rightarrow> ('r, unit) cmd" where
  "remove_cmds e rc k =
     cbind (rc_del rc [recordKey e k, windowKey e k, inFlightKey e k]) (\<lambda>_. rc_srem rc (indexKey e) k)"

definition outcome_cmds :: "redis_env \<Rightarrow> 'r redis_client \<Rightarrow> string \<Rightarrow> request_outcome \<Rightarrow> ('r, unit) cmd" where
  "outcome_cmds e rc k ou =
     cbind (readRecord e rc k) (\<lambda>found. case found of
        None \<Rightarrow> cret ()
      | Some r \<Rightarrow>
          cbind (rc_lpush rc (windowKey e k) (jc_stringify (re_json e) (outcome_json (normalizeOutcome ou)))) (\<lambda>_.
          cbind (rc_ltrim rc (windowKey e k) 0 WINDOW_LAST) (\<lambda>_.
          cbind (rc_lrange rc (windowKey e k) 0 WINDOW_LAST) (\<lambda>raw.
            rc_set rc (recordKey e k) (serializeRecord e (r\<lparr>n_totalRequests := n_totalRequests r + 1,
              n_health := deriveHealth (n_health r) (rev (parseWindow e raw))\<rparr>))))))"

definition begin_cmds :: "redis_env \<Rightarrow> 'r redis_client \<Rightarrow> string \<Rightarrow> ('r, unit) cmd" where
  "begin_cmds e rc k = cbind (rc_incr rc (inFlightKey e k)) (\<lambda>_. cret ())"

definition end_cmds :: "redis_env \<Rightarrow> 'r redis_client \<Rightarrow> string \<Rightarrow> ('r, unit) cmd" where
  "end_cmds e rc k =
     cbind (rc_decr rc (inFlightKey e k)) (\<lambda>remaining.
       if remaining < 0 then rc_set rc (inFlightKey e k) ''0'' else cret ())"

subsection \<open>The store\<close>

record 'r redis_node_store =
  rn_fallback :: mem_store
  rn_client :: "'r option"
  rn_degraded :: bool
  rn_warnings :: nat

definition degrade :: "'r redis_node_store \<Rightarrow> 'r redis_node_store" where
  "degrade st = (if rn_degraded st then st
     else st\<lparr>rn_degraded := True, rn_warnings := Suc (rn_warnings st), rn_client := None\<rparr>)"

text \<open>\<open>#run\<close>; \<open>fallback\<close> reads the mirror, since each write has reached it already.\<close>

definition run_cmd :: "('r, 'a) cmd \<Rightarrow> (mem_store \<Rightarrow> 'a) \<Rightarrow> 'r redis_node_store \<Rightarrow> 'r redis_node_store \<times> 'a" where
  "run_cmd c fallback st =
     (if rn_degraded st then (st, fallback (rn_fallback st))
      else case rn_client st of
          None \<Rightarrow> (st, fallback (rn_fallback st))
        | Some r \<Rightarrow> (case c r of
              (Some x, r') \<Rightarrow> (st\<lparr>rn_client := Some r'\<rparr>, x)
            | (None, r') \<Rightarrow> let st' = degrade st in (st', fallback (rn_fallback st'))))"

definition write_through ::
  "(mem_store \<Rightarrow> mem_store) \<Rightarrow> ('r, unit) cmd \<Rightarrow> 'r redis_node_store \<Rightarrow> 'r redis_node_store" where
  "write_through f c st = fst (run_cmd c (\<lambda>_. ()) (st\<lparr>rn_fallback := f (rn_fallback st)\<rparr>))"

definition rn_upsert :: "redis_env \<Rightarrow> 'r redis_client \<Rightarrow> node_record \<Rightarrow> 'r redis_node_store \<Rightarrow> 'r redis_node_store" where
  "rn_upsert e rc r = write_through (mem_upsert r) (upsert_cmds e rc r)"

definition rn_get :: "redis_env \<Rightarrow> 'r redis_client \<Rightarrow> string \<Rightarrow> 'r redis_node_store \<Rightarrow>
    'r redis_node_store \<times> node_record option" where
  "rn_get e rc k = run_cmd (readRecord e rc k) (\<lambda>m. mem_get m k)"

definition rn_list :: "redis_env \<Rightarrow> 'r redis_client \<Rightarrow> 'r redis_node_store \<Rightarrow> 'r redis_node_store \<times> node_record list" where
  "rn_list e rc = run_cmd (list_cmds e rc) mem_list"

definition rn_remove :: "redis_env \<Rightarrow> 'r redis_client \<Rightarrow> string \<Rightarrow> 'r redis_node_store \<Rightarrow> 'r redis_node_store" where
  "rn_remove e rc k = write_through (mem_remove k) (remove_cmds e rc k)"

definition rn_recordOutcome ::
  "redis_env \<Rightarrow> 'r redis_client \<Rightarrow> string \<Rightarrow> request_outcome \<Rightarrow> 'r redis_node_store \<Rightarrow> 'r redis_node_store" where
  "rn_recordOutcome e rc k ou = write_through (mem_recordOutcome k ou) (outcome_cmds e rc k ou)"

definition rn_beginRequest :: "redis_env \<Rightarrow> 'r redis_client \<Rightarrow> string \<Rightarrow> 'r redis_node_store \<Rightarrow> 'r redis_node_store" where
  "rn_beginRequest e rc k = write_through (mem_beginRequest k) (begin_cmds e rc k)"

definition rn_endRequest :: "redis_env \<Rightarrow> 'r redis_client \<Rightarrow> string \<Rightarrow> 'r redis_node_store \<Rightarrow> 'r redis_node_store" where
  "rn_endRequest e rc k = write_through (mem_endRequest k) (end_cmds e rc k)"

definition rn_close :: "'r redis_node_store \<Rightarrow> 'r redis_node_store" where
  "rn_close st = st\<lparr>rn_client := None, rn_fallback := mem_close (rn_fallback st)\<rparr>"

text \<open>The constructor, given what the client factory returned (\<open>None\<close>: it threw), and \<open>connect\<close>.\<close>

definition rn_new :: "'r option \<Rightarrow> 'r redis_node_store" where
  "rn_new made =
     (let st = \<lparr>rn_fallback = mem_empty, rn_client = made, rn_degraded = False, rn_warnings = 0\<rparr>
      in case made of Some r \<Rightarrow> st | None \<Rightarrow> degrade st)"

definition rn_connect :: "'r redis_client \<Rightarrow> 'r redis_node_store \<Rightarrow> 'r redis_node_store \<times> bool" where
  "rn_connect rc st =
     (if rn_degraded st then (st, False)
      else case rn_client st of
          None \<Rightarrow> (st, False)
        | Some r \<Rightarrow> (case rc_connect rc r of
              (Some u, r') \<Rightarrow> (st\<lparr>rn_client := Some r'\<rparr>, True)
            | (None, r') \<Rightarrow> (degrade st, False)))"

datatype 'r any_store = InMemory mem_store | InRedis "'r redis_node_store"

definition createNodeStore :: "'r redis_client \<Rightarrow> (string \<Rightarrow> 'r option) \<Rightarrow> string option \<Rightarrow> 'r any_store" where
  "createNodeStore rc factory redisUrl =
     (let url = (case redisUrl of None \<Rightarrow> [] | Some u \<Rightarrow> trim u)
      in if url = [] then InMemory mem_empty
         else case rn_connect rc (rn_new (factory url)) of
             (st, True) \<Rightarrow> InRedis st
           | (st, False) \<Rightarrow> InMemory mem_empty)"

end
