(* ===== verification/RedisProps.thy ===== *)
theory RedisProps
  imports RedisStore NodeProps
begin

section \<open>The Redis store against the in-memory store\<close>

text \<open>
  While Redis answers, its key space holds what the mirror holds (\<open>mirrors\<close>), operation by operation;
  when it stops answering the mirror takes over. So one process with Redis, whenever its commands fail,
  answers every read as the in-memory store does.
\<close>

subsection \<open>Records that survive storage\<close>

definition storable :: "redis_env \<Rightarrow> node_record \<Rightarrow> bool" where
  "storable e r \<longleftrightarrow> NodeRecordSchema (re_avm e) (re_parse e) (record_json r) = Some r"

definition num_in :: "(rat \<Rightarrow> bool) \<Rightarrow> jsnum \<Rightarrow> bool" where
  "num_in ok v = (case v of Fin q \<Rightarrow> ok q | _ \<Rightarrow> False)"

definition health_ok :: "node_health \<Rightarrow> bool" where
  "health_ok h \<longleftrightarrow> len_between 1 128 (h_nodeId h) \<and> num_in (\<lambda>q. 0 \<le> q) (h_latencyMsP50 h) \<and>
     num_in (\<lambda>q. 0 \<le> q) (h_latencyMsP95 h) \<and> 0 \<le> h_inFlight h \<and> 0 < h_maxConcurrency h \<and>
     h_maxConcurrency h \<le> 4096 \<and> unit_num (h_uptimeRatio h) \<and> unit_num (h_qualityScore h) \<and>
     0 \<le> h_consecutiveFailures h \<and> num_in (\<lambda>q. q = of_int \<lfloor>q\<rfloor> \<and> 0 \<le> q) (h_lastSeenAt h)"

definition registration_storable :: "redis_env \<Rightarrow> node_registration \<Rightarrow> bool" where
  "registration_storable e g \<longleftrightarrow> NodeRegistrationSchema (re_avm e) (re_parse e) (registration_json g) = Some g"

lemma z_num_JNum [simp]: "z_num ok (JNum v) = (if num_in ok v then Some v else None)"
  by (cases v) (simp_all add: z_num_def num_in_def)

lemma unit_num_in: "num_in (\<lambda>q. 0 \<le> q \<and> q \<le> 1) v = unit_num v"
  by (cases v) (simp_all add: num_in_def unit_num_def)

lemma z_bool_JBool [simp]: "z_bool (JBool b) = Some b"
  by (simp add: z_bool_def)

lemma health_schema: "NodeHealthSchema (health_json h) = (if health_ok h then Some h else None)"
  by (simp add: NodeHealthSchema_def health_json_def z_strict_def member_of_def health_ok_def unit_num_in)

lemma storable_iff: "storable e r \<longleftrightarrow> registration_storable e (n_registration r) \<and> health_ok (n_health r) \<and>
    0 \<le> n_totalRequests r \<and> wire_digits (n_totalPaidAtomic r) \<and> 0 \<le> n_registeredAt r"
  by (cases "NodeRegistrationSchema (re_avm e) (re_parse e) (registration_json (n_registration r))"; cases r)
    (auto simp: storable_def NodeRecordSchema_def record_json_def z_strict_def member_of_def health_schema
      AtomicAmountSchema_def registration_storable_def)

lemma storable_in_flight: "storable e r \<Longrightarrow> 0 \<le> in_flight r"
  by (simp add: storable_iff health_ok_def)

lemma storable_set_in_flight: "storable e r \<Longrightarrow> 0 \<le> i \<Longrightarrow> storable e (set_in_flight i r)"
  by (simp add: storable_iff health_ok_def set_in_flight_def)

lemma last_seen_ok:
  assumes "num_in (\<lambda>q. q = of_int \<lfloor>q\<rfloor> \<and> 0 \<le> q) t" "list_all norm_outcome w"
  shows "num_in (\<lambda>q. q = of_int \<lfloor>q\<rfloor> \<and> 0 \<le> q) (last_seen t w)"
  using assms
proof (induction w arbitrary: t)
  case (Cons ou w)
  then have "num_in (\<lambda>q. q = of_int \<lfloor>q\<rfloor> \<and> 0 \<le> q) (o_at ou)" by (auto simp: norm_outcome_def num_in_def)
  with Cons show ?case by simp
qed simp

lemma derived_health_ok:
  assumes "health_ok h" "window_ok w"
  shows "health_ok (deriveHealth h w)"
proof (cases "w = []")
  case True
  with assms show ?thesis by (simp add: deriveHealth_def)
next
  case False
  have len: "length (map o_latencyMs w) < 2 ^ 53 - 1" and small: "small_window w"
    using assms(2) by (simp_all add: window_ok_def HEALTH_WINDOW_SIZE_def small_windowI)
  have lat: "num_in (\<lambda>q. 0 \<le> q) v" if "v \<in> set (map o_latencyMs w)" for v
    using that assms(2) by (auto simp: window_ok_def list_all_iff norm_outcome_def num_in_def)
  have p: "num_in (\<lambda>q. 0 \<le> q) (percentile (sort_nums (map o_latencyMs w)) (Fin q))" if "0 \<le> q" "q \<le> 100" for q
    using percentile_observed [OF _ len that] False lat by simp
  have "unit_num (Fin (fl64 (uptime w * penalty (failure_streak w))))"
    using b64.rnd_unit [of "uptime w * penalty (failure_streak w)"] uptime_unit [of w] penalty_unit [of "failure_streak w"]
    by (simp add: unit_num_def mult_le_one)
  moreover have "unit_num (Fin (uptime w))" using uptime_unit by (simp add: unit_num_def)
  ultimately show ?thesis
    using assms p last_seen_ok [of "h_lastSeenAt h" w]
    by (simp add: deriveHealth_eq [OF False small] health_ok_def window_ok_def)
qed

lemma maxAtomic_ok: "wire_digits a \<Longrightarrow> wire_digits b \<Longrightarrow> wire_digits (maxAtomic a b)"
  by (simp add: maxAtomic_def tryAtomic_def)

lemma js_max_ok: "num_in ok a \<Longrightarrow> num_in ok b \<Longrightarrow> num_in ok (js_max a b)"
  by (cases a; cases b) (auto simp: num_in_def js_max_def)

lemma storable_merge:
  assumes "storable e r" "window_ok w" "\<And>x. existing = Some x \<Longrightarrow> storable e x"
  shows "storable e (mergeRecord existing r w)"
proof (cases existing)
  case None
  with assms show ?thesis by (simp add: mergeRecord_def)
next
  case (Some x)
  then have x: "storable e x" using assms(3) by simp
  let ?h = "(n_health r)\<lparr>h_inFlight := h_inFlight (n_health x),
               h_lastSeenAt := js_max (h_lastSeenAt (n_health x)) (h_lastSeenAt (n_health r))\<rparr>"
  have "health_ok ?h" using assms(1) x by (simp add: storable_iff health_ok_def js_max_ok)
  moreover have "health_ok (g\<lparr>h_healthy := b\<rparr>) = health_ok g" for g b by (simp add: health_ok_def)
  ultimately show ?thesis
    using assms(1,2) x derived_health_ok [of ?h w]
    by (auto simp: Some mergeRecord_def Let_def storable_iff maxAtomic_ok)
qed

lemma storable_outcome: "storable e r \<Longrightarrow> window_ok w \<Longrightarrow>
    storable e (r\<lparr>n_totalRequests := n_totalRequests r + 1, n_health := deriveHealth (n_health r) w\<rparr>)"
  by (simp add: storable_iff derived_health_ok)

subsection \<open>Texts read back\<close>

lemma json_nums [simp]: "json_value (num_of_int i)"
  by (simp add: num_of_int_def)

lemma num_in_finite: "num_in ok v \<Longrightarrow> isFinite v"
  by (cases v) (simp_all add: num_in_def)

lemma unit_num_finite: "unit_num v \<Longrightarrow> isFinite v"
  by (cases v) (simp_all add: unit_num_def)

lemma json_registration: "json_value (registration_json g)"
  by (auto simp: registration_json_def registration_projection_def projectCapability_def list_all_iff split: option.split)

lemma json_record: "storable e r \<Longrightarrow> json_value (record_json r)"
  by (auto simp: record_json_def health_json_def json_registration storable_iff health_ok_def
    intro: num_in_finite unit_num_finite)

lemma json_outcome: "norm_outcome ou \<Longrightarrow> json_value (outcome_json ou)"
  by (auto simp: outcome_json_def norm_outcome_def)

lemma parse_serialized:
  assumes "codec_ok (re_json e)" "storable e r"
  shows "parseRecord e (Some (serializeRecord e r)) = Some r"
  using assms(1) json_record [OF assms(2)] assms(2)
  by (simp add: parseRecord_def serializeRecord_def codec_ok_def storable_def)

lemma parse_absent [simp]: "parseRecord e None = None"
  by (simp add: parseRecord_def)

definition outcome_text :: "redis_env \<Rightarrow> request_outcome \<Rightarrow> string" where
  "outcome_text e ou = jc_stringify (re_json e) (outcome_json ou)"

lemma parse_outcome_text:
  assumes "codec_ok (re_json e)" "norm_outcome ou"
  shows "parse_outcome e (outcome_text e ou) = Some ou"
  using assms(1) json_outcome [OF assms(2)] normalizeOutcome_id [OF assms(2)]
  by (cases ou) (auto simp: parse_outcome_def outcome_text_def codec_ok_def outcome_json_def member_of_def num_or_zero_def)

lemma parse_window_text:
  assumes "codec_ok (re_json e)" "list_all norm_outcome w"
  shows "parseWindow e (map (outcome_text e) w) = w"
  using assms(2)
  by (induction w) (simp_all add: parseWindow_def List.map_filter_simps parse_outcome_text [OF assms(1)])

lemma parse_count_str [simp]: "0 \<le> i \<Longrightarrow> parseCount (Some (int_str i)) = i"
proof -
  assume i: "0 \<le> i"
  have d: "list_all is_digit (nat_str (nat i))" "nat_str (nat i) \<noteq> []" by (simp_all add: nat_str_digits radix_str_nonempty)
  then obtain c cs where c: "nat_str (nat i) = c # cs" "is_digit c" by (cases "nat_str (nat i)") auto
  then have "\<not> is_ws c" "c \<noteq> CHR ''-''" "c \<noteq> CHR ''+''" by (auto simp: is_digit_not_ws is_digit_def code_def)
  moreover have tw: "takeWhile is_digit cs = cs"
    using d c by (simp add: takeWhile_eq_all_conv list_all_iff)
  ultimately have "parseInt10 (int_str i) = Some i"
    using c i dec_val_nat_str [of "nat i"] by (simp add: parseInt10_def int_str_def Let_def tw)
  with i show ?thesis by (simp add: parseCount_def)
qed

lemma parse_count_absent [simp]: "parseCount None = 0"
  by (simp add: parseCount_def)

subsection \<open>The key space holds what the mirror holds\<close>

lemma keys_differ [simp]:
  "recordKey e k = recordKey e k' \<longleftrightarrow> k = k'" "windowKey e k = windowKey e k' \<longleftrightarrow> k = k'"
  "inFlightKey e k = inFlightKey e k' \<longleftrightarrow> k = k'"
  "recordKey e k \<noteq> windowKey e k'" "recordKey e k \<noteq> inFlightKey e k'" "recordKey e k \<noteq> indexKey e"
  "windowKey e k \<noteq> recordKey e k'" "windowKey e k \<noteq> inFlightKey e k'" "windowKey e k \<noteq> indexKey e"
  "inFlightKey e k \<noteq> recordKey e k'" "inFlightKey e k \<noteq> windowKey e k'" "inFlightKey e k \<noteq> indexKey e"
  "indexKey e \<noteq> recordKey e k" "indexKey e \<noteq> windowKey e k" "indexKey e \<noteq> inFlightKey e k"
  by (simp_all add: recordKey_def windowKey_def inFlightKey_def indexKey_def)

definition counter_is :: "redis_db \<Rightarrow> string \<Rightarrow> int \<Rightarrow> bool" where
  "counter_is db k c \<longleftrightarrow> str_at db k = Some None \<and> c = 0 \<or> str_at db k = Some (Some (int_str c))"

text \<open>The blob of a node: its in-flight member is stale, the counter has the count.\<close>

definition node_cell :: "redis_env \<Rightarrow> redis_db \<Rightarrow> string \<Rightarrow> node_record option \<Rightarrow> request_outcome list \<Rightarrow> bool" where
  "node_cell e db k found w \<longleftrightarrow>
     (case found of
        None \<Rightarrow> str_at db (recordKey e k) = Some None \<and> counter_is db (inFlightKey e k) 0
      | Some r \<Rightarrow> (\<exists>i \<ge> 0. str_at db (recordKey e k) = Some (Some (serializeRecord e (set_in_flight i r)))) \<and>
          counter_is db (inFlightKey e k) (in_flight r)) \<and>
     list_at db (windowKey e k) = Some (map (outcome_text e) (rev w))"

definition index_is :: "redis_env \<Rightarrow> redis_db \<Rightarrow> mem_store \<Rightarrow> bool" where
  "index_is e db m \<longleftrightarrow> (\<exists>ids. set_at db (indexKey e) = Some ids \<and> distinct ids \<and> set ids = {k. mem_get m k \<noteq> None})"

definition mirrors :: "redis_env \<Rightarrow> redis_db \<Rightarrow> mem_store \<Rightarrow> bool" where
  "mirrors e db m \<longleftrightarrow> mem_inv m \<and> (\<forall>k r. mem_get m k = Some r \<longrightarrow> storable e r) \<and>
     (\<forall>k. node_cell e db k (mem_get m k) (window_of m k)) \<and> index_is e db m"

lemma mirrorsD:
  assumes "mirrors e db m"
  shows "mem_inv m" "mem_get m k = Some r \<Longrightarrow> storable e r" "node_cell e db k (mem_get m k) (window_of m k)" "index_is e db m"
  using assms by (auto simp: mirrors_def)

lemma window_of_ok: "mem_inv m \<Longrightarrow> window_ok (window_of m k)"
  using mem_inv_cell [of m k]
  by (cases "jget (m_records m) k") (auto simp: window_of_def elim!: cell_ok_SomeE)

lemma window_of_unknown: "mem_inv m \<Longrightarrow> mem_get m k = None \<Longrightarrow> window_of m k = []"
  using mem_inv_cell [of m k] by (auto simp: mem_get_def window_of_def)

lemma int_at_counter: "counter_is db k c \<Longrightarrow> int_at db k = Some c"
  by (auto simp: counter_is_def int_at_def)

lemma counter_count: "counter_is db k c \<Longrightarrow> 0 \<le> c \<Longrightarrow> str_at db k = Some v \<Longrightarrow> parseCount v = c"
  by (auto simp: counter_is_def)

lemma window_slice: "redis_slice 0 WINDOW_LAST xs = take HEALTH_WINDOW_SIZE xs"
  using redis_slice_first [of HEALTH_WINDOW_SIZE xs] by (simp add: WINDOW_LAST_def HEALTH_WINDOW_SIZE_def)

text \<open>Writing one node's keys leaves the cells of the others.\<close>

definition elsewhere :: "redis_env \<Rightarrow> redis_db \<Rightarrow> redis_db \<Rightarrow> string \<Rightarrow> bool" where
  "elsewhere e db db' k \<longleftrightarrow> (\<forall>k'. k' \<noteq> k \<longrightarrow> db' (recordKey e k') = db (recordKey e k') \<and>
     db' (windowKey e k') = db (windowKey e k') \<and> db' (inFlightKey e k') = db (inFlightKey e k'))"

lemma node_cell_elsewhere:
  assumes "elsewhere e db db' k" "k' \<noteq> k" "node_cell e db k' found w"
  shows "node_cell e db' k' found w"
  using assms at_cong [of db' "recordKey e k'" db] at_cong [of db' "windowKey e k'" db] at_cong [of db' "inFlightKey e k'" db]
  by (auto simp: node_cell_def counter_is_def elsewhere_def split: option.splits)

lemma mirrors_step:
  assumes "mirrors e db m" "elsewhere e db db' k" "mem_inv m'"
    and "\<And>k'. k' \<noteq> k \<Longrightarrow> mem_get m' k' = mem_get m k' \<and> window_of m' k' = window_of m k'"
    and "\<And>r. mem_get m' k = Some r \<Longrightarrow> storable e r"
    and "node_cell e db' k (mem_get m' k) (window_of m' k)" and "index_is e db' m'"
  shows "mirrors e db' m'"
proof -
  have "storable e r" if "mem_get m' k' = Some r" for k' r
    using that assms(4) [of k'] assms(5) mirrorsD(2) [OF assms(1)] by (cases "k' = k") auto
  moreover have "node_cell e db' k' (mem_get m' k') (window_of m' k')" for k'
    using assms(4) [of k'] assms(6) node_cell_elsewhere [OF assms(2)] mirrorsD(3) [OF assms(1)] by (cases "k' = k") auto
  ultimately show ?thesis using assms(3,7) by (simp add: mirrors_def)
qed

subsection \<open>Each operation keeps the mirror\<close>

lemma stored_cell:
  assumes "storable e r" "str_at db (recordKey e k) = Some (Some (serializeRecord e r))"
    and "counter_is db (inFlightKey e k) (in_flight r)" "list_at db (windowKey e k) = Some (map (outcome_text e) (rev w))"
  shows "node_cell e db k (Some r) w"
proof -
  have "set_in_flight (in_flight r) r = r" by (simp add: set_in_flight_def)
  with assms storable_in_flight [OF assms(1)] show ?thesis by (auto simp: node_cell_def intro!: exI [of _ "in_flight r"])
qed

lemma rev_push_window: "rev (push_window w ou) = take HEALTH_WINDOW_SIZE (normalizeOutcome ou # rev w)"
  by (auto simp: push_window_def Let_def rev_drop simp del: drop_append)

context redis
begin

lemma read_record:
  assumes "mirrors e (view c) m" "codec_ok (re_json e)" "readRecord e rc k c = (Some found, c')"
  shows "found = mem_get m k \<and> view c' = view c"
proof -
  obtain raw cnt c1 where g: "rc_get rc (recordKey e k) c = (Some raw, c1)" "rc_get rc (inFlightKey e k) c1 = (Some cnt, c')"
    and f: "found = map_option (set_in_flight (parseCount cnt)) (parseRecord e raw)"
    using assms(3) by (auto simp: readRecord_def cbind_Some)
  have v: "str_at (view c) (recordKey e k) = Some raw" "str_at (view c) (inFlightKey e k) = Some cnt" "view c' = view c"
    using get_ok [OF g(1)] get_ok [OF g(2)] by auto
  note cell = mirrorsD(3) [OF assms(1), of k]
  show ?thesis
  proof (cases "mem_get m k")
    case None
    with cell v f show ?thesis by (simp add: node_cell_def)
  next
    case (Some r)
    with cell obtain i where i: "0 \<le> i" "raw = Some (serializeRecord e (set_in_flight i r))"
        "counter_is (view c) (inFlightKey e k) (in_flight r)"
      using v(1) by (auto simp: node_cell_def)
    have st: "storable e r" using mirrorsD(2) [OF assms(1) Some] .
    with i have "parseRecord e raw = Some (set_in_flight i r)"
      by (simp add: parse_serialized [OF assms(2)] storable_set_in_flight)
    moreover have "parseCount cnt = in_flight r"
      using counter_count [OF i(3) storable_in_flight [OF st] v(2)] .
    ultimately show ?thesis using f v Some by (simp add: set_in_flight_def)
  qed
qed

lemma read_window:
  assumes "mirrors e (view c) m" "codec_ok (re_json e)" "rc_lrange rc (windowKey e k) 0 WINDOW_LAST c = (Some raw, c')"
  shows "rev (parseWindow e raw) = window_of m k \<and> view c' = view c"
proof -
  have w: "window_ok (window_of m k)" using window_of_ok mirrorsD(1) [OF assms(1)] .
  have "list_at (view c) (windowKey e k) = Some (map (outcome_text e) (rev (window_of m k)))"
    using mirrorsD(3) [OF assms(1), of k] by (simp add: node_cell_def)
  with lrange_ok [OF assms(3)] have "raw = take HEALTH_WINDOW_SIZE (map (outcome_text e) (rev (window_of m k)))" "view c' = view c"
    by (auto simp: window_slice)
  with w parse_window_text [OF assms(2), of "rev (window_of m k)"] show ?thesis
    by (simp add: window_ok_def list_all_iff take_map)
qed

lemma upsert_mirrors:
  assumes "mirrors e (view c) m" "codec_ok (re_json e)" "storable e r" "mem_get m (n_nodeId r) = None \<Longrightarrow> in_flight r = 0"
    and "upsert_cmds e rc r c = (Some u, c')"
  shows "mirrors e (view c') (mem_upsert r m)"
proof -
  let ?k = "n_nodeId r" and ?w = "window_of m (n_nodeId r)"
  obtain found raw c1 c2 c3 where s: "readRecord e rc ?k c = (Some found, c1)"
      "rc_lrange rc (windowKey e ?k) 0 WINDOW_LAST c1 = (Some raw, c2)"
      "rc_set rc (recordKey e ?k) (serializeRecord e (mergeRecord found r (rev (parseWindow e raw)))) c2 = (Some (), c3)"
      "rc_sadd rc (indexKey e) ?k c3 = (Some (), c')"
    using assms(5) by (auto simp: upsert_cmds_def Let_def cbind_Some)
  note rd = read_record [OF assms(1,2) s(1)]
  have m1: "mirrors e (view c1) m" using assms(1) rd by simp
  note rw = read_window [OF m1 assms(2) s(2)]
  let ?r' = "mergeRecord (mem_get m ?k) r ?w"
  let ?db3 = "(view c)(recordKey e ?k \<mapsto> RString (serializeRecord e ?r'))"
  have v3: "view c3 = ?db3" using set_ok [OF s(3)] rd rw by simp
  obtain ids where ids: "set_at ?db3 (indexKey e) = Some ids" "view c' = put_set (indexKey e) (add_member ?k ids) ?db3"
    using sadd_ok [OF s(4)] v3 by auto
  have idx: "distinct ids" "set ids = {k. mem_get m k \<noteq> None}"
    using mirrorsD(4) [OF assms(1)] ids(1) by (auto simp: index_is_def)
  have inv: "mem_inv m" using mirrorsD(1) [OF assms(1)] .
  have fl: "in_flight ?r' = (case mem_get m ?k of None \<Rightarrow> 0 | Some x \<Rightarrow> in_flight x)"
    using assms(4) merge_fields(2) [OF refl] by (cases "mem_get m ?k") (auto simp: mergeRecord_def)
  have wk: "window_of (mem_upsert r m) k = window_of m k" for k
    by (simp add: window_of_def mem_upsert_def Let_def jsmap_simps jhas_iff split: option.split)
  have st: "storable e ?r'"
    using storable_merge [OF assms(3) window_of_ok [OF inv]] mirrorsD(2) [OF assms(1)] by blast
  show ?thesis
  proof (rule mirrors_step [where k = ?k, OF assms(1)])
    show "elsewhere e (view c) (view c') ?k" by (simp add: elsewhere_def ids(2))
    show "mem_inv (mem_upsert r m)" using inv storable_in_flight [OF assms(3)] by (rule mem_inv_upsert)
    show "mem_get (mem_upsert r m) k' = mem_get m k' \<and> window_of (mem_upsert r m) k' = window_of m k'" if "k' \<noteq> ?k" for k'
      using that wk by (simp add: mem_get_upsert)
    show "storable e x" if "mem_get (mem_upsert r m) ?k = Some x" for x
      using that st by (simp add: mem_get_upsert)
    show "node_cell e (view c') ?k (mem_get (mem_upsert r m) ?k) (window_of (mem_upsert r m) ?k)"
      using stored_cell [OF st, where db = "view c'" and k = ?k and w = ?w] mirrorsD(3) [OF assms(1), of ?k] fl ids(2)
      by (cases "mem_get m ?k") (auto simp: node_cell_def counter_is_def mem_get_upsert wk)
    show "index_is e (view c') (mem_upsert r m)"
      using idx by (auto simp: index_is_def ids(2) mem_get_upsert)
  qed
qed

lemma list_reads:
  assumes "mirrors e (view c) m" "codec_ok (re_json e)" "list_cmds e rc c = (Some ys, c')"
  shows "mset ys = mset (mem_list m) \<and> view c' = view c"
proof -
  obtain ids c1 where g: "rc_smembers rc (indexKey e) c = (Some ids, c1)"
    and rest: "(if ids = [] then cret [] else cbind (rc_mget rc (map (recordKey e) ids)) (\<lambda>a.
      cbind (rc_mget rc (map (inFlightKey e) ids)) (\<lambda>b. cret (list_records e a b)))) c1 = (Some ys, c')"
    using assms(3) unfolding list_cmds_def cbind_Some by blast
  obtain ids0 where ids0: "set_at (view c) (indexKey e) = Some ids0" "mset ids = mset ids0" "view c1 = view c"
    using smembers_ok [OF g] by blast
  have idx: "distinct ids" "set ids = {k. mem_get m k \<noteq> None}"
    using mirrorsD(4) [OF assms(1)] ids0 mset_eq_setD [OF ids0(2)] mset_eq_imp_distinct_iff [OF ids0(2)]
    by (auto simp: index_is_def)
  note inv = mirrorsD(1) [OF assms(1)]
  let ?get = "\<lambda>k. the (mem_get m k)"
  have one: "map_option (set_in_flight (parseCount (case str_at (view c) (inFlightKey e k) of Some v \<Rightarrow> v | None \<Rightarrow> None)))
      (parseRecord e (case str_at (view c) (recordKey e k) of Some v \<Rightarrow> v | None \<Rightarrow> None)) = Some (?get k)"
    if k: "k \<in> set ids" for k
  proof -
    obtain r where r: "mem_get m k = Some r" using k idx by auto
    have st: "storable e r" using mirrorsD(2) [OF assms(1) r] .
    obtain i where i: "0 \<le> i" "str_at (view c) (recordKey e k) = Some (Some (serializeRecord e (set_in_flight i r)))"
        "counter_is (view c) (inFlightKey e k) (in_flight r)"
      using mirrorsD(3) [OF assms(1), of k] r by (auto simp: node_cell_def)
    then obtain v where v: "str_at (view c) (inFlightKey e k) = Some v" "parseCount v = in_flight r"
      using counter_count [OF i(3) storable_in_flight [OF st]] by (auto simp: counter_is_def)
    have "set_in_flight (in_flight r) (set_in_flight i r) = r" by (simp add: set_in_flight_def)
    with v i r st show ?thesis by (simp add: parse_serialized [OF assms(2)] storable_set_in_flight)
  qed
  have lr: "list_records e (map (\<lambda>k. case str_at (view c) (recordKey e k) of Some v \<Rightarrow> v | None \<Rightarrow> None) ks)
      (map (\<lambda>k. case str_at (view c) (inFlightKey e k) of Some v \<Rightarrow> v | None \<Rightarrow> None) ks) = map ?get ks"
    if "set ks \<subseteq> set ids" for ks
    using that one by (induction ks) (fastforce split: option.splits)+
  have ys: "ys = map ?get ids \<and> view c' = view c"
  proof (cases "ids = []")
    case True
    then show ?thesis using rest ids0(3) by simp
  next
    case False
    then obtain a b c2 where m: "rc_mget rc (map (recordKey e) ids) c1 = (Some a, c2)"
        "rc_mget rc (map (inFlightKey e) ids) c2 = (Some b, c')" "ys = list_records e a b"
      using rest by (auto simp: cbind_Some)
    from mget_ok [OF m(1)] mget_ok [OF m(2)] ids0(3) m(3) lr [of ids] show ?thesis
      by (simp add: comp_def)
  qed
  have key: "n_nodeId (?get k) = k" if "k \<in> set ids" for k
    using that idx mem.get_key [OF inv] by auto
  have "map n_nodeId (map ?get ids) = ids" using key by (induction ids) auto
  then have "distinct (map n_nodeId (map ?get ids))" using idx(1) by metis
  then have "distinct (map ?get ids)" using distinct_map by blast
  moreover have "distinct (mem_list m)" using mem.list_distinct [OF inv] distinct_map by blast
  moreover have "set (map ?get ids) = set (mem_list m)"
  proof (rule set_eqI)
    fix r
    have "r \<in> set (map ?get ids) \<longleftrightarrow> (\<exists>k. mem_get m k = Some r)" using idx(2) by force
    also have "\<dots> \<longleftrightarrow> mem_get m (n_nodeId r) = Some r" using mem.get_key [OF inv] by metis
    also have "\<dots> \<longleftrightarrow> r \<in> set (mem_list m)" using mem.list_iff_get [OF inv] by simp
    finally show "r \<in> set (map ?get ids) \<longleftrightarrow> r \<in> set (mem_list m)" .
  qed
  ultimately show ?thesis using ys set_eq_iff_mset_eq_distinct by blast
qed

lemma remove_mirrors:
  assumes "mirrors e (view c) m" "remove_cmds e rc k c = (Some u, c')"
  shows "mirrors e (view c') (mem_remove k m)"
proof -
  obtain c1 where s: "rc_del rc [recordKey e k, windowKey e k, inFlightKey e k] c = (Some (), c1)"
      "rc_srem rc (indexKey e) k c1 = (Some (), c')"
    using assms(2) by (auto simp: remove_cmds_def cbind_Some)
  let ?db = "\<lambda>k'. if k' \<in> set [recordKey e k, windowKey e k, inFlightKey e k] then None else view c k'"
  have v: "view c1 = ?db" using del_ok [OF s(1)] .
  obtain ids where ids: "set_at ?db (indexKey e) = Some ids" "view c' = put_set (indexKey e) (removeAll k ids) ?db"
    using srem_ok [OF s(2)] v by auto
  have "set_at (view c) (indexKey e) = Some ids" using ids(1) at_cong(3) [of ?db "indexKey e" "view c"] by simp
  then have idx: "distinct ids" "set ids = {k. mem_get m k \<noteq> None}"
    using mirrorsD(4) [OF assms(1)] by (auto simp: index_is_def)
  have wk: "window_of (mem_remove k m) k' = (if k' = k then [] else window_of m k')" for k'
    by (simp add: window_of_def mem_remove_def jsmap_simps)
  show ?thesis
  proof (rule mirrors_step [where k = k, OF assms(1)])
    show "elsewhere e (view c) (view c') k" by (simp add: elsewhere_def ids(2))
    show "mem_inv (mem_remove k m)" using mirrorsD(1) [OF assms(1)] by (rule mem_inv_remove)
    show "mem_get (mem_remove k m) k' = mem_get m k' \<and> window_of (mem_remove k m) k' = window_of m k'" if "k' \<noteq> k" for k'
      using that wk by (simp add: mem_get_remove)
    show "storable e x" if "mem_get (mem_remove k m) k = Some x" for x using that by (simp add: mem_get_remove)
    show "node_cell e (view c') k (mem_get (mem_remove k m) k) (window_of (mem_remove k m) k)"
      by (simp add: node_cell_def mem_get_remove wk ids(2) counter_is_def) (simp add: str_at_def list_at_def)
    show "index_is e (view c') (mem_remove k m)"
      using idx by (auto simp: index_is_def ids(2) mem_get_remove distinct_removeAll)
  qed
qed

lemma outcome_mirrors:
  assumes "mirrors e (view c) m" "codec_ok (re_json e)" "outcome_cmds e rc k ou c = (Some u, c')"
  shows "mirrors e (view c') (mem_recordOutcome k ou m)"
proof -
  obtain found c1 where s: "readRecord e rc k c = (Some found, c1)"
    and rest: "(case found of None \<Rightarrow> cret () | Some r \<Rightarrow>
          cbind (rc_lpush rc (windowKey e k) (jc_stringify (re_json e) (outcome_json (normalizeOutcome ou)))) (\<lambda>_.
          cbind (rc_ltrim rc (windowKey e k) 0 WINDOW_LAST) (\<lambda>_.
          cbind (rc_lrange rc (windowKey e k) 0 WINDOW_LAST) (\<lambda>raw.
            rc_set rc (recordKey e k) (serializeRecord e (r\<lparr>n_totalRequests := n_totalRequests r + 1,
              n_health := deriveHealth (n_health r) (rev (parseWindow e raw))\<rparr>)))))) c1 = (Some u, c')"
    using assms(3) unfolding outcome_cmds_def cbind_Some by blast
  note rd = read_record [OF assms(1,2) s]
  note inv = mirrorsD(1) [OF assms(1)]
  show ?thesis
  proof (cases found)
    case None
    then have "jget (m_records m) k = None" using rd by (simp add: mem_get_def)
    with None rest rd assms(1) show ?thesis by (simp add: mem_recordOutcome_def)
  next
    case (Some r)
    then have known: "mem_get m k = Some r" using rd by simp
    let ?w = "window_of m k" and ?t = "outcome_text e (normalizeOutcome ou)"
    let ?w' = "push_window ?w ou"
    obtain raw c2 c3 c4 where g: "rc_lpush rc (windowKey e k) ?t c1 = (Some (), c2)"
        "rc_ltrim rc (windowKey e k) 0 WINDOW_LAST c2 = (Some (), c3)"
        "rc_lrange rc (windowKey e k) 0 WINDOW_LAST c3 = (Some raw, c4)"
        "rc_set rc (recordKey e k) (serializeRecord e (r\<lparr>n_totalRequests := n_totalRequests r + 1,
              n_health := deriveHealth (n_health r) (rev (parseWindow e raw))\<rparr>)) c4 = (Some (), c')"
      using rest Some by (auto simp: cbind_Some outcome_text_def)
    have old: "list_at (view c) (windowKey e k) = Some (map (outcome_text e) (rev ?w))"
      using mirrorsD(3) [OF assms(1), of k] by (simp add: node_cell_def)
    have v2: "view c2 = put_list (windowKey e k) (?t # map (outcome_text e) (rev ?w)) (view c)"
      using lpush_ok [OF g(1)] old rd by auto
    have texts: "take HEALTH_WINDOW_SIZE (?t # map (outcome_text e) (rev ?w)) = map (outcome_text e) (rev ?w')"
      unfolding rev_push_window take_map [symmetric] by simp
    have v3: "view c3 = put_list (windowKey e k) (map (outcome_text e) (rev ?w')) (view c2)"
      using ltrim_ok [OF g(2)] texts by (auto simp: v2 window_slice)
    have w': "window_ok ?w'" using window_of_ok [OF inv] by (rule window_ok_push)
    have v4: "raw = map (outcome_text e) (rev ?w')" "view c4 = view c3"
      using lrange_ok [OF g(3)] texts by (auto simp: v3 window_slice) (metis length_map length_rev take_all w' window_ok_def)
    have raw: "rev (parseWindow e raw) = ?w'"
      using parse_window_text [OF assms(2), of "rev ?w'"] w' by (simp add: v4 window_ok_def list_all_iff)
    let ?r' = "r\<lparr>n_totalRequests := n_totalRequests r + 1, n_health := deriveHealth (n_health r) ?w'\<rparr>"
    have st: "storable e ?r'" using mirrorsD(2) [OF assms(1) known] w' by (rule storable_outcome)
    have v': "view c' = (view c3)(recordKey e k \<mapsto> RString (serializeRecord e ?r'))"
      using set_ok [OF g(4)] by (simp add: v4(2) raw)
    have get': "mem_get (mem_recordOutcome k ou m) k' = (if k' = k then Some ?r' else mem_get m k')" for k'
      using known by (simp add: mem_get_recordOutcome)
    have wk: "window_of (mem_recordOutcome k ou m) k' = (if k' = k then ?w' else window_of m k')" for k'
      using known by (auto simp: window_of_def mem_recordOutcome_def mem_get_def Let_def jsmap_simps)
    show ?thesis
    proof (rule mirrors_step [where k = k, OF assms(1)])
      show "elsewhere e (view c) (view c') k" by (simp add: elsewhere_def v' v3 v2)
      show "mem_inv (mem_recordOutcome k ou m)" using inv by (rule mem_inv_recordOutcome)
      show "mem_get (mem_recordOutcome k ou m) k' = mem_get m k' \<and> window_of (mem_recordOutcome k ou m) k' = window_of m k'"
        if "k' \<noteq> k" for k' using that by (simp add: get' wk)
      show "storable e x" if "mem_get (mem_recordOutcome k ou m) k = Some x" for x using that st get' [of k] by simp
      have "counter_is (view c) (inFlightKey e k) (in_flight ?r')"
        using mirrorsD(3) [OF assms(1), of k] known by (simp add: node_cell_def)
      then show "node_cell e (view c') k (mem_get (mem_recordOutcome k ou m) k) (window_of (mem_recordOutcome k ou m) k)"
        using stored_cell [OF st, where db = "view c'" and k = k and w = ?w']
        by (simp add: get' wk v' v3 v2 counter_is_def)
      show "index_is e (view c') (mem_recordOutcome k ou m)"
        using mirrorsD(4) [OF assms(1)] known by (auto simp: index_is_def get' v' v3 v2)
    qed
  qed
qed

text \<open>The counter of a node set to \<open>n\<close> when the mirror says \<open>n\<close>.\<close>

lemma count_mirrors:
  assumes "mirrors e (view c) m" "mem_inv m'" "view c' = (view c)(inFlightKey e k \<mapsto> RString (int_str n))" "0 \<le> n"
    and "\<And>k'. mem_get m' k' = (if k' = k then map_option (set_in_flight n) (mem_get m k') else mem_get m k')"
    and "\<And>k'. window_of m' k' = window_of m k'" "mem_get m k = None \<Longrightarrow> n = 0"
  shows "mirrors e (view c') m'"
proof (rule mirrors_step [where k = k, OF assms(1)])
  show "elsewhere e (view c) (view c') k" by (simp add: elsewhere_def assms(3))
  show "mem_inv m'" by (rule assms(2))
  show "mem_get m' k' = mem_get m k' \<and> window_of m' k' = window_of m k'" if "k' \<noteq> k" for k'
    using that assms(5,6) by simp
  show "storable e x" if "mem_get m' k = Some x" for x
    using that mirrorsD(2) [OF assms(1)] storable_set_in_flight [OF _ assms(4)] by (auto simp: assms(5))
  have "set_in_flight i (set_in_flight j r) = set_in_flight i r" for i j r by (simp add: set_in_flight_def)
  then show "node_cell e (view c') k (mem_get m' k) (window_of m' k)"
    using mirrorsD(3) [OF assms(1), of k] assms(7)
    by (cases "mem_get m k") (simp_all add: node_cell_def assms(3,5,6) counter_is_def set_in_flight_def)
  show "index_is e (view c') m'"
    using mirrorsD(4) [OF assms(1)] by (auto simp: index_is_def assms(3,5))
qed

lemma begin_mirrors:
  assumes "mirrors e (view c) m" "mem_get m k \<noteq> None" "begin_cmds e rc k c = (Some u, c')"
  shows "mirrors e (view c') (mem_beginRequest k m)"
proof -
  obtain r where r: "mem_get m k = Some r" using assms(2) by auto
  obtain n where g: "rc_incr rc (inFlightKey e k) c = (Some n, c')" using assms(3) by (auto simp: begin_cmds_def cbind_Some)
  have "counter_is (view c) (inFlightKey e k) (in_flight r)"
    using mirrorsD(3) [OF assms(1), of k] r by (simp add: node_cell_def)
  with incr_ok [OF g] have v: "view c' = (view c)(inFlightKey e k \<mapsto> RString (int_str (in_flight r + 1)))"
    by (auto dest!: int_at_counter)
  show ?thesis
  proof (rule count_mirrors [OF assms(1) _ v])
    show "mem_inv (mem_beginRequest k m)" using mirrorsD(1) [OF assms(1)] by (rule mem_inv_beginRequest)
    show "0 \<le> in_flight r + 1" using storable_in_flight [OF mirrorsD(2) [OF assms(1) r]] by simp
    show "window_of (mem_beginRequest k m) k' = window_of m k'" for k'
      by (auto simp: window_of_def mem_beginRequest_def split: option.split)
  qed (use r in \<open>simp_all add: mem_get_begin\<close>)
qed

lemma end_mirrors:
  assumes "mirrors e (view c) m" "end_cmds e rc k c = (Some u, c')"
  shows "mirrors e (view c') (mem_endRequest k m)"
proof -
  let ?c = "case mem_get m k of None \<Rightarrow> 0 | Some r \<Rightarrow> in_flight r"
  obtain n c1 where g: "rc_decr rc (inFlightKey e k) c = (Some n, c1)"
    and rest: "(if n < 0 then rc_set rc (inFlightKey e k) ''0'' else cret ()) c1 = (Some u, c')"
    using assms(2) unfolding end_cmds_def cbind_Some by blast
  have "counter_is (view c) (inFlightKey e k) ?c"
    using mirrorsD(3) [OF assms(1), of k] by (cases "mem_get m k") (simp_all add: node_cell_def)
  with decr_ok [OF g] have n: "n = ?c - 1" "view c1 = (view c)(inFlightKey e k \<mapsto> RString (int_str n))"
    by (auto dest!: int_at_counter)
  have zero: "int_str 0 = ''0''" by (simp add: int_str_def radix_str.simps radix_char_def char_of_def bit_0)
  have nonneg: "0 \<le> ?c" using storable_in_flight mirrorsD(2) [OF assms(1)] by (auto split: option.split)
  have v: "view c' = (view c)(inFlightKey e k \<mapsto> RString (int_str (max 0 n)))"
  proof (cases "n < 0")
    case True
    with rest set_ok [of "inFlightKey e k" "''0''" c1 u c'] n zero show ?thesis by simp
  next
    case False
    with rest n show ?thesis by simp
  qed
  show ?thesis
  proof (rule count_mirrors [OF assms(1) _ v])
    show "mem_inv (mem_endRequest k m)" using mirrorsD(1) [OF assms(1)] by (rule mem_inv_endRequest)
    show "window_of (mem_endRequest k m) k' = window_of m k'" for k'
      by (auto simp: window_of_def mem_endRequest_def split: option.split)
    show "mem_get (mem_endRequest k m) k' = (if k' = k then map_option (set_in_flight (max 0 n)) (mem_get m k') else mem_get m k')"
      for k' using n by (cases "mem_get m k") (simp_all add: mem_get_end)
    show "max 0 n = 0" if "mem_get m k = None" using n that by simp
  qed simp
qed

end

subsection \<open>Runs of operations\<close>

datatype node_op = Upsert node_record | GetNode string | ListNodes | RemoveNode string
  | RecordOutcome string request_outcome | BeginReq string | EndReq string

datatype node_answer = Done | Found "node_record option" | Listed "node_record list"

fun mem_do :: "node_op \<Rightarrow> mem_store \<Rightarrow> mem_store \<times> node_answer" where
  "mem_do (Upsert r) m = (mem_upsert r m, Done)"
| "mem_do (GetNode k) m = (m, Found (mem_get m k))"
| "mem_do ListNodes m = (m, Listed (mem_list m))"
| "mem_do (RemoveNode k) m = (mem_remove k m, Done)"
| "mem_do (RecordOutcome k ou) m = (mem_recordOutcome k ou m, Done)"
| "mem_do (BeginReq k) m = (mem_beginRequest k m, Done)"
| "mem_do (EndReq k) m = (mem_endRequest k m, Done)"

fun rn_do :: "redis_env \<Rightarrow> 'r redis_client \<Rightarrow> node_op \<Rightarrow> 'r redis_node_store \<Rightarrow> 'r redis_node_store \<times> node_answer" where
  "rn_do e rc (Upsert r) st = (rn_upsert e rc r st, Done)"
| "rn_do e rc (GetNode k) st = (case rn_get e rc k st of (st', x) \<Rightarrow> (st', Found x))"
| "rn_do e rc ListNodes st = (case rn_list e rc st of (st', xs) \<Rightarrow> (st', Listed xs))"
| "rn_do e rc (RemoveNode k) st = (rn_remove e rc k st, Done)"
| "rn_do e rc (RecordOutcome k ou) st = (rn_recordOutcome e rc k ou st, Done)"
| "rn_do e rc (BeginReq k) st = (rn_beginRequest e rc k st, Done)"
| "rn_do e rc (EndReq k) st = (rn_endRequest e rc k st, Done)"

fun run_ops :: "('o \<Rightarrow> 's \<Rightarrow> 's \<times> 'a) \<Rightarrow> 'o list \<Rightarrow> 's \<Rightarrow> 's \<times> 'a list" where
  "run_ops f [] s = (s, [])"
| "run_ops f (x # xs) s = (case f x s of (s', a) \<Rightarrow> case run_ops f xs s' of (s'', as) \<Rightarrow> (s'', a # as))"

fun same_answer :: "node_answer \<Rightarrow> node_answer \<Rightarrow> bool" where
  "same_answer (Listed xs) (Listed ys) \<longleftrightarrow> mset xs = mset ys"
| "same_answer a b \<longleftrightarrow> a = b"

text \<open>
  What the gateway hands to the store: records that pass their own schema, no requests in flight on a
  new node, and a request begun on a node that is registered.
\<close>

fun op_legal :: "redis_env \<Rightarrow> mem_store \<Rightarrow> node_op \<Rightarrow> bool" where
  "op_legal e m (Upsert r) \<longleftrightarrow> storable e r \<and> (mem_get m (n_nodeId r) = None \<longrightarrow> in_flight r = 0)"
| "op_legal e m (BeginReq k) \<longleftrightarrow> mem_get m k \<noteq> None"
| "op_legal e m op \<longleftrightarrow> True"

fun ops_legal :: "redis_env \<Rightarrow> mem_store \<Rightarrow> node_op list \<Rightarrow> bool" where
  "ops_legal e m [] \<longleftrightarrow> True"
| "ops_legal e m (op # ops) \<longleftrightarrow> op_legal e m op \<and> ops_legal e (fst (mem_do op m)) ops"

text \<open>The mirror is the in-memory store; the server, while it is used, holds the same; one warning at most.\<close>

definition tracks :: "redis_env \<Rightarrow> ('r \<Rightarrow> redis_db) \<Rightarrow> 'r redis_node_store \<Rightarrow> mem_store \<Rightarrow> bool" where
  "tracks e view st m \<longleftrightarrow> rn_fallback st = m \<and>
     (\<not> rn_degraded st \<longrightarrow> (\<forall>c. rn_client st = Some c \<longrightarrow> mirrors e (view c) m)) \<and>
     rn_warnings st = (if rn_degraded st then 1 else 0)"

lemma run_cmd_tracks:
  assumes "tracks e view st m"
    and "\<And>c x c'. c0 c = (Some x, c') \<Longrightarrow> mirrors e (view c) m \<Longrightarrow> mirrors e (view c') m \<and> ok x (fallback m)"
    and "\<And>x. ok x x"
  shows "tracks e view (fst (run_cmd c0 fallback st)) m \<and> ok (snd (run_cmd c0 fallback st)) (fallback m)"
  using assms
  by (auto simp: run_cmd_def tracks_def degrade_def Let_def split: option.splits prod.splits)

lemma write_tracks:
  assumes "tracks e view st m"
    and "\<And>c u c'. c0 c = (Some u, c') \<Longrightarrow> mirrors e (view c) m \<Longrightarrow> mirrors e (view c') (f m)"
  shows "tracks e view (write_through f c0 st) (f m)"
  using assms
  by (auto simp: write_through_def run_cmd_def tracks_def degrade_def Let_def split: option.splits prod.splits)

lemma op_tracks:
  assumes "redis rc view" "codec_ok (re_json e)" "tracks e view st m" "op_legal e m op"
    and "rn_do e rc op st = (st', a)" "mem_do op m = (m', b)"
  shows "tracks e view st' m' \<and> same_answer a b"
proof (cases op)
  case (Upsert r)
  have "tracks e view (rn_upsert e rc r st) (mem_upsert r m)"
    unfolding rn_upsert_def using redis.upsert_mirrors [OF assms(1) _ assms(2)] assms(4) Upsert
    by (intro write_tracks [OF assms(3)]) auto
  with Upsert assms(5,6) show ?thesis by auto
next
  case (GetNode k)
  have "tracks e view (fst (rn_get e rc k st)) m \<and> snd (rn_get e rc k st) = mem_get m k"
    unfolding rn_get_def using redis.read_record [OF assms(1) _ assms(2)]
    by (intro run_cmd_tracks [OF assms(3), where ok = "(=)"]) auto
  with GetNode assms(5,6) show ?thesis by (auto split: prod.splits)
next
  case ListNodes
  have "tracks e view (fst (rn_list e rc st)) m \<and> mset (snd (rn_list e rc st)) = mset (mem_list m)"
    unfolding rn_list_def using redis.list_reads [OF assms(1) _ assms(2)]
    by (intro run_cmd_tracks [OF assms(3), where ok = "\<lambda>x y. mset x = mset y"]) auto
  with ListNodes assms(5,6) show ?thesis by (auto split: prod.splits)
next
  case (RemoveNode k)
  have "tracks e view (rn_remove e rc k st) (mem_remove k m)"
    unfolding rn_remove_def using redis.remove_mirrors [OF assms(1)] by (intro write_tracks [OF assms(3)]) auto
  with RemoveNode assms(5,6) show ?thesis by auto
next
  case (RecordOutcome k ou)
  have "tracks e view (rn_recordOutcome e rc k ou st) (mem_recordOutcome k ou m)"
    unfolding rn_recordOutcome_def using redis.outcome_mirrors [OF assms(1) _ assms(2)]
    by (intro write_tracks [OF assms(3)]) auto
  with RecordOutcome assms(5,6) show ?thesis by auto
next
  case (BeginReq k)
  have "tracks e view (rn_beginRequest e rc k st) (mem_beginRequest k m)"
    unfolding rn_beginRequest_def using redis.begin_mirrors [OF assms(1)] assms(4) BeginReq
    by (intro write_tracks [OF assms(3)]) auto
  with BeginReq assms(5,6) show ?thesis by auto
next
  case (EndReq k)
  have "tracks e view (rn_endRequest e rc k st) (mem_endRequest k m)"
    unfolding rn_endRequest_def using redis.end_mirrors [OF assms(1)] by (intro write_tracks [OF assms(3)]) auto
  with EndReq assms(5,6) show ?thesis by auto
qed

lemma ops_track:
  assumes "redis rc view" "codec_ok (re_json e)" "tracks e view st m" "ops_legal e m ops"
  shows "tracks e view (fst (run_ops (rn_do e rc) ops st)) (fst (run_ops mem_do ops m)) \<and>
    list_all2 same_answer (snd (run_ops (rn_do e rc) ops st)) (snd (run_ops mem_do ops m))"
  using assms(3,4)
proof (induction ops arbitrary: st m)
  case (Cons op ops)
  obtain st' a m' b where s: "rn_do e rc op st = (st', a)" "mem_do op m = (m', b)" by (metis surj_pair)
  with op_tracks [OF assms(1,2) Cons.prems(1) _ s] Cons.prems(2)
  have r: "tracks e view st' m'" "same_answer a b" "ops_legal e m' ops" by auto
  from Cons.IH [OF r(1,3)] s r(2) show ?case by (auto split: prod.splits)
qed simp

fun any_do :: "redis_env \<Rightarrow> 'r redis_client \<Rightarrow> node_op \<Rightarrow> 'r any_store \<Rightarrow> 'r any_store \<times> node_answer" where
  "any_do e rc op (InMemory m) = (case mem_do op m of (m', a) \<Rightarrow> (InMemory m', a))"
| "any_do e rc op (InRedis st) = (case rn_do e rc op st of (st', a) \<Rightarrow> (InRedis st', a))"

lemma run_any:
  "run_ops (any_do e rc) ops (InMemory m) = (case run_ops mem_do ops m of (m', as) \<Rightarrow> (InMemory m', as))"
  "run_ops (any_do e rc) ops (InRedis st) = (case run_ops (rn_do e rc) ops st of (st', as) \<Rightarrow> (InRedis st', as))"
  by (induction ops arbitrary: m st) (auto split: prod.splits)

lemma same_answer_refl: "list_all2 same_answer as as"
proof (induction as)
  case (Cons a as)
  then show ?case by (cases a) auto
qed simp

lemma empty_mirrors: "mirrors e (\<lambda>_. None) mem_empty"
proof -
  have "mem_get mem_empty k = None" "window_of mem_empty k = []" for k
    by (simp_all add: mem_get_def mem_empty_def window_of_def)
  then show ?thesis
    by (auto simp: mirrors_def node_cell_def counter_is_def index_is_def str_at_def list_at_def set_at_def)
qed

lemma connected_tracks:
  assumes "redis rc view" "rn_connect rc (rn_new (Some c)) = (st, True)" "view c = (\<lambda>_. None)"
  shows "tracks e view st mem_empty"
  using assms(2) redis.connect_ok [OF assms(1)] assms(3) empty_mirrors [of e]
  by (auto simp: rn_connect_def rn_new_def Let_def tracks_def split: option.splits prod.splits)

subsection \<open>What the gateway writes is legal\<close>

lemma registered_storable:
  assumes "sdk_ok (re_avm e)" "NodeRegistrationSchema (re_avm e) (re_parse e) v = Some g"
  shows "registration_storable e g"
  using registration_reparse [OF assms] by (simp add: registration_storable_def)

lemma built_record_legal:
  assumes "registration_storable e g" "0 \<le> now" "now < 2 ^ 53" "0 < g_maxConcurrentPerNode cfg" "g_maxConcurrentPerNode cfg \<le> 4096"
    and "\<And>x. mem_get m (r_nodeId g) = Some x \<Longrightarrow> storable e x"
  shows "op_legal e m (Upsert (buildRecord g (mem_get m (r_nodeId g)) opted cfg now))"
proof -
  have "node_id_ok (r_nodeId g)"
    using assms(1) by (auto simp: registration_storable_def NodeRegistrationSchema_def z_string_Some split: Option.bind_splits)
  then have nid: "len_between 1 128 (r_nodeId g)" by (simp add: node_id_ok_def)
  have seen: "js_int now = Fin (of_int now)" using assms(2,3) by (simp add: js_int_small)
  show ?thesis
  proof (cases "mem_get m (r_nodeId g)")
    case None
    with assms nid seen show ?thesis
      by (simp add: storable_iff health_ok_def buildRecord_def or_else_def num_in_def unit_num_def wire_digits_def is_digit_def code_def)
  next
    case (Some x)
    with assms nid seen show ?thesis
      by (simp add: storable_iff health_ok_def buildRecord_def or_else_def num_in_def)
  qed
qed

lemma beat_record_legal:
  assumes "storable e x" "mem_get m (n_nodeId x) = Some x" "0 \<le> now" "now < 2 ^ 53"
  shows "op_legal e m (Upsert (alive_at now x))"
proof -
  have "js_int now = Fin (of_int now)" using assms(3,4) by (simp add: js_int_small)
  with assms show ?thesis by (simp add: alive_at_def storable_iff health_ok_def num_in_def)
qed

subsection \<open>The property\<close>

text \<open>
  C13: Redis is transparent: whatever URL is configured, whether the client can be built or connected,
  and at whichever command Redis stops answering, the store that `createNodeStore` returns, starting
  from an empty key space that no one else writes, answers every read of a run of legal operations as
  the in-memory store does (listings up to order), and logs the degradation at most once.
\<close>

theorem redis_failover_transparent:
  assumes "redis rc view" and "codec_ok (re_json e)" and "\<And>url c. factory url = Some c \<Longrightarrow> view c = (\<lambda>_. None)"
    and "ops_legal e mem_empty ops"
    and "run_ops (any_do e rc) ops (createNodeStore rc factory redisUrl) = (store, answers)"
  shows "list_all2 same_answer answers (snd (run_ops mem_do ops mem_empty)) \<and>
    (\<forall>st. store = InRedis st \<longrightarrow> rn_warnings st \<le> 1)"
proof (cases "createNodeStore rc factory redisUrl")
  case (InMemory m)
  then have m: "m = mem_empty" by (auto simp: createNodeStore_def Let_def split: option.splits if_splits prod.splits bool.splits)
  with assms(5) same_answer_refl show ?thesis by (auto simp: InMemory run_any split: prod.splits)
next
  case (InRedis st)
  obtain c u where c: "factory u = Some c" "rn_connect rc (rn_new (factory u)) = (st, True)"
  proof -
    have "factory u = None \<Longrightarrow> \<not> snd (rn_connect rc (rn_new (factory u)))" for u
      by (simp add: rn_connect_def rn_new_def degrade_def)
    with InRedis that show thesis
      by (auto simp: createNodeStore_def Let_def split: if_splits prod.splits bool.splits option.splits) (metis not_None_eq snd_conv)+
  qed
  have "tracks e view st mem_empty" using connected_tracks [OF assms(1)] c assms(3) by metis
  from ops_track [OF assms(1,2) this assms(4)] assms(5) show ?thesis
    by (auto simp: InRedis run_any tracks_def split: prod.splits)
qed

definition demo_redis_env :: redis_env where
  "demo_redis_env = \<lparr>re_avm = demo_avm, re_parse = any_url, re_json = demo_codec, re_prefix = ''x402mesh''\<rparr>"

definition demo_node :: node_record where
  "demo_node = buildRecord (ex_reg (CHR ''A'')) None True ex_config 1000"

definition demo_ops :: "node_op list" where
  "demo_ops = [Upsert demo_node, BeginReq ''n1'', RecordOutcome ''n1'' \<lparr>o_success = True, o_latencyMs = Fin 20, o_at = Fin 2000\<rparr>,
     GetNode ''n1'', EndReq ''n1'', ListNodes]"

lemma demo_node_legal: "op_legal demo_redis_env mem_empty (Upsert demo_node)"
proof -
  have "\<exists>v. NodeRegistrationSchema demo_avm any_url v = Some (ex_reg (CHR ''A''))"
    using ex_reg_parses [of "CHR ''A''"]
    by (auto simp: SignedNodeRegistrationSchema_def ex_envelope_def split: Option.bind_splits)
  then have reg: "registration_storable demo_redis_env (ex_reg (CHR ''A''))"
    using registered_storable [of demo_redis_env] demo_sdk_ok by (auto simp: demo_redis_env_def)
  have none: "mem_get mem_empty k = None" for k by (simp add: mem_get_def mem_empty_def)
  from built_record_legal [OF reg, of 1000 ex_config mem_empty True] show ?thesis
    by (simp add: none demo_node_def ex_config_def)
qed

lemma redis_failover_transparent_witness:
  "list_all2 same_answer
     (snd (run_ops (any_do demo_redis_env server_client) demo_ops
        (createNodeStore server_client (\<lambda>_. Some \<lparr>srv_db = (\<lambda>_. None), srv_left = 9\<rparr>) (Some ''redis://r''))))
     (snd (run_ops mem_do demo_ops mem_empty))"
proof -
  have "codec_ok (re_json demo_redis_env)" by (simp add: demo_redis_env_def demo_codec_ok)
  moreover have "ops_legal demo_redis_env mem_empty demo_ops"
    using demo_node_legal by (simp add: demo_ops_def mem_get_upsert) (simp add: demo_node_def buildRecord_def ex_reg_def)
  ultimately show ?thesis
    using redis_failover_transparent [OF server.redis_axioms, where e = demo_redis_env and ops = demo_ops
      and factory = "\<lambda>_. Some \<lparr>srv_db = (\<lambda>_. None), srv_left = 9\<rparr>", OF _ _ _ surjective_pairing] by auto
qed

end
