(* ===== verification/RedisLedger.thy ===== *)
theory RedisLedger
  imports RedisStore
begin

section \<open>The durable ledger and accruals (registry/src/store/ledger.ts, accruals.ts)\<close>

text \<open>
  \<open>RedisLedgerStore\<close>: one key per request and a capped list of request ids, newest first.
  \<open>RedisAccrualStore\<close>: one key per open accrual and per batch, and an index set of each kind. A
  rejected command ends the operation there: the error goes to the settlement service, which logs it.
\<close>

subsection \<open>The ledger store\<close>

definition ledgerKey :: "string \<Rightarrow> string \<Rightarrow> string" where "ledgerKey p rid = p @ '':ledger:record:'' @ rid"
definition orderKey :: "string \<Rightarrow> string" where "orderKey p = p @ '':ledger:order''"

definition ledger_put ::
  "string \<Rightarrow> json_codec \<Rightarrow> 'r redis_client \<Rightarrow> string \<Rightarrow> jsval \<Rightarrow> int \<Rightarrow> ('r, unit) cmd" where
  "ledger_put p jc rc rid rec maxEntries =
     cbind (rc_get rc (ledgerKey p rid)) (\<lambda>found.
     cbind (rc_set rc (ledgerKey p rid) (jc_stringify jc rec)) (\<lambda>_.
       if found \<noteq> None then cret ()
       else cbind (rc_lpush rc (orderKey p) rid) (\<lambda>_.
            cbind (rc_lrange rc (orderKey p) maxEntries (-1)) (\<lambda>overflow.
              if overflow = [] then cret ()
              else cbind (rc_ltrim rc (orderKey p) 0 (maxEntries - 1)) (\<lambda>_.
                     rc_del rc (map (ledgerKey p) overflow))))))"

definition parse_rows :: "json_codec \<Rightarrow> string option list \<Rightarrow> jsval list" where
  "parse_rows jc raw = List.map_filter (\<lambda>v. obind v (jc_parse jc)) raw"

definition ledger_loadRecent :: "string \<Rightarrow> json_codec \<Rightarrow> 'r redis_client \<Rightarrow> int \<Rightarrow> ('r, jsval list) cmd" where
  "ledger_loadRecent p jc rc limit =
     cbind (rc_lrange rc (orderKey p) 0 (limit - 1)) (\<lambda>ids.
       if ids = [] then cret []
       else cbind (rc_mget rc (map (ledgerKey p) ids)) (\<lambda>raw. cret (parse_rows jc raw)))"

text \<open>The specification: rows newest first, an update in place, a new row in front, the oldest dropped.\<close>

definition spec_put :: "nat \<Rightarrow> string \<Rightarrow> jsval \<Rightarrow> (string, jsval) jsmap \<Rightarrow> (string, jsval) jsmap" where
  "spec_put n rid rec rows =
     (if jhas rows rid then map (\<lambda>(k, v). if k = rid then (k, rec) else (k, v)) rows
      else take n ((rid, rec) # rows))"

lemma ledger_keys [simp]:
  "ledgerKey p a = ledgerKey p b \<longleftrightarrow> a = b" "ledgerKey p a \<noteq> orderKey p" "orderKey p \<noteq> ledgerKey p a"
  by (simp_all add: ledgerKey_def orderKey_def)

definition ledger_holds :: "string \<Rightarrow> json_codec \<Rightarrow> nat \<Rightarrow> redis_db \<Rightarrow> (string, jsval) jsmap \<Rightarrow> bool" where
  "ledger_holds p jc n db rows \<longleftrightarrow> jwf rows \<and> length rows \<le> n \<and> list_all (json_value \<circ> snd) rows \<and>
     list_at db (orderKey p) = Some (jkeys rows) \<and>
     (\<forall>rid. str_at db (ledgerKey p rid) = Some (map_option (jc_stringify jc) (jget rows rid)))"

lemma jget_update: "jget (map (\<lambda>(k, v). if k = rid then (k, rec) else (k, v)) rows) k =
    (if k = rid then map_option (\<lambda>_. rec) (jget rows rid) else jget rows k)"
  by (induction rows) auto

lemma fst_update [simp]: "fst \<circ> (\<lambda>(k, v). if k = rid then (k, rec) else (k, v)) = fst"
  by (auto simp: fun_eq_iff)

lemma list_all_take: "list_all P xs \<Longrightarrow> list_all P (take n xs)"
  by (meson in_set_takeD list_all_iff)

lemma jget_take: "jwf rows \<Longrightarrow> jget (take n rows) k = (if k \<in> set (jkeys (drop n rows)) then None else jget rows k)"
proof -
  assume wf: "jwf rows"
  have "jget rows k = (case jget (take n rows) k of None \<Rightarrow> jget (drop n rows) k | Some v \<Rightarrow> Some v)"
    by (subst append_take_drop_id [of n rows, symmetric], subst map_of_append) (simp add: map_add_def)
  moreover have "set (jkeys (take n rows)) \<inter> set (jkeys (drop n rows)) = {}"
    using wf set_take_disj_set_drop_if_distinct [of "jkeys rows" n n] by (simp only: jwf_def take_map drop_map le_refl)
  moreover have "k \<notin> set (jkeys (drop n rows)) \<Longrightarrow> jget (drop n rows) k = None"
    "k \<notin> set (jkeys (take n rows)) \<Longrightarrow> jget (take n rows) k = None"
    by (simp_all only: map_of_eq_None_iff set_map not_False_eq_True)
  ultimately show ?thesis by (cases "k \<in> set (jkeys (drop n rows))") (auto simp del: set_map split: option.split)
qed

context redis
begin

lemma put_holds:
  assumes "ledger_holds p jc n (view c) rows" "json_value rec" "0 < n"
    and "ledger_put p jc rc rid rec (int n) c = (Some u, c')"
  shows "ledger_holds p jc n (view c') (spec_put n rid rec rows)"
proof -
  obtain found c1 c2 where g: "rc_get rc (ledgerKey p rid) c = (Some found, c1)"
      "rc_set rc (ledgerKey p rid) (jc_stringify jc rec) c1 = (Some (), c2)"
    and rest: "(if found \<noteq> None then cret ()
       else cbind (rc_lpush rc (orderKey p) rid) (\<lambda>_.
            cbind (rc_lrange rc (orderKey p) (int n) (-1)) (\<lambda>overflow.
              if overflow = [] then cret ()
              else cbind (rc_ltrim rc (orderKey p) 0 (int n - 1)) (\<lambda>_.
                     rc_del rc (map (ledgerKey p) overflow))))) c2 = (Some u, c')"
    using assms(4) unfolding ledger_put_def cbind_Some by auto
  have h: "jwf rows" "length rows \<le> n" "list_all (json_value \<circ> snd) rows" "list_at (view c) (orderKey p) = Some (jkeys rows)"
      "\<And>k. str_at (view c) (ledgerKey p k) = Some (map_option (jc_stringify jc) (jget rows k))"
    using assms(1) by (simp_all add: ledger_holds_def)
  have v2: "view c2 = (view c)(ledgerKey p rid \<mapsto> RString (jc_stringify jc rec))"
    using set_ok [OF g(2)] get_ok [OF g(1)] by simp
  have found: "found = map_option (jc_stringify jc) (jget rows rid)" using get_ok [OF g(1)] h(5) by simp
  show ?thesis
  proof (cases "jget rows rid")
    case (Some old)
    then have "view c' = view c2" using rest found by simp
    moreover have "list_all (json_value \<circ> snd) (spec_put n rid rec rows)"
      using h(3) assms(2) Some by (auto simp: spec_put_def list_all_iff jhas_iff)
    ultimately show ?thesis
      using h Some
      by (auto simp: ledger_holds_def v2 spec_put_def jget_update jwf_def jhas_iff str_at_def)
  next
    case None
    then have new: "rid \<notin> set (jkeys rows)" by (simp add: map_of_eq_None_iff)
    let ?all = "(rid, rec) # rows"
    have wf: "jwf ?all" using h(1) new by (simp add: jwf_def)
    have spec: "spec_put n rid rec rows = take n ?all" using None by (simp add: spec_put_def jhas_iff)
    have vals: "list_all (json_value \<circ> snd) (take n ?all)"
      using list_all_take [of "json_value \<circ> snd" ?all n] h(3) assms(2) by simp
    have wft: "jwf (take n ?all)" using wf unfolding jwf_def take_map [symmetric] by (rule distinct_take)
    obtain c3 where p3: "rc_lpush rc (orderKey p) rid c2 = (Some (), c3)"
      and rest3: "cbind (rc_lrange rc (orderKey p) (int n) (-1)) (\<lambda>overflow.
              if overflow = [] then cret ()
              else cbind (rc_ltrim rc (orderKey p) 0 (int n - 1)) (\<lambda>_.
                     rc_del rc (map (ledgerKey p) overflow))) c3 = (Some u, c')"
      using rest None found by (auto simp: cbind_Some)
    have v3: "view c3 = put_list (orderKey p) (jkeys ?all) (view c2)"
      using lpush_ok [OF p3] h(4) by (auto simp: v2)
    have all3: "str_at (view c3) (ledgerKey p k) = Some (map_option (jc_stringify jc) (jget ?all k))" for k
      using h(5) [of k] by (auto simp: v3 v2)
    obtain over c4 where p4: "rc_lrange rc (orderKey p) (int n) (-1) c3 = (Some over, c4)"
      and rest4: "(if over = [] then cret () else cbind (rc_ltrim rc (orderKey p) 0 (int n - 1)) (\<lambda>_.
                     rc_del rc (map (ledgerKey p) over))) c4 = (Some u, c')"
      using rest3 unfolding cbind_Some by blast
    have over: "over = jkeys (drop n ?all)" "view c4 = view c3"
      using lrange_ok [OF p4] by (auto simp: v3 redis_slice_rest drop_map [symmetric])
    show ?thesis
    proof (cases "over = []")
      case True
      then have "take n ?all = ?all" using over(1) by simp
      moreover have "view c' = view c3" using True rest4 over(2) by simp
      ultimately show ?thesis
        using wft vals all3 True over(1) unfolding ledger_holds_def spec by (simp add: v3)
    next
      case False
      then obtain c5 where p5: "rc_ltrim rc (orderKey p) 0 (int n - 1) c4 = (Some (), c5)"
          "rc_del rc (map (ledgerKey p) over) c5 = (Some u, c')"
        using rest4 by (auto simp: cbind_Some)
      have v5: "view c5 = put_list (orderKey p) (take n (jkeys ?all)) (view c3)"
        using ltrim_ok [OF p5(1)] over(2) by (auto simp: v3 redis_slice_first [OF assms(3)])
      have v': "view c' = (\<lambda>k. if k \<in> set (map (ledgerKey p) over) then None else view c5 k)" by (rule del_ok [OF p5(2)])
      have order: "list_at (view c') (orderKey p) = Some (jkeys (take n ?all))"
        using at_put(1) [of "orderKey p" "take n (jkeys ?all)" "view c3"]
        by (simp add: v' v5 list_at_def image_iff take_map [symmetric])
      have rows': "str_at (view c') (ledgerKey p k) = Some (map_option (jc_stringify jc) (jget (take n ?all) k))" for k
      proof (cases "k \<in> set over")
        case True
        then have "view c' (ledgerKey p k) = None" by (simp add: v')
        with True jget_take [OF wf, of n k] over(1) show ?thesis by (simp add: str_at_def)
      next
        case False
        then have "view c' (ledgerKey p k) = view c3 (ledgerKey p k)" by (auto simp: v' v5)
        then have "str_at (view c') (ledgerKey p k) = str_at (view c3) (ledgerKey p k)" by (simp add: str_at_def)
        with all3 [of k] jget_take [OF wf, of n k] False over(1) show ?thesis by simp
      qed
      show ?thesis using wft vals order rows' unfolding ledger_holds_def spec by simp
    qed
  qed
qed

lemma recent_rows:
  assumes "ledger_holds p jc n (view c) rows" "codec_ok jc" "0 < limit"
    and "ledger_loadRecent p jc rc (int limit) c = (Some out, c')"
  shows "out = jvals (take limit rows) \<and> view c' = view c"
proof -
  obtain ids c1 where g: "rc_lrange rc (orderKey p) 0 (int limit - 1) c = (Some ids, c1)"
    and rest: "(if ids = [] then cret [] else cbind (rc_mget rc (map (ledgerKey p) ids)) (\<lambda>raw. cret (parse_rows jc raw))) c1 = (Some out, c')"
    using assms(4) unfolding ledger_loadRecent_def cbind_Some by blast
  have h: "jwf rows" "list_all (json_value \<circ> snd) rows" "list_at (view c) (orderKey p) = Some (jkeys rows)"
      "\<And>k. str_at (view c) (ledgerKey p k) = Some (map_option (jc_stringify jc) (jget rows k))"
    using assms(1) by (simp_all add: ledger_holds_def)
  have ids: "ids = jkeys (take limit rows)" "view c1 = view c"
    using lrange_ok [OF g] h(3) by (auto simp: redis_slice_first [OF assms(3)] take_map)
  have one: "obind (map_option (jc_stringify jc) (jget rows k)) (jc_parse jc) = Some v" if "(k, v) \<in> set rows" for k v
    using that h(1,2) assms(2) jget_in_set [OF h(1), of k v] by (auto simp: codec_ok_def list_all_iff)
  have rows: "parse_rows jc (map (\<lambda>k. map_option (jc_stringify jc) (jget rows k)) (jkeys rs)) = jvals rs"
    if "set rs \<subseteq> set rows" for rs
    using that one by (induction rs) (auto simp: parse_rows_def List.map_filter_simps)
  show ?thesis
  proof (cases "ids = []")
    case True
    then show ?thesis using rest ids by simp
  next
    case False
    then obtain raw where m: "rc_mget rc (map (ledgerKey p) ids) c1 = (Some raw, c')" "out = parse_rows jc raw"
      using rest by (auto simp: cbind_Some)
    have raw: "raw = map (\<lambda>k. map_option (jc_stringify jc) (jget rows k)) ids" "view c' = view c"
      using mget_ok [OF m(1)] h(4) ids(2) by (simp_all add: comp_def)
    show ?thesis using rows [of "take limit rows"] set_take_subset [of limit rows] raw m(2) ids(1) by simp
  qed
qed

end

subsection \<open>The accrual store\<close>

record stored_accrual =
  sa_operatorAddress :: string
  sa_records :: "jsval list"
  sa_firstAt :: jsnum
  sa_batchId :: "string option"

definition accrual_json :: "stored_accrual \<Rightarrow> jsval" where
  "accrual_json a = JObj
     ([(''operatorAddress'', JStr (sa_operatorAddress a)), (''records'', JArr (sa_records a)),
       (''firstAt'', JNum (sa_firstAt a))] @
      (case sa_batchId a of None \<Rightarrow> [] | Some b \<Rightarrow> [(''batchId'', JStr b)]))"

definition openKey :: "string \<Rightarrow> string \<Rightarrow> string" where "openKey p address = p @ '':accrual:open:'' @ address"
definition batchKey :: "string \<Rightarrow> string \<Rightarrow> string" where "batchKey p batchId = p @ '':accrual:batch:'' @ batchId"
definition openIndex :: "string \<Rightarrow> string" where "openIndex p = p @ '':accrual:open''"
definition batchIndex :: "string \<Rightarrow> string" where "batchIndex p = p @ '':accrual:batches''"

definition putOpen :: "string \<Rightarrow> json_codec \<Rightarrow> 'r redis_client \<Rightarrow> stored_accrual \<Rightarrow> ('r, unit) cmd" where
  "putOpen p jc rc a =
     cbind (rc_set rc (openKey p (sa_operatorAddress a)) (jc_stringify jc (accrual_json a))) (\<lambda>_.
       rc_sadd rc (openIndex p) (sa_operatorAddress a))"

definition removeOpen :: "string \<Rightarrow> 'r redis_client \<Rightarrow> string \<Rightarrow> ('r, unit) cmd" where
  "removeOpen p rc address =
     cbind (rc_del rc [openKey p address]) (\<lambda>_. rc_srem rc (openIndex p) address)"

text \<open>The argument type of \<open>putBatch\<close> has a batch id: \<open>bid\<close> is that member.\<close>

definition putBatch :: "string \<Rightarrow> json_codec \<Rightarrow> 'r redis_client \<Rightarrow> stored_accrual \<Rightarrow> string \<Rightarrow> ('r, unit) cmd" where
  "putBatch p jc rc a bid =
     cbind (rc_set rc (batchKey p bid) (jc_stringify jc (accrual_json (a\<lparr>sa_batchId := Some bid\<rparr>)))) (\<lambda>_.
       rc_sadd rc (batchIndex p) bid)"

definition removeBatch :: "string \<Rightarrow> 'r redis_client \<Rightarrow> string \<Rightarrow> ('r, unit) cmd" where
  "removeBatch p rc batchId =
     cbind (rc_del rc [batchKey p batchId]) (\<lambda>_. rc_srem rc (batchIndex p) batchId)"

text \<open>One row of \<open>#readMany\<close>: an object with a string \<open>operatorAddress\<close> and an array of records.\<close>

definition read_row :: "json_codec \<Rightarrow> string option \<Rightarrow> jsval option" where
  "read_row jc raw = obind raw (\<lambda>s. case jc_parse jc s of
      Some (JObj kv) \<Rightarrow>
        (case (member_of kv ''operatorAddress'', member_of kv ''records'') of
           (JStr _, JArr _) \<Rightarrow> Some (JObj kv) | _ \<Rightarrow> None)
    | _ \<Rightarrow> None)"

definition readMany :: "json_codec \<Rightarrow> 'r redis_client \<Rightarrow> string list \<Rightarrow> ('r, jsval option list) cmd" where
  "readMany jc rc keys = (if keys = [] then cret [] else cbind (rc_mget rc keys) (\<lambda>raw. cret (map (read_row jc) raw)))"

definition has_batch_id :: "jsval \<Rightarrow> bool" where
  "has_batch_id v = (case v of JObj kv \<Rightarrow> (case member_of kv ''batchId'' of JStr b \<Rightarrow> b \<noteq> [] | _ \<Rightarrow> False) | _ \<Rightarrow> False)"

definition loadAll :: "string \<Rightarrow> json_codec \<Rightarrow> 'r redis_client \<Rightarrow> ('r, jsval list \<times> jsval list) cmd" where
  "loadAll p jc rc =
     cbind (rc_smembers rc (openIndex p)) (\<lambda>openIds.
     cbind (rc_smembers rc (batchIndex p)) (\<lambda>batchIds.
     cbind (readMany jc rc (map (openKey p) openIds)) (\<lambda>orows.
     cbind (readMany jc rc (map (batchKey p) batchIds)) (\<lambda>batches.
       cret (List.map_filter id orows, filter has_batch_id (List.map_filter id batches))))))"

subsection \<open>A collection under keys with an index\<close>

definition coll_holds ::
  "(string \<Rightarrow> string) \<Rightarrow> string \<Rightarrow> json_codec \<Rightarrow> redis_db \<Rightarrow> (string, jsval) jsmap \<Rightarrow> bool" where
  "coll_holds K ix jc db m \<longleftrightarrow> jwf m \<and>
     (\<forall>k. str_at db (K k) = Some (map_option (jc_stringify jc) (jget m k))) \<and>
     (\<exists>xs. set_at db ix = Some xs \<and> distinct xs \<and> (\<forall>k. k \<in> set xs \<longleftrightarrow> jget m k \<noteq> None))"

lemma map_filter_Some: "List.map_filter id (map Some ys) = ys"
  by (induction ys) (simp_all add: List.map_filter_simps)

lemma mset_map_filter: "mset xs = mset ys \<Longrightarrow> mset (List.map_filter f xs) = mset (List.map_filter f ys)"
  by (simp add: List.map_filter_def)

definition row_shape :: "jsval \<Rightarrow> bool" where
  "row_shape v = (case v of
      JObj kv \<Rightarrow> (case (member_of kv ''operatorAddress'', member_of kv ''records'') of
         (JStr _, JArr _) \<Rightarrow> True | _ \<Rightarrow> False)
    | _ \<Rightarrow> False)"

lemma coll_frame:
  "coll_holds K ix jc db m \<Longrightarrow> (\<And>k. db' (K k) = db (K k)) \<Longrightarrow> db' ix = db ix \<Longrightarrow> coll_holds K ix jc db' m"
  by (simp add: coll_holds_def str_at_def set_at_def)

context redis
begin

lemma coll_put:
  assumes "coll_holds K ix jc (view c) m" "inj K" "\<And>k. K k \<noteq> ix"
    and "cbind (rc_set rc (K k) (jc_stringify jc v)) (\<lambda>_. rc_sadd rc ix k) c = (Some u, c')"
  shows "coll_holds K ix jc (view c') (jset k v m)" "\<And>j. j \<noteq> K k \<Longrightarrow> j \<noteq> ix \<Longrightarrow> view c' j = view c j"
proof -
  obtain c1 where g: "rc_set rc (K k) (jc_stringify jc v) c = (Some (), c1)" "rc_sadd rc ix k c1 = (Some u, c')"
    using assms(4) by (auto simp: cbind_Some)
  obtain xs where xs: "set_at (view c) ix = Some xs" "distinct xs" "\<forall>k. k \<in> set xs \<longleftrightarrow> jget m k \<noteq> None"
    using assms(1) by (auto simp: coll_holds_def)
  have v: "view c' = put_set ix (add_member k xs) ((view c)(K k \<mapsto> RString (jc_stringify jc v)))"
    using sadd_ok [OF g(2)] set_ok [OF g(1)] xs(1) assms(3) [of k] by auto
  have "str_at (view c') (K k') = Some (map_option (jc_stringify jc) (jget (jset k v m) k'))" for k'
    using assms(1,3) by (cases "k' = k") (simp_all add: v coll_holds_def jget_jset inj_eq [OF assms(2)])
  moreover have "\<forall>k'. k' \<in> set (add_member k xs) \<longleftrightarrow> jget (jset k v m) k' \<noteq> None"
    using xs(3) by (simp add: jget_jset)
  ultimately show "coll_holds K ix jc (view c') (jset k v m)"
    using assms(1) xs(2) unfolding coll_holds_def by (auto simp: v intro: jwf_jset)
  show "\<And>j. j \<noteq> K k \<Longrightarrow> j \<noteq> ix \<Longrightarrow> view c' j = view c j" by (simp add: v)
qed

lemma coll_remove:
  assumes "coll_holds K ix jc (view c) m" "inj K" "\<And>k. K k \<noteq> ix"
    and "cbind (rc_del rc [K k]) (\<lambda>_. rc_srem rc ix k) c = (Some u, c')"
  shows "coll_holds K ix jc (view c') (jdel k m)" "\<And>j. j \<noteq> K k \<Longrightarrow> j \<noteq> ix \<Longrightarrow> view c' j = view c j"
proof -
  obtain c1 where g: "rc_del rc [K k] c = (Some (), c1)" "rc_srem rc ix k c1 = (Some u, c')"
    using assms(4) by (auto simp: cbind_Some)
  obtain xs where xs: "set_at (view c) ix = Some xs" "distinct xs" "\<forall>k. k \<in> set xs \<longleftrightarrow> jget m k \<noteq> None"
    using assms(1) by (auto simp: coll_holds_def)
  have v1: "view c1 = (view c)(K k := None)" using del_ok [OF g(1)] by auto
  have v: "view c' = put_set ix (removeAll k xs) ((view c)(K k := None))"
    using srem_ok [OF g(2)] xs(1) assms(3) [of k] by (auto simp: v1)
  have "str_at (view c') (K k') = Some (map_option (jc_stringify jc) (jget (jdel k m) k'))" for k'
    using assms(1,3) by (cases "k' = k") (simp_all add: v coll_holds_def jget_jdel inj_eq [OF assms(2)])
  moreover have "\<forall>k'. k' \<in> set (removeAll k xs) \<longleftrightarrow> jget (jdel k m) k' \<noteq> None"
    using xs(3) by (simp add: jget_jdel)
  ultimately show "coll_holds K ix jc (view c') (jdel k m)"
    using assms(1) xs(2) unfolding coll_holds_def by (auto simp: v distinct_removeAll intro: jwf_jdel)
  show "\<And>j. j \<noteq> K k \<Longrightarrow> j \<noteq> ix \<Longrightarrow> view c' j = view c j" by (simp add: v)
qed

lemma coll_read:
  assumes "coll_holds K ix jc (view c) m" "codec_ok jc" "\<forall>v \<in> set (jvals m). json_value v \<and> row_shape v"
    and "rc_smembers rc ix c0 = (Some ids, c1)" "view c0 = view c" "view c2 = view c"
    and "readMany jc rc (map K ids) c2 = (Some rows, c3)"
  shows "mset (List.map_filter id rows) = mset (jvals m) \<and> view c3 = view c"
proof -
  obtain xs where xs: "set_at (view c) ix = Some xs" "distinct xs" "\<And>k. k \<in> set xs \<longleftrightarrow> jget m k \<noteq> None"
    using assms(1) by (auto simp: coll_holds_def)
  have ids: "mset ids = mset xs" using smembers_ok [OF assms(4)] xs(1) assms(5) by auto
  have wf: "jwf m" using assms(1) by (simp add: coll_holds_def)
  have "set ids = set (jkeys m)" using mset_eq_setD [OF ids] xs(3) by (simp add: set_eq_iff jhas_iff)
  moreover have "distinct ids" using xs(2) mset_eq_imp_distinct_iff [OF ids] by simp
  ultimately have keys: "mset ids = mset (jkeys m)" using wf set_eq_iff_mset_eq_distinct [of ids "jkeys m"] unfolding jwf_def by blast
  have row: "read_row jc (map_option (jc_stringify jc) (jget m k)) = jget m k" for k
  proof (cases "jget m k")
    case (Some v)
    then have "json_value v" "row_shape v" using assms(3) jget_in_set [OF wf, of k v] by force+
    with Some assms(2) show ?thesis
      by (auto simp: read_row_def codec_ok_def row_shape_def split: jsval.splits)
  qed (simp add: read_row_def)
  have rows: "rows = map (jget m) ids \<and> view c3 = view c"
  proof (cases "ids = []")
    case True
    then show ?thesis using assms(6,7) by (simp add: readMany_def)
  next
    case False
    then obtain raw where r: "rc_mget rc (map K ids) c2 = (Some raw, c3)" "rows = map (read_row jc) raw"
      using assms(7) by (auto simp: readMany_def cbind_Some)
    have "raw = map (\<lambda>k. map_option (jc_stringify jc) (jget m k)) ids" "view c3 = view c"
      using mget_ok [OF r(1)] assms(1,6) by (simp_all add: coll_holds_def comp_def)
    with r(2) row show ?thesis by (simp add: comp_def)
  qed
  have "map (jget m) (jkeys m) = map Some (jvals m)" using wf jget_in_set [OF wf] by auto
  then have "List.map_filter id (map (jget m) (jkeys m)) = jvals m" by (simp only: map_filter_Some)
  moreover have "mset (map (jget m) ids) = mset (map (jget m) (jkeys m))" by (simp only: mset_map keys)
  ultimately have "mset (List.map_filter id (map (jget m) ids)) = mset (jvals m)" using mset_map_filter by metis
  then show ?thesis using rows by simp
qed

end

subsection \<open>The two properties\<close>

fun put_all :: "string \<Rightarrow> json_codec \<Rightarrow> 'r redis_client \<Rightarrow> nat \<Rightarrow> (string \<times> jsval) list \<Rightarrow> ('r, unit) cmd" where
  "put_all p jc rc n [] = cret ()"
| "put_all p jc rc n ((rid, rec) # puts) = cbind (ledger_put p jc rc rid rec (int n)) (\<lambda>_. put_all p jc rc n puts)"

definition spec_puts :: "nat \<Rightarrow> (string \<times> jsval) list \<Rightarrow> (string, jsval) jsmap" where
  "spec_puts n puts = fold (\<lambda>(rid, rec). spec_put n rid rec) puts []"

lemma put_all_holds:
  assumes "redis rc view" "0 < n"
  shows "ledger_holds p jc n (view c) rows \<Longrightarrow> list_all (json_value \<circ> snd) puts \<Longrightarrow>
    put_all p jc rc n puts c = (Some u, c') \<Longrightarrow>
    ledger_holds p jc n (view c') (fold (\<lambda>(rid, rec). spec_put n rid rec) puts rows)"
proof (induction puts arbitrary: c rows)
  case (Cons x puts)
  obtain rid rec where x: "x = (rid, rec)" by (cases x)
  then obtain c1 where c: "ledger_put p jc rc rid rec (int n) c = (Some (), c1)" "put_all p jc rc n puts c1 = (Some u, c')"
    using Cons.prems(3) by (auto simp: cbind_Some)
  have "ledger_holds p jc n (view c1) (spec_put n rid rec rows)"
    using redis.put_holds [OF assms(1) Cons.prems(1) _ assms(2) c(1)] Cons.prems(2) x by simp
  from Cons.IH [OF this _ c(2)] Cons.prems(2) x show ?case by simp
qed simp

text \<open>
  C14: The durable ledger is the capped log it stands for: after any run of `put`s that Redis answered,
  starting from empty, `loadRecent` returns the rows newest first, each with the last value put under
  its request id, at most `maxEntries` of them, and the keys of evicted rows are gone: a row's key
  exists exactly while the row is in the log.
\<close>

theorem ledger_store_exact:
  assumes "redis rc view" and "codec_ok jc" and "view c = (\<lambda>_. None)" and "0 < n" and "0 < limit"
    and "list_all (json_value \<circ> snd) puts" and "put_all p jc rc n puts c = (Some u, c')"
    and "ledger_loadRecent p jc rc (int limit) c' = (Some out, c'')"
  shows "out = jvals (take limit (spec_puts n puts)) \<and> length (spec_puts n puts) \<le> n \<and>
    (\<forall>rid. view c' (ledgerKey p rid) \<noteq> None \<longleftrightarrow> rid \<in> set (jkeys (spec_puts n puts)))"
proof -
  have "ledger_holds p jc n (view c) []"
    by (simp add: ledger_holds_def assms(3) list_at_def str_at_def jwf_def)
  then have h: "ledger_holds p jc n (view c') (spec_puts n puts)"
    using put_all_holds [OF assms(1,4) _ assms(6,7)] by (simp add: spec_puts_def)
  have "str_at db k = Some None \<longleftrightarrow> db k = None" for db k by (auto simp: str_at_def split: option.splits rvalue.splits)
  then have "view c' (ledgerKey p rid) \<noteq> None \<longleftrightarrow> jget (spec_puts n puts) rid \<noteq> None" for rid
    using h unfolding ledger_holds_def by (metis map_option_is_None option.inject)
  then have "view c' (ledgerKey p rid) \<noteq> None \<longleftrightarrow> rid \<in> set (jkeys (spec_puts n puts))" for rid
    by (simp add: jhas_iff)
  with h redis.recent_rows [OF assms(1) h assms(2,5,8)] show ?thesis by (simp add: ledger_holds_def)
qed

definition demo_server :: redis_server where
  "demo_server = \<lparr>srv_db = (\<lambda>_. None), srv_left = 100\<rparr>"

lemmas server_simps = cbind_def cret_def server_client_def on_db_def str_at_def list_at_def set_at_def put_list_def put_set_def
  redis_slice_def add_member_def

definition demo_puts :: "(string \<times> jsval) list" where
  "demo_puts = [(''a'', JNull), (''b'', JNull), (''a'', JBool True)]"

lemma ledger_store_exact_witness:
  "\<exists>c' c''. put_all ''p'' demo_codec server_client 1 demo_puts demo_server = (Some (), c') \<and>
     ledger_loadRecent ''p'' demo_codec server_client 5 c' = (Some [JBool True], c'')"
proof -
  obtain c' where c: "put_all ''p'' demo_codec server_client 1 demo_puts demo_server = (Some (), c')"
    by (simp add: demo_puts_def ledger_put_def server_simps demo_server_def)
  obtain out c'' where l: "ledger_loadRecent ''p'' demo_codec server_client (int 5) c' = (Some out, c'')"
    using c by (auto simp: demo_puts_def ledger_put_def ledger_loadRecent_def server_simps demo_server_def)
  have "out = jvals (take 5 (spec_puts 1 demo_puts))"
    using ledger_store_exact [OF server.redis_axioms demo_codec_ok, of demo_server 1 5 demo_puts "''p''" "()" c' out c''] c l
    by (simp add: demo_server_def demo_puts_def)
  also have "\<dots> = [JBool True]" by (simp add: spec_puts_def demo_puts_def spec_put_def)
  finally show ?thesis using c l by simp
qed

text \<open>
  A \<open>put\<close> cut off between its two writes leaves a row that no later \<open>put\<close> lists: the row is found, so
  its id is never pushed.
\<close>

lemma half_written_row_hidden:
  "let c1 = snd (ledger_put ''p'' jc server_client ''a'' v 5 (demo_server\<lparr>srv_left := 2\<rparr>));
       c2 = snd (ledger_put ''p'' jc server_client ''a'' w 5 (c1\<lparr>srv_left := 9\<rparr>))
   in fst (ledger_put ''p'' jc server_client ''a'' w 5 (c1\<lparr>srv_left := 9\<rparr>)) = Some () \<and>
      fst (ledger_loadRecent ''p'' jc server_client 5 c2) = Some []"
  by (simp add: ledger_put_def ledger_loadRecent_def server_simps demo_server_def Let_def)

datatype accrual_op = PutOpen stored_accrual | RemoveOpen string | PutBatch stored_accrual string | RemoveBatch string

fun accrual_cmd :: "string \<Rightarrow> json_codec \<Rightarrow> 'r redis_client \<Rightarrow> accrual_op \<Rightarrow> ('r, unit) cmd" where
  "accrual_cmd p jc rc (PutOpen a) = putOpen p jc rc a"
| "accrual_cmd p jc rc (RemoveOpen k) = removeOpen p rc k"
| "accrual_cmd p jc rc (PutBatch a b) = putBatch p jc rc a b"
| "accrual_cmd p jc rc (RemoveBatch k) = removeBatch p rc k"

fun accrual_cmds :: "string \<Rightarrow> json_codec \<Rightarrow> 'r redis_client \<Rightarrow> accrual_op list \<Rightarrow> ('r, unit) cmd" where
  "accrual_cmds p jc rc [] = cret ()"
| "accrual_cmds p jc rc (op # ops) = cbind (accrual_cmd p jc rc op) (\<lambda>_. accrual_cmds p jc rc ops)"

text \<open>The specification: two maps, the outstanding accruals by operator and the batches by id.\<close>

type_synonym outstanding = "(string, jsval) jsmap \<times> (string, jsval) jsmap"

fun accrual_spec :: "accrual_op \<Rightarrow> outstanding \<Rightarrow> outstanding" where
  "accrual_spec (PutOpen a) (os, bs) = (jset (sa_operatorAddress a) (accrual_json a) os, bs)"
| "accrual_spec (RemoveOpen k) (os, bs) = (jdel k os, bs)"
| "accrual_spec (PutBatch a b) (os, bs) = (os, jset b (accrual_json (a\<lparr>sa_batchId := Some b\<rparr>)) bs)"
| "accrual_spec (RemoveBatch k) (os, bs) = (os, jdel k bs)"

fun accrual_op_ok :: "accrual_op \<Rightarrow> bool" where
  "accrual_op_ok (PutOpen a) \<longleftrightarrow> json_value (accrual_json a)"
| "accrual_op_ok (PutBatch a b) \<longleftrightarrow> json_value (accrual_json (a\<lparr>sa_batchId := Some b\<rparr>)) \<and> b \<noteq> []"
| "accrual_op_ok op \<longleftrightarrow> True"

lemma accrual_keys [simp]:
  "inj (openKey p)" "inj (batchKey p)" "openKey p a \<noteq> openIndex p" "openKey p a \<noteq> batchIndex p"
  "batchKey p a \<noteq> openIndex p" "batchKey p a \<noteq> batchIndex p" "openKey p a \<noteq> batchKey p b" "batchKey p a \<noteq> openKey p b"
  "openIndex p \<noteq> batchIndex p" "batchIndex p \<noteq> openIndex p" "batchIndex p \<noteq> openKey p a" "openIndex p \<noteq> batchKey p a"
  "openIndex p \<noteq> openKey p a" "batchIndex p \<noteq> batchKey p a" "openKey p a = openKey p b \<longleftrightarrow> a = b" "batchKey p a = batchKey p b \<longleftrightarrow> a = b"
  by (auto simp: inj_def openKey_def batchKey_def openIndex_def batchIndex_def)

definition accruals_hold :: "string \<Rightarrow> json_codec \<Rightarrow> redis_db \<Rightarrow> outstanding \<Rightarrow> bool" where
  "accruals_hold p jc db s \<longleftrightarrow>
     coll_holds (openKey p) (openIndex p) jc db (fst s) \<and> coll_holds (batchKey p) (batchIndex p) jc db (snd s) \<and>
     (\<forall>(k, v) \<in> set (fst s). json_value v \<and> row_shape v) \<and>
     (\<forall>(k, v) \<in> set (snd s). json_value v \<and> row_shape v \<and> has_batch_id v)"

lemma accrual_row: "row_shape (accrual_json a)" "b \<noteq> [] \<Longrightarrow> has_batch_id (accrual_json (a\<lparr>sa_batchId := Some b\<rparr>))"
  by (auto simp: row_shape_def has_batch_id_def accrual_json_def member_of_def split: option.split)

lemma accrual_cmd_holds:
  assumes "redis rc view" "accruals_hold p jc (view c) s" "accrual_op_ok op" "accrual_cmd p jc rc op c = (Some u, c')"
  shows "accruals_hold p jc (view c') (accrual_spec op s)"
proof -
  obtain os bs where s: "s = (os, bs)" by (cases s)
  have h: "coll_holds (openKey p) (openIndex p) jc (view c) os" "coll_holds (batchKey p) (batchIndex p) jc (view c) bs"
    using assms(2) s by (simp_all add: accruals_hold_def)
  have sub: "set (jset k v m) \<subseteq> insert (k, v) (set m)" "set (jdel k m) \<subseteq> set m" for k v and m :: "(string, jsval) jsmap"
    by (rule jset_set_subset, rule jdel_set_subset)
  show ?thesis
  proof (cases op)
    case (PutOpen a)
    note r = redis.coll_put [OF assms(1) h(1) accrual_keys(1,3) assms(4) [unfolded PutOpen accrual_cmd.simps putOpen_def]]
    have "coll_holds (batchKey p) (batchIndex p) jc (view c') bs" using r(2) by (intro coll_frame [OF h(2)]) simp_all
    with r(1) assms(2,3) sub(1) [of "sa_operatorAddress a" "accrual_json a" os] accrual_row(1) [of a] show ?thesis
      unfolding PutOpen s accruals_hold_def by auto
  next
    case (RemoveOpen k)
    note r = redis.coll_remove [OF assms(1) h(1) accrual_keys(1,3) assms(4) [unfolded RemoveOpen accrual_cmd.simps removeOpen_def]]
    have "coll_holds (batchKey p) (batchIndex p) jc (view c') bs" using r(2) by (intro coll_frame [OF h(2)]) simp_all
    with r(1) assms(2) sub(2) [of k os] show ?thesis unfolding RemoveOpen s accruals_hold_def by auto
  next
    case (PutBatch a b)
    note r = redis.coll_put [OF assms(1) h(2) accrual_keys(2,6) assms(4) [unfolded PutBatch accrual_cmd.simps putBatch_def]]
    have "coll_holds (openKey p) (openIndex p) jc (view c') os" using r(2) by (intro coll_frame [OF h(1)]) simp_all
    with r(1) assms(2,3) sub(1) [of b "accrual_json (a\<lparr>sa_batchId := Some b\<rparr>)" bs] accrual_row(2) [of b a]
      accrual_row(1) [of "a\<lparr>sa_batchId := Some b\<rparr>"] show ?thesis
      unfolding PutBatch s accruals_hold_def by auto
  next
    case (RemoveBatch k)
    note r = redis.coll_remove [OF assms(1) h(2) accrual_keys(2,6) assms(4) [unfolded RemoveBatch accrual_cmd.simps removeBatch_def]]
    have "coll_holds (openKey p) (openIndex p) jc (view c') os" using r(2) by (intro coll_frame [OF h(1)]) simp_all
    with r(1) assms(2) sub(2) [of k bs] show ?thesis unfolding RemoveBatch s accruals_hold_def by auto
  qed
qed

lemma accrual_cmds_hold:
  assumes "redis rc view"
  shows "accruals_hold p jc (view c) s \<Longrightarrow> list_all accrual_op_ok ops \<Longrightarrow> accrual_cmds p jc rc ops c = (Some u, c') \<Longrightarrow>
    accruals_hold p jc (view c') (fold accrual_spec ops s)"
proof (induction ops arbitrary: c s)
  case (Cons op ops)
  then obtain c1 where c: "accrual_cmd p jc rc op c = (Some (), c1)" "accrual_cmds p jc rc ops c1 = (Some u, c')"
    by (auto simp: cbind_Some)
  from accrual_cmd_holds [OF assms Cons.prems(1) _ c(1)] Cons.prems(2) Cons.IH [OF _ _ c(2)] show ?case by simp
qed simp

text \<open>
  C15: What a restart finds is what was outstanding: after any run of accrual writes that Redis answered,
  starting from empty, `loadAll` returns exactly the open accruals and the batches put and not removed
  since, each with its last value, whichever way the operations on different operators and batches
  were interleaved; no liability is lost and none is invented.
\<close>

theorem accrual_store_exact:
  assumes "redis rc view" and "codec_ok jc" and "view c = (\<lambda>_. None)" and "list_all accrual_op_ok ops"
    and "accrual_cmds p jc rc ops c = (Some u, c')" and "loadAll p jc rc c' = (Some (still_open, batches), c'')"
    and "fold accrual_spec ops ([], []) = (os, bs)"
  shows "mset still_open = mset (jvals os) \<and> mset batches = mset (jvals bs)"
proof -
  have "accruals_hold p jc (view c) ([], [])"
    by (simp add: accruals_hold_def coll_holds_def assms(3) str_at_def set_at_def jwf_def)
  from accrual_cmds_hold [OF assms(1) this assms(4,5)] assms(7)
  have h: "coll_holds (openKey p) (openIndex p) jc (view c') os" "coll_holds (batchKey p) (batchIndex p) jc (view c') bs"
    "\<forall>v \<in> set (jvals os). json_value v \<and> row_shape v" "\<forall>v \<in> set (jvals bs). json_value v \<and> row_shape v"
    "\<forall>v \<in> set (jvals bs). has_batch_id v"
    by (auto simp: accruals_hold_def)
  obtain oi c1 bi c2 orows c3 brows where g: "rc_smembers rc (openIndex p) c' = (Some oi, c1)"
      "rc_smembers rc (batchIndex p) c1 = (Some bi, c2)" "readMany jc rc (map (openKey p) oi) c2 = (Some orows, c3)"
      "readMany jc rc (map (batchKey p) bi) c3 = (Some brows, c'')"
    and out: "still_open = List.map_filter id orows" "batches = filter has_batch_id (List.map_filter id brows)"
    using assms(6) unfolding loadAll_def cbind_Some cret_Some prod.inject by blast
  have v: "view c1 = view c'" "view c2 = view c'"
    using redis.smembers_ok [OF assms(1) g(1)] redis.smembers_ok [OF assms(1) g(2)] by auto
  note o = redis.coll_read [OF assms(1) h(1) assms(2) h(3) g(1) refl v(2) g(3)]
  have "mset (List.map_filter id brows) = mset (jvals bs) \<and> view c'' = view c'"
    using redis.coll_read [OF assms(1) h(2) assms(2) h(4) g(2) v(1) _ g(4)] o by simp
  then have "mset batches = filter_mset has_batch_id (mset (jvals bs))" using out(2) by simp
  also have "\<dots> = mset (jvals bs)" using h(5) by (simp add: filter_mset_eq_conv)
  finally show ?thesis using o out(1) by simp
qed

definition demo_accrual :: "string \<Rightarrow> stored_accrual" where
  "demo_accrual k = \<lparr>sa_operatorAddress = k, sa_records = [JNull], sa_firstAt = Fin 1, sa_batchId = None\<rparr>"

definition demo_accruals :: "accrual_op list" where
  "demo_accruals = [PutOpen (demo_accrual ''A''), PutOpen (demo_accrual ''B''), PutBatch (demo_accrual ''A'') ''b1'', RemoveOpen ''A'']"

lemma accrual_store_exact_witness:
  "\<exists>c' still_open batches c''. accrual_cmds ''p'' demo_codec server_client demo_accruals demo_server = (Some (), c') \<and>
     loadAll ''p'' demo_codec server_client c' = (Some (still_open, batches), c'') \<and>
     still_open = [accrual_json (demo_accrual ''B'')] \<and> length batches = 1"
proof -
  obtain c' where c: "accrual_cmds ''p'' demo_codec server_client demo_accruals demo_server = (Some (), c')"
    by (simp add: demo_accruals_def demo_accrual_def putOpen_def putBatch_def removeOpen_def server_simps demo_server_def)
  obtain os bs c'' where l: "loadAll ''p'' demo_codec server_client c' = (Some (os, bs), c'')"
    using c by (auto simp: demo_accruals_def demo_accrual_def putOpen_def putBatch_def removeOpen_def loadAll_def readMany_def
      server_simps demo_server_def)
  have "mset os = {#accrual_json (demo_accrual ''B'')#} \<and> size (mset bs) = 1"
    using accrual_store_exact [OF server.redis_axioms demo_codec_ok _ _ c l surjective_pairing]
    by (simp add: demo_server_def demo_accruals_def demo_accrual_def accrual_json_def)
  with c l show ?thesis by auto
qed

text \<open>An accrual whose write stopped before the index is not found at boot.\<close>

lemma half_written_accrual_lost:
  "fst (loadAll ''p'' jc server_client ((snd (putOpen ''p'' jc server_client (demo_accrual ''A'') (demo_server\<lparr>srv_left := 1\<rparr>)))
     \<lparr>srv_left := 9\<rparr>)) = Some ([], [])"
  by (simp add: putOpen_def loadAll_def readMany_def server_simps demo_server_def demo_accrual_def List.map_filter_simps)

end
