(* ===== verification/Chat.thy ===== *)
theory Chat
  imports Router Settlement NodeServer
begin

section \<open>The paid chat route (packages/gateway/src/routes/chat.ts, middleware, app.ts)\<close>

text \<open>
  What happens to one \<open>POST /v1/chat/completions\<close>: the request id, the handler around
  \<open>Router.route\<close>, the sink over the Express response, the error handler, and the settlement hook
  that turns a confirmed payment into a payout. An Express response is an \<open>http_reply\<close>: what the code set on
  it and what it sent; \<open>None\<close> is the \<open>ERR_HTTP_HEADERS_SENT\<close> error Node throws when a header is set
  too late (lemma \<open>no_late_header\<close>: it does not arise while the router runs). Headers Express adds by
  itself and log lines are left out. The x402 payment middleware between the request and the handler
  is a package: theory \<open>ChatProps\<close> says what is relied on.
\<close>

subsection \<open>The response\<close>

datatype reply_part = JsonPart jsval | BytesPart "8 word list"

record http_reply =
  gr_status :: nat
  gr_headers :: "(string, string) jsmap"
  gr_sent :: bool
  gr_ended :: bool
  gr_body :: "reply_part list"

definition new_reply :: http_reply where
  "new_reply = \<lparr>gr_status = 200, gr_headers = [], gr_sent = False, gr_ended = False, gr_body = []\<rparr>"

text \<open>Header names are case-insensitive, a later value replaces an earlier one.\<close>

definition reply_header :: "string \<Rightarrow> string \<Rightarrow> http_reply \<Rightarrow> http_reply option" where
  "reply_header name v r =
     (if gr_sent r then None else Some (r\<lparr>gr_headers := jset (to_lower name) v (gr_headers r)\<rparr>))"

definition reply_json :: "nat \<Rightarrow> jsval \<Rightarrow> http_reply \<Rightarrow> http_reply option" where
  "reply_json status body r =
     (if gr_sent r then None
      else Some (r\<lparr>gr_status := status, gr_sent := True, gr_ended := True, gr_body := gr_body r @ [JsonPart body]\<rparr>))"

definition reply_end :: "http_reply \<Rightarrow> http_reply" where
  "reply_end r = r\<lparr>gr_sent := True, gr_ended := True\<rparr>"

subsection \<open>The request id (middleware/requestId.ts)\<close>

definition REQUEST_ID_HEADER :: string where "REQUEST_ID_HEADER = ''x-request-id''"

record gw_request =
  gq_headers :: "(string \<times> string) list"
  gq_id :: "string option"
  gq_body :: jsval

definition requestId :: "string \<Rightarrow> gw_request \<Rightarrow> http_reply \<Rightarrow> gw_request \<times> http_reply option" where
  "requestId uuid q r = (q\<lparr>gq_id := Some uuid\<rparr>, reply_header REQUEST_ID_HEADER uuid r)"

definition getRequestId :: "string \<Rightarrow> gw_request \<Rightarrow> string" where
  "getRequestId uuid q = (case gq_id q of Some i \<Rightarrow> i | None \<Rightarrow> uuid)"

subsection \<open>The error handler (middleware/errorHandler.ts)\<close>

text \<open>
  What a handler may throw: an error of the taxonomy or a foreign one (\<open>thrown\<close>), or the \<open>Error\<close>
  of body-parser with the properties read off it.
\<close>

record http_error =
  he_status :: jsval
  he_statusCode :: jsval
  he_type :: jsval
  he_message :: string

datatype gw_error = Raised thrown | ParserError http_error | TooLarge

definition MAX_BODY_HINT :: string where "MAX_BODY_HINT = ''1mb''"

definition http_code :: "http_error \<Rightarrow> jsnum" where
  "http_code x = (case he_status x of JNum n \<Rightarrow> n
     | _ \<Rightarrow> (case he_statusCode x of JNum n \<Rightarrow> n | _ \<Rightarrow> Fin 0))"

definition normalizeBodyParserError :: "gw_error \<Rightarrow> gw_error" where
  "normalizeBodyParserError err = (case err of
      ParserError x \<Rightarrow>
        if js_less (http_code x) (Fin 400) \<or> js_le (Fin 500) (http_code x) then err
        else if http_code x = Fin 413 then TooLarge
        else Raised (as_thrown (Exn ValidationErr
          (if he_type x = JStr ''entity.parse.failed'' then ''request body is not valid JSON''
           else ''request body could not be read'')))
    | _ \<Rightarrow> err)"

definition gw_error_response :: "gw_error \<Rightarrow> nat \<times> error_body" where
  "gw_error_response err = (case err of
      Raised t \<Rightarrow> toErrorResponse t
    | ParserError x \<Rightarrow> toErrorResponse (Foreign (he_message x))
    | TooLarge \<Rightarrow> (413, \<lparr>eb_code = ''payload_too_large'', eb_message = ''request body is too large'',
                     eb_details = Some [(''limit'', JStr MAX_BODY_HINT)]\<rparr>))"

definition errorHandler :: "gw_error \<Rightarrow> http_reply \<Rightarrow> http_reply" where
  "errorHandler err r = (case gw_error_response (normalizeBodyParserError err) of (status, body) \<Rightarrow>
     (case reply_json status (error_json body) r of None \<Rightarrow> reply_end r | Some r' \<Rightarrow> r'))"

subsection \<open>The response as a sink\<close>

definition sink_open :: "string \<Rightarrow> http_reply \<Rightarrow> http_reply option" where
  "sink_open contentType r =
     obind (reply_header ''content-type'' contentType (r\<lparr>gr_status := 200\<rparr>)) (\<lambda>r1.
     obind (reply_header ''cache-control'' ''no-cache, no-transform'' r1) (\<lambda>r2.
     obind (reply_header ''connection'' ''keep-alive'' r2) (\<lambda>r3.
     obind (reply_header ''x-accel-buffering'' ''no'' r3) (\<lambda>r4. Some (r4\<lparr>gr_sent := True\<rparr>)))))"

definition sink_put :: "8 word list \<Rightarrow> http_reply \<Rightarrow> http_reply" where
  "sink_put v r = (if gr_ended r then r else r\<lparr>gr_sent := True, gr_body := gr_body r @ [BytesPart v]\<rparr>)"

definition sink_close :: "http_reply \<Rightarrow> http_reply" where
  "sink_close r = (if gr_ended r then r else reply_end r)"

subsection \<open>The handler\<close>

definition NODE_ID_HEADER :: string where "NODE_ID_HEADER = ''x-mesh-node-id''"
definition ROUTE_REASON_HEADER :: string where "ROUTE_REASON_HEADER = ''x-mesh-route-reason''"

text \<open>
  What the outside answers while one request is handled; \<open>ce_noteAt i\<close> is the clock when the routing
  note of the \<open>i\<close>-th selected node is written, \<open>ce_fmt\<close> the text of a finite number.
\<close>

record 'd chat_env =
  ce_router :: "'d router"
  ce_try1 :: attempt_env
  ce_try2 :: attempt_env
  ce_hosts :: host_cache
  ce_noteAt :: "nat \<Rightarrow> int"
  ce_fmt :: "rat \<Rightarrow> string"

text \<open>\<open>onNodeSelected\<close> and the sink, as the router calls them; the other events go elsewhere.\<close>

fun chat_event :: "(nat \<Rightarrow> int) \<Rightarrow> string \<Rightarrow> route_event \<Rightarrow> nat \<times> http_reply \<times> svc \<Rightarrow> (nat \<times> http_reply \<times> svc) option" where
  "chat_event noteAt rid (NodeSelected node) (i, r, v) =
     obind (reply_header NODE_ID_HEADER (n_nodeId node) r) (\<lambda>r'.
       Some (Suc i, r', recordRouting (noteAt i) rid (n_nodeId node) (r_operatorAddress (n_registration node)) v))"
| "chat_event noteAt rid (SinkBegin ct) (i, r, v) = obind (sink_open ct r) (\<lambda>r'. Some (i, r', v))"
| "chat_event noteAt rid (SinkWrite bs) (i, r, v) = Some (i, sink_put bs r, v)"
| "chat_event noteAt rid SinkEnd (i, r, v) = Some (i, sink_close r, v)"
| "chat_event noteAt rid _ irv = Some irv"

fun chat_events :: "(nat \<Rightarrow> int) \<Rightarrow> string \<Rightarrow> route_event list \<Rightarrow> nat \<times> http_reply \<times> svc \<Rightarrow> (nat \<times> http_reply \<times> svc) option" where
  "chat_events noteAt rid [] irv = Some irv"
| "chat_events noteAt rid (ev # evs) irv = obind (chat_event noteAt rid ev irv) (chat_events noteAt rid evs)"

definition num_text :: "(rat \<Rightarrow> string) \<Rightarrow> jsnum \<Rightarrow> string" where
  "num_text fmt n = (case n of Fin q \<Rightarrow> fmt q | _ \<Rightarrow> nonfinite_str n)"

definition headers_sent :: thrown where
  "headers_sent = Foreign ''Cannot set headers after they are sent to the client''"

definition chat_input :: "string \<Rightarrow> chat_request \<Rightarrow> route_input" where
  "chat_input rid request = \<lparr>ri_requestId = rid, ri_request = request, ri_sink = (cr_stream request = Some True)\<rparr>"

definition chat_route :: "'d chat_env \<Rightarrow> route_input \<Rightarrow> route_event list \<times> host_cache \<times> (mesh_error + route_result)" where
  "chat_route ce inp = route (ce_router ce) inp (ce_try1 ce) (ce_try2 ce) (ce_hosts ce)"

definition handleChat :: "'d chat_env \<Rightarrow> string \<Rightarrow> gw_request \<Rightarrow> http_reply \<times> svc \<Rightarrow> (http_reply \<times> svc) \<times> thrown option" where
  "handleChat ce uuid q = (\<lambda>(r, v).
     let rid = getRequestId uuid q
     in case parseOrThrow ChatCompletionRequestSchema (gq_body q) ''chat completion request'' of
          Inl e \<Rightarrow> ((r, v), Some (as_thrown e))
        | Inr request \<Rightarrow>
            (case chat_route ce (chat_input rid request) of (evs, hosts', res) \<Rightarrow>
             case chat_events (ce_noteAt ce) rid evs (0, r, v) of
               None \<Rightarrow> ((r, v), Some headers_sent)
             | Some (i, r1, v1) \<Rightarrow>
                 (case res of
                    Inl e \<Rightarrow> ((r1, v1), Some (Mesh e))
                  | Inr result \<Rightarrow>
                      if cr_stream request = Some True then ((r1, v1), None)
                      else (case obind (reply_header ROUTE_REASON_HEADER
                                  (''attempts='' @ nat_str (rr_attempts result) @ '' latency='' @
                                   num_text (ce_fmt ce) (rr_latencyMs result) @ ''ms'') r1)
                               (reply_json 200 (case rr_body result of Some b \<Rightarrow> b | None \<Rightarrow> JUndef)) of
                              None \<Rightarrow> ((r1, v1), Some headers_sent)
                            | Some r2 \<Rightarrow> ((r2, v1), None)))))"

text \<open>\<open>handleChat(\<dots>).catch(next)\<close>: a rejection reaches the error handler.\<close>

definition post_chat :: "'d chat_env \<Rightarrow> string \<Rightarrow> gw_request \<Rightarrow> http_reply \<times> svc \<Rightarrow> http_reply \<times> svc" where
  "post_chat ce uuid q rv = (case handleChat ce uuid q rv of
      ((r, v), None) \<Rightarrow> (r, v)
    | ((r, v), Some t) \<Rightarrow> (errorHandler (Raised t) r, v))"

text \<open>The route as mounted: every request first gets its id.\<close>

definition serve_chat :: "'d chat_env \<Rightarrow> string \<Rightarrow> gw_request \<Rightarrow> svc \<Rightarrow> http_reply \<times> svc" where
  "serve_chat ce uuid q v = (case requestId uuid q new_reply of
      (q', Some r) \<Rightarrow> post_chat ce uuid q' (r, v)
    | (q', None) \<Rightarrow> (errorHandler (Raised headers_sent) new_reply, v))"

subsection \<open>From a confirmed payment to the payout (app.ts)\<close>

text \<open>The settle context of the x402 SDK: the facilitator's answer and the transport's own value.\<close>

record settle_context =
  sx_transport :: jsval
  sx_success :: jsval
  sx_transaction :: jsval
  sx_amount :: jsval
  sx_payer :: "string option"
  sx_required :: jsval

definition property_of :: "string \<Rightarrow> jsval \<Rightarrow> jsval" where
  "property_of k v = (case v of JObj kvs \<Rightarrow> (case map_of kvs k of Some w \<Rightarrow> w | None \<Rightarrow> JUndef) | _ \<Rightarrow> JUndef)"

definition own_entries :: "jsval \<Rightarrow> (string \<times> jsval) list" where
  "own_entries v = (case v of JObj kvs \<Rightarrow> kvs | JArr vs \<Rightarrow> zip (map nat_str [0..<length vs]) vs | _ \<Rightarrow> [])"

definition keep_header :: "string \<times> jsval \<Rightarrow> (string, string) jsmap \<Rightarrow> (string, string) jsmap" where
  "keep_header kv m = (case snd kv of
      JStr s \<Rightarrow> if to_lower (fst kv) = ''__proto__'' then m else jset (to_lower (fst kv)) s m
    | _ \<Rightarrow> m)"

definition responseHeadersOf :: "jsval \<Rightarrow> (string, string) jsmap" where
  "responseHeadersOf transport = fold keep_header (own_entries (property_of ''responseHeaders'' transport)) []"

datatype hook_skip = NoRequestId | NotSettled | NoTransaction | HookThrew exn

definition settled_amount :: "settle_context \<Rightarrow> jsval" where
  "settled_amount c = (if sx_amount c = JUndef \<or> sx_amount c = JNull then sx_required c else sx_amount c)"

definition hook_inbound :: "settle_context \<Rightarrow> hook_skip + inbound_settlement" where
  "hook_inbound c = (case jget (responseHeadersOf (sx_transport c)) REQUEST_ID_HEADER of
      None \<Rightarrow> Inl NoRequestId
    | Some rid \<Rightarrow>
        if rid = [] then Inl NoRequestId
        else if sx_success c \<noteq> JBool True then Inl NotSettled
        else (case sx_transaction c of
            JStr tx \<Rightarrow>
              if tx = [] then Inl NoTransaction
              else (case settled_amount c of
                  JStr amount \<Rightarrow> (case parseInboundAmount amount of
                      Inl x \<Rightarrow> Inl (HookThrew x)
                    | Inr n \<Rightarrow> Inr \<lparr>in_requestId = rid, in_payerAddress = (case sx_payer c of Some p \<Rightarrow> p | None \<Rightarrow> []),
                                   in_inboundTxId = tx, in_inboundAtomic = n\<rparr>)
                | _ \<Rightarrow> Inl (HookThrew (Exn SettlementErr ''settlement reported no amount'')))
          | _ \<Rightarrow> Inl NoTransaction))"

definition attachSettlementHook :: "env \<Rightarrow> int \<Rightarrow> settle_context \<Rightarrow> svc \<Rightarrow> hook_skip option \<times> svc" where
  "attachSettlementHook e tm c v = (case hook_inbound c of
      Inl why \<Rightarrow> (Some why, v) | Inr inb \<Rightarrow> (None, settleInbound e tm inb v))"

end
