(* ===== verification/ChatProps.thy ===== *)
theory ChatProps
  imports Chat RouterProps SettlementProps
begin

section \<open>From a paid request to the operator it credits\<close>

text \<open>
  The chat route, the router and the settlement service together. The payment middleware of
  \<open>@x402/express\<close> is not part of the repository: it lets a payment settle only when the handler's
  response has a status below 400, and hands the response's headers to the settlement hook
  (\<open>transport_of\<close>). The lemmas follow the router's events through the response and the routing note.
\<close>

subsection \<open>The response while the router runs\<close>

lemma header_names [simp]:
  "to_lower NODE_ID_HEADER = NODE_ID_HEADER" "to_lower REQUEST_ID_HEADER = REQUEST_ID_HEADER"
  "to_lower ROUTE_REASON_HEADER = ROUTE_REASON_HEADER"
  "NODE_ID_HEADER \<noteq> REQUEST_ID_HEADER" "REQUEST_ID_HEADER \<noteq> NODE_ID_HEADER"
  "ROUTE_REASON_HEADER \<noteq> REQUEST_ID_HEADER" "REQUEST_ID_HEADER \<noteq> ROUTE_REASON_HEADER"
  "ROUTE_REASON_HEADER \<noteq> NODE_ID_HEADER" "NODE_ID_HEADER \<noteq> ROUTE_REASON_HEADER"
  by (simp_all add: NODE_ID_HEADER_def REQUEST_ID_HEADER_def ROUTE_REASON_HEADER_def to_lower_def lower_char_def
      is_upper_def code_def)

definition kept_headers :: "string list" where "kept_headers = [NODE_ID_HEADER, REQUEST_ID_HEADER]"

lemma reply_header_Some [simp]:
  "\<not> gr_sent r \<Longrightarrow> reply_header k v r = Some (r\<lparr>gr_headers := jset (to_lower k) v (gr_headers r)\<rparr>)"
  by (simp add: reply_header_def)

lemma sink_headers: "to_lower k \<in> {''content-type'', ''cache-control'', ''connection'', ''x-accel-buffering''} \<Longrightarrow>
    to_lower k \<notin> {NODE_ID_HEADER, REQUEST_ID_HEADER}"
  by (auto simp: NODE_ID_HEADER_def REQUEST_ID_HEADER_def)

lemma lower_sink [simp]:
  "to_lower ''content-type'' = ''content-type''" "to_lower ''cache-control'' = ''cache-control''"
  "to_lower ''connection'' = ''connection''" "to_lower ''x-accel-buffering'' = ''x-accel-buffering''"
  by (simp_all add: to_lower_def lower_char_def is_upper_def code_def)

lemma sink_open_ok:
  assumes "\<not> gr_sent r"
  obtains r' where "sink_open ct r = Some r'" "gr_sent r'" "gr_status r' = 200" "gr_ended r' = gr_ended r"
    "jget (gr_headers r') NODE_ID_HEADER = jget (gr_headers r) NODE_ID_HEADER"
    "jget (gr_headers r') REQUEST_ID_HEADER = jget (gr_headers r) REQUEST_ID_HEADER" "gr_body r' = gr_body r"
  using assms by (simp add: sink_open_def jget_jset NODE_ID_HEADER_def REQUEST_ID_HEADER_def)

lemma chat_events_append:
  "chat_events na rid (xs @ ys) s = obind (chat_events na rid xs s) (chat_events na rid ys)"
proof (induction xs arbitrary: s)
  case (Cons x xs)
  then show ?case by (cases "chat_event na rid x s") simp_all
qed simp

lemma chat_events_other:
  "(\<And>ev k. ev \<in> set evs \<Longrightarrow> \<not> sink_call ev \<and> ev \<noteq> NodeSelected k) \<Longrightarrow> chat_events na rid evs s = Some s"
proof (induction evs)
  case (Cons ev evs)
  then have "\<not> sink_call ev" "\<And>k. ev \<noteq> NodeSelected k" by auto
  then have "chat_event na rid ev s = Some s" by (cases ev; cases s) auto
  with Cons show ?case by simp
qed simp

lemma chat_events_writes:
  "\<exists>r'. chat_events na rid (map SinkWrite ws) (i, r, v) = Some (i, r', v) \<and> gr_headers r' = gr_headers r \<and>
     gr_status r' = gr_status r \<and> gr_ended r' = gr_ended r \<and> (gr_sent r \<longrightarrow> gr_sent r') \<and>
     (\<not> gr_ended r \<longrightarrow> gr_body r' = gr_body r @ map BytesPart ws)"
proof (induction ws arbitrary: r)
  case (Cons w ws)
  have "gr_headers (sink_put w r) = gr_headers r" "gr_status (sink_put w r) = gr_status r"
    "gr_ended (sink_put w r) = gr_ended r" "gr_sent r \<longrightarrow> gr_sent (sink_put w r)"
    "\<not> gr_ended r \<longrightarrow> gr_body (sink_put w r) = gr_body r @ [BytesPart w]"
    by (simp_all add: sink_put_def)
  with Cons [of "sink_put w r"] show ?case by auto
qed simp

text \<open>What a response and a routing note look like once a node has been selected for the request.\<close>

definition names_node :: "(nat \<Rightarrow> int) \<Rightarrow> string \<Rightarrow> node_record \<Rightarrow> http_reply \<times> svc \<Rightarrow> bool" where
  "names_node noteAt rid node = (\<lambda>(r, v). jget (gr_headers r) NODE_ID_HEADER = Some (n_nodeId node) \<and>
     (\<exists>i. jget (v_routing v) rid = Some \<lparr>rn_nodeId = n_nodeId node,
        rn_operatorAddress = r_operatorAddress (n_registration node), rn_at = noteAt i\<rparr>))"

lemma recordRouting_note:
  "jget (v_routing (recordRouting tm rid nid op v)) rid = Some \<lparr>rn_nodeId = nid, rn_operatorAddress = op, rn_at = tm\<rparr>"
  "v_claimed (recordRouting tm rid nid op v) = v_claimed v" "v_due (recordRouting tm rid nid op v) = v_due v"
  by (simp_all add: recordRouting_def Let_def jget_jset pruneRouting_def)

text \<open>One attempt: no header comes too late, the response is opened and closed exactly if it streamed.\<close>

lemma chat_attempt:
  assumes "one_attempt ro inp node st evs" "\<not> gr_sent r"
  obtains r' v' where "chat_events na rid evs (i, r, v) = Some (Suc i, r', v')"
    "v' = recordRouting (na i) rid (n_nodeId node) (r_operatorAddress (n_registration node)) v"
    "jget (gr_headers r') NODE_ID_HEADER = Some (n_nodeId node)"
    "jget (gr_headers r') REQUEST_ID_HEADER = jget (gr_headers r) REQUEST_ID_HEADER"
    "gr_sent r' = st" "gr_ended r' = (st \<or> gr_ended r)" "gr_status r' = (if st then 200 else gr_status r)"
    "\<not> gr_ended r \<longrightarrow> gr_body r' = gr_body r @ map BytesPart (writes_of evs)"
proof -
  let ?v = "recordRouting (na i) rid (n_nodeId node) (r_operatorAddress (n_registration node)) v"
  let ?r = "r\<lparr>gr_headers := jset NODE_ID_HEADER (n_nodeId node) (gr_headers r)\<rparr>"
  have first: "chat_event na rid (NodeSelected node) (i, r, v) = Some (Suc i, ?r, ?v)"
    using assms(2) by simp
  show thesis
  proof (cases st)
    case False
    have "\<exists>rest. evs = NodeSelected node # rest \<and> (\<forall>ev \<in> set rest. \<not> sink_call ev \<and> (\<forall>k. ev \<noteq> NodeSelected k))"
      using assms(1) False
      by (auto simp: one_attempt_def call_events_def outcome_calls_def fetch_of_def)
    then obtain rest where e: "evs = NodeSelected node # rest"
        "\<And>ev k. ev \<in> set rest \<Longrightarrow> \<not> sink_call ev \<and> ev \<noteq> NodeSelected k" by blast
    have "chat_events na rid evs (i, r, v) = Some (Suc i, ?r, ?v)"
      unfolding e(1) chat_events.simps first using chat_events_other [OF e(2)] by simp
    moreover have "writes_of evs = []" using unstreamed_attempt [of ro inp node evs] assms(1) False by (intro writes_of_none) auto
    ultimately show thesis using False assms(2) by (intro that [of ?r ?v]) (simp_all add: jget_jset)
  next
    case True
    then obtain outcome ok ct ws where o: "outcome_calls (n_nodeId node) outcome"
        and e: "evs = NodeSelected node # [BeginRequest (n_nodeId node) True, fetch_of ro inp node] @ SinkBegin ct #
          map SinkWrite ws @ SinkEnd # outcome @ [EndRequest (n_nodeId node) ok]"
      using assms(1) by (fastforce simp: one_attempt_def call_events_def streamed_events_def)
    obtain r1 where r1: "sink_open ct ?r = Some r1" "gr_sent r1" "gr_status r1 = 200" "gr_ended r1 = gr_ended ?r"
        "jget (gr_headers r1) NODE_ID_HEADER = jget (gr_headers ?r) NODE_ID_HEADER"
        "jget (gr_headers r1) REQUEST_ID_HEADER = jget (gr_headers ?r) REQUEST_ID_HEADER" "gr_body r1 = gr_body ?r"
      using sink_open_ok [of ?r ct] assms(2) by auto
    obtain r2 where r2: "chat_events na rid (map SinkWrite ws) (Suc i, r1, ?v) = Some (Suc i, r2, ?v)"
        "gr_headers r2 = gr_headers r1" "gr_status r2 = gr_status r1" "gr_sent r2"
        "\<not> gr_ended r1 \<longrightarrow> gr_body r2 = gr_body r1 @ map BytesPart ws"
      using chat_events_writes [of na rid ws "Suc i" r1 ?v] r1(2) by auto
    have "writes_of outcome = []" using o by (auto simp: outcome_calls_def)
    then have w: "writes_of evs = ws" unfolding e by (simp add: fetch_of_def)
    have rest: "chat_events na rid outcome s = Some s" for s
      using o by (intro chat_events_other) (auto simp: outcome_calls_def)
    have "chat_events na rid evs (i, r, v) = Some (Suc i, sink_close r2, ?v)"
      unfolding e chat_events.simps(2) first
      using r1(1) r2(1) rest by (simp add: chat_events_append fetch_of_def)
    moreover have "gr_headers (sink_close r2) = gr_headers r2" "gr_sent (sink_close r2)" "gr_ended (sink_close r2)"
      "gr_status (sink_close r2) = gr_status r2" "gr_body (sink_close r2) = gr_body r2"
      using r2(4) by (simp_all add: sink_close_def reply_end_def)
    ultimately show thesis
      using True r1 r2 w by (intro that [of "sink_close r2" ?v]) (simp_all add: jget_jset)
  qed
qed

lemma chat_runs:
  assumes "\<forall>a \<in> set runs. one_attempt ro inp (fst a) (al_streamed a) (al_events a)"
    and "\<forall>a \<in> set (butlast runs). \<not> al_streamed a" "\<not> gr_sent r"
  shows "\<exists>r' v'. chat_events na rid (concat (map al_events runs)) (i, r, v) = Some (i + length runs, r', v') \<and>
    v_claimed v' = v_claimed v \<and> v_due v' = v_due v \<and>
    jget (gr_headers r') REQUEST_ID_HEADER = jget (gr_headers r) REQUEST_ID_HEADER \<and>
    (\<not> gr_ended r \<longrightarrow> gr_body r' = gr_body r @ map BytesPart (writes_of (concat (map al_events runs)))) \<and>
    (if runs = [] then r' = r \<and> v' = v
     else gr_sent r' = al_streamed (last runs) \<and> gr_ended r' = (al_streamed (last runs) \<or> gr_ended r) \<and>
       gr_status r' = (if al_streamed (last runs) then 200 else gr_status r) \<and>
       jget (gr_headers r') NODE_ID_HEADER = Some (al_id (last runs)) \<and>
       jget (v_routing v') rid = Some \<lparr>rn_nodeId = al_id (last runs),
         rn_operatorAddress = r_operatorAddress (n_registration (fst (last runs))), rn_at = na (i + length runs - 1)\<rparr>)"
  using assms
proof (induction runs arbitrary: i r v)
  case (Cons a runs)
  have one: "one_attempt ro inp (fst a) (al_streamed a) (al_events a)" using Cons.prems(1) by simp
  obtain r1 v1 where a: "chat_events na rid (al_events a) (i, r, v) = Some (Suc i, r1, v1)"
    "v1 = recordRouting (na i) rid (al_id a) (r_operatorAddress (n_registration (fst a))) v"
    "jget (gr_headers r1) NODE_ID_HEADER = Some (al_id a)"
    "jget (gr_headers r1) REQUEST_ID_HEADER = jget (gr_headers r) REQUEST_ID_HEADER"
    "gr_sent r1 = al_streamed a" "gr_ended r1 = (al_streamed a \<or> gr_ended r)"
    "gr_status r1 = (if al_streamed a then 200 else gr_status r)"
    "\<not> gr_ended r \<longrightarrow> gr_body r1 = gr_body r @ map BytesPart (writes_of (al_events a))"
    by (rule chat_attempt [OF one Cons.prems(3)])
  show ?case
  proof (cases "runs = []")
    case True
    with a show ?thesis by (simp add: recordRouting_note)
  next
    case False
    then have "\<not> al_streamed a" using Cons.prems(2) by simp
    then have u: "\<not> gr_sent r1" "gr_ended r1 = gr_ended r" "gr_status r1 = gr_status r" using a by simp_all
    have "\<forall>a \<in> set runs. one_attempt ro inp (fst a) (al_streamed a) (al_events a)"
      "\<forall>a \<in> set (butlast runs). \<not> al_streamed a" using Cons.prems False by auto
    from Cons.IH [OF this u(1), of "Suc i" v1] False a u show ?thesis
      by (auto simp: chat_events_append recordRouting_note)
  qed
qed simp

text \<open>Whatever the router does, no header is set after the response was opened.\<close>

lemma no_late_header:
  assumes "\<not> gr_sent r"
  shows "chat_events na rid (fst (chat_route ce inp)) (i, r, v) \<noteq> None"
proof -
  obtain evs hosts' res where rt: "chat_route ce inp = (evs, hosts', res)" by (metis prod_cases3)
  obtain runs where runs: "evs = concat (map al_events runs)" "run_of (ce_router ce) inp {ce_try1 ce, ce_try2 ce} [] runs"
    using rt unfolding chat_route_def by (rule route_run)
  then have "\<forall>a \<in> set runs. one_attempt (ce_router ce) inp (fst a) (al_streamed a) (al_events a)"
      "\<forall>a \<in> set (butlast runs). \<not> al_streamed a" by (simp_all add: run_of_def)
  from chat_runs [OF this assms, of na rid i v] show ?thesis unfolding rt fst_conv runs(1) by fastforce
qed

subsection \<open>Every request is answered, and a good status names the node that served\<close>

lemma error_status [simp]: "\<not> fst (toErrorResponse t) < 400"
  using err_status_range by (auto simp: toErrorResponse_def not_less split: thrown.split)

lemma errorHandler_reply:
  "gr_ended (errorHandler (Raised t) r)" "gr_headers (errorHandler (Raised t) r) = gr_headers r"
  "gr_status (errorHandler (Raised t) r) = (if gr_sent r then gr_status r else fst (toErrorResponse t))"
  "gr_sent r \<Longrightarrow> gr_body (errorHandler (Raised t) r) = gr_body r"
  by (auto simp: errorHandler_def normalizeBodyParserError_def gw_error_response_def reply_json_def reply_end_def
      split: prod.split)

text \<open>
  The answer came from one node: the last one the router selected and sent the request to, with nothing
  written to the client before. A streamed body is the bytes the router wrote (all after that request),
  another body the JSON the router returned for that node; response and routing note name it.
\<close>

definition served_reply :: "'d chat_env \<Rightarrow> string \<Rightarrow> gw_request \<Rightarrow> http_reply \<times> svc \<Rightarrow> node_record \<Rightarrow> bool" where
  "served_reply ce uuid q rv node \<longleftrightarrow> (\<exists>request. ChatCompletionRequestSchema (gq_body q) = Some request \<and>
     (case chat_route ce (chat_input uuid request) of (evs, hosts', res) \<Rightarrow>
        last_source (ce_router ce) (chat_input uuid request) evs node \<and>
        (if cr_stream request = Some True
         then (\<exists>ct. SinkBegin ct \<in> set evs) \<and> gr_body (fst rv) = map BytesPart (writes_of evs)
         else (\<exists>result. res = Inr result \<and> rr_node result = node \<and>
           gr_body (fst rv) = [JsonPart (case rr_body result of Some b \<Rightarrow> b | None \<Rightarrow> JUndef)]))) \<and>
     names_node (ce_noteAt ce) uuid node rv)"

lemma streamed_fetch: "one_attempt ro inp node True evs \<Longrightarrow> fetch_of ro inp node \<in> set evs"
  by (auto simp: one_attempt_def call_events_def)

lemma streamed_begin: "one_attempt ro inp node True evs \<Longrightarrow> \<exists>ct. SinkBegin ct \<in> set evs"
  by (auto simp: one_attempt_def call_events_def streamed_events_def)

lemma post_chat_answer:
  assumes r: "\<not> gr_sent r" "\<not> gr_ended r" "gr_body r = []" and q: "gq_id q = Some uuid"
    and p: "post_chat ce fresh q (r, v) = (r', v')"
  shows "gr_ended r' \<and> jget (gr_headers r') REQUEST_ID_HEADER = jget (gr_headers r) REQUEST_ID_HEADER \<and>
    v_claimed v' = v_claimed v \<and> v_due v' = v_due v \<and> (gr_status r' < 400 \<longrightarrow> (\<exists>node. served_reply ce uuid q (r', v') node))"
proof (cases "ChatCompletionRequestSchema (gq_body q)")
  case None
  then have "r' = errorHandler (Raised (as_thrown (Exn ValidationErr (''invalid '' @ ''chat completion request'')))) r" "v' = v"
    using p by (simp_all add: post_chat_def handleChat_def parseOrThrow_def)
  then show ?thesis using r(1) by (simp add: errorHandler_reply)
next
  case (Some request)
  let ?inp = "chat_input uuid request" and ?ro = "ce_router ce"
  obtain evs hosts' res where rt: "chat_route ce ?inp = (evs, hosts', res)" by (metis prod_cases3)
  obtain runs where runs: "evs = concat (map al_events runs)" "run_of ?ro ?inp {ce_try1 ce, ce_try2 ce} [] runs"
      "served_by ?ro ?inp runs res"
    using rt unfolding chat_route_def by (rule route_run)
  have one: "\<forall>a \<in> set runs. one_attempt ?ro ?inp (fst a) (al_streamed a) (al_events a)"
      and st: "\<forall>a \<in> set (butlast runs). \<not> al_streamed a"
    using runs(2) by (simp_all add: run_of_def)
  obtain r1 v1 where ev: "chat_events (ce_noteAt ce) uuid evs (0, r, v) = Some (length runs, r1, v1)"
      and v1: "v_claimed v1 = v_claimed v" "v_due v1 = v_due v"
      and rid: "jget (gr_headers r1) REQUEST_ID_HEADER = jget (gr_headers r) REQUEST_ID_HEADER"
      and body: "gr_body r1 = map BytesPart (writes_of evs)"
      and empty: "runs = [] \<Longrightarrow> r1 = r"
      and named: "runs \<noteq> [] \<Longrightarrow> gr_sent r1 = al_streamed (last runs) \<and> gr_ended r1 = al_streamed (last runs) \<and>
         gr_status r1 = (if al_streamed (last runs) then 200 else gr_status r) \<and> 
         names_node (ce_noteAt ce) uuid (fst (last runs)) (r1, v1)"
    using chat_runs [OF one st r(1), of "ce_noteAt ce" uuid 0 v] r(2,3) unfolding runs(1) names_node_def
    by (auto split: if_splits)
  have named': "names_node (ce_noteAt ce) uuid (fst (last runs)) (r2, v1)"
    if "runs \<noteq> []" "jget (gr_headers r2) NODE_ID_HEADER = jget (gr_headers r1) NODE_ID_HEADER" for r2
    using named [OF that(1)] that(2) by (simp add: names_node_def)
  have streamed: "\<exists>node. served_reply ce uuid q (r2, v1) node"
    if l: "runs \<noteq> []" "al_streamed (last runs)" and r2: "gr_headers r2 = gr_headers r1" "gr_body r2 = gr_body r1" for r2
  proof -
    have o: "one_attempt ?ro ?inp (fst (last runs)) True (al_events (last runs))" using one l by (metis last_in_set)
    have "last_source ?ro ?inp evs (fst (last runs))" unfolding runs(1) by (rule run_source [OF runs(2) l(1) streamed_fetch [OF o]])
    moreover have "\<exists>ct. SinkBegin ct \<in> set evs" using streamed_begin [OF o] l(1) unfolding runs(1) by (auto intro: last_in_set)
    moreover have "cr_stream request = Some True"
      using o by (auto simp: one_attempt_def call_events_def chat_input_def)
    ultimately show ?thesis using Some rt named' [OF l(1)] r2 body
      by (intro exI [of _ "fst (last runs)"]) (simp add: served_reply_def)
  qed
  show ?thesis
  proof (cases res)
    case (Inl e)
    have eq: "r' = errorHandler (Raised (Mesh e)) r1" "v' = v1"
      using p Some rt ev Inl q by (simp_all add: post_chat_def handleChat_def parseOrThrow_def getRequestId_def)
    have "\<exists>node. served_reply ce uuid q (r', v1) node" if "gr_status r' < 400"
    proof -
      have sent: "gr_sent r1" using that eq(1) by (simp add: errorHandler_reply split: if_splits)
      then have "runs \<noteq> []" "al_streamed (last runs)" using empty named r(1) by auto
      then show ?thesis using streamed eq(1) sent by (simp add: errorHandler_reply)
    qed
    then show ?thesis using eq v1 rid by (simp add: errorHandler_reply)
  next
    case (Inr result)
    have l: "runs \<noteq> []" "fetch_of ?ro ?inp (fst (last runs)) \<in> set (al_events (last runs))"
        "ri_sink ?inp \<longrightarrow> al_streamed (last runs)" "rr_node result = fst (last runs)"
      using runs(3) Inr by (simp_all add: served_by_def)
    show ?thesis
    proof (cases "cr_stream request = Some True")
      case True
      then have "r' = r1" "v' = v1" "al_streamed (last runs)"
        using p Some rt ev Inr q l(3)
        by (simp_all add: post_chat_def handleChat_def parseOrThrow_def getRequestId_def chat_input_def)
      then show ?thesis using named [OF l(1)] streamed [OF l(1)] v1 rid by simp
    next
      case False
      have o: "one_attempt ?ro ?inp (fst (last runs)) (al_streamed (last runs)) (al_events (last runs))"
        using one l(1) by (metis last_in_set)
      then have ns: "\<not> al_streamed (last runs)"
        using False by (auto simp: one_attempt_def call_events_def chat_input_def)
      then have "\<not> gr_sent r1" using named [OF l(1)] by simp
      then have r': "v' = v1" "gr_ended r'" "jget (gr_headers r') REQUEST_ID_HEADER = jget (gr_headers r1) REQUEST_ID_HEADER"
          "jget (gr_headers r') NODE_ID_HEADER = jget (gr_headers r1) NODE_ID_HEADER"
          "gr_body r' = gr_body r1 @ [JsonPart (case rr_body result of Some b \<Rightarrow> b | None \<Rightarrow> JUndef)]"
        using p Some rt ev Inr q False
        by (auto simp: post_chat_def handleChat_def parseOrThrow_def getRequestId_def reply_json_def jget_jset)
      have "writes_of evs = []"
      proof -
        have "\<not> al_streamed a" if "a \<in> set runs" for a
          using one that False by (auto simp: one_attempt_def call_events_def chat_input_def)
        then have "\<forall>ev \<in> set evs. \<not> sink_call ev" using one unstreamed_attempt unfolding runs(1) by fastforce
        then show ?thesis by (rule writes_of_none)
      qed
      then have "gr_body r' = [JsonPart (case rr_body result of Some b \<Rightarrow> b | None \<Rightarrow> JUndef)]" using r'(5) body by simp
      moreover have "last_source ?ro ?inp evs (fst (last runs))"
        unfolding runs(1) by (rule run_source [OF runs(2) l(1,2)])
      ultimately have "served_reply ce uuid q (r', v1) (fst (last runs))"
        using Some rt Inr False l(4) named' [OF l(1) r'(4)] by (simp add: served_reply_def)
      then show ?thesis using r' v1 rid by auto
    qed
  qed
qed

lemma serve_chat_answer:
  assumes "serve_chat ce uuid q v = (r, v')"
  shows "gr_ended r \<and> jget (gr_headers r) REQUEST_ID_HEADER = Some uuid \<and> v_claimed v' = v_claimed v \<and>
    v_due v' = v_due v \<and> (gr_status r < 400 \<longrightarrow> (\<exists>node. served_reply ce uuid q (r, v') node))"
proof -
  let ?r = "new_reply\<lparr>gr_headers := jset REQUEST_ID_HEADER uuid []\<rparr>"
  have "post_chat ce uuid (q\<lparr>gq_id := Some uuid\<rparr>) (?r, v) = (r, v')"
    using assms by (simp add: serve_chat_def requestId_def new_reply_def)
  from post_chat_answer [OF _ _ _ _ this] show ?thesis
    by (simp add: new_reply_def served_reply_def)
qed

subsection \<open>The settlement hook\<close>

text \<open>What the SDK hands the hook: the headers of the handler's response.\<close>

definition transport_of :: "http_reply \<Rightarrow> jsval" where
  "transport_of r = JObj [(''responseHeaders'', JObj (map (\<lambda>(k, s). (k, JStr s)) (gr_headers r)))]"

text \<open>A payment the facilitator confirmed: success, a transaction id and an amount in digits.\<close>

definition evidenced :: "settle_context \<Rightarrow> string \<Rightarrow> int \<Rightarrow> bool" where
  "evidenced c tx n \<longleftrightarrow> sx_success c = JBool True \<and> sx_transaction c = JStr tx \<and> tx \<noteq> [] \<and>
     (\<exists>w. settled_amount c = JStr w \<and> wire_digits w \<and> n = int (dec_val w))"

lemma hook_inbound_Inr:
  "hook_inbound c = Inr inb \<longleftrightarrow>
     jget (responseHeadersOf (sx_transport c)) REQUEST_ID_HEADER = Some (in_requestId inb) \<and> in_requestId inb \<noteq> [] \<and>
     evidenced c (in_inboundTxId inb) (in_inboundAtomic inb) \<and>
     in_payerAddress inb = (case sx_payer c of Some p \<Rightarrow> p | None \<Rightarrow> [])"
  by (cases inb) (auto simp: hook_inbound_def evidenced_def parseInboundAmount_def
      split: option.split jsval.splits)

lemma keep_headers_get:
  assumes "\<forall>(k, s) \<in> set kvs. to_lower k = k \<and> k \<noteq> ''__proto__''" "distinct (map fst kvs)"
  shows "jget (fold keep_header (map (\<lambda>(k, s). (k, JStr s)) kvs) m) k =
    (case jget kvs k of Some s \<Rightarrow> Some s | None \<Rightarrow> jget m k)"
  using assms
proof (induction kvs arbitrary: m)
  case (Cons x kvs)
  obtain a s where x: "x = (a, s)" by (cases x)
  then have step: "keep_header (a, JStr s) m = jset a s m" using Cons.prems(1) by (simp add: keep_header_def)
  show ?case
  proof (cases "k = a")
    case True
    with Cons.prems(2) x have none: "k \<notin> fst ` set kvs" "jget kvs k = None" by (auto simp: map_of_eq_None_iff)
    have "jget (fold keep_header (map (\<lambda>(k, s). (k, JStr s)) kvs) (jset a s m)) k = jget (jset a s m) k"
      using Cons.IH [of "jset a s m"] Cons.prems none by simp
    then show ?thesis using True x step by (simp add: jget_jset)
  next
    case False
    then show ?thesis
      using Cons.IH [of "jset a s m"] Cons.prems x step by (simp add: jget_jset split: option.split)
  qed
qed simp

text \<open>The headers the gateway sets have lower-case names of their own.\<close>

definition headers_ok :: "http_reply \<Rightarrow> bool" where
  "headers_ok r \<longleftrightarrow> jwf (gr_headers r) \<and> (\<forall>(k, s) \<in> set (gr_headers r). to_lower k = k \<and> k \<noteq> ''__proto__'')"

lemma transport_headers: "headers_ok r \<Longrightarrow> jget (responseHeadersOf (transport_of r)) k = jget (gr_headers r) k"
  using keep_headers_get [where kvs = "gr_headers r" and k = k and m = "[]"]
  by (simp add: responseHeadersOf_def transport_of_def property_of_def own_entries_def headers_ok_def jwf_def
      split: option.split)

text \<open>
  C12: Only a confirmed, evidenced payment reaches the settlement service: the hook changes the
  service's state only if the response carried a request id, the facilitator reported \<open>success\<close>
  as the boolean true with a non-empty transaction id and an amount in decimal digits; it then settles
  exactly that request, transaction and amount.
\<close>

theorem hook_settles_only_evidence:
  "attachSettlementHook e tm c v = (why, v') \<Longrightarrow>
   (case why of
      Some _ \<Rightarrow> v' = v
    | None \<Rightarrow> \<exists>inb. v' = settleInbound e tm inb v \<and>
        jget (responseHeadersOf (sx_transport c)) REQUEST_ID_HEADER = Some (in_requestId inb) \<and> in_requestId inb \<noteq> [] \<and>
        evidenced c (in_inboundTxId inb) (in_inboundAtomic inb))"
  by (cases "hook_inbound c") (auto simp: attachSettlementHook_def hook_inbound_Inr)

definition ex_confirmed :: "jsval \<Rightarrow> settle_context" where
  "ex_confirmed transport = \<lparr>sx_transport = transport, sx_success = JBool True, sx_transaction = JStr ''T'',
     sx_amount = JUndef, sx_payer = Some ''P'', sx_required = JStr ''2000''\<rparr>"

lemma hook_settles_only_evidence_witness:
  "\<exists>inb v'. v' = settleInbound ex_env 20 inb ex_routed \<and> in_inboundTxId inb = ''T'' \<and> in_requestId inb = ''q1''"
proof -
  let ?r = "new_reply\<lparr>gr_headers := [(''x-request-id'', ''q1'')]\<rparr>"
  have "jget (responseHeadersOf (transport_of ?r)) REQUEST_ID_HEADER = Some ''q1''"
    by (simp add: responseHeadersOf_def transport_of_def property_of_def own_entries_def keep_header_def
        to_lower_def lower_char_def is_upper_def code_def REQUEST_ID_HEADER_def)
  moreover have "dec_val ''2000'' = 2000" using dec_val_nat_str [of 2000] by (simp add: ex_digits)
  moreover have "wire_digits ''2000''" by (simp add: wire_digits_def is_digit_def code_def)
  ultimately obtain v' where h: "attachSettlementHook ex_env 20 (ex_confirmed (transport_of ?r)) ex_routed = (None, v')"
    by (simp add: attachSettlementHook_def hook_inbound_def ex_confirmed_def settled_amount_def parseInboundAmount_def)
  from hook_settles_only_evidence [OF h] obtain inb where
    "v' = settleInbound ex_env 20 inb ex_routed" "evidenced (ex_confirmed (transport_of ?r)) (in_inboundTxId inb) (in_inboundAtomic inb)"
    "jget (responseHeadersOf (sx_transport (ex_confirmed (transport_of ?r)))) REQUEST_ID_HEADER = Some (in_requestId inb)"
    by auto
  then show ?thesis
    using \<open>jget (responseHeadersOf (transport_of ?r)) REQUEST_ID_HEADER = Some ''q1''\<close>
    by (auto simp: evidenced_def ex_confirmed_def)
qed

end
