(* ===== verification/ChatSettlement.thy ===== *)
theory ChatSettlement
  imports ChatProps
begin

section \<open>The operator who served a request is the one its payment credits\<close>

text \<open>
  Between the end of a chat handler and the settlement hook of its payment the service serves other
  requests: \<open>other_step\<close> is any turn of it that is not about this request id. The routing note
  survives those turns while it is younger than its time to live, so the hook finds the node that served.
\<close>

subsection \<open>The headers of a response have distinct lower-case names\<close>

lemma to_lower_proto: "to_lower NODE_ID_HEADER \<noteq> ''__proto__''" "to_lower REQUEST_ID_HEADER \<noteq> ''__proto__''"
  "to_lower ROUTE_REASON_HEADER \<noteq> ''__proto__''"
  by (simp_all add: NODE_ID_HEADER_def REQUEST_ID_HEADER_def ROUTE_REASON_HEADER_def to_lower_def lower_char_def
      is_upper_def code_def)

lemma reply_header_ok:
  assumes "reply_header k s r = Some r'" "to_lower k \<noteq> ''__proto__''" "headers_ok r"
  shows "headers_ok r'"
  using assms jset_set_subset [of "to_lower k" s "gr_headers r"]
  by (auto simp: reply_header_def headers_ok_def to_lower_idem intro: jwf_jset split: if_splits)

lemma headers_ok_frame: "headers_ok r \<Longrightarrow> gr_headers r' = gr_headers r \<Longrightarrow> headers_ok r'"
  by (simp add: headers_ok_def)

lemma reply_json_ok: "reply_json st b r = Some r' \<Longrightarrow> headers_ok r \<Longrightarrow> headers_ok r'"
  by (auto simp: reply_json_def headers_ok_def split: if_splits)

lemma sink_open_headers:
  assumes "sink_open ct r = Some r'" "headers_ok r"
  shows "headers_ok r'"
proof -
  obtain r1 r2 r3 r4 where s: "reply_header ''content-type'' ct (r\<lparr>gr_status := 200\<rparr>) = Some r1"
      "reply_header ''cache-control'' ''no-cache, no-transform'' r1 = Some r2"
      "reply_header ''connection'' ''keep-alive'' r2 = Some r3"
      "reply_header ''x-accel-buffering'' ''no'' r3 = Some r4" "r' = r4\<lparr>gr_sent := True\<rparr>"
    using assms(1) by (auto simp: sink_open_def bind_eq_Some_conv)
  have "headers_ok (r\<lparr>gr_status := 200\<rparr>)" using assms(2) by (rule headers_ok_frame) simp
  then have "headers_ok r1" by (rule reply_header_ok [OF s(1), rotated]) simp
  then have "headers_ok r2" by (rule reply_header_ok [OF s(2), rotated]) simp
  then have "headers_ok r3" by (rule reply_header_ok [OF s(3), rotated]) simp
  then have "headers_ok r4" by (rule reply_header_ok [OF s(4), rotated]) simp
  then show ?thesis unfolding s(5) by (rule headers_ok_frame) simp
qed

lemma chat_event_headers:
  assumes "chat_event na rid ev (i, r, v) = Some (j, r', v')" "headers_ok r"
  shows "headers_ok r'"
proof (cases ev)
  case (NodeSelected node)
  then show ?thesis
    using assms reply_header_ok [OF _ to_lower_proto(1), of "n_nodeId node" r r'] by (auto simp: bind_eq_Some_conv simp del: header_names)
next
  case (SinkBegin ct)
  then show ?thesis using assms sink_open_headers by (auto simp: bind_eq_Some_conv)
next
  case (SinkWrite bs)
  then have "gr_headers r' = gr_headers r" using assms by (auto simp: sink_put_def)
  with assms(2) show ?thesis by (rule headers_ok_frame)
next
  case SinkEnd
  then have "gr_headers r' = gr_headers r" using assms by (auto simp: sink_close_def reply_end_def)
  with assms(2) show ?thesis by (rule headers_ok_frame)
qed (use assms in auto)

lemma chat_events_headers:
  "chat_events na rid evs (i, r, v) = Some (j, r', v') \<Longrightarrow> headers_ok r \<Longrightarrow> headers_ok r'"
proof (induction evs arbitrary: i r v)
  case (Cons ev evs)
  obtain i1 r1 v1 where s: "chat_event na rid ev (i, r, v) = Some (i1, r1, v1)"
      "chat_events na rid evs (i1, r1, v1) = Some (j, r', v')"
    using Cons.prems(1) by (auto simp: bind_eq_Some_conv)
  show ?case by (rule Cons.IH [OF s(2) chat_event_headers [OF s(1) Cons.prems(2)]])
qed simp

lemma handleChat_headers:
  assumes "handleChat ce uuid q (r, v) = ((r', v'), t)" "headers_ok r"
  shows "headers_ok r'"
proof (cases "ChatCompletionRequestSchema (gq_body q)")
  case None
  with assms show ?thesis by (auto simp: handleChat_def parseOrThrow_def)
next
  case (Some request)
  obtain evs h res where rt: "chat_route ce (chat_input (getRequestId uuid q) request) = (evs, h, res)" by (metis prod_cases3)
  show ?thesis
  proof (cases "chat_events (ce_noteAt ce) (getRequestId uuid q) evs (0, r, v)")
    case None
    with assms Some rt show ?thesis by (auto simp: handleChat_def parseOrThrow_def)
  next
    case (Some irv)
    obtain i r1 v1 where irv: "irv = (i, r1, v1)" by (cases irv)
    have ok: "headers_ok r1" using chat_events_headers [OF Some [unfolded irv] assms(2)] .
    have "r' = r1 \<or> (\<exists>s b r2. reply_header ROUTE_REASON_HEADER s r1 = Some r2 \<and> reply_json 200 b r2 = Some r')"
      using assms(1) \<open>ChatCompletionRequestSchema (gq_body q) = Some request\<close> rt Some irv
      by (auto simp: handleChat_def parseOrThrow_def bind_eq_Some_conv simp del: header_names
          split: sum.splits if_splits option.splits)
    then show ?thesis using ok reply_header_ok [OF _ to_lower_proto(3)] reply_json_ok by blast
  qed
qed

lemma serve_chat_headers:
  assumes "serve_chat ce uuid q v = (r, v')"
  shows "headers_ok r"
proof -
  let ?r = "new_reply\<lparr>gr_headers := [(REQUEST_ID_HEADER, uuid)]\<rparr>" and ?q = "q\<lparr>gq_id := Some uuid\<rparr>"
  have ok: "headers_ok ?r" using to_lower_proto(2) by (simp add: headers_ok_def jwf_def)
  have p: "post_chat ce uuid ?q (?r, v) = (r, v')"
    using assms by (simp add: serve_chat_def requestId_def new_reply_def)
  obtain r1 v1 t where h: "handleChat ce uuid ?q (?r, v) = ((r1, v1), t)" by (metis prod.exhaust)
  have "gr_headers r = gr_headers r1"
    using p h by (auto simp: post_chat_def errorHandler_reply split: option.splits)
  with handleChat_headers [OF h ok] show ?thesis by (rule headers_ok_frame)
qed

subsection \<open>Turns of the service that are about other requests\<close>

inductive other_step :: "env \<Rightarrow> string \<Rightarrow> int \<Rightarrow> svc \<Rightarrow> svc \<Rightarrow> bool" for e rid until where
  other_route: "rid' \<noteq> rid \<Longrightarrow> tm < until \<Longrightarrow> other_step e rid until v (recordRouting tm rid' nid op v)"
| other_settle: "in_requestId inb \<noteq> rid \<Longrightarrow> other_step e rid until v (settleInbound e tm inb v)"
| other_flush: "other_step e rid until v (flushAccrual e tm op v)"
| other_round: "other_step e rid until v (flush_round e tm v)"
| other_reply: "job_reply e tm tid rep v = Some v' \<Longrightarrow> other_step e rid until v v'"
| other_write: "write_done key v = Some v' \<Longrightarrow> other_step e rid until v v'"

lemma finalize_routing [simp]:
  "v_routing (finalizeSettled e tm rs tx b v) = v_routing v" "v_routing (finalizeFailed e tm rs why b v) = v_routing v"
  by (auto simp: finalizeSettled_def finalizeFailed_def Let_def split: option.split)

lemma flushAccrual_routing [simp]: "v_routing (flushAccrual e tm op v) = v_routing v"
  by (auto simp: flushAccrual_def Let_def split: option.split)

lemma flush_keys_routing [simp]: "v_routing (flush_keys e tm ks v) = v_routing v"
  by (induction ks arbitrary: v) simp_all

lemma accrue_routing [simp]: "v_routing (accrue e tm r owed v) = v_routing v"
proof -
  obtain a v1 where p: "push_record r owed (find_accrual tm (s_operatorAddress r)
      (update e (s_requestId r) (r\<lparr>s_status := Accrued\<rparr>) v)) = (a, v1)" by fastforce
  show ?thesis by (simp add: accrue_def p push_record_frame [OF p])
qed

lemma pay_or_accrue_routing [simp]: "v_routing (pay_or_accrue e tm r v) = v_routing v"
  by (simp add: pay_or_accrue_def)

text \<open>The note of a request that waits for its payment.\<close>

definition awaiting :: "string \<Rightarrow> routing_note \<Rightarrow> svc \<Rightarrow> bool" where
  "awaiting rid note v \<longleftrightarrow> jget (v_routing v) rid = Some note \<and> rid \<notin> set (v_claimed v)"

lemma prune_keeps:
  "jget m k = Some n \<Longrightarrow> \<not> P (k, n) \<Longrightarrow> jget (dropWhile P m) k = Some n"
  by (induction m) (auto split: if_splits)

lemma awaiting_step:
  assumes "other_step e rid until v v'" "awaiting rid note v" "until \<le> rn_at note + ROUTING_NOTE_TTL_MS"
  shows "awaiting rid note v'"
  using assms(1)
proof cases
  case (other_route rid' tm nid op)
  have "jget (v_routing (pruneRouting tm v)) rid = Some note"
    using assms(2,3) other_route unfolding awaiting_def pruneRouting_def by (simp add: prune_keeps)
  with assms(2) other_route show ?thesis
    by (simp add: awaiting_def recordRouting_def Let_def jget_jset pruneRouting_def)
next
  case (other_settle inb tm)
  with assms(2) show ?thesis
    by (auto simp: awaiting_def settleInbound_def Let_def jget_jdel pay_or_accrue_due split: option.split sum.split)
next
  case (other_reply tm tid rep)
  then obtain t where t: "jget (v_tasks v) tid = Some t"
      "task_reply e tm tid (tk_phase t) (tk_lastError t) rep v = Some v'"
    by (auto simp: job_reply_def split: option.splits)
  then have "v_routing v' = v_routing v \<and> v_claimed v' = v_claimed v"
    by (cases "(e, tm, tid, tk_phase t, tk_lastError t, rep, v)" rule: task_reply.cases)
      (auto simp: Let_def split: if_splits)
  with assms(2) show ?thesis by (simp add: awaiting_def)
next
  case (other_write key)
  with assms(2) show ?thesis by (auto simp: awaiting_def dest!: write_done_frame)
qed (use assms(2) in \<open>simp_all add: awaiting_def flush_round_def\<close>)

lemma awaiting_steps:
  assumes "(other_step e rid until)\<^sup>*\<^sup>* v v'" "awaiting rid note v" "until \<le> rn_at note + ROUTING_NOTE_TTL_MS"
  shows "awaiting rid note v'"
  using assms by (induction rule: rtranclp_induct) (blast intro: awaiting_step)+

subsection \<open>What one inbound payment adds\<close>

lemma openRecord_total:
  assumes "sc_marginBps (e_config e) = Fin (of_int m)" "0 \<le> m" "m \<le> 10000" "0 \<le> in_inboundAtomic inb"
  obtains r where "openRecord e tm inb note = Inr r" "s_requestId r = in_requestId inb" "s_nodeId r = rn_nodeId note"
    "s_operatorAddress r = rn_operatorAddress note" "s_inboundTxId r = in_inboundTxId inb"
    "s_payerAddress r = in_payerAddress inb"
    "payout_of r = in_inboundAtomic inb - in_inboundAtomic inb * m div 10000"
proof -
  let ?a = "in_inboundAtomic inb"
  note c = computeSplit_valid [OF assms(4,2,3)] and mb = margin_bounds [OF assms(4,2,3)]
  have "\<exists>r. openRecord e tm inb note = Inr r \<and> s_requestId r = in_requestId inb \<and> s_nodeId r = rn_nodeId note \<and>
      s_operatorAddress r = rn_operatorAddress note \<and> s_inboundTxId r = in_inboundTxId inb \<and>
      s_payerAddress r = in_payerAddress inb \<and> payout_of r = ?a - ?a * m div 10000"
    using mb assms(4)
    by (simp add: openRecord_def assms(1) c assertSplitInvariant_computeSplit [OF c] atomicToWire_def payout_of_def)
  with that show thesis by blast
qed

lemma settle_awaiting:
  assumes "awaiting (in_requestId inb) note v" "openRecord e tm inb note = Inr r"
  shows "v_due (settleInbound e tm inb v) = (if payout_of r = 0 then v_due v else v_due v @ [r])"
  using assms by (simp add: awaiting_def settleInbound_def Let_def pay_or_accrue_due)

subsection \<open>The payment of a served request\<close>

text \<open>
  C9: The operator who served a request is the one its payment credits. Take a chat request answered with a
  status below 400 under a fresh id, any turns of the service about other requests before the routing
  note expires, and a confirmed payment whose context carries the headers of that response: the
  hook adds to the records due exactly one record (none if the operator's share is zero), for the
  node the answer came from (\<open>served_reply\<close>: the last one selected and sent the request, to whose call
  all of the body belongs), its operator, that transaction, and the amount less the margin.
\<close>

theorem served_operator_is_credited:
  assumes "serve_chat ce uuid q v = (r, v1)" "gr_status r < 400" "uuid \<noteq> []" "uuid \<notin> set (v_claimed v)"
    and "(other_step e uuid until)\<^sup>*\<^sup>* v1 w" "\<forall>i. until \<le> ce_noteAt ce i + ROUTING_NOTE_TTL_MS"
    and "sx_transport c = transport_of r" "evidenced c tx n"
    and "sc_marginBps (e_config e) = Fin (of_int m)" "0 \<le> m" "m \<le> 10000"
  shows "\<exists>node credit. served_reply ce uuid q (r, v1) node \<and>
    s_requestId credit = uuid \<and> s_nodeId credit = n_nodeId node \<and>
    s_operatorAddress credit = r_operatorAddress (n_registration node) \<and> s_inboundTxId credit = tx \<and>
    payout_of credit = n - n * m div 10000 \<and>
    v_due (snd (attachSettlementHook e tm c w)) = v_due w @ (if payout_of credit = 0 then [] else [credit])"
proof -
  have a: "jget (gr_headers r) REQUEST_ID_HEADER = Some uuid" "v_claimed v1 = v_claimed v" "\<exists>node. served_reply ce uuid q (r, v1) node"
    using serve_chat_answer [OF assms(1)] assms(2) by simp_all
  then obtain node where s: "served_reply ce uuid q (r, v1) node" by blast
  then obtain i where note1: "jget (v_routing v1) uuid = Some \<lparr>rn_nodeId = n_nodeId node,
        rn_operatorAddress = r_operatorAddress (n_registration node), rn_at = ce_noteAt ce i\<rparr>"
    by (auto simp: served_reply_def names_node_def)
  let ?note = "\<lparr>rn_nodeId = n_nodeId node, rn_operatorAddress = r_operatorAddress (n_registration node),
      rn_at = ce_noteAt ce i\<rparr>"
  have "awaiting uuid ?note v1" using note1 a(2) assms(4) by (simp add: awaiting_def)
  then have w: "awaiting uuid ?note w" using awaiting_steps [OF assms(5)] assms(6) by simp
  let ?inb = "\<lparr>in_requestId = uuid, in_payerAddress = (case sx_payer c of Some p \<Rightarrow> p | None \<Rightarrow> []),
      in_inboundTxId = tx, in_inboundAtomic = n\<rparr>"
  have "0 \<le> n" using assms(8) by (auto simp: evidenced_def)
  then obtain credit where o: "openRecord e tm ?inb ?note = Inr credit" "s_requestId credit = uuid"
      "s_nodeId credit = n_nodeId node" "s_operatorAddress credit = r_operatorAddress (n_registration node)"
      "s_inboundTxId credit = tx" "payout_of credit = n - n * m div 10000"
    using openRecord_total [OF assms(9-11), of ?inb tm ?note] by auto
  have "hook_inbound c = Inr ?inb"
    using transport_headers [OF serve_chat_headers [OF assms(1)], of REQUEST_ID_HEADER] a(1) assms(3,7,8)
    by (simp add: hook_inbound_Inr)
  then have "snd (attachSettlementHook e tm c w) = settleInbound e tm ?inb w" by (simp add: attachSettlementHook_def)
  moreover have "v_due (settleInbound e tm ?inb w) = v_due w @ (if payout_of credit = 0 then [] else [credit])"
    using settle_awaiting [OF _ o(1)] w by simp
  ultimately show ?thesis using s o by (intro exI [of _ node] exI [of _ credit]) simp
qed

subsection \<open>A request, its stream and its payment\<close>

definition ex_body :: jsval where
  "ex_body = JObj [(''model'', JStr ''m''), (''messages'', JArr [JObj [(''role'', JStr ''user''), (''content'', JStr ''hi'')]]),
     (''stream'', JBool True)]"

definition ex_chat_request :: chat_request where
  "ex_chat_request = \<lparr>cr_model = ''m'', cr_messages = [\<lparr>cm_role = ''user'', cm_content = ''hi''\<rparr>], cr_stream = Some True,
     cr_max_tokens = None, cr_temperature = None, cr_top_p = None, cr_stop = None\<rparr>"

definition ex_gw_request :: gw_request where
  "ex_gw_request = \<lparr>gq_headers = [(''x-request-id'', ''forged'')], gq_id = None, gq_body = ex_body\<rparr>"

definition ex_chat :: "unit chat_env" where
  "ex_chat = \<lparr>ce_router = ex_router, ce_try1 = ex_attempt ex_reply, ce_try2 = ex_attempt ex_reply, ce_hosts = [],
     ce_noteAt = (\<lambda>_. 10), ce_fmt = (\<lambda>_. [])\<rparr>"

lemma ex_chat_parse: "ChatCompletionRequestSchema ex_body = Some ex_chat_request"
  by (simp add: ChatCompletionRequestSchema_def ex_body_def ex_chat_request_def z_object_def z_string_def z_array_def
      z_optional_def z_bool_def member_of_def ChatMessageSchema_def isSafeModelId_def model_id_char_def len_between_def
      is_lower_ascii_def is_upper_ascii_def is_digit_def code_def)

lemma ex_model: "cr_model (ri_request ex_input) = ''m''"
  by (simp add: ex_input_def)

lemma ex_route_streamed:
  assumes "ri_sink inp" "cr_model (ri_request inp) = ''m''"
  shows "\<exists>res. route ex_router inp (ex_attempt ex_reply) (ex_attempt ex_reply) [] =
    ([NodeSelected (ex_node ''a''), BeginRequest ''a'' True, fetch_of ex_router inp (ex_node ''a''),
      SinkBegin ''text/event-stream'', SinkWrite [0x64, 0x3a], SinkWrite (utf8 DONE_FRAME), SinkEnd,
      outcome_event (ex_attempt ex_reply) ''a'' True (Fin 160) None, EndRequest ''a'' True], [], Inr res)"
proof -
  have sel: "select_node ex_router inp (ex_attempt ex_reply) [] = Inr (ex_node ''a'')"
    using ex_select_node [of ex_reply] unfolding select_node_def ex_model assms(2) .
  have perf: "performCall ex_router inp (ex_node ''a'') (ex_attempt ex_reply) new_sink [] =
    ([fetch_of ex_router inp (ex_node ''a''), SinkBegin ''text/event-stream'', SinkWrite [0x64, 0x3a],
      SinkWrite (utf8 DONE_FRAME), SinkEnd], \<lparr>tk_started = True, tk_ended = True\<rparr>, [], Inr None)"
    using assms(1) by (simp add: performCall_def Let_def ex_guard ex_reply_def receive_def response_ok_def ex_stream fetch_of_def)
  show ?thesis
    by (simp add: route_def sel callNode_def perf Let_def)
qed

lemma ex_served: "\<exists>r v1. serve_chat ex_chat ''q1'' ex_gw_request init_svc = (r, v1) \<and> gr_status r = 200 \<and> v_due v1 = []"
proof -
  let ?inp = "chat_input ''q1'' ex_chat_request"
  obtain res where "chat_route ex_chat ?inp =
    ([NodeSelected (ex_node ''a''), BeginRequest ''a'' True, fetch_of ex_router ?inp (ex_node ''a''),
      SinkBegin ''text/event-stream'', SinkWrite [0x64, 0x3a], SinkWrite (utf8 DONE_FRAME), SinkEnd,
      outcome_event (ex_attempt ex_reply) ''a'' True (Fin 160) None, EndRequest ''a'' True], [], Inr res)"
    using ex_route_streamed [of ?inp] by (auto simp: chat_route_def chat_input_def ex_chat_def ex_chat_request_def)
  then show ?thesis
    by (simp add: serve_chat_def requestId_def new_reply_def post_chat_def handleChat_def getRequestId_def ex_gw_request_def
        parseOrThrow_def ex_chat_parse fetch_of_def outcome_event_def sink_open_def sink_put_def sink_close_def reply_end_def
        ex_chat_request_def recordRouting_note init_svc_def)
qed

text \<open>
  C10: Every chat request is answered and its response ends, under the fresh request id whatever id the
  client sent; answering adds no record to those due. A status below 400, the one on
  which the payment may settle, means that the body parsed and the answer came from one node, the last
  one the router selected and sent the request to: nothing was written to the client before that
  request, a streamed body is exactly the bytes the router wrote, another body exactly the
  JSON the router returned for that node, and both the response and the routing note name that node.
\<close>

theorem chat_request_answered:
  "case serve_chat ce uuid q v of (r, v') \<Rightarrow>
     gr_ended r \<and> jget (gr_headers r) REQUEST_ID_HEADER = Some uuid \<and> v_due v' = v_due v \<and>
     (gr_status r < 400 \<longrightarrow> (\<exists>node. served_reply ce uuid q (r, v') node))"
proof (cases "serve_chat ce uuid q v")
  case (Pair r v')
  from serve_chat_answer [OF this] show ?thesis by (simp add: Pair)
qed

lemma chat_request_answered_witness:
  "\<exists>r v1. serve_chat ex_chat ''q1'' ex_gw_request init_svc = (r, v1) \<and> (\<exists>node. served_reply ex_chat ''q1'' ex_gw_request (r, v1) node)"
proof -
  obtain r v1 where s: "serve_chat ex_chat ''q1'' ex_gw_request init_svc = (r, v1)" "gr_status r = 200"
    using ex_served by blast
  with chat_request_answered [where ce = ex_chat and uuid = "''q1''" and q = ex_gw_request and v = init_svc] show ?thesis by simp
qed

lemma served_operator_is_credited_witness:
  "\<exists>r v1 credit. serve_chat ex_chat ''q1'' ex_gw_request init_svc = (r, v1) \<and> payout_of credit = 1700 \<and>
     s_requestId credit = ''q1'' \<and>
     v_due (snd (attachSettlementHook ex_env 20 (ex_confirmed (transport_of r)) v1)) = [credit]"
proof -
  obtain r v1 where s: "serve_chat ex_chat ''q1'' ex_gw_request init_svc = (r, v1)" "gr_status r = 200" "v_due v1 = []"
    using ex_served by blast
  have "evidenced (ex_confirmed (transport_of r)) ''T'' 2000"
    using dec_val_nat_str [of 2000]
    by (simp add: evidenced_def ex_confirmed_def settled_amount_def ex_digits wire_digits_def is_digit_def code_def)
  then obtain credit where "s_requestId credit = ''q1''" "payout_of credit = 2000 - 2000 * 1500 div 10000"
      "v_due (snd (attachSettlementHook ex_env 20 (ex_confirmed (transport_of r)) v1)) =
       v_due v1 @ (if payout_of credit = 0 then [] else [credit])"
    using served_operator_is_credited [OF s(1), where e = ex_env and until = 100 and w = v1 and m = 1500 and tm = 20
        and c = "ex_confirmed (transport_of r)" and tx = "''T''" and n = 2000] s(2)
    by (auto simp: ex_confirmed_def ex_chat_def ROUTING_NOTE_TTL_MS_def init_svc_def)
  with s(1,3) show ?thesis by auto
qed

end
