(* ===== verification/Paywall.thy ===== *)
theory Paywall
  imports Chat Config
begin

section \<open>Prices and the paywall (packages/gateway/src/x402/routes.ts, app.ts)\<close>

text \<open>
  The route table handed to the x402 payment middleware, the body of an unpaid answer, and the
  dispatcher that picks one immutable route table per price tier by the model in the request. The
  middleware and \<open>declareDiscoveryExtension\<close> belong to the x402 packages: the first stays outside,
  the second is the argument \<open>declare\<close>. A constant string outside the modelled character range is
  written in the range.
\<close>

subsection \<open>Constants\<close>

definition PAID_ROUTE_KEY :: string where "PAID_ROUTE_KEY = ''POST /v1/chat/completions''"
definition PAID_ROUTE_PATH :: string where "PAID_ROUTE_PATH = ''/v1/chat/completions''"
definition PAID_ROUTE_ALIAS_PATH :: string where "PAID_ROUTE_ALIAS_PATH = ''/v1/inference''"
definition PAID_ROUTE_ALIAS_KEY :: string where "PAID_ROUTE_ALIAS_KEY = ''POST /v1/inference''"
definition ICON_PATH :: string where "ICON_PATH = ''/static/icon.svg''"
definition SERVICE_NAME :: string where "SERVICE_NAME = ''x402 Mesh Inference''"

definition SERVICE_DESCRIPTION :: string where
  "SERVICE_DESCRIPTION = ''Pay-per-prompt OpenAI-compatible chat completions routed across a mesh of independent '' @
     ''GPU nodes, settled in USDC on Algorand via x402.''"

definition EXAMPLE_REQUEST :: jsval where
  "EXAMPLE_REQUEST = JObj
     [(''model'', JStr ''llama3.1:8b''),
      (''messages'', JArr
        [JObj [(''role'', JStr ''system''), (''content'', JStr ''You are a concise assistant.'')],
         JObj [(''role'', JStr ''user''), (''content'', JStr ''Summarise the x402 payment protocol in one sentence.'')]]),
      (''max_tokens'', num_of_int 128), (''temperature'', JNum (js_of_rat (1/5))), (''stream'', JBool False)]"

definition EXAMPLE_RESPONSE :: jsval where
  "EXAMPLE_RESPONSE = JObj
     [(''id'', JStr ''chatcmpl-9f2b1c4a6d7e''), (''object'', JStr ''chat.completion''), (''created'', num_of_int 1767225600),
      (''model'', JStr ''llama3.1:8b''),
      (''choices'', JArr [JObj
        [(''index'', num_of_int 0),
         (''message'', JObj [(''role'', JStr ''assistant''),
            (''content'', JStr (''x402 revives HTTP 402 so a client can pay for a request inline, with a '' @
               ''facilitator verifying and settling the payment on-chain.''))]),
         (''finish_reason'', JStr ''stop'')]]),
      (''usage'', JObj [(''prompt_tokens'', num_of_int 28), (''completion_tokens'', num_of_int 31),
         (''total_tokens'', num_of_int 59)])]"

definition DISCOVERY_TAGS :: "string list" where
  "DISCOVERY_TAGS = [''ai-inference'', ''llm'', ''openai-compatible'', ''algorand'']"

definition MAX_DISCOVERY_TAGS :: nat where "MAX_DISCOVERY_TAGS = 5"

subsection \<open>The payment option\<close>

definition maxTimeoutSeconds :: "gateway_config \<Rightarrow> jsnum" where
  "maxTimeoutSeconds cfg = js_max (Fin 60)
     (js_add (js_ceil (js_div (Fin (of_int (g_nodeRequestTimeoutMs cfg))) (Fin 1000))) (Fin 60))"

definition resourceUrl :: "gateway_config \<Rightarrow> string" where
  "resourceUrl cfg = g_publicBaseUrl cfg @ PAID_ROUTE_PATH"

definition quoted_price :: "gateway_config \<Rightarrow> string option \<Rightarrow> string" where
  "quoted_price cfg priceUsdc = (case priceUsdc of Some p \<Rightarrow> p | None \<Rightarrow> g_inboundPriceUsdc cfg)"

definition priceString :: "gateway_config \<Rightarrow> string option \<Rightarrow> string" where
  "priceString cfg priceUsdc = ''$'' @ quoted_price cfg priceUsdc"

text \<open>
  The table, cheapest first. A malformed price throws as soon as the comparator reads it, so a
  table of one entry is not read; equal prices keep their order. The \<open>default\<close> of the source's
  result is the configured price; \<open>unpaidPreview\<close> puts it next to the list.
\<close>

record model_price =
  mp_model :: string
  mp_usdc :: string
  mp_display :: string

definition pricingTable :: "gateway_config \<Rightarrow> model_price list res" where
  "pricingTable cfg =
     (let models = map (\<lambda>(model, usdc). \<lparr>mp_model = model, mp_usdc = usdc, mp_display = ''$'' @ usdc\<rparr>)
                     (g_modelPricesUsdc cfg)
      in if length models < 2 then Inr models
         else bind_res (map_res (\<lambda>p. bind_res (usdcToAtomic (mp_usdc p)) (\<lambda>a. Inr (a, p))) models)
                (\<lambda>priced. Inr (map snd (sort_key fst priced))))"

definition discoveryTags :: "gateway_config \<Rightarrow> string list" where
  "discoveryTags cfg = take MAX_DISCOVERY_TAGS (g_challengeTag cfg # DISCOVERY_TAGS)"

definition challengeExtra :: "avm \<Rightarrow> gateway_config \<Rightarrow> (string \<times> string) list res" where
  "challengeExtra a cfg = bind_res (usdcAssetId a (g_network cfg)) (\<lambda>asset.
     Inr [(''asset'', asset), (''tag'', g_challengeTag cfg)])"

record payment_option =
  po_scheme :: string
  po_payTo :: string
  po_price :: string
  po_network :: string
  po_maxTimeoutSeconds :: jsnum
  po_extra :: "(string \<times> string) list"

definition buildPaymentOption :: "avm \<Rightarrow> gateway_config \<Rightarrow> string option \<Rightarrow> payment_option res" where
  "buildPaymentOption a cfg priceUsdc =
     bind_res (facilitatorNetwork a (g_network cfg)) (\<lambda>network.
     bind_res (challengeExtra a cfg) (\<lambda>extra.
       Inr \<lparr>po_scheme = ''exact'', po_payTo = g_payToAddress cfg, po_price = priceString cfg priceUsdc,
         po_network = network, po_maxTimeoutSeconds = maxTimeoutSeconds cfg, po_extra = extra\<rparr>))"

subsection \<open>The unpaid answer\<close>

definition price_json :: "model_price \<Rightarrow> jsval" where
  "price_json p = JObj [(''model'', JStr (mp_model p)), (''usdc'', JStr (mp_usdc p)), (''display'', JStr (mp_display p))]"

definition unpaidPreview :: "avm \<Rightarrow> gateway_config \<Rightarrow> string option \<Rightarrow> jsval res" where
  "unpaidPreview a cfg priceUsdc =
     (let quoted = quoted_price cfg priceUsdc
      in bind_res (usdcToAtomic quoted) (\<lambda>atomic.
         bind_res (atomicToWire atomic) (\<lambda>wire_amount.
         bind_res (usdcAssetId a (g_network cfg)) (\<lambda>asset.
         bind_res (pricingTable cfg) (\<lambda>models.
         bind_res (facilitatorNetwork a (g_network cfg)) (\<lambda>network.
           Inr (JObj
             [(''service'', JStr SERVICE_NAME), (''description'', JStr SERVICE_DESCRIPTION),
              (''price'', JObj
                 [(''usdc'', JStr quoted), (''display'', JStr (priceString cfg (Some quoted))), (''atomic'', JStr wire_amount),
                  (''asset'', JStr asset), (''decimals'', num_of_int 6), (''per'', JStr ''request'')]),
              (''pricing'', JObj
                 [(''default'', JStr (g_inboundPriceUsdc cfg)), (''models'', JArr (map price_json models)),
                  (''endpoint'', JStr (g_publicBaseUrl cfg @ ''/v1/pricing''))]),
              (''network'', JStr network), (''meshNetwork'', JStr (name_of_mesh (g_meshNetwork cfg))),
              (''payTo'', JStr (g_payToAddress cfg)), (''facilitator'', JStr (g_facilitatorUrl cfg)),
              (''scheme'', JStr ''exact''), (''maxTimeoutSeconds'', JNum (maxTimeoutSeconds cfg)),
              (''tags'', JArr (map JStr (discoveryTags cfg))),
              (''howToPay'', JArr
                 [JStr ''Retry this request with an `x402` client configured for the Algorand `exact` scheme.'',
                  JStr ''The facilitator sponsors the ALGO fee, so you only sign the USDC asset transfer.'',
                  JStr ''Your paying account must be opted in to the USDC ASA before the transfer can land.'']),
              (''models'', JObj
                 [(''discovery'', JStr (g_publicBaseUrl cfg @ ''/v1/nodes'')),
                  (''note'', JStr ''Available models are the union of the capabilities advertised by healthy nodes.''),
                  (''example'', JStr ''llama3.1:8b'')]),
              (''exampleRequest'', EXAMPLE_REQUEST), (''exampleResponse'', EXAMPLE_RESPONSE),
              (''documentation'', JStr (g_publicBaseUrl cfg @ ''/llms.txt''))])))))))"

subsection \<open>The route table\<close>

text \<open>\<open>rt_unpaid\<close> is what the callback \<open>unpaidResponseBody\<close> answers when the middleware calls it.\<close>

record route_config =
  rt_accepts :: payment_option
  rt_description :: string
  rt_mimeType :: string
  rt_serviceName :: string
  rt_iconUrl :: string
  rt_tags :: "string list"
  rt_extensions :: jsval
  rt_unpaid :: "(string \<times> jsval) res"
  rt_resource :: string

definition route_entry ::
  "avm \<Rightarrow> (jsval \<Rightarrow> jsval) \<Rightarrow> gateway_config \<Rightarrow> string option \<Rightarrow> string \<Rightarrow> route_config res" where
  "route_entry a declare_ext cfg priceUsdc path =
     bind_res (buildPaymentOption a cfg priceUsdc) (\<lambda>accepts.
       Inr \<lparr>rt_accepts = accepts, rt_description = SERVICE_DESCRIPTION, rt_mimeType = ''application/json'',
         rt_serviceName = SERVICE_NAME, rt_iconUrl = g_publicBaseUrl cfg @ ICON_PATH, rt_tags = discoveryTags cfg,
         rt_extensions = declare_ext (JObj [(''bodyType'', JStr ''json''), (''input'', EXAMPLE_REQUEST),
           (''output'', JObj [(''example'', EXAMPLE_RESPONSE)])]),
         rt_unpaid = bind_res (unpaidPreview a cfg priceUsdc) (\<lambda>b. Inr (''application/json'', b)),
         rt_resource = g_publicBaseUrl cfg @ path\<rparr>)"

type_synonym routes_config = "(string \<times> route_config) list"

definition buildRoutesConfig ::
  "avm \<Rightarrow> (jsval \<Rightarrow> jsval) \<Rightarrow> gateway_config \<Rightarrow> string option \<Rightarrow> routes_config res" where
  "buildRoutesConfig a declare_ext cfg priceUsdc =
     bind_res (route_entry a declare_ext cfg priceUsdc PAID_ROUTE_PATH) (\<lambda>r1.
     bind_res (route_entry a declare_ext cfg priceUsdc PAID_ROUTE_ALIAS_PATH) (\<lambda>r2.
       Inr [(PAID_ROUTE_KEY, r1), (PAID_ROUTE_ALIAS_KEY, r2)]))"

subsection \<open>One middleware per price tier\<close>

definition body_model :: "jsval \<Rightarrow> string option" where
  "body_model body = (case property_of ''model'' body of JStr s \<Rightarrow> Some s | _ \<Rightarrow> None)"

text \<open>What is built at start-up; a request then only reads it.\<close>

record tier_dispatch =
  td_fallback :: routes_config
  td_byPrice :: "(string, routes_config) jsmap"
  td_prices :: model_prices
  td_default :: string

definition build_tiers ::
  "avm \<Rightarrow> (jsval \<Rightarrow> jsval) \<Rightarrow> gateway_config \<Rightarrow> tier_dispatch res" where
  "build_tiers a declare_ext cfg =
     (let tiers = priceTiers (g_modelPricesUsdc cfg) (g_inboundPriceUsdc cfg)
      in bind_res (buildRoutesConfig a declare_ext cfg (Some (g_inboundPriceUsdc cfg))) (\<lambda>fallback.
         bind_res (if length tiers = 1 then Inr []
             else map_res (\<lambda>price. bind_res (buildRoutesConfig a declare_ext cfg (Some price)) (\<lambda>t. Inr (price, t))) tiers)
           (\<lambda>entries. Inr \<lparr>td_fallback = fallback, td_byPrice = fold (\<lambda>(k, t). jset k t) entries [],
              td_prices = g_modelPricesUsdc cfg, td_default = g_inboundPriceUsdc cfg\<rparr>)))"

definition priceTierDispatch :: "tier_dispatch \<Rightarrow> jsval \<Rightarrow> routes_config" where
  "priceTierDispatch d body =
     (case jget (td_byPrice d) (resolveModelPrice (td_prices d) (td_default d) (body_model body)) of
        Some t \<Rightarrow> t | None \<Rightarrow> td_fallback d)"

subsection \<open>The dispatcher quotes the price of the model\<close>

lemma map_res_tagged:
  assumes "map_res (\<lambda>x. bind_res (f x) (\<lambda>y. Inr (x, y))) xs = Inr ps"
  shows "map fst ps = xs \<and> (\<forall>(x, y) \<in> set ps. f x = Inr y)"
  using assms by (induction xs arbitrary: ps) (auto simp: bind_res_Inr_iff)

lemma fold_jset_get:
  assumes "distinct (map fst ps)"
  shows "jget (fold (\<lambda>(k, t). jset k t) ps m) k = (case jget ps k of Some t \<Rightarrow> Some t | None \<Rightarrow> jget m k)"
  using assms
proof (induction ps arbitrary: m)
  case (Cons p ps)
  obtain k' t where p: "p = (k', t)" by (cases p)
  show ?case
  proof (cases "k = k'")
    case True
    then have "jget ps k = None" using Cons.prems p by (simp add: map_of_eq_None_iff)
    then show ?thesis using Cons p True by (simp add: jget_jset)
  next
    case False
    then show ?thesis using Cons p by (simp add: jget_jset split: option.split)
  qed
qed simp

lemma distinct_tiers: "distinct (priceTiers prices fb)"
  by (simp add: priceTiers_def)

lemma one_tier:
  assumes "length (priceTiers prices fb) = 1"
  shows "resolveModelPrice prices fb m = fb"
proof -
  have "fb \<in> set (priceTiers prices fb)" by (simp add: priceTiers_def)
  moreover obtain x where "priceTiers prices fb = [x]" using assms by (auto simp: length_Suc_conv)
  ultimately show ?thesis using resolveModelPrice_in_tiers [of prices fb m] by simp
qed

lemma dispatch_builds:
  assumes "build_tiers a ext cfg = Inr d"
  shows "buildRoutesConfig a ext cfg (Some (resolveModelPrice (g_modelPricesUsdc cfg) (g_inboundPriceUsdc cfg) (body_model body)))
    = Inr (priceTierDispatch d body)"
proof -
  let ?tiers = "priceTiers (g_modelPricesUsdc cfg) (g_inboundPriceUsdc cfg)"
  let ?p = "resolveModelPrice (g_modelPricesUsdc cfg) (g_inboundPriceUsdc cfg) (body_model body)"
  let ?b = "\<lambda>p. buildRoutesConfig a ext cfg (Some p)"
  obtain fb entries where fb: "?b (g_inboundPriceUsdc cfg) = Inr fb"
      and en: "(if length ?tiers = 1 then Inr [] else map_res (\<lambda>p. bind_res (?b p) (\<lambda>t. Inr (p, t))) ?tiers) = Inr entries"
      and d: "d = \<lparr>td_fallback = fb, td_byPrice = fold (\<lambda>(k, t). jset k t) entries [],
              td_prices = g_modelPricesUsdc cfg, td_default = g_inboundPriceUsdc cfg\<rparr>"
    using assms unfolding build_tiers_def Let_def bind_res_Inr_iff by auto
  show ?thesis
  proof (cases "length ?tiers = 1")
    case True
    then show ?thesis using en fb d one_tier by (simp add: priceTierDispatch_def)
  next
    case False
    then have ps: "map fst entries = ?tiers" "\<forall>(p, t) \<in> set entries. ?b p = Inr t"
      using map_res_tagged [where f = ?b and xs = ?tiers and ps = entries] en by simp_all
    then have di: "distinct (map fst entries)" using distinct_tiers by metis
    have "?p \<in> set (map fst entries)" using resolveModelPrice_in_tiers ps(1) by metis
    then obtain t where t: "(?p, t) \<in> set entries" by auto
    then have "jget entries ?p = Some t" using di by (simp add: map_of_eq_Some_iff)
    moreover have "?b ?p = Inr t" using ps(2) t by blast
    ultimately show ?thesis using d fold_jset_get [OF di, of "[]"] by (simp add: priceTierDispatch_def)
  qed
qed

subsection \<open>What an unpaid client is told\<close>

lemma map_res_total: "(\<And>x. x \<in> set xs \<Longrightarrow> \<exists>y. f x = Inr y) \<Longrightarrow> \<exists>ys. map_res f xs = Inr ys"
  by (induction xs) fastforce+

lemma pricingTable_total:
  assumes "good_table (g_modelPricesUsdc cfg)"
  shows "\<exists>ms. pricingTable cfg = Inr ms"
proof -
  let ?ms = "map (\<lambda>(model, usdc). \<lparr>mp_model = model, mp_usdc = usdc, mp_display = ''$'' @ usdc\<rparr>) (g_modelPricesUsdc cfg)"
  have "\<exists>y. bind_res (usdcToAtomic (mp_usdc p)) (\<lambda>a. Inr (a, p)) = Inr y" if "p \<in> set ?ms" for p
    using that assms by (auto simp: good_table_def isOk_iff)
  then have "\<exists>ps. map_res (\<lambda>p. bind_res (usdcToAtomic (mp_usdc p)) (\<lambda>a. Inr (a, p))) ?ms = Inr ps"
    by (rule map_res_total)
  then show ?thesis by (elim exE) (simp add: pricingTable_def Let_def del: length_map)
qed

text \<open>The advertised table lists every configured price once, cheapest first.\<close>

lemma pricingTable_sorted:
  assumes "pricingTable cfg = Inr ms"
  shows "set (map (\<lambda>p. (mp_model p, mp_usdc p)) ms) = set (g_modelPricesUsdc cfg) \<and>
    length ms = length (g_modelPricesUsdc cfg) \<and> sorted (map (\<lambda>p. projr (usdcToAtomic (mp_usdc p))) ms)"
proof -
  let ?ms = "map (\<lambda>(model, usdc). \<lparr>mp_model = model, mp_usdc = usdc, mp_display = ''$'' @ usdc\<rparr>) (g_modelPricesUsdc cfg)"
  have all: "set (map (\<lambda>p. (mp_model p, mp_usdc p)) ?ms) = set (g_modelPricesUsdc cfg)"
    by (force simp: image_iff)
  show ?thesis
  proof (cases "length ?ms < 2")
    case True
    then have ms: "ms = ?ms" using assms by (simp add: pricingTable_def Let_def)
    obtain p where "?ms = [] \<or> ?ms = [p]" using True by (cases ?ms; cases "tl ?ms") auto
    with all ms show ?thesis by (auto simp del: length_map)
  next
    case False
    let ?g = "\<lambda>p. bind_res (usdcToAtomic (mp_usdc p)) (\<lambda>a. Inr (a, p))"
    obtain ps where ps: "map_res ?g ?ms = Inr ps" "ms = map snd (sort_key fst ps)"
      using assms False by (auto simp: pricingTable_def Let_def bind_res_Inr_iff)
    have tagged: "map snd qs = xs \<and> (\<forall>(a, p) \<in> set qs. usdcToAtomic (mp_usdc p) = Inr a)" if "map_res ?g xs = Inr qs" for xs qs
      using that by (induction xs arbitrary: qs) (auto simp: bind_res_Inr_iff)
    have t: "map snd ps = ?ms" "\<forall>(a, p) \<in> set ps. usdcToAtomic (mp_usdc p) = Inr a" using tagged [OF ps(1)] by blast+
    have ms: "set ms = set ?ms" "length ms = length ?ms"
      unfolding ps(2) t(1) [symmetric] by simp_all
    have m: "set (map (\<lambda>p. (mp_model p, mp_usdc p)) ms) = set (map (\<lambda>p. (mp_model p, mp_usdc p)) ?ms)"
      unfolding set_map ms(1) ..
    have "map (\<lambda>p. projr (usdcToAtomic (mp_usdc p))) ms = map fst (sort_key fst ps)"
      unfolding ps(2) map_map using t(2) by (intro map_cong) auto
    then have "sorted (map (\<lambda>p. projr (usdcToAtomic (mp_usdc p))) ms)" by simp
    then show ?thesis by (intro conjI) (simp_all only: m all ms(2) length_map)
  qed
qed

text \<open>A dollar sign in front of a price that starts with a digit does not change what it parses to.\<close>

lemma dropWhile_snoc: "\<not> P c \<Longrightarrow> dropWhile P (xs @ [c]) = dropWhile P xs @ [c]"
  by (induction xs) simp_all

lemma trim_Cons: "\<not> is_ws c \<Longrightarrow> trim (c # r) = c # rev (dropWhile is_ws (rev r))"
  by (simp add: trim_def dropWhile_snoc)

lemma usdcToAtomic_dollar:
  assumes "p \<noteq> []" "is_digit (hd p)" "usdcToAtomic p = Inr n"
  shows "usdcToAtomic (''$'' @ p) = Inr n"
proof -
  obtain c r where p: "p = c # r" using assms(1) by (cases p) auto
  then have c: "is_digit c" "\<not> is_ws c" using assms(2) by (simp_all add: is_digit_not_ws)
  have d: "\<not> is_ws CHR ''$''" by (simp add: is_ws_def code_def)
  obtain t where t: "trim p = c # t" "trim (''$'' @ p) = CHR ''$'' # c # t"
    using c(2) d by (simp add: p trim_Cons dropWhile_snoc)
  have n: "c \<noteq> CHR ''-''" "c \<noteq> CHR ''$''" using c(1) by (auto simp: is_digit_def code_def)
  have "decimal_match (CHR ''$'' # c # t) = decimal_match (c # t)" using n by (simp add: decimal_match_def)
  then show ?thesis using n assms(3) unfolding usdcToAtomic_def t
    by (auto simp: starts_with_def Let_def split: option.splits prod.splits if_splits)
qed

text \<open>An unpaid answer that asks for the payment option it comes with.\<close>

definition asks_for :: "jsval \<Rightarrow> payment_option \<Rightarrow> string \<Rightarrow> int \<Rightarrow> bool" where
  "asks_for preview opt price n \<longleftrightarrow>
     po_price opt = ''$'' @ price \<and> usdcToAtomic (po_price opt) = Inr n \<and> property_of ''usdc'' (property_of ''price'' preview) = JStr price \<and>
     property_of ''atomic'' (property_of ''price'' preview) = JStr (nat_str (nat n)) \<and>
     map_option JStr (map_of (po_extra opt) ''asset'') = Some (property_of ''asset'' (property_of ''price'' preview)) \<and>
     property_of ''network'' preview = JStr (po_network opt) \<and> property_of ''payTo'' preview = JStr (po_payTo opt) \<and>
     property_of ''scheme'' preview = JStr (po_scheme opt) \<and>
     property_of ''maxTimeoutSeconds'' preview = JNum (po_maxTimeoutSeconds opt)"

lemma unpaidPreview_asks:
  assumes "buildPaymentOption a cfg (Some price) = Inr opt" "usdcToAtomic price = Inr n" "good_table (g_modelPricesUsdc cfg)"
    and "is_digit (hd price)"
  shows "\<exists>preview. unpaidPreview a cfg (Some price) = Inr preview \<and> asks_for preview opt price n"
proof -
  obtain network asset where o: "facilitatorNetwork a (g_network cfg) = Inr network" "usdcAssetId a (g_network cfg) = Inr asset"
      "opt = \<lparr>po_scheme = ''exact'', po_payTo = g_payToAddress cfg, po_price = priceString cfg (Some price),
         po_network = network, po_maxTimeoutSeconds = maxTimeoutSeconds cfg,
         po_extra = [(''asset'', asset), (''tag'', g_challengeTag cfg)]\<rparr>"
    using assms(1) by (auto simp: buildPaymentOption_def challengeExtra_def bind_res_Inr_iff)
  obtain ms where ms: "pricingTable cfg = Inr ms" using pricingTable_total [OF assms(3)] by blast
  have n: "0 \<le> n" using assms(2) by (rule usdcToAtomic_Inr)
  have "price \<noteq> []" using assms(2) by (auto simp: usdcToAtomic_def trim_def)
  then have dollar: "usdcToAtomic (''$'' @ price) = Inr n" using assms(4,2) by (rule usdcToAtomic_dollar)
  show ?thesis
    using n dollar by (simp add: unpaidPreview_def Let_def quoted_price_def assms(2) atomicToWire_def o ms asks_for_def
        property_of_def priceString_def)
qed

lemma discoveryTags_facts: "hd (discoveryTags cfg) = g_challengeTag cfg" "length (discoveryTags cfg) \<le> MAX_DISCOVERY_TAGS"
  by (simp_all add: discoveryTags_def MAX_DISCOVERY_TAGS_def)

text \<open>
  C11: A client is quoted the price of the model it asked for, and told the same thing twice. On a booted
  gateway, whatever the body, each route the dispatcher hands to the payment middleware asks for the
  price \<open>resolveModelPrice\<close> gives for the body's model, when that price is configured without a dollar
  sign (it starts with a digit; with one, see \<open>dollar_price_doubled\<close>): the price of the option parses to
  the same atomic amount as the configured one, and the unpaid answer names that price, its exact atomic
  amount, asset, network, receiver, scheme and deadline as the payment option; the challenge tag is in
  the option and is the first of at most five tags.
\<close>

theorem paywall_quotes_model_price:
  assumes "sdk_ok a" "loadGatewayConfig a parse json_parse env = Inr cfg" "build_tiers a ext cfg = Inr d"
    and "(key, rt) \<in> set (priceTierDispatch d body)"
    and "price = resolveModelPrice (g_modelPricesUsdc cfg) (g_inboundPriceUsdc cfg) (body_model body)"
    and "is_digit (hd price)"
  shows "\<exists>n preview. usdcToAtomic price = Inr n \<and> rt_unpaid rt = Inr (''application/json'', preview) \<and>
    asks_for preview (rt_accepts rt) price n \<and> map_of (po_extra (rt_accepts rt)) ''tag'' = Some (g_challengeTag cfg) \<and>
    hd (rt_tags rt) = g_challengeTag cfg \<and> length (rt_tags rt) \<le> MAX_DISCOVERY_TAGS"
proof -
  have ok: "config_ok a cfg" using assms(1,2) by (rule loaded_config_ok)
  then have good: "good_table (g_modelPricesUsdc cfg)" by (simp add: config_ok_def)
  have "isOk (usdcToAtomic price)"
    using ok unfolding assms(5) by (auto simp: resolveModelPrice_def config_ok_def good_table_def usdc_amount_ok_def
        split: option.split dest: map_of_SomeD)
  then obtain n where n: "usdcToAtomic price = Inr n" by (auto simp: isOk_iff)
  have "buildRoutesConfig a ext cfg (Some price) = Inr (priceTierDispatch d body)"
    using dispatch_builds [OF assms(3)] unfolding assms(5) .
  then obtain r1 r2 where e: "route_entry a ext cfg (Some price) PAID_ROUTE_PATH = Inr r1"
      "route_entry a ext cfg (Some price) PAID_ROUTE_ALIAS_PATH = Inr r2"
      "priceTierDispatch d body = [(PAID_ROUTE_KEY, r1), (PAID_ROUTE_ALIAS_KEY, r2)]"
    unfolding buildRoutesConfig_def bind_res_Inr_iff by fastforce
  have "rt = r1 \<or> rt = r2" using assms(4) unfolding e(3) by auto
  then obtain path where rt: "route_entry a ext cfg (Some price) path = Inr rt" using e(1,2) by blast
  then obtain opt where opt: "buildPaymentOption a cfg (Some price) = Inr opt" "rt_accepts rt = opt"
      "rt_unpaid rt = bind_res (unpaidPreview a cfg (Some price)) (\<lambda>b. Inr (''application/json'', b))"
      "rt_tags rt = discoveryTags cfg"
    by (auto simp: route_entry_def bind_res_Inr_iff)
  have "map_of (po_extra opt) ''tag'' = Some (g_challengeTag cfg)"
    using opt(1) by (auto simp: buildPaymentOption_def challengeExtra_def bind_res_Inr_iff)
  with unpaidPreview_asks [OF opt(1) n good assms(6)] n opt discoveryTags_facts show ?thesis by auto
qed

lemma build_tiers_total:
  assumes "isOk (facilitatorNetwork a (g_network cfg))" "isOk (usdcAssetId a (g_network cfg))"
  shows "\<exists>d. build_tiers a ext cfg = Inr d"
proof -
  have b: "\<exists>r. buildRoutesConfig a ext cfg p = Inr r" for p
    using assms by (auto simp: buildRoutesConfig_def route_entry_def buildPaymentOption_def challengeExtra_def isOk_iff)
  obtain fb where fb: "buildRoutesConfig a ext cfg (Some (g_inboundPriceUsdc cfg)) = Inr fb" using b by blast
  have "\<exists>y. bind_res (buildRoutesConfig a ext cfg (Some p)) (\<lambda>t. Inr (p, t)) = Inr y" for p
    using b [of "Some p"] by auto
  then have "\<exists>ps. map_res (\<lambda>p. bind_res (buildRoutesConfig a ext cfg (Some p)) (\<lambda>t. Inr (p, t))) ts = Inr ps" for ts
    by (rule map_res_total)
  then obtain ps where "map_res (\<lambda>p. bind_res (buildRoutesConfig a ext cfg (Some p)) (\<lambda>t. Inr (p, t)))
      (priceTiers (g_modelPricesUsdc cfg) (g_inboundPriceUsdc cfg)) = Inr ps" by blast
  then show ?thesis unfolding build_tiers_def Let_def fb bind_res_simps by simp
qed

lemma demo_assets: "isOk (usdcAssetId demo_avm (toCaip2 demo_avm n))"
  using normalize_canonical [OF demo_sdk_ok toCaip2_supported [of demo_avm n]]
  by (cases n) (simp_all add: usdcAssetId_def demo_avm_def USDC_CHAIN_DECIMALS_def)

lemma paywall_quotes_model_price_witness:
  "\<exists>cfg d rt preview n. build_tiers demo_avm (\<lambda>v. v) cfg = Inr d \<and> rt \<in> snd ` set (priceTierDispatch d JNull) \<and>
     rt_unpaid rt = Inr (''application/json'', preview) \<and> asks_for preview (rt_accepts rt) (g_inboundPriceUsdc cfg) n"
proof -
  obtain cfg where c: "loadGatewayConfig demo_avm any_url (\<lambda>_. None) ex_env_vars = Inr cfg"
      and digit: "is_digit (hd (g_inboundPriceUsdc cfg))"
    using ex_env_config by (auto simp: DEFAULT_INBOUND_USDC_def is_digit_def code_def)
  have net: "g_network cfg = toCaip2 demo_avm (g_meshNetwork cfg)"
    using loaded_config_ok [OF demo_sdk_ok c] by (simp add: config_ok_def)
  obtain d where d: "build_tiers demo_avm (\<lambda>v. v) cfg = Inr d"
    using build_tiers_total [of demo_avm cfg] facilitator_total [OF demo_sdk_ok] demo_assets unfolding net by blast
  have p: "resolveModelPrice (g_modelPricesUsdc cfg) (g_inboundPriceUsdc cfg) (body_model JNull) = g_inboundPriceUsdc cfg"
    by (simp add: resolveModelPrice_def body_model_def property_of_def)
  have "priceTierDispatch d JNull \<noteq> []"
    using dispatch_builds [OF d, of JNull] by (auto simp: buildRoutesConfig_def bind_res_Inr_iff)
  then obtain key rt where "(key, rt) \<in> set (priceTierDispatch d JNull)"
    by (cases "priceTierDispatch d JNull") auto
  with paywall_quotes_model_price [OF demo_sdk_ok c d this p [symmetric]] d digit show ?thesis by force
qed

text \<open>
  A price may be configured with a leading dollar sign, and then the option asks for a malformed one.
\<close>

lemma dollar_price_doubled:
  assumes "g_inboundPriceUsdc cfg = ''$0.0020''"
  shows "usdc_amount_ok (g_inboundPriceUsdc cfg) \<and> priceString cfg None = ''$$0.0020'' \<and>
    \<not> usdc_amount_ok (priceString cfg None)"
  unfolding priceString_def quoted_price_def assms option.case
  by (simp add: usdc_amount_ok_def usdcToAtomic_def trim_def is_ws_def code_def
      Let_def starts_with_def decimal_match_def is_digit_def USDC_DECIMALS_def)

end
