(* ===== verification/Spec2Isabelle.thy ===== *)
theory Spec2Isabelle
  imports SettlementRecovery SelectionProps MarketProps RegistryProps NodeProps Semaphore RateLimit Sse RouterProps
    HeartbeatProps NodeServerProps RedisProps RedisLedger ChatSettlement Paywall
begin

text \<open>
  The program is a paid inference market. A gateway (packages/gateway) sells chat completions behind
  an HTTP 402 paywall, routes each paid request to one of many independent nodes, and pays the node's
  operator on chain afterwards. Nodes run a daemon (packages/node-daemon) in front of a local model
  server: it registers the node with a signed message, sends signed heartbeats and answers the
  gateway's requests. packages/registry keeps the table of nodes and their measured health,
  packages/settlement the ledger and the payouts, packages/shared what both sides agree on: money,
  prices, schemas, canonical bytes, configuration, the guard against private endpoints.

  A request passes through the parts in this order: the paywall quotes the price of the model
  (\<open>Paywall\<close>), the chat route parses the body and calls the router (\<open>Chat\<close>), the router asks the
  selector for nodes and calls them (\<open>Selector\<close>, \<open>Router\<close>), reporting outcomes to the node store
  (\<open>NodeStore\<close>, \<open>RedisStore\<close>); the daemon admits and answers it (\<open>NodeServer\<close>); the settlement hook
  turns the confirmed payment into a settlement (\<open>Chat\<close>), and the settlement service splits it and
  pays the operator (\<open>Settlement\<close>).

  \<^bold>\<open>Shared code.\<close>
  \<^item> \<open>Prelude\<close>, \<open>Strings\<close>, \<open>JsNumber\<close>: results with an error on the left, insertion-ordered maps,
    ECMAScript strings (trim, decimal digits, slices), and binary64 numbers as rationals rounded to
    nearest even plus the special values; \<open>rounding\<close> is the locale of the laws of a rounding,
    interpreted by \<open>fl64\<close>.
  \<^item> \<open>Errors\<close> (shared/src/errors.ts): codes, statuses, the sanitiser of error details.
  \<^item> \<open>Money\<close>, \<open>Pricing\<close>, \<open>Networks\<close> (money.ts, pricing.ts, networks.ts): exact amounts as integers
    of micro-USDC, the price table, the split of a payment.
  \<^item> \<open>Types\<close>, \<open>Json\<close>, \<open>Signing\<close>, \<open>Schemas\<close> (types.ts, signing.ts, schemas.ts): the wire records,
    canonical JSON with its injectivity, the bytes that are signed, the schemas as functions from JSON.
  \<^item> \<open>NetGuard\<close> (net-guard.ts): address ranges, the shape of an endpoint, the resolution cache.
  \<^item> \<open>Config\<close>, \<open>DaemonConfig\<close> (config.ts): the two loaders.

  \<^bold>\<open>Registry and selection.\<close>
  \<^item> \<open>Health\<close>, \<open>NodeStore\<close> (registry/src/store/memory.ts, types.ts): the health derived from the
    outcome window, the locale \<open>node_store\<close> of the storage contract and its interpretation by
    the in-memory store. \<open>RegistryProps\<close>: the circuit breaker.
  \<^item> \<open>Score\<close>, \<open>Selector\<close>, \<open>SelectionProps\<close>, \<open>MarketProps\<close> (registry/src/selector): the scores, the
    reasons for which a node is not routable, the weighted draw; what a selected node satisfies.
  \<^item> \<open>Redis\<close>, \<open>RedisStore\<close>, \<open>RedisProps\<close> (registry/src/store/redis.ts, index.ts): the locale \<open>redis\<close> of
    what an answered command promises, interpreted by a server that may fail at any command; the Redis
    node store as commands over it, and that it answers as the in-memory store whenever it degrades.
  \<^item> \<open>RedisLedger\<close> (store/ledger.ts, accruals.ts): the durable ledger and the outstanding accruals
    against their specifications as maps; what a write cut off half-way leaves.

  \<^bold>\<open>Gateway.\<close>
  \<^item> \<open>NonceCache\<close>, \<open>NodeRoutes\<close>, \<open>NodeProps\<close> (gateway/src/services/nonceCache.ts,
    registryAdapter.ts, routes/nodes.ts): registration, heartbeat and listing over any store that meets
    the contract; who owns a node id, which messages are accepted.
  \<^item> \<open>RateLimit\<close> (middleware/rateLimit.ts): the token buckets.
  \<^item> \<open>Router\<close>, \<open>RouterProps\<close> (services/router.ts): one request from its selection to its failover, as
    the list of the events it causes.
  \<^item> \<open>Chat\<close>, \<open>ChatProps\<close>, \<open>ChatSettlement\<close> (routes/chat.ts, middleware/requestId.ts,
    errorHandler.ts, the settlement hook of app.ts): the Express response as the code changes it, the
    handler, the hook; that every request is answered and that a payment credits the operator who
    served it, whatever the settlement service does in between (\<open>other_step\<close>).
  \<^item> \<open>Paywall\<close> (x402/routes.ts, the dispatcher of app.ts): what an unpaid client is quoted, per model.

  \<^bold>\<open>Settlement.\<close> \<open>SettlementState\<close> and \<open>Settlement\<close> (settlement/src/service.ts) hold the state of the
  service and every operation, with the payout tasks as a step relation (\<open>svc_step\<close>, \<open>reach\<close>)
  whose replies come from the chain; \<open>SettlementBooks\<close> proves that each accepted request is in exactly
  one place (accruing, in a payout job, done), \<open>SettlementWork\<close> that payout tasks end and how many calls they
  make, \<open>SettlementOwed\<close> that the report of pending payouts is exact, \<open>SettlementRecovery\<close> what a
  restart recovers; \<open>SettlementProps\<close> states the properties.

  \<^bold>\<open>Daemon.\<close>
  \<^item> \<open>Keys\<close> (keys.ts), \<open>Onboarding\<close>, \<open>DaemonProps\<close> (registration.ts, http.ts): the operator key, the
    address derived from it, the registration client and its retries, and that the gateway admits
    what the client sends.
  \<^item> \<open>Heartbeat\<close>, \<open>HeartbeatProps\<close> (heartbeat.ts): one beat, the timer state machine of the loop
    (\<open>hb_step\<close>, \<open>hb_reach\<close>), and that the gateway accepts a beat.
  \<^item> \<open>Semaphore\<close>, \<open>Sse\<close>, \<open>NodeServer\<close>, \<open>NodeServerProps\<close> (semaphore.ts, sse.ts, server.ts):
    admission, the SSE parser, the request handlers and their interleaving (\<open>sv_step\<close>), in which the
    head, the chunks and the end of a stream are steps of their own.

  \<^bold>\<open>Conventions.\<close> A thrown error is \<open>Inl\<close>, a result \<open>Inr\<close>. An asynchronous operation is the
  function from the state before to the state after where nothing else can run in between, and a step
  of a relation where something can. Time, random draws, UUIDs, nonces, DNS answers, replies of other
  machines and the clients of other services are arguments. Fields carry a prefix because record
  selectors share a name space. Names ending in \<open>Props\<close> hold properties that span components; a
  property is numbered C1, C2, ... in the text above it and a theorem \<open>x_witness\<close> applies \<open>x\<close> to
  concrete values.

  \<^bold>\<open>Bounds and fuel.\<close> No definition runs on fuel except \<open>drive\<close> of \<open>SettlementWork\<close>, which runs a payout task against an
  arbitrary environment: \<open>fuel_of\<close>, three steps per attempt allowed and two more, is
  enough for it to end, whatever the replies. Integers are unbounded where the source has \<open>bigint\<close> and
  for counters; base32 uses 32-bit words, as the source's bit operators do; latencies, ratios, scores,
  weights and tokens are binary64.

  \<^bold>\<open>Parameters.\<close> The Algorand SDK (address decoding, Ed25519, SHA-512/256, transactions), the
  constants of the x402 SDK, the URL parser, \<open>JSON.parse\<close>, \<open>JSON.stringify\<close> where its text is not
  canonical JSON, \<open>TextDecoder\<close>, Redis and DNS are arguments of the definitions that use them; the laws
  used are named hypotheses (\<open>sdk_ok\<close>, \<open>ed_ok\<close>, \<open>same_crypto\<close>, \<open>codec_ok\<close>, the locale \<open>redis\<close>).

  \<^bold>\<open>Not modelled.\<close> HTTP frameworks, sockets and process lifecycle, log lines, spans and metrics,
  HTML pages and OpenAPI documents, the command lines, and the scripts under src/scripts, which are
  test harnesses.
\<close>

end
